(* ===== verification/Prelude.thy ===== *)
theory Prelude
  imports Main "HOL-Library.Word"
begin

text \<open>
  Shared vocabulary of the development: machine words, the status codes of
  \<^verbatim>\<open>api/bc_types.h\<close>, C character arrays and the string functions of the C library the
  sources call on them, and little-endian fields.

  Conventions. A C array of \<^verbatim>\<open>N\<close> bytes is a byte list of length \<^verbatim>\<open>N\<close>, terminator and
  stale bytes included; \<open>cstr\<close> is the C string it holds. A buffer with a length
  field is the byte list of its valid part. The byte order is little-endian, as on the
  x86-64 and ARM Linux targets of the daemon.
\<close>

unbundle bit_operations_syntax

named_theorems cstring_simps \<open>equations of the C string functions\<close>
named_theorems codec_simps \<open>lengths and field projections of encoded structures\<close>

type_synonym byte = "8 word"
type_synonym u16 = "16 word"
type_synonym u32 = "32 word"
type_synonym u64 = "64 word"

section \<open>Status codes\<close>

datatype bc_status =
  BC_OK | BC_ERR | BC_ERR_INVALID | BC_ERR_IO | BC_ERR_NOMEM | BC_ERR_NOT_FOUND
| BC_ERR_TIMEOUT | BC_ERR_AUTH

fun status_code :: "bc_status \<Rightarrow> int" where
  "status_code BC_OK = 0"
| "status_code BC_ERR = - 1"
| "status_code BC_ERR_INVALID = - 2"
| "status_code BC_ERR_IO = - 3"
| "status_code BC_ERR_NOMEM = - 4"
| "status_code BC_ERR_NOT_FOUND = - 5"
| "status_code BC_ERR_TIMEOUT = - 6"
| "status_code BC_ERR_AUTH = - 7"

definition BC_MAX_CHANNEL_LEN :: nat where "BC_MAX_CHANNEL_LEN = 32"
definition BC_MAX_TOPIC_LEN :: nat where "BC_MAX_TOPIC_LEN = 64"
definition BC_MAX_PAYLOAD_LEN :: nat where "BC_MAX_PAYLOAD_LEN = 1400"

lemmas bc_limits = BC_MAX_CHANNEL_LEN_def BC_MAX_TOPIC_LEN_def BC_MAX_PAYLOAD_LEN_def

section \<open>C strings\<close>

definition str :: "string \<Rightarrow> byte list" where
  "str s = map of_char s"

definition cstr :: "byte list \<Rightarrow> byte list" where
  "cstr xs = takeWhile (\<lambda>b. b \<noteq> 0) xs"

definition strnlen :: "byte list \<Rightarrow> nat \<Rightarrow> nat" where
  "strnlen xs n = length (cstr (take n xs))"

definition strcmp_eq :: "byte list \<Rightarrow> byte list \<Rightarrow> bool" where
  "strcmp_eq a b \<longleftrightarrow> cstr a = cstr b"

definition zeros :: "nat \<Rightarrow> byte list" where
  "zeros n = replicate n 0"

definition blit :: "'a list \<Rightarrow> nat \<Rightarrow> 'a list \<Rightarrow> 'a list" where
  "blit dst off src = take off dst @ src @ drop (off + length src) dst"

definition strncpy :: "byte list \<Rightarrow> byte list \<Rightarrow> nat \<Rightarrow> byte list" where
  "strncpy dst src n = (let c = take n (cstr src) in blit dst 0 (c @ zeros (n - length c)))"

definition snprintf_s :: "byte list \<Rightarrow> byte list \<Rightarrow> byte list" where
  "snprintf_s dst src = blit dst 0 (take (length dst - 1) (cstr src) @ [0])"

definition terminated :: "byte list \<Rightarrow> bool" where
  "terminated xs \<longleftrightarrow> 0 \<in> set xs"

text \<open>The array of \<open>n\<close> bytes that holds exactly the string of \<open>xs\<close>, zero filled.\<close>

definition canon :: "nat \<Rightarrow> byte list \<Rightarrow> byte list" where
  "canon n xs = cstr xs @ zeros (n - length (cstr xs))"

lemma zeros_simps [cstring_simps, simp]:
  "length (zeros n) = n" "zeros 0 = []" "take m (zeros n) = zeros (min m n)"
  "drop m (zeros n) = zeros (n - m)" "set (zeros n) = (if n = 0 then {} else {0})"
  by (auto simp: zeros_def min_def)

lemma length_blit [simp]: "off + length src \<le> length dst \<Longrightarrow> length (blit dst off src) = length dst"
  by (simp add: blit_def)

lemma cstr_length_le: "length (cstr xs) \<le> length xs"
  by (simp add: cstr_def length_takeWhile_le)

lemma cstr_nonzero: "b \<in> set (cstr xs) \<Longrightarrow> b \<noteq> 0"
  by (auto simp: cstr_def dest: set_takeWhileD)

lemma cstr_idem [simp]: "cstr (cstr xs) = cstr xs"
  unfolding cstr_def by (rule takeWhile_eq_all_conv [THEN iffD2]) (auto dest: set_takeWhileD)

lemma cstr_Nil [simp]: "cstr [] = []"
  by (simp add: cstr_def)

lemma cstr_no_zero: "0 \<notin> set xs \<Longrightarrow> cstr xs = xs"
  unfolding cstr_def by (rule takeWhile_eq_all_conv [THEN iffD2]) auto

lemma cstr_append_zero: "0 \<notin> set xs \<Longrightarrow> cstr (xs @ 0 # ys) = xs"
  unfolding cstr_def by (subst takeWhile_append2) auto

lemma cstr_append_zeros: "0 \<notin> set xs \<Longrightarrow> cstr (xs @ zeros n) = xs"
  by (cases n) (auto simp: cstr_no_zero zeros_def cstr_append_zero)

lemma cstr_zeros [simp]: "cstr (zeros n) = []"
  using cstr_append_zeros [of "[]" n] by simp

lemma zero_notin_cstr [simp]: "0 \<notin> set (cstr xs)"
  using cstr_nonzero by blast

lemma zero_notin_take_cstr [simp]: "0 \<notin> set (take n (cstr xs))"
  using cstr_nonzero in_set_takeD by metis

lemma terminated_cstr_less: "terminated xs \<Longrightarrow> length (cstr xs) < length xs"
  unfolding terminated_def cstr_def
  by (metis (mono_tags) length_takeWhile_le le_neq_implies_less set_takeWhileD takeWhile_eq_take take_all_iff
      order_refl)

lemma cstr_take: "cstr (take n xs) = take n (cstr xs)"
  unfolding cstr_def
proof (induction xs arbitrary: n)
  case Nil
  then show ?case by simp
next
  case (Cons x xs)
  then show ?case by (cases n) simp_all
qed

lemma strnlen_min: "strnlen xs n = min n (length (cstr xs))"
  by (simp add: strnlen_def cstr_take)

lemma take_strnlen: "take (strnlen xs n) xs = take n (cstr xs)"
proof -
  have "take (length (cstr xs)) xs = cstr xs"
    by (simp add: cstr_def takeWhile_eq_take [symmetric])
  then have "take (min n (length (cstr xs))) xs = take n (cstr xs)"
    by (metis take_take)
  then show ?thesis by (simp add: strnlen_min)
qed

lemma take_cstr [simp]: "take (length (cstr xs)) xs = cstr xs"
  by (simp add: cstr_def takeWhile_eq_take [symmetric])

lemma cstr_Cons [cstring_simps]: "cstr (b # bs) = (if b = 0 then [] else b # cstr bs)"
  by (simp add: cstr_def)

lemma canon_simps [cstring_simps]:
  "cstr (canon n xs) = cstr xs"
  "length (cstr xs) \<le> n \<Longrightarrow> length (canon n xs) = n"
  "canon n (canon m xs) = canon n xs"
  by (simp_all add: canon_def cstr_append_zeros)

lemma cstr_snprintf_s [cstring_simps]:
  "dst \<noteq> [] \<Longrightarrow> cstr (snprintf_s dst src) = take (length dst - 1) (cstr src)"
  by (simp add: snprintf_s_def blit_def cstr_append_zero)

lemma length_snprintf_s [cstring_simps]:
  "dst \<noteq> [] \<Longrightarrow> length (snprintf_s dst src) = length dst"
  by (cases dst) (auto simp: snprintf_s_def blit_def min_def)

lemma snprintf_s_zeros [cstring_simps]:
  assumes "length (cstr src) < n"
  shows "snprintf_s (zeros n) src = canon n src"
proof -
  obtain m where m: "n - length (cstr src) = Suc m"
    using assms by (metis Suc_diff_Suc)
  then have "n - Suc (length (cstr src)) = m" by simp
  then show ?thesis using assms m
    by (simp add: snprintf_s_def blit_def canon_def zeros_def)
qed

lemma strncpy_zeros [cstring_simps]:
  "length (cstr src) < n \<Longrightarrow> strncpy (zeros n) src (n - 1) = canon n src"
proof -
  assume a: "length (cstr src) < n"
  then obtain m where m: "n = Suc m" by (cases n) auto
  with a have "zeros (m - length (cstr src)) @ zeros 1 = zeros (Suc m - length (cstr src))"
    by (simp add: zeros_def replicate_append_same Suc_diff_le)
  then show ?thesis using a m
    by (simp add: strncpy_def blit_def canon_def Let_def)
qed

lemma terminated_canon: "length (cstr xs) < n \<Longrightarrow> terminated (canon n xs)"
  by (simp add: terminated_def canon_def)

lemma find_append: "find P (xs @ ys) = (case find P xs of Some x \<Rightarrow> Some x | None \<Rightarrow> find P ys)"
  by (induction xs) auto

lemma find_in_set: "find P xs = Some x \<Longrightarrow> x \<in> set xs \<and> P x"
  by (induction xs) (auto split: if_split_asm)

section \<open>Little-endian fields\<close>

text \<open>
  \<^verbatim>\<open>memcpy\<close> of an integer field to and from a byte buffer on a little-endian machine.
\<close>

fun to_le :: "nat \<Rightarrow> 'a::len word \<Rightarrow> byte list" where
  "to_le 0 w = []"
| "to_le (Suc n) w = ucast w # to_le n (drop_bit 8 w)"

fun of_le :: "byte list \<Rightarrow> 'a::len word" where
  "of_le [] = 0"
| "of_le (b # bs) = ucast b OR push_bit 8 (of_le bs)"

lemma to_le_numeral [simp]:
  "to_le (numeral k) w = ucast w # to_le (pred_numeral k) (drop_bit 8 w)"
  by (simp add: numeral_eq_Suc)

lemma length_to_le [simp, codec_simps]: "length (to_le n w) = n"
  by (induction n arbitrary: w) simp_all

lemma add_8_div_8: "(8 + n) div 8 = Suc (n div 8)" for n :: nat
  by simp

lemma bit_of_le:
  "bit (of_le bs :: 'a::len word) i \<longleftrightarrow>
     i < LENGTH('a) \<and> i div 8 < length bs \<and> bit (bs ! (i div 8)) (i mod 8)"
proof (induction bs arbitrary: i)
  case Nil
  then show ?case by simp
next
  case (Cons b bs)
  show ?case
  proof (cases "i < 8")
    case True
    then show ?thesis
      by (auto simp: bit_or_iff bit_ucast_iff bit_push_bit_iff dest: bit_imp_le_length)
  next
    case False
    then obtain j where j: "i = j + 8" by (metis add.commute le_add_diff_inverse not_less)
    have "\<not> bit b i" using False bit_imp_le_length by fastforce
    moreover have "(j + 8) div 8 = Suc (j div 8)" by simp
    ultimately show ?thesis using j
      by (simp add: bit_or_iff bit_ucast_iff bit_push_bit_iff Cons.IH) auto
  qed
qed

lemma of_le_to_le: "of_le (to_le n (w :: 'a::len word)) = take_bit (8 * n) w"
proof (induction n arbitrary: w)
  case 0
  then show ?case by simp
next
  case (Suc n)
  show ?case
    by (rule bit_word_eqI)
      (auto simp: Suc bit_or_iff bit_ucast_iff bit_push_bit_iff bit_take_bit_iff bit_drop_bit_eq)
qed

lemma to_le_of_le: "8 * length bs \<le> LENGTH('a) \<Longrightarrow> to_le (length bs) (of_le bs :: 'a::len word) = bs"
proof (induction bs)
  case Nil
  then show ?case by simp
next
  case (Cons b bs)
  have d: "drop_bit 8 (of_le (b # bs) :: 'a word) = of_le bs"
    using Cons.prems
    by (intro bit_word_eqI) (auto simp: bit_drop_bit_eq bit_of_le add_8_div_8 simp del: of_le.simps)
  have u: "(ucast (of_le (b # bs) :: 'a word) :: byte) = b"
    using Cons.prems
    by (intro bit_word_eqI) (auto simp: bit_ucast_iff bit_of_le simp del: of_le.simps)
  show ?case
    using Cons.IH Cons.prems d u by (simp del: of_le.simps)
qed

lemma of_le_to_le_full: "8 * n = LENGTH('a) \<Longrightarrow> of_le (to_le n (w :: 'a::len word)) = w"
  by (simp add: of_le_to_le take_bit_word_eq_self)

lemma to_le_of_le_full:
  "length bs = n \<Longrightarrow> 8 * n = LENGTH('a) \<Longrightarrow> to_le n (of_le bs :: 'a::len word) = bs"
  using to_le_of_le [of bs, where 'a = 'a] by simp

lemma nth_to_le: "i < n \<Longrightarrow> to_le n w ! i = ucast (drop_bit (8 * i) w)"
proof (induction n arbitrary: w i)
  case 0
  then show ?case by simp
next
  case (Suc n)
  then show ?case by (cases i) (simp_all add: add.commute)
qed

text \<open>The low bytes of a number do not depend on the width it is kept in.\<close>

lemma to_le_of_nat:
  assumes "8 * n \<le> LENGTH('a::len)" "8 * n \<le> LENGTH('b::len)"
  shows "to_le n (of_nat k :: 'a word) = to_le n (of_nat k :: 'b word)"
proof (rule nth_equalityI)
  fix i
  assume "i < length (to_le n (of_nat k :: 'a word))"
  then have i: "i < n" by simp
  then have "8 * i + b < LENGTH('a) \<and> 8 * i + b < LENGTH('b)" if "b < 8" for b
    using that assms by simp
  then have "(ucast (drop_bit (8 * i) (of_nat k :: 'a word)) :: byte) = ucast (drop_bit (8 * i) (of_nat k :: 'b word))"
    by (intro bit_word_eqI) (simp add: bit_ucast_iff bit_drop_bit_eq bit_of_nat_iff)
  then show "to_le n (of_nat k :: 'a word) ! i = to_le n (of_nat k :: 'b word) ! i"
    using i by (simp add: nth_to_le)
qed simp

text \<open>
  The interface every fixed-width field or header of the wire formats implements: encoding
  has a constant width, and on that width encoding and decoding are inverse to each other.
\<close>

locale fixed_codec =
  fixes enc :: "'x \<Rightarrow> byte list" and dec :: "byte list \<Rightarrow> 'x" and width :: nat
  assumes enc_len: "length (enc x) = width"
    and dec_enc: "dec (enc x) = x"
    and enc_dec: "length bs = width \<Longrightarrow> enc (dec bs) = bs"
begin

lemma take_enc: "take width (enc x @ r) = enc x"
  by (simp add: enc_len)

lemma drop_enc: "drop width (enc x @ r) = r"
  by (simp add: enc_len)

lemma read_enc: "dec (take width (enc x @ r)) = x"
  by (simp add: enc_len dec_enc)

lemma enc_inj: "enc x = enc y \<Longrightarrow> x = y"
  by (metis dec_enc)

lemma enc_read: "width \<le> length bs \<Longrightarrow> enc (dec (take width bs)) = take width bs"
  by (simp add: enc_dec)

lemma dec_inj: "length a = width \<Longrightarrow> length b = width \<Longrightarrow> dec a = dec b \<Longrightarrow> a = b"
  by (metis enc_dec)

end

interpretation le16: fixed_codec "to_le 2 :: u16 \<Rightarrow> byte list" of_le 2
  by unfold_locales (auto intro: of_le_to_le_full to_le_of_le_full simp del: to_le_numeral)

interpretation le32: fixed_codec "to_le 4 :: u32 \<Rightarrow> byte list" of_le 4
  by unfold_locales (auto intro: of_le_to_le_full to_le_of_le_full simp del: to_le_numeral)

interpretation le64: fixed_codec "to_le 8 :: u64 \<Rightarrow> byte list" of_le 8
  by unfold_locales (auto intro: of_le_to_le_full to_le_of_le_full simp del: to_le_numeral)

lemma unat_of_nat_word [codec_simps]:
  "n < 2 ^ LENGTH('a) \<Longrightarrow> unat (of_nat n :: 'a::len word) = n"
  by (simp add: unat_of_nat)

lemma unat_bound: "unat (w :: 'a::len word) < 2 ^ LENGTH('a)"
  by (rule unsigned_less)

section \<open>Fields of a buffer\<close>

definition fld :: "nat \<Rightarrow> nat \<Rightarrow> byte list \<Rightarrow> byte list" where
  "fld off n bs = take n (drop off bs)"

lemma fld_skip [codec_simps]: "length a \<le> off \<Longrightarrow> fld off n (a @ b) = fld (off - length a) n b"
  by (simp add: fld_def)

lemma fld_hit [codec_simps]:
  "length a = n \<Longrightarrow> fld 0 n (a @ b) = a" "length a = n \<Longrightarrow> fld 0 n a = a"
  by (simp_all add: fld_def)

lemma length_fld [codec_simps]: "off + n \<le> length bs \<Longrightarrow> length (fld off n bs) = n"
  by (simp add: fld_def)

text \<open>Adjacent fields join to a prefix; as rewrite rules these put a parsed header together.\<close>

lemma fld_chain:
  "fld 0 n bs = take n bs"
  "take n bs @ fld n m bs = take (n + m) bs"
  "take n bs @ fld n m bs @ r = take (n + m) bs @ r"
  by (simp_all add: fld_def take_add)

lemma fld_whole: "length bs \<le> n \<Longrightarrow> fld 0 n bs = bs"
  by (simp add: fld_def)

lemma fld_append_left: "off + n \<le> length a \<Longrightarrow> fld off n (a @ b) = fld off n a"
  by (simp add: fld_def)

lemma fld_take: "off + n \<le> m \<Longrightarrow> fld off n (take m bs) = fld off n bs"
  by (simp add: fld_def drop_take)

end
