(* ===== verification/Topic_Match.thy ===== *)
theory Topic_Match
  imports Prelude "HOL-Library.Sublist"
begin

text \<open>
  \<^verbatim>\<open>src/daemon/topic_match.c\<close>: matching a subscription or route pattern against a
  topic. A pattern is a literal topic, or a prefix followed by one trailing star.
\<close>

definition strncmp_eq :: "byte list \<Rightarrow> byte list \<Rightarrow> nat \<Rightarrow> bool" where
  "strncmp_eq a b n \<longleftrightarrow> take n (cstr a) = take n (cstr b)"

definition STAR :: byte where "STAR = of_char (CHR ''*'')"

definition bc_topic_matches :: "byte list \<Rightarrow> byte list \<Rightarrow> bool" where
  "bc_topic_matches pattern topic =
     (if strcmp_eq pattern (str ''*'') then True
      else
        let len = length (cstr pattern) in
        if len > 0 \<and> cstr pattern ! (len - 1) = STAR
        then strncmp_eq pattern topic (len - 1)
        else strcmp_eq pattern topic)"

text \<open>What a pattern promises, over the C strings the arrays hold.\<close>

definition pattern_accepts :: "byte list \<Rightarrow> byte list \<Rightarrow> bool" where
  "pattern_accepts p t \<longleftrightarrow>
     (if p \<noteq> [] \<and> last p = STAR then prefix (butlast p) t else p = t)"

lemma cstr_star: "cstr (str ''*'') = [STAR]"
  by (simp add: cstr_def str_def STAR_def)

lemma take_eq_prefix: "n \<le> length p \<Longrightarrow> take n p = take n t \<longleftrightarrow> prefix (take n p) t"
  by (metis append_eq_conv_conj length_take min.absorb2 prefix_def take_is_prefix)

lemma topic_matches_accepts: "bc_topic_matches p t \<longleftrightarrow> pattern_accepts (cstr p) (cstr t)"
proof (cases "cstr p = [STAR]")
  case True
  then show ?thesis
    by (simp add: bc_topic_matches_def pattern_accepts_def strcmp_eq_def cstr_star)
next
  case False
  have "strncmp_eq p t (length (cstr p) - 1) \<longleftrightarrow> prefix (butlast (cstr p)) (cstr t)"
    using take_eq_prefix [of "length (cstr p) - 1" "cstr p" "cstr t"]
    by (simp add: strncmp_eq_def butlast_conv_take)
  with False show ?thesis
    by (cases "cstr p = []")
      (simp_all add: bc_topic_matches_def pattern_accepts_def strcmp_eq_def cstr_star
        last_conv_nth Let_def)
qed

text \<open>
  C23. A pattern accepts a topic exactly as the interface documents: with a trailing star,
  every topic that starts with the text before the star (so the lone star accepts all);
  without one, only the identical topic. A star anywhere else is an ordinary character.
\<close>

theorem topic_matches_spec:
  "bc_topic_matches p t \<longleftrightarrow>
     (\<exists>q. cstr p = q @ [STAR] \<and> prefix q (cstr t)) \<or> (cstr p = cstr t)"
  unfolding topic_matches_accepts pattern_accepts_def
  by (cases "cstr p" rule: rev_cases) (auto simp: prefix_def dest: sym)

text \<open>The cases of \<^verbatim>\<open>src/tests/test_topic_match.c\<close>.\<close>

lemma topic_match_tests:
  "bc_topic_matches (str ''*'') (str ''telemetry.temp'')"
  "bc_topic_matches (str ''telemetry.*'') (str ''telemetry.temp'')"
  "\<not> bc_topic_matches (str ''telemetry.*'') (str ''control.run'')"
  "bc_topic_matches (str ''control.run'') (str ''control.run'')"
  "\<not> bc_topic_matches (str ''control.run'') (str ''control.stop'')"
  by code_simp+

end
