(* ===== verification/Config.thy ===== *)
theory Config
  imports Prelude
begin

text \<open>
  \<^verbatim>\<open>src/daemon/config.c\<close>: the configuration file of the daemon. The C library calls it
  rests on (\<^verbatim>\<open>fgets\<close>, \<^verbatim>\<open>sscanf\<close> with the conversions \<^verbatim>\<open>%u\<close>, \<^verbatim>\<open>%d\<close> and \<^verbatim>\<open>%Ns\<close>,
  \<^verbatim>\<open>atoi\<close>) are modelled by small interpreters. A name held in a character array of the
  configuration is the C string it holds; arrays with a count are the list of their used
  entries (the unused ones are never read). Numbers are converted modulo \<open>2 ^ 32\<close>, as the
  C library of the target does for numbers of fewer than 64 bits.
\<close>

section \<open>The C library's input functions\<close>

definition isspace :: "byte \<Rightarrow> bool" where
  "isspace b \<longleftrightarrow> b = 32 \<or> 9 \<le> b \<and> b \<le> 13"

definition isdigit :: "byte \<Rightarrow> bool" where
  "isdigit b \<longleftrightarrow> 48 \<le> b \<and> b \<le> 57"

definition skip_ws :: "byte list \<Rightarrow> byte list" where
  "skip_ws s = dropWhile isspace s"

definition digits_value :: "byte list \<Rightarrow> int" where
  "digits_value ds = foldl (\<lambda>v d. 10 * v + (uint d - 48)) 0 ds"

definition scan_digits :: "byte list \<Rightarrow> (int \<times> byte list) option" where
  "scan_digits s =
     (if takeWhile isdigit s = [] then None
      else Some (digits_value (takeWhile isdigit s), dropWhile isdigit s))"

definition scan_number :: "byte list \<Rightarrow> (int \<times> byte list) option" where
  "scan_number s = (case s of [] \<Rightarrow> None
     | b # s' \<Rightarrow>
         if b = 45 then map_option (\<lambda>(v, r). (- v, r)) (scan_digits s')
         else if b = 43 then scan_digits s' else scan_digits s)"

definition c_int :: "int \<Rightarrow> int" where
  "c_int v = sint (word_of_int v :: u32)"

definition atoi :: "byte list \<Rightarrow> int" where
  "atoi s = (case scan_number (skip_ws s) of None \<Rightarrow> 0 | Some (v, _) \<Rightarrow> c_int v)"

datatype directive = White | Lit byte | Str_conv nat | Int_conv
datatype scanned = SStr "byte list" | SInt int

fun sscanf :: "directive list \<Rightarrow> byte list \<Rightarrow> scanned list" where
  "sscanf [] s = []"
| "sscanf (White # ds) s = sscanf ds (skip_ws s)"
| "sscanf (Lit c # ds) s =
     (case s of [] \<Rightarrow> [] | b # s' \<Rightarrow> if b = c then sscanf ds s' else [])"
| "sscanf (Str_conv n # ds) s =
     (let s' = skip_ws s; t = take n (takeWhile (\<lambda>b. \<not> isspace b) s') in
      if t = [] then [] else SStr t # sscanf ds (drop (length t) s'))"
| "sscanf (Int_conv # ds) s =
     (case scan_number (skip_ws s) of None \<Rightarrow> [] | Some (v, s') \<Rightarrow> SInt v # sscanf ds s')"

definition lits :: "string \<Rightarrow> directive list" where
  "lits s = map Lit (str s)"

fun fgets_line :: "nat \<Rightarrow> byte list \<Rightarrow> byte list" where
  "fgets_line 0 s = []"
| "fgets_line (Suc n) [] = []"
| "fgets_line (Suc n) (c # s) = c # (if c = 10 then [] else fgets_line n s)"

function fgets_lines :: "nat \<Rightarrow> byte list \<Rightarrow> byte list list" where
  "fgets_lines cap s =
     (if s = [] \<or> cap < 2 then []
      else fgets_line (cap - 1) s # fgets_lines cap (drop (length (fgets_line (cap - 1) s)) s))"
  by pat_completeness auto
termination
proof (relation "measure (\<lambda>(_, s). length s)")
  fix cap :: nat and s :: "byte list"
  assume "\<not> (s = [] \<or> cap < 2)"
  then obtain c r n where "s = c # r" "cap - 1 = Suc n" by (cases s; cases "cap - 1") auto
  then show "((cap, drop (length (fgets_line (cap - 1) s)) s), cap, s) \<in> measure (\<lambda>(_, s). length s)"
    by simp
qed simp

declare fgets_lines.simps [simp del]

section \<open>Data\<close>

definition BC_MAX_TRANSPORTS :: nat where "BC_MAX_TRANSPORTS = 8"
definition BC_MAX_ROUTES :: nat where "BC_MAX_ROUTES = 32"
definition BC_MAX_CHANNELS :: nat where "BC_MAX_CHANNELS = 32"

lemmas config_limits = BC_MAX_TRANSPORTS_def BC_MAX_ROUTES_def BC_MAX_CHANNELS_def

datatype bc_transport_type = BC_TRANSPORT_UDP | BC_TRANSPORT_UDP_KCP | BC_TRANSPORT_TCP | BC_TRANSPORT_UART

definition BC_TCP_ROLE_AUTO :: int where "BC_TCP_ROLE_AUTO = - 1"
definition BC_UART_MODE_232 :: int where "BC_UART_MODE_232 = 0"
definition BC_UART_MODE_485 :: int where "BC_UART_MODE_485 = 1"
definition BC_UART_GPIO_NONE :: int where "BC_UART_GPIO_NONE = - 1"

record bc_transport_config =
  tc_name :: "byte list"
  tc_type :: bc_transport_type
  tc_endpoint :: "byte list"
  tc_local_port :: int
  tc_baudrate :: int
  tc_tcp_listen :: int
  tc_kcp_conv :: int
  tc_uart_mode :: int
  tc_rs485_de_gpio :: int

record bc_route_config =
  rt_topic :: "byte list"
  rt_transport :: "byte list"

record bc_channel_config =
  ch_name :: "byte list"
  ch_transport :: "byte list"

record bc_config =
  cf_node_id :: u32
  cf_socket_path :: "byte list"
  cf_socket_uid :: u32
  cf_require_route :: bool
  cf_bridge_broadcast :: bool
  cf_plugins :: "byte list list"
  cf_transports :: "bc_transport_config list"
  cf_channels :: "bc_channel_config list"
  cf_routes :: "bc_route_config list"

section \<open>The fields of a transport line\<close>

definition parse_transport_type :: "byte list \<Rightarrow> bc_transport_type" where
  "parse_transport_type value =
     (if value = str ''tcp'' then BC_TRANSPORT_TCP
      else if value = str ''uart'' \<or> value = str ''uart232'' \<or> value = str ''uart485'' \<or>
        value = str ''rs485'' then BC_TRANSPORT_UART
      else if value = str ''udpkcp'' then BC_TRANSPORT_UDP_KCP
      else BC_TRANSPORT_UDP)"

definition parse_kcp_conv :: "bc_transport_config \<Rightarrow> byte list option \<Rightarrow> bc_transport_config" where
  "parse_kcp_conv transport extra =
     (let transport = transport\<lparr>tc_kcp_conv := 0\<rparr> in
      case extra of None \<Rightarrow> transport
      | Some extra \<Rightarrow>
          if extra = [] then transport
          else if atoi extra > 0 then transport\<lparr>tc_kcp_conv := atoi extra\<rparr> else transport)"

definition parse_uart_options ::
  "bc_transport_config \<Rightarrow> byte list \<Rightarrow> byte list option \<Rightarrow> bc_transport_config" where
  "parse_uart_options transport type extra =
     (let transport = transport\<lparr>tc_uart_mode := BC_UART_MODE_232, tc_rs485_de_gpio := BC_UART_GPIO_NONE\<rparr>;
          transport = (if type = str ''uart485'' \<or> type = str ''rs485''
                       then transport\<lparr>tc_uart_mode := BC_UART_MODE_485\<rparr> else transport) in
      case extra of None \<Rightarrow> transport
      | Some extra \<Rightarrow>
          if extra = [] then transport
          else if take 4 extra = str ''485:'' then
            transport\<lparr>tc_uart_mode := BC_UART_MODE_485, tc_rs485_de_gpio := atoi (drop 4 extra)\<rparr>
          else if extra = str ''485'' then transport\<lparr>tc_uart_mode := BC_UART_MODE_485\<rparr>
          else if extra = str ''232'' then transport\<lparr>tc_uart_mode := BC_UART_MODE_232\<rparr>
          else if tc_uart_mode transport = BC_UART_MODE_485 then
            (if atoi extra \<ge> 0 then transport\<lparr>tc_rs485_de_gpio := atoi extra\<rparr> else transport)
          else transport)"

definition parse_tcp_role :: "bc_transport_config \<Rightarrow> byte list option \<Rightarrow> bc_transport_config" where
  "parse_tcp_role transport role =
     (let transport = transport\<lparr>tc_tcp_listen := BC_TCP_ROLE_AUTO\<rparr> in
      case role of None \<Rightarrow> transport
      | Some role \<Rightarrow>
          if role = [] then transport
          else if role = str ''server'' \<or> role = str ''listen'' then transport\<lparr>tc_tcp_listen := 1\<rparr>
          else if role = str ''client'' \<or> role = str ''connect'' then transport\<lparr>tc_tcp_listen := 0\<rparr>
          else transport)"

section \<open>Defaults and validation\<close>

definition bc_config_load_defaults :: bc_config where
  "bc_config_load_defaults =
     \<lparr>cf_node_id = 1, cf_socket_path = str ''/tmp/boardcommd.sock'', cf_socket_uid = 0,
      cf_require_route = False, cf_bridge_broadcast = True, cf_plugins = [],
      cf_transports =
        [\<lparr>tc_name = str ''udp0'', tc_type = BC_TRANSPORT_UDP, tc_endpoint = str ''127.0.0.1:9101'',
          tc_local_port = 9100, tc_baudrate = 0, tc_tcp_listen = 0, tc_kcp_conv = 0,
          tc_uart_mode = 0, tc_rs485_de_gpio = 0\<rparr>],
      cf_channels = [\<lparr>ch_name = str ''default'', ch_transport = str ''udp0''\<rparr>],
      cf_routes = [\<lparr>rt_topic = str ''*'', rt_transport = str ''udp0''\<rparr>]\<rparr>"

definition transport_exists :: "bc_config \<Rightarrow> byte list \<Rightarrow> bool" where
  "transport_exists cfg name = list_ex (\<lambda>t. strcmp_eq (tc_name t) name) (cf_transports cfg)"

fun has_duplicate_name :: "bc_transport_config list \<Rightarrow> bool" where
  "has_duplicate_name [] = False"
| "has_duplicate_name (t # ts) =
     (list_ex (\<lambda>u. strcmp_eq (tc_name t) (tc_name u)) ts \<or> has_duplicate_name ts)"

definition bc_config_validate :: "bc_config \<Rightarrow> bc_status" where
  "bc_config_validate cfg =
     (if cf_node_id cfg = 0 then BC_ERR_INVALID
      else if length (cf_transports cfg) = 0 then BC_ERR_NOT_FOUND
      else if has_duplicate_name (cf_transports cfg) then BC_ERR_INVALID
      else if list_ex (\<lambda>c. \<not> transport_exists cfg (ch_transport c)) (cf_channels cfg) then BC_ERR_NOT_FOUND
      else if list_ex (\<lambda>r. \<not> transport_exists cfg (rt_transport r)) (cf_routes cfg) then BC_ERR_NOT_FOUND
      else BC_OK)"

section \<open>Loading a file\<close>

definition fmt_node_id :: "directive list" where
  "fmt_node_id = lits ''node_id'' @ [White, Int_conv]"
definition fmt_socket :: "directive list" where
  "fmt_socket = lits ''socket'' @ [White, Str_conv 127]"
definition fmt_socket_uid :: "directive list" where
  "fmt_socket_uid = lits ''socket_uid'' @ [White, Int_conv]"
definition fmt_plugin :: "directive list" where
  "fmt_plugin = lits ''plugin'' @ [White, Str_conv 127]"
definition fmt_transport :: "directive list" where
  "fmt_transport = lits ''transport'' @ [White, Str_conv 31, White, Str_conv 15, White, Str_conv 127,
     White, Int_conv, White, Int_conv, White, Str_conv 15]"
definition fmt_channel :: "directive list" where
  "fmt_channel = lits ''channel'' @ [White, Str_conv 31, White, Str_conv 31]"
definition fmt_route :: "directive list" where
  "fmt_route = lits ''route'' @ [White, Str_conv 63, White, Str_conv 31]"

definition scan_int1 :: "directive list \<Rightarrow> byte list \<Rightarrow> int option" where
  "scan_int1 fmt line = (case sscanf fmt line of [SInt v] \<Rightarrow> Some v | _ \<Rightarrow> None)"

definition scan_str1 :: "directive list \<Rightarrow> byte list \<Rightarrow> byte list option" where
  "scan_str1 fmt line = (case sscanf fmt line of [SStr s] \<Rightarrow> Some s | _ \<Rightarrow> None)"

definition scan_str2 :: "directive list \<Rightarrow> byte list \<Rightarrow> (byte list \<times> byte list) option" where
  "scan_str2 fmt line = (case sscanf fmt line of [SStr s, SStr t] \<Rightarrow> Some (s, t) | _ \<Rightarrow> None)"

definition make_transport ::
  "byte list \<Rightarrow> byte list \<Rightarrow> byte list \<Rightarrow> int \<Rightarrow> scanned list \<Rightarrow> bc_transport_config" where
  "make_transport name type endpoint port rest =
     (let baudrate = (case rest of SInt b # _ \<Rightarrow> c_int b | _ \<Rightarrow> 0);
          role = (case rest of [SInt _, SStr r] \<Rightarrow> Some r | _ \<Rightarrow> None);
          transport = \<lparr>tc_name = name, tc_type = parse_transport_type type, tc_endpoint = endpoint,
            tc_local_port = c_int port, tc_baudrate = baudrate, tc_tcp_listen = BC_TCP_ROLE_AUTO,
            tc_kcp_conv = 0, tc_uart_mode = BC_UART_MODE_232, tc_rs485_de_gpio = BC_UART_GPIO_NONE\<rparr> in
      if tc_type transport = BC_TRANSPORT_TCP \<and> role \<noteq> None then parse_tcp_role transport role
      else if tc_type transport = BC_TRANSPORT_UDP_KCP \<and> role \<noteq> None then parse_kcp_conv transport role
      else if tc_type transport = BC_TRANSPORT_UART then parse_uart_options transport type role
      else transport)"

definition config_plugin :: "bc_config \<Rightarrow> byte list \<Rightarrow> bc_config" where
  "config_plugin cfg line = (case scan_str1 fmt_plugin line of None \<Rightarrow> cfg
     | Some p \<Rightarrow> cfg\<lparr>cf_plugins := cf_plugins cfg @ [p]\<rparr>)"

definition config_transport :: "bc_config \<Rightarrow> byte list \<Rightarrow> bc_config" where
  "config_transport cfg line =
     (case sscanf fmt_transport line of
        SStr name # SStr type # SStr endpoint # SInt port # rest \<Rightarrow>
          cfg\<lparr>cf_transports := cf_transports cfg @ [make_transport name type endpoint port rest]\<rparr>
      | _ \<Rightarrow> cfg)"

definition config_channel :: "bc_config \<Rightarrow> byte list \<Rightarrow> bc_config" where
  "config_channel cfg line = (case scan_str2 fmt_channel line of None \<Rightarrow> cfg
     | Some (n, t) \<Rightarrow> cfg\<lparr>cf_channels := cf_channels cfg @ [\<lparr>ch_name = n, ch_transport = t\<rparr>]\<rparr>)"

definition config_route :: "bc_config \<Rightarrow> byte list \<Rightarrow> bc_config" where
  "config_route cfg line = (case scan_str2 fmt_route line of None \<Rightarrow> cfg
     | Some (p, t) \<Rightarrow> cfg\<lparr>cf_routes := cf_routes cfg @ [\<lparr>rt_topic = p, rt_transport = t\<rparr>]\<rparr>)"

definition config_kind :: "bc_config \<Rightarrow> byte list \<Rightarrow> byte list \<Rightarrow> bc_config" where
  "config_kind cfg kind line =
     (if kind = str ''plugin'' \<and> length (cf_plugins cfg) < BC_MAX_TRANSPORTS then config_plugin cfg line
      else if kind = str ''transport'' \<and> length (cf_transports cfg) < BC_MAX_TRANSPORTS
      then config_transport cfg line
      else if kind = str ''channel'' \<and> length (cf_channels cfg) < BC_MAX_CHANNELS then config_channel cfg line
      else if kind = str ''route'' \<and> length (cf_routes cfg) < BC_MAX_ROUTES then config_route cfg line
      else cfg)"

definition config_line :: "bc_config \<Rightarrow> byte list \<Rightarrow> bc_config" where
  "config_line cfg line =
     (if take 1 line = str ''#'' \<or> take 1 line = [10] then cfg
      else case scan_int1 fmt_node_id line of
        Some v \<Rightarrow> cfg\<lparr>cf_node_id := word_of_int v\<rparr>
      | None \<Rightarrow>
      case scan_str1 fmt_socket line of
        Some p \<Rightarrow> cfg\<lparr>cf_socket_path := p\<rparr>
      | None \<Rightarrow>
      case scan_int1 fmt_socket_uid line of
        Some v \<Rightarrow> cfg\<lparr>cf_socket_uid := word_of_int v\<rparr>
      | None \<Rightarrow>
      if take 13 line = str ''require_route'' then cfg\<lparr>cf_require_route := True\<rparr>
      else if take 9 line = str ''no_bridge'' then cfg\<lparr>cf_bridge_broadcast := False\<rparr>
      else case scan_str1 [Str_conv 31] line of
        Some kind \<Rightarrow> config_kind cfg kind line
      | None \<Rightarrow> cfg)"

text \<open>
  The argument is the path given to \<^verbatim>\<open>bc_config_load\<close> as what opening it yields: \<open>None\<close> for no path,
  \<open>Some None\<close> for a file that cannot be opened, \<open>Some (Some s)\<close> for a file with content \<open>s\<close>.
\<close>

definition config_file :: "byte list \<Rightarrow> bc_config" where
  "config_file content =
     foldl (\<lambda>cfg line. config_line cfg (cstr line))
       (bc_config_load_defaults\<lparr>cf_transports := [], cf_channels := [], cf_routes := [], cf_plugins := []\<rparr>)
       (fgets_lines 256 content)"

definition bc_config_load :: "byte list option option \<Rightarrow> bc_status \<times> bc_config" where
  "bc_config_load path = (case path of
     None \<Rightarrow> (bc_config_validate bc_config_load_defaults, bc_config_load_defaults)
   | Some None \<Rightarrow> (BC_ERR_NOT_FOUND, bc_config_load_defaults)
   | Some (Some content) \<Rightarrow> (bc_config_validate (config_file content), config_file content))"

section \<open>What the scanner returns\<close>

lemma sscanf_lits:
  "sscanf (lits s @ ds) line = (if take (length s) line = str s then sscanf ds (drop (length s) line) else [])"
proof (induction s arbitrary: line)
  case Nil
  then show ?case by (simp add: lits_def str_def)
next
  case (Cons c s)
  then show ?case by (cases line) (auto simp: lits_def str_def)
qed

lemma length_str [simp]: "length (str s) = length s"
  by (simp add: str_def)

lemma set_skip_ws: "set (skip_ws s) \<subseteq> set s"
  by (auto simp: skip_ws_def dest: set_dropWhileD)

text \<open>A string the scanner returns fits its conversion, is not empty and has no terminator in it.\<close>

definition token :: "nat \<Rightarrow> byte list \<Rightarrow> bool" where
  "token n t \<longleftrightarrow> t \<noteq> [] \<and> length t \<le> n \<and> 0 \<notin> set t"

lemma sscanf_Str:
  assumes "0 \<notin> set line" "sscanf (White # Str_conv n # ds) line = v # vs"
  obtains t rest where "v = SStr t" "token n t" "vs = sscanf ds rest" "0 \<notin> set rest"
proof -
  define s where "s = skip_ws (skip_ws line)"
  define t where "t = take n (takeWhile (\<lambda>b. \<not> isspace b) s)"
  have z: "0 \<notin> set s" using assms(1) set_skip_ws unfolding s_def by blast
  have "sscanf (White # Str_conv n # ds) line = (if t = [] then [] else SStr t # sscanf ds (drop (length t) s))"
    by (simp add: Let_def s_def t_def)
  then have "v = SStr t" "t \<noteq> []" "vs = sscanf ds (drop (length t) s)"
    using assms(2) by (auto split: if_split_asm)
  moreover have "0 \<notin> set t"
    using z by (auto simp: t_def dest!: in_set_takeD set_takeWhileD)
  moreover have "0 \<notin> set (drop (length t) s)"
    using z by (auto dest: in_set_dropD)
  moreover have "length t \<le> n" by (simp add: t_def)
  ultimately show ?thesis using that by (simp add: token_def)
qed

lemma scan_iff:
  "scan_int1 fmt line = Some v \<longleftrightarrow> sscanf fmt line = [SInt v]"
  "scan_str1 fmt line = Some t \<longleftrightarrow> sscanf fmt line = [SStr t]"
  "scan_str2 fmt line = Some (t, u) \<longleftrightarrow> sscanf fmt line = [SStr t, SStr u]"
  by (simp_all add: scan_int1_def scan_str1_def scan_str2_def split: list.split scanned.split)

lemma sscanf_lits_Cons:
  assumes "sscanf (lits s @ ds) line = v # vs"
  shows "take (length s) line = str s" and "sscanf ds (drop (length s) line) = v # vs"
  using assms by (simp_all only: sscanf_lits split: if_split_asm) simp_all

lemma scan_str1_token:
  assumes "0 \<notin> set line" "scan_str1 (lits s @ [White, Str_conv n]) line = Some t"
  shows "token n t"
proof -
  have e: "sscanf [White, Str_conv n] (drop (length s) line) = [SStr t]"
    using assms(2) unfolding scan_iff by (rule sscanf_lits_Cons)
  have "0 \<notin> set (drop (length s) line)" using assms(1) by (auto dest: in_set_dropD)
  from sscanf_Str [OF this e] show ?thesis by auto
qed

lemma scan_str2_token:
  assumes "0 \<notin> set line" "scan_str2 (lits s @ [White, Str_conv n, White, Str_conv k]) line = Some (t, u)"
  shows "token n t \<and> token k u"
proof -
  have e: "sscanf [White, Str_conv n, White, Str_conv k] (drop (length s) line) = [SStr t, SStr u]"
    using assms(2) unfolding scan_iff by (rule sscanf_lits_Cons)
  have "0 \<notin> set (drop (length s) line)" using assms(1) by (auto dest: in_set_dropD)
  from sscanf_Str [OF this e] obtain t' rest where r: "SStr t = SStr t'" "token n t'"
    "[SStr u] = sscanf [White, Str_conv k] rest" "0 \<notin> set rest" .
  from sscanf_Str [OF r(4) r(3) [symmetric]] obtain u' where "SStr u = SStr u'" "token k u'" .
  then show ?thesis using r by simp
qed

section \<open>What a loaded configuration satisfies\<close>

definition transport_fits :: "bc_transport_config \<Rightarrow> bool" where
  "transport_fits t \<longleftrightarrow> length (tc_name t) < 32 \<and> length (tc_endpoint t) < 128 \<and>
     0 \<notin> set (tc_name t) \<and> 0 \<notin> set (tc_endpoint t)"

definition config_fits :: "bc_config \<Rightarrow> bool" where
  "config_fits cfg \<longleftrightarrow>
     token 127 (cf_socket_path cfg) \<and>
     length (cf_plugins cfg) \<le> BC_MAX_TRANSPORTS \<and> (\<forall>p \<in> set (cf_plugins cfg). token 127 p) \<and>
     length (cf_transports cfg) \<le> BC_MAX_TRANSPORTS \<and> (\<forall>t \<in> set (cf_transports cfg). transport_fits t) \<and>
     length (cf_channels cfg) \<le> BC_MAX_CHANNELS \<and>
       (\<forall>c \<in> set (cf_channels cfg). token 31 (ch_name c) \<and> token 31 (ch_transport c)) \<and>
     length (cf_routes cfg) \<le> BC_MAX_ROUTES \<and>
       (\<forall>r \<in> set (cf_routes cfg). token 63 (rt_topic r) \<and> token 31 (rt_transport r))"

lemma make_transport_name [simp]:
  "tc_name (make_transport n ty e p rest) = n" "tc_endpoint (make_transport n ty e p rest) = e"
proof -
  have "tc_name (parse_tcp_role t x) = tc_name t" "tc_endpoint (parse_tcp_role t x) = tc_endpoint t"
    "tc_name (parse_kcp_conv t x) = tc_name t" "tc_endpoint (parse_kcp_conv t x) = tc_endpoint t"
    "tc_name (parse_uart_options t ty x) = tc_name t" "tc_endpoint (parse_uart_options t ty x) = tc_endpoint t"
    for t x
    by (simp_all add: parse_tcp_role_def parse_kcp_conv_def parse_uart_options_def Let_def split: option.split)
  then show "tc_name (make_transport n ty e p rest) = n" "tc_endpoint (make_transport n ty e p rest) = e"
    unfolding make_transport_def Let_def by simp_all
qed

lemma config_plugin_fits:
  "config_fits cfg \<Longrightarrow> 0 \<notin> set line \<Longrightarrow> length (cf_plugins cfg) < BC_MAX_TRANSPORTS \<Longrightarrow>
     config_fits (config_plugin cfg line)"
  using scan_str1_token [of line "''plugin''" 127, folded fmt_plugin_def]
  by (cases "scan_str1 fmt_plugin line") (auto simp: config_fits_def config_plugin_def)

lemma config_channel_fits:
  "config_fits cfg \<Longrightarrow> 0 \<notin> set line \<Longrightarrow> length (cf_channels cfg) < BC_MAX_CHANNELS \<Longrightarrow>
     config_fits (config_channel cfg line)"
  using scan_str2_token [of line "''channel''" 31 31, folded fmt_channel_def]
  by (cases "scan_str2 fmt_channel line") (auto simp: config_fits_def config_channel_def)

lemma config_route_fits:
  "config_fits cfg \<Longrightarrow> 0 \<notin> set line \<Longrightarrow> length (cf_routes cfg) < BC_MAX_ROUTES \<Longrightarrow>
     config_fits (config_route cfg line)"
  using scan_str2_token [of line "''route''" 63 31, folded fmt_route_def]
  by (cases "scan_str2 fmt_route line") (auto simp: config_fits_def config_route_def)

lemma config_transport_fits:
  assumes fits: "config_fits cfg" and z: "0 \<notin> set line" and n: "length (cf_transports cfg) < BC_MAX_TRANSPORTS"
  shows "config_fits (config_transport cfg line)"
proof (cases "\<exists>n t e p rest. sscanf fmt_transport line = SStr n # SStr t # SStr e # SInt p # rest")
  case False
  then have "config_transport cfg line = cfg"
    by (auto simp: config_transport_def split: list.splits scanned.splits)
  then show ?thesis using fits by simp
next
  case True
  then obtain nm t e p rest where f: "sscanf fmt_transport line = SStr nm # SStr t # SStr e # SInt p # rest"
    by blast
  let ?ds1 = "[White, Str_conv 15, White, Str_conv 127, White, Int_conv, White, Int_conv, White, Str_conv 15]"
  let ?ds2 = "[White, Str_conv 127, White, Int_conv, White, Int_conv, White, Str_conv 15]"
  have e0: "sscanf (White # Str_conv 31 # ?ds1) (drop (length ''transport'') line) =
      SStr nm # SStr t # SStr e # SInt p # rest"
    using f unfolding fmt_transport_def by (rule sscanf_lits_Cons)
  have z0: "0 \<notin> set (drop (length ''transport'') line)" using z by (auto dest: in_set_dropD)
  from sscanf_Str [OF z0 e0] obtain r1 where r1: "token 31 nm" "0 \<notin> set r1"
    "sscanf (White # Str_conv 15 # ?ds2) r1 = SStr t # SStr e # SInt p # rest" by (metis scanned.inject(1))
  from sscanf_Str [OF r1(2,3)] obtain r2 where r2: "0 \<notin> set r2"
    "sscanf ?ds2 r2 = SStr e # SInt p # rest" by metis
  from sscanf_Str [OF r2] have "token 127 e" by (metis scanned.inject(1))
  then show ?thesis
    using fits n r1(1) f by (auto simp: config_transport_def config_fits_def transport_fits_def token_def)
qed

lemma config_kind_fits:
  "config_fits cfg \<Longrightarrow> 0 \<notin> set line \<Longrightarrow> config_fits (config_kind cfg kind line)"
  by (simp add: config_kind_def config_plugin_fits config_channel_fits config_route_fits config_transport_fits)

lemma config_line_fits:
  assumes "config_fits cfg" "0 \<notin> set line"
  shows "config_fits (config_line cfg line)"
proof -
  have "config_fits (cfg\<lparr>cf_socket_path := p\<rparr>)" if "scan_str1 fmt_socket line = Some p" for p
    using assms scan_str1_token [of line "''socket''" 127 p] that by (simp add: fmt_socket_def config_fits_def)
  moreover have "config_fits (cfg\<lparr>cf_node_id := v\<rparr>)" "config_fits (cfg\<lparr>cf_socket_uid := v\<rparr>)"
    "config_fits (cfg\<lparr>cf_require_route := b\<rparr>)" "config_fits (cfg\<lparr>cf_bridge_broadcast := b\<rparr>)" for v b
    using assms(1) by (simp_all add: config_fits_def)
  ultimately show ?thesis
    using assms config_kind_fits unfolding config_line_def by (auto split: option.split)
qed

lemma config_file_invariant:
  assumes "P (bc_config_load_defaults\<lparr>cf_transports := [], cf_channels := [], cf_routes := [], cf_plugins := []\<rparr>)"
    and "\<And>cfg line. P cfg \<Longrightarrow> 0 \<notin> set line \<Longrightarrow> P (config_line cfg line)"
  shows "P (config_file content)"
proof -
  have "P cfg \<Longrightarrow> P (foldl (\<lambda>cfg line. config_line cfg (cstr line)) cfg lines)" for cfg lines
    by (induction lines arbitrary: cfg) (use assms(2) in auto)
  then show ?thesis using assms(1) by (simp add: config_file_def)
qed

lemma defaults_fit:
  "config_fits bc_config_load_defaults"
  "config_fits (bc_config_load_defaults\<lparr>cf_transports := [], cf_channels := [], cf_routes := [], cf_plugins := []\<rparr>)"
  by (simp_all add: config_fits_def bc_config_load_defaults_def token_def str_def transport_fits_def config_limits)

lemma config_file_fits: "config_fits (config_file s)"
  by (rule config_file_invariant [where P = config_fits, OF defaults_fit(2) config_line_fits])

lemma config_load_fits: "config_fits (snd (bc_config_load f))"
proof (cases f)
  case None
  then show ?thesis by (simp add: bc_config_load_def defaults_fit)
next
  case (Some g)
  then show ?thesis by (cases g) (simp_all add: bc_config_load_def defaults_fit config_file_fits)
qed

text \<open>
  C20. Whatever the configuration file contains, the loaded configuration stays inside its
  arrays: at most 8 plugins and transports, 32 channels and 32 routes, every name shorter
  than its character array and free of terminators; and the call succeeds exactly if the file
  could be opened and the configuration has a node id, at least one transport, no two
  transports of one name, and only channels and routes over transports that exist.
\<close>

theorem config_load_spec:
  "config_fits (snd (bc_config_load f)) \<and>
   (fst (bc_config_load f) = BC_OK \<longleftrightarrow> f \<noteq> Some None \<and>
      (let c = snd (bc_config_load f); names = map (cstr \<circ> tc_name) (cf_transports c) in
        cf_node_id c \<noteq> 0 \<and> names \<noteq> [] \<and> distinct names \<and>
        (\<forall>x \<in> set (cf_channels c). cstr (ch_transport x) \<in> set names) \<and>
        (\<forall>x \<in> set (cf_routes c). cstr (rt_transport x) \<in> set names)))"
proof -
  have dup: "has_duplicate_name ts \<longleftrightarrow> \<not> distinct (map (cstr \<circ> tc_name) ts)" for ts
    by (induction ts) (auto simp: list_ex_iff strcmp_eq_def)
  have ex: "transport_exists c n \<longleftrightarrow> cstr n \<in> set (map (cstr \<circ> tc_name) (cf_transports c))" for c n
    by (auto simp: transport_exists_def list_ex_iff strcmp_eq_def intro: rev_image_eqI)
  have val: "bc_config_validate c = BC_OK \<longleftrightarrow>
      cf_node_id c \<noteq> 0 \<and> map (cstr \<circ> tc_name) (cf_transports c) \<noteq> [] \<and>
      distinct (map (cstr \<circ> tc_name) (cf_transports c)) \<and>
      (\<forall>x \<in> set (cf_channels c). cstr (ch_transport x) \<in> set (map (cstr \<circ> tc_name) (cf_transports c))) \<and>
      (\<forall>x \<in> set (cf_routes c). cstr (rt_transport x) \<in> set (map (cstr \<circ> tc_name) (cf_transports c)))" for c
    unfolding bc_config_validate_def dup ex by (auto simp: list_ex_iff)
  show ?thesis
    unfolding bc_config_load_def Let_def
    by (cases f; cases "the f") (simp_all only: option.case fst_conv snd_conv val config_file_fits defaults_fit
        option.sel option.inject option.distinct, simp_all)
qed

definition sample_file :: "byte list" where
  "sample_file = str ''node_id 7'' @ [10] @ str ''transport u udp 10.0.0.2:1 9'' @ [10] @
     str ''route * u'' @ [10]"

lemma load_sample_file:
  "bc_config_load (Some (Some sample_file)) =
     (BC_OK, bc_config_load_defaults\<lparr>cf_node_id := 7, cf_channels := [],
        cf_transports := [\<lparr>tc_name = str ''u'', tc_type = BC_TRANSPORT_UDP, tc_endpoint = str ''10.0.0.2:1'',
          tc_local_port = 9, tc_baudrate = 0, tc_tcp_listen = -1, tc_kcp_conv = 0, tc_uart_mode = 0,
          tc_rs485_de_gpio = -1\<rparr>],
        cf_routes := [\<lparr>rt_topic = str ''*'', rt_transport = str ''u''\<rparr>]\<rparr>)"
  by code_simp

lemma config_load_spec_witness:
  "\<exists>c. bc_config_load (Some (Some sample_file)) = (BC_OK, c) \<and> config_fits c \<and>
     map (\<lambda>x. cstr (rt_transport x)) (cf_routes c) = [str ''u'']"
  using config_load_spec [of "Some (Some sample_file)"]
  by (simp add: load_sample_file Let_def cstring_simps str_def)

section \<open>The socket_uid directive\<close>

lemma socket_uid_shadowed:
  assumes "scan_int1 fmt_socket_uid line = Some v"
  shows "scan_str1 fmt_socket line \<noteq> None"
proof -
  let ?n = "length ''socket_uid''"
  have "take ?n line = str ''socket_uid''"
    using assms unfolding scan_iff fmt_socket_uid_def by (rule sscanf_lits_Cons)
  then have l: "line = str ''socket_uid'' @ drop ?n line" by (metis append_take_drop_id)
  have "scan_str1 fmt_socket (str ''socket_uid'' @ r) \<noteq> None" for r
    unfolding fmt_socket_def scan_str1_def sscanf_lits
    by (simp add: str_def skip_ws_def isspace_def Let_def)
  then show ?thesis using l by metis
qed

lemma config_kind_socket_uid [simp]: "cf_socket_uid (config_kind cfg kind line) = cf_socket_uid cfg"
proof -
  have "cf_socket_uid (config_plugin cfg line) = cf_socket_uid cfg"
    "cf_socket_uid (config_channel cfg line) = cf_socket_uid cfg"
    "cf_socket_uid (config_route cfg line) = cf_socket_uid cfg"
    by (simp_all add: config_plugin_def config_channel_def config_route_def split: option.split)
  moreover have "cf_socket_uid (config_transport cfg line) = cf_socket_uid cfg"
    unfolding config_transport_def by (simp split: list.split scanned.split)
  ultimately show ?thesis by (simp add: config_kind_def)
qed

text \<open>
  The \<^verbatim>\<open>socket_uid\<close> directive has no effect: whatever the file says, the loaded user id
  is 0, for which the daemon accepts clients of every user. The format \<^verbatim>\<open>socket %127s\<close>, tried
  first, also matches these lines (and changes the socket path).
\<close>

theorem socket_uid_never_set:
  "cf_socket_uid (snd (bc_config_load f)) = 0"
proof -
  have line: "cf_socket_uid (config_line cfg line) = 0" if "cf_socket_uid cfg = 0" for cfg line
    using that socket_uid_shadowed [of line] by (auto simp: config_line_def split: option.split)
  have "cf_socket_uid (config_file s) = 0" for s
    by (rule config_file_invariant [where P = "\<lambda>c. cf_socket_uid c = 0"])
      (simp add: bc_config_load_defaults_def, rule line)
  then show ?thesis
    by (simp add: bc_config_load_def bc_config_load_defaults_def split: option.split)
qed

end
