(* ===== verification/Crc32.thy ===== *)
theory Crc32
  imports Prelude
begin

text \<open>
  The CRC-32 loop that the frame protocol (\<^verbatim>\<open>bc_crc32\<close> in
  \<^verbatim>\<open>src/daemon/protocol.c\<close>) and the file transfer (\<^verbatim>\<open>bc_file_crc32_update\<close> in
  \<^verbatim>\<open>api/bc_file.c\<close>) share, and the facts the two components use: updates over
  concatenated data compose, and a change confined to four consecutive bytes is detected.
\<close>


text \<open>
  The bitwise loop of \<^verbatim>\<open>bc_crc32\<close> and \<^verbatim>\<open>bc_file_crc32_update\<close>: eight steps per byte,
  each with the mask \<^verbatim>\<open>0u - (crc & 1u)\<close>.
\<close>

definition crc_bit :: "u32 \<Rightarrow> u32" where
  "crc_bit crc = (let mask = 0 - (crc AND 1) in drop_bit 1 crc XOR (0xedb88320 AND mask))"

definition crc_byte :: "u32 \<Rightarrow> byte \<Rightarrow> u32" where
  "crc_byte crc b = (crc_bit ^^ 8) (crc XOR ucast b)"

definition bc_file_crc32_update :: "u32 \<Rightarrow> byte list \<Rightarrow> u32" where
  "bc_file_crc32_update crc data = foldl crc_byte crc data"

lemma crc_update_append:
  "bc_file_crc32_update crc (xs @ ys) = bc_file_crc32_update (bc_file_crc32_update crc xs) ys"
  by (simp add: bc_file_crc32_update_def)

lemma crc_update_Nil [simp]: "bc_file_crc32_update crc [] = crc"
  by (simp add: bc_file_crc32_update_def)

lemma crc_bit_cases: "crc_bit c = drop_bit 1 c XOR (if bit c 0 then 0xedb88320 else 0)"
proof (cases "bit c 0")
  case True
  then have "c AND 1 = 1" by (simp add: and_one_eq bit_0 odd_iff_mod_2_eq_one)
  then show ?thesis using True by (simp add: crc_bit_def)
next
  case False
  then have "c AND 1 = 0" by (simp add: and_one_eq bit_0 even_iff_mod_2_eq_zero)
  then show ?thesis using False by (simp add: crc_bit_def)
qed

text \<open>
  One step is a bijection: the top bit of the polynomial is set, so the result's top bit
  tells which branch was taken.
\<close>

lemma crc_bit_top: "bit (crc_bit c) 31 \<longleftrightarrow> bit c 0"
  by (simp add: crc_bit_cases bit_xor_iff bit_drop_bit_eq bit_imp_le_length)
    (use bit_imp_le_length [of c 32] in auto)

lemma crc_bit_xor: "crc_bit (a XOR b) = crc_bit a XOR crc_bit b"
  by (auto simp: crc_bit_cases bit_xor_iff drop_bit_xor xor.left_commute xor.commute xor.assoc)

lemma crc_bit_zero_iff: "crc_bit c = 0 \<longleftrightarrow> c = 0"
proof
  assume z: "crc_bit c = 0"
  then have b0: "\<not> bit c 0" using crc_bit_top [of c] by simp
  with z have d: "drop_bit 1 c = 0" by (simp add: crc_bit_cases)
  show "c = 0"
  proof (rule bit_word_eqI)
    fix n
    show "bit c n = bit (0 :: u32) n"
      using b0 d by (cases n) (auto dest: arg_cong [where f = "\<lambda>w. bit w (n - 1)"] simp: bit_drop_bit_eq)
  qed
qed (simp add: crc_bit_cases)

lemma crc_bits_xor: "(crc_bit ^^ n) (a XOR b) = (crc_bit ^^ n) a XOR (crc_bit ^^ n) b"
  by (induction n) (simp_all add: crc_bit_xor)

lemma crc_bits_zero_iff: "(crc_bit ^^ n) c = 0 \<longleftrightarrow> c = 0"
  by (induction n) (simp_all add: crc_bit_zero_iff)

lemma crc_byte_xor: "crc_byte (a XOR b) (x XOR y) = crc_byte a x XOR crc_byte b y"
proof -
  have "(ucast (x XOR y) :: u32) = ucast x XOR ucast y"
    by (rule bit_word_eqI) (auto simp: bit_xor_iff bit_ucast_iff)
  then show ?thesis by (simp add: crc_byte_def crc_bits_xor xor.left_commute xor.commute xor.assoc)
qed

lemma crc_update_xor:
  "length xs = length ys \<Longrightarrow>
     bc_file_crc32_update (a XOR b) (map2 (XOR) xs ys) =
     bc_file_crc32_update a xs XOR bc_file_crc32_update b ys"
  by (induction xs ys arbitrary: a b rule: list_induct2)
    (simp_all add: bc_file_crc32_update_def crc_byte_xor)

lemma crc_bits_0 [simp]: "(crc_bit ^^ n) 0 = 0"
  by (simp add: crc_bits_zero_iff)

lemma crc_bits_more: "(crc_bit ^^ (8 * n)) ((crc_bit ^^ 8) c) = (crc_bit ^^ (8 * Suc n)) c"
proof -
  have "8 * Suc n = 8 * n + 8" by simp
  then show ?thesis by (metis funpow_add comp_apply)
qed

lemma crc_update_zeros: "bc_file_crc32_update c (zeros n) = (crc_bit ^^ (8 * n)) c"
proof (induction n arbitrary: c)
  case 0
  then show ?case by simp
next
  case (Suc n)
  have "bc_file_crc32_update c (zeros (Suc n)) = bc_file_crc32_update (crc_byte c 0) (zeros n)"
    by (simp add: bc_file_crc32_update_def zeros_def)
  also have "\<dots> = (crc_bit ^^ (8 * n)) ((crc_bit ^^ 8) c)"
    by (simp add: Suc crc_byte_def)
  also have "\<dots> = (crc_bit ^^ (8 * Suc n)) c"
    by (rule crc_bits_more)
  finally show ?case .
qed

text \<open>While the low bits are zero, the register only shifts.\<close>

lemma crc_bits_shift: "take_bit n c = 0 \<Longrightarrow> (crc_bit ^^ n) c = drop_bit n c"
proof (induction n)
  case 0
  then show ?case by simp
next
  case (Suc n)
  have "take_bit n c = 0"
    using arg_cong [OF Suc.prems, where f = "take_bit n"] by simp
  moreover have "\<not> bit c n"
    using arg_cong [OF Suc.prems, where f = "\<lambda>w. bit w n"] by (simp add: bit_take_bit_iff)
  ultimately show ?case
    using Suc.IH by (simp add: crc_bit_cases bit_drop_bit_eq)
qed

lemma of_le_Cons_xor: "(of_le (b # bs) :: u32) = ucast b XOR push_bit 8 (of_le bs)"
  by (rule bit_word_eqI)
    (auto simp: bit_or_iff bit_xor_iff bit_ucast_iff bit_push_bit_iff dest: bit_imp_le_length)

text \<open>Up to four bytes are absorbed as one 32-bit word.\<close>

lemma crc_update_word:
  "length bs \<le> 4 \<Longrightarrow> bc_file_crc32_update c bs = (crc_bit ^^ (8 * length bs)) (c XOR of_le bs)"
proof (induction bs arbitrary: c)
  case Nil
  then show ?case by simp
next
  case (Cons b bs)
  let ?w = "push_bit 8 (of_le bs) :: u32"
  have "take_bit 8 ?w = 0"
    by (rule bit_word_eqI) (auto simp: bit_take_bit_iff bit_push_bit_iff)
  then have "(crc_bit ^^ 8) ?w = drop_bit 8 ?w" by (rule crc_bits_shift)
  also have "\<dots> = of_le bs"
    using Cons.prems by (intro bit_word_eqI) (auto simp: bit_drop_bit_eq bit_push_bit_iff bit_of_le)
  finally have sh: "of_le bs = (crc_bit ^^ 8) ?w" by simp
  have "bc_file_crc32_update c (b # bs) = bc_file_crc32_update ((crc_bit ^^ 8) (c XOR ucast b)) bs"
    by (simp add: bc_file_crc32_update_def crc_byte_def)
  also have "\<dots> = (crc_bit ^^ (8 * length bs)) ((crc_bit ^^ 8) (c XOR ucast b) XOR of_le bs)"
    using Cons by simp
  also have "(crc_bit ^^ 8) (c XOR ucast b) XOR of_le bs = (crc_bit ^^ 8) (c XOR of_le (b # bs))"
    by (subst sh) (simp only: of_le_Cons_xor crc_bits_xor xor.assoc)
  also have "(crc_bit ^^ (8 * length bs)) ((crc_bit ^^ 8) (c XOR of_le (b # bs))) =
      (crc_bit ^^ (8 * length (b # bs))) (c XOR of_le (b # bs))"
    by (simp only: length_Cons crc_bits_more)
  finally show ?case .
qed

lemma of_le_zero_iff: "length bs \<le> 4 \<Longrightarrow> (of_le bs :: u32) = 0 \<longleftrightarrow> bs = zeros (length bs)"
proof
  assume l: "length bs \<le> 4" and z: "(of_le bs :: u32) = 0"
  have "to_le (length bs) (of_le bs :: u32) = bs" using l by (intro to_le_of_le) simp
  moreover have "to_le n (0 :: u32) = zeros n" for n by (induction n) (simp_all add: zeros_def)
  ultimately show "bs = zeros (length bs)" using z by simp
next
  assume "bs = zeros (length bs)"
  moreover have "(of_le (zeros n) :: u32) = 0" for n by (induction n) (simp_all add: zeros_def)
  ultimately show "(of_le bs :: u32) = 0" by metis
qed

text \<open>
  The register ends zero exactly if a burst of at most 32 bits is no burst: the reason a
  CRC-32 detects every change confined to four consecutive bytes.
\<close>

lemma map2_xor_self: "map2 (XOR) xs xs = zeros (length xs)"
  by (induction xs) (simp_all add: zeros_def)

lemma map2_xor_zeros: "length xs = length ys \<Longrightarrow> map2 (XOR) xs ys = zeros (length ys) \<Longrightarrow> xs = (ys :: byte list)"
proof (induction xs ys rule: list_induct2)
  case Nil
  then show ?case by simp
next
  case (Cons x xs y ys)
  then have "x XOR y = 0" by (simp add: zeros_def)
  then have "(x XOR y) XOR y = y" by simp
  then have "x = y" by (simp add: xor.assoc)
  with Cons show ?case by (simp add: zeros_def)
qed

lemma crc_burst_detected:
  assumes len: "length e = length e'" "length e \<le> 4" and ne: "e \<noteq> e'"
  shows "bc_file_crc32_update c (p @ e @ s) \<noteq> bc_file_crc32_update c (p @ e' @ s)"
proof
  assume eq: "bc_file_crc32_update c (p @ e @ s) = bc_file_crc32_update c (p @ e' @ s)"
  let ?d = "map2 (XOR) e e'"
  have ld: "length ?d = length e" using len by simp
  have "bc_file_crc32_update (c XOR c) (map2 (XOR) (p @ e @ s) (p @ e' @ s)) = 0"
    using eq len by (subst crc_update_xor) auto
  then have "bc_file_crc32_update 0 (zeros (length p) @ ?d @ zeros (length s)) = 0"
    using len by (simp add: map2_xor_self)
  then have "bc_file_crc32_update (bc_file_crc32_update 0 ?d) (zeros (length s)) = 0"
    by (simp add: crc_update_append crc_update_zeros crc_bits_zero_iff)
  then have "bc_file_crc32_update 0 ?d = 0"
    by (simp add: crc_update_zeros crc_bits_zero_iff)
  then have "(of_le ?d :: u32) = 0"
    using len ld by (simp add: crc_update_word crc_bits_zero_iff del: of_le.simps)
  then have "?d = zeros (length e')"
    using of_le_zero_iff [of ?d] len ld by simp
  then show False using map2_xor_zeros [OF len(1)] ne by blast
qed

end
