(* ===== verification/Protocol.thy ===== *)
theory Protocol
  imports Crc32
begin

text \<open>
  \<^verbatim>\<open>src/daemon/protocol.c\<close>: the network frame. A frame is the 36-byte header of
  \<^verbatim>\<open>bc_frame_header_t\<close>, the channel, the topic and the payload; the header carries the
  lengths and the CRC-32 of the payload.
\<close>

section \<open>Messages\<close>

text \<open>
  \<^verbatim>\<open>bc_message_t\<close> of \<^verbatim>\<open>api/bc_types.h\<close>. The arrays \<open>m_channel\<close> and \<open>m_topic\<close>
  are whole C arrays; \<open>m_payload\<close> is the valid part of the payload array, so its length
  is the field \<^verbatim>\<open>payload_len\<close>.
\<close>

record bc_message =
  m_src_node :: u32
  m_dst_node :: u32
  m_flags :: u16
  m_qos :: u16
  m_seq :: u32
  m_channel :: "byte list"
  m_topic :: "byte list"
  m_payload :: "byte list"

definition empty_message :: bc_message where
  "empty_message =
     \<lparr>m_src_node = 0, m_dst_node = 0, m_flags = 0, m_qos = 0, m_seq = 0,
      m_channel = zeros BC_MAX_CHANNEL_LEN, m_topic = zeros BC_MAX_TOPIC_LEN, m_payload = []\<rparr>"

definition BC_FLAG_FRAGMENT :: u16 where "BC_FLAG_FRAGMENT = 1"
definition BC_FLAG_ACK :: u16 where "BC_FLAG_ACK = 2"
definition BC_FLAG_NO_BRIDGE :: u16 where "BC_FLAG_NO_BRIDGE = 4"
definition BC_QOS_AT_MOST_ONCE :: u16 where "BC_QOS_AT_MOST_ONCE = 0"
definition BC_QOS_AT_LEAST_ONCE :: u16 where "BC_QOS_AT_LEAST_ONCE = 1"

text \<open>Arrays of the declared sizes that hold terminated strings, and a payload that fits.\<close>

definition wf_message :: "bc_message \<Rightarrow> bool" where
  "wf_message m \<longleftrightarrow>
     length (m_channel m) = BC_MAX_CHANNEL_LEN \<and> terminated (m_channel m) \<and>
     length (m_topic m) = BC_MAX_TOPIC_LEN \<and> terminated (m_topic m) \<and>
     length (m_payload m) \<le> BC_MAX_PAYLOAD_LEN"

text \<open>The message whose string arrays hold the same strings, zero filled.\<close>

definition canon_message :: "bc_message \<Rightarrow> bc_message" where
  "canon_message m = m\<lparr>m_channel := canon BC_MAX_CHANNEL_LEN (m_channel m),
                       m_topic := canon BC_MAX_TOPIC_LEN (m_topic m)\<rparr>"

section \<open>The frame header\<close>

record bc_frame_header =
  fh_magic :: u32
  fh_version :: u16
  fh_header_len :: u16
  fh_src_node :: u32
  fh_dst_node :: u32
  fh_flags :: u16
  fh_qos :: u16
  fh_seq :: u32
  fh_channel_len :: u16
  fh_topic_len :: u16
  fh_payload_len :: u32
  fh_checksum :: u32

definition BC_FRAME_MAGIC :: u32 where "BC_FRAME_MAGIC = 0x42434652"
definition BC_FRAME_VERSION :: u16 where "BC_FRAME_VERSION = 1"
definition BC_MAX_FRAME_LEN :: nat where "BC_MAX_FRAME_LEN = 1600"
definition FRAME_HEADER_SIZE :: nat where "FRAME_HEADER_SIZE = 36"

definition put_frame_header :: "bc_frame_header \<Rightarrow> byte list" where
  "put_frame_header h =
     to_le 4 (fh_magic h) @ to_le 2 (fh_version h) @ to_le 2 (fh_header_len h) @
     to_le 4 (fh_src_node h) @ to_le 4 (fh_dst_node h) @ to_le 2 (fh_flags h) @
     to_le 2 (fh_qos h) @ to_le 4 (fh_seq h) @ to_le 2 (fh_channel_len h) @
     to_le 2 (fh_topic_len h) @ to_le 4 (fh_payload_len h) @ to_le 4 (fh_checksum h)"

definition get_frame_header :: "byte list \<Rightarrow> bc_frame_header" where
  "get_frame_header bs =
     \<lparr>fh_magic = of_le (fld 0 4 bs), fh_version = of_le (fld 4 2 bs),
      fh_header_len = of_le (fld 6 2 bs), fh_src_node = of_le (fld 8 4 bs),
      fh_dst_node = of_le (fld 12 4 bs), fh_flags = of_le (fld 16 2 bs),
      fh_qos = of_le (fld 18 2 bs), fh_seq = of_le (fld 20 4 bs),
      fh_channel_len = of_le (fld 24 2 bs), fh_topic_len = of_le (fld 26 2 bs),
      fh_payload_len = of_le (fld 28 4 bs), fh_checksum = of_le (fld 32 4 bs)\<rparr>"

interpretation frame_header: fixed_codec put_frame_header get_frame_header FRAME_HEADER_SIZE
proof unfold_locales
  fix h :: bc_frame_header and bs :: "byte list"
  show "length (put_frame_header h) = FRAME_HEADER_SIZE"
    by (simp add: put_frame_header_def FRAME_HEADER_SIZE_def del: to_le_numeral)
  show "get_frame_header (put_frame_header h) = h"
    by (simp add: put_frame_header_def get_frame_header_def codec_simps le16.dec_enc le32.dec_enc
        del: to_le_numeral)
  assume l: "length bs = FRAME_HEADER_SIZE"
  have "put_frame_header (get_frame_header bs) =
      fld 0 4 bs @ fld 4 2 bs @ fld 6 2 bs @ fld 8 4 bs @ fld 12 4 bs @ fld 16 2 bs @
      fld 18 2 bs @ fld 20 4 bs @ fld 24 2 bs @ fld 26 2 bs @ fld 28 4 bs @ fld 32 4 bs"
    using l
    by (simp add: put_frame_header_def get_frame_header_def le16.enc_dec le32.enc_dec codec_simps
        FRAME_HEADER_SIZE_def del: to_le_numeral)
  also have "\<dots> = take 36 bs"
    by (simp add: fld_chain)
  finally show "put_frame_header (get_frame_header bs) = bs"
    using l by (simp add: FRAME_HEADER_SIZE_def)
qed

section \<open>Encoding and decoding\<close>

definition bc_crc32 :: "byte list \<Rightarrow> u32" where
  "bc_crc32 data = NOT (bc_file_crc32_update 0xffffffff data)"

definition bc_protocol_encode :: "bc_message \<Rightarrow> bc_status + byte list" where
  "bc_protocol_encode msg =
     (let channel_len = strnlen (m_channel msg) BC_MAX_CHANNEL_LEN;
          topic_len = strnlen (m_topic msg) BC_MAX_TOPIC_LEN in
      if channel_len \<ge> BC_MAX_CHANNEL_LEN then Inl BC_ERR_INVALID
      else if topic_len = 0 \<or> topic_len \<ge> BC_MAX_TOPIC_LEN \<or> length (m_payload msg) > BC_MAX_PAYLOAD_LEN
      then Inl BC_ERR_INVALID
      else
        let total_len = FRAME_HEADER_SIZE + channel_len + topic_len + length (m_payload msg) in
        if total_len > BC_MAX_FRAME_LEN then Inl BC_ERR_INVALID
        else
          let header =
            \<lparr>fh_magic = BC_FRAME_MAGIC, fh_version = BC_FRAME_VERSION,
             fh_header_len = of_nat FRAME_HEADER_SIZE,
             fh_src_node = m_src_node msg, fh_dst_node = m_dst_node msg,
             fh_flags = m_flags msg, fh_qos = m_qos msg, fh_seq = m_seq msg,
             fh_channel_len = of_nat channel_len, fh_topic_len = of_nat topic_len,
             fh_payload_len = of_nat (length (m_payload msg)),
             fh_checksum = bc_crc32 (m_payload msg)\<rparr> in
          Inr (put_frame_header header @ take channel_len (m_channel msg) @
               take topic_len (m_topic msg) @ m_payload msg))"

text \<open>\<open>frame_len\<close> is the out-parameter: the value the caller passed, unless the code stores one.\<close>

definition bc_protocol_frame_length :: "byte list \<Rightarrow> nat \<Rightarrow> bc_status \<times> nat" where
  "bc_protocol_frame_length data frame_len =
     (if length data < FRAME_HEADER_SIZE then (BC_ERR_NOT_FOUND, frame_len)
      else
        let header = get_frame_header (take FRAME_HEADER_SIZE data) in
        if fh_magic header \<noteq> BC_FRAME_MAGIC \<or> fh_version header \<noteq> BC_FRAME_VERSION
        then (BC_ERR_INVALID, frame_len)
        else if fh_header_len header \<noteq> of_nat FRAME_HEADER_SIZE then (BC_ERR_INVALID, frame_len)
        else if unat (fh_channel_len header) \<ge> BC_MAX_CHANNEL_LEN then (BC_ERR_INVALID, frame_len)
        else if fh_topic_len header = 0 \<or> unat (fh_topic_len header) \<ge> BC_MAX_TOPIC_LEN
        then (BC_ERR_INVALID, frame_len)
        else if unat (fh_payload_len header) > BC_MAX_PAYLOAD_LEN then (BC_ERR_INVALID, frame_len)
        else
          let total_len = FRAME_HEADER_SIZE + unat (fh_channel_len header) +
                unat (fh_topic_len header) + unat (fh_payload_len header) in
          if total_len > BC_MAX_FRAME_LEN then (BC_ERR_INVALID, frame_len)
          else (if length data \<ge> total_len then BC_OK else BC_ERR_NOT_FOUND, total_len))"

definition bc_protocol_decode :: "byte list \<Rightarrow> bc_status + bc_message" where
  "bc_protocol_decode data =
     (if length data < FRAME_HEADER_SIZE then Inl BC_ERR_INVALID
      else
        let header = get_frame_header (take FRAME_HEADER_SIZE data);
            channel_len = unat (fh_channel_len header);
            topic_len = unat (fh_topic_len header);
            payload_len = unat (fh_payload_len header) in
        if fh_magic header \<noteq> BC_FRAME_MAGIC \<or> fh_version header \<noteq> BC_FRAME_VERSION
        then Inl BC_ERR_INVALID
        else if channel_len \<ge> BC_MAX_CHANNEL_LEN then Inl BC_ERR_INVALID
        else if topic_len = 0 \<or> topic_len \<ge> BC_MAX_TOPIC_LEN then Inl BC_ERR_INVALID
        else if payload_len > BC_MAX_PAYLOAD_LEN then Inl BC_ERR_INVALID
        else if fh_header_len header \<noteq> of_nat FRAME_HEADER_SIZE then Inl BC_ERR_INVALID
        else if length data < FRAME_HEADER_SIZE + channel_len + topic_len + payload_len
        then Inl BC_ERR_INVALID
        else
          let payload = fld (FRAME_HEADER_SIZE + channel_len + topic_len) payload_len data in
          if bc_crc32 payload \<noteq> fh_checksum header then Inl BC_ERR_INVALID
          else
            Inr (empty_message
              \<lparr>m_src_node := fh_src_node header, m_dst_node := fh_dst_node header,
               m_flags := fh_flags header, m_qos := fh_qos header, m_seq := fh_seq header,
               m_channel := (blit (zeros BC_MAX_CHANNEL_LEN) 0
                  (fld FRAME_HEADER_SIZE channel_len data))[channel_len := 0],
               m_topic := (blit (zeros BC_MAX_TOPIC_LEN) 0
                  (fld (FRAME_HEADER_SIZE + channel_len) topic_len data))[topic_len := 0],
               m_payload := payload\<rparr>))"

section \<open>The frame on the wire\<close>

text \<open>When a message can be sent, and the bytes it becomes.\<close>

definition encodable :: "bc_message \<Rightarrow> bool" where
  "encodable m \<longleftrightarrow> length (cstr (m_channel m)) < BC_MAX_CHANNEL_LEN \<and>
     0 < length (cstr (m_topic m)) \<and> length (cstr (m_topic m)) < BC_MAX_TOPIC_LEN \<and>
     length (m_payload m) \<le> BC_MAX_PAYLOAD_LEN"

definition header_of :: "bc_message \<Rightarrow> bc_frame_header" where
  "header_of m =
     \<lparr>fh_magic = BC_FRAME_MAGIC, fh_version = BC_FRAME_VERSION,
      fh_header_len = of_nat FRAME_HEADER_SIZE,
      fh_src_node = m_src_node m, fh_dst_node = m_dst_node m,
      fh_flags = m_flags m, fh_qos = m_qos m, fh_seq = m_seq m,
      fh_channel_len = of_nat (length (cstr (m_channel m))),
      fh_topic_len = of_nat (length (cstr (m_topic m))),
      fh_payload_len = of_nat (length (m_payload m)),
      fh_checksum = bc_crc32 (m_payload m)\<rparr>"

definition wire :: "bc_message \<Rightarrow> byte list" where
  "wire m = put_frame_header (header_of m) @ cstr (m_channel m) @ cstr (m_topic m) @ m_payload m"

definition body_offset :: "bc_message \<Rightarrow> nat" where
  "body_offset m = FRAME_HEADER_SIZE + length (cstr (m_channel m)) + length (cstr (m_topic m))"

lemma length_wire: "length (wire m) = body_offset m + length (m_payload m)"
  by (simp add: wire_def body_offset_def frame_header.enc_len)

lemma encodable_simps:
  assumes "encodable m"
  shows "unat (fh_channel_len (header_of m)) = length (cstr (m_channel m))"
    and "unat (fh_topic_len (header_of m)) = length (cstr (m_topic m))"
    and "unat (fh_payload_len (header_of m)) = length (m_payload m)"
    and "fh_topic_len (header_of m) \<noteq> 0"
proof -
  show t: "unat (fh_topic_len (header_of m)) = length (cstr (m_topic m))"
    using assms by (simp add: encodable_def header_of_def bc_limits unat_of_nat_word)
  show "unat (fh_channel_len (header_of m)) = length (cstr (m_channel m))"
    "unat (fh_payload_len (header_of m)) = length (m_payload m)"
    using assms by (simp_all add: encodable_def header_of_def bc_limits unat_of_nat_word)
  show "fh_topic_len (header_of m) \<noteq> 0"
    using t assms by (auto simp: encodable_def)
qed

lemma header_of_fixed:
  "fh_magic (header_of m) = BC_FRAME_MAGIC" "fh_version (header_of m) = BC_FRAME_VERSION"
  "fh_header_len (header_of m) = of_nat FRAME_HEADER_SIZE"
  "fh_checksum (header_of m) = bc_crc32 (m_payload m)"
  by (simp_all add: header_of_def)

lemma encode_eq: "bc_protocol_encode m = (if encodable m then Inr (wire m) else Inl BC_ERR_INVALID)"
  by (auto simp: bc_protocol_encode_def encodable_def wire_def header_of_def take_strnlen
      strnlen_min bc_limits Let_def BC_MAX_FRAME_LEN_def FRAME_HEADER_SIZE_def min_def)

lemma get_header_wire:
  "FRAME_HEADER_SIZE \<le> n \<Longrightarrow> get_frame_header (take FRAME_HEADER_SIZE (take n (wire m @ r))) = header_of m"
  by (simp add: wire_def frame_header.enc_len frame_header.dec_enc min.absorb1)

lemma frame_length_wire:
  assumes m: "encodable m" and h: "FRAME_HEADER_SIZE \<le> n" "n \<le> length (wire m @ r)"
  shows "bc_protocol_frame_length (take n (wire m @ r)) k =
    (if length (wire m) \<le> n then BC_OK else BC_ERR_NOT_FOUND, length (wire m))"
proof -
  have b: "FRAME_HEADER_SIZE + length (cstr (m_channel m)) + length (cstr (m_topic m)) +
      length (m_payload m) \<le> BC_MAX_FRAME_LEN"
    using m by (simp add: encodable_def bc_limits FRAME_HEADER_SIZE_def BC_MAX_FRAME_LEN_def)
  show ?thesis
    using m h b unfolding bc_protocol_frame_length_def get_header_wire [OF h(1)] Let_def
    by (simp add: encodable_simps header_of_fixed length_wire body_offset_def)
      (auto simp: encodable_def)
qed

lemma fld_wire:
  "fld FRAME_HEADER_SIZE (length (cstr (m_channel m))) (wire m @ r) = cstr (m_channel m)"
  "fld (FRAME_HEADER_SIZE + length (cstr (m_channel m))) (length (cstr (m_topic m))) (wire m @ r) = cstr (m_topic m)"
  "fld (body_offset m) (length (m_payload m)) (wire m @ r) = m_payload m"
  by (simp_all add: fld_def wire_def body_offset_def frame_header.enc_len)

lemma blit_canon:
  "length (cstr c) < n \<Longrightarrow> (blit (zeros n) 0 (cstr c))[length (cstr c) := 0] = canon n c"
  by (simp add: blit_def canon_def list_update_append zeros_def list_update_same_conv nth_append)

lemma decode_wire: "encodable m \<Longrightarrow> bc_protocol_decode (wire m @ r) = Inr (canon_message m)"
proof -
  assume m: "encodable m"
  have g: "get_frame_header (take FRAME_HEADER_SIZE (wire m @ r)) = header_of m"
    using get_header_wire [of "length (wire m @ r)" m r] by (simp add: length_wire body_offset_def)
  have c: "length (cstr (m_channel m)) < BC_MAX_CHANNEL_LEN"
    "length (cstr (m_topic m)) < BC_MAX_TOPIC_LEN" "0 < length (cstr (m_topic m))"
    "length (m_payload m) \<le> BC_MAX_PAYLOAD_LEN"
    using m by (auto simp: encodable_def)
  show ?thesis
    using c fld_wire(3) [of m r]
    unfolding bc_protocol_decode_def g Let_def
    by (simp add: encodable_simps [OF m] header_of_fixed fld_wire blit_canon length_wire
        body_offset_def canon_message_def empty_message_def)
      (simp add: header_of_def)
qed

text \<open>
  C4. Round trip: whatever message the encoder accepts, the decoder returns from the bytes
  it produced (followed by anything, as in a stream buffer), with the same fields, the same
  payload and the same channel and topic strings.
\<close>

theorem encode_decode_roundtrip:
  "bc_protocol_encode m = Inr f \<Longrightarrow> bc_protocol_decode (f @ r) = Inr (canon_message m)"
  by (auto simp: encode_eq decode_wire split: if_splits)

definition sample_message :: bc_message where
  "sample_message = empty_message\<lparr>m_src_node := 1, m_dst_node := 2, m_seq := 7, m_qos := 1,
     m_channel := snprintf_s (zeros 32) (str ''ctl''), m_topic := snprintf_s (zeros 64) (str ''a.b''),
     m_payload := [104, 105]\<rparr>"

lemma encodable_sample: "encodable sample_message"
  by (simp add: encodable_def sample_message_def cstring_simps str_def bc_limits)

lemma encode_decode_roundtrip_witness:
  "bc_protocol_decode (wire sample_message @ [9]) = Inr (canon_message sample_message)"
  by (rule encode_decode_roundtrip) (simp add: encode_eq encodable_sample)

text \<open>
  A frame delimits itself in a byte stream: from the first 36 bytes on the header gives
  the exact length of the frame, a shorter part of it is reported as incomplete (never as
  invalid, which would make the daemon throw its buffer away), and the bytes of the next
  frame do not matter.
\<close>

theorem frame_length_delimits:
  assumes "bc_protocol_encode m = Inr f" and "n \<le> length (f @ r)"
  shows "bc_protocol_frame_length (take n (f @ r)) 0 =
    (if n < FRAME_HEADER_SIZE then (BC_ERR_NOT_FOUND, 0)
     else if n < length f then (BC_ERR_NOT_FOUND, length f) else (BC_OK, length f))"
proof -
  from assms(1) have m: "encodable m" and f: "f = wire m"
    by (simp_all add: encode_eq split: if_splits)
  show ?thesis
  proof (cases "n < FRAME_HEADER_SIZE")
    case True
    moreover have "length (take n (f @ r)) = n" using assms(2) by simp
    ultimately show ?thesis
      unfolding bc_protocol_frame_length_def by (simp only: if_True)
  next
    case False
    then show ?thesis
      using frame_length_wire [OF m, of n r 0] assms(2) f by auto
  qed
qed

lemma frame_length_delimits_witness:
  "bc_protocol_frame_length (take 40 (wire sample_message @ [9])) 0 = (BC_ERR_NOT_FOUND, 44)"
proof -
  have l: "length (wire sample_message) = 44"
    by (simp add: length_wire body_offset_def FRAME_HEADER_SIZE_def sample_message_def
        cstring_simps str_def)
  show ?thesis
    using frame_length_delimits [of sample_message "wire sample_message" 40 "[9]"] l
    by (simp add: encode_eq encodable_sample FRAME_HEADER_SIZE_def)
qed

subsection \<open>Everything the decoder accepts\<close>

definition accepted :: "byte list \<Rightarrow> bc_frame_header \<Rightarrow> bool" where
  "accepted data h \<longleftrightarrow> FRAME_HEADER_SIZE \<le> length data \<and>
     fh_magic h = BC_FRAME_MAGIC \<and> fh_version h = BC_FRAME_VERSION \<and>
     fh_header_len h = of_nat FRAME_HEADER_SIZE \<and>
     unat (fh_channel_len h) < BC_MAX_CHANNEL_LEN \<and>
     fh_topic_len h \<noteq> 0 \<and> unat (fh_topic_len h) < BC_MAX_TOPIC_LEN \<and>
     unat (fh_payload_len h) \<le> BC_MAX_PAYLOAD_LEN \<and>
     FRAME_HEADER_SIZE + unat (fh_channel_len h) + unat (fh_topic_len h) + unat (fh_payload_len h)
       \<le> length data"

definition message_of :: "byte list \<Rightarrow> bc_frame_header \<Rightarrow> bc_message" where
  "message_of data h =
     (let cl = unat (fh_channel_len h); tl = unat (fh_topic_len h) in
      \<lparr>m_src_node = fh_src_node h, m_dst_node = fh_dst_node h, m_flags = fh_flags h,
       m_qos = fh_qos h, m_seq = fh_seq h,
       m_channel = (blit (zeros BC_MAX_CHANNEL_LEN) 0 (fld FRAME_HEADER_SIZE cl data))[cl := 0],
       m_topic = (blit (zeros BC_MAX_TOPIC_LEN) 0 (fld (FRAME_HEADER_SIZE + cl) tl data))[tl := 0],
       m_payload = fld (FRAME_HEADER_SIZE + cl + tl) (unat (fh_payload_len h)) data\<rparr>)"

lemma decode_Inr:
  assumes "bc_protocol_decode data = Inr m"
  defines "h \<equiv> get_frame_header (take FRAME_HEADER_SIZE data)"
  shows "accepted data h" "m = message_of data h" "fh_checksum h = bc_crc32 (m_payload m)"
  using assms(1) unfolding bc_protocol_decode_def Let_def h_def [symmetric]
  by (simp_all add: accepted_def message_of_def Let_def h_def empty_message_def not_le not_less
      split: if_splits) auto

lemma frame_length_accepted:
  assumes h: "get_frame_header (take FRAME_HEADER_SIZE data) = h" and "accepted data h"
  shows "bc_protocol_frame_length data k =
    (BC_OK, FRAME_HEADER_SIZE + unat (fh_channel_len h) + unat (fh_topic_len h) + unat (fh_payload_len h))"
proof -
  have b: "FRAME_HEADER_SIZE + unat (fh_channel_len h) + unat (fh_topic_len h) + unat (fh_payload_len h)
      \<le> BC_MAX_FRAME_LEN"
    using assms by (simp add: accepted_def bc_limits FRAME_HEADER_SIZE_def BC_MAX_FRAME_LEN_def)
  show ?thesis
    unfolding bc_protocol_frame_length_def h Let_def
    using assms b by (simp add: accepted_def)
qed

lemma terminated_update: "i < length xs \<Longrightarrow> terminated (xs[i := 0])"
  by (auto simp: terminated_def set_update_memI)

lemma blit_string:
  "length s < n \<Longrightarrow> 0 \<notin> set s \<Longrightarrow> (blit (zeros n) 0 s)[length s := 0] = canon n s"
  using blit_canon [of s n] by (simp add: cstr_no_zero)

lemma encode_accepted:
  assumes h: "get_frame_header (take FRAME_HEADER_SIZE data) = h" and a: "accepted data h"
    and m: "m = message_of data h" and c: "fh_checksum h = bc_crc32 (m_payload m)"
    and cl: "length (cstr (m_channel m)) = unat (fh_channel_len h)"
    and tl: "length (cstr (m_topic m)) = unat (fh_topic_len h)"
  shows "bc_protocol_encode m = Inr (take (FRAME_HEADER_SIZE + unat (fh_channel_len h) +
    unat (fh_topic_len h) + unat (fh_payload_len h)) data)"
proof -
  let ?cl = "unat (fh_channel_len h)" and ?tl = "unat (fh_topic_len h)" and ?pl = "unat (fh_payload_len h)"
  have l: "length (fld FRAME_HEADER_SIZE ?cl data) = ?cl"
    "length (fld (FRAME_HEADER_SIZE + ?cl) ?tl data) = ?tl"
    "length (fld (FRAME_HEADER_SIZE + ?cl + ?tl) ?pl data) = ?pl"
    using a by (simp_all add: length_fld accepted_def)
  have "cstr (m_channel m) = take ?cl (m_channel m)" "cstr (m_topic m) = take ?tl (m_topic m)"
    using cl tl take_cstr by metis+
  then have s: "cstr (m_channel m) = fld FRAME_HEADER_SIZE ?cl data"
    "cstr (m_topic m) = fld (FRAME_HEADER_SIZE + ?cl) ?tl data"
    using m l by (simp_all add: blit_def message_of_def Let_def)
  have p: "m_payload m = fld (FRAME_HEADER_SIZE + ?cl + ?tl) ?pl data"
    using m by (simp add: message_of_def Let_def)
  have e: "encodable m"
    using a cl tl l p by (simp add: encodable_def accepted_def) (metis unat_gt_0)
  have "header_of m = h"
    using a cl tl l p c by (simp add: header_of_def accepted_def m message_of_def Let_def)
  moreover have "put_frame_header h = take FRAME_HEADER_SIZE data"
    using a h frame_header.enc_read by (fastforce simp: accepted_def)
  ultimately have "wire m = take (FRAME_HEADER_SIZE + ?cl + ?tl + ?pl) data"
    using s p by (simp add: wire_def fld_chain)
  then show ?thesis using e by (simp add: encode_eq)
qed

text \<open>
  C16. Soundness of the decoder: a message it returns is well formed (terminated names in
  arrays of the declared sizes, a payload of at most 1400 bytes), the length check of the
  stream reader agrees with it, and when the names carry no embedded NUL the frame is, byte
  for byte, the one the encoder produces for that message: there is no second encoding.
\<close>

theorem decode_sound:
  assumes "bc_protocol_decode data = Inr m"
  shows "wf_message m \<and>
    (\<exists>n. bc_protocol_frame_length data 0 = (BC_OK, n) \<and> n \<le> length data \<and>
      (length (cstr (m_channel m)) = unat (fh_channel_len (get_frame_header (take FRAME_HEADER_SIZE data))) \<longrightarrow>
       length (cstr (m_topic m)) = unat (fh_topic_len (get_frame_header (take FRAME_HEADER_SIZE data))) \<longrightarrow>
       bc_protocol_encode m = Inr (take n data)))"
proof -
  define h where "h = get_frame_header (take FRAME_HEADER_SIZE data)"
  note d = decode_Inr [OF assms, folded h_def]
  have wf: "wf_message m"
    using d(1,2) by (simp add: wf_message_def message_of_def accepted_def Let_def length_fld terminated_update)
  have "n \<le> length data \<Longrightarrow> length (cstr (m_channel m)) = unat (fh_channel_len h) \<Longrightarrow>
      length (cstr (m_topic m)) = unat (fh_topic_len h) \<Longrightarrow>
      bc_protocol_encode m = Inr (take n data)"
    if "n = FRAME_HEADER_SIZE + unat (fh_channel_len h) + unat (fh_topic_len h) + unat (fh_payload_len h)" for n
    using encode_accepted [OF h_def [symmetric] d] that by simp
  then show ?thesis
    using wf frame_length_accepted [OF h_def [symmetric] d(1), of 0] d(1) by (auto simp: h_def accepted_def)
qed

lemma decode_sound_witness: "wf_message (canon_message sample_message)"
  using decode_sound [of "wire sample_message" "canon_message sample_message"]
    decode_wire [OF encodable_sample, of "[]"] by simp

text \<open>
  C17. Payload integrity: a frame whose payload was damaged within any four consecutive bytes
  (a burst of at most 32 bits, so every single-bit and single-byte error) is rejected.
\<close>

theorem decode_rejects_burst:
  assumes enc: "bc_protocol_encode m = Inr (p @ e @ s)"
    and payload: "body_offset m \<le> length p"
    and burst: "length e' = length e" "length e \<le> 4" "e' \<noteq> e"
  shows "bc_protocol_decode (p @ e' @ s) = Inl BC_ERR_INVALID"
proof -
  from enc have m: "encodable m" and w: "wire m = p @ e @ s"
    by (simp_all add: encode_eq split: if_splits)
  let ?b = "body_offset m"
  let ?q = "drop ?b p"
  have head: "take ?b (p @ x) = take ?b p" for x
    using payload by simp
  have pay: "m_payload m = ?q @ e @ s"
    using arg_cong [OF w, where f = "drop ?b"] payload
    by (simp add: wire_def body_offset_def frame_header.enc_len)
  have hd: "get_frame_header (take FRAME_HEADER_SIZE (p @ e' @ s)) = header_of m"
  proof -
    have "take FRAME_HEADER_SIZE (p @ e' @ s) = take FRAME_HEADER_SIZE (wire m)"
      using payload w by (simp add: body_offset_def)
    then show ?thesis by (simp add: wire_def frame_header.enc_len frame_header.dec_enc)
  qed
  have len: "length (p @ e' @ s) = length (wire m)"
    using burst w by simp
  have f: "fld ?b (length (m_payload m)) (p @ e' @ s) = ?q @ e' @ s"
    using payload burst by (simp add: fld_def pay)
  have c: "bc_crc32 (?q @ e' @ s) \<noteq> fh_checksum (header_of m)"
    using crc_burst_detected [OF burst(1) _ burst(3)] burst
    by (simp add: header_of_def bc_crc32_def pay)
  have d: "\<not> length (p @ e' @ s) < FRAME_HEADER_SIZE"
    unfolding len by (simp add: length_wire body_offset_def)
  show ?thesis
    unfolding bc_protocol_decode_def hd Let_def if_not_P [OF d] encodable_simps [OF m]
    using f c by (simp add: body_offset_def)
qed

lemma decode_rejects_burst_witness:
  "bc_protocol_decode (take 42 (wire sample_message) @ [105] @ [105]) = Inl BC_ERR_INVALID"
proof (rule decode_rejects_burst [of sample_message _ "[104]"])
  have l: "body_offset sample_message = 42"
    by (simp add: body_offset_def FRAME_HEADER_SIZE_def sample_message_def cstring_simps str_def)
  have w: "wire sample_message = take 42 (wire sample_message) @ [104, 105]"
  proof -
    have "drop 42 (wire sample_message) = m_payload sample_message"
      using l by (simp add: wire_def body_offset_def frame_header.enc_len)
    moreover have "m_payload sample_message = [104, 105]"
      by (simp add: sample_message_def)
    ultimately show ?thesis by (metis append_take_drop_id)
  qed
  show "bc_protocol_encode sample_message = Inr (take 42 (wire sample_message) @ [104] @ [105])"
    using w by (simp add: encode_eq encodable_sample)
  show "body_offset sample_message \<le> length (take 42 (wire sample_message))"
    using l length_wire [of sample_message] by simp
qed simp_all

end
