(* ===== verification/Router.thy ===== *)
theory Router
  imports Protocol Config Topic_Match
begin

text \<open>
  \<^verbatim>\<open>src/daemon/router.c\<close>: the transport a message leaves through. A transport is its index in
  the array of the transport manager, of which the router reads the names.
\<close>

definition find_transport :: "byte list list \<Rightarrow> byte list \<Rightarrow> nat option" where
  "find_transport names name = find (\<lambda>i. strcmp_eq (names ! i) name) [0..<length names]"

definition route_to :: "byte list list \<Rightarrow> byte list \<Rightarrow> bc_status + nat" where
  "route_to names transport = (case find_transport names transport of
     None \<Rightarrow> Inl BC_ERR_NOT_FOUND | Some i \<Rightarrow> Inr i)"

fun route_channels :: "bc_channel_config list \<Rightarrow> byte list list \<Rightarrow> byte list \<Rightarrow> bc_status + nat" where
  "route_channels [] names channel = Inl BC_ERR_NOT_FOUND"
| "route_channels (c # cs) names channel =
     (if strcmp_eq (ch_name c) channel then route_to names (ch_transport c)
      else route_channels cs names channel)"

fun route_topics ::
  "bc_route_config list \<Rightarrow> byte list list \<Rightarrow> byte list \<Rightarrow> nat option \<Rightarrow> bc_status + nat" where
  "route_topics [] names topic fallback =
     (case fallback of None \<Rightarrow> Inl BC_ERR_NOT_FOUND | Some i \<Rightarrow> Inr i)"
| "route_topics (r # rs) names topic fallback =
     (if strcmp_eq (rt_topic r) (str ''*'')
      then route_topics rs names topic (find_transport names (rt_transport r))
      else if bc_topic_matches (rt_topic r) topic then route_to names (rt_transport r)
      else route_topics rs names topic fallback)"

definition bc_router_route :: "bc_config \<Rightarrow> byte list list \<Rightarrow> bc_message \<Rightarrow> bc_status + nat" where
  "bc_router_route config names msg =
     (if cstr (m_channel msg) \<noteq> [] then route_channels (cf_channels config) names (m_channel msg)
      else route_topics (cf_routes config) names (m_topic msg) None)"

section \<open>Which route is taken\<close>

definition lookup_name :: "byte list list \<Rightarrow> byte list option \<Rightarrow> bc_status + nat" where
  "lookup_name names o_name = (case o_name of None \<Rightarrow> Inl BC_ERR_NOT_FOUND | Some n \<Rightarrow> route_to names n)"

definition is_default :: "bc_route_config \<Rightarrow> bool" where
  "is_default r \<longleftrightarrow> cstr (rt_topic r) = [STAR]"

lemma is_default_strcmp: "strcmp_eq (rt_topic r) (str ''*'') = is_default r"
  by (simp add: strcmp_eq_def is_default_def cstr_star)

lemma route_channels_find:
  "route_channels cs names ch =
     lookup_name names (map_option ch_transport (find (\<lambda>c. cstr (ch_name c) = cstr ch) cs))"
  by (induction cs) (auto simp: lookup_name_def strcmp_eq_def)

lemma route_topics_find:
  "route_topics rs names t fb =
     (case find (\<lambda>r. \<not> is_default r \<and> bc_topic_matches (rt_topic r) t) rs of
        Some r \<Rightarrow> route_to names (rt_transport r)
      | None \<Rightarrow> (case find is_default (rev rs) of
          Some r \<Rightarrow> route_to names (rt_transport r)
        | None \<Rightarrow> (case fb of None \<Rightarrow> Inl BC_ERR_NOT_FOUND | Some i \<Rightarrow> Inr i)))"
proof (induction rs arbitrary: fb)
  case Nil
  then show ?case by simp
next
  case (Cons r rs)
  have "find is_default (rev rs @ [r]) =
      (case find is_default (rev rs) of Some x \<Rightarrow> Some x | None \<Rightarrow> if is_default r then Some r else None)"
    by (cases "find is_default (rev rs)") (simp_all add: find_append)
  then show ?case
    by (simp add: Cons is_default_strcmp route_to_def split: option.split)
qed

lemma router_route_find:
  "bc_router_route config names msg =
     lookup_name names
       (if cstr (m_channel msg) \<noteq> []
        then map_option ch_transport (find (\<lambda>c. cstr (ch_name c) = cstr (m_channel msg)) (cf_channels config))
        else map_option rt_transport
          (case find (\<lambda>r. \<not> is_default r \<and> bc_topic_matches (rt_topic r) (m_topic msg)) (cf_routes config) of
             Some r \<Rightarrow> Some r | None \<Rightarrow> find is_default (rev (cf_routes config))))"
  by (simp add: bc_router_route_def route_channels_find route_topics_find lookup_name_def split: option.split)

text \<open>
  C18. The routing decision. A message that names a channel goes to the transport of the
  first channel of that name, and is never routed by topic. Any other message goes to the
  transport of the first route whose pattern accepts its topic, the lone star apart; only
  if there is none does the star route decide, the last one if there are several, wherever
  it stands in the file.
\<close>

theorem router_route_spec:
  "bc_router_route config names msg =
     lookup_name names
       (if cstr (m_channel msg) \<noteq> []
        then map_option ch_transport (find (\<lambda>c. cstr (ch_name c) = cstr (m_channel msg)) (cf_channels config))
        else map_option rt_transport
          (case find (\<lambda>r. \<not> is_default r \<and> bc_topic_matches (rt_topic r) (m_topic msg)) (cf_routes config) of
             Some r \<Rightarrow> Some r | None \<Rightarrow> find is_default (rev (cf_routes config))))"
  by (rule router_route_find)

lemma find_transport_Some:
  assumes "find_transport names n = Some i"
  shows "i < length names" "cstr (names ! i) = cstr n"
  using assms by (auto simp: find_transport_def find_Some_iff strcmp_eq_def)

lemma find_transport_distinct:
  assumes "distinct (map cstr names)" "i < length names" "cstr (names ! i) = cstr n"
  shows "find_transport names n = Some i"
proof (cases "find_transport names n")
  case None
  then show ?thesis using assms by (auto simp: find_transport_def find_None_iff strcmp_eq_def)
next
  case (Some j)
  then show ?thesis
    using find_transport_Some [OF Some] assms by (metis length_map nth_eq_iff_index_eq nth_map)
qed

lemma route_result:
  assumes "bc_router_route config names msg = Inr i"
  shows "i < length names"
  using assms find_transport_Some
  by (auto simp: router_route_find lookup_name_def route_to_def split: option.splits if_splits)

text \<open>The names may be those of any array of transports in which each configured one is found.\<close>

definition names_cover :: "bc_config \<Rightarrow> byte list list \<Rightarrow> bool" where
  "names_cover config names \<longleftrightarrow> (\<forall>u \<in> set (cf_transports config). \<exists>n \<in> set names. cstr n = cstr (tc_name u))"

lemma router_total_cover:
  assumes v: "bc_config_validate config = BC_OK" and n: "names_cover config names"
  shows "bc_router_route config names msg = Inl BC_ERR_NOT_FOUND \<longleftrightarrow>
    (if cstr (m_channel msg) \<noteq> []
     then \<forall>c \<in> set (cf_channels config). cstr (ch_name c) \<noteq> cstr (m_channel msg)
     else \<forall>r \<in> set (cf_routes config). \<not> bc_topic_matches (rt_topic r) (m_topic msg))"
proof -
  have ex: "route_to names t \<noteq> Inl BC_ERR_NOT_FOUND" if t: "transport_exists config t" for t
  proof -
    obtain u where "u \<in> set (cf_transports config)" "strcmp_eq (tc_name u) t"
      using t by (auto simp: transport_exists_def list_ex_iff)
    then obtain n where "n \<in> set names" "cstr n = cstr t"
      using n by (auto simp: names_cover_def strcmp_eq_def)
    then obtain i where "i < length names" "strcmp_eq (names ! i) t"
      by (auto simp: in_set_conv_nth strcmp_eq_def)
    then show ?thesis by (auto simp: route_to_def find_transport_def find_None_iff split: option.split)
  qed
  have ch: "transport_exists config (ch_transport c)" if "c \<in> set (cf_channels config)" for c
    using v that by (auto simp: bc_config_validate_def list_ex_iff split: if_splits)
  have rt: "transport_exists config (rt_transport r)" if "r \<in> set (cf_routes config)" for r
    using v that by (auto simp: bc_config_validate_def list_ex_iff split: if_splits)
  have def: "bc_topic_matches (rt_topic r) t" if "is_default r" for r t
    using that by (simp add: is_default_def topic_matches_accepts pattern_accepts_def)
  show ?thesis
  proof (cases "cstr (m_channel msg) \<noteq> []")
    case True
    let ?f = "find (\<lambda>c. cstr (ch_name c) = cstr (m_channel msg)) (cf_channels config)"
    show ?thesis
    proof (cases ?f)
      case None
      then show ?thesis using True by (simp add: router_route_find lookup_name_def) (auto simp: find_None_iff)
    next
      case (Some c)
      then have "c \<in> set (cf_channels config)" "cstr (ch_name c) = cstr (m_channel msg)"
        by (auto simp: find_Some_iff)
      then show ?thesis using True Some ex ch by (auto simp: router_route_find lookup_name_def)
    qed
  next
    case False
    let ?p = "\<lambda>r. \<not> is_default r \<and> bc_topic_matches (rt_topic r) (m_topic msg)"
    show ?thesis
    proof (cases "find ?p (cf_routes config)")
      case (Some r)
      then have r: "r \<in> set (cf_routes config)" "?p r" by (auto simp: find_Some_iff)
      then show ?thesis using False Some ex rt by (auto simp: router_route_find lookup_name_def)
    next
      case none: None
      show ?thesis
      proof (cases "find is_default (rev (cf_routes config))")
        case (Some r)
        then have r: "r \<in> set (cf_routes config)" "is_default r" using find_in_set [OF Some] by auto
        then have "\<exists>r \<in> set (cf_routes config). bc_topic_matches (rt_topic r) (m_topic msg)"
          using def by blast
        then show ?thesis
          using False none Some ex rt r by (simp add: router_route_find lookup_name_def)
      next
        case None
        then show ?thesis
          using False none by (simp add: router_route_find lookup_name_def) (auto simp: find_None_iff)
      qed
    qed
  qed
qed

text \<open>
  Under a configuration that passed validation, with the transports in the order of the
  configuration, routing fails for two reasons only: the message names a channel that is not
  configured, or it names none, no pattern accepts its topic and there is no star route. In
  particular a configured route never leads nowhere.
\<close>

theorem router_total_on_valid_config:
  assumes v: "bc_config_validate config = BC_OK" and n: "names = map tc_name (cf_transports config)"
  shows "bc_router_route config names msg = Inl BC_ERR_NOT_FOUND \<longleftrightarrow>
    (if cstr (m_channel msg) \<noteq> []
     then \<forall>c \<in> set (cf_channels config). cstr (ch_name c) \<noteq> cstr (m_channel msg)
     else \<forall>r \<in> set (cf_routes config). \<not> bc_topic_matches (rt_topic r) (m_topic msg))"
  by (rule router_total_cover [OF v]) (auto simp: n names_cover_def)

lemma router_total_on_valid_config_witness:
  "bc_router_route bc_config_load_defaults [str ''udp0'']
     (empty_message\<lparr>m_channel := snprintf_s (zeros 32) (str ''ctl'')\<rparr>) = Inl BC_ERR_NOT_FOUND"
proof -
  have v: "bc_config_validate bc_config_load_defaults = BC_OK"
    by (simp add: bc_config_validate_def bc_config_load_defaults_def transport_exists_def strcmp_eq_def)
  have n: "[str ''udp0''] = map tc_name (cf_transports bc_config_load_defaults)"
    by (simp add: bc_config_load_defaults_def)
  show ?thesis
    unfolding router_total_on_valid_config [OF v n]
    by (simp add: bc_config_load_defaults_def cstring_simps str_def)
qed

end
