(* ===== verification/Fragment.thy ===== *)
theory Fragment
  imports Protocol "HOL-Library.Multiset"
begin

text \<open>
  \<^verbatim>\<open>src/daemon/fragment.c\<close>: splitting a payload that does not fit one frame, and the
  reassembly table of 16 slots. An access outside an array is a value of its own: the
  operations return an option, and \<open>None\<close> is an access out of bounds.
\<close>

section \<open>State\<close>

definition BC_FRAG_HDR_SIZE :: nat where "BC_FRAG_HDR_SIZE = 8"
definition BC_FRAG_CHUNK_MAX :: nat where "BC_FRAG_CHUNK_MAX = BC_MAX_PAYLOAD_LEN - BC_FRAG_HDR_SIZE"
definition BC_REASM_SLOTS :: nat where "BC_REASM_SLOTS = 16"
definition BITMAP_LEN :: nat where "BITMAP_LEN = BC_MAX_PAYLOAD_LEN div BC_FRAG_CHUNK_MAX + 1"

lemmas frag_consts = BC_FRAG_HDR_SIZE_def BC_FRAG_CHUNK_MAX_def BC_REASM_SLOTS_def BITMAP_LEN_def
  BC_MAX_PAYLOAD_LEN_def

record bc_reasm_slot =
  rs_active :: bool
  rs_seq :: u32
  rs_total :: u16
  rs_received :: u16
  rs_bitmap :: "u16 list"
  rs_topic :: "byte list"
  rs_channel :: "byte list"
  rs_src_node :: u32
  rs_dst_node :: u32
  rs_qos :: u16
  rs_payload :: "byte list"
  rs_payload_len :: nat

type_synonym bc_reasm = "bc_reasm_slot list"

definition zero_slot :: bc_reasm_slot where
  "zero_slot = \<lparr>rs_active = False, rs_seq = 0, rs_total = 0, rs_received = 0,
     rs_bitmap = replicate BITMAP_LEN 0, rs_topic = zeros BC_MAX_TOPIC_LEN,
     rs_channel = zeros BC_MAX_CHANNEL_LEN, rs_src_node = 0, rs_dst_node = 0, rs_qos = 0,
     rs_payload = zeros BC_MAX_PAYLOAD_LEN, rs_payload_len = 0\<rparr>"

definition bc_reasm_init :: bc_reasm where
  "bc_reasm_init = replicate BC_REASM_SLOTS zero_slot"

section \<open>Reassembly\<close>

fun find_slot_loop :: "bc_reasm \<Rightarrow> nat \<Rightarrow> nat option \<Rightarrow> u32 \<Rightarrow> u32 \<Rightarrow> nat option" where
  "find_slot_loop [] i free_slot seq src_node = free_slot"
| "find_slot_loop (s # ss) i free_slot seq src_node =
     (if rs_active s \<and> rs_seq s = seq \<and> rs_src_node s = src_node then Some i
      else find_slot_loop ss (Suc i)
        (if \<not> rs_active s \<and> free_slot = None then Some i else free_slot) seq src_node)"

definition find_slot :: "bc_reasm \<Rightarrow> u32 \<Rightarrow> u32 \<Rightarrow> nat option" where
  "find_slot reasm seq src_node = find_slot_loop reasm 0 None seq src_node"

definition open_slot :: "bc_reasm_slot \<Rightarrow> bc_message \<Rightarrow> u16 \<Rightarrow> bc_reasm_slot" where
  "open_slot slot frag tot = slot\<lparr>
     rs_active := True, rs_seq := m_seq frag, rs_total := tot, rs_received := 0,
     rs_src_node := m_src_node frag, rs_dst_node := m_dst_node frag, rs_qos := m_qos frag,
     rs_payload_len := 0, rs_bitmap := replicate (length (rs_bitmap slot)) 0,
     rs_topic := strncpy (rs_topic slot) (m_topic frag) (BC_MAX_TOPIC_LEN - 1),
     rs_channel := strncpy (rs_channel slot) (m_channel frag) (BC_MAX_CHANNEL_LEN - 1)\<rparr>"

definition slot_message :: "bc_reasm_slot \<Rightarrow> bc_message" where
  "slot_message slot = empty_message\<lparr>
     m_src_node := rs_src_node slot, m_dst_node := rs_dst_node slot, m_qos := rs_qos slot,
     m_seq := rs_seq slot,
     m_topic := strncpy (zeros BC_MAX_TOPIC_LEN) (rs_topic slot) (BC_MAX_TOPIC_LEN - 1),
     m_channel := strncpy (zeros BC_MAX_CHANNEL_LEN) (rs_channel slot) (BC_MAX_CHANNEL_LEN - 1),
     m_payload := take (rs_payload_len slot) (rs_payload slot)\<rparr>"

definition frag_index :: "bc_message \<Rightarrow> u16" where
  "frag_index frag = ucast (m_payload frag ! 0) OR push_bit 8 (ucast (m_payload frag ! 1))"

definition frag_total :: "bc_message \<Rightarrow> u16" where
  "frag_total frag = ucast (m_payload frag ! 2) OR push_bit 8 (ucast (m_payload frag ! 3))"

text \<open>
  The fragment's place in the payload; storing it in its slot; and what a fragment does to
  the slot the lookup returned.
\<close>

definition frag_offset :: "bc_message \<Rightarrow> nat" where
  "frag_offset frag = unat (frag_index frag) * BC_FRAG_CHUNK_MAX"

definition frag_chunk_len :: "bc_message \<Rightarrow> nat" where
  "frag_chunk_len frag = length (m_payload frag) - BC_FRAG_HDR_SIZE"

definition slot_store :: "bc_reasm_slot \<Rightarrow> bc_message \<Rightarrow> bc_reasm_slot" where
  "slot_store slot frag = slot\<lparr>
     rs_payload := blit (rs_payload slot) (frag_offset frag) (drop BC_FRAG_HDR_SIZE (m_payload frag)),
     rs_bitmap := (rs_bitmap slot)[unat (frag_index frag) := 1],
     rs_received := rs_received slot + 1,
     rs_payload_len := (if frag_offset frag + frag_chunk_len frag > rs_payload_len slot
                        then frag_offset frag + frag_chunk_len frag else rs_payload_len slot)\<rparr>"

definition opened :: "bc_reasm_slot \<Rightarrow> bc_message \<Rightarrow> bc_reasm_slot" where
  "opened s frag = (if rs_active s then s else open_slot s frag (frag_total frag))"

definition slot_feed :: "bc_reasm_slot \<Rightarrow> bc_message \<Rightarrow> (bc_reasm_slot \<times> (bc_status + bc_message)) option" where
  "slot_feed s frag =
     (if rs_active s \<and> rs_total s \<noteq> frag_total frag then Some (s, Inl BC_ERR_INVALID)
      else
        let slot = opened s frag in
        if frag_offset frag + frag_chunk_len frag > BC_MAX_PAYLOAD_LEN
        then Some (slot, Inl BC_ERR_INVALID)
        else if unat (frag_index frag) \<ge> length (rs_bitmap slot) then None
        else if rs_bitmap slot ! unat (frag_index frag) \<noteq> 0 then Some (slot, Inl BC_ERR_NOT_FOUND)
        else
          let slot' = slot_store slot frag in
          if rs_received slot' < rs_total slot' then Some (slot', Inl BC_ERR_NOT_FOUND)
          else Some (slot'\<lparr>rs_active := False\<rparr>, Inr (slot_message slot')))"

definition bc_reasm_feed ::
  "bc_reasm \<Rightarrow> bc_message \<Rightarrow> (bc_reasm \<times> (bc_status + bc_message)) option" where
  "bc_reasm_feed reasm frag =
     (if length (m_payload frag) < BC_FRAG_HDR_SIZE then Some (reasm, Inl BC_ERR_INVALID)
      else if frag_total frag = 0 \<or> frag_index frag \<ge> frag_total frag
      then Some (reasm, Inl BC_ERR_INVALID)
      else case find_slot reasm (m_seq frag) (m_src_node frag) of
          None \<Rightarrow> Some (reasm, Inl BC_ERR_NOMEM)
        | Some i \<Rightarrow>
            (case slot_feed (reasm ! i) frag of
               None \<Rightarrow> None
             | Some (slot, res) \<Rightarrow> Some (reasm[i := slot], res)))"

section \<open>Splitting\<close>

definition fragment_piece :: "bc_message \<Rightarrow> u16 \<Rightarrow> u16 \<Rightarrow> bc_message" where
  "fragment_piece msg tot index =
     (let offset = unat index * BC_FRAG_CHUNK_MAX;
          chunk_len = length (m_payload msg) - offset;
          chunk_len = (if chunk_len > BC_FRAG_CHUNK_MAX then BC_FRAG_CHUNK_MAX else chunk_len) in
      empty_message\<lparr>
        m_src_node := m_src_node msg, m_dst_node := m_dst_node msg, m_qos := m_qos msg,
        m_seq := m_seq msg, m_flags := BC_FLAG_FRAGMENT,
        m_topic := strncpy (zeros BC_MAX_TOPIC_LEN) (m_topic msg) (BC_MAX_TOPIC_LEN - 1),
        m_channel := strncpy (zeros BC_MAX_CHANNEL_LEN) (m_channel msg) (BC_MAX_CHANNEL_LEN - 1),
        m_payload :=
          [ucast (index AND 0xff), ucast (drop_bit 8 index AND 0xff),
           ucast (tot AND 0xff), ucast (drop_bit 8 tot AND 0xff), 0, 0, 0, 0] @
          fld offset chunk_len (m_payload msg)\<rparr>)"

fun emit_pieces ::
  "(bc_message \<Rightarrow> 'w \<Rightarrow> bc_status \<times> 'w) \<Rightarrow> bc_message list \<Rightarrow> 'w \<Rightarrow> bc_status \<times> 'w" where
  "emit_pieces emit [] w = (BC_OK, w)"
| "emit_pieces emit (p # ps) w =
     (case emit p w of (rc, w') \<Rightarrow> if rc \<noteq> BC_OK then (rc, w') else emit_pieces emit ps w')"

definition fragment_total :: "bc_message \<Rightarrow> u16" where
  "fragment_total msg =
     of_nat ((length (m_payload msg) + BC_FRAG_CHUNK_MAX - 1) div BC_FRAG_CHUNK_MAX)"

definition fragments :: "bc_message \<Rightarrow> bc_message list" where
  "fragments msg =
     (let tot = fragment_total msg in
      map (\<lambda>i. fragment_piece msg tot (of_nat i)) [0..<unat tot])"

definition bc_fragment_publish ::
  "bc_message \<Rightarrow> (bc_message \<Rightarrow> 'w \<Rightarrow> bc_status \<times> 'w) \<Rightarrow> 'w \<Rightarrow> bc_status \<times> 'w" where
  "bc_fragment_publish msg emit w =
     (if length (m_payload msg) \<le> BC_FRAG_CHUNK_MAX then emit msg w
      else if fragment_total msg = 0 then (BC_ERR_INVALID, w)
      else emit_pieces emit (fragments msg) w)"

section \<open>The slot a fragment goes to\<close>

definition slot_key :: "bc_reasm_slot \<Rightarrow> u32 \<times> u32" where
  "slot_key s = (rs_seq s, rs_src_node s)"

definition frag_key :: "bc_message \<Rightarrow> u32 \<times> u32" where
  "frag_key m = (m_seq m, m_src_node m)"

definition holds :: "bc_reasm_slot \<Rightarrow> u32 \<times> u32 \<Rightarrow> bool" where
  "holds s k \<longleftrightarrow> rs_active s \<and> slot_key s = k"

lemma find_slot_loop_Some:
  "find_slot_loop ss i fs seq src = Some k \<Longrightarrow>
     (\<exists>j < length ss. k = i + j \<and> holds (ss ! j) (seq, src)) \<or>
     (\<forall>s \<in> set ss. \<not> holds s (seq, src)) \<and>
       (fs = Some k \<or> fs = None \<and> (\<exists>j < length ss. k = i + j \<and> \<not> rs_active (ss ! j)))"
proof (induction ss arbitrary: i fs)
  case Nil
  then show ?case by simp
next
  case (Cons s ss)
  show ?case
  proof (cases "holds s (seq, src)")
    case True
    then have "find_slot_loop (s # ss) i fs seq src = Some i" by (auto simp: holds_def slot_key_def)
    with True Cons.prems show ?thesis by auto
  next
    case False
    let ?fs = "if \<not> rs_active s \<and> fs = None then Some i else fs"
    have "find_slot_loop ss (Suc i) ?fs seq src = Some k"
      using Cons.prems False by (auto simp: holds_def slot_key_def split: if_splits)
    from Cons.IH [OF this] consider
        (hit) j where "j < length ss" "k = Suc i + j" "holds (ss ! j) (seq, src)"
      | (free) "\<forall>s \<in> set ss. \<not> holds s (seq, src)" "?fs = Some k"
      | (later) j where "\<forall>s \<in> set ss. \<not> holds s (seq, src)" "?fs = None" "j < length ss"
          "k = Suc i + j" "\<not> rs_active (ss ! j)"
      by blast
    then show ?thesis
    proof cases
      case hit
      then show ?thesis by (intro disjI1 exI [of _ "Suc j"]) simp
    next
      case free
      then show ?thesis using False by (auto split: if_splits)
    next
      case later
      then have "fs = None" by (auto split: if_splits)
      then show ?thesis using False later
        by (intro disjI2 conjI exI [of _ "Suc j"]) auto
    qed
  qed
qed

lemma find_slot_loop_None:
  "find_slot_loop ss i fs seq src = None \<Longrightarrow>
     fs = None \<and> (\<forall>s \<in> set ss. rs_active s \<and> \<not> holds s (seq, src))"
proof (induction ss arbitrary: i fs)
  case Nil
  then show ?case by simp
next
  case (Cons s ss)
  from Cons.prems have n: "\<not> holds s (seq, src)"
    by (auto simp: holds_def slot_key_def)
  let ?fs = "if \<not> rs_active s \<and> fs = None then Some i else fs"
  have "find_slot_loop ss (Suc i) ?fs seq src = None"
    using Cons.prems n by (auto simp: holds_def slot_key_def)
  from Cons.IH [OF this] n show ?case by (simp split: if_split_asm)
qed

lemma find_slot_Some:
  assumes "find_slot r seq src = Some i"
  shows "i < length r"
    and "holds (r ! i) (seq, src) \<or> \<not> rs_active (r ! i) \<and> (\<forall>s \<in> set r. \<not> holds s (seq, src))"
  using find_slot_loop_Some [OF assms [unfolded find_slot_def]] by auto

lemma find_slot_None:
  "find_slot r seq src = None \<longleftrightarrow> (\<forall>s \<in> set r. rs_active s \<and> \<not> holds s (seq, src))"
proof
  assume "find_slot r seq src = None"
  then show "\<forall>s \<in> set r. rs_active s \<and> \<not> holds s (seq, src)"
    using find_slot_loop_None by (simp add: find_slot_def)
next
  assume a: "\<forall>s \<in> set r. rs_active s \<and> \<not> holds s (seq, src)"
  show "find_slot r seq src = None"
  proof (rule ccontr)
    assume "find_slot r seq src \<noteq> None"
    then obtain i where "find_slot r seq src = Some i" by auto
    from find_slot_Some [OF this] a show False by (meson nth_mem)
  qed
qed

section \<open>One slot at a time\<close>

definition frag_valid :: "bc_message \<Rightarrow> bool" where
  "frag_valid frag \<longleftrightarrow> BC_FRAG_HDR_SIZE \<le> length (m_payload frag) \<and>
     frag_total frag \<noteq> 0 \<and> frag_index frag < frag_total frag"

lemma feed_invalid: "\<not> frag_valid frag \<Longrightarrow> bc_reasm_feed r frag = Some (r, Inl BC_ERR_INVALID)"
  by (auto simp: bc_reasm_feed_def frag_valid_def not_le not_less)

lemma feed_valid:
  "frag_valid frag \<Longrightarrow> bc_reasm_feed r frag =
     (case find_slot r (m_seq frag) (m_src_node frag) of
        None \<Rightarrow> Some (r, Inl BC_ERR_NOMEM)
      | Some i \<Rightarrow> map_option (\<lambda>(s, res). (r[i := s], res)) (slot_feed (r ! i) frag))"
  by (auto simp: bc_reasm_feed_def frag_valid_def not_le not_less split: option.splits)

text \<open>The invariant of a slot, of the table, and that feeding keeps both.\<close>

definition bits_set :: "u16 list \<Rightarrow> nat" where
  "bits_set bm = length (filter (\<lambda>b. b \<noteq> 0) bm)"

definition slot_wf :: "bc_reasm_slot \<Rightarrow> bool" where
  "slot_wf s \<longleftrightarrow>
     length (rs_bitmap s) = BITMAP_LEN \<and> length (rs_payload s) = BC_MAX_PAYLOAD_LEN \<and>
     length (rs_topic s) = BC_MAX_TOPIC_LEN \<and> last (rs_topic s) = 0 \<and>
     length (rs_channel s) = BC_MAX_CHANNEL_LEN \<and> last (rs_channel s) = 0 \<and>
     rs_payload_len s \<le> BC_MAX_PAYLOAD_LEN \<and>
     (rs_active s \<longrightarrow> unat (rs_received s) = bits_set (rs_bitmap s) \<and> rs_received s < rs_total s)"

definition reasm_wf :: "bc_reasm \<Rightarrow> bool" where
  "reasm_wf r \<longleftrightarrow> length r = BC_REASM_SLOTS \<and> (\<forall>s \<in> set r. slot_wf s) \<and>
     (\<forall>i < length r. \<forall>j < length r. \<forall>k. holds (r ! i) k \<longrightarrow> holds (r ! j) k \<longrightarrow> i = j)"

lemma strncpy_shape:
  assumes "length dst = Suc n"
  shows "length (strncpy dst src n) = Suc n" and "last (strncpy dst src n) = last dst"
proof -
  have "drop n dst = [last dst]"
    using assms by (metis Suc_eq_plus1 append_butlast_last_id append_eq_conv_conj diff_Suc_1
        length_butlast length_0_conv nat.distinct(1))
  then show "length (strncpy dst src n) = Suc n" "last (strncpy dst src n) = last dst"
    using assms by (simp_all add: strncpy_def blit_def Let_def)
qed

lemma slot_wf_zero: "slot_wf zero_slot"
  by (simp add: slot_wf_def zero_slot_def bc_limits zeros_def)

lemma slot_wf_open: "slot_wf s \<Longrightarrow> frag_total m \<noteq> 0 \<Longrightarrow> slot_wf (open_slot s m (frag_total m))"
  using strncpy_shape [of "rs_topic s" 63 "m_topic m"] strncpy_shape [of "rs_channel s" 31 "m_channel m"]
  by (simp add: slot_wf_def open_slot_def bc_limits bits_set_def word_neq_0_conv)

lemma bits_set_update:
  "i < length bm \<Longrightarrow> bm ! i = 0 \<Longrightarrow> bits_set (bm[i := 1]) = Suc (bits_set bm)"
  unfolding bits_set_def
proof (induction bm arbitrary: i)
  case Nil
  then show ?case by simp
next
  case (Cons b bm)
  then show ?case by (cases i) auto
qed

lemma bits_set_le: "bits_set bm \<le> length bm"
  by (simp add: bits_set_def)

lemma opened_props:
  shows "rs_active (opened s m)"
    and "holds s (frag_key m) \<or> \<not> rs_active s \<Longrightarrow> slot_key (opened s m) = frag_key m"
    and "slot_wf s \<Longrightarrow> frag_valid m \<Longrightarrow> slot_wf (opened s m)"
proof -
  show "rs_active (opened s m)" by (simp add: opened_def open_slot_def)
  show "holds s (frag_key m) \<or> \<not> rs_active s \<Longrightarrow> slot_key (opened s m) = frag_key m"
    by (auto simp: opened_def holds_def slot_key_def frag_key_def open_slot_def)
  show "slot_wf s \<Longrightarrow> frag_valid m \<Longrightarrow> slot_wf (opened s m)"
    by (simp add: opened_def slot_wf_open frag_valid_def)
qed

lemma slot_store_simps [simp]:
  "rs_active (slot_store s m) = rs_active s" "slot_key (slot_store s m) = slot_key s"
  "rs_total (slot_store s m) = rs_total s" "rs_dst_node (slot_store s m) = rs_dst_node s"
  "rs_qos (slot_store s m) = rs_qos s" "rs_topic (slot_store s m) = rs_topic s"
  "rs_channel (slot_store s m) = rs_channel s"
  "rs_seq (slot_store s m) = rs_seq s" "rs_src_node (slot_store s m) = rs_src_node s"
  by (simp_all add: slot_store_def slot_key_def)

lemma slot_feed_cases:
  assumes "slot_feed s m = Some (s', res)"
  obtains (mismatch) "rs_active s" "rs_total s \<noteq> frag_total m" "s' = s" "res = Inl BC_ERR_INVALID"
    | (too_long) "BC_MAX_PAYLOAD_LEN < frag_offset m + frag_chunk_len m" "s' = opened s m"
        "res = Inl BC_ERR_INVALID"
    | (duplicate) "frag_offset m + frag_chunk_len m \<le> BC_MAX_PAYLOAD_LEN"
        "rs_bitmap (opened s m) ! unat (frag_index m) \<noteq> 0" "s' = opened s m" "res = Inl BC_ERR_NOT_FOUND"
    | (stored) "frag_offset m + frag_chunk_len m \<le> BC_MAX_PAYLOAD_LEN"
        "rs_bitmap (opened s m) ! unat (frag_index m) = 0"
        "rs_received (slot_store (opened s m) m) < rs_total (opened s m)"
        "s' = slot_store (opened s m) m" "res = Inl BC_ERR_NOT_FOUND"
    | (completed) "frag_offset m + frag_chunk_len m \<le> BC_MAX_PAYLOAD_LEN"
        "rs_bitmap (opened s m) ! unat (frag_index m) = 0"
        "\<not> rs_received (slot_store (opened s m) m) < rs_total (opened s m)"
        "s' = (slot_store (opened s m) m)\<lparr>rs_active := False\<rparr>"
        "res = Inr (slot_message (slot_store (opened s m) m))"
proof -
  consider "rs_active s \<and> rs_total s \<noteq> frag_total m"
    | "\<not> (rs_active s \<and> rs_total s \<noteq> frag_total m)" "BC_MAX_PAYLOAD_LEN < frag_offset m + frag_chunk_len m"
    | "\<not> (rs_active s \<and> rs_total s \<noteq> frag_total m)" "\<not> BC_MAX_PAYLOAD_LEN < frag_offset m + frag_chunk_len m"
      "rs_bitmap (opened s m) ! unat (frag_index m) \<noteq> 0"
    | "\<not> (rs_active s \<and> rs_total s \<noteq> frag_total m)" "\<not> BC_MAX_PAYLOAD_LEN < frag_offset m + frag_chunk_len m"
      "rs_bitmap (opened s m) ! unat (frag_index m) = 0"
      "rs_received (slot_store (opened s m) m) < rs_total (opened s m)"
    | "\<not> (rs_active s \<and> rs_total s \<noteq> frag_total m)" "\<not> BC_MAX_PAYLOAD_LEN < frag_offset m + frag_chunk_len m"
      "rs_bitmap (opened s m) ! unat (frag_index m) = 0"
      "\<not> rs_received (slot_store (opened s m) m) < rs_total (opened s m)"
    by blast
  then show ?thesis
  proof cases
    case 1
    with assms show ?thesis by (intro mismatch) (simp_all add: slot_feed_def)
  next
    case 2
    with assms show ?thesis by (intro too_long) (simp_all only: slot_feed_def Let_def if_True if_False, auto)
  next
    case 3
    with assms show ?thesis
      by (intro duplicate) (simp_all only: slot_feed_def Let_def if_True if_False, auto split: if_split_asm)
  next
    case 4
    with assms show ?thesis
      by (intro stored) (simp_all only: slot_feed_def Let_def if_True if_False, auto split: if_split_asm)
  next
    case 5
    with assms show ?thesis
      by (intro completed) (simp_all only: slot_feed_def Let_def if_True if_False, auto split: if_split_asm)
  qed
qed

lemma index_bound: "frag_offset m + k \<le> BC_MAX_PAYLOAD_LEN \<Longrightarrow> unat (frag_index m) < BITMAP_LEN"
proof -
  assume "frag_offset m + k \<le> BC_MAX_PAYLOAD_LEN"
  then have "unat (frag_index m) * 1392 \<le> 1400" by (simp add: frag_offset_def frag_consts)
  then show ?thesis by (simp add: frag_consts)
qed

lemma slot_feed_safe:
  assumes "slot_wf s" "frag_valid m"
  shows "slot_feed s m \<noteq> None"
proof -
  have "length (rs_bitmap (opened s m)) = BITMAP_LEN"
    using opened_props(3) [of s m] assms by (simp add: slot_wf_def)
  then have "frag_offset m + frag_chunk_len m \<le> BC_MAX_PAYLOAD_LEN \<Longrightarrow>
      \<not> length (rs_bitmap (opened s m)) \<le> unat (frag_index m)"
    using index_bound [of m "frag_chunk_len m"] by simp
  then show ?thesis unfolding slot_feed_def Let_def by (simp split: if_split)
qed

lemma slot_wf_store:
  assumes wf: "slot_wf s" "rs_active s" and fit: "frag_offset m + frag_chunk_len m \<le> BC_MAX_PAYLOAD_LEN"
    and bit: "rs_bitmap s ! unat (frag_index m) = 0" and v: "frag_valid m"
  shows "unat (rs_received (slot_store s m)) = bits_set (rs_bitmap (slot_store s m))"
    and "rs_received (slot_store s m) < rs_total s \<Longrightarrow> slot_wf (slot_store s m)"
    and "slot_wf ((slot_store s m)\<lparr>rs_active := False\<rparr>)"
proof -
  have i: "unat (frag_index m) < length (rs_bitmap s)"
    using index_bound [OF fit] wf by (simp add: slot_wf_def)
  have "unat (rs_received s) \<le> 2"
    using wf bits_set_le [of "rs_bitmap s"] by (simp add: slot_wf_def frag_consts)
  then have "unat (rs_received s + 1) = Suc (unat (rs_received s))"
    by (subst unat_word_ariths) simp
  then show r: "unat (rs_received (slot_store s m)) = bits_set (rs_bitmap (slot_store s m))"
    using wf i bit by (simp add: slot_store_def slot_wf_def bits_set_update)
  have l: "length (rs_payload (slot_store s m)) = length (rs_payload s)"
    using fit wf v by (simp add: slot_store_def slot_wf_def frag_chunk_len_def frag_valid_def)
  show "slot_wf ((slot_store s m)\<lparr>rs_active := False\<rparr>)"
    using wf fit l by (simp add: slot_wf_def) (simp add: slot_store_def)
  show "slot_wf (slot_store s m)" if "rs_received (slot_store s m) < rs_total s"
    using wf fit l r that by (simp add: slot_wf_def) (simp add: slot_store_def)
qed

lemma slot_feed_wf:
  assumes "slot_feed s m = Some (s', res)" "slot_wf s" "frag_valid m"
  shows "slot_wf s'"
  using assms(1)
proof (cases rule: slot_feed_cases)
  case stored
  then show ?thesis
    using slot_wf_store(2) [of "opened s m" m] assms opened_props by blast
next
  case completed
  then show ?thesis
    using slot_wf_store(3) [of "opened s m" m] assms opened_props by blast
qed (use assms opened_props in auto)

lemma slot_feed_key:
  assumes "slot_feed s m = Some (s', res)" "holds s (frag_key m) \<or> \<not> rs_active s" "rs_active s'"
  shows "holds s' (frag_key m)"
  using assms(1)
  by (cases rule: slot_feed_cases) (use assms opened_props in \<open>auto simp: holds_def\<close>)

section \<open>The table\<close>

lemma reasm_wf_init: "reasm_wf bc_reasm_init"
proof -
  have "\<not> holds zero_slot k" for k by (simp add: holds_def zero_slot_def)
  then show ?thesis by (simp add: reasm_wf_def bc_reasm_init_def slot_wf_zero)
qed

lemma reasm_wf_update:
  assumes wf: "reasm_wf r" and i: "i < length r" and s: "slot_wf s" "rs_active s \<Longrightarrow> holds s k"
    and u: "holds (r ! i) k \<or> (\<forall>t \<in> set r. \<not> holds t k)"
  shows "reasm_wf (r[i := s])"
proof -
  have uni: "a = b" if "a < length r" "b < length r" "holds (r ! a) k'" "holds (r ! b) k'" for a b k'
    using wf that unfolding reasm_wf_def by blast
  have "p = q" if pq: "p < length r" "q < length r" "holds (r[i := s] ! p) k'" "holds (r[i := s] ! q) k'"
    for p q k'
  proof -
    have "k' = k" if "holds s k'"
      using s(2) that by (simp add: holds_def)
    moreover have "\<not> holds (r ! j) k" if "j < length r" "j \<noteq> i" for j
      using wf i u that unfolding reasm_wf_def by (metis nth_mem)
    moreover have "p = q" if "p \<noteq> i" "q \<noteq> i"
      using pq(3,4) that uni pq(1,2) by simp
    ultimately show ?thesis
      using pq i by (cases "p = i"; cases "q = i") auto
  qed
  then show ?thesis
    using wf s(1) by (auto simp: reasm_wf_def dest!: set_update_subset_insert [THEN subsetD])
qed

lemma feed_cases:
  assumes "bc_reasm_feed r m = Some (r', res)"
  obtains (invalid) "\<not> frag_valid m" "r' = r" "res = Inl BC_ERR_INVALID"
    | (full) "frag_valid m" "find_slot r (m_seq m) (m_src_node m) = None" "r' = r" "res = Inl BC_ERR_NOMEM"
    | (slot) i s where "frag_valid m" "find_slot r (m_seq m) (m_src_node m) = Some i"
        "i < length r" "slot_feed (r ! i) m = Some (s, res)" "r' = r[i := s]"
        "holds (r ! i) (frag_key m) \<or> \<not> rs_active (r ! i) \<and> (\<forall>s \<in> set r. \<not> holds s (frag_key m))"
proof (cases "frag_valid m")
  case False
  with assms show ?thesis by (intro invalid) (simp_all add: feed_invalid)
next
  case True
  show ?thesis
  proof (cases "find_slot r (m_seq m) (m_src_node m)")
    case None
    with assms True show ?thesis by (intro full) (simp_all add: feed_valid)
  next
    case (Some i)
    with assms True obtain s where "slot_feed (r ! i) m = Some (s, res)" "r' = r[i := s]"
      by (auto simp: feed_valid)
    with True Some find_slot_Some [OF Some] show ?thesis
      by (intro slot) (simp_all add: frag_key_def)
  qed
qed

lemma reasm_feed_safe_raw:
  assumes "reasm_wf r" and f: "bc_reasm_feed r m = Some (r', res)"
  shows "reasm_wf r'"
  using f
proof (cases rule: feed_cases)
  case (slot i s)
  have "slot_wf s"
    using slot slot_feed_wf assms by (meson nth_mem reasm_wf_def)
  moreover have "holds s (frag_key m)" if "rs_active s"
    using slot slot_feed_key that by blast
  ultimately show ?thesis
    using assms slot reasm_wf_update [of r i s "frag_key m"] by blast
qed (use assms in auto)

lemma reasm_feed_defined:
  assumes "reasm_wf r"
  shows "bc_reasm_feed r m \<noteq> None"
proof (cases "frag_valid m")
  case True
  have "slot_feed (r ! i) m \<noteq> None" if "find_slot r (m_seq m) (m_src_node m) = Some i" for i
    using slot_feed_safe [OF _ True] find_slot_Some(1) [OF that] assms by (simp add: reasm_wf_def)
  then show ?thesis
    using True by (cases "find_slot r (m_seq m) (m_src_node m)") (simp_all add: feed_valid)
qed (simp add: feed_invalid)

text \<open>
  C6. Memory safety and the invariant of the reassembly table: on a well-formed table no
  fragment, however malformed, makes the code index the bitmap or write the payload out of
  bounds, and the table is well formed afterwards (at most one active slot per sender and
  sequence number, the received counter equal to the number of bitmap entries set, the
  length within the payload array).
\<close>

theorem reasm_feed_safe:
  assumes "reasm_wf r"
  shows "\<exists>r' res. bc_reasm_feed r m = Some (r', res) \<and> reasm_wf r'"
  using reasm_feed_defined [OF assms, of m] reasm_feed_safe_raw [OF assms] by auto

lemma reasm_feed_safe_witness:
  "\<exists>r' res. bc_reasm_feed bc_reasm_init (empty_message\<lparr>m_payload := [1, 0, 9, 9, 0, 0, 0, 0]\<rparr>) = Some (r', res) \<and>
     reasm_wf r'"
  by (rule reasm_feed_safe [OF reasm_wf_init])

section \<open>Messages in flight do not disturb each other\<close>

text \<open>The slot, if any, that collects the message of a key.\<close>

definition in_flight :: "bc_reasm \<Rightarrow> u32 \<times> u32 \<Rightarrow> bc_reasm_slot option" where
  "in_flight r k = find (\<lambda>s. holds s k) r"

lemma in_flight_None: "in_flight r k = None \<longleftrightarrow> (\<forall>s \<in> set r. \<not> holds s k)"
  by (auto simp: in_flight_def find_None_iff)

lemma in_flight_SomeD:
  "in_flight r k = Some s \<Longrightarrow> \<exists>i < length r. r ! i = s \<and> holds s k"
  by (auto simp: in_flight_def find_Some_iff)

lemma in_flight_Some:
  assumes wf: "reasm_wf r" and i: "i < length r" "holds (r ! i) k"
  shows "in_flight r k = Some (r ! i)"
proof (cases "in_flight r k")
  case None
  then show ?thesis using i by (simp add: in_flight_None)
next
  case (Some t)
  from in_flight_SomeD [OF this] obtain j where "j < length r" "r ! j = t" "holds t k" by blast
  moreover have "j = i" if "j < length r" "holds (r ! j) k" for j
    using wf i that unfolding reasm_wf_def by blast
  ultimately show ?thesis using Some by blast
qed

lemma in_flight_update:
  assumes wf: "reasm_wf r" "reasm_wf (r[i := s])" and i: "i < length r"
    and s: "rs_active s \<Longrightarrow> holds s k" and u: "holds (r ! i) k \<or> (\<forall>t \<in> set r. \<not> holds t k)"
    and a: "holds (r ! i) k \<or> \<not> rs_active (r ! i)"
  shows "in_flight (r[i := s]) k' = (if k' = k then (if rs_active s then Some s else None) else in_flight r k')"
proof (cases "k' = k")
  case True
  show ?thesis
  proof (cases "rs_active s")
    case act: True
    then show ?thesis using True in_flight_Some [OF wf(2), of i k] s i by simp
  next
    case False
    have "\<not> holds t k" if "t \<in> set (r[i := s])" for t
    proof -
      from that obtain j where j: "j < length r" "t = r[i := s] ! j" by (auto simp: in_set_conv_nth)
      show ?thesis
      proof (cases "j = i")
        case True
        then show ?thesis using j False by (simp add: holds_def)
      next
        case False
        then show ?thesis using j u wf(1) i unfolding reasm_wf_def by (metis nth_list_update_neq nth_mem)
      qed
    qed
    then show ?thesis using True False by (simp add: in_flight_None)
  qed
next
  case False
  show ?thesis
  proof (cases "in_flight r k'")
    case None
    have "\<not> holds s k'" using s False by (auto simp: holds_def)
    moreover have "\<forall>t \<in> set r. \<not> holds t k'" using None by (simp add: in_flight_None)
    ultimately have "in_flight (r[i := s]) k' = None"
      using set_update_subset_insert [of r i s] unfolding in_flight_None by blast
    then show ?thesis using None False by simp
  next
    case (Some t)
    from in_flight_SomeD [OF this] obtain j where j: "j < length r" "r ! j = t" "holds t k'" by blast
    have "j \<noteq> i"
      using a False j by (auto simp: holds_def)
    then show ?thesis
      using Some False j in_flight_Some [OF wf(2), of j k'] by simp
  qed
qed

lemma feed_isolated_raw:
  assumes wf: "reasm_wf r" and f: "bc_reasm_feed r m = Some (r', res)" and k: "k \<noteq> frag_key m"
  shows "in_flight r' k = in_flight r k"
  using f
proof (cases rule: feed_cases)
  case (slot i s)
  have wf': "reasm_wf (r[i := s])"
    using reasm_feed_safe_raw [OF wf f] slot by simp
  have "holds s (frag_key m)" if "rs_active s"
    using slot slot_feed_key that by blast
  then show ?thesis
    using in_flight_update [OF wf wf' slot(3), of "frag_key m" k] slot k by auto
qed simp_all

text \<open>
  Isolation: feeding a fragment changes the state of its own message only. Whatever
  arrives for another sender or sequence number, including garbage, an unfinished message
  keeps exactly the bytes and counters it had collected.
\<close>

theorem reasm_feed_isolated:
  assumes "reasm_wf r" and "bc_reasm_feed r m = Some (r', res)" and "k \<noteq> frag_key m"
  shows "in_flight r' k = in_flight r k"
  using assms by (rule feed_isolated_raw)

lemma reasm_feed_isolated_witness:
  "\<exists>r' res. bc_reasm_feed bc_reasm_init (empty_message\<lparr>m_seq := 4\<rparr>) = Some (r', res) \<and>
     in_flight r' (5, 1) = in_flight bc_reasm_init (5, 1)"
proof -
  have k: "(5, 1) \<noteq> frag_key (empty_message\<lparr>m_seq := 4\<rparr>)" by (simp add: frag_key_def empty_message_def)
  obtain r' res where "bc_reasm_feed bc_reasm_init (empty_message\<lparr>m_seq := 4\<rparr>) = Some (r', res)"
    using reasm_feed_defined [OF reasm_wf_init, of "empty_message\<lparr>m_seq := 4\<rparr>"] by auto
  with reasm_feed_isolated [OF reasm_wf_init this k] show ?thesis by blast
qed

section \<open>Splitting and reassembling\<close>

text \<open>A message that needs fragments: its payload exceeds one chunk but is within the limit.\<close>

definition oversize :: "bc_message \<Rightarrow> bool" where
  "oversize m \<longleftrightarrow> encodable m \<and> BC_FRAG_CHUNK_MAX < length (m_payload m)"

lemma fragment_total_2: "oversize m \<Longrightarrow> fragment_total m = 2"
proof -
  assume "oversize m"
  then have b: "1392 < length (m_payload m)" "length (m_payload m) \<le> 1400"
    by (simp_all add: oversize_def encodable_def frag_consts)
  then have "(length (m_payload m) + BC_FRAG_CHUNK_MAX - 1) div BC_FRAG_CHUNK_MAX = 2"
    by (simp add: frag_consts)
  then show ?thesis by (simp add: fragment_total_def)
qed

lemma fragments_2: "oversize m \<Longrightarrow> fragments m = [fragment_piece m 2 0, fragment_piece m 2 1]"
proof -
  assume o: "oversize m"
  have "unat (2 :: u16) = 2" "[0..<2] = [0, 1 :: nat]" by (simp_all add: upt_rec)
  then show ?thesis by (simp only: fragments_def Let_def fragment_total_2 [OF o]) simp
qed

lemmas strncpy_name = strncpy_zeros [of _ 64, simplified] strncpy_zeros [of _ 32, simplified]

lemma fragment_piece_fields:
  assumes "oversize m" "i \<in> {0, 1}"
  shows "m_seq (fragment_piece m 2 i) = m_seq m" "m_src_node (fragment_piece m 2 i) = m_src_node m"
    "m_dst_node (fragment_piece m 2 i) = m_dst_node m" "m_qos (fragment_piece m 2 i) = m_qos m"
    "m_topic (fragment_piece m 2 i) = canon BC_MAX_TOPIC_LEN (m_topic m)"
    "m_channel (fragment_piece m 2 i) = canon BC_MAX_CHANNEL_LEN (m_channel m)"
    "drop 8 (m_payload (fragment_piece m 2 i)) =
       (if i = 0 then take 1392 (m_payload m) else drop 1392 (m_payload m))"
    "length (m_payload (fragment_piece m 2 i)) =
       (if i = 0 then 1400 else length (m_payload m) - 1384)"
    "frag_index (fragment_piece m 2 i) = i" "frag_total (fragment_piece m 2 i) = 2"
  using assms
  by (auto simp: fragment_piece_def Let_def frag_index_def frag_total_def fld_def frag_consts
      oversize_def encodable_def strncpy_name bc_limits)

lemma fragment_piece_valid:
  assumes "oversize m" "i \<in> {0, 1}"
  shows "frag_valid (fragment_piece m 2 i)"
    and "frag_key (fragment_piece m 2 i) = (m_seq m, m_src_node m)"
    and "frag_offset (fragment_piece m 2 i) = (if i = 0 then 0 else 1392)"
    and "frag_chunk_len (fragment_piece m 2 i) = (if i = 0 then 1392 else length (m_payload m) - 1392)"
  using assms fragment_piece_fields [OF assms]
  by (auto simp: frag_valid_def frag_key_def frag_offset_def frag_chunk_len_def frag_consts
      oversize_def encodable_def)

lemma cstr_strncpy:
  assumes "length dst = Suc n" "last dst = 0"
  shows "cstr (strncpy dst src n) = take n (cstr src)"
proof -
  have d: "drop n dst = [0]"
    using assms by (metis Suc_eq_plus1 append_butlast_last_id append_eq_conv_conj diff_Suc_1
        length_butlast length_0_conv nat.distinct(1))
  have "strncpy dst src n = take n (cstr src) @ zeros (Suc (n - length (take n (cstr src))))"
    using d assms(1) by (simp add: strncpy_def blit_def Let_def zeros_def replicate_append_same)
  then show ?thesis by (simp add: cstr_append_zeros)
qed

lemma blit_two:
  assumes "length c = n" "n + length d \<le> length xs"
  shows "blit (blit xs 0 c) n d = c @ d @ drop (n + length d) xs"
    and "blit (blit xs n d) 0 c = c @ d @ drop (n + length d) xs"
  using assms by (simp_all add: blit_def add.commute)

text \<open>The slot after the first of the two fragments.\<close>

lemma slot_feed_first:
  assumes o: "oversize m" "i \<in> {0, 1}" and s: "\<not> rs_active s" "slot_wf s"
  defines "p \<equiv> fragment_piece m 2 i"
  shows "slot_feed s p = Some (slot_store (open_slot s p 2) p, Inl BC_ERR_NOT_FOUND)"
proof -
  note f = fragment_piece_fields [OF o, folded p_def]
  note v = fragment_piece_valid [OF o, folded p_def]
  have op: "opened s p = open_slot s p 2"
    using s f by (simp add: opened_def)
  have fit: "\<not> BC_MAX_PAYLOAD_LEN < frag_offset p + frag_chunk_len p"
    using v o by (auto simp: frag_consts oversize_def encodable_def)
  have b: "rs_bitmap (open_slot s p 2) = [0, 0]"
    using s by (simp add: open_slot_def slot_wf_def frag_consts numeral_2_eq_2)
  have r: "rs_received (slot_store (open_slot s p 2) p) = 1" "rs_total (open_slot s p 2) = 2"
    by (simp_all add: slot_store_def open_slot_def)
  have "\<not> length (rs_bitmap (open_slot s p 2)) \<le> unat (frag_index p)"
    "rs_bitmap (open_slot s p 2) ! unat (frag_index p) = 0"
    using b f o(2) by auto
  then show ?thesis
    using s f fit r unfolding slot_feed_def op Let_def by simp
qed

lemma slot_feed_second:
  assumes o: "oversize m" "i \<in> {0, 1}" and s: "\<not> rs_active s" "slot_wf s"
  defines "p \<equiv> fragment_piece m 2 i" and "q \<equiv> fragment_piece m 2 (1 - i)"
  defines "t \<equiv> slot_store (open_slot s p 2) p"
  shows "\<exists>u. slot_feed t q = Some (u, Inr ((canon_message m)\<lparr>m_flags := 0\<rparr>)) \<and> \<not> rs_active u"
proof -
  have o': "1 - i \<in> {0, 1}" using o(2) by auto
  note f = fragment_piece_fields [OF o, folded p_def] fragment_piece_fields [OF o(1) o', folded q_def]
  note v = fragment_piece_valid [OF o, folded p_def] fragment_piece_valid [OF o(1) o', folded q_def]
  have len: "1392 < length (m_payload m)" "length (m_payload m) \<le> 1400"
    "length (cstr (m_topic m)) < 64" "length (cstr (m_channel m)) < 32"
    using o(1) by (auto simp: oversize_def encodable_def frag_consts bc_limits)
  have act: "rs_active t" "rs_total t = 2"
    by (simp_all add: t_def open_slot_def)
  then have op: "opened t q = t" by (simp add: opened_def)
  have b: "rs_bitmap t = [0, 0][unat i := 1]"
    using s f by (simp add: t_def slot_store_def open_slot_def slot_wf_def frag_consts numeral_2_eq_2)
  have fit: "\<not> BC_MAX_PAYLOAD_LEN < frag_offset q + frag_chunk_len q"
    using v o len by (auto simp: frag_consts)
  have r: "rs_received (slot_store t q) = 2"
    by (simp add: slot_store_def t_def open_slot_def)
  have pl: "take (rs_payload_len (slot_store t q)) (rs_payload (slot_store t q)) = m_payload m"
  proof -
    let ?c = "take 1392 (m_payload m)" and ?d = "drop 1392 (m_payload m)"
    have two: "blit (blit (rs_payload s) 0 ?c) 1392 ?d = ?c @ ?d @ drop (length (m_payload m)) (rs_payload s)"
      "blit (blit (rs_payload s) 1392 ?d) 0 ?c = ?c @ ?d @ drop (length (m_payload m)) (rs_payload s)"
      using blit_two [of ?c 1392 ?d "rs_payload s"] len s by (simp_all add: slot_wf_def frag_consts)
    have "rs_payload (slot_store t q) = ?c @ ?d @ drop (length (m_payload m)) (rs_payload s)"
      using f v two o(2) by (auto simp: slot_store_def t_def open_slot_def BC_FRAG_HDR_SIZE_def)
    moreover have "rs_payload_len (slot_store t q) = length (m_payload m)"
      using v o(2) len by (auto simp: slot_store_def t_def open_slot_def)
    moreover have "?c @ ?d @ x = m_payload m @ x" for x
      by (metis append_assoc append_take_drop_id)
    ultimately show ?thesis by simp
  qed
  have st: "cstr (rs_topic t) = cstr (m_topic m)" "cstr (rs_channel t) = cstr (m_channel m)"
    using s f len
    by (simp_all add: t_def open_slot_def slot_wf_def bc_limits cstr_strncpy canon_simps)
  have "slot_message (slot_store t q) = (canon_message m)\<lparr>m_flags := 0\<rparr>"
    using pl st len f
    by (simp add: slot_message_def canon_message_def empty_message_def bc_limits strncpy_name
        t_def open_slot_def canon_def)
  moreover have "\<not> length (rs_bitmap t) \<le> unat (frag_index q)" "rs_bitmap t ! unat (frag_index q) = 0"
    using b f o(2) by auto
  ultimately show ?thesis
    using f fit r act unfolding slot_feed_def op Let_def by simp
qed

text \<open>Feeding a sequence of fragments, whatever each call returns.\<close>

fun reasm_feeds :: "bc_reasm \<Rightarrow> bc_message list \<Rightarrow> bc_reasm option" where
  "reasm_feeds r [] = Some r"
| "reasm_feeds r (m # ms) = (case bc_reasm_feed r m of None \<Rightarrow> None | Some (r', res) \<Rightarrow> reasm_feeds r' ms)"

lemma reasm_feeds_isolated:
  assumes "reasm_wf r" "\<forall>x \<in> set xs. frag_key x \<noteq> k"
  shows "\<exists>r'. reasm_feeds r xs = Some r' \<and> reasm_wf r' \<and> in_flight r' k = in_flight r k"
  using assms
proof (induction xs arbitrary: r)
  case Nil
  then show ?case by simp
next
  case (Cons x xs)
  obtain r1 res where f: "bc_reasm_feed r x = Some (r1, res)"
    using reasm_feed_defined [OF Cons.prems(1), of x] by auto
  have "k \<noteq> frag_key x" using Cons.prems(2) by auto
  then have "reasm_wf r1" "in_flight r1 k = in_flight r k"
    using reasm_feed_safe_raw [OF Cons.prems(1) f] feed_isolated_raw [OF Cons.prems(1) f, of k]
    by blast+
  then show ?case using Cons.IH [of r1] Cons.prems f by simp
qed

lemma feed_opens:
  assumes wf: "reasm_wf r" and v: "frag_valid p" and none: "in_flight r (frag_key p) = None"
    and free: "\<exists>s \<in> set r. \<not> rs_active s"
  obtains i where "i < length r" "\<not> rs_active (r ! i)" "slot_wf (r ! i)"
    "bc_reasm_feed r p = map_option (\<lambda>(s, res). (r[i := s], res)) (slot_feed (r ! i) p)"
proof -
  have "find_slot r (m_seq p) (m_src_node p) \<noteq> None"
    using free by (auto simp: find_slot_None)
  then obtain i where i: "find_slot r (m_seq p) (m_src_node p) = Some i" by auto
  have "\<not> rs_active (r ! i)"
    using find_slot_Some [OF i] none by (auto simp: in_flight_None frag_key_def)
  moreover have "slot_wf (r ! i)"
    using find_slot_Some(1) [OF i] wf by (simp add: reasm_wf_def)
  ultimately show ?thesis
    using that find_slot_Some(1) [OF i] v i by (simp add: feed_valid)
qed

lemma feed_continues:
  assumes wf: "reasm_wf r" and v: "frag_valid q" and t: "in_flight r (frag_key q) = Some t"
  obtains i where "i < length r" "r ! i = t" "holds t (frag_key q)"
    "bc_reasm_feed r q = map_option (\<lambda>(s, res). (r[i := s], res)) (slot_feed t q)"
proof -
  from in_flight_SomeD [OF t] obtain j where j: "j < length r" "r ! j = t" "holds t (frag_key q)" by blast
  then have "find_slot r (m_seq q) (m_src_node q) \<noteq> None"
    by (auto simp: find_slot_None frag_key_def)
  then obtain i where i: "find_slot r (m_seq q) (m_src_node q) = Some i" by auto
  have "holds (r ! i) (frag_key q)"
    using find_slot_Some [OF i] j by (auto simp: frag_key_def)
  then have "i = j"
    using wf j find_slot_Some(1) [OF i] unfolding reasm_wf_def by blast
  then show ?thesis
    using that j v i by (simp add: feed_valid)
qed

lemma reassembly_roundtrip_core:
  assumes o: "oversize m" and wf: "reasm_wf r"
    and none: "in_flight r (m_seq m, m_src_node m) = None" and free: "\<exists>s \<in> set r. \<not> rs_active s"
    and ord: "(p, q) = (fragments m ! 0, fragments m ! 1) \<or> (p, q) = (fragments m ! 1, fragments m ! 0)"
    and others: "\<forall>x \<in> set xs. frag_key x \<noteq> (m_seq m, m_src_node m)"
  shows "\<exists>r1 r2 r3. bc_reasm_feed r p = Some (r1, Inl BC_ERR_NOT_FOUND) \<and>
    reasm_feeds r1 xs = Some r2 \<and>
    bc_reasm_feed r2 q = Some (r3, Inr ((canon_message m)\<lparr>m_flags := 0\<rparr>)) \<and>
    in_flight r3 (m_seq m, m_src_node m) = None"
proof -
  let ?k = "(m_seq m, m_src_node m)"
  obtain i :: u16 where i: "i \<in> {0, 1}" "p = fragment_piece m 2 i" "q = fragment_piece m 2 (1 - i)"
  proof -
    from ord consider "p = fragment_piece m 2 0" "q = fragment_piece m 2 1"
      | "p = fragment_piece m 2 1" "q = fragment_piece m 2 0"
      by (auto simp: fragments_2 [OF o])
    then show ?thesis by cases (use that [of 0] that [of 1] in auto)
  qed
  have i': "1 - i \<in> {0, 1}" using i by auto
  note vp = fragment_piece_valid [OF o i(1), folded i(2)]
    and vq = fragment_piece_valid [OF o i', folded i(3)]
  obtain n where n: "n < length r" "\<not> rs_active (r ! n)" "slot_wf (r ! n)"
    "bc_reasm_feed r p = map_option (\<lambda>(s, res). (r[n := s], res)) (slot_feed (r ! n) p)"
    using feed_opens [OF wf vp(1)] none free vp(2) by auto
  define t where "t = slot_store (open_slot (r ! n) p 2) p"
  define r1 where "r1 = r[n := t]"
  have f1: "bc_reasm_feed r p = Some (r1, Inl BC_ERR_NOT_FOUND)"
    using n slot_feed_first [OF o i(1) n(2,3), folded i(2)] by (simp add: t_def r1_def)
  have wf1: "reasm_wf r1" using reasm_feed_safe_raw [OF wf f1] .
  have ht: "holds t ?k"
    using fragment_piece_fields [OF o i(1), folded i(2)]
    by (simp add: t_def holds_def open_slot_def slot_key_def)
  have in1: "in_flight r1 ?k = Some t"
    using in_flight_Some [OF wf1, of n ?k] n ht by (simp add: r1_def)
  obtain r2 where r2: "reasm_feeds r1 xs = Some r2" "reasm_wf r2" "in_flight r2 ?k = Some t"
    using reasm_feeds_isolated [OF wf1 others] in1 by metis
  obtain u where u: "slot_feed t q = Some (u, Inr ((canon_message m)\<lparr>m_flags := 0\<rparr>))" "\<not> rs_active u"
    using slot_feed_second [OF o i(1) n(2,3)] unfolding t_def i by blast
  obtain j where j: "j < length r2" "r2 ! j = t"
    "bc_reasm_feed r2 q = map_option (\<lambda>(s, res). (r2[j := s], res)) (slot_feed t q)"
    using feed_continues [OF r2(2) vq(1)] r2(3) vq(2) by auto
  have f3: "bc_reasm_feed r2 q = Some (r2[j := u], Inr ((canon_message m)\<lparr>m_flags := 0\<rparr>))"
    using j u by simp
  have "in_flight (r2[j := u]) ?k = None"
    using in_flight_update [OF r2(2) reasm_feed_safe_raw [OF r2(2) f3] j(1), of ?k ?k] j ht u by simp
  then show ?thesis using f1 r2 f3 by blast
qed

text \<open>
  C9. Splitting and reassembling are inverse: the two fragments of an oversize message, in
  either order and with any fragments of other messages in between, give back exactly the
  message (flags cleared, as the code does not carry them in fragments), provided the table
  has a free slot when the first one arrives; and the slot is free again afterwards.
\<close>

theorem reassembly_roundtrip:
  assumes o: "oversize m" and wf: "reasm_wf r"
    and none: "in_flight r (m_seq m, m_src_node m) = None" and free: "\<exists>s \<in> set r. \<not> rs_active s"
    and ord: "(p, q) = (fragments m ! 0, fragments m ! 1) \<or> (p, q) = (fragments m ! 1, fragments m ! 0)"
    and others: "\<forall>x \<in> set xs. frag_key x \<noteq> (m_seq m, m_src_node m)"
  shows "\<exists>r1 r2 r3. bc_reasm_feed r p = Some (r1, Inl BC_ERR_NOT_FOUND) \<and>
    reasm_feeds r1 xs = Some r2 \<and>
    bc_reasm_feed r2 q = Some (r3, Inr ((canon_message m)\<lparr>m_flags := 0\<rparr>)) \<and>
    in_flight r3 (m_seq m, m_src_node m) = None"
  using assms by (rule reassembly_roundtrip_core)

lemma oversize_sample: "oversize (sample_message\<lparr>m_payload := zeros 1393\<rparr>)"
  using encodable_sample by (simp add: oversize_def encodable_def frag_consts)

lemma reassembly_roundtrip_witness:
  "\<exists>m p q r1 r2 r3. oversize m \<and> fragments m = [p, q] \<and>
     bc_reasm_feed bc_reasm_init q = Some (r1, Inl BC_ERR_NOT_FOUND) \<and>
     reasm_feeds r1 [empty_message\<lparr>m_seq := 9\<rparr>] = Some r2 \<and>
     bc_reasm_feed r2 p = Some (r3, Inr ((canon_message m)\<lparr>m_flags := 0\<rparr>))"
proof -
  let ?m = "sample_message\<lparr>m_payload := zeros 1393\<rparr>"
  have k: "(m_seq ?m, m_src_node ?m) = (7, 1)" by (simp add: sample_message_def)
  have i: "in_flight bc_reasm_init (7, 1) = None" "\<exists>s \<in> set bc_reasm_init. \<not> rs_active s"
    by (simp_all add: in_flight_None bc_reasm_init_def zero_slot_def holds_def BC_REASM_SLOTS_def)
  have o: "\<forall>x \<in> set [empty_message\<lparr>m_seq := 9\<rparr>]. frag_key x \<noteq> (7, 1)"
    by (simp add: frag_key_def empty_message_def)
  show ?thesis
    using reassembly_roundtrip [OF oversize_sample reasm_wf_init, of "fragments ?m ! 1" "fragments ?m ! 0"
        "[empty_message\<lparr>m_seq := 9\<rparr>]", unfolded k, OF i _ o]
      fragments_2 [OF oversize_sample] oversize_sample by fastforce
qed

section \<open>What the sender emits\<close>

lemma fragment_piece_encodable:
  assumes "encodable m"
  shows "encodable (fragment_piece m t i)"
proof -
  have "length (m_payload (fragment_piece m t i)) \<le> BC_MAX_PAYLOAD_LEN"
    by (simp add: fragment_piece_def Let_def fld_def frag_consts)
  then show ?thesis
    using assms by (simp add: encodable_def fragment_piece_def Let_def strncpy_name bc_limits canon_simps)
qed

lemma fragments_sound:
  assumes "encodable m" "p \<in> set (fragments m)"
  shows "encodable p" and "m_flags p = BC_FLAG_FRAGMENT"
  using assms fragment_piece_encodable by (auto simp: fragments_def Let_def fragment_piece_def)

section \<open>Slots that are never released\<close>

text \<open>
  The bitmap has two entries and the offset bound rejects every index above one, so a slot
  opened for three or more fragments cannot complete; nothing else in the daemon releases it.
\<close>

definition stuck :: "(u32 \<times> u32) set \<Rightarrow> bc_reasm \<Rightarrow> bool" where
  "stuck K r \<longleftrightarrow> reasm_wf r \<and> (\<forall>s \<in> set r. rs_active s \<and> 2 < rs_total s \<and> slot_key s \<in> K)"

lemma slot_feed_stuck:
  assumes f: "slot_feed s m = Some (s', res)" and s: "slot_wf s" "rs_active s" "2 < rs_total s"
    and v: "frag_valid m"
  shows "rs_active s' \<and> rs_total s' = rs_total s \<and> slot_key s' = slot_key s"
proof -
  have op: "opened s m = s" using s by (simp add: opened_def)
  show ?thesis
    using f
  proof (cases rule: slot_feed_cases)
    case completed
    have "unat (rs_received (slot_store s m)) \<le> 2"
      using slot_wf_store(1) [OF s(1,2) _ _ v] completed(1,2) op bits_set_le [of "rs_bitmap (slot_store s m)"] s(1)
      by (simp add: slot_store_def slot_wf_def frag_consts)
    moreover have "2 < unat (rs_total s)" using s(3) by (simp add: word_less_nat_alt)
    ultimately show ?thesis using completed(3) op by (simp add: word_less_nat_alt)
  qed (use op s in simp_all)
qed

lemma stuck_feed:
  assumes st: "stuck K r" and f: "bc_reasm_feed r m = Some (r', res)"
  shows "stuck K r'"
  using f
proof (cases rule: feed_cases)
  case (slot i s)
  have w: "reasm_wf r'" using reasm_feed_safe_raw f st unfolding stuck_def by blast
  have i: "slot_wf (r ! i)" "rs_active (r ! i)" "2 < rs_total (r ! i)" "slot_key (r ! i) \<in> K"
    using st slot(3) by (simp_all add: stuck_def reasm_wf_def)
  show ?thesis
    using w st slot(5) slot_feed_stuck [OF slot(4) i(1-3) slot(1)] i
      set_update_subset_insert [of r i s] unfolding stuck_def by auto
qed (use st in simp_all)

lemma stuck_feeds: "stuck K r \<Longrightarrow> \<exists>r'. reasm_feeds r xs = Some r' \<and> stuck K r'"
proof (induction xs arbitrary: r)
  case Nil
  then show ?case by simp
next
  case (Cons x xs)
  then have "reasm_wf r" by (simp add: stuck_def)
  then obtain r1 res where f: "bc_reasm_feed r x = Some (r1, res)"
    using reasm_feed_defined [of r x] by auto
  show ?case using Cons.IH [OF stuck_feed [OF Cons.prems f]] f by simp
qed

lemma stuck_full:
  assumes "stuck K r" "frag_valid p" "frag_key p \<notin> K"
  shows "bc_reasm_feed r p = Some (r, Inl BC_ERR_NOMEM)"
proof -
  have "find_slot r (m_seq p) (m_src_node p) = None"
    using assms by (auto simp: find_slot_None stuck_def holds_def frag_key_def)
  then show ?thesis using assms(2) by (simp add: feed_valid)
qed

text \<open>The first fragment, without data, of a message that claims three fragments.\<close>

definition orphan :: "nat \<Rightarrow> bc_message" where
  "orphan n = empty_message\<lparr>m_seq := of_nat n, m_payload := [0, 0, 3, 0, 0, 0, 0, 0]\<rparr>"

definition orphan_slot :: "nat \<Rightarrow> bc_reasm_slot" where
  "orphan_slot n = slot_store (open_slot zero_slot (orphan n) 3) (orphan n)"

lemma orphan_simps:
  "frag_valid (orphan n)" "frag_key (orphan n) = (of_nat n, 0)" "frag_index (orphan n) = 0"
  "frag_total (orphan n) = 3" "frag_offset (orphan n) = 0" "frag_chunk_len (orphan n) = 0"
  "rs_active (orphan_slot n)" "rs_total (orphan_slot n) = 3" "slot_key (orphan_slot n) = (of_nat n, 0)"
  by (simp_all add: orphan_def orphan_slot_def frag_valid_def frag_index_def frag_total_def frag_key_def
      frag_consts empty_message_def frag_offset_def frag_chunk_len_def open_slot_def slot_key_def)

lemma slot_feed_orphan: "slot_feed zero_slot (orphan n) = Some (orphan_slot n, Inl BC_ERR_NOT_FOUND)"
proof -
  have "\<not> rs_active zero_slot" "opened zero_slot (orphan n) = open_slot zero_slot (orphan n) 3"
    "rs_bitmap (open_slot zero_slot (orphan n) 3) = [0, 0]"
    "rs_received (orphan_slot n) = 1" "rs_total (open_slot zero_slot (orphan n) 3) = 3"
    by (simp_all add: opened_def orphan_simps zero_slot_def open_slot_def orphan_slot_def slot_store_def
        frag_consts numeral_2_eq_2)
  then show ?thesis
    unfolding slot_feed_def Let_def orphan_slot_def [symmetric]
    by (simp add: orphan_simps frag_consts orphan_slot_def [symmetric])
qed

lemma find_slot_loop_first_free:
  "\<forall>s \<in> set A. rs_active s \<and> \<not> holds s (seq, src) \<Longrightarrow> \<forall>s \<in> set B. \<not> rs_active s \<Longrightarrow> \<not> rs_active z \<Longrightarrow>
     find_slot_loop (A @ z # B) i None seq src = Some (i + length A)"
proof (induction A arbitrary: i)
  case Nil
  have "find_slot_loop B j (Some i) seq src = Some i" for j
    using Nil(2) by (induction B arbitrary: j) auto
  then show ?case using Nil by simp
next
  case (Cons a A)
  then show ?case by (auto simp: holds_def slot_key_def)
qed

lemma feed_orphan:
  assumes "n < 16"
  shows "bc_reasm_feed (map orphan_slot [0..<n] @ zero_slot # replicate j zero_slot) (orphan n) =
     Some (map orphan_slot [0..<Suc n] @ replicate j zero_slot, Inl BC_ERR_NOT_FOUND)"
proof -
  have "(of_nat k :: u32) \<noteq> of_nat n" if "k < n" for k
    using that assms by (simp add: word_unat_eq_iff unat_of_nat_word)
  then have "find_slot (map orphan_slot [0..<n] @ zero_slot # replicate j zero_slot) (of_nat n) 0 = Some n"
    unfolding find_slot_def
    by (subst find_slot_loop_first_free) (auto simp: orphan_simps holds_def zero_slot_def)
  moreover have "m_seq (orphan n) = of_nat n" "m_src_node (orphan n) = 0"
    using orphan_simps(2) [of n] by (simp_all add: frag_key_def)
  ultimately show ?thesis
    by (simp add: feed_valid orphan_simps(1) nth_append slot_feed_orphan list_update_append)
qed

lemma feed_orphans:
  "n + j \<le> 16 \<Longrightarrow>
   reasm_feeds (map orphan_slot [0..<n] @ replicate j zero_slot) (map orphan [n..<n + j] @ xs) =
     reasm_feeds (map orphan_slot [0..<n + j]) xs"
proof (induction j arbitrary: n)
  case 0
  then show ?case by simp
next
  case (Suc j)
  have u: "[n..<n + Suc j] = n # [Suc n..<Suc n + j]" by (subst upt_rec) simp
  have f: "bc_reasm_feed (map orphan_slot [0..<n] @ replicate (Suc j) zero_slot) (orphan n) =
      Some (map orphan_slot [0..<Suc n] @ replicate j zero_slot, Inl BC_ERR_NOT_FOUND)"
    using feed_orphan [of n j] Suc.prems by simp
  have "reasm_feeds (map orphan_slot [0..<n] @ replicate (Suc j) zero_slot) (map orphan [n..<n + Suc j] @ xs) =
      reasm_feeds (map orphan_slot [0..<Suc n] @ replicate j zero_slot) (map orphan [Suc n..<Suc n + j] @ xs)"
    unfolding u using f by (simp del: upt_Suc replicate_Suc)
  then show ?case using Suc.IH [of "Suc n"] Suc.prems by (simp del: upt_Suc replicate_Suc)
qed

lemma reasm_feeds_wf: "reasm_wf r \<Longrightarrow> \<exists>r'. reasm_feeds r xs = Some r' \<and> reasm_wf r'"
proof (induction xs arbitrary: r)
  case Nil
  then show ?case by simp
next
  case (Cons x xs)
  obtain r1 res where f: "bc_reasm_feed r x = Some (r1, res)"
    using reasm_feed_defined [OF Cons.prems, of x] by auto
  show ?case using Cons.IH [OF reasm_feed_safe_raw [OF Cons.prems f]] f by simp
qed

text \<open>
  The table can be exhausted for good: sixteen data-less fragments, each announcing three
  fragments under a fresh sequence number, occupy every slot, and from then on, whatever is
  fed, every well-formed fragment of any other message is refused with \<open>BC_ERR_NOMEM\<close>. There
  is no timeout, and no later fragment can complete or evict these slots.
\<close>

theorem reassembly_table_exhausted:
  assumes v: "frag_valid p" and k: "frag_key p \<notin> (\<lambda>n. (of_nat n, 0)) ` {0..<16}"
  shows "\<exists>r. reasm_feeds bc_reasm_init (map orphan [0..<16] @ xs) = Some r \<and>
     bc_reasm_feed r p = Some (r, Inl BC_ERR_NOMEM)"
proof -
  let ?K = "(\<lambda>n. (of_nat n, 0)) ` {0..<16 :: nat} :: (u32 \<times> u32) set"
  let ?full = "map orphan_slot [0..<16]"
  have e: "reasm_feeds bc_reasm_init (map orphan [0..<16] @ xs) = reasm_feeds ?full xs" for xs
    using feed_orphans [of 0 16 xs] by (simp add: bc_reasm_init_def BC_REASM_SLOTS_def)
  have "reasm_wf ?full"
    using reasm_feeds_wf [OF reasm_wf_init, of "map orphan [0..<16] @ []"] unfolding e by simp
  then have "stuck ?K ?full" by (auto simp: stuck_def orphan_simps)
  from stuck_feeds [OF this] obtain r where "reasm_feeds ?full xs = Some r" "stuck ?K r" by blast
  then show ?thesis using stuck_full v k unfolding e by blast
qed

lemma reassembly_table_exhausted_witness:
  "\<exists>r. reasm_feeds bc_reasm_init (map orphan [0..<16] @ [orphan 3]) = Some r \<and>
     bc_reasm_feed r (orphan 16) = Some (r, Inl BC_ERR_NOMEM)"
proof (rule reassembly_table_exhausted)
  show "frag_valid (orphan 16)" by (simp add: orphan_simps)
  have "(16 :: u32) \<noteq> of_nat n" if "n < 16" for n
    using that by (simp add: word_unat_eq_iff unat_of_nat_word)
  then show "frag_key (orphan 16) \<notin> (\<lambda>n. (of_nat n, 0)) ` {0..<16}"
    by (auto simp: orphan_simps)
qed

end
