(* ===== verification/Ipc_Protocol.thy ===== *)
theory Ipc_Protocol
  imports Protocol
begin

text \<open>
  \<^verbatim>\<open>src/daemon/ipc_protocol.h\<close>: the header of the messages between the daemon and its
  clients on the local socket. Version 1 headers end before \<^verbatim>\<open>dst_node\<close>.
\<close>

datatype bc_ipc_type = BC_IPC_PUBLISH | BC_IPC_SUBSCRIBE | BC_IPC_DELIVER | BC_IPC_STATS
  | BC_IPC_SHM_SETUP | BC_IPC_SHM_KICK

fun ipc_code :: "bc_ipc_type \<Rightarrow> u16" where
  "ipc_code BC_IPC_PUBLISH = 1"
| "ipc_code BC_IPC_SUBSCRIBE = 2"
| "ipc_code BC_IPC_DELIVER = 3"
| "ipc_code BC_IPC_STATS = 4"
| "ipc_code BC_IPC_SHM_SETUP = 5"
| "ipc_code BC_IPC_SHM_KICK = 6"

record bc_ipc_header =
  ih_magic :: u32
  ih_version :: u16
  ih_type :: u16
  ih_topic_len :: u16
  ih_channel_len :: u16
  ih_payload_len :: u32
  ih_dst_node :: u32
  ih_qos :: u16
  ih_flags :: u16
  ih_seq :: u32

definition BC_IPC_MAGIC :: u32 where "BC_IPC_MAGIC = 0x42434950"
definition BC_IPC_VERSION :: u16 where "BC_IPC_VERSION = 2"
definition IPC_HEADER_SIZE :: nat where "IPC_HEADER_SIZE = 28"
definition IPC_HEADER_V1_SIZE :: nat where "IPC_HEADER_V1_SIZE = 16"

lemmas ipc_sizes = IPC_HEADER_SIZE_def IPC_HEADER_V1_SIZE_def

definition put_ipc_header :: "bc_ipc_header \<Rightarrow> byte list" where
  "put_ipc_header h =
     to_le 4 (ih_magic h) @ to_le 2 (ih_version h) @ to_le 2 (ih_type h) @
     to_le 2 (ih_topic_len h) @ to_le 2 (ih_channel_len h) @ to_le 4 (ih_payload_len h) @
     to_le 4 (ih_dst_node h) @ to_le 2 (ih_qos h) @ to_le 2 (ih_flags h) @ to_le 4 (ih_seq h)"

definition get_ipc_header :: "byte list \<Rightarrow> bc_ipc_header" where
  "get_ipc_header bs =
     \<lparr>ih_magic = of_le (fld 0 4 bs), ih_version = of_le (fld 4 2 bs),
      ih_type = of_le (fld 6 2 bs), ih_topic_len = of_le (fld 8 2 bs),
      ih_channel_len = of_le (fld 10 2 bs), ih_payload_len = of_le (fld 12 4 bs),
      ih_dst_node = of_le (fld 16 4 bs), ih_qos = of_le (fld 20 2 bs),
      ih_flags = of_le (fld 22 2 bs), ih_seq = of_le (fld 24 4 bs)\<rparr>"

interpretation ipc_header: fixed_codec put_ipc_header get_ipc_header IPC_HEADER_SIZE
proof unfold_locales
  fix h :: bc_ipc_header and bs :: "byte list"
  show "length (put_ipc_header h) = IPC_HEADER_SIZE"
    by (simp add: put_ipc_header_def IPC_HEADER_SIZE_def del: to_le_numeral)
  show "get_ipc_header (put_ipc_header h) = h"
    by (simp add: put_ipc_header_def get_ipc_header_def codec_simps le16.dec_enc le32.dec_enc
        del: to_le_numeral)
  assume l: "length bs = IPC_HEADER_SIZE"
  have "put_ipc_header (get_ipc_header bs) =
      fld 0 4 bs @ fld 4 2 bs @ fld 6 2 bs @ fld 8 2 bs @ fld 10 2 bs @ fld 12 4 bs @
      fld 16 4 bs @ fld 20 2 bs @ fld 22 2 bs @ fld 24 4 bs"
    using l
    by (simp add: put_ipc_header_def get_ipc_header_def le16.enc_dec le32.enc_dec codec_simps
        IPC_HEADER_SIZE_def del: to_le_numeral)
  also have "\<dots> = take 28 bs"
    by (simp add: fld_chain)
  finally show "put_ipc_header (get_ipc_header bs) = bs"
    using l by (simp add: IPC_HEADER_SIZE_def)
qed

definition bc_ipc_header_size :: "u16 \<Rightarrow> nat" where
  "bc_ipc_header_size version = (if version \<ge> BC_IPC_VERSION then IPC_HEADER_SIZE else IPC_HEADER_V1_SIZE)"

definition empty_ipc_header :: bc_ipc_header where
  "empty_ipc_header =
     \<lparr>ih_magic = 0, ih_version = 0, ih_type = 0, ih_topic_len = 0, ih_channel_len = 0,
      ih_payload_len = 0, ih_dst_node = 0, ih_qos = 0, ih_flags = 0, ih_seq = 0\<rparr>"

text \<open>The fields every version has are in the first 16 bytes.\<close>

lemma ipc_header_prefix:
  "take IPC_HEADER_V1_SIZE a = take IPC_HEADER_V1_SIZE b \<Longrightarrow>
     ih_magic (get_ipc_header a) = ih_magic (get_ipc_header b) \<and>
     ih_version (get_ipc_header a) = ih_version (get_ipc_header b) \<and>
     ih_type (get_ipc_header a) = ih_type (get_ipc_header b) \<and>
     ih_topic_len (get_ipc_header a) = ih_topic_len (get_ipc_header b) \<and>
     ih_channel_len (get_ipc_header a) = ih_channel_len (get_ipc_header b) \<and>
     ih_payload_len (get_ipc_header a) = ih_payload_len (get_ipc_header b)"
proof -
  assume a: "take IPC_HEADER_V1_SIZE a = take IPC_HEADER_V1_SIZE b"
  have "fld off n a = fld off n b" if "off + n \<le> 16" for off n
    using that a fld_take [of off n 16 a] fld_take [of off n 16 b] by (simp add: ipc_sizes)
  then show ?thesis by (simp add: get_ipc_header_def)
qed

end
