(* ===== verification/Message_Bus.thy ===== *)
theory Message_Bus
  imports Fragment Router Ipc_Protocol
begin

text \<open>
  \<^verbatim>\<open>src/daemon/message_bus.c\<close> and \<^verbatim>\<open>src/daemon/stats.c\<close>: subscriptions, local delivery,
  publishing and inbound messages. The transports' \<^verbatim>\<open>send\<close> operations and the delivery
  callback are functions of an environment; they act on a world \<open>'w\<close> that is passed through.
\<close>

section \<open>Statistics\<close>

record bc_stats =
  pub_local :: u64
  pub_network :: u64
  pub_failed :: u64
  rx_network :: u64
  rx_local :: u64
  rx_forward :: u64
  rx_drop :: u64
  ack_sent :: u64
  ack_recv :: u64
  frag_rx :: u64
  frag_tx :: u64

definition bc_stats_reset :: bc_stats where
  "bc_stats_reset =
     \<lparr>pub_local = 0, pub_network = 0, pub_failed = 0, rx_network = 0, rx_local = 0,
      rx_forward = 0, rx_drop = 0, ack_sent = 0, ack_recv = 0, frag_rx = 0, frag_tx = 0\<rparr>"

section \<open>State\<close>

definition BC_MAX_SUBSCRIPTIONS :: nat where "BC_MAX_SUBSCRIPTIONS = 128"

record bc_subscription =
  sb_fd :: int
  sb_topic :: "byte list"

record bc_message_bus =
  bus_subscriptions :: "bc_subscription list"
  bus_node_id :: u32
  bus_next_seq :: u32
  bus_require_route :: bool
  bus_bridge_broadcast :: bool
  bus_stats :: bc_stats
  bus_reasm :: bc_reasm

record 'w bus_env =
  env_config :: bc_config
  env_transports :: "byte list list"
  env_send :: "nat \<Rightarrow> (byte list \<Rightarrow> 'w \<Rightarrow> bc_status \<times> 'w) option"
  env_deliver :: "(int \<Rightarrow> byte list \<Rightarrow> 'w \<Rightarrow> bc_status \<times> 'w) option"

abbreviation bump :: "(bc_stats \<Rightarrow> bc_stats) \<Rightarrow> bc_message_bus \<Rightarrow> bc_message_bus" where
  "bump f bus \<equiv> bus\<lparr>bus_stats := f (bus_stats bus)\<rparr>"

definition bc_message_bus_init :: bc_message_bus where
  "bc_message_bus_init =
     \<lparr>bus_subscriptions = [], bus_node_id = 0, bus_next_seq = 0, bus_require_route = False,
      bus_bridge_broadcast = True, bus_stats = bc_stats_reset, bus_reasm = bc_reasm_init\<rparr>"

definition bc_message_bus_configure ::
  "bc_message_bus \<Rightarrow> u32 \<Rightarrow> bool \<Rightarrow> bool \<Rightarrow> bc_message_bus" where
  "bc_message_bus_configure bus node_id require_route bridge_broadcast =
     bus\<lparr>bus_node_id := node_id, bus_require_route := require_route,
         bus_bridge_broadcast := bridge_broadcast, bus_next_seq := 0\<rparr>"

section \<open>Subscriptions\<close>

definition bc_message_bus_subscribe ::
  "bc_message_bus \<Rightarrow> int \<Rightarrow> byte list \<Rightarrow> bc_message_bus \<times> bc_status" where
  "bc_message_bus_subscribe bus client_fd topic =
     (if cstr topic = [] then (bus, BC_ERR_INVALID)
      else if length (bus_subscriptions bus) \<ge> BC_MAX_SUBSCRIPTIONS then (bus, BC_ERR_NOMEM)
      else if list_ex (\<lambda>s. sb_fd s = client_fd \<and> strcmp_eq (sb_topic s) topic) (bus_subscriptions bus)
      then (bus, BC_OK)
      else (bus\<lparr>bus_subscriptions := bus_subscriptions bus @
              [\<lparr>sb_fd = client_fd, sb_topic = snprintf_s (zeros BC_MAX_TOPIC_LEN) topic\<rparr>]\<rparr>, BC_OK))"

text \<open>
  The in-place compaction of the subscription array: \<open>i\<close> reads, \<open>out\<close> writes, over the whole
  array; the result is the array and the new count.
\<close>

function compact :: "int \<Rightarrow> bc_subscription list \<Rightarrow> nat \<Rightarrow> nat \<Rightarrow> nat \<Rightarrow> bc_subscription list \<times> nat" where
  "compact client_fd subs cnt i out =
     (if i < cnt then
        if sb_fd (subs ! i) \<noteq> client_fd
        then compact client_fd (if out \<noteq> i then subs[out := subs ! i] else subs) cnt (Suc i) (Suc out)
        else compact client_fd subs cnt (Suc i) out
      else (subs, out))"
  by pat_completeness auto
termination by (relation "measure (\<lambda>(_, _, cnt, i, _). cnt - i)") auto

declare compact.simps [simp del]

definition bc_message_bus_remove_client :: "bc_message_bus \<Rightarrow> int \<Rightarrow> bc_message_bus" where
  "bc_message_bus_remove_client bus client_fd =
     (case compact client_fd (bus_subscriptions bus) (length (bus_subscriptions bus)) 0 0 of
        (subs, cnt) \<Rightarrow> bus\<lparr>bus_subscriptions := take cnt subs\<rparr>)"

section \<open>Local delivery\<close>

definition deliver_frame :: "bc_message \<Rightarrow> byte list" where
  "deliver_frame msg =
     (let channel_len = strnlen (m_channel msg) BC_MAX_CHANNEL_LEN;
          topic_len = strnlen (m_topic msg) BC_MAX_TOPIC_LEN;
          header = empty_ipc_header\<lparr>
            ih_magic := BC_IPC_MAGIC, ih_version := BC_IPC_VERSION, ih_type := ipc_code BC_IPC_DELIVER,
            ih_channel_len := of_nat channel_len, ih_topic_len := of_nat topic_len,
            ih_payload_len := of_nat (length (m_payload msg)), ih_dst_node := m_dst_node msg,
            ih_qos := m_qos msg, ih_flags := m_flags msg, ih_seq := m_seq msg\<rparr> in
      put_ipc_header header @ take channel_len (m_channel msg) @ take topic_len (m_topic msg) @ m_payload msg)"

fun deliver_loop ::
  "(int \<Rightarrow> byte list \<Rightarrow> 'w \<Rightarrow> bc_status \<times> 'w) option \<Rightarrow> int \<Rightarrow> bc_message \<Rightarrow> bc_subscription list \<Rightarrow>
     nat \<times> nat \<times> nat \<Rightarrow> 'w \<Rightarrow> (nat \<times> nat \<times> nat) \<times> 'w" where
  "deliver_loop deliver_fn source_fd msg [] counts w = (counts, w)"
| "deliver_loop deliver_fn source_fd msg (sub # subs) (delivered, matched, failed) w =
     (if sb_fd sub = source_fd then deliver_loop deliver_fn source_fd msg subs (delivered, matched, failed) w
      else if \<not> bc_topic_matches (sb_topic sub) (m_topic msg)
      then deliver_loop deliver_fn source_fd msg subs (delivered, matched, failed) w
      else case deliver_fn of
          None \<Rightarrow> deliver_loop deliver_fn source_fd msg subs (delivered, Suc matched, Suc failed) w
        | Some f \<Rightarrow>
            (case f (sb_fd sub) (deliver_frame msg) w of (rc, w') \<Rightarrow>
               if rc \<noteq> BC_OK
               then deliver_loop deliver_fn source_fd msg subs (delivered, Suc matched, Suc failed) w'
               else deliver_loop deliver_fn source_fd msg subs (Suc delivered, Suc matched, failed) w'))"

text \<open>The result is \<open>Inl BC_ERR_NOMEM\<close>, or \<open>Inr\<close> the number of deliveries.\<close>

definition bc_message_bus_deliver_local ::
  "'w bus_env \<Rightarrow> int \<Rightarrow> bc_message \<Rightarrow> bc_message_bus \<times> 'w \<Rightarrow> (bc_status + nat) \<times> bc_message_bus \<times> 'w" where
  "bc_message_bus_deliver_local env source_fd msg = (\<lambda>(bus, w).
     (case deliver_loop (env_deliver env) source_fd msg (bus_subscriptions bus) (0, 0, 0) w of
        ((delivered, matched, failed), w') \<Rightarrow>
          let bus' = (if delivered > 0 then bump (rx_local_update (\<lambda>x. x + of_nat delivered)) bus else bus) in
          if failed > 0 then (Inl BC_ERR_NOMEM, bus', w')
          else if matched > 0 \<and> delivered = 0 then (Inl BC_ERR_NOMEM, bus', w')
          else (Inr delivered, bus', w')))"

section \<open>The network side\<close>

definition emit_network_frame ::
  "'w bus_env \<Rightarrow> nat \<Rightarrow> bc_message \<Rightarrow> bc_message_bus \<times> 'w \<Rightarrow> bc_status \<times> bc_message_bus \<times> 'w" where
  "emit_network_frame env transport piece = (\<lambda>(bus, w).
     (case bc_protocol_encode piece of
        Inl _ \<Rightarrow> (BC_ERR_INVALID, bus, w)
      | Inr frame \<Rightarrow>
          (case env_send env transport of
             None \<Rightarrow> (BC_ERR_INVALID, bus, w)
           | Some send \<Rightarrow>
               (case send frame w of (rc, w') \<Rightarrow>
                  if rc \<noteq> BC_OK then (rc, bump (pub_failed_update (\<lambda>x. x + 1)) bus, w')
                  else (rc, bus, w')))))"

definition send_on_transport ::
  "'w bus_env \<Rightarrow> nat \<Rightarrow> bc_message \<Rightarrow> bc_message_bus \<times> 'w \<Rightarrow> bc_status \<times> bc_message_bus \<times> 'w" where
  "send_on_transport env transport msg = (\<lambda>(bus, w).
     (case (if length (m_payload msg) > BC_FRAG_CHUNK_MAX
            then bc_fragment_publish msg (emit_network_frame env transport)
                   (bump (frag_tx_update (\<lambda>x. x + 1)) bus, w)
            else emit_network_frame env transport msg (bus, w)) of
        (rc, bus', w') \<Rightarrow>
          if rc = BC_OK then (rc, bump (pub_network_update (\<lambda>x. x + 1)) bus', w') else (rc, bus', w')))"

definition ack_message :: "u32 \<Rightarrow> bc_message \<Rightarrow> bc_message" where
  "ack_message node_id req = empty_message\<lparr>
     m_src_node := node_id, m_dst_node := m_src_node req, m_seq := m_seq req, m_flags := BC_FLAG_ACK,
     m_qos := BC_QOS_AT_MOST_ONCE,
     m_topic := snprintf_s (zeros BC_MAX_TOPIC_LEN) (m_topic req),
     m_channel := snprintf_s (zeros BC_MAX_CHANNEL_LEN) (m_channel req)\<rparr>"

definition send_ack ::
  "'w bus_env \<Rightarrow> nat \<Rightarrow> bc_message \<Rightarrow> bc_message_bus \<times> 'w \<Rightarrow> bc_status \<times> bc_message_bus \<times> 'w" where
  "send_ack env transport req = (\<lambda>(bus, w).
     (case send_on_transport env transport (ack_message (bus_node_id bus) req) (bus, w) of
        (rc, bus', w') \<Rightarrow>
          if rc = BC_OK then (BC_OK, bump (ack_sent_update (\<lambda>x. x + 1)) bus', w')
          else (BC_ERR_IO, bus', w')))"

definition should_deliver_local :: "bc_message_bus \<Rightarrow> bc_message \<Rightarrow> bool" where
  "should_deliver_local bus msg \<longleftrightarrow> m_dst_node msg = 0 \<or> m_dst_node msg = bus_node_id bus"

definition should_forward :: "bc_message_bus \<Rightarrow> bc_message \<Rightarrow> bool" where
  "should_forward bus msg =
     (if m_dst_node msg = 0 then bus_bridge_broadcast bus else m_dst_node msg \<noteq> bus_node_id bus)"

definition route :: "'w bus_env \<Rightarrow> bc_message \<Rightarrow> bc_status + nat" where
  "route env msg = bc_router_route (env_config env) (env_transports env) msg"

definition forward_message ::
  "'w bus_env \<Rightarrow> bc_message \<Rightarrow> nat option \<Rightarrow> bc_message_bus \<times> 'w \<Rightarrow> bc_status \<times> bc_message_bus \<times> 'w" where
  "forward_message env msg exclude = (\<lambda>(bus, w).
     (case route env msg of
        Inl _ \<Rightarrow>
          if bus_require_route bus then (BC_ERR_NOT_FOUND, bump (pub_failed_update (\<lambda>x. x + 1)) bus, w)
          else (BC_OK, bus, w)
      | Inr transport \<Rightarrow>
          if Some transport = exclude then (BC_OK, bus, w)
          else
            (case send_on_transport env transport msg (bus, w) of (rc, bus', w') \<Rightarrow>
               if rc = BC_OK then (rc, bump (rx_forward_update (\<lambda>x. x + 1)) bus', w')
               else (rc, bus', w'))))"

section \<open>Publishing\<close>

text \<open>
  The message the function publishes is the caller's, with the node id and, if it had none,
  a fresh sequence number stored into it. Publishing then decides on the network, delivers
  locally and sends.
\<close>

definition stamp :: "bc_message_bus \<Rightarrow> bc_message \<Rightarrow> bc_message_bus \<times> bc_message" where
  "stamp bus msg =
     (let msg = msg\<lparr>m_src_node := bus_node_id bus\<rparr> in
      if m_seq msg = 0
      then (bus\<lparr>bus_next_seq := bus_next_seq bus + 1\<rparr>, msg\<lparr>m_seq := bus_next_seq bus + 1\<rparr>)
      else (bus, msg))"

definition need_network :: "bc_message_bus \<Rightarrow> bc_message \<Rightarrow> bool" where
  "need_network bus msg =
     (let named = cstr (m_channel msg) \<noteq> [] \<or> (m_dst_node msg \<noteq> 0 \<and> m_dst_node msg \<noteq> bus_node_id bus) in
      if (m_flags msg AND BC_FLAG_NO_BRIDGE) \<noteq> 0 then named else should_forward bus msg \<or> named)"

definition publish_local ::
  "'w bus_env \<Rightarrow> int \<Rightarrow> bc_message \<Rightarrow> bc_message_bus \<times> 'w \<Rightarrow> (bc_status \<times> nat) \<times> bc_message_bus \<times> 'w" where
  "publish_local env source_fd msg = (\<lambda>(bus, w).
     if should_deliver_local bus msg then
       (case bc_message_bus_deliver_local env source_fd msg (bus, w) of
          (Inl _, bus', w') \<Rightarrow> ((BC_ERR_NOMEM, 0), bus', w')
        | (Inr n, bus', w') \<Rightarrow>
            if n > 0 then ((BC_OK, n), bump (pub_local_update (\<lambda>x. x + of_nat n)) bus', w')
            else ((BC_OK, 0), bus', w'))
     else ((BC_OK, 0), bus, w))"

definition publish_network ::
  "'w bus_env \<Rightarrow> bc_message \<Rightarrow> bc_status \<times> nat \<Rightarrow> bc_message_bus \<times> 'w \<Rightarrow> bc_status \<times> bc_message_bus \<times> 'w" where
  "publish_network env msg = (\<lambda>(local_rc, local_delivered) (bus, w).
     case route env msg of
       Inl _ \<Rightarrow>
         if bus_require_route bus
         then (if local_rc = BC_ERR_NOMEM then BC_ERR_NOMEM else BC_ERR_NOT_FOUND,
               bump (pub_failed_update (\<lambda>x. x + 1)) bus, w)
         else (local_rc, bus, w)
     | Inr transport \<Rightarrow>
         (case send_on_transport env transport msg (bus, w) of (network_rc, bus', w') \<Rightarrow>
            if network_rc \<noteq> BC_OK \<and> m_qos msg \<ge> BC_QOS_AT_LEAST_ONCE \<and> local_delivered = 0
            then (if local_rc = BC_ERR_NOMEM then BC_ERR_NOMEM else network_rc, bus', w')
            else (if local_rc = BC_ERR_NOMEM then BC_ERR_NOMEM else BC_OK, bus', w')))"

definition bc_message_bus_publish ::
  "'w bus_env \<Rightarrow> int \<Rightarrow> bc_message \<Rightarrow> bc_message_bus \<times> 'w \<Rightarrow> bc_status \<times> bc_message_bus \<times> 'w" where
  "bc_message_bus_publish env source_fd msg0 = (\<lambda>(bus0, w0).
     case stamp bus0 msg0 of (bus, msg) \<Rightarrow>
       (case publish_local env source_fd msg (bus, w0) of
          ((local_rc, local_delivered), bus', w') \<Rightarrow>
            if need_network bus msg then publish_network env msg (local_rc, local_delivered) (bus', w')
            else (if local_rc = BC_ERR_NOMEM then BC_ERR_NOMEM else BC_OK, bus', w')))"

section \<open>Inbound messages\<close>

definition deliver_inbound ::
  "'w bus_env \<Rightarrow> bc_message \<Rightarrow> bc_message_bus \<times> 'w \<Rightarrow> bc_status \<times> bc_message_bus \<times> 'w" where
  "deliver_inbound env msg = (\<lambda>(bus, w).
     if should_deliver_local bus msg then
       (case bc_message_bus_deliver_local env (- 1) msg (bus, w) of
          (Inl rc, bus', w') \<Rightarrow> (rc, bump (rx_drop_update (\<lambda>x. x + 1)) bus', w')
        | (Inr n, bus', w') \<Rightarrow>
            (BC_OK, if n > 0 then bump (pub_local_update (\<lambda>x. x + of_nat n)) bus' else bus', w'))
     else (BC_OK, bus, w))"

definition inbound_complete ::
  "'w bus_env \<Rightarrow> bc_message \<Rightarrow> nat option \<Rightarrow> bc_message_bus \<times> 'w \<Rightarrow> bc_status \<times> bc_message_bus \<times> 'w" where
  "inbound_complete env msg from_transport = (\<lambda>(bus, w).
     if m_dst_node msg \<noteq> 0 \<and> m_dst_node msg \<noteq> bus_node_id bus then
       (case forward_message env msg from_transport (bus, w) of (rc, bus', w') \<Rightarrow>
          if rc \<noteq> BC_OK then (rc, bump (rx_drop_update (\<lambda>x. x + 1)) bus', w') else (rc, bus', w'))
     else
       (case deliver_inbound env msg (bus, w) of (rc, bus1, w1) \<Rightarrow>
          if rc \<noteq> BC_OK then (rc, bus1, w1)
          else
            (case (if should_forward bus1 msg then forward_message env msg from_transport (bus1, w1)
                   else (BC_OK, bus1, w1)) of (rc, bus2, w2) \<Rightarrow>
               if rc \<noteq> BC_OK \<and> bus_require_route bus2 then (rc, bus2, w2)
               else
                 (case from_transport of
                    Some transport \<Rightarrow>
                      if m_qos msg = BC_QOS_AT_LEAST_ONCE
                      then (case send_ack env transport msg (bus2, w2) of (_, bus3, w3) \<Rightarrow> (BC_OK, bus3, w3))
                      else (BC_OK, bus2, w2)
                  | None \<Rightarrow> (BC_OK, bus2, w2)))))"

text \<open>\<open>None\<close>: the reassembly accessed an array out of bounds.\<close>

definition bc_message_bus_handle_inbound ::
  "'w bus_env \<Rightarrow> bc_message \<Rightarrow> nat option \<Rightarrow> bc_message_bus \<times> 'w \<Rightarrow> (bc_status \<times> bc_message_bus \<times> 'w) option" where
  "bc_message_bus_handle_inbound env msg from_transport = (\<lambda>(bus0, w).
     let bus = bump (rx_network_update (\<lambda>x. x + 1)) bus0 in
     if (m_flags msg AND BC_FLAG_ACK) \<noteq> 0 then Some (BC_OK, bump (ack_recv_update (\<lambda>x. x + 1)) bus, w)
     else if (m_flags msg AND BC_FLAG_FRAGMENT) \<noteq> 0 then
       (let bus = bump (frag_rx_update (\<lambda>x. x + 1)) bus in
        case bc_reasm_feed (bus_reasm bus) msg of
          None \<Rightarrow> None
        | Some (reasm, Inl rc) \<Rightarrow>
            (let bus = bus\<lparr>bus_reasm := reasm\<rparr> in
             if rc = BC_ERR_NOT_FOUND then Some (BC_OK, bus, w)
             else Some (rc, bump (rx_drop_update (\<lambda>x. x + 1)) bus, w))
        | Some (reasm, Inr complete) \<Rightarrow>
            Some (inbound_complete env complete from_transport (bus\<lparr>bus_reasm := reasm\<rparr>, w)))
     else Some (inbound_complete env msg from_transport (bus, w)))"

section \<open>Subscriptions: the table as a set of pairs\<close>

text \<open>The in-place loop leaves exactly the entries of the other clients, in their order.\<close>

lemma compact_filter:
  assumes "out \<le> i" "i \<le> cnt" "cnt = length subs"
  shows "case compact fd subs cnt i out of (subs', n) \<Rightarrow>
    length subs' = cnt \<and> n \<le> cnt \<and>
    take n subs' = take out subs @ filter (\<lambda>s. sb_fd s \<noteq> fd) (drop i subs)"
  using assms
proof (induction fd subs cnt i out rule: compact.induct)
  case (1 fd subs cnt i out)
  show ?case
  proof (cases "i < cnt")
    case False
    then show ?thesis using 1(3-) by (subst compact.simps) simp
  next
    case True
    have d: "drop i subs = subs ! i # drop (Suc i) subs"
      using True 1(5) by (simp add: Cons_nth_drop_Suc)
    show ?thesis
    proof (cases "sb_fd (subs ! i) \<noteq> fd")
      case keep: True
      let ?subs = "if out \<noteq> i then subs[out := subs ! i] else subs"
      have "take (Suc out) ?subs = take out subs @ [subs ! i]" "drop (Suc i) ?subs = drop (Suc i) subs"
        "length ?subs = cnt"
        using True 1(3-) by (auto simp: take_Suc_conv_app_nth)
      moreover have "compact fd subs cnt i out = compact fd ?subs cnt (Suc i) (Suc out)"
        using keep True by (subst compact.simps) simp
      ultimately show ?thesis
        using 1(1) [OF True keep] keep True 1(3-) d by (auto split: prod.splits)
    next
      case False
      moreover have "compact fd subs cnt i out = compact fd subs cnt (Suc i) out"
        using False True by (subst compact.simps) simp
      ultimately show ?thesis
        using 1(2) [OF True] True 1(3-) d by (auto split: prod.splits)
    qed
  qed
qed

lemma remove_client_filter:
  "bc_message_bus_remove_client bus fd =
     bus\<lparr>bus_subscriptions := filter (\<lambda>s. sb_fd s \<noteq> fd) (bus_subscriptions bus)\<rparr>"
  using compact_filter [of 0 0 "length (bus_subscriptions bus)" "bus_subscriptions bus" fd]
  by (simp add: bc_message_bus_remove_client_def split: prod.splits)

text \<open>
  The contract of a subscription table: what subscribing and removing a client do to the
  sequence of (client, pattern) pairs.
\<close>

locale subscription_table =
  fixes entries :: "'s \<Rightarrow> (int \<times> byte list) list"
    and subscribe :: "'s \<Rightarrow> int \<Rightarrow> byte list \<Rightarrow> 's \<times> bc_status"
    and remove :: "'s \<Rightarrow> int \<Rightarrow> 's"
    and valid :: "byte list \<Rightarrow> bool" and cap :: nat
  assumes subscribe_entries: "valid t \<Longrightarrow> entries (fst (subscribe s fd t)) =
      (if length (entries s) < cap \<and> (fd, cstr t) \<notin> set (entries s)
       then entries s @ [(fd, cstr t)] else entries s)"
    and subscribe_ok: "valid t \<Longrightarrow> snd (subscribe s fd t) = BC_OK \<Longrightarrow>
      (fd, cstr t) \<in> set (entries (fst (subscribe s fd t)))"
    and subscribe_full: "valid t \<Longrightarrow> snd (subscribe s fd t) \<noteq> BC_OK \<Longrightarrow> cap \<le> length (entries s)"
    and remove_entries: "entries (remove s fd) = filter (\<lambda>e. fst e \<noteq> fd) (entries s)"
begin

definition sane :: "'s \<Rightarrow> bool" where
  "sane s \<longleftrightarrow> distinct (entries s) \<and> length (entries s) \<le> cap"

lemma sane_subscribe: "sane s \<Longrightarrow> valid t \<Longrightarrow> sane (fst (subscribe s fd t))"
  by (simp add: sane_def subscribe_entries)

lemma sane_remove: "sane s \<Longrightarrow> sane (remove s fd)"
  using length_filter_le [of "\<lambda>e. fst e \<noteq> fd" "entries s"]
  by (auto simp: sane_def remove_entries simp del: length_filter_le)

lemma subscribe_set:
  "valid t \<Longrightarrow> snd (subscribe s fd t) = BC_OK \<Longrightarrow>
     set (entries (fst (subscribe s fd t))) = insert (fd, cstr t) (set (entries s))"
  using subscribe_ok [of t s fd] by (auto simp: subscribe_entries split: if_splits)

lemma subscribe_rejected:
  "valid t \<Longrightarrow> snd (subscribe s fd t) \<noteq> BC_OK \<Longrightarrow> entries (fst (subscribe s fd t)) = entries s"
  using subscribe_full [of t s fd] by (simp add: subscribe_entries)

lemma remove_set: "set (entries (remove s fd)) = {e \<in> set (entries s). fst e \<noteq> fd}"
  by (auto simp: remove_entries)

end

definition sub_entries :: "bc_message_bus \<Rightarrow> (int \<times> byte list) list" where
  "sub_entries bus = map (\<lambda>s. (sb_fd s, cstr (sb_topic s))) (bus_subscriptions bus)"

definition valid_topic :: "byte list \<Rightarrow> bool" where
  "valid_topic t \<longleftrightarrow> cstr t \<noteq> [] \<and> length (cstr t) < BC_MAX_TOPIC_LEN"

interpretation bus_table: subscription_table
  sub_entries bc_message_bus_subscribe bc_message_bus_remove_client valid_topic BC_MAX_SUBSCRIPTIONS
proof unfold_locales
  fix t fd and s :: bc_message_bus
  have dup: "list_ex (\<lambda>s. sb_fd s = fd \<and> strcmp_eq (sb_topic s) t) (bus_subscriptions s) \<longleftrightarrow>
      (fd, cstr t) \<in> set (sub_entries s)"
    by (auto simp: list_ex_iff sub_entries_def strcmp_eq_def)
  assume t: "valid_topic t"
  then have c: "cstr (snprintf_s (zeros BC_MAX_TOPIC_LEN) t) = cstr t"
    by (simp add: valid_topic_def snprintf_s_zeros canon_simps)
  have l: "length (sub_entries s) = length (bus_subscriptions s)" by (simp add: sub_entries_def)
  show "sub_entries (fst (bc_message_bus_subscribe s fd t)) =
      (if length (sub_entries s) < BC_MAX_SUBSCRIPTIONS \<and> (fd, cstr t) \<notin> set (sub_entries s)
       then sub_entries s @ [(fd, cstr t)] else sub_entries s)"
    using t c unfolding bc_message_bus_subscribe_def dup l
    by (simp add: valid_topic_def) (simp add: sub_entries_def)
  then show "(fd, cstr t) \<in> set (sub_entries (fst (bc_message_bus_subscribe s fd t)))"
    if "snd (bc_message_bus_subscribe s fd t) = BC_OK"
    using that t unfolding bc_message_bus_subscribe_def dup l by (auto simp: valid_topic_def split: if_splits)
  show "BC_MAX_SUBSCRIPTIONS \<le> length (sub_entries s)" if "snd (bc_message_bus_subscribe s fd t) \<noteq> BC_OK"
    using that t unfolding bc_message_bus_subscribe_def dup l by (auto simp: valid_topic_def split: if_splits)
next
  fix fd and s :: bc_message_bus
  show "sub_entries (bc_message_bus_remove_client s fd) = filter (\<lambda>e. fst e \<noteq> fd) (sub_entries s)"
    by (simp add: remove_client_filter sub_entries_def filter_map comp_def)
qed

text \<open>A history of the table: what the daemon does to it as clients come and go.\<close>

datatype table_op = Subscribe int "byte list" | Remove int

fun table_step :: "bc_message_bus \<Rightarrow> table_op \<Rightarrow> bc_message_bus" where
  "table_step bus (Subscribe fd t) = fst (bc_message_bus_subscribe bus fd t)"
| "table_step bus (Remove fd) = bc_message_bus_remove_client bus fd"

lemma table_run_sane:
  "bus_table.sane bus \<Longrightarrow> \<forall>fd t. Subscribe fd t \<in> set ops \<longrightarrow> valid_topic t \<Longrightarrow>
     bus_table.sane (foldl table_step bus ops)"
proof (induction ops arbitrary: bus)
  case Nil
  then show ?case by simp
next
  case (Cons op ops)
  have "bus_table.sane (table_step bus op)"
    using Cons.prems by (cases op) (simp_all add: bus_table.sane_subscribe bus_table.sane_remove)
  then show ?case using Cons by simp
qed

lemma sane_init: "bus_table.sane bc_message_bus_init"
  by (simp add: bus_table.sane_def sub_entries_def bc_message_bus_init_def)

text \<open>
  C15. The subscription table over any history of subscriptions and disconnects: it never has
  more than 128 entries and never the same (client, pattern) twice; a disconnect removes all
  entries of that client and no other; a subscription that returns \<open>BC_OK\<close> adds exactly its pair.
\<close>

theorem subscription_history:
  assumes ops: "\<forall>fd t. Subscribe fd t \<in> set ops \<longrightarrow> valid_topic t" and t: "valid_topic t"
  defines "bus \<equiv> foldl table_step bc_message_bus_init ops"
  shows "distinct (sub_entries bus) \<and> length (sub_entries bus) \<le> BC_MAX_SUBSCRIPTIONS \<and>
    set (sub_entries (bc_message_bus_remove_client bus fd)) = {e \<in> set (sub_entries bus). fst e \<noteq> fd} \<and>
    (case bc_message_bus_subscribe bus fd t of (bus', rc) \<Rightarrow>
       if rc = BC_OK then set (sub_entries bus') = insert (fd, cstr t) (set (sub_entries bus))
       else length (sub_entries bus) = BC_MAX_SUBSCRIPTIONS \<and> sub_entries bus' = sub_entries bus)"
proof -
  have s: "distinct (sub_entries bus)" "length (sub_entries bus) \<le> BC_MAX_SUBSCRIPTIONS"
    using table_run_sane [OF sane_init ops] by (simp_all add: bus_def bus_table.sane_def)
  moreover have "case bc_message_bus_subscribe bus fd t of (bus', rc) \<Rightarrow>
       if rc = BC_OK then set (sub_entries bus') = insert (fd, cstr t) (set (sub_entries bus))
       else length (sub_entries bus) = BC_MAX_SUBSCRIPTIONS \<and> sub_entries bus' = sub_entries bus"
    using bus_table.subscribe_set [OF t, of bus fd] bus_table.subscribe_rejected [OF t, of bus fd]
      bus_table.subscribe_full [OF t, of bus fd] s
    by (cases "bc_message_bus_subscribe bus fd t") simp
  ultimately show ?thesis using bus_table.remove_set by blast
qed

lemma subscription_history_witness:
  "set (sub_entries (bc_message_bus_remove_client
      (foldl table_step bc_message_bus_init [Subscribe 4 (str ''a''), Subscribe 5 (str ''b'')]) 4)) =
   {e \<in> set (sub_entries (foldl table_step bc_message_bus_init
      [Subscribe 4 (str ''a''), Subscribe 5 (str ''b'')])). fst e \<noteq> 4}"
  using subscription_history [of "[Subscribe 4 (str ''a''), Subscribe 5 (str ''b'')]" "str ''a''" 4]
  by (simp add: valid_topic_def str_def cstring_simps bc_limits)

end
