(* ===== verification/Bus_Traces.thy ===== *)
theory Bus_Traces
  imports Message_Bus "HOL-Library.Sublist"
begin

text \<open>
  What the message bus does to the outside: its deliveries and sends as a trace of events.
  The environment of \<open>log_env\<close> records every call and answers with arbitrary status codes that
  may depend on the whole past, so the theorems hold for every behaviour of clients and
  transports.
\<close>

section \<open>Local delivery\<close>

definition recipients :: "int \<Rightarrow> bc_message \<Rightarrow> bc_message_bus \<Rightarrow> int list" where
  "recipients source_fd msg bus =
     map sb_fd (filter (\<lambda>s. sb_fd s \<noteq> source_fd \<and> bc_topic_matches (sb_topic s) (m_topic msg))
       (bus_subscriptions bus))"

fun deliver_all :: "(int \<Rightarrow> byte list \<Rightarrow> 'w \<Rightarrow> bc_status \<times> 'w) \<Rightarrow> byte list \<Rightarrow> int list \<Rightarrow> 'w \<Rightarrow> bc_status list \<times> 'w" where
  "deliver_all f frame [] w = ([], w)"
| "deliver_all f frame (fd # fds) w =
     (case f fd frame w of (rc, w1) \<Rightarrow> case deliver_all f frame fds w1 of (rcs, w2) \<Rightarrow> (rc # rcs, w2))"

definition oks :: "bc_status list \<Rightarrow> nat" where
  "oks rcs = length (filter (\<lambda>rc. rc = BC_OK) rcs)"

lemma oks_simps [simp]: "oks [] = 0" "oks (rc # rcs) = (if rc = BC_OK then Suc (oks rcs) else oks rcs)"
  by (simp_all add: oks_def)

lemma oks_le: "oks rcs \<le> length rcs"
  by (simp add: oks_def)

lemma oks_all: "oks rcs = length rcs \<longleftrightarrow> (\<forall>rc \<in> set rcs. rc = BC_OK)"
proof (induction rcs)
  case Nil
  then show ?case by simp
next
  case (Cons rc rcs)
  then show ?case using oks_le [of rcs] by auto
qed

lemma deliver_loop_all:
  "deliver_loop (Some f) src msg subs (d, m, k) w =
     (case deliver_all f (deliver_frame msg)
         (map sb_fd (filter (\<lambda>s. sb_fd s \<noteq> src \<and> bc_topic_matches (sb_topic s) (m_topic msg)) subs)) w of
        (rcs, w') \<Rightarrow> ((d + oks rcs, m + length rcs, k + (length rcs - oks rcs)), w'))"
proof (induction subs arbitrary: d m k w)
  case Nil
  then show ?case by simp
next
  case (Cons s subs)
  then show ?case using oks_le by (auto split: prod.split simp: Suc_diff_le)
qed

definition same_but_stats :: "bc_message_bus \<Rightarrow> bc_message_bus \<Rightarrow> bool" where
  "same_but_stats bus bus' \<longleftrightarrow> bus' = bus\<lparr>bus_stats := bus_stats bus'\<rparr>"

lemma same_but_stats_fields:
  "same_but_stats bus bus' \<longleftrightarrow>
     bus_subscriptions bus' = bus_subscriptions bus \<and> bus_node_id bus' = bus_node_id bus \<and>
     bus_next_seq bus' = bus_next_seq bus \<and> bus_require_route bus' = bus_require_route bus \<and>
     bus_bridge_broadcast bus' = bus_bridge_broadcast bus \<and> bus_reasm bus' = bus_reasm bus"
  unfolding same_but_stats_def by (cases bus; cases bus') auto

lemma same_but_stats_refl [simp]: "same_but_stats bus bus"
  by (simp add: same_but_stats_fields)

lemma same_but_stats_bump [simp]:
  "same_but_stats a (bump f b) = same_but_stats a b"
  "same_but_stats (bump f a) b = same_but_stats a b"
  by (simp_all add: same_but_stats_fields)

lemma same_but_stats_trans: "same_but_stats a b \<Longrightarrow> same_but_stats b c \<Longrightarrow> same_but_stats a c"
  by (simp add: same_but_stats_fields)

lemma deliver_local_all:
  assumes "env_deliver env = Some f"
    and "deliver_all f (deliver_frame msg) (recipients src msg bus) w = (rcs, w')"
  shows "\<exists>bus'. bc_message_bus_deliver_local env src msg (bus, w) =
      (if \<forall>rc \<in> set rcs. rc = BC_OK then Inr (length rcs) else Inl BC_ERR_NOMEM, bus', w') \<and>
      same_but_stats bus bus'"
proof -
  have e: "deliver_loop (env_deliver env) src msg (bus_subscriptions bus) (0, 0, 0) w =
      ((oks rcs, length rcs, length rcs - oks rcs), w')"
    using assms by (simp add: deliver_loop_all recipients_def)
  show ?thesis
    using oks_all [of rcs] oks_le [of rcs]
    by (auto simp: bc_message_bus_deliver_local_def e Let_def)
qed

section \<open>The recording environment\<close>

datatype event = Sent nat "byte list" | Delivered int "byte list"

definition log_env ::
  "bc_config \<Rightarrow> byte list list \<Rightarrow> (nat \<Rightarrow> byte list \<Rightarrow> event list \<Rightarrow> bc_status) \<Rightarrow>
     (int \<Rightarrow> byte list \<Rightarrow> event list \<Rightarrow> bc_status) \<Rightarrow> event list bus_env" where
  "log_env config names st dt =
     \<lparr>env_config = config, env_transports = names,
      env_send = (\<lambda>i. Some (\<lambda>frame w. (st i frame w, w @ [Sent i frame]))),
      env_deliver = Some (\<lambda>fd frame w. (dt fd frame w, w @ [Delivered fd frame]))\<rparr>"

lemma deliver_all_log:
  "snd (deliver_all (\<lambda>fd frame w. (dt fd frame w, w @ [Delivered fd frame])) frame fds w) =
     w @ map (\<lambda>fd. Delivered fd frame) fds"
  by (induction fds arbitrary: w) (simp_all add: case_prod_beta)

section \<open>Sending\<close>

text \<open>The frames that carry a message: itself, or its fragments if it does not fit one frame.\<close>

definition pieces :: "bc_message \<Rightarrow> bc_message list" where
  "pieces msg = (if length (m_payload msg) > BC_FRAG_CHUNK_MAX then fragments msg else [msg])"

lemma emit_single: "emit p w = emit_pieces emit [p] w"
  by (cases "emit p w") simp

text \<open>
  What happens to these frames on a transport that answers \<open>st\<close>: they are handed over one after the
  other up to the first that cannot be encoded or that the transport refuses. The result is the
  status and the events.
\<close>

type_synonym send_answers = "nat \<Rightarrow> byte list \<Rightarrow> event list \<Rightarrow> bc_status"
type_synonym client_answers = "int \<Rightarrow> byte list \<Rightarrow> event list \<Rightarrow> bc_status"

fun hand_over :: "send_answers \<Rightarrow> nat \<Rightarrow> bc_message list \<Rightarrow> event list \<Rightarrow> bc_status \<times> event list" where
  "hand_over st t [] w = (BC_OK, [])"
| "hand_over st t (p # ps) w =
     (if \<not> encodable p then (BC_ERR_INVALID, [])
      else if st t (wire p) w \<noteq> BC_OK then (st t (wire p) w, [Sent t (wire p)])
      else case hand_over st t ps (w @ [Sent t (wire p)]) of (rc, es) \<Rightarrow> (rc, Sent t (wire p) # es))"

definition sent_over :: "send_answers \<Rightarrow> nat \<Rightarrow> bc_message \<Rightarrow> event list \<Rightarrow> bc_status \<times> event list" where
  "sent_over st t msg w = (if pieces msg = [] then (BC_ERR_INVALID, []) else hand_over st t (pieces msg) w)"

lemma hand_over_ok: "hand_over st t ps w = (BC_OK, es) \<Longrightarrow> es = map (\<lambda>p. Sent t (wire p)) ps"
  by (induction ps arbitrary: w es) (auto split: if_splits prod.splits)

lemma hand_over_prefix: "prefix (snd (hand_over st t ps w)) (map (\<lambda>p. Sent t (wire p)) ps)"
  by (induction ps arbitrary: w) (auto split: prod.splits, metis snd_conv)

lemma emit_pieces_trace:
  "\<exists>bus'. emit_pieces (emit_network_frame (log_env config names st dt) t) ps (bus, w) =
      (fst (hand_over st t ps w), bus', w @ snd (hand_over st t ps w)) \<and> same_but_stats bus bus'"
proof (induction ps arbitrary: bus w)
  case Nil
  then show ?case by simp
next
  case (Cons p ps)
  let ?emit = "emit_network_frame (log_env config names st dt) t"
  show ?case
  proof (cases "encodable p \<and> st t (wire p) w = BC_OK")
    case True
    then have "?emit p (bus, w) = (BC_OK, bus, w @ [Sent t (wire p)])"
      by (simp add: emit_network_frame_def encode_eq log_env_def)
    then show ?thesis using Cons.IH [of bus "w @ [Sent t (wire p)]"] True by (auto split: prod.split)
  next
    case False
    then show ?thesis by (auto simp: emit_network_frame_def encode_eq log_env_def)
  qed
qed

lemma no_pieces: "pieces msg = [] \<longleftrightarrow> length (m_payload msg) > BC_FRAG_CHUNK_MAX \<and> fragment_total msg = 0"
  by (simp add: pieces_def fragments_def Let_def unat_eq_0)

lemma send_trace:
  "\<exists>bus'. send_on_transport (log_env config names st dt) t msg (bus, w) =
      (fst (sent_over st t msg w), bus', w @ snd (sent_over st t msg w)) \<and> same_but_stats bus bus'"
proof -
  let ?emit = "emit_network_frame (log_env config names st dt) t" and ?big = "length (m_payload msg) > BC_FRAG_CHUNK_MAX"
  let ?bus = "if ?big then bump (frag_tx_update (\<lambda>x. x + 1)) bus else bus"
  let ?run = "if ?big then bc_fragment_publish msg ?emit (?bus, w) else ?emit msg (?bus, w)"
  have "\<exists>bus1. ?run = (fst (sent_over st t msg w), bus1, w @ snd (sent_over st t msg w)) \<and> same_but_stats ?bus bus1"
  proof (cases "pieces msg = []")
    case True
    then show ?thesis using no_pieces [of msg] by (simp add: bc_fragment_publish_def sent_over_def)
  next
    case False
    have "?run = emit_pieces ?emit (pieces msg) (?bus, w)"
    proof (cases ?big)
      case True
      then show ?thesis using False no_pieces [of msg] by (simp add: bc_fragment_publish_def pieces_def)
    next
      case small: False
      show ?thesis unfolding pieces_def if_not_P [OF small] by (rule emit_single)
    qed
    then show ?thesis
      using emit_pieces_trace [of config names st dt t "pieces msg" ?bus w] False by (simp add: sent_over_def)
  qed
  then show ?thesis
    by (auto simp: send_on_transport_def split: if_splits)
qed

section \<open>Publishing\<close>

lemma route_log [simp]: "route (log_env config names st dt) msg = bc_router_route config names msg"
  by (simp add: route_def log_env_def)

lemma should_same [simp]:
  "same_but_stats a b \<Longrightarrow> should_deliver_local b m = should_deliver_local a m"
  "same_but_stats a b \<Longrightarrow> should_forward b m = should_forward a m"
  "same_but_stats a b \<Longrightarrow> recipients src m b = recipients src m a"
  by (simp_all add: should_deliver_local_def should_forward_def recipients_def same_but_stats_fields)

text \<open>
  The local half: the clients a message is handed to, if it is for this node or for all, the events,
  and whether one of these clients, which answer \<open>dt\<close>, refuses it. All are asked, whatever the
  ones before answered.
\<close>

definition local_clients :: "int \<Rightarrow> bc_message \<Rightarrow> bc_message_bus \<Rightarrow> int list" where
  "local_clients src msg bus =
     (if m_dst_node msg = 0 \<or> m_dst_node msg = bus_node_id bus then recipients src msg bus else [])"

definition local_events :: "int \<Rightarrow> bc_message \<Rightarrow> bc_message_bus \<Rightarrow> event list" where
  "local_events src msg bus = map (\<lambda>fd. Delivered fd (deliver_frame msg)) (local_clients src msg bus)"

fun clients_accept :: "client_answers \<Rightarrow> byte list \<Rightarrow> int list \<Rightarrow> event list \<Rightarrow> bool" where
  "clients_accept dt frame [] w \<longleftrightarrow> True"
| "clients_accept dt frame (fd # fds) w \<longleftrightarrow>
     dt fd frame w = BC_OK \<and> clients_accept dt frame fds (w @ [Delivered fd frame])"

abbreviation all_accept :: "client_answers \<Rightarrow> int \<Rightarrow> bc_message \<Rightarrow> bc_message_bus \<Rightarrow> event list \<Rightarrow> bool" where
  "all_accept dt src msg bus w \<equiv> clients_accept dt (deliver_frame msg) (local_clients src msg bus) w"

lemma deliver_all_accept:
  "(\<forall>rc \<in> set (fst (deliver_all (\<lambda>fd frame w. (dt fd frame w, w @ [Delivered fd frame])) frame fds w)). rc = BC_OK) \<longleftrightarrow>
     clients_accept dt frame fds w"
  by (induction fds arbitrary: w) (simp_all add: case_prod_beta)

lemma deliver_local_exact:
  assumes "should_deliver_local bus msg"
  shows "\<exists>bus'. bc_message_bus_deliver_local (log_env config names st dt) src msg (bus, w) =
      (if all_accept dt src msg bus w then Inr (length (local_clients src msg bus)) else Inl BC_ERR_NOMEM, bus',
       w @ local_events src msg bus) \<and> same_but_stats bus bus'"
proof -
  let ?f = "\<lambda>fd frame w. (dt fd frame w, w @ [Delivered fd frame])"
  have c: "local_clients src msg bus = recipients src msg bus"
    using assms by (simp add: local_clients_def should_deliver_local_def)
  obtain rcs w1 where d: "deliver_all ?f (deliver_frame msg) (recipients src msg bus) w = (rcs, w1)"
    by fastforce
  have l: "length (fst (deliver_all f frame fds w)) = length fds" for f and frame fds and w :: "event list"
    by (induction fds arbitrary: w) (simp_all add: case_prod_beta)
  have "env_deliver (log_env config names st dt) = Some ?f" by (simp add: log_env_def)
  from deliver_local_all [OF this d] obtain bus' where
    b: "bc_message_bus_deliver_local (log_env config names st dt) src msg (bus, w) =
      (if \<forall>rc \<in> set rcs. rc = BC_OK then Inr (length rcs) else Inl BC_ERR_NOMEM, bus', w1)" "same_but_stats bus bus'"
    by blast
  moreover have "(\<forall>rc \<in> set rcs. rc = BC_OK) \<longleftrightarrow> all_accept dt src msg bus w" "length rcs = length (local_clients src msg bus)"
    "w1 = w @ local_events src msg bus"
    using d deliver_all_log [of dt "deliver_frame msg" "recipients src msg bus" w]
      deliver_all_accept [of dt "deliver_frame msg" "recipients src msg bus" w]
      l [of ?f "deliver_frame msg" "recipients src msg bus" w]
    by (simp_all only: fst_conv snd_conv c local_events_def)
  ultimately show ?thesis by simp
qed

lemma publish_local_trace:
  "\<exists>bus'. publish_local (log_env config names st dt) src msg (bus, w) =
      ((if all_accept dt src msg bus w then (BC_OK, length (local_events src msg bus)) else (BC_ERR_NOMEM, 0)), bus',
       w @ local_events src msg bus) \<and> same_but_stats bus bus'"
proof (cases "should_deliver_local bus msg")
  case False
  then show ?thesis by (auto simp: publish_local_def local_events_def local_clients_def should_deliver_local_def)
next
  case True
  from deliver_local_exact [OF True, of config names st dt src w] show ?thesis
    using True by (auto simp: publish_local_def local_events_def split: if_splits)
qed

text \<open>
  The network half: whether a published message leaves the node, and what becomes of it on the
  network, the route being that of the routing table.
\<close>

definition leaves_node :: "bc_message_bus \<Rightarrow> bc_message \<Rightarrow> bool" where
  "leaves_node bus msg \<longleftrightarrow> cstr (m_channel msg) \<noteq> [] \<or>
     (m_dst_node msg \<noteq> 0 \<and> m_dst_node msg \<noteq> bus_node_id bus) \<or>
     (m_dst_node msg = 0 \<and> bus_bridge_broadcast bus \<and> (m_flags msg AND BC_FLAG_NO_BRIDGE) = 0)"

lemma need_network_leaves: "need_network bus msg \<longleftrightarrow> leaves_node bus msg"
  by (auto simp: need_network_def leaves_node_def should_forward_def Let_def)

definition network_events ::
  "bc_config \<Rightarrow> byte list list \<Rightarrow> send_answers \<Rightarrow> bc_message_bus \<Rightarrow> bc_message \<Rightarrow> event list \<Rightarrow> event list" where
  "network_events config names st bus msg w = (case bc_router_route config names msg of
     Inr t \<Rightarrow> if leaves_node bus msg then snd (sent_over st t msg w) else [] | Inl _ \<Rightarrow> [])"

text \<open>
  The status: a client that refused outweighs everything; a missing route is an error if the
  configuration demands one; a failure to send is one for a message of quality 1 that no client of
  this node took.
\<close>

definition publish_status ::
  "bc_config \<Rightarrow> byte list list \<Rightarrow> send_answers \<Rightarrow> client_answers \<Rightarrow> int \<Rightarrow> bc_message_bus \<Rightarrow> bc_message \<Rightarrow> event list \<Rightarrow> bc_status" where
  "publish_status config names st dt src bus msg w =
     (if \<not> all_accept dt src msg bus w then BC_ERR_NOMEM
      else if \<not> leaves_node bus msg then BC_OK
      else case bc_router_route config names msg of
          Inl _ \<Rightarrow> if bus_require_route bus then BC_ERR_NOT_FOUND else BC_OK
        | Inr t \<Rightarrow> if m_qos msg \<ge> BC_QOS_AT_LEAST_ONCE \<and> local_clients src msg bus = []
            then fst (sent_over st t msg (w @ local_events src msg bus)) else BC_OK)"

text \<open>The message as it is published: with the node id, and a sequence number if it had none.\<close>

definition published :: "bc_message_bus \<Rightarrow> bc_message \<Rightarrow> bc_message" where
  "published bus msg = msg\<lparr>m_src_node := bus_node_id bus,
     m_seq := (if m_seq msg = 0 then bus_next_seq bus + 1 else m_seq msg)\<rparr>"

lemma stamp_published:
  "stamp bus msg = (bus\<lparr>bus_next_seq := (if m_seq msg = 0 then bus_next_seq bus + 1 else bus_next_seq bus)\<rparr>, published bus msg)"
  by (auto simp: stamp_def published_def Let_def)

lemma publish_network_trace:
  assumes "same_but_stats bus bus1" "leaves_node bus msg"
  shows "\<exists>bus'. publish_network (log_env config names st dt) msg (lrc, n) (bus1, w) =
      (case bc_router_route config names msg of
         Inl _ \<Rightarrow> if bus_require_route bus then if lrc = BC_ERR_NOMEM then lrc else BC_ERR_NOT_FOUND else lrc
       | Inr t \<Rightarrow> if lrc = BC_ERR_NOMEM then lrc
           else if m_qos msg \<ge> BC_QOS_AT_LEAST_ONCE \<and> n = 0 then fst (sent_over st t msg w) else BC_OK,
       bus', w @ network_events config names st bus msg w) \<and> same_but_stats bus bus'"
proof (cases "bc_router_route config names msg")
  case (Inl e)
  then show ?thesis
    using assms by (auto simp: publish_network_def network_events_def same_but_stats_fields)
next
  case (Inr t)
  obtain bus2 where "send_on_transport (log_env config names st dt) t msg (bus1, w) =
      (fst (sent_over st t msg w), bus2, w @ snd (sent_over st t msg w))" "same_but_stats bus1 bus2"
    using send_trace by metis
  then show ?thesis
    using assms Inr same_but_stats_trans [OF assms(1)] by (auto simp: publish_network_def network_events_def)
qed

lemma publish_after_stamp:
  "\<exists>bus'. (case publish_local (log_env config names st dt) src msg (bus, w) of ((lrc, n), b, v) \<Rightarrow>
        if need_network bus msg then publish_network (log_env config names st dt) msg (lrc, n) (b, v)
        else (if lrc = BC_ERR_NOMEM then BC_ERR_NOMEM else BC_OK, b, v)) =
      (publish_status config names st dt src bus msg w, bus',
       w @ local_events src msg bus @ network_events config names st bus msg (w @ local_events src msg bus)) \<and>
    same_but_stats bus bus'"
proof -
  let ?env = "log_env config names st dt" and ?D = "local_events src msg bus"
  define r where "r = (if all_accept dt src msg bus w then (BC_OK, length ?D) else (BC_ERR_NOMEM, 0))"
  obtain bus1 where l: "publish_local ?env src msg (bus, w) = (r, bus1, w @ ?D)" "same_but_stats bus bus1"
    using publish_local_trace [of config names st dt src msg bus w] unfolding r_def by blast
  show ?thesis
  proof (cases "leaves_node bus msg")
    case False
    then show ?thesis
      using l by (auto simp: need_network_leaves publish_status_def network_events_def r_def split: sum.split)
  next
    case True
    obtain bus' where n: "publish_network ?env msg (fst r, snd r) (bus1, w @ ?D) =
      (case bc_router_route config names msg of
         Inl _ \<Rightarrow> if bus_require_route bus then if fst r = BC_ERR_NOMEM then fst r else BC_ERR_NOT_FOUND else fst r
       | Inr t \<Rightarrow> if fst r = BC_ERR_NOMEM then fst r
           else if m_qos msg \<ge> BC_QOS_AT_LEAST_ONCE \<and> snd r = 0 then fst (sent_over st t msg (w @ ?D)) else BC_OK,
       bus', (w @ ?D) @ network_events config names st bus msg (w @ ?D))" "same_but_stats bus bus'"
      using publish_network_trace [OF l(2) True] by blast
    have "publish_status config names st dt src bus msg w = (case bc_router_route config names msg of
         Inl _ \<Rightarrow> if bus_require_route bus then if fst r = BC_ERR_NOMEM then fst r else BC_ERR_NOT_FOUND else fst r
       | Inr t \<Rightarrow> if fst r = BC_ERR_NOMEM then fst r
           else if m_qos msg \<ge> BC_QOS_AT_LEAST_ONCE \<and> snd r = 0 then fst (sent_over st t msg (w @ ?D)) else BC_OK)"
      using True by (simp add: publish_status_def r_def local_events_def split: sum.split)
    then show ?thesis
      using n l True by (simp add: need_network_leaves case_prod_beta)
  qed
qed

text \<open>
  C8. What publishing does to the outside and what it returns, exactly, whatever the clients and
  transports answer. The message, with the node id and a sequence number, is handed once to
  every client whose pattern accepts the topic and that is not the publisher, in the order of the
  subscriptions, if it is for this node or for all. Then, whatever its quality, whether a client took it
  or not and even if one refused it, its frames go in order over the routed transport if it leaves the node (it names a channel
  or another node, or it is for all and bridging is on and not switched off by its flag), up to the first frame the
  transport refuses. The call returns \<open>BC_ERR_NOMEM\<close> if a client refused the message,
  \<open>BC_ERR_NOT_FOUND\<close> if it has no route and needs one, the error of the transport if it is of quality 1 and
  no client of this node took it, and \<open>BC_OK\<close> in all other cases.
\<close>

theorem publish_trace:
  "\<exists>bus'. bc_message_bus_publish (log_env config names st dt) src msg (bus, w) =
      (publish_status config names st dt src bus (published bus msg) w, bus',
       w @ local_events src (published bus msg) bus @
       network_events config names st bus (published bus msg) (w @ local_events src (published bus msg) bus)) \<and>
    same_but_stats (bus\<lparr>bus_next_seq := (if m_seq msg = 0 then bus_next_seq bus + 1 else bus_next_seq bus)\<rparr>) bus'"
proof -
  let ?bus = "bus\<lparr>bus_next_seq := (if m_seq msg = 0 then bus_next_seq bus + 1 else bus_next_seq bus)\<rparr>"
  have b: "local_clients src m ?bus = local_clients src m bus" "leaves_node ?bus m = leaves_node bus m"
    "bus_require_route ?bus = bus_require_route bus" for m
    by (simp_all add: local_clients_def recipients_def leaves_node_def)
  have c: "local_events src m ?bus = local_events src m bus"
    "network_events config names st ?bus m v = network_events config names st bus m v"
    "publish_status config names st dt src ?bus m v = publish_status config names st dt src bus m v" for m v
    unfolding local_events_def network_events_def publish_status_def b by (rule refl)+
  show ?thesis
    using publish_after_stamp [where bus = ?bus and msg = "published bus msg" and config = config and names = names and st = st and dt = dt and src = src and w = w]
    unfolding c bc_message_bus_publish_def prod.case stamp_published .
qed

definition sample_bus :: bc_message_bus where
  "sample_bus = (fst (bc_message_bus_subscribe
     (fst (bc_message_bus_subscribe bc_message_bus_init 4 (str ''a*''))) 5 (str ''a.b'')))\<lparr>bus_node_id := 1\<rparr>"

lemma sample_bus_subs:
  "bus_subscriptions sample_bus =
     [\<lparr>sb_fd = 4, sb_topic = canon 64 (str ''a*'')\<rparr>, \<lparr>sb_fd = 5, sb_topic = canon 64 (str ''a.b'')\<rparr>]"
  by (simp add: sample_bus_def bc_message_bus_subscribe_def bc_message_bus_init_def cstring_simps str_def
      bc_limits BC_MAX_SUBSCRIPTIONS_def strcmp_eq_def)

text \<open>A message for all, of quality 1, published by client 4.\<close>

definition sample_broadcast :: bc_message where
  "sample_broadcast = sample_message\<lparr>m_dst_node := 0, m_channel := zeros 32\<rparr>"

lemma sample_broadcast_fields:
  "m_seq sample_broadcast = 7" "m_src_node sample_broadcast = 1" "m_dst_node sample_broadcast = 0" "m_qos sample_broadcast = 1"
  "m_flags sample_broadcast = 0" "cstr (m_channel sample_broadcast) = []" "cstr (m_topic sample_broadcast) = str ''a.b''"
  "length (m_payload sample_broadcast) = 2" "encodable sample_broadcast"
  using encodable_sample
  by (simp_all add: sample_broadcast_def sample_message_def cstring_simps str_def empty_message_def encodable_def bc_limits)

lemma sample_broadcast_bus:
  "published sample_bus sample_broadcast = sample_broadcast" "leaves_node sample_bus sample_broadcast"
  "bc_router_route bc_config_load_defaults [str ''udp0''] sample_broadcast = Inr 0"
  "pieces sample_broadcast = [sample_broadcast]" "local_clients 4 sample_broadcast sample_bus = [5]"
  "local_clients (- 1) sample_broadcast sample_bus = [4, 5]"
proof -
  have bus: "bus_node_id sample_bus = 1" "bus_bridge_broadcast sample_bus"
    by (simp_all add: sample_bus_def bc_message_bus_subscribe_def bc_message_bus_init_def)
  show "published sample_bus sample_broadcast = sample_broadcast" "leaves_node sample_bus sample_broadcast"
    using bus by (simp_all add: published_def leaves_node_def sample_broadcast_def sample_message_def empty_message_def)
  show "bc_router_route bc_config_load_defaults [str ''udp0''] sample_broadcast = Inr 0"
    by (simp add: sample_broadcast_fields bc_router_route_def bc_config_load_defaults_def strcmp_eq_def find_transport_def)
  show "pieces sample_broadcast = [sample_broadcast]" by (simp add: pieces_def sample_broadcast_fields frag_consts)
  have match: "bc_topic_matches (canon 64 (str ''a*'')) (m_topic sample_broadcast)"
    "bc_topic_matches (canon 64 (str ''a.b'')) (m_topic sample_broadcast)"
    by (simp_all add: sample_broadcast_fields topic_matches_accepts pattern_accepts_def cstring_simps str_def STAR_def)
  show "local_clients 4 sample_broadcast sample_bus = [5]" "local_clients (- 1) sample_broadcast sample_bus = [4, 5]"
    using match by (simp_all add: local_clients_def recipients_def sample_bus_subs sample_broadcast_fields)
qed

lemmas sample_events = sample_broadcast_fields sample_broadcast_bus

lemma publish_trace_witness:
  "\<exists>bus'. bc_message_bus_publish (log_env bc_config_load_defaults [str ''udp0''] (\<lambda>_ _ _. BC_ERR_IO) (\<lambda>_ _ _. BC_OK)) 4
      sample_broadcast (sample_bus, []) =
    (BC_OK, bus', [Delivered 5 (deliver_frame sample_broadcast), Sent 0 (wire sample_broadcast)])"
  using publish_trace [of bc_config_load_defaults "[str ''udp0'']" "\<lambda>_ _ _. BC_ERR_IO" "\<lambda>_ _ _. BC_OK" 4
      sample_broadcast sample_bus "[]"]
  by (auto simp: sample_events publish_status_def local_events_def network_events_def sent_over_def)

text \<open>
  A refused publish is not undone: when a local client could not take the message, the
  publisher is told \<open>BC_ERR_NOMEM\<close> (and the client manager retries it), yet the clients that
  did take it keep it and the frame goes out on the network all the same. Each retry, with
  a fresh sequence number, repeats both.
\<close>

theorem refused_publish_still_sent:
  assumes st: "stamp bus0 msg0 = (bus, msg)"
    and full: "fst (fst (publish_local (log_env config names st dt) src msg (bus, w))) = BC_ERR_NOMEM"
    and net: "need_network bus msg" "bc_router_route config names msg = Inr t"
    and m: "encodable msg" "length (m_payload msg) \<le> BC_FRAG_CHUNK_MAX"
  shows "\<exists>bus' w'. bc_message_bus_publish (log_env config names st dt) src msg0 (bus0, w) =
      (BC_ERR_NOMEM, bus', w') \<and> w' = w @ local_events src msg bus @ [Sent t (wire msg)]"
proof -
  obtain n bus1 w1 where l: "publish_local (log_env config names st dt) src msg (bus, w) = ((BC_ERR_NOMEM, n), bus1, w1)"
    using full by (metis prod.exhaust fst_conv)
  have w1: "w1 = w @ local_events src msg bus"
    using publish_local_trace [of config names st dt src msg bus w] l by auto
  obtain rc bus2 w2 where s: "send_on_transport (log_env config names st dt) t msg (bus1, w1) = (rc, bus2, w2)"
    by (metis prod_cases3)
  have "w2 = w1 @ [Sent t (wire msg)]"
    using s m by (auto simp: send_on_transport_def emit_network_frame_def encode_eq log_env_def split: if_splits)
  then show ?thesis
    using st l s net w1
    by (simp add: bc_message_bus_publish_def publish_network_def split: if_splits)
qed

lemma refused_publish_still_sent_witness:
  "\<exists>bus' w'. bc_message_bus_publish
      (log_env bc_config_load_defaults [str ''udp0''] (\<lambda>_ _ _. BC_OK) (\<lambda>_ _ _. BC_ERR_NOMEM)) 4
       sample_broadcast (sample_bus, []) = (BC_ERR_NOMEM, bus', w') \<and>
     Sent 0 (wire sample_broadcast) \<in> set w'"
proof -
  let ?env = "log_env bc_config_load_defaults [str ''udp0''] (\<lambda>_ _ _. BC_OK) (\<lambda>_ _ _. BC_ERR_NOMEM)"
  have st: "stamp sample_bus sample_broadcast = (sample_bus, sample_broadcast)"
    using sample_events(1,10) by (simp add: stamp_published)
  have full: "fst (fst (publish_local ?env 4 sample_broadcast (sample_bus, []))) = BC_ERR_NOMEM"
    using publish_local_trace [of bc_config_load_defaults "[str ''udp0'']" "\<lambda>_ _ _. BC_OK" "\<lambda>_ _ _. BC_ERR_NOMEM" 4
        sample_broadcast sample_bus "[]"] by (auto simp: sample_events)
  have net: "need_network sample_bus sample_broadcast" by (simp add: need_network_leaves sample_events)
  show ?thesis
    using refused_publish_still_sent [OF st full net sample_events(12) sample_events(9)]
    by (auto simp: sample_events frag_consts)
qed

section \<open>Inbound messages\<close>

text \<open>
  What becomes of a message that is passed on: its frames go over the routed transport, unless that is the one
  it came from.
\<close>

definition passed_on ::
  "bc_config \<Rightarrow> byte list list \<Rightarrow> send_answers \<Rightarrow> bc_message_bus \<Rightarrow> bc_message \<Rightarrow> nat option \<Rightarrow> event list \<Rightarrow> bc_status \<times> event list" where
  "passed_on config names st bus msg from w = (case bc_router_route config names msg of
     Inl _ \<Rightarrow> (if bus_require_route bus then BC_ERR_NOT_FOUND else BC_OK, [])
   | Inr t \<Rightarrow> if from = Some t then (BC_OK, []) else sent_over st t msg w)"

lemma forward_trace:
  assumes "same_but_stats bus bus1"
  shows "\<exists>bus'. forward_message (log_env config names st dt) msg from (bus1, w) =
      (fst (passed_on config names st bus msg from w), bus', w @ snd (passed_on config names st bus msg from w)) \<and>
    same_but_stats bus bus'"
proof (cases "bc_router_route config names msg")
  case (Inl e)
  then show ?thesis using assms by (auto simp: forward_message_def passed_on_def same_but_stats_fields)
next
  case (Inr t)
  obtain bus2 where "send_on_transport (log_env config names st dt) t msg (bus1, w) =
      (fst (sent_over st t msg w), bus2, w @ snd (sent_over st t msg w))" "same_but_stats bus1 bus2"
    using send_trace by metis
  then show ?thesis
    using assms Inr same_but_stats_trans [OF assms] by (auto simp: forward_message_def passed_on_def)
qed

text \<open>
  The message is for this node, or for all; or it passes through on its way to another node. It is
  passed on in the second case, and also if it is for all, bridging is on and no client refused it.
\<close>

definition for_here :: "bc_message_bus \<Rightarrow> bc_message \<Rightarrow> bool" where
  "for_here bus msg \<longleftrightarrow> m_dst_node msg = 0 \<or> m_dst_node msg = bus_node_id bus"

definition inbound_forward ::
  "bc_config \<Rightarrow> byte list list \<Rightarrow> send_answers \<Rightarrow> client_answers \<Rightarrow> bc_message_bus \<Rightarrow> bc_message \<Rightarrow> nat option \<Rightarrow> event list \<Rightarrow>
     bc_status \<times> event list" where
  "inbound_forward config names st dt bus msg from w =
     (if \<not> for_here bus msg \<or> m_dst_node msg = 0 \<and> bus_bridge_broadcast bus \<and> all_accept dt (- 1) msg bus w
      then passed_on config names st bus msg from (w @ local_events (- 1) msg bus) else (BC_OK, []))"

definition inbound_status ::
  "bc_config \<Rightarrow> byte list list \<Rightarrow> send_answers \<Rightarrow> client_answers \<Rightarrow> bc_message_bus \<Rightarrow> bc_message \<Rightarrow> nat option \<Rightarrow> event list \<Rightarrow>
     bc_status" where
  "inbound_status config names st dt bus msg from w =
     (if \<not> all_accept dt (- 1) msg bus w then BC_ERR_NOMEM
      else if \<not> for_here bus msg \<or> bus_require_route bus
      then fst (inbound_forward config names st dt bus msg from w) else BC_OK)"

text \<open>It is acknowledged if it was for here, of quality 1, came over a transport and met no error.\<close>

definition inbound_ack ::
  "bc_config \<Rightarrow> byte list list \<Rightarrow> send_answers \<Rightarrow> client_answers \<Rightarrow> bc_message_bus \<Rightarrow> bc_message \<Rightarrow> nat option \<Rightarrow> event list \<Rightarrow>
     event list" where
  "inbound_ack config names st dt bus msg from w =
     (case from of
        Some t \<Rightarrow>
          if for_here bus msg \<and> m_qos msg = BC_QOS_AT_LEAST_ONCE \<and>
             inbound_status config names st dt bus msg from w = BC_OK \<and>
             encodable (ack_message (bus_node_id bus) msg)
          then [Sent t (wire (ack_message (bus_node_id bus) msg))] else []
      | None \<Rightarrow> [])"

definition inbound_events ::
  "bc_config \<Rightarrow> byte list list \<Rightarrow> send_answers \<Rightarrow> client_answers \<Rightarrow> bc_message_bus \<Rightarrow> bc_message \<Rightarrow> nat option \<Rightarrow> event list \<Rightarrow>
     event list" where
  "inbound_events config names st dt bus msg from w =
     local_events (- 1) msg bus @ snd (inbound_forward config names st dt bus msg from w) @
     inbound_ack config names st dt bus msg from w"

lemma deliver_inbound_trace:
  "\<exists>bus'. deliver_inbound (log_env config names st dt) msg (bus, w) =
      (if all_accept dt (- 1) msg bus w then BC_OK else BC_ERR_NOMEM, bus', w @ local_events (- 1) msg bus) \<and>
    same_but_stats bus bus'"
proof (cases "should_deliver_local bus msg")
  case False
  then show ?thesis by (auto simp: deliver_inbound_def local_events_def local_clients_def should_deliver_local_def)
next
  case True
  from deliver_local_exact [OF True, of config names st dt "- 1" w] show ?thesis
    using True by (auto simp: deliver_inbound_def split: if_splits)
qed

lemma ack_pieces: "pieces (ack_message n m) = [ack_message n m]"
  by (simp add: pieces_def ack_message_def empty_message_def)

lemma send_ack_trace:
  "\<exists>rc bus'. send_ack (log_env config names st dt) t msg (bus, w) = (rc, bus',
      w @ (if encodable (ack_message (bus_node_id bus) msg) then [Sent t (wire (ack_message (bus_node_id bus) msg))] else [])) \<and>
    same_but_stats bus bus'"
proof -
  let ?a = "ack_message (bus_node_id bus) msg"
  obtain bus1 where "send_on_transport (log_env config names st dt) t ?a (bus, w) =
      (fst (sent_over st t ?a w), bus1, w @ snd (sent_over st t ?a w))" "same_but_stats bus bus1"
    using send_trace by metis
  then show ?thesis by (auto simp: send_ack_def sent_over_def ack_pieces split: if_splits)
qed

lemma inbound_complete_trace:
  "\<exists>bus'. inbound_complete (log_env config names st dt) msg from (bus, w) =
      (inbound_status config names st dt bus msg from w, bus', w @ inbound_events config names st dt bus msg from w) \<and>
    same_but_stats bus bus'"
proof (cases "for_here bus msg")
  case False
  then have "local_clients (- 1) msg bus = []" by (simp add: local_clients_def for_here_def)
  then show ?thesis
    using False forward_trace [of bus bus config names st dt msg "from" w]
    by (cases "from") (auto simp: inbound_complete_def inbound_status_def inbound_events_def inbound_forward_def
        inbound_ack_def local_events_def for_here_def)
next
  case here: True
  let ?env = "log_env config names st dt" and ?D = "local_events (- 1) msg bus"
  have f: "\<not> (m_dst_node msg \<noteq> 0 \<and> m_dst_node msg \<noteq> bus_node_id bus)" using here by (auto simp: for_here_def)
  have fwd: "should_forward bus msg \<longleftrightarrow> m_dst_node msg = 0 \<and> bus_bridge_broadcast bus"
    using here by (auto simp: should_forward_def for_here_def)
  obtain bus1 where d: "deliver_inbound ?env msg (bus, w) =
      (if all_accept dt (- 1) msg bus w then BC_OK else BC_ERR_NOMEM, bus1, w @ ?D)" "same_but_stats bus bus1"
    using deliver_inbound_trace by metis
  show ?thesis
  proof (cases "all_accept dt (- 1) msg bus w")
    case False
    then show ?thesis
      using d here f by (cases "from")
        (auto simp: inbound_complete_def inbound_status_def inbound_events_def inbound_forward_def inbound_ack_def)
  next
    case True
    let ?F = "inbound_forward config names st dt bus msg from w"
    have s1: "should_forward bus1 msg \<longleftrightarrow> m_dst_node msg = 0 \<and> bus_bridge_broadcast bus"
      using should_same(2) [OF d(2)] fwd by simp
    obtain bus2 where m: "(if should_forward bus1 msg then forward_message ?env msg from (bus1, w @ ?D)
        else (BC_OK, bus1, w @ ?D)) = (fst ?F, bus2, (w @ ?D) @ snd ?F)" "same_but_stats bus bus2"
    proof (cases "should_forward bus1 msg")
      case True
      then have "?F = passed_on config names st bus msg from (w @ ?D)"
        using s1 \<open>all_accept dt (- 1) msg bus w\<close> by (simp add: inbound_forward_def)
      then show thesis
        using that forward_trace [OF d(2), of config names st dt msg "from" "w @ ?D"] True by auto
    next
      case False
      then have "?F = (BC_OK, [])" using s1 here by (auto simp: inbound_forward_def)
      then show thesis using that [of bus1] d(2) False by simp
    qed
    have k: "bus_require_route bus2 = bus_require_route bus" "bus_node_id bus2 = bus_node_id bus"
      using m(2) by (simp_all add: same_but_stats_fields)
    have a: "\<exists>rc bus'. send_ack ?env t msg (bus2, (w @ ?D) @ snd ?F) = (rc, bus', ((w @ ?D) @ snd ?F) @
        (if encodable (ack_message (bus_node_id bus) msg) then [Sent t (wire (ack_message (bus_node_id bus) msg))] else [])) \<and>
      same_but_stats bus bus'" for t
      using send_ack_trace [of config names st dt t msg bus2 "(w @ ?D) @ snd ?F"] same_but_stats_trans [OF m(2)]
      unfolding k by blast
    have c: "inbound_complete ?env msg from (bus, w) =
       (if fst ?F \<noteq> BC_OK \<and> bus_require_route bus then (fst ?F, bus2, (w @ ?D) @ snd ?F)
        else case from of
          Some t \<Rightarrow> if m_qos msg = BC_QOS_AT_LEAST_ONCE
            then (case send_ack ?env t msg (bus2, (w @ ?D) @ snd ?F) of (_, b, v) \<Rightarrow> (BC_OK, b, v))
            else (BC_OK, bus2, (w @ ?D) @ snd ?F)
        | None \<Rightarrow> (BC_OK, bus2, (w @ ?D) @ snd ?F))"
      unfolding inbound_complete_def prod.case d(1) if_not_P [OF f] if_P [OF True] m(1) k by (simp del: append_assoc)
    have s: "inbound_status config names st dt bus msg from w = (if bus_require_route bus then fst ?F else BC_OK)"
      using True here by (simp add: inbound_status_def)
    show ?thesis
    proof (cases "from")
      case None
      then show ?thesis
        using c m(2) s by (auto simp: inbound_events_def inbound_ack_def)
    next
      case (Some t)
      then show ?thesis
        using c m(2) s a [of t] here
        by (auto simp: inbound_events_def inbound_ack_def split: if_splits)
    qed
  qed
qed

text \<open>The message an inbound frame is about: itself, or the one its last fragment completes.\<close>

definition inbound_message :: "bc_message_bus \<Rightarrow> bc_message \<Rightarrow> bc_message option" where
  "inbound_message bus msg =
     (if (m_flags msg AND BC_FLAG_ACK) \<noteq> 0 then None
      else if (m_flags msg AND BC_FLAG_FRAGMENT) \<noteq> 0 then
        (case bc_reasm_feed (bus_reasm bus) msg of Some (_, Inr m) \<Rightarrow> Some m | _ \<Rightarrow> None)
      else Some msg)"

text \<open>The status when there is none: an error only for a fragment the reassembly rejects.\<close>

definition silent_status :: "bc_message_bus \<Rightarrow> bc_message \<Rightarrow> bc_status" where
  "silent_status bus msg =
     (if (m_flags msg AND BC_FLAG_ACK) \<noteq> 0 then BC_OK
      else case bc_reasm_feed (bus_reasm bus) msg of
          Some (_, Inl rc) \<Rightarrow> if rc = BC_ERR_NOT_FOUND then BC_OK else rc | _ \<Rightarrow> BC_OK)"

lemma inbound_same:
  assumes "same_but_stats bus (bus'\<lparr>bus_reasm := bus_reasm bus\<rparr>)"
  shows "inbound_events config names st dt bus' msg from w = inbound_events config names st dt bus msg from w"
    and "inbound_status config names st dt bus' msg from w = inbound_status config names st dt bus msg from w"
proof -
  have b: "bus_subscriptions bus' = bus_subscriptions bus" "bus_node_id bus' = bus_node_id bus"
    "bus_require_route bus' = bus_require_route bus" "bus_bridge_broadcast bus' = bus_bridge_broadcast bus"
    using assms by (simp_all add: same_but_stats_fields)
  have l: "local_clients (- 1) msg bus' = local_clients (- 1) msg bus" "for_here bus' msg = for_here bus msg"
    by (simp_all add: local_clients_def recipients_def for_here_def b)
  have f: "inbound_forward config names st dt bus' msg from w = inbound_forward config names st dt bus msg from w"
    by (simp add: inbound_forward_def passed_on_def local_events_def b l split: sum.split)
  show s: "inbound_status config names st dt bus' msg from w = inbound_status config names st dt bus msg from w"
    by (simp add: inbound_status_def f l b)
  show "inbound_events config names st dt bus' msg from w = inbound_events config names st dt bus msg from w"
    unfolding inbound_events_def inbound_ack_def local_events_def f s l b by (rule refl)
qed

lemma handle_inbound_complete:
  assumes h: "bc_message_bus_handle_inbound env msg from (bus, w) = Some (rc, bus', w')"
    and m: "inbound_message bus msg = Some m"
  shows "\<exists>bus1. inbound_complete env m from (bus1, w) = (rc, bus', w') \<and>
    same_but_stats bus (bus1\<lparr>bus_reasm := bus_reasm bus\<rparr>) \<and>
    (bus_reasm bus1 = bus_reasm bus \<or> (\<exists>res. bc_reasm_feed (bus_reasm bus) msg = Some (bus_reasm bus1, res)))"
  using assms
  by (auto simp: bc_message_bus_handle_inbound_def inbound_message_def Let_def same_but_stats_fields
      split: if_split_asm option.split_asm prod.split_asm sum.split_asm)

lemma handle_inbound_incomplete:
  assumes h: "bc_message_bus_handle_inbound env msg from (bus, w) = Some (rc, bus', w')"
    and m: "inbound_message bus msg = None"
  shows "w' = w \<and> same_but_stats bus (bus'\<lparr>bus_reasm := bus_reasm bus\<rparr>) \<and>
    (bus_reasm bus' = bus_reasm bus \<or> (\<exists>res. bc_reasm_feed (bus_reasm bus) msg = Some (bus_reasm bus', res)))"
  using assms
  by (auto simp: bc_message_bus_handle_inbound_def inbound_message_def Let_def same_but_stats_fields
      split: if_split_asm option.split_asm prod.split_asm sum.split_asm)

lemma handle_inbound_silent:
  assumes h: "bc_message_bus_handle_inbound env msg from (bus, w) = Some (rc, bus', w')"
    and m: "inbound_message bus msg = None"
  shows "rc = silent_status bus msg"
  using assms
  by (auto simp: bc_message_bus_handle_inbound_def inbound_message_def silent_status_def Let_def
      split: if_split_asm option.split_asm prod.split_asm sum.split_asm)

lemma inbound_trace_total:
  assumes wf: "reasm_wf (bus_reasm bus)"
  shows "\<exists>rc bus' es.
    bc_message_bus_handle_inbound (log_env config names st dt) msg from (bus, w) = Some (rc, bus', w @ es) \<and>
    (case inbound_message bus msg of
       None \<Rightarrow> rc = silent_status bus msg \<and> es = []
     | Some m \<Rightarrow> rc = inbound_status config names st dt bus m from w \<and> es = inbound_events config names st dt bus m from w) \<and>
    reasm_wf (bus_reasm bus') \<and> bus_subscriptions bus' = bus_subscriptions bus \<and> bus_node_id bus' = bus_node_id bus"
proof -
  let ?h = "bc_message_bus_handle_inbound (log_env config names st dt) msg from (bus, w)"
  have "?h \<noteq> None"
    using reasm_feed_defined [OF wf, of msg]
    by (simp add: bc_message_bus_handle_inbound_def Let_def del: not_None_eq split: option.split sum.split prod.split)
  then obtain y where "?h = Some y" by auto
  then obtain rc bus' w' where h: "?h = Some (rc, bus', w')" by (cases y) auto
  have fed: "reasm_wf r" if "bc_reasm_feed (bus_reasm bus) msg = Some (r, res)" for r res
    using reasm_feed_safe_raw [OF wf that] .
  show ?thesis
  proof (cases "inbound_message bus msg")
    case None
    then show ?thesis
      using handle_inbound_incomplete [OF h None] handle_inbound_silent [OF h None] h wf fed
      by (auto simp: same_but_stats_fields)
  next
    case (Some m)
    from handle_inbound_complete [OF h Some] obtain bus1 where
      c: "inbound_complete (log_env config names st dt) m from (bus1, w) = (rc, bus', w')"
      "same_but_stats bus (bus1\<lparr>bus_reasm := bus_reasm bus\<rparr>)"
      "bus_reasm bus1 = bus_reasm bus \<or> (\<exists>res. bc_reasm_feed (bus_reasm bus) msg = Some (bus_reasm bus1, res))"
      by blast
    have e: "rc = inbound_status config names st dt bus m from w" "same_but_stats bus1 bus'"
      "w' = w @ inbound_events config names st dt bus m from w"
      using inbound_complete_trace [of config names st dt m "from" bus1 w] c(1) inbound_same [OF c(2)] by auto
    moreover have "reasm_wf (bus_reasm bus')"
      using c(3) e(2) wf fed by (auto simp: same_but_stats_fields)
    ultimately show ?thesis
      using h c(2) Some by (auto simp: same_but_stats_fields)
  qed
qed

text \<open>
  C7. What an inbound frame does to the outside and what the call returns, exactly, whatever the clients
  and transports answer. An acknowledgement, and a fragment that completes no message, does nothing. Otherwise
  the message is handed once to every client whose pattern accepts it, if it is for this node or for
  all. Its frames are then passed on over the routed transport, never the one it came from (no echo): always if
  it is for another node, and if it is for all, bridging is on and no client refused it. Last, if it was for this node
  or for all, of quality 1 and met no error, an acknowledgement is sent on the transport it came from. A refused
  delivery is reported as \<open>BC_ERR_NOMEM\<close>, a failure to pass it on when it was for another node or a route is required.
  The reassembly never leaves its arrays, and its invariant holds again afterwards.
\<close>

theorem inbound_trace:
  assumes wf: "reasm_wf (bus_reasm bus)"
  shows "\<exists>rc bus' es.
    bc_message_bus_handle_inbound (log_env config names st dt) msg from (bus, w) = Some (rc, bus', w @ es) \<and>
    (case inbound_message bus msg of
       None \<Rightarrow> rc = silent_status bus msg \<and> es = []
     | Some m \<Rightarrow> rc = inbound_status config names st dt bus m from w \<and> es = inbound_events config names st dt bus m from w) \<and>
    reasm_wf (bus_reasm bus') \<and> bus_subscriptions bus' = bus_subscriptions bus \<and> bus_node_id bus' = bus_node_id bus"
  using assms by (rule inbound_trace_total)

lemma inbound_trace_witness:
  "\<exists>rc bus'. bc_message_bus_handle_inbound
      (log_env bc_config_load_defaults [str ''udp0''] (\<lambda>_ _ _. BC_OK) (\<lambda>_ _ _. BC_OK))
      sample_broadcast (Some 3) (sample_bus, []) =
    Some (BC_OK, bus', [Delivered 4 (deliver_frame sample_broadcast), Delivered 5 (deliver_frame sample_broadcast),
      Sent 0 (wire sample_broadcast), Sent 3 (wire (ack_message 1 sample_broadcast))])"
proof -
  have bus: "bus_node_id sample_bus = 1" "bus_bridge_broadcast sample_bus" "\<not> bus_require_route sample_bus"
    "bus_reasm sample_bus = bc_reasm_init"
    by (simp_all add: sample_bus_def bc_message_bus_subscribe_def bc_message_bus_init_def)
  have a: "encodable (ack_message 1 sample_broadcast)"
    using sample_events(9) by (simp add: encodable_def ack_message_def empty_message_def snprintf_s_zeros canon_simps bc_limits)
  show ?thesis
    using inbound_trace [of sample_bus bc_config_load_defaults "[str ''udp0'']" "\<lambda>_ _ _. BC_OK"
        "\<lambda>_ _ _. BC_OK" sample_broadcast "Some 3" "[]"] reasm_wf_init a
    by (auto simp: bus sample_events inbound_message_def inbound_status_def inbound_events_def inbound_ack_def
        inbound_forward_def passed_on_def for_here_def local_events_def sent_over_def BC_QOS_AT_LEAST_ONCE_def)
qed

end
