(* ===== verification/Framing.thy ===== *)
theory Framing
  imports Prelude
begin

text \<open>
  Frames in a byte stream. The daemon's receive loops (network frames in \<^verbatim>\<open>main.c\<close>, client
  messages in \<^verbatim>\<open>client_manager.c\<close>) have one shape: look at the head of the buffer, wait for
  more, give up, or handle one frame and go on. \<open>consume\<close> is that shape; the locale states what
  the look at the head promises, and that makes the loop independent of how the stream was
  cut into reads.
\<close>

datatype verdict = More | Bad bc_status | Frame nat

function consume ::
  "(byte list \<Rightarrow> verdict) \<Rightarrow> (byte list \<Rightarrow> 's \<Rightarrow> (bc_status \<times> 's) option) \<Rightarrow> byte list \<Rightarrow> 's \<Rightarrow>
     (bc_status \<times> byte list \<times> 's) option" where
  "consume look handle rx s =
     (case look rx of
        More \<Rightarrow> Some (BC_OK, rx, s)
      | Bad rc \<Rightarrow> Some (rc, rx, s)
      | Frame n \<Rightarrow>
          if n = 0 \<or> length rx < n then Some (BC_ERR_INVALID, rx, s)
          else (case handle (take n rx) s of
              None \<Rightarrow> None
            | Some (rc, s') \<Rightarrow>
                if rc \<noteq> BC_OK then Some (rc, rx, s') else consume look handle (drop n rx) s'))"
  by pat_completeness auto
termination by (relation "measure (\<lambda>(_, _, rx, _). length rx)") auto

declare consume.simps [simp del]

text \<open>The handled frames alone, one after the other.\<close>

fun handle_all :: "(byte list \<Rightarrow> 's \<Rightarrow> (bc_status \<times> 's) option) \<Rightarrow> byte list list \<Rightarrow> 's \<Rightarrow> (bc_status \<times> 's) option" where
  "handle_all handle [] s = Some (BC_OK, s)"
| "handle_all handle (f # fs) s = (case handle f s of
      None \<Rightarrow> None
    | Some (rc, s') \<Rightarrow> if rc \<noteq> BC_OK then Some (rc, s') else handle_all handle fs s')"

locale framing =
  fixes look :: "byte list \<Rightarrow> verdict"
  assumes frame_fits: "look xs = Frame n \<Longrightarrow> 0 < n \<and> n \<le> length xs"
    and frame_stable: "look xs = Frame n \<Longrightarrow> look (xs @ ys) = Frame n"
    and bad_stable: "look xs = Bad rc \<Longrightarrow> look (xs @ ys) = Bad rc"
    and bad_status: "look xs = Bad rc \<Longrightarrow> rc \<noteq> BC_OK"
begin

lemma consume_cases:
  assumes "consume look handle rx s = r"
  obtains (more) "look rx = More" "r = Some (BC_OK, rx, s)"
    | (bad) rc where "look rx = Bad rc" "rc \<noteq> BC_OK" "r = Some (rc, rx, s)"
    | (stuck) n where "look rx = Frame n" "handle (take n rx) s = None" "r = None"
    | (stop) n rc s' where "look rx = Frame n" "handle (take n rx) s = Some (rc, s')" "rc \<noteq> BC_OK"
        "r = Some (rc, rx, s')"
    | (step) n s' where "look rx = Frame n" "0 < n" "n \<le> length rx" "handle (take n rx) s = Some (BC_OK, s')"
        "r = consume look handle (drop n rx) s'"
proof (cases "look rx")
  case More
  then show ?thesis using assms more by (subst (asm) consume.simps) simp
next
  case (Bad rc)
  then show ?thesis using assms bad bad_status by (subst (asm) consume.simps) simp
next
  case (Frame n)
  note fit = frame_fits [OF Frame]
  show ?thesis
  proof (cases "handle (take n rx) s")
    case None
    then show ?thesis using assms Frame fit stuck by (subst (asm) consume.simps) simp
  next
    case (Some p)
    obtain rc s' where p: "p = (rc, s')" by force
    show ?thesis
    proof (cases "rc = BC_OK")
      case True
      then show ?thesis using assms Frame fit Some p step by (subst (asm) consume.simps) simp
    next
      case False
      then show ?thesis using assms Frame fit Some p stop by (subst (asm) consume.simps) simp
    qed
  qed
qed

lemma consume_step:
  assumes "look rx = Frame n" "handle (take n rx) s = Some (BC_OK, s')"
  shows "consume look handle rx s = consume look handle (drop n rx) s'"
  using assms frame_fits [OF assms(1)] by (subst consume.simps) simp

text \<open>Reading on: if the loop came to rest on the first part, it goes on where it was.\<close>

lemma consume_append:
  "consume look handle a s = Some (BC_OK, r, s') \<Longrightarrow>
     consume look handle (a @ b) s = consume look handle (r @ b) s'"
proof (induction "length a" arbitrary: a s rule: less_induct)
  case less
  from less.prems show ?case
  proof (cases rule: consume_cases)
    case (step n s1)
    have "consume look handle (a @ b) s = consume look handle (drop n a @ b) s1"
      using consume_step [OF frame_stable [OF step(1)], of handle b s s1] step(3,4) by simp
    also have "\<dots> = consume look handle (r @ b) s'"
      using less.hyps [of "drop n a" s1] step by simp
    finally show ?thesis .
  qed simp_all
qed

text \<open>A stream without an error has none in a first part of it.\<close>

lemma consume_prefix:
  "consume look handle (a @ b) s = Some (BC_OK, r, s') \<Longrightarrow> \<exists>r1 s1. consume look handle a s = Some (BC_OK, r1, s1)"
proof (induction "length a" arbitrary: a s rule: less_induct)
  case less
  from refl [of "consume look handle a s"] show ?case
  proof (cases rule: consume_cases)
    case more
    then show ?thesis by simp
  next
    case (bad rc)
    then show ?thesis
      using less.prems bad_stable [OF bad(1), of b] by (simp add: consume.simps [of look handle "a @ b" s])
  next
    case (stuck n)
    then show ?thesis
      using less.prems frame_stable [OF stuck(1), of b] frame_fits [OF stuck(1)]
      by (simp add: consume.simps [of look handle "a @ b" s])
  next
    case (stop n rc s1)
    then show ?thesis
      using less.prems frame_stable [OF stop(1), of b] frame_fits [OF stop(1)]
      by (simp add: consume.simps [of look handle "a @ b" s])
  next
    case (step n s1)
    have "consume look handle (a @ b) s = consume look handle (drop n a @ b) s1"
      using consume_step [OF frame_stable [OF step(1)], of handle b s s1] step(3,4) by simp
    then show ?thesis
      using less.hyps [of "drop n a" s1] step less.prems by simp
  qed
qed

lemma consume_rest:
  "consume look handle a s = Some (BC_OK, r, s') \<Longrightarrow> look r = More \<and> (\<exists>p. a = p @ r)"
proof (induction "length a" arbitrary: a s rule: less_induct)
  case less
  from less.prems show ?case
  proof (cases rule: consume_cases)
    case (step n s1)
    then have "look r = More \<and> (\<exists>p. drop n a = p @ r)"
      using less.hyps [of "drop n a" s1] by simp
    then show ?thesis by (metis append_assoc append_take_drop_id)
  qed auto
qed

text \<open>A sequence of whole frames is handled frame by frame and leaves nothing behind.\<close>

lemma consume_frames:
  "\<forall>f \<in> set fs. look f = Frame (length f) \<Longrightarrow> look [] = More \<Longrightarrow>
     handle_all handle fs s = Some (BC_OK, s') \<Longrightarrow>
     consume look handle (concat fs) s = Some (BC_OK, [], s')"
proof (induction fs arbitrary: s)
  case Nil
  then show ?case by (subst consume.simps) simp
next
  case (Cons f fs)
  obtain s1 where h: "handle f s = Some (BC_OK, s1)" "handle_all handle fs s1 = Some (BC_OK, s')"
    using Cons.prems(3) by (auto split: option.splits if_splits)
  have "look (concat (f # fs)) = Frame (length f)"
    using Cons.prems(1) frame_stable by simp
  from consume_step [OF this, of handle s s1] h(1)
  have "consume look handle (concat (f # fs)) s = consume look handle (concat fs) s1" by simp
  then show ?case using Cons h(2) by simp
qed

end

text \<open>A stream fed in reads: each is appended to the rest of the buffer.\<close>

fun feed :: "(byte list \<Rightarrow> 's \<Rightarrow> (bc_status \<times> byte list \<times> 's) option) \<Rightarrow> byte list list \<Rightarrow> byte list \<Rightarrow> 's \<Rightarrow>
     (bc_status \<times> byte list \<times> 's) option" where
  "feed loop [] rx s = Some (BC_OK, rx, s)"
| "feed loop (c # cs) rx s = (case loop (rx @ c) s of
      None \<Rightarrow> None
    | Some (rc, rx', s') \<Rightarrow> if rc \<noteq> BC_OK then Some (rc, rx', s') else feed loop cs rx' s')"

lemma feed_ConsD:
  "feed loop (c # cs) rx s = Some (BC_OK, rx', s') \<Longrightarrow>
     \<exists>rx1 s1. loop (rx @ c) s = Some (BC_OK, rx1, s1) \<and> feed loop cs rx1 s1 = Some (BC_OK, rx', s')"
  by (auto split: option.splits if_splits)

lemma feed_appendD:
  "feed loop (a @ b) rx s = Some (BC_OK, rx', s') \<Longrightarrow>
     \<exists>rx1 s1. feed loop a rx s = Some (BC_OK, rx1, s1) \<and> feed loop b rx1 s1 = Some (BC_OK, rx', s')"
proof (induction a arbitrary: rx s)
  case Nil
  then show ?case by simp
next
  case (Cons c a)
  have f: "feed loop (c # (a @ b)) rx s = Some (BC_OK, rx', s')" using Cons.prems by simp
  from feed_ConsD [OF f] obtain rx1 s1 where l: "loop (rx @ c) s = Some (BC_OK, rx1, s1)"
    "feed loop (a @ b) rx1 s1 = Some (BC_OK, rx', s')" by blast
  show ?case using Cons.IH [OF l(2)] l(1) by simp
qed

context framing
begin

text \<open>However a stream that can be consumed is cut into reads, the result is the same.\<close>

lemma feed_concat:
  "look rx = More \<Longrightarrow> consume look handle (rx @ concat cs) s = Some (BC_OK, r, s') \<Longrightarrow>
     feed (consume look handle) cs rx s = Some (BC_OK, r, s')"
proof (induction cs arbitrary: rx s)
  case Nil
  then show ?case by (simp add: consume.simps [of look handle rx s])
next
  case (Cons c cs)
  have e: "consume look handle ((rx @ c) @ concat cs) s = Some (BC_OK, r, s')"
    using Cons.prems(2) by simp
  from consume_prefix [OF e] obtain r1 s1 where p: "consume look handle (rx @ c) s = Some (BC_OK, r1, s1)"
    by blast
  have "consume look handle (r1 @ concat cs) s1 = Some (BC_OK, r, s')"
    using consume_append [OF p, of "concat cs"] e by simp
  then show ?case using Cons.IH p consume_rest [OF p] by simp
qed

end

end
