(* ===== verification/Main_Loop.thy ===== *)
theory Main_Loop
  imports Bus_Traces Framing
begin

text \<open>
  The receive path of \<^verbatim>\<open>src/daemon/main.c\<close>: the buffer of a transport, cutting frames out of
  it and handing the messages to the bus. The results of the successive \<^verbatim>\<open>recv\<close> calls (or
  \<^verbatim>\<open>read\<close> calls, for a transport without that operation) of one event are a list: the bytes
  received, or \<open>None\<close> for every result on which the loop returns; the end of the list is
  \<open>None\<close> too. Interrupted reads are retried by the code and do not appear.
\<close>

definition RX_BUF_SIZE :: nat where "RX_BUF_SIZE = BC_MAX_FRAME_LEN * 2"

type_synonym 'w bus_state = "bc_message_bus \<times> 'w"

lemma frame_length_pos: "bc_protocol_frame_length rx z = (BC_OK, n) \<Longrightarrow> FRAME_HEADER_SIZE < n"
  by (auto simp: bc_protocol_frame_length_def Let_def unat_gt_0 split: if_splits)

text \<open>\<open>None\<close>: the reassembly accessed an array out of bounds.\<close>

function process_transport_frames ::
  "'w bus_env \<Rightarrow> nat \<Rightarrow> byte list \<Rightarrow> 'w bus_state \<Rightarrow> (bc_status \<times> byte list \<times> 'w bus_state) option" where
  "process_transport_frames env transport rx s =
     (case bc_protocol_frame_length rx 0 of (rc, frame_len) \<Rightarrow>
        if rc = BC_ERR_NOT_FOUND then Some (BC_OK, rx, s)
        else if rc \<noteq> BC_OK \<or> frame_len > length rx then Some (BC_ERR_INVALID, rx, s)
        else case bc_protocol_decode (take frame_len rx) of
            Inl _ \<Rightarrow> Some (BC_ERR_INVALID, rx, s)
          | Inr msg \<Rightarrow>
              (case bc_message_bus_handle_inbound env msg (Some transport) s of
                 None \<Rightarrow> None
               | Some (_, s') \<Rightarrow> process_transport_frames env transport (drop frame_len rx) s'))"
  by pat_completeness auto
termination
proof (relation "measure (\<lambda>(_, _, rx, _). length rx)", goal_cases)
  case 1
  then show ?case by simp
next
  case (2 env transport rx s x rc)
  then show ?case using frame_length_pos [of rx 0 rc] by (cases rx) auto
qed

declare process_transport_frames.simps [simp del]

fun recv_loop ::
  "'w bus_env \<Rightarrow> nat \<Rightarrow> byte list option list \<Rightarrow> byte list \<Rightarrow> 'w bus_state \<Rightarrow> (byte list \<times> 'w bus_state) option" where
  "recv_loop env transport [] rx s = (if length rx \<ge> RX_BUF_SIZE then Some ([], s) else Some (rx, s))"
| "recv_loop env transport (got # results) rx s =
     (if length rx \<ge> RX_BUF_SIZE then Some ([], s)
      else case got of
          None \<Rightarrow> Some (rx, s)
        | Some data \<Rightarrow>
            if length data = 0 then Some (rx, s)
            else if length data > RX_BUF_SIZE - length rx then None
            else (case process_transport_frames env transport (rx @ data) s of
                None \<Rightarrow> None
              | Some (rc, rx', s') \<Rightarrow>
                  if rc \<noteq> BC_OK then Some ([], s') else recv_loop env transport results rx' s'))"

section \<open>The frames of the network protocol\<close>

definition net_look :: "byte list \<Rightarrow> verdict" where
  "net_look rx = (case bc_protocol_frame_length rx 0 of
     (BC_OK, n) \<Rightarrow> Frame n | (BC_ERR_NOT_FOUND, _) \<Rightarrow> More | _ \<Rightarrow> Bad BC_ERR_INVALID)"

definition net_handle :: "'w bus_env \<Rightarrow> nat \<Rightarrow> byte list \<Rightarrow> 'w bus_state \<Rightarrow> (bc_status \<times> 'w bus_state) option" where
  "net_handle env transport frame s = (case bc_protocol_decode frame of
     Inl _ \<Rightarrow> Some (BC_ERR_INVALID, s)
   | Inr msg \<Rightarrow> map_option (\<lambda>(_, s'). (BC_OK, s')) (bc_message_bus_handle_inbound env msg (Some transport) s))"

lemma frame_length_result:
  "bc_protocol_frame_length rx z = (rc, n) \<Longrightarrow>
     (rc = BC_OK \<or> rc = BC_ERR_NOT_FOUND \<or> rc = BC_ERR_INVALID) \<and> (rc = BC_OK \<longrightarrow> n \<le> length rx)"
  by (auto simp: bc_protocol_frame_length_def Let_def split: if_splits)

lemma frame_length_append:
  "bc_protocol_frame_length a 0 = (rc, n) \<Longrightarrow> rc \<noteq> BC_ERR_NOT_FOUND \<Longrightarrow>
     bc_protocol_frame_length (a @ b) 0 = (rc, n)"
  by (auto simp: bc_protocol_frame_length_def Let_def split: if_split_asm)

interpretation net: framing net_look
proof unfold_locales
  fix xs ys :: "byte list" and n rc
  obtain rc1 n1 where f: "bc_protocol_frame_length xs 0 = (rc1, n1)" by force
  note r = frame_length_result [OF f]
  show "0 < n \<and> n \<le> length xs" if "net_look xs = Frame n"
    using that f r frame_length_pos [of xs 0 n1] by (auto simp: net_look_def split: bc_status.splits)
  show "net_look (xs @ ys) = Frame n" if "net_look xs = Frame n"
    using that f frame_length_append [OF f, of ys] by (auto simp: net_look_def split: bc_status.splits)
  show "net_look (xs @ ys) = Bad rc" if "net_look xs = Bad rc"
    using that f frame_length_append [OF f, of ys] by (auto simp: net_look_def split: bc_status.splits)
  show "rc \<noteq> BC_OK" if "net_look xs = Bad rc"
    using that f by (auto simp: net_look_def split: bc_status.splits)
qed

lemma process_is_consume:
  "process_transport_frames env t rx s = consume net_look (net_handle env t) rx s"
proof (induction "length rx" arbitrary: rx s rule: less_induct)
  case less
  obtain rc n where f: "bc_protocol_frame_length rx 0 = (rc, n)" by force
  note r = frame_length_result [OF f]
  show ?case
  proof (cases "rc = BC_OK")
    case False
    then show ?thesis
      using r f by (subst process_transport_frames.simps, subst consume.simps) (auto simp: net_look_def)
  next
    case True
    have n: "0 < n" "n \<le> length rx" using r True frame_length_pos [of rx 0 n] f by auto
    have l: "net_look rx = Frame n" using f True by (simp add: net_look_def)
    have IH: "process_transport_frames env t (drop n rx) s' = consume net_look (net_handle env t) (drop n rx) s'"
      for s'
      using less [of "drop n rx" s'] n by simp
    show ?thesis
      using n
      by (subst process_transport_frames.simps, subst consume.simps)
        (simp add: f True l net_handle_def IH split: sum.split option.split prod.split)
  qed
qed

lemma look_wire: "encodable m \<Longrightarrow> net_look (wire m) = Frame (length (wire m))"
  using frame_length_wire [of m "length (wire m)" "[]" 0]
  by (simp add: net_look_def length_wire body_offset_def)

text \<open>The inbound messages of a transport, one after the other.\<close>

fun inbound_all :: "'w bus_env \<Rightarrow> nat \<Rightarrow> bc_message list \<Rightarrow> 'w bus_state \<Rightarrow> 'w bus_state option" where
  "inbound_all env t [] s = Some s"
| "inbound_all env t (m # ms) s = (case bc_message_bus_handle_inbound env m (Some t) s of
     None \<Rightarrow> None | Some (_, s') \<Rightarrow> inbound_all env t ms s')"

lemma handle_wires:
  "\<forall>m \<in> set ms. encodable m \<Longrightarrow> inbound_all env t (map canon_message ms) s = Some s' \<Longrightarrow>
     handle_all (net_handle env t) (map wire ms) s = Some (BC_OK, s')"
proof (induction ms arbitrary: s)
  case Nil
  then show ?case by simp
next
  case (Cons m ms)
  then obtain rc s1 where h: "bc_message_bus_handle_inbound env (canon_message m) (Some t) s = Some (rc, s1)"
    "inbound_all env t (map canon_message ms) s1 = Some s'"
    by (auto split: option.splits)
  have "net_handle env t (wire m) s = Some (BC_OK, s1)"
    using decode_wire [of m "[]"] Cons.prems(1) h(1) by (simp add: net_handle_def)
  then show ?case using Cons h(2) by simp
qed

section \<open>The buffer\<close>

lemma look_more_short: "net_look rx = More \<Longrightarrow> length rx < BC_MAX_FRAME_LEN"
  by (auto simp: net_look_def bc_protocol_frame_length_def Let_def FRAME_HEADER_SIZE_def BC_MAX_FRAME_LEN_def
      split: if_splits)

text \<open>
  What a read may return. The code asks for as many bytes as its buffer has room for behind the part
  of a frame that is still there, so a read returns at least one byte and no more than these.
\<close>

function unparsed :: "byte list \<Rightarrow> byte list" where
  "unparsed rx = (case net_look rx of
     Frame n \<Rightarrow> if n = 0 \<or> length rx < n then rx else unparsed (drop n rx) | _ \<Rightarrow> rx)"
  by pat_completeness auto
termination by (relation "measure length") auto

declare unparsed.simps [simp del]

fun fits_buffer :: "byte list \<Rightarrow> byte list list \<Rightarrow> bool" where
  "fits_buffer rx [] \<longleftrightarrow> True"
| "fits_buffer rx (c # cs) \<longleftrightarrow>
     c \<noteq> [] \<and> length c \<le> RX_BUF_SIZE - length rx \<and> fits_buffer (unparsed (rx @ c)) cs"

lemma consume_unparsed:
  "consume net_look handle rx s = Some (BC_OK, r, s') \<Longrightarrow> r = unparsed rx"
proof (induction "length rx" arbitrary: rx s rule: less_induct)
  case less
  from less.prems show ?case
  proof (cases rule: net.consume_cases)
    case (step n s1)
    then show ?thesis using less.hyps [of "drop n rx" s1] by (subst unparsed.simps) simp
  qed (subst unparsed.simps, simp)+
qed

lemma unparsed_length: "length (unparsed rx) \<le> length rx"
proof (induction rx rule: unparsed.induct)
  case (1 rx)
  then show ?case
    by (cases "net_look rx") (use 1 in \<open>auto simp: unparsed.simps [of rx] intro: le_trans\<close>)
qed

lemma recv_loop_feed:
  "net_look rx = More \<Longrightarrow> fits_buffer rx cs \<Longrightarrow>
     feed (process_transport_frames env t) cs rx s = Some (BC_OK, rx', s') \<Longrightarrow>
     recv_loop env t (map Some cs) rx s = Some (rx', s') \<and> net_look rx' = More"
proof (induction cs arbitrary: rx s)
  case Nil
  then show ?case using look_more_short [of rx] by (simp add: RX_BUF_SIZE_def)
next
  case (Cons c cs)
  have l: "length rx < BC_MAX_FRAME_LEN" using look_more_short Cons.prems(1) by blast
  obtain rx1 s1 where p: "process_transport_frames env t (rx @ c) s = Some (BC_OK, rx1, s1)"
    "feed (process_transport_frames env t) cs rx1 s1 = Some (BC_OK, rx', s')"
    using feed_ConsD [OF Cons.prems(3)] by blast
  note k = p(1) [unfolded process_is_consume]
  have "recv_loop env t (map Some cs) rx1 s1 = Some (rx', s') \<and> net_look rx' = More"
    using Cons.IH [OF _ _ p(2)] Cons.prems(2) net.consume_rest [OF k] consume_unparsed [OF k] by simp
  then show ?case
    using Cons.prems(2) p(1) l by (auto simp: RX_BUF_SIZE_def)
qed

lemma feed_fits:
  "fits_buffer rx (a @ b) \<Longrightarrow> feed (process_transport_frames env t) a rx s = Some (BC_OK, rx', s') \<Longrightarrow>
     fits_buffer rx a \<and> fits_buffer rx' b"
proof (induction a arbitrary: rx s)
  case Nil
  then show ?case by simp
next
  case (Cons c a)
  obtain rx1 s1 where p: "process_transport_frames env t (rx @ c) s = Some (BC_OK, rx1, s1)"
    "feed (process_transport_frames env t) a rx1 s1 = Some (BC_OK, rx', s')"
    using feed_ConsD [OF Cons.prems(2)] by blast
  then show ?case
    using Cons.IH [OF _ p(2)] Cons.prems(1) consume_unparsed [OF p(1) [unfolded process_is_consume]] by simp
qed

text \<open>The receive events of a transport, one after the other, over one buffer.\<close>

fun recv_events ::
  "'w bus_env \<Rightarrow> nat \<Rightarrow> byte list option list list \<Rightarrow> byte list \<Rightarrow> 'w bus_state \<Rightarrow> (byte list \<times> 'w bus_state) option" where
  "recv_events env t [] rx s = Some (rx, s)"
| "recv_events env t (rs # rss) rx s = (case recv_loop env t rs rx s of
     None \<Rightarrow> None | Some (rx', s') \<Rightarrow> recv_events env t rss rx' s')"

lemma recv_events_feed:
  "net_look rx = More \<Longrightarrow> fits_buffer rx (concat css) \<Longrightarrow>
     feed (process_transport_frames env t) (concat css) rx s = Some (BC_OK, rx', s') \<Longrightarrow>
     recv_events env t (map (map Some) css) rx s = Some (rx', s')"
proof (induction css arbitrary: rx s)
  case Nil
  then show ?case by simp
next
  case (Cons cs css)
  then obtain rx1 s1 where f: "feed (process_transport_frames env t) cs rx s = Some (BC_OK, rx1, s1)"
    "feed (process_transport_frames env t) (concat css) rx1 s1 = Some (BC_OK, rx', s')"
    using feed_appendD [of _ cs "concat css"] by (metis concat.simps(2))
  have "fits_buffer rx cs \<and> fits_buffer rx1 (concat css)"
    using feed_fits [OF _ f(1), of "concat css"] Cons.prems(2) by simp
  then show ?case using recv_loop_feed [OF Cons.prems(1) _ f(1)] Cons.IH f(2) by simp
qed

lemma stream_delivery_core:
  assumes enc: "\<forall>m \<in> set ms. bc_protocol_encode m = Inr (wire m)"
    and cut: "concat (concat css) = concat (map wire ms)"
    and reads: "fits_buffer [] (concat css)"
    and bus: "inbound_all env t (map canon_message ms) s = Some s'"
  shows "recv_events env t (map (map Some) css) [] s = Some ([], s')"
proof -
  have e: "\<forall>m \<in> set ms. encodable m" using enc by (auto simp: encode_eq split: if_splits)
  have empty: "net_look [] = More"
    by (simp add: net_look_def bc_protocol_frame_length_def FRAME_HEADER_SIZE_def)
  have "consume net_look (net_handle env t) (concat (map wire ms)) s = Some (BC_OK, [], s')"
    using net.consume_frames [OF _ empty handle_wires [OF e bus]] look_wire e by simp
  then have "feed (process_transport_frames env t) (concat css) [] s = Some (BC_OK, [], s')"
    using net.feed_concat [OF empty, of "net_handle env t" "concat css" s "[]" s'] cut
    unfolding process_is_consume [abs_def] by simp
  then show ?thesis using recv_events_feed [OF empty reads] by blast
qed

text \<open>
  Frames survive the byte stream: whatever messages a peer encodes, and however the
  transport cuts the stream of their frames into reads and the reads into events (no read
  returns more than the code asked for), the daemon hands exactly these messages to the message bus,
  once each and in order, and its receive buffer is empty at the end; it never overflows and
  is never thrown away on the way.
\<close>

theorem stream_delivery:
  assumes enc: "\<forall>m \<in> set ms. bc_protocol_encode m = Inr (wire m)"
    and cut: "concat (concat css) = concat (map wire ms)"
    and reads: "fits_buffer [] (concat css)"
    and bus: "inbound_all env t (map canon_message ms) s = Some s'"
  shows "recv_events env t (map (map Some) css) [] s = Some ([], s')"
  using assms by (rule stream_delivery_core)

lemma stream_delivery_witness:
  "\<exists>s'. inbound_all (log_env bc_config_load_defaults [] (\<lambda>_ _ _. BC_OK) (\<lambda>_ _ _. BC_OK)) 0
      [canon_message sample_message] (bc_message_bus_init, []) = Some s' \<and>
    recv_events (log_env bc_config_load_defaults [] (\<lambda>_ _ _. BC_OK) (\<lambda>_ _ _. BC_OK)) 0
      [[Some (take 20 (wire sample_message))], [Some (drop 20 (wire sample_message))]] []
      (bc_message_bus_init, []) = Some ([], s')"
proof -
  let ?env = "log_env bc_config_load_defaults [] (\<lambda>_ _ _. BC_OK) (\<lambda>_ _ _. BC_OK)"
  obtain rc bus' w' where h: "bc_message_bus_handle_inbound ?env (canon_message sample_message) (Some 0)
      (bc_message_bus_init, []) = Some (rc, bus', w')"
    using inbound_trace_total [of bc_message_bus_init] reasm_wf_init by (fastforce simp: bc_message_bus_init_def)
  have l: "length (wire sample_message) = 44"
    by (simp add: length_wire body_offset_def FRAME_HEADER_SIZE_def sample_message_def cstring_simps str_def)
  have i: "inbound_all ?env 0 (map canon_message [sample_message]) (bc_message_bus_init, []) = Some (bus', w')"
    using h by simp
  have u: "fits_buffer [] (concat [[take 20 (wire sample_message)], [drop 20 (wire sample_message)]])"
    using unparsed_length [of "take 20 (wire sample_message)"] l
    by (auto simp: RX_BUF_SIZE_def BC_MAX_FRAME_LEN_def)
  have "recv_events ?env 0 (map (map Some) [[take 20 (wire sample_message)], [drop 20 (wire sample_message)]]) []
      (bc_message_bus_init, []) = Some ([], (bus', w'))"
    by (rule stream_delivery [OF _ _ u i]) (use l encodable_sample in \<open>auto simp: encode_eq\<close>)
  then show ?thesis using i by auto
qed

end
