(* ===== verification/Shm_Ring.thy ===== *)
theory Shm_Ring
  imports Prelude
begin

text \<open>
  \<^verbatim>\<open>src/shm/bc_shm.c\<close>: the shared-memory ring that carries length-prefixed frames between a
  client and the daemon. \<open>None\<close> is a division by zero or an access outside the data area;
  both peers can write the whole mapping, so the operations are modelled for every content
  of it. Creating and mapping the memory is left to the operating system; the layout of the
  two rings and their first content are modelled. One operation is one step: the writes of
  a concurrent peer between two operations are other steps.
\<close>

definition BC_SHM_RING_SIZE :: nat where "BC_SHM_RING_SIZE = 32 * 1024 * 1024"

record bc_shm_ring =
  rg_head :: u32
  rg_tail :: u32
  rg_size :: u32
  rg_data :: "byte list"

definition init_ring :: "byte list \<Rightarrow> u32 \<Rightarrow> bc_shm_ring" where
  "init_ring data sz = \<lparr>rg_head = 0, rg_tail = 0, rg_size = sz, rg_data = data\<rparr>"

definition ring_space :: "bc_shm_ring \<Rightarrow> u32" where
  "ring_space ring = rg_size ring - (rg_head ring - rg_tail ring)"

definition ring_data :: "bc_shm_ring \<Rightarrow> u32" where
  "ring_data ring = rg_head ring - rg_tail ring"

fun ring_store :: "u32 \<Rightarrow> u32 \<Rightarrow> byte list \<Rightarrow> byte list \<Rightarrow> byte list option" where
  "ring_store sz pos data [] = Some data"
| "ring_store sz pos data (b # bs) =
     (if sz = 0 \<or> length data \<le> unat (pos mod sz) then None
      else ring_store sz (pos + 1) (data[unat (pos mod sz) := b]) bs)"

fun ring_load :: "u32 \<Rightarrow> u32 \<Rightarrow> byte list \<Rightarrow> nat \<Rightarrow> byte list option" where
  "ring_load sz pos data 0 = Some []"
| "ring_load sz pos data (Suc n) =
     (if sz = 0 \<or> length data \<le> unat (pos mod sz) then None
      else map_option (Cons (data ! unat (pos mod sz))) (ring_load sz (pos + 1) data n))"

definition bc_shm_ring_write :: "bc_shm_ring \<Rightarrow> byte list \<Rightarrow> (bc_status \<times> bc_shm_ring) option" where
  "bc_shm_ring_write ring src =
     (let len = length src in
      if len > BC_SHM_RING_SIZE - 4 then Some (BC_ERR_INVALID, ring)
      else if unat (ring_space ring) < 4 + len then Some (BC_ERR_NOMEM, ring)
      else if rg_size ring = 0 then None
      else
        let head = rg_head ring mod rg_size ring in
        (case ring_store (rg_size ring) head (rg_data ring) (to_le 4 (of_nat len :: u64)) of
           None \<Rightarrow> None
         | Some data \<Rightarrow>
             let head = (head + 4) mod rg_size ring in
             (case ring_store (rg_size ring) head data src of
                None \<Rightarrow> None
              | Some data \<Rightarrow>
                  Some (BC_OK, ring\<lparr>rg_data := data, rg_head := rg_head ring + (4 + of_nat len)\<rparr>))))"

definition bc_shm_ring_peek_len :: "bc_shm_ring \<Rightarrow> (bc_status + u32) option" where
  "bc_shm_ring_peek_len ring =
     (let avail = ring_data ring in
      if avail < 4 then Some (Inl BC_ERR_NOT_FOUND)
      else if rg_size ring = 0 then None
      else
        (case ring_load (rg_size ring) (rg_tail ring mod rg_size ring) (rg_data ring) 4 of
           None \<Rightarrow> None
         | Some bytes \<Rightarrow>
             let len = of_le bytes in
             if unat avail < 4 + unat len then Some (Inl BC_ERR_NOT_FOUND) else Some (Inr len)))"

definition bc_shm_ring_read :: "bc_shm_ring \<Rightarrow> nat \<Rightarrow> ((bc_status + byte list) \<times> bc_shm_ring) option" where
  "bc_shm_ring_read ring cap =
     (case bc_shm_ring_peek_len ring of
        None \<Rightarrow> None
      | Some (Inl rc) \<Rightarrow> Some (Inl rc, ring)
      | Some (Inr len) \<Rightarrow>
          if unat len > cap then Some (Inl BC_ERR_INVALID, ring)
          else if rg_size ring = 0 then None
          else
            (case ring_load (rg_size ring) ((rg_tail ring + 4) mod rg_size ring) (rg_data ring) (unat len) of
               None \<Rightarrow> None
             | Some data \<Rightarrow> Some (Inr data, ring\<lparr>rg_tail := rg_tail ring + (4 + len)\<rparr>)))"

text \<open>
  The two rings of a session: the first carries frames to the daemon, the second from it;
  \<open>client_view\<close> decides which of them is sent to.
\<close>

definition shm_rings :: "byte list \<Rightarrow> byte list \<Rightarrow> bc_shm_ring \<times> bc_shm_ring" where
  "shm_rings area_a area_b =
     (init_ring area_a (of_nat BC_SHM_RING_SIZE), init_ring area_b (of_nat BC_SHM_RING_SIZE))"

definition session_tx :: "bool \<Rightarrow> bc_shm_ring \<times> bc_shm_ring \<Rightarrow> bc_shm_ring" where
  "session_tx client_view rings = (if client_view then fst rings else snd rings)"

definition session_rx :: "bool \<Rightarrow> bc_shm_ring \<times> bc_shm_ring \<Rightarrow> bc_shm_ring" where
  "session_rx client_view rings = (if client_view then snd rings else fst rings)"

section \<open>A queue of frames\<close>

text \<open>
  The contract of a bounded queue of frames: \<open>rep s q\<close> says that the state holds exactly the
  frames \<open>q\<close>. A put either appends its frame or changes nothing; a get takes the oldest.
\<close>

datatype queue_op = Put "byte list" | Get nat

locale frame_queue =
  fixes rep :: "'s \<Rightarrow> byte list list \<Rightarrow> bool"
    and put :: "'s \<Rightarrow> byte list \<Rightarrow> (bc_status \<times> 's) option"
    and get :: "'s \<Rightarrow> nat \<Rightarrow> ((bc_status + byte list) \<times> 's) option"
  assumes put_rep: "rep s q \<Longrightarrow> \<exists>rc s'. put s m = Some (rc, s') \<and>
      (if rc = BC_OK then rep s' (q @ [m]) else s' = s)"
    and get_empty: "rep s [] \<Longrightarrow> get s cap = Some (Inl BC_ERR_NOT_FOUND, s)"
    and get_long: "rep s (m # q) \<Longrightarrow> cap < length m \<Longrightarrow> get s cap = Some (Inl BC_ERR_INVALID, s)"
    and get_rep: "rep s (m # q) \<Longrightarrow> length m \<le> cap \<Longrightarrow> \<exists>s'. get s cap = Some (Inr m, s') \<and> rep s' q"

text \<open>A run of puts and gets: the state, the frames accepted and the frames taken.\<close>

fun queue_run ::
  "('s \<Rightarrow> byte list \<Rightarrow> (bc_status \<times> 's) option) \<Rightarrow> ('s \<Rightarrow> nat \<Rightarrow> ((bc_status + byte list) \<times> 's) option) \<Rightarrow>
     queue_op list \<Rightarrow> 's \<Rightarrow> ('s \<times> byte list list \<times> byte list list) option" where
  "queue_run put get [] s = Some (s, [], [])"
| "queue_run put get (Put m # ops) s = (case put s m of
      None \<Rightarrow> None
    | Some (rc, s') \<Rightarrow> map_option (\<lambda>(t, acc, taken). (t, if rc = BC_OK then m # acc else acc, taken))
        (queue_run put get ops s'))"
| "queue_run put get (Get cap # ops) s = (case get s cap of
      None \<Rightarrow> None
    | Some (res, s') \<Rightarrow> map_option (\<lambda>(t, acc, taken).
        (t, acc, case res of Inl _ \<Rightarrow> taken | Inr m \<Rightarrow> m # taken)) (queue_run put get ops s'))"

context frame_queue
begin

lemma run_fifo:
  "rep s q \<Longrightarrow> \<exists>t acc taken r. queue_run put get ops s = Some (t, acc, taken) \<and> rep t r \<and> q @ acc = taken @ r"
proof (induction ops arbitrary: s q)
  case Nil
  then show ?case by auto
next
  case (Cons op ops)
  show ?case
  proof (cases op)
    case (Put m)
    from put_rep [OF Cons.prems, of m] obtain rc s' where
      p: "put s m = Some (rc, s')" "if rc = BC_OK then rep s' (q @ [m]) else s' = s" by blast
    show ?thesis
    proof (cases "rc = BC_OK")
      case True
      then obtain t acc taken r where "queue_run put get ops s' = Some (t, acc, taken)" "rep t r"
        "(q @ [m]) @ acc = taken @ r"
        using Cons.IH [of s' "q @ [m]"] p(2) by auto
      then show ?thesis using Put p(1) True by simp
    next
      case False
      then obtain t acc taken r where "queue_run put get ops s' = Some (t, acc, taken)" "rep t r"
        "q @ acc = taken @ r"
        using Cons.IH [of s q] Cons.prems p(2) by auto
      then show ?thesis using Put p(1) False by auto
    qed
  next
    case (Get cap)
    have skip: ?thesis if "get s cap = Some (Inl rc, s)" for rc
    proof -
      obtain t acc taken r where "queue_run put get ops s = Some (t, acc, taken)" "rep t r"
        "q @ acc = taken @ r"
        using Cons.IH [OF Cons.prems] by auto
      then show ?thesis using Get that by auto
    qed
    show ?thesis
    proof (cases q)
      case Nil
      then show ?thesis using skip get_empty Cons.prems by blast
    next
      case q: (Cons m q')
      show ?thesis
      proof (cases "cap < length m")
        case True
        then show ?thesis using skip get_long Cons.prems q by blast
      next
        case False
        then obtain s' where g: "get s cap = Some (Inr m, s')" "rep s' q'"
          using get_rep [of s m q' cap] Cons.prems q by auto
        then obtain t acc taken r where "queue_run put get ops s' = Some (t, acc, taken)" "rep t r"
          "q' @ acc = taken @ r"
          using Cons.IH [of s' q'] by auto
        then show ?thesis using Get g(1) q by auto
      qed
    qed
  qed
qed

end

section \<open>The bytes in the ring\<close>

definition slots :: "nat \<Rightarrow> byte list \<Rightarrow> nat \<Rightarrow> nat \<Rightarrow> byte list" where
  "slots S data p n = map (\<lambda>k. data ! ((p + k) mod S)) [0..<n]"

lemma length_slots [simp]: "length (slots S data p n) = n"
  by (simp add: slots_def)

lemma slots_split: "slots S data p (m + n) = slots S data p m @ slots S data (p + m) n"
proof -
  have "[0..<m + n] = [0..<m] @ map (\<lambda>k. m + k) [0..<n]"
    by (induction n) simp_all
  then show ?thesis by (simp add: slots_def comp_def add.assoc)
qed

lemma slots_mod: "slots S data (p mod S) n = slots S data p n"
  by (simp add: slots_def mod_add_left_eq)

lemma slots_Suc: "slots S data p (Suc n) = data ! (p mod S) # slots S data (Suc p) n"
  using slots_split [of S data p 1 n] by (simp add: slots_def)

lemma mod_bound: "0 < S \<Longrightarrow> \<not> S \<le> x mod (S :: nat)"
  by (simp add: not_le)

lemma mod_window: "k < u \<Longrightarrow> u < S \<Longrightarrow> (p + k) mod S \<noteq> (p + u) mod (S :: nat)"
proof
  assume a: "k < u" "u < S" "(p + k) mod S = (p + u) mod S"
  then have "S dvd (p + u) - (p + k)" using mod_eq_dvd_iff_nat [of "p + k" "p + u" S] by simp
  then show False using a by (auto dest: dvd_imp_le)
qed

lemma slots_update:
  "u < S \<Longrightarrow> length data = S \<Longrightarrow>
     slots S (data[(p + u) mod S := b]) p (Suc u) = slots S data p u @ [b]"
proof -
  assume u: "u < S" "length data = S"
  then have "(p + u) mod S < length data" by simp
  moreover have "data[(p + u) mod S := b] ! ((p + k) mod S) = data ! ((p + k) mod S)" if "k < u" for k
    using mod_window [OF that u(1), of p] by (metis nth_list_update_neq)
  ultimately show ?thesis by (simp add: slots_def)
qed

definition ring_wf :: "bc_shm_ring \<Rightarrow> bool" where
  "ring_wf r \<longleftrightarrow> unat (rg_size r) dvd 2 ^ 32 \<and> length (rg_data r) = unat (rg_size r) \<and> rg_size r \<noteq> 0 \<and>
     rg_head r - rg_tail r \<le> rg_size r"

lemma unat_mod_add:
  fixes a :: u32
  assumes "S dvd 2 ^ 32"
  shows "unat (a + of_nat k) mod S = (unat a + k) mod S"
proof -
  have "unat (a + of_nat k) = (unat a + k) mod 2 ^ 32"
    by (simp add: unat_word_ariths unat_of_nat mod_add_right_eq)
  then show ?thesis using assms by (simp add: mod_mod_cancel)
qed

text \<open>
  Positions: a word \<open>pos\<close> stands at the index \<open>p\<close>, counted from anywhere, if they agree
  modulo the size.
\<close>

definition at_pos :: "u32 \<Rightarrow> u32 \<Rightarrow> nat \<Rightarrow> bool" where
  "at_pos sz pos p \<longleftrightarrow> unat pos mod unat sz = p mod unat sz"

lemma at_pos_Suc: "unat sz dvd 2 ^ 32 \<Longrightarrow> at_pos sz pos p \<Longrightarrow> at_pos sz (pos + 1) (Suc p)"
  using unat_mod_add [of "unat sz" pos 1] by (simp add: at_pos_def) (metis mod_Suc_eq)

lemma at_pos_add: "unat sz dvd 2 ^ 32 \<Longrightarrow> at_pos sz pos p \<Longrightarrow> at_pos sz (pos + of_nat k) (p + k)"
  using unat_mod_add [of "unat sz" pos k] by (simp add: at_pos_def) (metis mod_add_left_eq)

lemma at_pos_mod: "at_pos sz pos p \<Longrightarrow> at_pos sz (pos mod sz) p"
  by (simp add: at_pos_def unat_mod)

lemma at_pos_refl: "at_pos sz pos (unat pos)"
  by (simp add: at_pos_def)

lemma ring_store_slots:
  assumes "unat sz dvd 2 ^ 32" "length data = unat sz" "sz \<noteq> 0" "at_pos sz pos (t + u)"
    "u + length bs \<le> unat sz"
  shows "\<exists>data'. ring_store sz pos data bs = Some data' \<and> length data' = unat sz \<and>
    slots (unat sz) data' t (u + length bs) = slots (unat sz) data t u @ bs"
  using assms
proof (induction bs arbitrary: pos data u)
  case Nil
  then show ?case by simp
next
  case (Cons b bs)
  let ?S = "unat sz"
  have S: "0 < ?S" using Cons.prems(3) by (simp add: unat_gt_0)
  have k: "unat (pos mod sz) = (t + u) mod ?S"
    using Cons.prems(4) by (simp add: at_pos_def unat_mod)
  let ?d = "data[(t + u) mod ?S := b]"
  obtain data' where d: "ring_store sz (pos + 1) ?d bs = Some data'" "length data' = ?S"
    "slots ?S data' t (Suc u + length bs) = slots ?S ?d t (Suc u) @ bs"
    using Cons.IH [of ?d "pos + 1" "Suc u"] Cons.prems at_pos_Suc [of sz pos "t + u"] by auto
  moreover have "slots ?S ?d t (Suc u) = slots ?S data t u @ [b]"
    by (rule slots_update) (use Cons.prems in auto)
  moreover have "\<not> length data \<le> unat (pos mod sz)" using k mod_bound [OF S] Cons.prems(2) by simp
  ultimately show ?case using k Cons.prems(3) by simp
qed

lemma ring_load_slots:
  assumes "unat sz dvd 2 ^ 32" "length data = unat sz" "sz \<noteq> 0" "at_pos sz pos p"
  shows "ring_load sz pos data n = Some (slots (unat sz) data p n)"
  using assms
proof (induction n arbitrary: pos p)
  case 0
  then show ?case by (simp add: slots_def)
next
  case (Suc n)
  have S: "0 < unat sz" using Suc.prems(3) by (simp add: unat_gt_0)
  have k: "unat (pos mod sz) = p mod unat sz"
    using Suc.prems(4) by (simp add: at_pos_def unat_mod)
  then show ?case
    using Suc.IH [of "pos + 1" "Suc p"] Suc.prems at_pos_Suc [of sz pos p] mod_bound [OF S]
    by (simp add: slots_Suc)
qed

section \<open>The ring is a queue of frames\<close>

definition ring_frame :: "byte list \<Rightarrow> byte list" where
  "ring_frame m = to_le 4 (of_nat (length m) :: u64) @ m"

lemma length_ring_frame [simp]: "length (ring_frame m) = 4 + length m"
  by (simp add: ring_frame_def del: to_le_numeral)

definition ring_rep :: "bc_shm_ring \<Rightarrow> byte list list \<Rightarrow> bool" where
  "ring_rep r q \<longleftrightarrow> ring_wf r \<and>
     slots (unat (rg_size r)) (rg_data r) (unat (rg_tail r)) (unat (rg_head r - rg_tail r)) =
       concat (map ring_frame q)"

lemma le4_of_length:
  "(of_le (to_le 4 (of_nat (length m) :: u64)) :: u32) = of_nat (length m)"
proof -
  have "to_le 4 (of_nat (length m) :: u64) = to_le 4 (of_nat (length m) :: u32)"
    by (rule to_le_of_nat) simp_all
  then show ?thesis by (simp only: le32.dec_enc)
qed

definition used :: "bc_shm_ring \<Rightarrow> nat" where
  "used r = unat (rg_head r - rg_tail r)"

lemma ring_wf_facts:
  assumes "ring_wf r"
  shows "used r \<le> unat (rg_size r)" "unat (ring_space r) = unat (rg_size r) - used r"
    "at_pos (rg_size r) (rg_head r mod rg_size r) (unat (rg_tail r) + used r)"
    "at_pos (rg_size r) (rg_tail r mod rg_size r) (unat (rg_tail r))"
    "unat (rg_size r) dvd 2 ^ 32" "length (rg_data r) = unat (rg_size r)" "rg_size r \<noteq> 0"
proof -
  show w: "unat (rg_size r) dvd 2 ^ 32" "length (rg_data r) = unat (rg_size r)" "rg_size r \<noteq> 0"
    using assms by (simp_all add: ring_wf_def)
  show "used r \<le> unat (rg_size r)"
    using assms by (simp add: ring_wf_def used_def word_le_nat_alt)
  show "unat (ring_space r) = unat (rg_size r) - used r"
    using assms by (simp add: ring_wf_def used_def ring_space_def unat_sub)
  show "at_pos (rg_size r) (rg_tail r mod rg_size r) (unat (rg_tail r))"
    by (simp add: at_pos_mod at_pos_refl)
  have "rg_head r = rg_tail r + of_nat (used r)" by (simp add: used_def)
  then show "at_pos (rg_size r) (rg_head r mod rg_size r) (unat (rg_tail r) + used r)"
    using at_pos_add [OF w(1) at_pos_refl, of "rg_tail r" "used r"] by (metis at_pos_mod)
qed

lemma ring_write_rep:
  assumes rep: "ring_rep r q"
  shows "\<exists>rc s'. bc_shm_ring_write r m = Some (rc, s') \<and>
    (if rc = BC_OK then ring_rep s' (q @ [m]) else s' = r)"
proof (cases "length m > BC_SHM_RING_SIZE - 4 \<or> unat (ring_space r) < 4 + length m")
  case True
  then show ?thesis by (auto simp: bc_shm_ring_write_def Let_def)
next
  case fits: False
  let ?S = "unat (rg_size r)" and ?t = "unat (rg_tail r)" and ?le = "to_le 4 (of_nat (length m) :: u64)"
  have wf: "ring_wf r" and q: "slots ?S (rg_data r) ?t (used r) = concat (map ring_frame q)"
    using rep by (simp_all add: ring_rep_def used_def)
  note f = ring_wf_facts [OF wf]
  have room: "used r + (4 + length m) \<le> ?S" using fits f(1,2) by linarith
  then have room4: "used r + length ?le \<le> ?S" by simp
  obtain d1 where d1: "ring_store (rg_size r) (rg_head r mod rg_size r) (rg_data r) ?le = Some d1"
    "length d1 = ?S" "slots ?S d1 ?t (used r + 4) = concat (map ring_frame q) @ ?le"
    using ring_store_slots [OF f(5,6,7,3) room4, unfolded length_to_le q] by blast
  have pos: "at_pos (rg_size r) ((rg_head r mod rg_size r + 4) mod rg_size r) (?t + (used r + 4))"
    using at_pos_mod [OF at_pos_add [OF f(5) f(3), of 4]] by (simp add: add.assoc)
  obtain d2 where d2: "ring_store (rg_size r) ((rg_head r mod rg_size r + 4) mod rg_size r) d1 m = Some d2"
    "length d2 = ?S" "slots ?S d2 ?t (used r + 4 + length m) = concat (map ring_frame q) @ ?le @ m"
  proof -
    have "used r + 4 + length m \<le> ?S" using room by simp
    from ring_store_slots [OF f(5) d1(2) f(7) pos this, unfolded d1(3)] show ?thesis
      using that by (metis append_assoc)
  qed
  define s' where "s' = r\<lparr>rg_data := d2, rg_head := rg_head r + (4 + of_nat (length m))\<rparr>"
  have "rg_head s' - rg_tail s' = of_nat (used r + 4 + length m)"
    by (simp add: s'_def used_def)
  moreover have "used r + 4 + length m < 2 ^ 32"
    using room unat_bound [of "rg_size r"] by simp
  ultimately have u: "unat (rg_head s' - rg_tail s') = used r + 4 + length m"
    using unat_of_nat_word [of "used r + 4 + length m", where 'a = 32] by (simp del: of_nat_add)
  have "ring_wf s'"
    using f(5,6,7) d2(2) u room by (simp add: ring_wf_def s'_def word_le_nat_alt)
  then have "ring_rep s' (q @ [m])"
    using d2(3) u by (simp add: ring_rep_def ring_frame_def) (simp add: s'_def)
  then show ?thesis
    using fits f(7) d1(1) d2(1) by (simp add: bc_shm_ring_write_def Let_def s'_def)
qed

lemma ring_read_empty: "ring_rep r [] \<Longrightarrow> bc_shm_ring_read r cap = Some (Inl BC_ERR_NOT_FOUND, r)"
proof -
  assume "ring_rep r []"
  then have "length (slots (unat (rg_size r)) (rg_data r) (unat (rg_tail r)) (used r)) = 0"
    unfolding ring_rep_def used_def by (simp only: list.map concat.simps list.size)
  then have "ring_data r < 4" by (simp add: used_def ring_data_def word_less_nat_alt)
  then show ?thesis by (simp add: bc_shm_ring_read_def bc_shm_ring_peek_len_def Let_def)
qed

lemma ring_peek_rep:
  assumes rep: "ring_rep r (m # q)"
  shows "bc_shm_ring_peek_len r = Some (Inr (of_nat (length m)))"
    and "used r = 4 + length m + length (concat (map ring_frame q))" and "length m < 2 ^ 32"
    and "slots (unat (rg_size r)) (rg_data r) (unat (rg_tail r) + 4) (length m) = m"
    and "slots (unat (rg_size r)) (rg_data r) (unat (rg_tail r) + (4 + length m))
      (used r - (4 + length m)) = concat (map ring_frame q)"
proof -
  let ?S = "unat (rg_size r)" and ?t = "unat (rg_tail r)" and ?le = "to_le 4 (of_nat (length m) :: u64)"
  let ?rest = "concat (map ring_frame q)"
  have wf: "ring_wf r" and q: "slots ?S (rg_data r) ?t (used r) = ?le @ m @ ?rest"
    using rep by (simp_all add: ring_rep_def used_def ring_frame_def del: to_le_numeral)
  note f = ring_wf_facts [OF wf]
  show u: "used r = 4 + length m + length ?rest"
    using arg_cong [OF q, of length] by (simp del: to_le_numeral)
  show l: "length m < 2 ^ 32"
    using u f(1) unat_bound [of "rg_size r"] by simp
  have split: "slots ?S (rg_data r) ?t 4 @ slots ?S (rg_data r) (?t + 4) (length m) @
      slots ?S (rg_data r) (?t + (4 + length m)) (length ?rest) = ?le @ m @ ?rest"
    using q slots_split [of ?S "rg_data r" ?t 4 "length m + length ?rest"]
      slots_split [of ?S "rg_data r" "?t + 4" "length m" "length ?rest"]
    by (simp add: u add.assoc del: to_le_numeral)
  then have s: "slots ?S (rg_data r) ?t 4 = ?le" "slots ?S (rg_data r) (?t + 4) (length m) = m"
    "slots ?S (rg_data r) (?t + (4 + length m)) (length ?rest) = ?rest"
    by (simp_all add: append_eq_append_conv del: to_le_numeral)
  then show "slots ?S (rg_data r) (?t + 4) (length m) = m"
    "slots ?S (rg_data r) (?t + (4 + length m)) (used r - (4 + length m)) = ?rest"
    using u by simp_all
  have "\<not> ring_data r < 4" "\<not> unat (ring_data r) < 4 + length m"
    using u by (simp_all add: ring_data_def word_less_nat_alt used_def)
  moreover have "ring_load (rg_size r) (rg_tail r mod rg_size r) (rg_data r) 4 = Some ?le"
    using ring_load_slots [OF f(5,6,7,4)] s(1) by simp
  ultimately show "bc_shm_ring_peek_len r = Some (Inr (of_nat (length m)))"
    using f(7) l
    by (simp add: bc_shm_ring_peek_len_def Let_def le4_of_length unat_of_nat_word del: to_le_numeral ring_load.simps)
qed

lemma ring_read_long:
  "ring_rep r (m # q) \<Longrightarrow> cap < length m \<Longrightarrow> bc_shm_ring_read r cap = Some (Inl BC_ERR_INVALID, r)"
  using ring_peek_rep(1,3) [of r m q] by (simp add: bc_shm_ring_read_def unat_of_nat_word)

lemma ring_read_rep:
  assumes rep: "ring_rep r (m # q)" and cap: "length m \<le> cap"
  shows "\<exists>s'. bc_shm_ring_read r cap = Some (Inr m, s') \<and> ring_rep s' q"
proof -
  let ?S = "unat (rg_size r)" and ?t = "unat (rg_tail r)"
  note p = ring_peek_rep [OF rep]
  have wf: "ring_wf r" using rep by (simp add: ring_rep_def)
  note f = ring_wf_facts [OF wf]
  have pos: "at_pos (rg_size r) ((rg_tail r + 4) mod rg_size r) (?t + 4)"
    using at_pos_mod [OF at_pos_add [OF f(5) at_pos_refl, of "rg_tail r" 4]] by simp
  have load: "ring_load (rg_size r) ((rg_tail r + 4) mod rg_size r) (rg_data r) (length m) = Some m"
    using ring_load_slots [OF f(5,6,7) pos] p(4) by simp
  define s' where "s' = r\<lparr>rg_tail := rg_tail r + (4 + of_nat (length m))\<rparr>"
  have "rg_head s' - rg_tail s' = of_nat (used r) - of_nat (4 + length m)"
    by (simp add: s'_def used_def)
  also have "\<dots> = of_nat (used r - (4 + length m))"
    using p(2) by (simp add: of_nat_diff)
  finally have u: "unat (rg_head s' - rg_tail s') = used r - (4 + length m)"
    using f(1) unat_bound [of "rg_size r"] by (simp add: unat_of_nat_word)
  have "slots ?S (rg_data r) (unat (rg_tail s')) n = slots ?S (rg_data r) (?t + (4 + length m)) n" for n
    using unat_mod_add [OF f(5), of "rg_tail r" "4 + length m"] slots_mod [of ?S "rg_data r"]
    by (simp add: s'_def) metis
  then have "ring_rep s' q"
    using u p(5) f wf by (simp add: ring_rep_def ring_wf_def) (simp add: s'_def word_le_nat_alt)
  then show ?thesis
    using p(1,3) cap f(7) load by (simp add: bc_shm_ring_read_def unat_of_nat_word s'_def)
qed

interpretation shm_queue: frame_queue ring_rep bc_shm_ring_write bc_shm_ring_read
  by unfold_locales (rule ring_write_rep ring_read_empty ring_read_long ring_read_rep; assumption)+

lemma ring_rep_init:
  "unat sz dvd 2 ^ 32 \<Longrightarrow> sz \<noteq> 0 \<Longrightarrow> length area = unat sz \<Longrightarrow> ring_rep (init_ring area sz) []"
  by (simp add: ring_rep_def ring_wf_def init_ring_def slots_def)

text \<open>
  C29. The shared-memory ring is a bounded queue: for every sequence of writes and reads on a
  fresh ring whose size divides \<open>2 ^ 32\<close> (as the 32 MiB of the code does), no access leaves the
  data area, also when the byte counters wrap around; the frames read are, byte for byte and
  in order, the frames whose write returned \<open>BC_OK\<close>, and what has been written and not read
  is still there.
\<close>

theorem shm_ring_fifo:
  assumes "unat sz dvd 2 ^ 32" "sz \<noteq> 0" "length area = unat sz"
  shows "\<exists>t acc taken r. queue_run bc_shm_ring_write bc_shm_ring_read ops (init_ring area sz) =
    Some (t, acc, taken) \<and> ring_rep t r \<and> acc = taken @ r"
  using shm_queue.run_fifo [OF ring_rep_init [OF assms], of ops] by simp

lemma shm_ring_fifo_witness:
  "\<exists>t acc taken r. queue_run bc_shm_ring_write bc_shm_ring_read
      [Put [1, 2, 3], Get 8, Put [4, 5], Put [6, 7, 8, 9], Get 8] (init_ring (zeros 16) 16) =
    Some (t, acc, taken) \<and> ring_rep t r \<and> acc = taken @ r"
  by (rule shm_ring_fifo) simp_all

text \<open>The two rings of a session as \<^verbatim>\<open>shm_rings\<close> sets them up start out as empty queues.\<close>

lemma session_rings_empty:
  assumes "length a = BC_SHM_RING_SIZE" "length b = BC_SHM_RING_SIZE"
  shows "ring_rep (fst (shm_rings a b)) []" "ring_rep (snd (shm_rings a b)) []"
proof -
  have s: "unat (of_nat BC_SHM_RING_SIZE :: u32) = 2 ^ 25" by (simp add: BC_SHM_RING_SIZE_def)
  then have "(of_nat BC_SHM_RING_SIZE :: u32) \<noteq> 0" by (auto simp: BC_SHM_RING_SIZE_def)
  then show "ring_rep (fst (shm_rings a b)) []" "ring_rep (snd (shm_rings a b)) []"
    using assms s by (simp_all add: shm_rings_def ring_rep_init BC_SHM_RING_SIZE_def le_imp_power_dvd)
qed

section \<open>A hostile peer\<close>

text \<open>
  The daemon trusts the fields a client can write: with the size field of the ring set to
  zero and the head advanced, reading divides by zero, which ends the daemon; the check of
  the length does not come into play.
\<close>

theorem shm_hostile_size_crashes:
  "4 \<le> ring_data r \<Longrightarrow> bc_shm_ring_read (r\<lparr>rg_size := 0\<rparr>) cap = None"
  by (simp add: bc_shm_ring_read_def bc_shm_ring_peek_len_def ring_data_def Let_def not_less)

lemma shm_hostile_size_crashes_witness:
  "bc_shm_ring_read ((init_ring (zeros 16) 16)\<lparr>rg_head := 4\<rparr>\<lparr>rg_size := 0\<rparr>) 8 = None"
  by (rule shm_hostile_size_crashes) (simp add: ring_data_def init_ring_def)

end
