(* ===== verification/Byte_Queue.thy ===== *)
theory Byte_Queue
  imports Prelude
begin

text \<open>
  The contract of a transmit queue of bytes, as the clients' sockets and the stream transports
  have one: enqueueing appends all of its data or nothing, flushing hands a first part of the
  pending bytes to the operating system. Whatever the sequence of calls, the bytes that left
  followed by those still pending are the bytes accepted, in order.
\<close>

text \<open>
  The result of one write to a socket or device: a number of bytes taken (0 counts as an
  error, as it does in the code), blocking, or an error.
\<close>

datatype io_result = Done nat | Again | Error

datatype 'r stream_op = Enqueue "byte list" | Flush 'r

fun stream_run ::
  "('s \<Rightarrow> byte list \<Rightarrow> bc_status \<times> 's) \<Rightarrow> ('r \<Rightarrow> 's \<Rightarrow> byte list \<times> 's) \<Rightarrow> 'r stream_op list \<Rightarrow> 's \<Rightarrow>
     's \<times> byte list \<times> byte list" where
  "stream_run enq flush [] s = (s, [], [])"
| "stream_run enq flush (Enqueue d # ops) s =
     (case enq s d of (rc, s1) \<Rightarrow> case stream_run enq flush ops s1 of (t, acc, sent) \<Rightarrow>
        (t, (if rc = BC_OK then d else []) @ acc, sent))"
| "stream_run enq flush (Flush r # ops) s =
     (case flush r s of (out, s1) \<Rightarrow> case stream_run enq flush ops s1 of (t, acc, sent) \<Rightarrow> (t, acc, out @ sent))"

locale byte_queue =
  fixes ok :: "'s \<Rightarrow> bool" and pending :: "'s \<Rightarrow> byte list"
    and enq :: "'s \<Rightarrow> byte list \<Rightarrow> bc_status \<times> 's" and flush :: "'r \<Rightarrow> 's \<Rightarrow> byte list \<times> 's"
  assumes enq_law: "ok s \<Longrightarrow> enq s d = (rc, s') \<Longrightarrow>
      ok s' \<and> pending s' = (if rc = BC_OK then pending s @ d else pending s)"
    and flush_law: "ok s \<Longrightarrow> flush r s = (out, s') \<Longrightarrow> ok s' \<and> out @ pending s' = pending s"
begin

lemma run_stream:
  "ok s \<Longrightarrow> stream_run enq flush ops s = (t, acc, sent) \<Longrightarrow> ok t \<and> pending s @ acc = sent @ pending t"
proof (induction ops arbitrary: s t acc sent)
  case Nil
  then show ?case by simp
next
  case (Cons op ops)
  show ?case
  proof (cases op)
    case (Enqueue d)
    obtain rc s1 where e: "enq s d = (rc, s1)" by force
    obtain t' acc' sent' where r: "stream_run enq flush ops s1 = (t', acc', sent')" by (metis prod_cases3)
    from enq_law [OF Cons.prems(1) e] Cons.IH [OF _ r] show ?thesis
      using Cons.prems(2) Enqueue e r by (auto split: if_splits)
  next
    case (Flush x)
    obtain out s1 where e: "flush x s = (out, s1)" by force
    obtain t' acc' sent' where r: "stream_run enq flush ops s1 = (t', acc', sent')" by (metis prod_cases3)
    note l = flush_law [OF Cons.prems(1) e]
    then have "ok t' \<and> pending s1 @ acc' = sent' @ pending t'" using Cons.IH [OF _ r] by simp
    moreover have "t = t'" "acc = acc'" "sent = out @ sent'" using Cons.prems(2) Flush e r by auto
    ultimately show ?thesis using l by (metis append_assoc)
  qed
qed

end

end
