(* ===== verification/Client_Manager.thy ===== *)
theory Client_Manager
  imports Bus_Traces Framing Shm_Ring Byte_Queue
begin

text \<open>
  \<^verbatim>\<open>src/daemon/client_manager.c\<close>: the clients of the local socket. The operating system and
  the transports are the functions of \<open>sys\<close>, on a world \<open>'x\<close>; the results of the successive
  \<^verbatim>\<open>send\<close>, \<^verbatim>\<open>read\<close> and \<^verbatim>\<open>accept4\<close> calls of one event are lists, whose end means that the
  call would block (interrupted calls are retried by the code and do not appear). The list of
  clients is the linked list from its head. \<open>sy_shm\<close> creates the session of a client and
  \<open>sy_shm_close\<close> gives it up (see \<open>Shm_Session\<close>). A transmit buffer is its pending bytes and their
  offset. \<open>mg_fault\<close> is set when the code uses freed memory or leaves a ring; nothing is said
  about the daemon after that.
\<close>

section \<open>State\<close>

definition BC_CLIENT_FRAME_MAX :: nat where
  "BC_CLIENT_FRAME_MAX = IPC_HEADER_SIZE + BC_MAX_CHANNEL_LEN + BC_MAX_TOPIC_LEN + BC_MAX_PAYLOAD_LEN"
definition BC_CLIENT_RX_CAP :: nat where "BC_CLIENT_RX_CAP = 256 * 1024"
definition BC_CLIENT_TX_CAP :: nat where "BC_CLIENT_TX_CAP = 4 * 1024 * 1024"

lemmas client_caps = BC_CLIENT_FRAME_MAX_def BC_CLIENT_RX_CAP_def BC_CLIENT_TX_CAP_def

record bc_client_ctx =
  cl_fd :: int
  cl_rx :: "byte list"
  cl_tx_off :: nat
  cl_tx :: "byte list"
  cl_shm :: "(bc_shm_ring \<times> bc_shm_ring) option"

record 'x bc_client_manager =
  mg_clients :: "bc_client_ctx list"
  mg_socket_uid :: u32
  mg_fault :: bool
  mg_ext :: 'x

record 'x sys =
  sy_config :: bc_config
  sy_names :: "byte list list"
  sy_send :: "nat \<Rightarrow> (byte list \<Rightarrow> 'x \<Rightarrow> bc_status \<times> 'x) option"
  sy_add :: "int \<Rightarrow> 'x \<Rightarrow> bc_status \<times> 'x"
  sy_mod :: "int \<Rightarrow> bool \<Rightarrow> 'x \<Rightarrow> bc_status \<times> 'x"
  sy_del :: "int \<Rightarrow> 'x \<Rightarrow> 'x"
  sy_close :: "int \<Rightarrow> 'x \<Rightarrow> 'x"
  sy_shm :: "'x \<Rightarrow> (byte list \<times> byte list) option \<times> 'x"
  sy_send_fd :: "int \<Rightarrow> 'x \<Rightarrow> bc_status \<times> 'x"
  sy_shm_close :: "int \<Rightarrow> 'x \<Rightarrow> 'x"

type_synonym 'x daemon = "bc_message_bus \<times> 'x bc_client_manager"

definition new_client :: "int \<Rightarrow> bc_client_ctx" where
  "new_client fd = \<lparr>cl_fd = fd, cl_rx = [], cl_tx_off = 0, cl_tx = [], cl_shm = None\<rparr>"

definition link_client :: "bc_client_ctx \<Rightarrow> bc_client_ctx list \<Rightarrow> bc_client_ctx list" where
  "link_client client clients = client # clients"

fun unlink_client :: "int \<Rightarrow> bc_client_ctx list \<Rightarrow> bc_client_ctx list" where
  "unlink_client fd [] = []"
| "unlink_client fd (c # cs) = (if cl_fd c = fd then cs else c # unlink_client fd cs)"

definition find_client :: "bc_client_ctx list \<Rightarrow> int \<Rightarrow> bc_client_ctx option" where
  "find_client clients fd = find (\<lambda>c. cl_fd c = fd) clients"

text \<open>A change of the client a pointer leads to.\<close>

fun update_client :: "int \<Rightarrow> (bc_client_ctx \<Rightarrow> bc_client_ctx) \<Rightarrow> bc_client_ctx list \<Rightarrow> bc_client_ctx list" where
  "update_client fd f [] = []"
| "update_client fd f (c # cs) = (if cl_fd c = fd then f c # cs else c # update_client fd f cs)"

definition set_client :: "int \<Rightarrow> (bc_client_ctx \<Rightarrow> bc_client_ctx) \<Rightarrow> 'x bc_client_manager \<Rightarrow> 'x bc_client_manager" where
  "set_client fd f m = m\<lparr>mg_clients := update_client fd f (mg_clients m)\<rparr>"

definition close_client :: "'x sys \<Rightarrow> int \<Rightarrow> 'x daemon \<Rightarrow> 'x daemon" where
  "close_client sys fd = (\<lambda>(bus, m).
     (bc_message_bus_remove_client bus fd,
      m\<lparr>mg_clients := unlink_client fd (mg_clients m),
        mg_ext := sy_close sys fd
          (let x = sy_del sys fd (mg_ext m) in
             case find_client (mg_clients m) fd of
               None \<Rightarrow> x
             | Some client \<Rightarrow> if cl_shm client = None then x else sy_shm_close sys fd x)\<rparr>))"

section \<open>The transmit queue\<close>

definition tx_enqueue :: "bc_client_ctx \<Rightarrow> byte list \<Rightarrow> bc_status \<times> bc_client_ctx" where
  "tx_enqueue client data =
     (if length data > BC_CLIENT_TX_CAP then (BC_ERR_INVALID, client)
      else
        let client = (if cl_tx_off client > 0 \<and>
                         cl_tx_off client + length (cl_tx client) + length data > BC_CLIENT_TX_CAP
                      then client\<lparr>cl_tx_off := 0\<rparr> else client) in
        if cl_tx_off client + length (cl_tx client) + length data > BC_CLIENT_TX_CAP
        then (BC_ERR_NOMEM, client)
        else (BC_OK, client\<lparr>cl_tx := cl_tx client @ data\<rparr>))"

text \<open>The events the daemon waits for: writing only while there is something to write.\<close>

definition update_client_events :: "'x sys \<Rightarrow> bc_client_ctx \<Rightarrow> 'x \<Rightarrow> bc_status \<times> 'x" where
  "update_client_events sys client = sy_mod sys (cl_fd client) (cl_tx client \<noteq> [])"

definition enqueue_client_tx ::
  "'x sys \<Rightarrow> int \<Rightarrow> byte list \<Rightarrow> 'x bc_client_manager \<Rightarrow> bc_status \<times> 'x bc_client_manager" where
  "enqueue_client_tx sys fd data m =
     (case find_client (mg_clients m) fd of
        None \<Rightarrow> (BC_ERR_NOT_FOUND, m)
      | Some client \<Rightarrow>
          (case tx_enqueue client data of (rc, client') \<Rightarrow>
             let m = set_client fd (\<lambda>_. client') m in
             if rc \<noteq> BC_OK then (rc, m)
             else (case update_client_events sys client' (mg_ext m) of (rc, x) \<Rightarrow> (rc, m\<lparr>mg_ext := x\<rparr>))))"

text \<open>
  The result is the status, the client, the bytes handed to the socket and whether the loop
  ran to its end (only then are the events updated).
\<close>

fun tx_flush :: "io_result list \<Rightarrow> bc_client_ctx \<Rightarrow> bc_status \<times> bc_client_ctx \<times> byte list \<times> bool" where
  "tx_flush results client =
     (if cl_tx client = [] then (BC_OK, client, [], True)
      else case results of
          Done n # rs \<Rightarrow>
            if n > 0 then
              let tx = drop n (cl_tx client);
                  client' = client\<lparr>cl_tx_off := (if tx = [] then 0 else cl_tx_off client + n), cl_tx := tx\<rparr> in
              (case tx_flush rs client' of (rc, c, sent, fin) \<Rightarrow> (rc, c, take n (cl_tx client) @ sent, fin))
            else (BC_ERR_IO, client, [], False)
        | Error # rs \<Rightarrow> (BC_ERR_IO, client, [], False)
        | Again # rs \<Rightarrow> (BC_OK, client, [], False)
        | [] \<Rightarrow> (BC_OK, client, [], False))"

declare tx_flush.simps [simp del]

definition flush_client_tx ::
  "'x sys \<Rightarrow> int \<Rightarrow> io_result list \<Rightarrow> 'x bc_client_manager \<Rightarrow> bc_status \<times> 'x bc_client_manager" where
  "flush_client_tx sys fd results m =
     (case find_client (mg_clients m) fd of
        None \<Rightarrow> (BC_ERR_NOT_FOUND, m)
      | Some client \<Rightarrow>
          (case tx_flush results client of (rc, client', sent, fin) \<Rightarrow>
             let m = set_client fd (\<lambda>_. client') m in
             if fin then (case update_client_events sys client' (mg_ext m) of (rc, x) \<Rightarrow> (rc, m\<lparr>mg_ext := x\<rparr>))
             else (rc, m)))"

section \<open>Delivery to a client\<close>

definition kick_frame :: "byte list" where
  "kick_frame = put_ipc_header (empty_ipc_header\<lparr>ih_magic := BC_IPC_MAGIC, ih_version := BC_IPC_VERSION,
     ih_type := ipc_code BC_IPC_SHM_KICK\<rparr>)"

text \<open>The session's rings are kept as (rx, tx) of the daemon's view.\<close>

definition deliver_to_client ::
  "'x sys \<Rightarrow> int \<Rightarrow> byte list \<Rightarrow> 'x bc_client_manager \<Rightarrow> bc_status \<times> 'x bc_client_manager" where
  "deliver_to_client sys client_fd data m =
     (case find_client (mg_clients m) client_fd of
        None \<Rightarrow> (BC_ERR_NOT_FOUND, m)
      | Some client \<Rightarrow>
          (case cl_shm client of
             None \<Rightarrow> enqueue_client_tx sys client_fd data m
           | Some (rx, tx) \<Rightarrow>
               (case bc_shm_ring_write tx data of
                  None \<Rightarrow> (BC_ERR, m\<lparr>mg_fault := True\<rparr>)
                | Some (rc, tx') \<Rightarrow>
                    let m = set_client client_fd (\<lambda>c. c\<lparr>cl_shm := Some (rx, tx')\<rparr>) m in
                    if rc = BC_OK then (rc, snd (enqueue_client_tx sys client_fd kick_frame m))
                    else (rc, m))))"

text \<open>The environment the manager gives the message bus.\<close>

definition daemon_env :: "'x sys \<Rightarrow> 'x bc_client_manager bus_env" where
  "daemon_env sys =
     \<lparr>env_config = sy_config sys, env_transports = sy_names sys,
      env_send = (\<lambda>i. map_option (\<lambda>f frame m. case f frame (mg_ext m) of (rc, x) \<Rightarrow> (rc, m\<lparr>mg_ext := x\<rparr>))
        (sy_send sys i)),
      env_deliver = Some (deliver_to_client sys)\<rparr>"

section \<open>Requests\<close>

definition stats_bytes :: "bc_stats \<Rightarrow> byte list" where
  "stats_bytes st =
     to_le 8 (pub_local st) @ to_le 8 (pub_network st) @ to_le 8 (pub_failed st) @
     to_le 8 (rx_network st) @ to_le 8 (rx_local st) @ to_le 8 (rx_forward st) @ to_le 8 (rx_drop st) @
     to_le 8 (ack_sent st) @ to_le 8 (ack_recv st) @ to_le 8 (frag_rx st) @ to_le 8 (frag_tx st)"

definition send_stats_reply :: "'x sys \<Rightarrow> int \<Rightarrow> 'x daemon \<Rightarrow> bc_status \<times> 'x daemon" where
  "send_stats_reply sys fd = (\<lambda>(bus, m).
     let stats = stats_bytes (bus_stats bus);
         header = put_ipc_header (empty_ipc_header\<lparr>ih_magic := BC_IPC_MAGIC, ih_version := BC_IPC_VERSION,
           ih_type := ipc_code BC_IPC_STATS, ih_payload_len := of_nat (length stats)\<rparr>) in
     (case enqueue_client_tx sys fd header m of (rc, m) \<Rightarrow>
        if rc \<noteq> BC_OK then (BC_ERR_IO, bus, m)
        else (case enqueue_client_tx sys fd stats m of (rc, m) \<Rightarrow>
          if rc \<noteq> BC_OK then (BC_ERR_IO, bus, m) else (BC_OK, bus, m))))"

definition setup_client_shm :: "'x sys \<Rightarrow> int \<Rightarrow> 'x bc_client_manager \<Rightarrow> bc_status \<times> 'x bc_client_manager" where
  "setup_client_shm sys fd m =
     (case sy_shm sys (mg_ext m) of
        (None, x) \<Rightarrow> (BC_ERR_IO, m\<lparr>mg_ext := x\<rparr>)
      | (Some (a, b), x) \<Rightarrow>
          (case sy_send_fd sys fd x of (rc, x) \<Rightarrow>
             let rings = shm_rings a b in
             if rc \<noteq> BC_OK then (rc, m\<lparr>mg_ext := sy_shm_close sys fd x\<rparr>)
             else (BC_OK, set_client fd
               (\<lambda>c. c\<lparr>cl_shm := Some (session_rx False rings, session_tx False rings)\<rparr>) (m\<lparr>mg_ext := x\<rparr>))))"

definition ipc_message :: "bc_ipc_header \<Rightarrow> byte list \<Rightarrow> byte list \<Rightarrow> byte list \<Rightarrow> bc_message" where
  "ipc_message header channel topic payload =
     (let msg = empty_message\<lparr>
        m_channel := snprintf_s (zeros BC_MAX_CHANNEL_LEN) channel,
        m_topic := snprintf_s (zeros BC_MAX_TOPIC_LEN) topic, m_payload := payload\<rparr> in
      if ih_version header \<ge> BC_IPC_VERSION
      then msg\<lparr>m_dst_node := ih_dst_node header, m_qos := ih_qos header, m_flags := ih_flags header,
               m_seq := ih_seq header\<rparr>
      else msg)"

definition process_ipc_payload ::
  "'x sys \<Rightarrow> int \<Rightarrow> bc_ipc_header \<Rightarrow> byte list \<Rightarrow> byte list \<Rightarrow> byte list \<Rightarrow> 'x daemon \<Rightarrow> bc_status \<times> 'x daemon" where
  "process_ipc_payload sys fd header channel topic payload = (\<lambda>(bus, m).
     if ih_type header = ipc_code BC_IPC_SUBSCRIBE
     then (BC_OK, fst (bc_message_bus_subscribe bus fd topic), m)
     else if ih_type header = ipc_code BC_IPC_PUBLISH
     then bc_message_bus_publish (daemon_env sys) fd (ipc_message header channel topic payload) (bus, m)
     else if ih_type header = ipc_code BC_IPC_STATS then send_stats_reply sys fd (bus, m)
     else if ih_type header = ipc_code BC_IPC_SHM_SETUP
     then (case setup_client_shm sys fd m of (rc, m) \<Rightarrow> (rc, bus, m))
     else if ih_type header = ipc_code BC_IPC_SHM_KICK then (BC_OK, bus, m)
     else (BC_ERR_INVALID, bus, m))"

text \<open>The lengths of a header, and the strings and payload they cut out of a message.\<close>

definition ipc_lengths_ok :: "bc_ipc_header \<Rightarrow> bool" where
  "ipc_lengths_ok header \<longleftrightarrow> \<not> (unat (ih_channel_len header) \<ge> BC_MAX_CHANNEL_LEN \<or> ih_topic_len header = 0 \<or>
     unat (ih_topic_len header) \<ge> BC_MAX_TOPIC_LEN \<or> unat (ih_payload_len header) > BC_MAX_PAYLOAD_LEN)"

definition ipc_frame_len :: "bc_ipc_header \<Rightarrow> nat" where
  "ipc_frame_len header = bc_ipc_header_size (ih_version header) + unat (ih_channel_len header) +
     unat (ih_topic_len header) + unat (ih_payload_len header)"

definition process_frame_buffer ::
  "'x sys \<Rightarrow> int \<Rightarrow> byte list \<Rightarrow> 'x daemon \<Rightarrow> bc_status \<times> 'x daemon" where
  "process_frame_buffer sys fd data st =
     (if length data < IPC_HEADER_V1_SIZE then (BC_ERR_NOT_FOUND, st)
      else
        let header = get_ipc_header (take IPC_HEADER_SIZE data) in
        if ih_magic header \<noteq> BC_IPC_MAGIC then (BC_ERR_INVALID, st)
        else
          let header_size = bc_ipc_header_size (ih_version header);
              channel_len = unat (ih_channel_len header);
              topic_len = unat (ih_topic_len header);
              payload_len = unat (ih_payload_len header) in
          if length data < header_size then (BC_ERR_NOT_FOUND, st)
          else if \<not> ipc_lengths_ok header then (BC_ERR_INVALID, st)
          else if length data < ipc_frame_len header then (BC_ERR_NOT_FOUND, st)
          else process_ipc_payload sys fd header
              ((blit (zeros BC_MAX_CHANNEL_LEN) 0 (fld header_size channel_len data))[channel_len := 0])
              ((blit (zeros BC_MAX_TOPIC_LEN) 0 (fld (header_size + channel_len) topic_len data))[topic_len := 0])
              (fld (header_size + channel_len + topic_len) payload_len data) st)"

section \<open>The receive buffer\<close>

definition process_one_message ::
  "'x sys \<Rightarrow> int \<Rightarrow> byte list \<Rightarrow> 'x daemon \<Rightarrow> bc_status \<times> byte list \<times> 'x daemon" where
  "process_one_message sys fd rx st =
     (if length rx < IPC_HEADER_V1_SIZE then (BC_ERR_NOT_FOUND, rx, st)
      else
        let header = get_ipc_header (take IPC_HEADER_SIZE rx) in
        if ih_magic header \<noteq> BC_IPC_MAGIC then (BC_ERR_INVALID, rx, st)
        else
          let frame_len = ipc_frame_len header in
          if frame_len > BC_CLIENT_FRAME_MAX \<or> length rx < frame_len
          then (if length rx < frame_len then BC_ERR_NOT_FOUND else BC_ERR_INVALID, rx, st)
          else (case process_frame_buffer sys fd (take frame_len rx) st of (rc, st') \<Rightarrow>
            if rc \<noteq> BC_OK then (rc, rx, st') else (BC_OK, drop frame_len rx, st')))"

lemma ipc_header_size_pos: "IPC_HEADER_V1_SIZE \<le> bc_ipc_header_size v"
  by (simp add: bc_ipc_header_size_def ipc_sizes)

lemma process_one_shorter:
  assumes "process_one_message sys fd rx st = (BC_OK, rx', st')"
  shows "length rx' < length rx"
proof -
  have p: "0 < ipc_frame_len h" for h
    using ipc_header_size_pos [of "ih_version h"] by (simp add: ipc_frame_len_def ipc_sizes)
  show ?thesis
    using assms p [of "get_ipc_header (take IPC_HEADER_SIZE rx)"]
    by (auto simp: process_one_message_def Let_def split: if_split_asm prod.splits)
qed

function process_messages ::
  "'x sys \<Rightarrow> int \<Rightarrow> byte list \<Rightarrow> 'x daemon \<Rightarrow> bc_status \<times> byte list \<times> 'x daemon" where
  "process_messages sys fd rx st =
     (case process_one_message sys fd rx st of (rc, rx', st') \<Rightarrow>
        if rc = BC_ERR_NOT_FOUND then (BC_OK, rx', st')
        else if rc \<noteq> BC_OK then (rc, rx', st')
        else process_messages sys fd rx' st')"
  by pat_completeness auto
termination
proof (relation "measure (\<lambda>(_, _, rx, _). length rx)", goal_cases)
  case 1
  then show ?case by simp
next
  case (2 sys fd rx st rc p rx' st')
  then have "process_one_message sys fd rx st = (BC_OK, rx', st')" by simp
  from process_one_shorter [OF this] show ?case by simp
qed

declare process_messages.simps [simp del]

definition client_rx :: "'x bc_client_manager \<Rightarrow> int \<Rightarrow> byte list" where
  "client_rx m fd = (case find_client (mg_clients m) fd of None \<Rightarrow> [] | Some c \<Rightarrow> cl_rx c)"

text \<open>The loop over a client's own buffer; nothing it calls touches that buffer.\<close>

definition run_messages :: "'x sys \<Rightarrow> int \<Rightarrow> 'x daemon \<Rightarrow> bc_status \<times> 'x daemon" where
  "run_messages sys fd st =
     (case process_messages sys fd (client_rx (snd st) fd) st of (rc, rx', bus, m) \<Rightarrow>
        (rc, bus, set_client fd (\<lambda>c. c\<lparr>cl_rx := rx'\<rparr>) m))"

text \<open>
  A client may be closed while the list is walked; the loop then reads the link of a client
  that has been freed.
\<close>

definition resume_one :: "'x sys \<Rightarrow> int \<Rightarrow> 'x daemon \<Rightarrow> 'x daemon" where
  "resume_one sys fd st =
     (if client_rx (snd st) fd = [] then st
      else (case run_messages sys fd st of (rc, st') \<Rightarrow>
        if rc = BC_OK \<or> rc = BC_ERR_NOMEM then st'
        else (case close_client sys fd st' of (bus, m) \<Rightarrow> (bus, m\<lparr>mg_fault := True\<rparr>))))"

definition resume_pending_publishers :: "'x sys \<Rightarrow> 'x daemon \<Rightarrow> 'x daemon" where
  "resume_pending_publishers sys st = foldl (\<lambda>st fd. resume_one sys fd st) st (map cl_fd (mg_clients (snd st)))"

section \<open>Frames from shared memory\<close>

text \<open>
  The loop over the client's ring, with fuel: a client that keeps its head moving keeps the
  daemon in this loop. \<open>None\<close>: out of fuel.
\<close>

definition client_ring :: "'x bc_client_manager \<Rightarrow> int \<Rightarrow> bc_shm_ring option" where
  "client_ring m fd = (case find_client (mg_clients m) fd of
     None \<Rightarrow> None | Some c \<Rightarrow> map_option fst (cl_shm c))"

definition set_client_ring :: "int \<Rightarrow> bc_shm_ring \<Rightarrow> 'x bc_client_manager \<Rightarrow> 'x bc_client_manager" where
  "set_client_ring fd ring = set_client fd (\<lambda>c. c\<lparr>cl_shm := map_option (\<lambda>(_, tx). (ring, tx)) (cl_shm c)\<rparr>)"

fun drain_loop :: "'x sys \<Rightarrow> int \<Rightarrow> nat \<Rightarrow> 'x daemon \<Rightarrow> (bc_status \<times> 'x daemon) option" where
  "drain_loop sys fd 0 st = None"
| "drain_loop sys fd (Suc fuel) (bus, m) =
     (case client_ring m fd of
        None \<Rightarrow> Some (BC_OK, bus, m)
      | Some ring \<Rightarrow>
          (case bc_shm_ring_read ring BC_CLIENT_FRAME_MAX of
             None \<Rightarrow> Some (BC_ERR, bus, m\<lparr>mg_fault := True\<rparr>)
           | Some (Inl rc, _) \<Rightarrow>
               if rc = BC_ERR_NOT_FOUND then Some (BC_OK, bus, m) else Some (rc, bus, m)
           | Some (Inr frame, ring') \<Rightarrow>
               (case process_frame_buffer sys fd frame (bus, set_client_ring fd ring' m) of (rc, st') \<Rightarrow>
                  if rc \<noteq> BC_OK then Some (rc, st') else drain_loop sys fd fuel st')))"

definition drain_fuel :: "'x bc_client_manager \<Rightarrow> int \<Rightarrow> nat" where
  "drain_fuel m fd = (case client_ring m fd of None \<Rightarrow> 1 | Some ring \<Rightarrow> Suc (unat (ring_data ring)))"

definition drain_client_shm :: "'x sys \<Rightarrow> int \<Rightarrow> 'x daemon \<Rightarrow> (bc_status \<times> 'x daemon) option" where
  "drain_client_shm sys fd st = drain_loop sys fd (drain_fuel (snd st) fd) st"

section \<open>Events\<close>

datatype read_result = Data "byte list" | Eof | Would_Block | Read_Error

fun read_loop :: "'x sys \<Rightarrow> int \<Rightarrow> read_result list \<Rightarrow> 'x daemon \<Rightarrow> 'x daemon option" where
  "read_loop sys fd results (bus, m) =
     (if length (client_rx m fd) \<ge> BC_CLIENT_RX_CAP then Some (bus, m)
      else case results of
          [] \<Rightarrow> Some (bus, m)
        | Would_Block # rs \<Rightarrow> Some (bus, m)
        | Eof # rs \<Rightarrow> Some (close_client sys fd (bus, m))
        | Read_Error # rs \<Rightarrow> Some (close_client sys fd (bus, m))
        | Data bytes # rs \<Rightarrow>
            let data = take (BC_CLIENT_RX_CAP - length (client_rx m fd)) bytes;
                m = set_client fd (\<lambda>c. c\<lparr>cl_rx := cl_rx c @ data\<rparr>) m in
            (case run_messages sys fd (bus, m) of (rc, st) \<Rightarrow>
               if rc = BC_ERR_NOMEM then Some (resume_pending_publishers sys st)
               else if rc \<noteq> BC_OK then Some (close_client sys fd st)
               else (case drain_client_shm sys fd st of
                   None \<Rightarrow> None
                 | Some (rc, st) \<Rightarrow>
                     if rc = BC_ERR_NOMEM then Some st
                     else if rc \<noteq> BC_OK then Some (close_client sys fd st)
                     else read_loop sys fd rs st)))"

text \<open>
  The three event bits the handler tests, the results of the sends and of the reads. The
  handler goes on with its client after resuming the others, also when that closed it.
\<close>

definition on_client_event ::
  "'x sys \<Rightarrow> int \<Rightarrow> bool \<Rightarrow> bool \<Rightarrow> bool \<Rightarrow> io_result list \<Rightarrow> read_result list \<Rightarrow> 'x daemon \<Rightarrow> 'x daemon option" where
  "on_client_event sys fd ev_out ev_in ev_hup sends reads st0 =
     (let (flushed, st) =
        (if ev_out then
           (case flush_client_tx sys fd sends (snd st0) of (rc, m) \<Rightarrow>
              if rc \<noteq> BC_OK then (False, close_client sys fd (fst st0, m))
              else (True, resume_pending_publishers sys (fst st0, m)))
         else (True, st0)) in
      if \<not> flushed then Some st
      else
        (case drain_client_shm sys fd st of
           None \<Rightarrow> None
         | Some (rc, st) \<Rightarrow>
             if rc = BC_ERR_NOMEM then Some (resume_pending_publishers sys st)
             else if rc \<noteq> BC_OK then Some (close_client sys fd st)
             else if ev_hup \<and> \<not> ev_in then Some (close_client sys fd st)
             else read_loop sys fd reads st))"

text \<open>
  An accepted connection: its descriptor, the peer's user id if the kernel tells it, and
  whether memory for a client could be had.
\<close>

definition accept_client_auth :: "u32 \<Rightarrow> u32 option \<Rightarrow> bc_status" where
  "accept_client_auth socket_uid peer =
     (if socket_uid > 0 then
        (case peer of None \<Rightarrow> BC_ERR_AUTH | Some uid \<Rightarrow> if uid \<noteq> socket_uid then BC_ERR_AUTH else BC_OK)
      else BC_OK)"

fun on_server_event :: "'x sys \<Rightarrow> (int \<times> u32 option \<times> bool) list \<Rightarrow> 'x bc_client_manager \<Rightarrow> 'x bc_client_manager" where
  "on_server_event sys [] m = m"
| "on_server_event sys ((client_fd, peer, mem) # accepts) m =
     (if accept_client_auth (mg_socket_uid m) peer \<noteq> BC_OK
      then on_server_event sys accepts (m\<lparr>mg_ext := sy_close sys client_fd (mg_ext m)\<rparr>)
      else if \<not> mem then on_server_event sys accepts (m\<lparr>mg_ext := sy_close sys client_fd (mg_ext m)\<rparr>)
      else
        let clients = link_client (new_client client_fd) (mg_clients m) in
        (case sy_add sys client_fd (mg_ext m) of (rc, x) \<Rightarrow>
           if rc \<noteq> BC_OK
           then on_server_event sys accepts
             (m\<lparr>mg_clients := unlink_client client_fd clients, mg_ext := sy_close sys client_fd x\<rparr>)
           else on_server_event sys accepts (m\<lparr>mg_clients := clients, mg_ext := x\<rparr>)))"

fun close_clients :: "'x sys \<Rightarrow> nat \<Rightarrow> 'x daemon \<Rightarrow> 'x daemon" where
  "close_clients sys 0 st = st"
| "close_clients sys (Suc n) st = (case mg_clients (snd st) of
      [] \<Rightarrow> st | c # cs \<Rightarrow> close_clients sys n (close_client sys (cl_fd c) st))"

definition bc_client_manager_close :: "'x sys \<Rightarrow> 'x daemon \<Rightarrow> 'x daemon" where
  "bc_client_manager_close sys st = close_clients sys (length (mg_clients (snd st))) st"

end
