(* ===== verification/Bus_World.thy ===== *)
theory Bus_World
  imports Bus_Traces
begin

text \<open>
  What the message bus keeps of the world behind it. The delivery callback and the send
  operations are the only ways the bus acts on the world, so every reflexive and transitive
  relation that each of these calls keeps is kept by publishing and by inbound messages; and
  apart from the statistics, the sequence number and the reassembly table the bus itself does
  not change.
\<close>

locale bus_world =
  fixes env :: "'w bus_env" and R :: "'w \<Rightarrow> 'w \<Rightarrow> bool"
  assumes R_refl: "R w w"
    and R_trans: "R u v \<Longrightarrow> R v w \<Longrightarrow> R u w"
    and R_deliver: "env_deliver env = Some f \<Longrightarrow> R w (snd (f fd frame w))"
    and R_send: "env_send env i = Some g \<Longrightarrow> R w (snd (g frame w))"
begin

lemma deliver_all_R:
  "env_deliver env = Some f \<Longrightarrow> R w (snd (deliver_all f frame fds w))"
proof (induction fds arbitrary: w)
  case Nil
  then show ?case using R_refl by simp
next
  case (Cons fd fds)
  have "R w (snd (f fd frame w))" using R_deliver [OF Cons.prems] .
  moreover have "R (snd (f fd frame w)) (snd (deliver_all f frame fds (snd (f fd frame w))))"
    using Cons by blast
  ultimately show ?case using R_trans by (simp add: case_prod_beta)
qed

lemma deliver_loop_R: "R w (snd (deliver_loop (env_deliver env) src msg subs cnts w))"
proof (cases "env_deliver env")
  case None
  have "snd (deliver_loop None src msg subs cnts w) = w"
    by (induction subs arbitrary: cnts) auto
  then show ?thesis using None R_refl by simp
next
  case (Some f)
  then show ?thesis
    using deliver_all_R [OF Some] by (cases cnts) (simp add: deliver_loop_all case_prod_beta)
qed

lemma deliver_local_R:
  "bc_message_bus_deliver_local env src msg (bus, w) = (res, bus', w') \<Longrightarrow> R w w' \<and> same_but_stats bus bus'"
  using deliver_loop_R [of w src msg "bus_subscriptions bus" "(0, 0, 0)"]
  by (auto simp: bc_message_bus_deliver_local_def Let_def split: prod.splits if_splits)

lemma emit_R:
  "emit_network_frame env t piece (bus, w) = (rc, bus', w') \<Longrightarrow> R w w' \<and> same_but_stats bus bus'"
proof -
  assume e: "emit_network_frame env t piece (bus, w) = (rc, bus', w')"
  show ?thesis
  proof (cases "encodable piece \<and> env_send env t \<noteq> None")
    case False
    then show ?thesis using e R_refl by (auto simp: emit_network_frame_def encode_eq split: if_splits)
  next
    case True
    then obtain g where g: "env_send env t = Some g" by auto
    show ?thesis
      using e True g R_send [OF g, of w "wire piece"]
      by (auto simp: emit_network_frame_def encode_eq split: prod.splits if_splits)
  qed
qed

lemma emit_pieces_R:
  "emit_pieces (emit_network_frame env t) ps (bus, w) = (rc, bus', w') \<Longrightarrow> R w w' \<and> same_but_stats bus bus'"
proof (induction ps arbitrary: bus w)
  case Nil
  then show ?case using R_refl by simp
next
  case (Cons p ps)
  obtain rc1 bus1 w1 where e: "emit_network_frame env t p (bus, w) = (rc1, bus1, w1)" by (metis prod_cases3)
  from emit_R [OF e] Cons show ?case
    by (auto simp: e split: if_splits intro: R_trans same_but_stats_trans)
qed

lemma send_R:
  assumes s: "send_on_transport env t msg (bus, w) = (rc, bus', w')"
  shows "R w w' \<and> same_but_stats bus bus'"
proof -
  let ?emit = "emit_network_frame env t"
  let ?big = "length (m_payload msg) > BC_FRAG_CHUNK_MAX"
  let ?bus = "bump (frag_tx_update (\<lambda>x. x + 1)) bus"
  obtain rc1 bus1 w1 where r: "(if ?big then bc_fragment_publish msg ?emit (?bus, w) else ?emit msg (bus, w)) =
      (rc1, bus1, w1)" by (metis prod_cases3)
  have o: "w' = w1" "same_but_stats bus1 bus'"
    using s r by (auto simp: send_on_transport_def split: if_splits)
  have "R w w1 \<and> same_but_stats bus bus1"
  proof (cases ?big)
    case True
    then show ?thesis
      using r R_refl emit_pieces_R [of t "fragments msg" ?bus w rc1 bus1 w1]
      by (auto simp: bc_fragment_publish_def split: if_splits)
  next
    case False
    then show ?thesis using r emit_R by simp
  qed
  then show ?thesis using o same_but_stats_trans by blast
qed

lemma publish_local_R:
  "publish_local env src msg (bus, w) = (res, bus', w') \<Longrightarrow> R w w' \<and> same_but_stats bus bus'"
proof -
  assume p: "publish_local env src msg (bus, w) = (res, bus', w')"
  obtain r1 bus1 w1 where d: "bc_message_bus_deliver_local env src msg (bus, w) = (r1, bus1, w1)"
    by (metis prod_cases3)
  show ?thesis
    using p deliver_local_R [OF d] R_refl
    by (auto simp: publish_local_def d split: if_splits sum.splits)
qed

lemma publish_network_R:
  "publish_network env msg l (bus, w) = (rc, bus', w') \<Longrightarrow> R w w' \<and> same_but_stats bus bus'"
proof -
  assume p: "publish_network env msg l (bus, w) = (rc, bus', w')"
  show ?thesis
  proof (cases "route env msg")
    case (Inl e)
    then show ?thesis using p R_refl by (cases l) (auto simp: publish_network_def split: if_splits)
  next
    case (Inr t)
    obtain r1 bus1 w1 where s: "send_on_transport env t msg (bus, w) = (r1, bus1, w1)" by (metis prod_cases3)
    show ?thesis
      using p send_R [OF s] Inr s by (cases l) (auto simp: publish_network_def split: if_splits)
  qed
qed

lemma publish_R:
  assumes "bc_message_bus_publish env src msg0 (bus0, w) = (rc, bus', w')"
  shows "R w w' \<and> same_but_stats (fst (stamp bus0 msg0)) bus'"
proof -
  obtain bus msg where st: "stamp bus0 msg0 = (bus, msg)" by force
  obtain r1 bus1 w1 where l: "publish_local env src msg (bus, w) = (r1, bus1, w1)" by (metis prod_cases3)
  note lR = publish_local_R [OF l]
  show ?thesis
  proof (cases "need_network bus msg")
    case True
    then have "publish_network env msg r1 (bus1, w1) = (rc, bus', w')"
      using assms st l by (cases r1) (simp add: bc_message_bus_publish_def)
    from publish_network_R [OF this] show ?thesis
      using lR st R_trans same_but_stats_trans by auto
  next
    case False
    then show ?thesis using assms st l lR by (cases r1) (auto simp: bc_message_bus_publish_def)
  qed
qed

lemma deliver_inbound_R:
  "deliver_inbound env msg (bus, w) = (rc, bus', w') \<Longrightarrow> R w w' \<and> same_but_stats bus bus'"
proof -
  assume i: "deliver_inbound env msg (bus, w) = (rc, bus', w')"
  obtain r1 bus1 w1 where d: "bc_message_bus_deliver_local env (- 1) msg (bus, w) = (r1, bus1, w1)"
    by (metis prod_cases3)
  show ?thesis
    using i deliver_local_R [OF d] R_refl
    by (auto simp: deliver_inbound_def d split: if_splits sum.splits)
qed

lemma forward_R:
  "forward_message env msg ex (bus, w) = (rc, bus', w') \<Longrightarrow> R w w' \<and> same_but_stats bus bus'"
proof -
  assume f: "forward_message env msg ex (bus, w) = (rc, bus', w')"
  show ?thesis
  proof (cases "route env msg")
    case (Inl e)
    then show ?thesis using f R_refl by (auto simp: forward_message_def split: if_splits)
  next
    case (Inr t)
    obtain r1 bus1 w1 where s: "send_on_transport env t msg (bus, w) = (r1, bus1, w1)" by (metis prod_cases3)
    show ?thesis
      using f send_R [OF s] Inr s R_refl by (auto simp: forward_message_def split: if_splits)
  qed
qed

lemma ack_R: "send_ack env t msg (bus, w) = (rc, bus', w') \<Longrightarrow> R w w' \<and> same_but_stats bus bus'"
proof -
  assume a: "send_ack env t msg (bus, w) = (rc, bus', w')"
  obtain r1 bus1 w1 where s: "send_on_transport env t (ack_message (bus_node_id bus) msg) (bus, w) = (r1, bus1, w1)"
    by (metis prod_cases3)
  show ?thesis using a send_R [OF s] s by (auto simp: send_ack_def split: if_splits)
qed

lemma inbound_complete_R:
  assumes "inbound_complete env msg from (bus, w) = (rc, bus', w')"
  shows "R w w' \<and> same_but_stats bus bus'"
proof (cases "m_dst_node msg \<noteq> 0 \<and> m_dst_node msg \<noteq> bus_node_id bus")
  case True
  obtain r1 bus1 w1 where f: "forward_message env msg from (bus, w) = (r1, bus1, w1)" by (metis prod_cases3)
  show ?thesis using assms forward_R [OF f] f True by (auto simp: inbound_complete_def split: if_splits)
next
  case False
  obtain r1 bus1 w1 where d: "deliver_inbound env msg (bus, w) = (r1, bus1, w1)" by (metis prod_cases3)
  note dR = deliver_inbound_R [OF d]
  obtain r2 bus2 w2 where f: "(if should_forward bus1 msg then forward_message env msg from (bus1, w1)
      else (BC_OK, bus1, w1)) = (r2, bus2, w2)" by (metis prod_cases3)
  have fR: "R w1 w2 \<and> same_but_stats bus1 bus2"
    using f forward_R [of msg "from" bus1 w1 r2 bus2 w2] R_refl by (auto split: if_splits)
  have two: "R w w2 \<and> same_but_stats bus bus2" using dR fR R_trans same_but_stats_trans by blast
  obtain r3 bus3 w3 where a: "send_ack env (the from) msg (bus2, w2) = (r3, bus3, w3)" by (metis prod_cases3)
  have three: "R w w3 \<and> same_but_stats bus bus3" using two ack_R [OF a] R_trans same_but_stats_trans by blast
  have e: "(rc, bus', w') = (if r1 \<noteq> BC_OK then (r1, bus1, w1)
      else if r2 \<noteq> BC_OK \<and> bus_require_route bus2 then (r2, bus2, w2)
      else case from of
          Some t \<Rightarrow> if m_qos msg = BC_QOS_AT_LEAST_ONCE
            then (case send_ack env t msg (bus2, w2) of (_, b, v) \<Rightarrow> (BC_OK, b, v)) else (BC_OK, bus2, w2)
        | None \<Rightarrow> (BC_OK, bus2, w2))"
    unfolding assms [symmetric] inbound_complete_def prod.case d if_not_P [OF False] f by (rule refl)
  show ?thesis
    using e dR two three a by (cases "from") (auto split: if_split_asm)
qed

text \<open>An inbound message is always handled, and the reassembly table stays well formed.\<close>

lemma handle_inbound_R:
  assumes wf: "reasm_wf (bus_reasm bus)"
  obtains rc bus' w' where "bc_message_bus_handle_inbound env msg from (bus, w) = Some (rc, bus', w')"
    "R w w'" "reasm_wf (bus_reasm bus')"
proof -
  let ?h = "bc_message_bus_handle_inbound env msg from (bus, w)"
  have "?h \<noteq> None"
    using reasm_feed_defined [OF wf, of msg]
    by (simp add: bc_message_bus_handle_inbound_def Let_def del: not_None_eq split: option.split sum.split prod.split)
  then obtain rc bus' w' where h: "?h = Some (rc, bus', w')" by (metis option.exhaust prod_cases3)
  have fed: "reasm_wf r" if "bc_reasm_feed (bus_reasm bus) msg = Some (r, res)" for r res
    using reasm_feed_safe_raw [OF wf that] .
  have "R w w' \<and> reasm_wf (bus_reasm bus')"
  proof (cases "inbound_message bus msg")
    case None
    then show ?thesis using handle_inbound_incomplete [OF h None] wf fed R_refl by auto
  next
    case (Some m)
    from handle_inbound_complete [OF h Some] obtain bus1 where
      c: "inbound_complete env m from (bus1, w) = (rc, bus', w')"
      "bus_reasm bus1 = bus_reasm bus \<or> (\<exists>res. bc_reasm_feed (bus_reasm bus) msg = Some (bus_reasm bus1, res))"
      by blast
    have "R w w' \<and> same_but_stats bus1 bus'" using inbound_complete_R [OF c(1)] .
    moreover have "reasm_wf (bus_reasm bus1)" using c(2) wf fed by auto
    ultimately show ?thesis by (simp add: same_but_stats_fields)
  qed
  then show thesis using that [OF h] by blast
qed

end

lemma stamp_keeps:
  "bus_subscriptions (fst (stamp bus msg)) = bus_subscriptions bus"
  "bus_node_id (fst (stamp bus msg)) = bus_node_id bus"
  "bus_reasm (fst (stamp bus msg)) = bus_reasm bus"
  "bus_require_route (fst (stamp bus msg)) = bus_require_route bus"
  by (simp_all add: stamp_def Let_def)

text \<open>The recording environment only ever appends to its trace.\<close>

interpretation log_world: bus_world "log_env config names st dt" "\<lambda>w w'. \<exists>es. w' = w @ es"
  by unfold_locales (auto simp: log_env_def)

end
