(* ===== verification/Client_Receive.thy ===== *)
theory Client_Receive
  imports Client_Manager Bus_World
begin

text \<open>
  The receive path of the clients: what handling one message leaves alone, that the loops
  end, how messages are cut out of the byte stream of a client, and which messages the
  daemon never gets past.
\<close>

section \<open>What a delivery leaves alone\<close>

text \<open>The receiving side of a client: its descriptor, its buffer, and its inbound ring.\<close>

definition recv_side :: "bc_client_ctx \<Rightarrow> int \<times> byte list \<times> bc_shm_ring option" where
  "recv_side c = (cl_fd c, cl_rx c, map_option fst (cl_shm c))"

definition recv_sides :: "'x bc_client_manager \<Rightarrow> (int \<times> byte list \<times> bc_shm_ring option) list" where
  "recv_sides m = map recv_side (mg_clients m)"

lemma find_client_Cons [simp]:
  "find_client (c # cs) fd = (if cl_fd c = fd then Some c else find_client cs fd)"
  "find_client [] fd = None"
  by (simp_all add: find_client_def)

lemma find_client_fd: "find_client cs fd = Some c \<Longrightarrow> cl_fd c = fd"
  by (induction cs) (auto split: if_splits)

lemma map_update_client:
  "(\<And>c. find_client cs fd = Some c \<Longrightarrow> g (f c) = g c) \<Longrightarrow> map g (update_client fd f cs) = map g cs"
  by (induction cs) auto

lemma find_update_client:
  "(\<And>c. cl_fd (f c) = cl_fd c) \<Longrightarrow>
     find_client (update_client fd f cs) fd' =
       (if fd' = fd then map_option f (find_client cs fd') else find_client cs fd')"
proof (induction cs)
  case Nil
  then show ?case by simp
next
  case (Cons c cs)
  then show ?case using Cons.prems [of c] by auto
qed

lemma recv_sides_set:
  "(\<And>c. find_client (mg_clients m) fd = Some c \<Longrightarrow> recv_side (f c) = recv_side c) \<Longrightarrow>
     recv_sides (set_client fd f m) = recv_sides m"
  by (simp add: recv_sides_def set_client_def map_update_client)

lemma recv_sides_ext [simp]:
  "recv_sides (m\<lparr>mg_ext := x\<rparr>) = recv_sides m" "recv_sides (m\<lparr>mg_fault := b\<rparr>) = recv_sides m"
  by (simp_all add: recv_sides_def)

lemma tx_enqueue_side: "recv_side (snd (tx_enqueue c data)) = recv_side c"
  by (simp add: tx_enqueue_def recv_side_def Let_def)

lemma enqueue_sides: "recv_sides (snd (enqueue_client_tx sys fd data m)) = recv_sides m"
proof (cases "find_client (mg_clients m) fd")
  case None
  then show ?thesis by (simp add: enqueue_client_tx_def)
next
  case (Some c)
  obtain rc c' where e: "tx_enqueue c data = (rc, c')" by force
  have "recv_side c' = recv_side c" using tx_enqueue_side [of c data] e by simp
  then have "recv_sides (set_client fd (\<lambda>_. c') m) = recv_sides m"
    using Some by (intro recv_sides_set) simp
  then show ?thesis
    using Some e by (simp add: enqueue_client_tx_def Let_def case_prod_beta)
qed

lemma deliver_sides: "recv_sides (snd (deliver_to_client sys fd data m)) = recv_sides m"
proof (cases "find_client (mg_clients m) fd")
  case None
  then show ?thesis by (simp add: deliver_to_client_def)
next
  case (Some c)
  show ?thesis
  proof (cases "cl_shm c")
    case None
    then show ?thesis using Some enqueue_sides by (simp add: deliver_to_client_def)
  next
    case shm: (Some rings)
    obtain rx tx where r: "rings = (rx, tx)" by force
    have "recv_sides (set_client fd (\<lambda>c. c\<lparr>cl_shm := Some (rx, t)\<rparr>) m) = recv_sides m" for t
      using Some shm r by (intro recv_sides_set) (simp add: recv_side_def)
    then show ?thesis
      using Some shm r
      by (simp add: deliver_to_client_def Let_def enqueue_sides split: option.split prod.split)
  qed
qed

interpretation daemon_world: bus_world "daemon_env sys" "\<lambda>m m'. recv_sides m' = recv_sides m"
  by unfold_locales (auto simp: daemon_env_def deliver_sides split: prod.split)

section \<open>What handling one message leaves alone\<close>

lemma find_sides:
  "recv_sides m' = recv_sides m \<Longrightarrow>
     map_option recv_side (find_client (mg_clients m') fd) = map_option recv_side (find_client (mg_clients m) fd)"
proof -
  have "map_option recv_side (find_client cs fd) = find (\<lambda>(i, _, _). i = fd) (map recv_side cs)" for cs
    by (induction cs) (auto simp: recv_side_def)
  then show "recv_sides m' = recv_sides m \<Longrightarrow> ?thesis" by (simp add: recv_sides_def)
qed

lemma client_rx_side: "client_rx m fd = (case map_option recv_side (find_client (mg_clients m) fd) of
    None \<Rightarrow> [] | Some (_, rx, _) \<Rightarrow> rx)"
  by (cases "find_client (mg_clients m) fd") (simp_all add: client_rx_def recv_side_def)

lemma client_ring_side: "client_ring m fd = (case map_option recv_side (find_client (mg_clients m) fd) of
    None \<Rightarrow> None | Some (_, _, ring) \<Rightarrow> ring)"
  by (cases "find_client (mg_clients m) fd") (simp_all add: client_ring_def recv_side_def)

text \<open>
  A message changes the receiving side of no client, except that setting up shared memory
  gives the sender a fresh, empty ring.
\<close>

definition fresh_ring :: "'x bc_client_manager \<Rightarrow> int \<Rightarrow> bool" where
  "fresh_ring m fd \<longleftrightarrow> (\<exists>ring. client_ring m fd = Some ring \<and> ring_data ring = 0)"

definition keeps_receiving :: "int \<Rightarrow> 'x bc_client_manager \<Rightarrow> 'x bc_client_manager \<Rightarrow> bool" where
  "keeps_receiving fd m m' \<longleftrightarrow>
     (\<forall>fd'. client_rx m' fd' = client_rx m fd') \<and>
     (\<forall>fd'. client_ring m' fd' = client_ring m fd' \<or> fd' = fd \<and> fresh_ring m' fd)"

lemma keeps_receiving_sides: "recv_sides m' = recv_sides m \<Longrightarrow> keeps_receiving fd m m'"
proof -
  assume s: "recv_sides m' = recv_sides m"
  have "client_rx m' fd' = client_rx m fd'" "client_ring m' fd' = client_ring m fd'" for fd'
    unfolding client_rx_side client_ring_side find_sides [OF s] by (rule refl)+
  then show ?thesis by (simp add: keeps_receiving_def)
qed

lemma send_stats_sides:
  "send_stats_reply sys fd (bus, m) = (rc, bus', m') \<Longrightarrow> recv_sides m' = recv_sides m"
proof -
  define stats where "stats = stats_bytes (bus_stats bus)"
  define h where "h = put_ipc_header (empty_ipc_header\<lparr>ih_magic := BC_IPC_MAGIC, ih_version := BC_IPC_VERSION,
           ih_type := ipc_code BC_IPC_STATS, ih_payload_len := of_nat (length stats)\<rparr>)"
  obtain r1 m1 where a: "enqueue_client_tx sys fd h m = (r1, m1)" by force
  obtain r2 m2 where b: "enqueue_client_tx sys fd stats m1 = (r2, m2)" by force
  have "recv_sides m1 = recv_sides m" "recv_sides m2 = recv_sides m1"
    using enqueue_sides [of sys fd h m] enqueue_sides [of sys fd stats m1] a b by simp_all
  moreover assume "send_stats_reply sys fd (bus, m) = (rc, bus', m')"
  ultimately show ?thesis
    unfolding send_stats_reply_def stats_def [symmetric] Let_def case_prod_conv h_def [symmetric] a b
    by (auto split: if_splits)
qed

lemma setup_shm_keeps:
  assumes s: "setup_client_shm sys fd m = (rc, m')"
  shows "keeps_receiving fd m m'"
proof -
  have id: "keeps_receiving fd m (m\<lparr>mg_ext := x\<rparr>)" for x
    by (rule keeps_receiving_sides) simp
  obtain o_mem x where mem: "sy_shm sys (mg_ext m) = (o_mem, x)" by force
  show ?thesis
  proof (cases o_mem)
    case None
    then show ?thesis using s mem id by (auto simp: setup_client_shm_def)
  next
    case (Some ab)
    obtain a b where ab: "ab = (a, b)" by force
    obtain r1 x1 where f: "sy_send_fd sys fd x = (r1, x1)" by force
    show ?thesis
    proof (cases "r1 = BC_OK")
      case False
      then show ?thesis using s mem Some ab f id by (auto simp: setup_client_shm_def Let_def)
    next
      case True
      let ?rings = "shm_rings a b"
      let ?f = "\<lambda>c. c\<lparr>cl_shm := Some (session_rx False ?rings, session_tx False ?rings)\<rparr>"
      have m': "m' = set_client fd ?f (m\<lparr>mg_ext := x1\<rparr>)"
        using s mem Some ab f True by (auto simp: setup_client_shm_def Let_def)
      have find: "find_client (mg_clients m') fd' =
          (if fd' = fd then map_option ?f (find_client (mg_clients m) fd') else find_client (mg_clients m) fd')" for fd'
        unfolding m' by (simp add: set_client_def find_update_client)
      have "ring_data (session_rx False ?rings) = 0"
        by (simp add: session_rx_def shm_rings_def init_ring_def ring_data_def)
      then show ?thesis
        unfolding keeps_receiving_def fresh_ring_def client_rx_def client_ring_def find
        by (auto split: option.split)
    qed
  qed
qed

lemma publish_keeps:
  "bc_message_bus_publish (daemon_env sys) fd msg (bus, m) = (rc, bus', m') \<Longrightarrow> keeps_receiving fd m m'"
  using daemon_world.publish_R [of sys fd msg bus m rc bus' m'] by (intro keeps_receiving_sides) simp

lemma payload_keeps:
  assumes "process_ipc_payload sys fd h ch t p (bus, m) = (rc, bus', m')"
  shows "keeps_receiving fd m m'"
proof -
  have id: "keeps_receiving fd m m" by (rule keeps_receiving_sides) simp
  consider "ih_type h = ipc_code BC_IPC_SUBSCRIBE" | "ih_type h = ipc_code BC_IPC_PUBLISH"
    | "ih_type h = ipc_code BC_IPC_STATS" | "ih_type h = ipc_code BC_IPC_SHM_SETUP"
    | "ih_type h \<notin> {ipc_code BC_IPC_SUBSCRIBE, ipc_code BC_IPC_PUBLISH, ipc_code BC_IPC_STATS, ipc_code BC_IPC_SHM_SETUP}"
    by blast
  then show ?thesis
  proof cases
    case 2
    then show ?thesis using assms by (intro publish_keeps) (simp add: process_ipc_payload_def)
  next
    case 3
    then show ?thesis using assms send_stats_sides keeps_receiving_sides by (simp add: process_ipc_payload_def) blast
  next
    case 4
    obtain r m1 where s: "setup_client_shm sys fd m = (r, m1)" by force
    then have "m' = m1" using assms 4 by (simp add: process_ipc_payload_def)
    then show ?thesis using setup_shm_keeps [OF s] by simp
  qed (use assms id in \<open>auto simp: process_ipc_payload_def split: if_splits\<close>)
qed

lemma frame_keeps:
  assumes "process_frame_buffer sys fd data (bus, m) = (rc, bus', m')"
  shows "keeps_receiving fd m m'"
proof -
  have id: "keeps_receiving fd m m" by (rule keeps_receiving_sides) simp
  show ?thesis
    using assms id payload_keeps unfolding process_frame_buffer_def Let_def
    by (simp split: if_split_asm) blast+
qed

end
