(* ===== verification/Client_Stream.thy ===== *)
theory Client_Stream
  imports Client_Receive
begin

text \<open>
  The client protocol as a byte stream: the framing of the messages, their round trip, the
  end of the ring loop, and the messages the daemon never gets past.
\<close>

section \<open>The ring loop ends\<close>

lemma ring_read_shrinks:
  assumes "bc_shm_ring_read r cap = Some (Inr f, r')"
  shows "unat (ring_data r') < unat (ring_data r)"
proof -
  obtain len where p: "bc_shm_ring_peek_len r = Some (Inr len)" "r' = r\<lparr>rg_tail := rg_tail r + (4 + len)\<rparr>"
    using assms by (auto simp: bc_shm_ring_read_def split: option.splits sum.splits if_splits)
  then have a: "4 + unat len \<le> unat (ring_data r)"
    by (auto simp: bc_shm_ring_peek_len_def Let_def split: if_splits option.splits)
  have "ring_data r' = ring_data r - (4 + len)"
    by (simp add: p(2) ring_data_def)
  moreover have "unat (4 + len) = 4 + unat len"
    using a unat_bound [of "ring_data r"] by (subst unat_plus_simple [THEN iffD1]) (auto simp: word_le_nat_alt unat_word_ariths)
  ultimately show ?thesis
    using a by (simp add: unat_sub word_le_nat_alt)
qed

definition ring_load_of :: "'x bc_client_manager \<Rightarrow> int \<Rightarrow> nat" where
  "ring_load_of m fd = (case client_ring m fd of None \<Rightarrow> 0 | Some ring \<Rightarrow> unat (ring_data ring))"

lemma client_ring_set:
  "client_ring m fd = Some ring \<Longrightarrow> client_ring (set_client_ring fd ring' m) fd = Some ring'"
  by (auto simp: client_ring_def set_client_ring_def set_client_def find_update_client split: option.splits)

lemma drain_loop_total: "ring_load_of (snd st) fd < fuel \<Longrightarrow> drain_loop sys fd fuel st \<noteq> None"
proof (induction fuel arbitrary: st)
  case 0
  then show ?case by simp
next
  case (Suc fuel)
  obtain bus m where st: "st = (bus, m)" by force
  show ?case
  proof (cases "client_ring m fd")
    case None
    then show ?thesis by (simp add: st)
  next
    case (Some ring)
    show ?thesis
    proof (cases "bc_shm_ring_read ring BC_CLIENT_FRAME_MAX")
      case None
      then show ?thesis using Some by (simp add: st)
    next
      case read: (Some res)
      show ?thesis
      proof (cases "fst res")
        case (Inl rc)
        then show ?thesis using Some read by (cases res) (simp add: st)
      next
        case (Inr frame)
        then obtain ring' where r: "bc_shm_ring_read ring BC_CLIENT_FRAME_MAX = Some (Inr frame, ring')"
          using read by (cases res) auto
        obtain rc bus1 m1 where p: "process_frame_buffer sys fd frame (bus, set_client_ring fd ring' m) = (rc, bus1, m1)"
          by (metis prod_cases3)
        have "ring_load_of m1 fd < ring_load_of m fd"
          using frame_keeps [OF p] ring_read_shrinks [OF r] client_ring_set [OF Some, of ring'] Some
          unfolding keeps_receiving_def fresh_ring_def ring_load_of_def
          by (metis (no_types, lifting) option.simps(5) unat_0 gr_zeroI not_less_zero)
        then have "drain_loop sys fd fuel (bus1, m1) \<noteq> None"
          using Suc by (simp add: st)
        then show ?thesis using Some r p by (simp add: st)
      qed
    qed
  qed
qed

lemma drain_client_total: "drain_client_shm sys fd st \<noteq> None"
proof -
  have "ring_load_of (snd st) fd < drain_fuel (snd st) fd"
    by (simp add: ring_load_of_def drain_fuel_def split: option.split)
  from drain_loop_total [OF this] show ?thesis by (simp add: drain_client_shm_def)
qed

text \<open>
  C30. The loop that drains a client's shared-memory ring ends for every content of the ring,
  its counters and lengths included: each frame it takes uses up some of the announced
  bytes, and no message it handles adds to them.
\<close>

theorem drain_terminates: "drain_client_shm sys fd st \<noteq> None"
  by (rule drain_client_total)

section \<open>Cutting messages out of the stream\<close>

definition ipc_look :: "byte list \<Rightarrow> verdict" where
  "ipc_look rx =
     (if length rx < IPC_HEADER_V1_SIZE then More
      else
        let header = get_ipc_header (take IPC_HEADER_SIZE rx) in
        if ih_magic header \<noteq> BC_IPC_MAGIC then Bad BC_ERR_INVALID
        else if length rx < ipc_frame_len header then More
        else if ipc_frame_len header > BC_CLIENT_FRAME_MAX then Bad BC_ERR_INVALID
        else Frame (ipc_frame_len header))"

lemma header_append:
  assumes "IPC_HEADER_V1_SIZE \<le> length a"
  shows "ih_magic (get_ipc_header (take IPC_HEADER_SIZE (a @ b))) = ih_magic (get_ipc_header (take IPC_HEADER_SIZE a))"
    and "ipc_frame_len (get_ipc_header (take IPC_HEADER_SIZE (a @ b))) =
      ipc_frame_len (get_ipc_header (take IPC_HEADER_SIZE a))"
proof -
  have "take IPC_HEADER_V1_SIZE (take IPC_HEADER_SIZE (a @ b)) = take IPC_HEADER_V1_SIZE (take IPC_HEADER_SIZE a)"
    using assms by (simp add: ipc_sizes)
  from ipc_header_prefix [OF this]
  show "ih_magic (get_ipc_header (take IPC_HEADER_SIZE (a @ b))) = ih_magic (get_ipc_header (take IPC_HEADER_SIZE a))"
    "ipc_frame_len (get_ipc_header (take IPC_HEADER_SIZE (a @ b))) =
      ipc_frame_len (get_ipc_header (take IPC_HEADER_SIZE a))"
    by (simp_all add: ipc_frame_len_def)
qed

lemma ipc_frame_len_pos: "IPC_HEADER_V1_SIZE \<le> ipc_frame_len h"
  using ipc_header_size_pos [of "ih_version h"] by (simp add: ipc_frame_len_def)

interpretation ipc: framing ipc_look
proof unfold_locales
  fix xs ys :: "byte list" and n rc
  show "0 < n \<and> n \<le> length xs" if "ipc_look xs = Frame n"
    using that ipc_frame_len_pos [of "get_ipc_header (take IPC_HEADER_SIZE xs)"]
    by (auto simp: ipc_look_def Let_def ipc_sizes split: if_splits)
  show "rc \<noteq> BC_OK" if "ipc_look xs = Bad rc"
    using that by (auto simp: ipc_look_def Let_def split: if_splits)
  have l: "IPC_HEADER_V1_SIZE \<le> length xs" if "ipc_look xs \<noteq> More"
    using that by (auto simp: ipc_look_def split: if_splits)
  show "ipc_look (xs @ ys) = Frame n" if "ipc_look xs = Frame n"
    using that l header_append [of xs ys] by (auto simp: ipc_look_def Let_def split: if_splits)
  show "ipc_look (xs @ ys) = Bad rc" if "ipc_look xs = Bad rc"
    using that l header_append [of xs ys] by (auto simp: ipc_look_def Let_def split: if_splits)
qed

definition ipc_handle :: "'x sys \<Rightarrow> int \<Rightarrow> byte list \<Rightarrow> 'x daemon \<Rightarrow> (bc_status \<times> 'x daemon) option" where
  "ipc_handle sys fd f st = Some (process_frame_buffer sys fd f st)"

lemma process_one_look:
  "process_one_message sys fd rx st =
     (case ipc_look rx of
        More \<Rightarrow> (BC_ERR_NOT_FOUND, rx, st)
      | Bad rc \<Rightarrow> (rc, rx, st)
      | Frame n \<Rightarrow> (case process_frame_buffer sys fd (take n rx) st of (rc, st') \<Rightarrow>
          if rc \<noteq> BC_OK then (rc, rx, st') else (BC_OK, drop n rx, st')))"
  by (simp add: process_one_message_def ipc_look_def Let_def)

lemma process_messages_consume:
  "\<exists>rc rx' st'. consume ipc_look (ipc_handle sys fd) rx st = Some (rc, rx', st') \<and>
     process_messages sys fd rx st = (if rc = BC_ERR_NOT_FOUND then BC_OK else rc, rx', st')"
proof (induction "length rx" arbitrary: rx st rule: less_induct)
  case less
  show ?case
  proof (cases "ipc_look rx")
    case More
    then show ?thesis
      by (simp add: consume.simps [of ipc_look "ipc_handle sys fd" rx st]
          process_messages.simps [of sys fd rx st] process_one_look)
  next
    case (Bad rc)
    then show ?thesis using ipc.bad_status [OF Bad]
      by (simp add: consume.simps [of ipc_look "ipc_handle sys fd" rx st]
          process_messages.simps [of sys fd rx st] process_one_look)
  next
    case (Frame n)
    note n = ipc.frame_fits [OF Frame]
    obtain rc st1 where p: "process_frame_buffer sys fd (take n rx) st = (rc, st1)" by (metis surj_pair)
    show ?thesis
    proof (cases "rc = BC_OK")
      case False
      then show ?thesis using Frame n p
        by (simp add: consume.simps [of ipc_look "ipc_handle sys fd" rx st] ipc_handle_def
            process_messages.simps [of sys fd rx st] process_one_look)
    next
      case True
      have "consume ipc_look (ipc_handle sys fd) rx st = consume ipc_look (ipc_handle sys fd) (drop n rx) st1"
        using p True by (intro ipc.consume_step [OF Frame]) (simp add: ipc_handle_def)
      moreover have "process_messages sys fd rx st = process_messages sys fd (drop n rx) st1"
        using Frame n p True by (simp add: process_messages.simps [of sys fd rx st] process_one_look)
      moreover have "length (drop n rx) < length rx" using n by (cases rx) auto
      ultimately show ?thesis using less by metis
    qed
  qed
qed

text \<open>The same reads, handled one by one as the daemon does.\<close>

fun feed_client :: "'x sys \<Rightarrow> int \<Rightarrow> byte list list \<Rightarrow> byte list \<Rightarrow> 'x daemon \<Rightarrow> bc_status \<times> byte list \<times> 'x daemon" where
  "feed_client sys fd [] rx st = (BC_OK, rx, st)"
| "feed_client sys fd (c # cs) rx st =
     (case process_messages sys fd (rx @ c) st of (rc, rx', st') \<Rightarrow>
        if rc \<noteq> BC_OK then (rc, rx', st') else feed_client sys fd cs rx' st')"

lemma feed_client_feed:
  "feed (consume ipc_look (ipc_handle sys fd)) cs rx st = Some (BC_OK, rx', st') \<Longrightarrow>
     feed_client sys fd cs rx st = (BC_OK, rx', st')"
proof (induction cs arbitrary: rx st)
  case Nil
  then show ?case by simp
next
  case (Cons c cs)
  from feed_ConsD [OF Cons.prems] obtain rx1 st1 where
    f: "consume ipc_look (ipc_handle sys fd) (rx @ c) st = Some (BC_OK, rx1, st1)"
      "feed (consume ipc_look (ipc_handle sys fd)) cs rx1 st1 = Some (BC_OK, rx', st')" by blast
  then have "process_messages sys fd (rx @ c) st = (BC_OK, rx1, st1)"
    using process_messages_consume [of sys fd "rx @ c" st] by auto
  then show ?case using Cons.IH f by simp
qed

text \<open>The messages handled one by one, each with success.\<close>

fun handled :: "'x sys \<Rightarrow> int \<Rightarrow> byte list list \<Rightarrow> 'x daemon \<Rightarrow> 'x daemon \<Rightarrow> bool" where
  "handled sys fd [] st st' \<longleftrightarrow> st = st'"
| "handled sys fd (f # fs) st st' \<longleftrightarrow>
     (case process_frame_buffer sys fd f st of (rc, st1) \<Rightarrow> rc = BC_OK \<and> handled sys fd fs st1 st')"

lemma handled_all: "handled sys fd fs st st' \<Longrightarrow> handle_all (ipc_handle sys fd) fs st = Some (BC_OK, st')"
  by (induction fs arbitrary: st) (auto simp: ipc_handle_def split: prod.splits)

section \<open>A message and its parts\<close>

definition ipc_wire :: "bc_ipc_header \<Rightarrow> byte list \<Rightarrow> byte list \<Rightarrow> byte list \<Rightarrow> byte list" where
  "ipc_wire h channel topic payload = put_ipc_header h @ channel @ topic @ payload"

definition ipc_request :: "bc_ipc_header \<Rightarrow> byte list \<Rightarrow> byte list \<Rightarrow> byte list \<Rightarrow> bool" where
  "ipc_request h channel topic payload \<longleftrightarrow>
     ih_magic h = BC_IPC_MAGIC \<and> BC_IPC_VERSION \<le> ih_version h \<and>
     unat (ih_channel_len h) = length channel \<and> length channel < BC_MAX_CHANNEL_LEN \<and> 0 \<notin> set channel \<and>
     unat (ih_topic_len h) = length topic \<and> length topic < BC_MAX_TOPIC_LEN \<and> topic \<noteq> [] \<and> 0 \<notin> set topic \<and>
     unat (ih_payload_len h) = length payload \<and> length payload \<le> BC_MAX_PAYLOAD_LEN"

lemma request_parts:
  assumes "ipc_request h c t p"
  shows "get_ipc_header (take IPC_HEADER_SIZE (ipc_wire h c t p @ r)) = h"
    and "ipc_frame_len h = length (ipc_wire h c t p)" and "bc_ipc_header_size (ih_version h) = IPC_HEADER_SIZE"
    and "length (ipc_wire h c t p) = IPC_HEADER_SIZE + length c + length t + length p"
proof -
  show "get_ipc_header (take IPC_HEADER_SIZE (ipc_wire h c t p @ r)) = h"
    using ipc_header.read_enc [of h "c @ t @ p @ r"] by (simp only: ipc_wire_def append_assoc)
  show s: "bc_ipc_header_size (ih_version h) = IPC_HEADER_SIZE"
    using assms by (simp add: bc_ipc_header_size_def ipc_request_def)
  show l: "length (ipc_wire h c t p) = IPC_HEADER_SIZE + length c + length t + length p"
    by (simp add: ipc_wire_def ipc_header.enc_len)
  show "ipc_frame_len h = length (ipc_wire h c t p)"
    using assms s l by (simp add: ipc_frame_len_def ipc_request_def)
qed

lemma blit_name:
  "length s < n \<Longrightarrow> 0 \<notin> set s \<Longrightarrow> (blit (zeros n) 0 s)[length s := 0] = canon n s"
proof -
  assume a: "length s < n" "0 \<notin> set s"
  then obtain k where k: "n = length s + Suc k" by (metis less_iff_Suc_add add_Suc_right)
  have "drop (length s) (zeros n) = 0 # zeros k"
    unfolding zeros_def k replicate_add by simp
  then show ?thesis
    using a by (simp add: blit_def canon_def cstr_no_zero list_update_append k)
qed

lemma process_request:
  assumes "ipc_request h c t p"
  shows "process_frame_buffer sys fd (ipc_wire h c t p) st =
    process_ipc_payload sys fd h (canon BC_MAX_CHANNEL_LEN c) (canon BC_MAX_TOPIC_LEN t) p st"
proof -
  note r = request_parts(1) [OF assms, of "[]", simplified] request_parts(2-4) [OF assms]
  let ?w = "ipc_wire h c t p"
  have cut: "fld IPC_HEADER_SIZE (length c) ?w = c" "fld (IPC_HEADER_SIZE + length c) (length t) ?w = t"
    "fld (IPC_HEADER_SIZE + length c + length t) (length p) ?w = p"
    by (simp_all add: ipc_wire_def fld_def ipc_header.enc_len)
  have ok: "ipc_lengths_ok h" "ih_magic h = BC_IPC_MAGIC"
    using assms by (auto simp: ipc_lengths_ok_def ipc_request_def)
  have n: "unat (ih_channel_len h) = length c" "unat (ih_topic_len h) = length t" "unat (ih_payload_len h) = length p"
    using assms by (simp_all add: ipc_request_def)
  have "\<not> length ?w < IPC_HEADER_V1_SIZE" "\<not> length ?w < IPC_HEADER_SIZE" using r(4) by (simp_all add: ipc_sizes)
  then show ?thesis
    using blit_name [of c BC_MAX_CHANNEL_LEN] blit_name [of t BC_MAX_TOPIC_LEN] assms
    unfolding process_frame_buffer_def Let_def r(1) r(3) n
    by (simp add: ok r(2) cut ipc_request_def)
qed

lemma request_look: "ipc_request h c t p \<Longrightarrow> ipc_look (ipc_wire h c t p) = Frame (length (ipc_wire h c t p))"
proof -
  assume a: "ipc_request h c t p"
  note r = request_parts(1) [OF a, of "[]", simplified] request_parts(2-4) [OF a]
  have "ih_magic h = BC_IPC_MAGIC" using a by (simp add: ipc_request_def)
  moreover have "\<not> length (ipc_wire h c t p) < IPC_HEADER_V1_SIZE"
    "\<not> length (ipc_wire h c t p) > BC_CLIENT_FRAME_MAX"
    using a r(4) by (auto simp: ipc_request_def ipc_sizes client_caps)
  ultimately show ?thesis unfolding ipc_look_def Let_def r(1,2) by simp
qed

lemma process_one_request:
  assumes "ipc_request h channel topic payload"
  shows "process_one_message sys fd (ipc_wire h channel topic payload @ rest) st =
    (case process_ipc_payload sys fd h (canon BC_MAX_CHANNEL_LEN channel) (canon BC_MAX_TOPIC_LEN topic) payload st of
       (rc, st') \<Rightarrow> if rc = BC_OK then (BC_OK, rest, st') else (rc, ipc_wire h channel topic payload @ rest, st'))"
proof -
  have "ipc_look (ipc_wire h channel topic payload @ rest) = Frame (length (ipc_wire h channel topic payload))"
    using ipc.frame_stable [OF request_look [OF assms]] .
  then show ?thesis
    by (simp add: process_one_look process_request [OF assms] split: prod.split)
qed

text \<open>
  A request a client puts on the wire is the request the daemon acts on: whatever the
  channel, topic and payload of a version 2 message within the limits, and whatever the
  rest of the stream, the daemon cuts exactly this message out of the stream and processes it
  with its header, channel, topic and payload unchanged; if that succeeds, exactly its bytes
  are consumed.
\<close>

theorem ipc_request_roundtrip:
  assumes "ipc_request h channel topic payload"
  shows "process_one_message sys fd (ipc_wire h channel topic payload @ rest) st =
    (case process_ipc_payload sys fd h (canon BC_MAX_CHANNEL_LEN channel) (canon BC_MAX_TOPIC_LEN topic) payload st of
       (rc, st') \<Rightarrow> if rc = BC_OK then (BC_OK, rest, st') else (rc, ipc_wire h channel topic payload @ rest, st'))"
  using assms by (rule process_one_request)

text \<open>A header for a request with these parts, and a small world to try the daemon on.\<close>

definition request_header :: "bc_ipc_type \<Rightarrow> byte list \<Rightarrow> byte list \<Rightarrow> byte list \<Rightarrow> bc_ipc_header" where
  "request_header ty channel topic payload = empty_ipc_header\<lparr>ih_magic := BC_IPC_MAGIC,
     ih_version := BC_IPC_VERSION, ih_type := ipc_code ty, ih_topic_len := of_nat (length topic),
     ih_channel_len := of_nat (length channel), ih_payload_len := of_nat (length payload)\<rparr>"

lemma request_header_ok:
  "length channel < BC_MAX_CHANNEL_LEN \<Longrightarrow> 0 \<notin> set channel \<Longrightarrow> topic \<noteq> [] \<Longrightarrow>
     length topic < BC_MAX_TOPIC_LEN \<Longrightarrow> 0 \<notin> set topic \<Longrightarrow> length payload \<le> BC_MAX_PAYLOAD_LEN \<Longrightarrow>
     ipc_request (request_header ty channel topic payload) channel topic payload"
  by (simp add: ipc_request_def request_header_def empty_ipc_header_def bc_limits unat_of_nat_word)

definition quiet_sys :: "unit sys" where
  "quiet_sys =
     \<lparr>sy_config = bc_config_load_defaults, sy_names = [str ''udp0''], sy_send = (\<lambda>_. Some (\<lambda>_ x. (BC_OK, x))),
      sy_add = (\<lambda>_ x. (BC_OK, x)), sy_mod = (\<lambda>_ _ x. (BC_OK, x)), sy_del = (\<lambda>_ x. x),
      sy_close = (\<lambda>_ x. x), sy_shm = (\<lambda>x. (None, x)), sy_send_fd = (\<lambda>_ x. (BC_OK, x)),
      sy_shm_close = (\<lambda>_ x. x)\<rparr>"

definition quiet_manager :: "bc_client_ctx list \<Rightarrow> unit bc_client_manager" where
  "quiet_manager cs = \<lparr>mg_clients = cs, mg_socket_uid = 0, mg_fault = False, mg_ext = ()\<rparr>"

lemma process_subscribe:
  "topic \<noteq> [] \<Longrightarrow> length topic < BC_MAX_TOPIC_LEN \<Longrightarrow> 0 \<notin> set topic \<Longrightarrow>
     process_ipc_payload sys fd (request_header BC_IPC_SUBSCRIBE [] topic []) ch topic' p (bus, m) =
       (BC_OK, fst (bc_message_bus_subscribe bus fd topic'), m)"
  by (simp add: process_ipc_payload_def request_header_def)

lemma ipc_request_roundtrip_witness:
  "process_one_message quiet_sys 5 (ipc_wire (request_header BC_IPC_SUBSCRIBE [] (str ''a'') []) [] (str ''a'') [] @ [1])
     (bc_message_bus_init, quiet_manager [new_client 5]) =
   (BC_OK, [1], fst (bc_message_bus_subscribe bc_message_bus_init 5 (canon BC_MAX_TOPIC_LEN (str ''a''))),
     quiet_manager [new_client 5])"
proof -
  let ?h = "request_header BC_IPC_SUBSCRIBE [] (str ''a'') []"
  have r: "ipc_request ?h [] (str ''a'') []"
    by (rule request_header_ok) (simp_all add: str_def bc_limits)
  show ?thesis
    unfolding ipc_request_roundtrip [OF r]
    by (simp add: process_ipc_payload_def request_header_def)
qed

lemma client_stream_core:
  assumes req: "\<forall>f \<in> set fs. \<exists>h c t p. f = ipc_wire h c t p \<and> ipc_request h c t p"
    and cut: "concat cs = concat fs" and ok: "handled sys fd fs st st'"
  shows "feed_client sys fd cs [] st = (BC_OK, [], st')"
proof -
  have l: "\<forall>f \<in> set fs. ipc_look f = Frame (length f)" using req request_look by auto
  have e: "ipc_look [] = More" by (simp add: ipc_look_def ipc_sizes)
  have "consume ipc_look (ipc_handle sys fd) ([] @ concat cs) st = Some (BC_OK, [], st')"
    using ipc.consume_frames [OF l e handled_all [OF ok]] cut by simp
  from ipc.feed_concat [OF e this] show ?thesis by (rule feed_client_feed)
qed

text \<open>
  C28. The boundaries of reads do not matter to a client: if the messages of a stream, one by
  one, are handled with success, then for every way the socket cuts the stream into reads the
  daemon handles exactly these messages in order, ends in the same state, and has consumed
  everything.
\<close>

theorem client_stream:
  assumes req: "\<forall>f \<in> set fs. \<exists>h c t p. f = ipc_wire h c t p \<and> ipc_request h c t p"
    and cut: "concat cs = concat fs" and ok: "handled sys fd fs st st'"
  shows "feed_client sys fd cs [] st = (BC_OK, [], st')"
  using assms by (rule client_stream_core)

lemma client_stream_witness:
  "feed_client quiet_sys 5
     [take 20 (ipc_wire (request_header BC_IPC_SUBSCRIBE [] (str ''a'') []) [] (str ''a'') []),
      drop 20 (ipc_wire (request_header BC_IPC_SUBSCRIBE [] (str ''a'') []) [] (str ''a'') [])] []
     (bc_message_bus_init, quiet_manager []) =
   (BC_OK, [], fst (bc_message_bus_subscribe bc_message_bus_init 5 (canon BC_MAX_TOPIC_LEN (str ''a''))),
     quiet_manager [])"
proof -
  let ?h = "request_header BC_IPC_SUBSCRIBE [] (str ''a'') []"
  let ?f = "ipc_wire ?h [] (str ''a'') []"
  have r: "ipc_request ?h [] (str ''a'') []"
    by (rule request_header_ok) (simp_all add: str_def bc_limits)
  have "process_frame_buffer quiet_sys 5 ?f (bc_message_bus_init, quiet_manager []) =
      (BC_OK, fst (bc_message_bus_subscribe bc_message_bus_init 5 (canon BC_MAX_TOPIC_LEN (str ''a''))),
        quiet_manager [])"
    unfolding process_request [OF r] by (simp add: process_ipc_payload_def request_header_def)
  then have "handled quiet_sys 5 [?f] (bc_message_bus_init, quiet_manager [])
      (fst (bc_message_bus_subscribe bc_message_bus_init 5 (canon BC_MAX_TOPIC_LEN (str ''a''))), quiet_manager [])"
    by simp
  with r show ?thesis by (intro client_stream [of "[?f]"]) auto
qed

section \<open>Messages the daemon never gets past\<close>

text \<open>
  Requests without a topic are refused: the daemon demands a topic of every message, but
  the client library sends its requests for statistics and for shared memory with an all-zero
  header and no topic; each of them is answered by closing the connection.
\<close>

theorem topicless_request_closes:
  assumes h: "ih_magic h = BC_IPC_MAGIC" "ih_topic_len h = 0" "ipc_frame_len h = bc_ipc_header_size (ih_version h)"
    and rx: "client_rx m fd = []" and c: "find_client (mg_clients m) fd = Some c"
  shows "\<exists>m'. read_loop sys fd (Data (put_ipc_header h) # reads) (bus, m) = Some (close_client sys fd (bus, m'))"
proof -
  let ?d = "put_ipc_header h"
  have len: "length ?d = IPC_HEADER_SIZE" by (simp add: ipc_header.enc_len)
  have g: "get_ipc_header (take IPC_HEADER_SIZE ?d) = h" by (simp add: ipc_header.enc_len ipc_header.dec_enc)
  have hs: "bc_ipc_header_size (ih_version h) \<le> IPC_HEADER_SIZE"
    by (simp add: bc_ipc_header_size_def ipc_sizes)
  have pf: "process_frame_buffer sys fd (take n ?d) st = (BC_ERR_INVALID, st)"
    if n: "n = bc_ipc_header_size (ih_version h)" for n and st :: "'a daemon"
  proof -
    have "take IPC_HEADER_V1_SIZE (take IPC_HEADER_SIZE (take n ?d)) = take IPC_HEADER_V1_SIZE (take IPC_HEADER_SIZE ?d)"
      using ipc_header_size_pos [of "ih_version h"] n hs by (simp add: ipc_sizes)
    note eq = ipc_header_prefix [OF this, unfolded g]
    have "IPC_HEADER_V1_SIZE \<le> n" "n \<le> length ?d" using ipc_header_size_pos n hs len by simp_all
    then show ?thesis
      using eq h n by (simp add: process_frame_buffer_def Let_def ipc_lengths_ok_def min_def)
  qed
  have look: "ipc_look ?d = Frame (bc_ipc_header_size (ih_version h))"
    using h hs len by (simp add: ipc_look_def ipc_header.dec_enc Let_def ipc_sizes client_caps bc_limits)
  let ?m = "set_client fd (\<lambda>c. c\<lparr>cl_rx := cl_rx c @ ?d\<rparr>) m"
  have rx': "client_rx ?m fd = ?d"
    using c rx by (simp add: client_rx_def set_client_def find_update_client)
  have "process_messages sys fd ?d (bus, ?m) = (BC_ERR_INVALID, ?d, bus, ?m)"
    by (simp add: process_messages.simps [of sys fd ?d] process_one_look look pf)
  then have "fst (run_messages sys fd (bus, ?m)) = BC_ERR_INVALID" "fst (snd (run_messages sys fd (bus, ?m))) = bus"
    by (simp_all add: run_messages_def rx')
  then show ?thesis
    using rx len by (cases "run_messages sys fd (bus, ?m)") (auto simp: client_caps ipc_sizes)
qed

lemma topicless_request_closes_witness:
  "\<exists>m'. read_loop quiet_sys 5
      [Data (put_ipc_header (request_header BC_IPC_STATS [] [] []))] (bc_message_bus_init, quiet_manager [new_client 5]) =
    Some (close_client quiet_sys 5 (bc_message_bus_init, m'))"
  by (rule topicless_request_closes)
    (simp_all add: request_header_def ipc_frame_len_def empty_ipc_header_def client_rx_def quiet_manager_def new_client_def)

text \<open>
  A message that announces more bytes than the receive buffer holds is never rejected: the
  length check asks for more data first, so such a header, with up to 4 GiB of payload
  announced, leaves the daemon waiting with a full buffer for as long as the client stays.
\<close>

theorem oversize_announcement_stalls:
  assumes "IPC_HEADER_V1_SIZE \<le> length rx" "length rx \<le> BC_CLIENT_RX_CAP"
    and "ih_magic (get_ipc_header (take IPC_HEADER_SIZE rx)) = BC_IPC_MAGIC"
    and "unat (ih_payload_len (get_ipc_header (take IPC_HEADER_SIZE rx))) \<ge> BC_CLIENT_RX_CAP"
  shows "process_messages sys fd rx st = (BC_OK, rx, st)"
proof -
  have "length rx < ipc_frame_len (get_ipc_header (take IPC_HEADER_SIZE rx))"
    using assms ipc_header_size_pos [of "ih_version (get_ipc_header (take IPC_HEADER_SIZE rx))"]
    by (simp add: ipc_frame_len_def ipc_sizes)
  then have "ipc_look rx = More" using assms by (simp add: ipc_look_def Let_def)
  then show ?thesis by (simp add: process_messages.simps [of sys fd rx st] process_one_look)
qed

lemma oversize_announcement_stalls_witness:
  "process_messages quiet_sys 5
     (put_ipc_header ((request_header BC_IPC_PUBLISH [] (str ''a'') [])\<lparr>ih_payload_len := 0xFFFFFFFF\<rparr>) @ zeros 2000)
     (bc_message_bus_init, quiet_manager []) =
   (BC_OK, put_ipc_header ((request_header BC_IPC_PUBLISH [] (str ''a'') [])\<lparr>ih_payload_len := 0xFFFFFFFF\<rparr>) @ zeros 2000,
     bc_message_bus_init, quiet_manager [])"
proof (rule oversize_announcement_stalls)
  let ?h = "(request_header BC_IPC_PUBLISH [] (str ''a'') [])\<lparr>ih_payload_len := 0xFFFFFFFF\<rparr>"
  have g: "get_ipc_header (take IPC_HEADER_SIZE (put_ipc_header ?h @ r)) = ?h" for r by (rule ipc_header.read_enc)
  show "ih_magic (get_ipc_header (take IPC_HEADER_SIZE (put_ipc_header ?h @ zeros 2000))) = BC_IPC_MAGIC"
    unfolding g by (simp add: request_header_def)
  show "BC_CLIENT_RX_CAP \<le> unat (ih_payload_len (get_ipc_header (take IPC_HEADER_SIZE (put_ipc_header ?h @ zeros 2000))))"
    unfolding g by (simp add: client_caps)
qed (simp_all add: ipc_header.enc_len ipc_sizes client_caps)

text \<open>
  A publish that finds no route blocks its client: under \<^verbatim>\<open>require_route\<close> a message for
  another node or for a channel that cannot be routed makes the bus return
  \<open>BC_ERR_NOT_FOUND\<close>, which the receive loop takes for "message incomplete". The message
  stays at the head of the buffer, the loop reports success, and nothing behind it is
  ever handled; every further read repeats the attempt.
\<close>

theorem unroutable_publish_blocks:
  assumes req: "ipc_request h channel topic payload" "ih_type h = ipc_code BC_IPC_PUBLISH"
    and nf: "fst (bc_message_bus_publish (daemon_env sys) fd
      (ipc_message h (canon BC_MAX_CHANNEL_LEN channel) (canon BC_MAX_TOPIC_LEN topic) payload) st) = BC_ERR_NOT_FOUND"
  shows "\<exists>st'. process_messages sys fd (ipc_wire h channel topic payload @ rest) st =
    (BC_OK, ipc_wire h channel topic payload @ rest, st')"
proof -
  obtain bus m where st: "st = (bus, m)" by force
  have p: "process_ipc_payload sys fd h (canon BC_MAX_CHANNEL_LEN channel) (canon BC_MAX_TOPIC_LEN topic) payload st =
      bc_message_bus_publish (daemon_env sys) fd
        (ipc_message h (canon BC_MAX_CHANNEL_LEN channel) (canon BC_MAX_TOPIC_LEN topic) payload) st"
    using req(2) by (simp add: process_ipc_payload_def st)
  have look: "ipc_look (ipc_wire h channel topic payload @ rest) = Frame (length (ipc_wire h channel topic payload))"
    using ipc.frame_stable [OF request_look [OF req(1)]] .
  obtain st' where "process_frame_buffer sys fd (ipc_wire h channel topic payload) st = (BC_ERR_NOT_FOUND, st')"
    using nf p process_request [OF req(1), of sys fd st] by (metis surj_pair fst_conv)
  then show ?thesis
    by (simp add: process_messages.simps [of sys fd "ipc_wire h channel topic payload @ rest"] process_one_look look)
qed

lemma unroutable_publish_blocks_witness:
  "\<exists>st'. process_messages quiet_sys 5
      (ipc_wire (request_header BC_IPC_PUBLISH (str ''x'') (str ''a'') []) (str ''x'') (str ''a'') [] @ [1, 2])
      (bc_message_bus_init\<lparr>bus_require_route := True\<rparr>, quiet_manager [new_client 5]) =
    (BC_OK, ipc_wire (request_header BC_IPC_PUBLISH (str ''x'') (str ''a'') []) (str ''x'') (str ''a'') [] @ [1, 2], st')"
proof (rule unroutable_publish_blocks)
  let ?h = "request_header BC_IPC_PUBLISH (str ''x'') (str ''a'') []"
  let ?m = "ipc_message ?h (canon BC_MAX_CHANNEL_LEN (str ''x'')) (canon BC_MAX_TOPIC_LEN (str ''a'')) []"
  let ?bus = "bc_message_bus_init\<lparr>bus_require_route := True\<rparr>"
  show "ipc_request ?h (str ''x'') (str ''a'') []"
    by (rule request_header_ok) (simp_all add: str_def bc_limits)
  show "ih_type ?h = ipc_code BC_IPC_PUBLISH" by (simp add: request_header_def)
  have m: "m_seq ?m = 0" "m_dst_node ?m = 0" "m_flags ?m = 0" "m_qos ?m = 0" "cstr (m_channel ?m) = str ''x''"
    by (simp_all add: ipc_message_def Let_def request_header_def empty_message_def empty_ipc_header_def
        cstring_simps str_def bc_limits)
  have "route (daemon_env quiet_sys) msg = Inl BC_ERR_NOT_FOUND" if "cstr (m_channel msg) = str ''x''" for msg
    using that by (simp add: route_def daemon_env_def quiet_sys_def bc_router_route_def bc_config_load_defaults_def
        strcmp_eq_def str_def cstring_simps)
  then show "fst (bc_message_bus_publish (daemon_env quiet_sys) 5 ?m (?bus, quiet_manager [new_client 5])) =
      BC_ERR_NOT_FOUND"
    using m
    by (simp add: bc_message_bus_publish_def stamp_def Let_def publish_local_def should_deliver_local_def
        bc_message_bus_deliver_local_def need_network_def should_forward_def publish_network_def
        bc_message_bus_init_def str_def)
qed

end
