(* ===== verification/Client_Transmit.thy ===== *)
theory Client_Transmit
  imports Client_Stream
begin

text \<open>
  The transmit side of the clients, admission and closing, and the walk over the client list
  that resumes blocked publishers.
\<close>

section \<open>The transmit queue\<close>

definition tx_wf :: "bc_client_ctx \<Rightarrow> bool" where
  "tx_wf c \<longleftrightarrow> cl_tx_off c + length (cl_tx c) \<le> BC_CLIENT_TX_CAP"

definition tx_flush_out :: "io_result list \<Rightarrow> bc_client_ctx \<Rightarrow> byte list \<times> bc_client_ctx" where
  "tx_flush_out results c = (case tx_flush results c of (_, c', sent, _) \<Rightarrow> (sent, c'))"

lemma tx_flush_stop [simp]:
  "cl_tx c = [] \<Longrightarrow> tx_flush rs c = (BC_OK, c, [], True)"
  "cl_tx c \<noteq> [] \<Longrightarrow> tx_flush [] c = (BC_OK, c, [], False)"
  "cl_tx c \<noteq> [] \<Longrightarrow> tx_flush (Again # rs) c = (BC_OK, c, [], False)"
  "cl_tx c \<noteq> [] \<Longrightarrow> tx_flush (Error # rs) c = (BC_ERR_IO, c, [], False)"
  "cl_tx c \<noteq> [] \<Longrightarrow> tx_flush (Done 0 # rs) c = (BC_ERR_IO, c, [], False)"
  by (simp_all add: tx_flush.simps)

definition tx_advance :: "nat \<Rightarrow> bc_client_ctx \<Rightarrow> bc_client_ctx" where
  "tx_advance n c = c\<lparr>cl_tx_off := (if drop n (cl_tx c) = [] then 0 else cl_tx_off c + n), cl_tx := drop n (cl_tx c)\<rparr>"

lemma tx_flush_Done:
  "cl_tx c \<noteq> [] \<Longrightarrow> 0 < n \<Longrightarrow> tx_flush (Done n # rs) c =
     (case tx_flush rs (tx_advance n c) of (rc, c', sent, fin) \<Rightarrow> (rc, c', take n (cl_tx c) @ sent, fin))"
  by (simp add: tx_flush.simps [of "Done n # rs"] Let_def tx_advance_def)

lemma tx_flush_law:
  "tx_flush results c = (rc, c', sent, fin) \<Longrightarrow> tx_wf c \<Longrightarrow>
     tx_wf c' \<and> sent @ cl_tx c' = cl_tx c \<and> cl_fd c' = cl_fd c"
proof (induction results arbitrary: c rc c' sent fin)
  case Nil
  then show ?case by (cases "cl_tx c = []") auto
next
  case (Cons r rs)
  consider "cl_tx c = []" | n where "cl_tx c \<noteq> []" "r = Done n" "0 < n"
    | "cl_tx c \<noteq> []" "r = Done 0 \<or> r = Again \<or> r = Error"
    by (cases r) auto
  then show ?case
  proof cases
    case 2
    obtain rc1 c2 sent1 fin1 where f: "tx_flush rs (tx_advance n c) = (rc1, c2, sent1, fin1)" by (metis prod_cases4)
    have out: "c' = c2" "sent = take n (cl_tx c) @ sent1"
      using Cons.prems(1) f 2 by (simp_all add: tx_flush_Done)
    have "tx_wf (tx_advance n c)"
      using Cons.prems(2) by (auto simp: tx_wf_def tx_advance_def client_caps)
    then have "tx_wf c2 \<and> sent1 @ cl_tx c2 = drop n (cl_tx c) \<and> cl_fd c2 = cl_fd c"
      using Cons.IH [OF f] by (simp add: tx_advance_def)
    then show ?thesis using out by simp
  qed (use Cons.prems in auto)
qed

lemma tx_enqueue_law:
  "tx_wf c \<Longrightarrow> tx_enqueue c d = (rc, c') \<Longrightarrow>
     tx_wf c' \<and> cl_tx c' = (if rc = BC_OK then cl_tx c @ d else cl_tx c)"
  by (auto simp: tx_wf_def tx_enqueue_def Let_def split: if_splits)

interpretation client_tx: byte_queue tx_wf cl_tx tx_enqueue tx_flush_out
proof unfold_locales
  fix c d rc c'
  show "tx_wf c \<Longrightarrow> tx_enqueue c d = (rc, c') \<Longrightarrow>
      tx_wf c' \<and> cl_tx c' = (if rc = BC_OK then cl_tx c @ d else cl_tx c)"
    by (rule tx_enqueue_law)
next
  fix c r out c'
  assume "tx_wf c" "tx_flush_out r c = (out, c')"
  then show "tx_wf c' \<and> out @ cl_tx c' = cl_tx c"
    using tx_flush_law [of r c] by (auto simp: tx_flush_out_def split: prod.splits)
qed

text \<open>
  What a client receives is what was queued for it: over every sequence of enqueued frames
  and of flushes with arbitrary results of the socket (short writes, blocking, errors), the
  bytes written to the socket followed by the bytes still pending are exactly the accepted
  frames, in order and complete, and the pending bytes never leave the 4 MiB buffer.
\<close>

theorem client_tx_stream:
  assumes "stream_run tx_enqueue tx_flush_out ops (new_client fd) = (c, acc, sent)"
  shows "sent @ cl_tx c = acc \<and> cl_tx_off c + length (cl_tx c) \<le> BC_CLIENT_TX_CAP"
  using client_tx.run_stream [OF _ assms] by (simp add: tx_wf_def new_client_def)

lemma client_tx_stream_witness:
  "\<exists>c. stream_run tx_enqueue tx_flush_out [Enqueue [1, 2, 3], Flush [Done 2, Again], Enqueue [4], Flush [Done 1]] (new_client 5) =
      (c, [1, 2, 3, 4], [1, 2, 3]) \<and> [1, 2, 3] @ cl_tx c = [1, 2, 3, 4]"
proof -
  let ?ops = "[Enqueue [1, 2, 3], Flush [Done 2, Again], Enqueue [4], Flush [Done 1]] :: io_result list stream_op list"
  obtain c where r: "stream_run tx_enqueue tx_flush_out ?ops (new_client 5) = (c, [1, 2, 3, 4], [1, 2, 3])"
    by (simp add: tx_enqueue_def tx_flush_out_def new_client_def Let_def client_caps tx_flush_Done tx_advance_def)
  from client_tx_stream [OF r] r show ?thesis by blast
qed

section \<open>Admission and closing\<close>

lemma set_unlink: "set (unlink_client fd cs) \<subseteq> set cs"
  by (induction cs) auto

text \<open>
  C31. Admission: with a user id configured, every client the daemon holds after a burst of
  connections was there before or connected with that user id, as reported by the kernel.
\<close>

theorem admitted_clients_authorised:
  assumes "mg_socket_uid m \<noteq> 0" "c \<in> set (mg_clients (on_server_event sys accepts m))"
  shows "c \<in> set (mg_clients m) \<or> (\<exists>mem. (cl_fd c, Some (mg_socket_uid m), mem) \<in> set accepts)"
  using assms
proof (induction accepts arbitrary: m)
  case Nil
  then show ?case by simp
next
  case (Cons a accepts)
  obtain fd peer mem where a: "a = (fd, peer, mem)" by (metis prod_cases3)
  show ?case
  proof (cases "accept_client_auth (mg_socket_uid m) peer = BC_OK \<and> mem")
    case False
    let ?m = "m\<lparr>mg_ext := sy_close sys fd (mg_ext m)\<rparr>"
    have "on_server_event sys (a # accepts) m = on_server_event sys accepts ?m" using False by (auto simp: a)
    then show ?thesis using Cons.IH [of ?m] Cons.prems by auto
  next
    case True
    have uid: "peer = Some (mg_socket_uid m)"
      using True Cons.prems(1) by (auto simp: accept_client_auth_def word_neq_0_conv split: option.splits if_splits)
    obtain rc x where add: "sy_add sys fd (mg_ext m) = (rc, x)" by force
    let ?clients = "link_client (new_client fd) (mg_clients m)"
    obtain m' where m': "on_server_event sys (a # accepts) m = on_server_event sys accepts m'"
      "mg_socket_uid m' = mg_socket_uid m" "set (mg_clients m') \<subseteq> insert (new_client fd) (set (mg_clients m))"
    proof (cases "rc = BC_OK")
      case ok: True
      then show ?thesis
        using True add by (intro that [of "m\<lparr>mg_clients := ?clients, mg_ext := x\<rparr>"]) (auto simp: a Let_def link_client_def)
    next
      case False
      have s: "set (unlink_client fd ?clients) \<subseteq> set ?clients" by (rule set_unlink)
      then show ?thesis
        using True add False
        by (intro that [of "m\<lparr>mg_clients := unlink_client fd ?clients, mg_ext := sy_close sys fd x\<rparr>"])
          (auto simp: a Let_def link_client_def split: if_splits)
    qed
    have "c \<in> set (mg_clients m') \<or> (\<exists>mem. (cl_fd c, Some (mg_socket_uid m), mem) \<in> set accepts)"
      using Cons.IH [of m'] Cons.prems m' by simp
    then show ?thesis
    proof
      assume "c \<in> set (mg_clients m')"
      then have "c = new_client fd \<or> c \<in> set (mg_clients m)" using m'(3) by auto
      then show ?thesis using uid by (auto simp: a new_client_def)
    qed auto
  qed
qed

lemma admitted_clients_authorised_witness:
  "\<exists>c. mg_clients (on_server_event quiet_sys [(7, Some 1000, True), (8, Some 1001, True)]
      ((quiet_manager [])\<lparr>mg_socket_uid := 1000\<rparr>)) = [c] \<and> cl_fd c = 7"
proof -
  let ?m = "(quiet_manager [])\<lparr>mg_socket_uid := 1000\<rparr>" and ?a = "[(7, Some 1000, True), (8, Some 1001, True)]"
  have "map cl_fd (mg_clients (on_server_event quiet_sys ?a ?m)) = [7]" by code_simp
  then obtain c where c: "mg_clients (on_server_event quiet_sys ?a ?m) = [c]" by auto
  then have "c \<in> set (mg_clients ?m) \<or> (\<exists>mem. (cl_fd c, Some (mg_socket_uid ?m), mem) \<in> set ?a)"
    using admitted_clients_authorised [of ?m c quiet_sys ?a] by (simp add: c quiet_manager_def)
  then have "cl_fd c = 7" by (auto simp: quiet_manager_def)
  with c show ?thesis by blast
qed

lemma close_clients_all: "length (mg_clients (snd st)) \<le> n \<Longrightarrow> mg_clients (snd (close_clients sys n st)) = []"
proof (induction n arbitrary: st)
  case 0
  then show ?case by simp
next
  case (Suc n)
  obtain bus m where st: "st = (bus, m)" by force
  show ?case
  proof (cases "mg_clients m")
    case Nil
    then show ?thesis by (simp add: st)
  next
    case (Cons c cs)
    then show ?thesis using Suc.IH [of "close_client sys (cl_fd c) st"] Suc.prems by (simp add: st close_client_def)
  qed
qed

lemma close_clients_subs:
  "\<forall>e \<in> set (sub_entries (fst st)). \<exists>c \<in> set (mg_clients (snd st)). cl_fd c = fst e \<Longrightarrow>
     length (mg_clients (snd st)) \<le> n \<Longrightarrow> sub_entries (fst (close_clients sys n st)) = []"
proof (induction n arbitrary: st)
  case 0
  then have "mg_clients (snd st) = []" by simp
  then have "sub_entries (fst st) = []" using 0(1) by (cases "sub_entries (fst st)") auto
  then show ?case by simp
next
  case (Suc n)
  obtain bus m where st: "st = (bus, m)" by force
  show ?case
  proof (cases "mg_clients m")
    case Nil
    then show ?thesis using Suc.prems(1) by (cases "sub_entries bus") (auto simp: st)
  next
    case (Cons c cs)
    let ?st = "close_client sys (cl_fd c) st"
    have e: "set (sub_entries (fst ?st)) = {e \<in> set (sub_entries bus). fst e \<noteq> cl_fd c}"
      by (simp add: st close_client_def bus_table.remove_set)
    have "\<forall>e \<in> set (sub_entries (fst ?st)). \<exists>c \<in> set (mg_clients (snd ?st)). cl_fd c = fst e"
    proof
      fix x
      assume "x \<in> set (sub_entries (fst ?st))"
      then have "x \<in> set (sub_entries bus)" "fst x \<noteq> cl_fd c" unfolding e by auto
      then have "\<exists>d \<in> set cs. cl_fd d = fst x" using Suc.prems(1) Cons by (fastforce simp: st)
      then show "\<exists>c \<in> set (mg_clients (snd ?st)). cl_fd c = fst x"
        using Cons by (simp add: st close_client_def)
    qed
    moreover have "length (mg_clients (snd ?st)) \<le> n"
      using Suc.prems(2) Cons by (simp add: st close_client_def)
    ultimately show ?thesis using Suc.IH [of ?st] Cons by (simp add: st)
  qed
qed

text \<open>
  Shutting down the client manager closes every client and, if every subscription belongs
  to a client, leaves no subscription behind.
\<close>

theorem manager_close_complete:
  assumes "\<forall>e \<in> set (sub_entries bus). \<exists>c \<in> set (mg_clients m). cl_fd c = fst e"
  shows "mg_clients (snd (bc_client_manager_close sys (bus, m))) = [] \<and>
    sub_entries (fst (bc_client_manager_close sys (bus, m))) = []"
  using close_clients_all [of "(bus, m)" "length (mg_clients m)" sys]
    close_clients_subs [of "(bus, m)" "length (mg_clients m)" sys] assms
  by (simp add: bc_client_manager_close_def)

lemma manager_close_complete_witness:
  "mg_clients (snd (bc_client_manager_close quiet_sys
     (sample_bus, quiet_manager [new_client 5, new_client 4, new_client 9]))) = []"
proof -
  have "\<forall>e \<in> set (sub_entries sample_bus). \<exists>c \<in> set (mg_clients (quiet_manager [new_client 5, new_client 4, new_client 9])). cl_fd c = fst e"
    by (simp add: sub_entries_def sample_bus_subs quiet_manager_def new_client_def)
  from manager_close_complete [OF this, of quiet_sys] show ?thesis by simp
qed

section \<open>Resuming blocked publishers\<close>

definition faulty :: "'x bc_client_manager \<Rightarrow> 'x bc_client_manager \<Rightarrow> bool" where
  "faulty m m' \<longleftrightarrow> (mg_fault m \<longrightarrow> mg_fault m')"

lemma set_client_fault [simp]: "mg_fault (set_client fd f m) = mg_fault m"
  by (simp add: set_client_def)

lemma enqueue_fault: "mg_fault (snd (enqueue_client_tx sys fd d m)) = mg_fault m"
  by (simp add: enqueue_client_tx_def Let_def split: option.split prod.split)

interpretation fault_world: bus_world "daemon_env sys" faulty
  by unfold_locales
    (auto simp: faulty_def daemon_env_def deliver_to_client_def Let_def enqueue_fault split: option.split prod.split)

lemma send_stats_fault: "mg_fault m \<Longrightarrow> mg_fault (snd (snd (send_stats_reply sys fd (bus, m))))"
  using enqueue_fault [of sys fd]
  by (simp add: send_stats_reply_def Let_def split: prod.split) (metis snd_conv)

lemma frame_fault:
  assumes "mg_fault (snd st)"
  shows "mg_fault (snd (snd (process_frame_buffer sys fd data st)))"
proof -
  obtain bus m where st: "st = (bus, m)" by force
  have "mg_fault (snd (snd (process_ipc_payload sys fd h c t p (bus, m))))" for h c t p
  proof -
    have pub: "mg_fault (snd (snd (bc_message_bus_publish (daemon_env sys) fd msg (bus, m))))" for msg
      using fault_world.publish_R [of sys fd msg bus m] assms st
      by (cases "bc_message_bus_publish (daemon_env sys) fd msg (bus, m)") (auto simp: faulty_def)
    have shm: "mg_fault (snd (setup_client_shm sys fd m))"
      using assms st by (simp add: setup_client_shm_def Let_def split: prod.split option.split)
    show ?thesis
      using pub shm send_stats_fault [of m sys fd bus] assms st
      by (cases "setup_client_shm sys fd m") (simp add: process_ipc_payload_def)
  qed
  then show ?thesis using assms by (simp add: process_frame_buffer_def Let_def st)
qed

lemma messages_fault: "mg_fault (snd st) \<Longrightarrow> mg_fault (snd (snd (snd (process_messages sys fd rx st))))"
proof (induction "length rx" arbitrary: rx st rule: less_induct)
  case less
  obtain rc rx' st' where o: "process_one_message sys fd rx st = (rc, rx', st')" by (metis prod_cases3)
  have f: "mg_fault (snd st')"
    using o less.prems frame_fault [OF less.prems, of sys fd]
    by (auto simp: process_one_look split: verdict.splits prod.splits if_splits) (metis snd_conv)+
  show ?case
  proof (cases "rc = BC_OK")
    case True
    then show ?thesis
      using less.hyps [of rx' st'] process_one_shorter [of sys fd rx st rx' st'] o f
      by (simp add: process_messages.simps [of sys fd rx st])
  next
    case False
    then show ?thesis using o f by (simp add: process_messages.simps [of sys fd rx st])
  qed
qed

lemma resume_one_fault: "mg_fault (snd st) \<Longrightarrow> mg_fault (snd (resume_one sys fd st))"
proof -
  assume f: "mg_fault (snd st)"
  have "mg_fault (snd (snd (run_messages sys fd st)))"
    using messages_fault [OF f, of sys fd "client_rx (snd st) fd"]
    by (simp add: run_messages_def split: prod.split) (metis snd_conv)
  then show ?thesis using f by (auto simp: resume_one_def split: prod.split)
qed

lemma resume_all_fault: "mg_fault (snd st) \<Longrightarrow> mg_fault (snd (foldl (\<lambda>st fd. resume_one sys fd st) st fds))"
  by (induction fds arbitrary: st) (simp_all add: resume_one_fault)

text \<open>
  Resuming blocked publishers can use a freed client: when the buffer of a client holds a
  publish that was refused for lack of room and behind it bytes that are no message, the walk
  over the clients handles the publish, closes the client for the bad bytes, and then reads the
  link of the client it has just freed.
\<close>

theorem resume_uses_freed_client:
  assumes c: "mg_clients m = c # cs" and rx: "cl_rx c = ipc_wire h channel topic payload @ bad"
    and req: "ipc_request h channel topic payload"
    and now: "fst (process_ipc_payload sys (cl_fd c) h (canon BC_MAX_CHANNEL_LEN channel)
      (canon BC_MAX_TOPIC_LEN topic) payload (bus, m)) = BC_OK"
    and bad: "IPC_HEADER_V1_SIZE \<le> length bad" "ih_magic (get_ipc_header (take IPC_HEADER_SIZE bad)) \<noteq> BC_IPC_MAGIC"
  shows "mg_fault (snd (resume_pending_publishers sys (bus, m)))"
proof -
  let ?fd = "cl_fd c" and ?w = "ipc_wire h channel topic payload"
  have r: "client_rx m ?fd = ?w @ bad" using c rx by (simp add: client_rx_def)
  obtain st1 where p: "process_ipc_payload sys ?fd h (canon BC_MAX_CHANNEL_LEN channel)
      (canon BC_MAX_TOPIC_LEN topic) payload (bus, m) = (BC_OK, st1)"
    using now by (metis surj_pair fst_conv)
  have look: "ipc_look (?w @ bad) = Frame (length ?w)" using ipc.frame_stable [OF request_look [OF req]] .
  have one: "process_one_message sys ?fd (?w @ bad) (bus, m) = (BC_OK, bad, st1)"
    by (simp add: process_one_look look process_request [OF req] p)
  have "ipc_look bad = Bad BC_ERR_INVALID" using bad by (simp add: ipc_look_def Let_def)
  then have "process_messages sys ?fd bad st1 = (BC_ERR_INVALID, bad, st1)"
    by (simp add: process_messages.simps [of sys ?fd bad st1] process_one_look)
  then have "process_messages sys ?fd (?w @ bad) (bus, m) = (BC_ERR_INVALID, bad, st1)"
    using one by (simp add: process_messages.simps [of sys ?fd "?w @ bad" "(bus, m)"])
  then have "fst (run_messages sys ?fd (bus, m)) = BC_ERR_INVALID"
    by (simp add: run_messages_def r split: prod.split)
  moreover have "?w @ bad \<noteq> []" using bad(1) by (auto simp: ipc_sizes)
  ultimately have "mg_fault (snd (resume_one sys ?fd (bus, m)))"
    by (auto simp: resume_one_def r split: prod.split)
  then show ?thesis
    using resume_all_fault [of "resume_one sys ?fd (bus, m)" sys "map cl_fd cs"] c
    by (simp add: resume_pending_publishers_def)
qed

lemma quiet_publish:
  "fst (process_ipc_payload quiet_sys fd (request_header BC_IPC_PUBLISH [] (str ''a'') []) (canon BC_MAX_CHANNEL_LEN [])
     (canon BC_MAX_TOPIC_LEN (str ''a'')) [] (bc_message_bus_init, m)) = BC_OK"
proof -
  let ?h = "request_header BC_IPC_PUBLISH [] (str ''a'') []"
  define msg where "msg = ipc_message ?h (canon BC_MAX_CHANNEL_LEN []) (canon BC_MAX_TOPIC_LEN (str ''a'')) []"
  have f: "m_seq msg = 0" "m_dst_node msg = 0" "m_flags msg = 0" "m_qos msg = 0" "cstr (m_channel msg) = []"
    "cstr (m_topic msg) = str ''a''" "m_payload msg = []"
    by (simp_all add: msg_def ipc_message_def Let_def request_header_def empty_message_def empty_ipc_header_def
        cstring_simps str_def bc_limits)
  have r: "route (daemon_env quiet_sys) x = Inr 0" if "cstr (m_channel x) = []" for x
    using that by (simp add: route_def daemon_env_def quiet_sys_def bc_router_route_def bc_config_load_defaults_def
        strcmp_eq_def find_transport_def)
  have "encodable (msg\<lparr>m_src_node := a, m_seq := b\<rparr>)" for a b
    using f by (simp add: encodable_def bc_limits str_def)
  then have "fst (bc_message_bus_publish (daemon_env quiet_sys) fd msg (bc_message_bus_init, m)) = BC_OK"
    using f r
    by (simp add: bc_message_bus_publish_def stamp_def Let_def publish_local_def should_deliver_local_def
        bc_message_bus_deliver_local_def publish_network_def send_on_transport_def emit_network_frame_def
        encode_eq bc_message_bus_init_def daemon_env_def quiet_sys_def frag_consts split: prod.split)
  then show ?thesis by (simp add: process_ipc_payload_def msg_def request_header_def)
qed

lemma resume_uses_freed_client_witness:
  "mg_fault (snd (resume_pending_publishers quiet_sys (bc_message_bus_init, quiet_manager
     [(new_client 5)\<lparr>cl_rx := ipc_wire (request_header BC_IPC_PUBLISH [] (str ''a'') []) [] (str ''a'') [] @ zeros 16\<rparr>])))"
proof (rule resume_uses_freed_client)
  let ?h = "request_header BC_IPC_PUBLISH [] (str ''a'') []"
  let ?c = "(new_client 5)\<lparr>cl_rx := ipc_wire ?h [] (str ''a'') [] @ zeros 16\<rparr>"
  show "ipc_request ?h [] (str ''a'') []"
    by (rule request_header_ok) (simp_all add: str_def bc_limits)
  have "ih_magic (get_ipc_header (zeros 16)) = 0"
    by (simp add: get_ipc_header_def fld_def zeros_def numeral_eq_Suc)
  then show "ih_magic (get_ipc_header (take IPC_HEADER_SIZE (zeros 16))) \<noteq> BC_IPC_MAGIC"
    by (simp add: ipc_sizes BC_IPC_MAGIC_def)
  show "fst (process_ipc_payload quiet_sys (cl_fd ?c) ?h (canon BC_MAX_CHANNEL_LEN []) (canon BC_MAX_TOPIC_LEN (str ''a''))
      [] (bc_message_bus_init, quiet_manager [?c])) = BC_OK"
    by (rule quiet_publish)
qed (simp_all add: quiet_manager_def new_client_def ipc_sizes)

section \<open>A second request for shared memory\<close>

text \<open>
  A world that numbers the sessions the daemon creates: those that are open, and which one was
  last passed to which client.
\<close>

record session_count =
  sn_next :: int
  sn_of :: "int \<Rightarrow> int option"
  sn_open :: "int list"

definition counting_sys :: "session_count sys \<Rightarrow> session_count sys" where
  "counting_sys sys = sys\<lparr>sy_shm := (\<lambda>x. (Some ([], []), x\<lparr>sn_next := sn_next x + 1, sn_open := sn_next x # sn_open x\<rparr>)),
     sy_send_fd := (\<lambda>fd x. (BC_OK, x\<lparr>sn_of := (sn_of x)(fd \<mapsto> sn_next x - 1)\<rparr>)),
     sy_shm_close := (\<lambda>fd x. case sn_of x fd of None \<Rightarrow> x | Some n \<Rightarrow> x\<lparr>sn_open := remove1 n (sn_open x)\<rparr>),
     sy_close := (\<lambda>fd x. x), sy_del := (\<lambda>fd x. x)\<rparr>"

text \<open>
  A client that asks twice has its first session overwritten: closing the client closes the
  second one, and the descriptor of the first stays open for good.
\<close>

lemma second_shm_lost:
  assumes "find_client (mg_clients m) fd = Some c" "mg_ext m = \<lparr>sn_next = n, sn_of = Map.empty, sn_open = []\<rparr>"
    and "setup_client_shm (counting_sys sys) fd m = (rc1, m1)" "setup_client_shm (counting_sys sys) fd m1 = (rc2, m2)"
  shows "rc1 = BC_OK \<and> rc2 = BC_OK \<and> sn_open (mg_ext m2) = [n + 1, n] \<and>
    sn_open (mg_ext (snd (close_client (counting_sys sys) fd (bus, m2)))) = [n]"
  using assms by (auto simp: setup_client_shm_def counting_sys_def Let_def set_client_def find_update_client close_client_def)

end
