(* ===== verification/Endpoint.thy ===== *)
theory Endpoint
  imports Config
begin

text \<open>
  \<^verbatim>\<open>src/transport/endpoint.h\<close>: splitting \<^verbatim>\<open>host:port\<close>. Strings are without their terminator.
\<close>

definition COLON :: byte where "COLON = 58"

fun strrchr_loop :: "byte list \<Rightarrow> byte \<Rightarrow> nat \<Rightarrow> nat option \<Rightarrow> nat option" where
  "strrchr_loop [] c i found = found"
| "strrchr_loop (b # bs) c i found = strrchr_loop bs c (Suc i) (if b = c then Some i else found)"

definition strrchr :: "byte list \<Rightarrow> byte \<Rightarrow> nat option" where
  "strrchr s c = strrchr_loop s c 0 None"

definition bc_parse_endpoint :: "byte list \<Rightarrow> nat \<Rightarrow> bc_status + byte list \<times> int" where
  "bc_parse_endpoint endpoint host_len =
     (case strrchr endpoint COLON of
        None \<Rightarrow> Inl BC_ERR_INVALID
      | Some len \<Rightarrow>
          if len = 0 \<or> len \<ge> host_len then Inl BC_ERR_INVALID
          else let port = atoi (drop (len + 1) endpoint) in
            if port > 0 then Inr (take len endpoint, port) else Inl BC_ERR_INVALID)"

section \<open>Decimal numbers\<close>

text \<open>What \<^verbatim>\<open>printf\<close> prints for a number that is not negative.\<close>

function decimal :: "nat \<Rightarrow> byte list" where
  "decimal n = (if n < 10 then [48 + of_nat n] else decimal (n div 10) @ [48 + of_nat (n mod 10)])"
  by pat_completeness auto
termination by (relation "measure id") auto

declare decimal.simps [simp del]

lemma digit_props:
  assumes "d < 10"
  shows "isdigit (48 + of_nat d)" "uint (48 + of_nat d :: byte) - 48 = int d"
    "\<not> isspace (48 + of_nat d)" "(48 + of_nat d :: byte) \<noteq> 0" "(48 + of_nat d :: byte) \<noteq> COLON"
    "(48 + of_nat d :: byte) \<noteq> 45" "(48 + of_nat d :: byte) \<noteq> 43"
proof -
  have "d \<in> {0, 1, 2, 3, 4, 5, 6, 7, 8, 9}" using assms by auto
  then show "isdigit (48 + of_nat d)" "uint (48 + of_nat d :: byte) - 48 = int d"
    "\<not> isspace (48 + of_nat d)" "(48 + of_nat d :: byte) \<noteq> 0" "(48 + of_nat d :: byte) \<noteq> COLON"
    "(48 + of_nat d :: byte) \<noteq> 45" "(48 + of_nat d :: byte) \<noteq> 43"
    by (auto simp: isdigit_def isspace_def COLON_def word_le_nat_alt)
qed

lemma decimal_digits: "\<forall>b \<in> set (decimal n). \<exists>d < 10. b = 48 + of_nat d"
proof (induction n rule: decimal.induct)
  case (1 n)
  then show ?case
    by (cases "n < 10") (auto simp: decimal.simps [of n] intro: exI [of _ "n mod 10"])
qed

lemma decimal_not_Nil [simp]: "decimal n \<noteq> []"
  by (simp add: decimal.simps [of n])

lemma decimal_value: "digits_value (decimal n) = int n"
proof (induction n rule: decimal.induct)
  case (1 n)
  show ?case
  proof (cases "n < 10")
    case True
    then show ?thesis using digit_props(2) [of n] by (simp add: decimal.simps [of n] digits_value_def)
  next
    case False
    have "digits_value (xs @ [d]) = 10 * digits_value xs + (uint d - 48)" for xs d
      by (simp add: digits_value_def)
    then show ?thesis
      using 1 False digit_props(2) [of "n mod 10"]
      by (simp add: decimal.simps [of n]) (metis of_nat_numeral of_nat_add of_nat_mult zmod_int zdiv_int mult_div_mod_eq)
  qed
qed

lemma scan_number_decimal: "scan_number (decimal n) = Some (int n, [])"
proof -
  have d: "\<forall>b \<in> set (decimal n). isdigit b \<and> b \<noteq> 45 \<and> b \<noteq> 43"
    using decimal_digits [of n] digit_props by metis
  then have t: "takeWhile isdigit (decimal n) = decimal n" "dropWhile isdigit (decimal n) = []"
    by (simp_all add: takeWhile_eq_all_conv dropWhile_eq_Nil_conv)
  obtain b bs where b: "decimal n = b # bs" using decimal_not_Nil by (cases "decimal n") auto
  then have "b \<noteq> 45" "b \<noteq> 43" using d by auto
  then show ?thesis
    using t decimal_value [of n] unfolding scan_number_def b
    by (simp add: scan_digits_def)
qed

lemma c_int_id: "0 \<le> v \<Longrightarrow> v < 2 ^ 31 \<Longrightarrow> c_int v = v"
  by (simp add: c_int_def sint_sbintrunc' signed_take_bit_int_eq_self)

lemma atoi_decimal: "n < 2 ^ 31 \<Longrightarrow> atoi (decimal n) = int n"
proof -
  assume n: "n < 2 ^ 31"
  have "skip_ws (decimal n) = decimal n"
    using decimal_digits [of n] digit_props(3)
    by (cases "decimal n") (auto simp: skip_ws_def)
  then show ?thesis using n c_int_id [of "int n"] by (simp add: atoi_def scan_number_decimal)
qed

lemma strrchr_loop_none: "COLON \<notin> set s \<Longrightarrow> strrchr_loop s COLON i f = f"
  by (induction s arbitrary: i f) auto

lemma strrchr_loop_skip: "strrchr_loop (a @ b) c i f = strrchr_loop b c (i + length a) (strrchr_loop a c i f)"
  by (induction a arbitrary: i f) auto

text \<open>
  An endpoint written as host, colon and decimal port is split into exactly these, for
  every non-empty host that fits the buffer (colons in it included: the last colon counts)
  and every port from 1 to \<open>2 ^ 31 - 1\<close>.
\<close>

theorem endpoint_roundtrip:
  assumes "host \<noteq> []" "length host < host_len" "0 < port" "port < 2 ^ 31"
  shows "bc_parse_endpoint (host @ COLON # decimal port) host_len = Inr (host, int port)"
proof -
  have "COLON \<notin> set (decimal port)"
    using decimal_digits [of port] digit_props(5) by metis
  then have "strrchr (host @ COLON # decimal port) COLON = Some (length host)"
    by (simp add: strrchr_def strrchr_loop_skip strrchr_loop_none)
  then show ?thesis using assms atoi_decimal [of port] by (simp add: bc_parse_endpoint_def)
qed

lemma endpoint_roundtrip_witness:
  "bc_parse_endpoint (str ''127.0.0.1'' @ COLON # decimal 9101) 64 = Inr (str ''127.0.0.1'', 9101)"
  using endpoint_roundtrip [of "str ''127.0.0.1''" 64 9101] by (simp add: str_def)

end
