(* ===== verification/Tcp_Transport.thy ===== *)
theory Tcp_Transport
  imports Endpoint Byte_Queue Protocol
begin

text \<open>
  \<^verbatim>\<open>src/transport/tcp/tcp_transport.c\<close>: one TCP link, as a server with one connection at a time
  or as a client that reconnects with growing delays. What the operating system answers to
  the calls of one operation is the record \<open>tcp_os\<close>, or a list where an operation loops; the
  effects modelled are those on the transport's own state, the mask last registered for
  the connection and the value of the reconnect timer. \<open>tc_fault\<close> is set when the behaviour of
  the C program is undefined (a write past the send buffer, a shift that overflows).
\<close>

section \<open>State\<close>

definition BC_TCP_SEND_CAP :: nat where "BC_TCP_SEND_CAP = BC_MAX_FRAME_LEN * 64"
definition BC_TCP_RECONNECT_MS_INIT :: int where "BC_TCP_RECONNECT_MS_INIT = 1000"
definition BC_TCP_RECONNECT_MS_MAX :: int where "BC_TCP_RECONNECT_MS_MAX = 30000"

definition EPOLLIN :: u32 where "EPOLLIN = 1"
definition EPOLLOUT :: u32 where "EPOLLOUT = 4"
definition EPOLLERR :: u32 where "EPOLLERR = 8"
definition EPOLLHUP :: u32 where "EPOLLHUP = 16"

record tcp_impl =
  tc_listen_fd :: int
  tc_conn_fd :: int
  tc_timer_fd :: int
  tc_is_server :: bool
  tc_connected :: bool
  tc_connecting :: bool
  tc_reconnect_armed :: bool
  tc_host :: "byte list"
  tc_port :: int
  tc_retry_attempt :: int
  tc_send_alloc :: bool
  tc_send_buf :: "byte list"
  tc_send_off :: nat
  tc_bound :: bool
  tc_fd :: int
  tc_events :: u32
  tc_timer_ms :: int
  tc_fault :: bool

datatype connect_result = Conn_Ok | Conn_In_Progress | Conn_Failed

record tcp_os =
  os_watch :: bc_status
  os_socket :: int
  os_addr_ok :: bool
  os_connect :: connect_result
  os_so_error :: bool
  os_timer_ok :: bool
  os_timer_fd :: int
  os_malloc :: bool
  os_listen_ok :: bool

definition bc_tcp_transport_init :: tcp_impl where
  "bc_tcp_transport_init =
     \<lparr>tc_listen_fd = - 1, tc_conn_fd = - 1, tc_timer_fd = - 1, tc_is_server = False, tc_connected = False,
      tc_connecting = False, tc_reconnect_armed = False, tc_host = [], tc_port = 0, tc_retry_attempt = 0,
      tc_send_alloc = False, tc_send_buf = [], tc_send_off = 0, tc_bound = False, tc_fd = - 1,
      tc_events = 0, tc_timer_ms = 0, tc_fault = False\<rparr>"

section \<open>Descriptors and events\<close>

definition tcp_active_fd :: "tcp_impl \<Rightarrow> int" where
  "tcp_active_fd impl =
     (if tc_connected impl \<and> tc_conn_fd impl \<ge> 0 then tc_conn_fd impl
      else if tc_connecting impl \<and> tc_conn_fd impl \<ge> 0 then tc_conn_fd impl
      else if tc_is_server impl \<and> tc_listen_fd impl \<ge> 0 then tc_listen_fd impl
      else tc_conn_fd impl)"

definition tcp_sync_transport_fd :: "tcp_impl \<Rightarrow> tcp_impl" where
  "tcp_sync_transport_fd impl = impl\<lparr>tc_fd := tcp_active_fd impl\<rparr>"

definition tcp_conn_events :: "tcp_impl \<Rightarrow> u32" where
  "tcp_conn_events impl =
     (let events = EPOLLIN OR EPOLLHUP OR EPOLLERR in
      if tc_connecting impl \<or> tc_send_off impl < length (tc_send_buf impl) then events OR EPOLLOUT else events)"

definition tcp_watch_conn :: "tcp_os \<Rightarrow> tcp_impl \<Rightarrow> bc_status \<times> tcp_impl" where
  "tcp_watch_conn os impl =
     (if \<not> tc_bound impl \<or> tc_conn_fd impl < 0 then (BC_OK, impl)
      else (os_watch os, if os_watch os = BC_OK then impl\<lparr>tc_events := tcp_conn_events impl\<rparr> else impl))"

definition tcp_clear_send_queue :: "tcp_impl \<Rightarrow> tcp_impl" where
  "tcp_clear_send_queue impl = impl\<lparr>tc_send_buf := [], tc_send_off := 0\<rparr>"

definition tcp_ensure_send_cap :: "tcp_os \<Rightarrow> nat \<Rightarrow> tcp_impl \<Rightarrow> bc_status \<times> tcp_impl" where
  "tcp_ensure_send_cap os need impl =
     (if need > BC_TCP_SEND_CAP then (BC_ERR_NOMEM, impl)
      else if \<not> tc_send_alloc impl then
        (if os_malloc os then (BC_OK, impl\<lparr>tc_send_alloc := True\<rparr>) else (BC_ERR_NOMEM, impl))
      else (BC_OK, impl))"

definition tcp_enable_epollout :: "tcp_os \<Rightarrow> tcp_impl \<Rightarrow> bc_status \<times> tcp_impl" where
  "tcp_enable_epollout os impl =
     (if tc_conn_fd impl < 0 \<or> \<not> tc_connected impl then (BC_OK, impl) else tcp_watch_conn os impl)"

section \<open>The send queue\<close>

text \<open>
  An interrupted call is repeated by the code and has no entry in the list of results; a call
  takes no more bytes than it was given, and a list that ends stands for a call that would block.
\<close>

datatype drain = Drained | Blocked | Failed

fun tcp_flush_loop :: "io_result list \<Rightarrow> tcp_impl \<Rightarrow> drain \<times> byte list \<times> tcp_impl" where
  "tcp_flush_loop results impl =
     (if tc_send_off impl \<ge> length (tc_send_buf impl) then (Drained, [], impl)
      else case results of
          Done n # rs \<Rightarrow>
            if n > 0 then
              (let n = min n (length (tc_send_buf impl) - tc_send_off impl) in
               case tcp_flush_loop rs (impl\<lparr>tc_send_off := tc_send_off impl + n\<rparr>) of (d, out, impl') \<Rightarrow>
                 (d, take n (drop (tc_send_off impl) (tc_send_buf impl)) @ out, impl'))
            else (Failed, [], impl)
        | Error # rs \<Rightarrow> (Failed, [], impl)
        | Again # rs \<Rightarrow> (Blocked, [], impl)
        | [] \<Rightarrow> (Blocked, [], impl))"

declare tcp_flush_loop.simps [simp del]

definition tcp_flush_send ::
  "tcp_os \<Rightarrow> io_result list \<Rightarrow> tcp_impl \<Rightarrow> bc_status \<times> byte list \<times> tcp_impl" where
  "tcp_flush_send os results impl =
     (if \<not> tc_connected impl \<or> tc_conn_fd impl < 0 then (BC_ERR_IO, [], impl)
      else case tcp_flush_loop results impl of
          (Blocked, out, impl) \<Rightarrow> (case tcp_enable_epollout os impl of (rc, impl) \<Rightarrow> (rc, out, impl))
        | (Failed, out, impl) \<Rightarrow> (BC_ERR_IO, out, impl)
        | (Drained, out, impl) \<Rightarrow>
            (case tcp_watch_conn os (tcp_clear_send_queue impl) of (rc, impl) \<Rightarrow> (rc, out, impl)))"

text \<open>The copy goes behind the bytes already in the buffer; the check counts the unsent ones.\<close>

definition tcp_queue_send :: "tcp_os \<Rightarrow> byte list \<Rightarrow> tcp_impl \<Rightarrow> bc_status \<times> tcp_impl" where
  "tcp_queue_send os data impl =
     (let need = (length (tc_send_buf impl) - tc_send_off impl) + length data in
      case tcp_ensure_send_cap os need impl of (rc, impl) \<Rightarrow>
        if rc \<noteq> BC_OK then (BC_ERR_NOMEM, impl)
        else
          let impl = impl\<lparr>tc_send_buf := tc_send_buf impl @ data,
            tc_fault := (tc_fault impl \<or> length (tc_send_buf impl) + length data > BC_TCP_SEND_CAP)\<rparr> in
          (BC_OK, snd (tcp_enable_epollout os impl)))"

section \<open>Reconnecting\<close>

text \<open>\<open>None\<close>: the shift overflows a 32-bit \<^verbatim>\<open>int\<close>, which C leaves undefined.\<close>

definition tcp_reconnect_delay_ms :: "int \<Rightarrow> int option" where
  "tcp_reconnect_delay_ms retry_attempt =
     (if retry_attempt > 0 then
        (let k = nat (retry_attempt - 1) in
         if k \<ge> 32 \<or> BC_TCP_RECONNECT_MS_INIT * 2 ^ k > 2 ^ 31 - 1 then None
         else let delay = BC_TCP_RECONNECT_MS_INIT * 2 ^ k in
           Some (if delay > BC_TCP_RECONNECT_MS_MAX then BC_TCP_RECONNECT_MS_MAX else delay))
      else Some BC_TCP_RECONNECT_MS_INIT)"

definition tcp_timer_arm :: "tcp_os \<Rightarrow> int \<Rightarrow> tcp_impl \<Rightarrow> bc_status \<times> tcp_impl" where
  "tcp_timer_arm os delay_ms impl =
     (if tc_timer_fd impl < 0 then (BC_ERR_IO, impl)
      else if os_timer_ok os then (BC_OK, impl\<lparr>tc_timer_ms := delay_ms\<rparr>) else (BC_ERR_IO, impl))"

definition tcp_schedule_reconnect :: "tcp_os \<Rightarrow> tcp_impl \<Rightarrow> tcp_impl" where
  "tcp_schedule_reconnect os impl =
     (if tc_is_server impl then impl
      else
        let armed = impl\<lparr>tc_reconnect_armed := True, tc_retry_attempt := tc_retry_attempt impl + 1\<rparr> in
        case tcp_reconnect_delay_ms (tc_retry_attempt impl) of
          None \<Rightarrow> armed\<lparr>tc_fault := True\<rparr>
        | Some delay \<Rightarrow> snd (tcp_timer_arm os delay armed))"

definition tcp_close_conn :: "tcp_impl \<Rightarrow> tcp_impl" where
  "tcp_close_conn impl =
     (let impl = (if tc_conn_fd impl \<ge> 0 then impl\<lparr>tc_conn_fd := - 1\<rparr> else impl);
          impl = impl\<lparr>tc_connected := False, tc_connecting := False\<rparr> in
      tcp_sync_transport_fd (tcp_clear_send_queue impl))"

definition tcp_drop_connection :: "tcp_os \<Rightarrow> tcp_impl \<Rightarrow> tcp_impl" where
  "tcp_drop_connection os impl =
     (if \<not> tc_connected impl \<and> \<not> tc_connecting impl then impl
      else
        let impl = tcp_close_conn impl in
        if \<not> tc_is_server impl then tcp_schedule_reconnect os impl else impl)"

definition tcp_begin_connect :: "tcp_os \<Rightarrow> tcp_impl \<Rightarrow> bc_status \<times> tcp_impl" where
  "tcp_begin_connect os impl =
     (let impl = (if tc_conn_fd impl \<ge> 0 then impl\<lparr>tc_conn_fd := - 1\<rparr> else impl);
          impl = impl\<lparr>tc_conn_fd := os_socket os\<rparr> in
      if tc_conn_fd impl < 0 then (BC_ERR_IO, impl)
      else if \<not> os_addr_ok os then (BC_ERR_INVALID, impl\<lparr>tc_conn_fd := - 1\<rparr>)
      else
        let impl = tcp_sync_transport_fd
              (impl\<lparr>tc_connecting := True, tc_connected := False, tc_reconnect_armed := False\<rparr>) in
        case os_connect os of
          Conn_In_Progress \<Rightarrow> tcp_watch_conn os impl
        | Conn_Failed \<Rightarrow> (BC_ERR_IO, tcp_close_conn impl)
        | Conn_Ok \<Rightarrow> tcp_watch_conn os (impl\<lparr>tc_connecting := False, tc_connected := True\<rparr>))"

definition tcp_on_connect_ready :: "tcp_os \<Rightarrow> tcp_impl \<Rightarrow> bc_status \<times> tcp_impl" where
  "tcp_on_connect_ready os impl =
     (if os_so_error os then
        (let impl = tcp_drop_connection os impl;
             impl = (if \<not> tc_is_server impl then tcp_schedule_reconnect os impl else impl) in
         (BC_ERR_IO, impl))
      else tcp_watch_conn os
        (impl\<lparr>tc_connecting := False, tc_connected := True, tc_retry_attempt := 0\<rparr>))"

section \<open>Accepting\<close>

datatype accept_result = Accepted int | Accept_Interrupted | Accept_Failed

definition tcp_accept_one :: "tcp_os \<Rightarrow> accept_result \<Rightarrow> tcp_impl \<Rightarrow> bc_status \<times> tcp_impl" where
  "tcp_accept_one os res impl = (case res of
     Accept_Interrupted \<Rightarrow> (BC_OK, impl)
   | Accept_Failed \<Rightarrow> (BC_ERR_IO, impl)
   | Accepted client_fd \<Rightarrow>
       let impl = (if tc_connected impl \<and> tc_conn_fd impl \<ge> 0 then tcp_drop_connection os impl else impl);
           impl = impl\<lparr>tc_conn_fd := client_fd, tc_connecting := False, tc_connected := True,
             tc_retry_attempt := 0\<rparr> in
       tcp_watch_conn os (tcp_sync_transport_fd impl))"

fun tcp_accept_loop :: "tcp_os \<Rightarrow> accept_result list \<Rightarrow> tcp_impl \<Rightarrow> tcp_impl" where
  "tcp_accept_loop os [] impl = impl"
| "tcp_accept_loop os (r # rs) impl =
     (case tcp_accept_one os r impl of (rc, impl) \<Rightarrow>
        if rc \<noteq> BC_OK then impl else tcp_accept_loop os rs impl)"

section \<open>Opening and closing\<close>

definition tcp_role_is_server :: "bc_transport_config \<Rightarrow> bool" where
  "tcp_role_is_server cfg =
     (if tc_tcp_listen cfg \<ge> 0 then tc_tcp_listen cfg \<noteq> 0 else tc_local_port cfg > 0)"

definition tcp_listen_port :: "bc_transport_config \<Rightarrow> int \<Rightarrow> int" where
  "tcp_listen_port cfg endpoint_port = (if tc_local_port cfg > 0 then tc_local_port cfg else endpoint_port)"

definition tcp_listen_open :: "tcp_os \<Rightarrow> tcp_impl \<Rightarrow> bc_status \<times> tcp_impl" where
  "tcp_listen_open os impl =
     (let impl = impl\<lparr>tc_is_server := True, tc_listen_fd := os_socket os\<rparr> in
      if tc_listen_fd impl < 0 then (BC_ERR_IO, impl)
      else if \<not> (tc_host impl = [] \<or> tc_host impl = str ''0.0.0.0'') \<and> \<not> os_addr_ok os
      then (BC_ERR_INVALID, impl\<lparr>tc_listen_fd := - 1\<rparr>)
      else if \<not> os_listen_ok os then (BC_ERR_IO, impl\<lparr>tc_listen_fd := - 1\<rparr>)
      else (BC_OK, tcp_sync_transport_fd impl))"

definition tcp_client_setup :: "tcp_os \<Rightarrow> tcp_impl \<Rightarrow> bc_status \<times> tcp_impl" where
  "tcp_client_setup os impl =
     (let impl = impl\<lparr>tc_is_server := False, tc_timer_fd := os_timer_fd os\<rparr> in
      if tc_timer_fd impl < 0 then (BC_ERR_IO, impl)
      else case tcp_begin_connect os impl of (rc, impl) \<Rightarrow>
        (BC_OK, if rc \<noteq> BC_OK then tcp_schedule_reconnect os impl else impl))"

definition tcp_open :: "tcp_os \<Rightarrow> bc_transport_config \<Rightarrow> tcp_impl \<Rightarrow> bc_status \<times> tcp_impl" where
  "tcp_open os cfg impl =
     (let impl = impl\<lparr>tc_listen_fd := - 1, tc_conn_fd := - 1, tc_timer_fd := - 1\<rparr> in
      if tcp_role_is_server cfg then
        (let (host, endpoint_port) = (case bc_parse_endpoint (tc_endpoint cfg) 64 of
               Inl _ \<Rightarrow> (str ''0.0.0.0'', 0) | Inr hp \<Rightarrow> hp);
             impl = impl\<lparr>tc_host := host, tc_port := tcp_listen_port cfg endpoint_port\<rparr> in
         if tc_port impl \<le> 0 then (BC_ERR_INVALID, impl) else tcp_listen_open os impl)
      else case bc_parse_endpoint (tc_endpoint cfg) 64 of
          Inl _ \<Rightarrow> (BC_ERR_INVALID, impl)
        | Inr (host, port) \<Rightarrow> tcp_client_setup os (impl\<lparr>tc_host := host, tc_port := port\<rparr>))"

definition tcp_bind_reactor :: "tcp_os \<Rightarrow> tcp_impl \<Rightarrow> bc_status \<times> tcp_impl" where
  "tcp_bind_reactor os impl =
     (let impl = impl\<lparr>tc_bound := True\<rparr> in
      if tc_listen_fd impl \<ge> 0 \<and> os_watch os \<noteq> BC_OK then (BC_ERR_IO, impl)
      else case tcp_watch_conn os impl of (rc, impl) \<Rightarrow>
        if rc \<noteq> BC_OK then (BC_ERR_IO, impl)
        else if tc_timer_fd impl \<ge> 0 \<and> os_watch os \<noteq> BC_OK then (BC_ERR_IO, impl)
        else (BC_OK, impl))"

section \<open>Sending and receiving\<close>

fun tcp_send_loop :: "tcp_os \<Rightarrow> io_result list \<Rightarrow> byte list \<Rightarrow> tcp_impl \<Rightarrow> bc_status \<times> byte list \<times> tcp_impl" where
  "tcp_send_loop os results data impl =
     (if data = [] then (BC_OK, [], impl)
      else case results of
          Done n # rs \<Rightarrow>
            if n > 0 then
              (case tcp_send_loop os rs (drop n data) impl of (rc, out, impl) \<Rightarrow> (rc, take n data @ out, impl))
            else (BC_ERR_IO, [], tcp_drop_connection os impl)
        | Error # rs \<Rightarrow> (BC_ERR_IO, [], tcp_drop_connection os impl)
        | Again # rs \<Rightarrow> (case tcp_queue_send os data impl of (rc, impl) \<Rightarrow> (rc, [], impl))
        | [] \<Rightarrow> (case tcp_queue_send os data impl of (rc, impl) \<Rightarrow> (rc, [], impl)))"

declare tcp_send_loop.simps [simp del]

definition tcp_send :: "tcp_os \<Rightarrow> io_result list \<Rightarrow> byte list \<Rightarrow> tcp_impl \<Rightarrow> bc_status \<times> byte list \<times> tcp_impl" where
  "tcp_send os results data impl =
     (if \<not> tc_connected impl \<or> tc_conn_fd impl < 0 then (BC_ERR_IO, [], impl)
      else if tc_send_off impl < length (tc_send_buf impl)
      then (case tcp_queue_send os data impl of (rc, impl) \<Rightarrow> (rc, [], impl))
      else tcp_send_loop os results data impl)"

datatype sock_read = Got "byte list" | Closed | Would_Block | Read_Failed

definition tcp_recv :: "tcp_os \<Rightarrow> sock_read \<Rightarrow> tcp_impl \<Rightarrow> (bc_status + byte list) \<times> tcp_impl" where
  "tcp_recv os res impl =
     (if \<not> tc_connected impl \<or> tc_conn_fd impl < 0 then (Inl BC_ERR_INVALID, impl)
      else case res of
          Got data \<Rightarrow> (Inr data, impl)
        | Closed \<Rightarrow> (Inl BC_ERR_IO, tcp_drop_connection os impl)
        | Would_Block \<Rightarrow> (Inl BC_ERR_NOT_FOUND, impl)
        | Read_Failed \<Rightarrow> (Inl BC_ERR_IO, tcp_drop_connection os impl))"

text \<open>
  The timer is read until that fails: one entry of \<open>expirations\<close> for each read that
  succeeded, with what the system answers to the connection attempt it causes. A timer
  that has expired is not armed any more.
\<close>

fun tcp_timer_loop :: "tcp_os list \<Rightarrow> tcp_impl \<Rightarrow> tcp_impl" where
  "tcp_timer_loop [] impl = impl"
| "tcp_timer_loop (os # expirations) impl =
     (let impl = impl\<lparr>tc_timer_ms := 0\<rparr> in
      if tc_reconnect_armed impl \<and> \<not> tc_connected impl \<and> \<not> tc_connecting impl
      then tcp_timer_loop expirations (snd (tcp_begin_connect os (impl\<lparr>tc_reconnect_armed := False\<rparr>)))
      else tcp_timer_loop expirations impl)"

definition tcp_handle_event ::
  "tcp_os \<Rightarrow> int \<Rightarrow> u32 \<Rightarrow> tcp_os list \<Rightarrow> accept_result list \<Rightarrow> io_result list \<Rightarrow> tcp_impl \<Rightarrow> bc_status \<times> tcp_impl" where
  "tcp_handle_event os fd events expirations accepts sends impl =
     (if fd = tc_timer_fd impl \<and> (events AND EPOLLIN) \<noteq> 0 then (BC_OK, tcp_timer_loop expirations impl)
      else if fd = tc_listen_fd impl \<and> (events AND EPOLLIN) \<noteq> 0
      then (BC_OK, tcp_accept_loop os accepts impl)
      else if fd = tc_conn_fd impl \<and> tc_connecting impl \<and>
        (events AND (EPOLLOUT OR EPOLLIN OR EPOLLERR)) \<noteq> 0
      then tcp_on_connect_ready os impl
      else if fd = tc_conn_fd impl \<and> tc_connected impl then
        (if (events AND (EPOLLHUP OR EPOLLERR)) \<noteq> 0 then (BC_OK, tcp_drop_connection os impl)
         else if (events AND EPOLLOUT) \<noteq> 0 \<and> tc_send_off impl < length (tc_send_buf impl) then
           (case tcp_flush_send os sends impl of (rc, _, impl) \<Rightarrow>
              (BC_OK, if rc \<noteq> BC_OK then tcp_drop_connection os impl else impl))
         else (BC_OK, impl))
      else (BC_OK, impl))"

end
