(* ===== verification/Tcp_Link.thy ===== *)
theory Tcp_Link
  imports Tcp_Transport
begin

text \<open>
  Properties of the TCP transport: the invariant of every reachable state, the order of the
  bytes sent, reconnecting, and the three places where the code leaves its own contract.
\<close>

section \<open>The invariant\<close>

definition tcp_wf :: "tcp_impl \<Rightarrow> bool" where
  "tcp_wf s \<longleftrightarrow>
     \<not> (tc_connected s \<and> tc_connecting s) \<and>
     (tc_conn_fd s \<ge> 0 \<longleftrightarrow> tc_connected s \<or> tc_connecting s) \<and> tc_conn_fd s \<ge> - 1 \<and>
     tc_send_off s \<le> length (tc_send_buf s) \<and>
     (\<not> tc_connected s \<longrightarrow> tc_send_buf s = [] \<and> tc_send_off s = 0) \<and>
     (tc_send_buf s \<noteq> [] \<longrightarrow> tc_send_alloc s) \<and>
     (tc_is_server s \<longrightarrow> \<not> tc_connecting s \<and> \<not> tc_reconnect_armed s \<and> tc_timer_fd s = - 1) \<and>
     (\<not> tc_is_server s \<longrightarrow> tc_listen_fd s = - 1) \<and>
     tc_fd s = tcp_active_fd s"

definition os_sane :: "tcp_os \<Rightarrow> bool" where
  "os_sane os \<longleftrightarrow> os_socket os \<ge> - 1 \<and> os_timer_fd os \<ge> - 1"

definition accept_sane :: "accept_result \<Rightarrow> bool" where
  "accept_sane r \<longleftrightarrow> (case r of Accepted fd \<Rightarrow> fd \<ge> 0 | _ \<Rightarrow> True)"

lemma watch_conn_cases:
  "tcp_watch_conn os s = (rc, t) \<Longrightarrow> t = s \<or> t = s\<lparr>tc_events := tcp_conn_events s\<rparr>"
  by (simp add: tcp_watch_conn_def split: if_splits)

lemma wf_events [simp]: "tcp_wf (s\<lparr>tc_events := e\<rparr>) = tcp_wf s"
  by (simp add: tcp_wf_def tcp_active_fd_def)

lemma wf_timer [simp]: "tcp_wf (s\<lparr>tc_timer_ms := e\<rparr>) = tcp_wf s"
  by (simp add: tcp_wf_def tcp_active_fd_def)

lemma wf_fault [simp]: "tcp_wf (s\<lparr>tc_fault := e\<rparr>) = tcp_wf s"
  by (simp add: tcp_wf_def tcp_active_fd_def)

lemma wf_retry [simp]: "tcp_wf (s\<lparr>tc_retry_attempt := e\<rparr>) = tcp_wf s"
  by (simp add: tcp_wf_def tcp_active_fd_def)

lemma wf_bound [simp]: "tcp_wf (s\<lparr>tc_bound := e\<rparr>) = tcp_wf s"
  by (simp add: tcp_wf_def tcp_active_fd_def)

lemma wf_armed: "tcp_wf s \<Longrightarrow> \<not> tc_is_server s \<or> \<not> e \<Longrightarrow> tcp_wf (s\<lparr>tc_reconnect_armed := e\<rparr>)"
  by (simp add: tcp_wf_def tcp_active_fd_def)

lemma watch_conn_wf: "tcp_watch_conn os s = (rc, t) \<Longrightarrow> tcp_wf t = tcp_wf s"
  using watch_conn_cases by fastforce

lemma watch_conn_server: "tcp_watch_conn os s = (rc, t) \<Longrightarrow> tc_is_server t = tc_is_server s"
  using watch_conn_cases by fastforce

lemma clear_wf: "tcp_wf s \<Longrightarrow> tcp_wf (tcp_clear_send_queue s)"
  by (simp add: tcp_wf_def tcp_active_fd_def tcp_clear_send_queue_def)

lemma epollout_wf: "tcp_enable_epollout os s = (rc, t) \<Longrightarrow> tcp_wf t = tcp_wf s"
  using watch_conn_wf by (simp add: tcp_enable_epollout_def split: if_splits)

lemma timer_arm_cases: "tcp_timer_arm os d s = (rc, t) \<Longrightarrow> t = s \<or> t = s\<lparr>tc_timer_ms := d\<rparr>"
  by (simp add: tcp_timer_arm_def split: if_splits)

lemma timer_arm_wf [simp]: "tcp_wf (snd (tcp_timer_arm os d s)) = tcp_wf s"
  by (simp add: tcp_timer_arm_def)

lemma schedule_wf: "tcp_wf s \<Longrightarrow> tcp_wf (tcp_schedule_reconnect os s)"
  by (simp add: tcp_schedule_reconnect_def Let_def wf_armed split: option.split)

lemma schedule_fields [simp]:
  "tc_is_server (tcp_schedule_reconnect os s) = tc_is_server s"
  "tc_connected (tcp_schedule_reconnect os s) = tc_connected s"
  "tc_connecting (tcp_schedule_reconnect os s) = tc_connecting s"
  by (simp_all add: tcp_schedule_reconnect_def tcp_timer_arm_def Let_def split: option.split)

lemma close_conn_wf: "tcp_wf s \<Longrightarrow> tcp_wf (tcp_close_conn s)"
  by (simp add: tcp_wf_def tcp_active_fd_def tcp_close_conn_def tcp_clear_send_queue_def
      tcp_sync_transport_fd_def Let_def)

lemma close_conn_fields [simp]:
  "tc_is_server (tcp_close_conn s) = tc_is_server s"
  "\<not> tc_connected (tcp_close_conn s)" "\<not> tc_connecting (tcp_close_conn s)"
  "tc_reconnect_armed (tcp_close_conn s) = tc_reconnect_armed s"
  "tc_retry_attempt (tcp_close_conn s) = tc_retry_attempt s"
  "tc_timer_fd (tcp_close_conn s) = tc_timer_fd s" "tc_timer_ms (tcp_close_conn s) = tc_timer_ms s"
  "tc_send_buf (tcp_close_conn s) = []" "tc_fault (tcp_close_conn s) = tc_fault s"
  by (simp_all add: tcp_close_conn_def tcp_clear_send_queue_def tcp_sync_transport_fd_def Let_def)

lemma drop_wf: "tcp_wf s \<Longrightarrow> tcp_wf (tcp_drop_connection os s)"
  unfolding tcp_drop_connection_def Let_def by (simp add: close_conn_wf schedule_wf)

lemma drop_fields [simp]:
  "tc_is_server (tcp_drop_connection os s) = tc_is_server s"
  "\<not> tc_connected (tcp_drop_connection os s)" "\<not> tc_connecting (tcp_drop_connection os s)"
  by (auto simp: tcp_drop_connection_def Let_def)

lemma begin_connect_wf:
  assumes "tcp_wf s" "\<not> tc_is_server s" "os_sane os" "\<not> tc_connected s" "\<not> tc_connecting s"
    and "tcp_begin_connect os s = (rc, t)"
  shows "tcp_wf t \<and> \<not> tc_is_server t"
proof -
  define s1 where "s1 = tcp_sync_transport_fd (s\<lparr>tc_conn_fd := os_socket os, tc_connecting := True,
     tc_connected := False, tc_reconnect_armed := False\<rparr>)"
  have fd: "tc_conn_fd s = - 1" using assms(1,4,5) by (simp add: tcp_wf_def)
  have s0: "tcp_wf (s\<lparr>tc_conn_fd := - 1\<rparr>)"
    using assms(1) fd by (simp add: tcp_wf_def tcp_active_fd_def)
  have s1: "tcp_wf s1" "tcp_wf (s1\<lparr>tc_connecting := False, tc_connected := True\<rparr>)" "\<not> tc_is_server s1"
    if "os_socket os \<ge> 0"
    using assms(1,2,4,5) that
    by (simp_all add: s1_def tcp_wf_def tcp_active_fd_def tcp_sync_transport_fd_def)
  show ?thesis
  proof (cases "os_socket os < 0")
    case True
    then have "os_socket os = - 1" using assms(3) by (simp add: os_sane_def)
    then show ?thesis using assms s0 by (auto simp: tcp_begin_connect_def fd)
  next
    case f: False
    show ?thesis
    proof (cases "os_addr_ok os")
      case False
      then show ?thesis using assms s0 f by (auto simp: tcp_begin_connect_def fd)
    next
      case True
      have "(case os_connect os of Conn_In_Progress \<Rightarrow> tcp_watch_conn os s1
          | Conn_Failed \<Rightarrow> (BC_ERR_IO, tcp_close_conn s1)
          | Conn_Ok \<Rightarrow> tcp_watch_conn os (s1\<lparr>tc_connecting := False, tc_connected := True\<rparr>)) = (rc, t)"
        using assms(6) f True unfolding s1_def by (simp add: tcp_begin_connect_def fd Let_def)
      then show ?thesis using s1 f close_conn_wf [of s1]
        watch_conn_wf [of os s1 rc t] watch_conn_server [of os s1 rc t]
        watch_conn_wf [of os "s1\<lparr>tc_connecting := False, tc_connected := True\<rparr>" rc t]
        watch_conn_server [of os "s1\<lparr>tc_connecting := False, tc_connected := True\<rparr>" rc t]
        close_conn_fields(1) [of s1]
        by (cases "os_connect os") auto
    qed
  qed
qed

lemma connected_wf:
  "tcp_wf s \<Longrightarrow> tc_connecting s \<Longrightarrow> tcp_wf (s\<lparr>tc_connecting := False, tc_connected := True\<rparr>)"
  by (simp add: tcp_wf_def tcp_active_fd_def split: if_splits)

lemma on_connect_ready_wf:
  assumes "tcp_wf s" "tc_connecting s" "tcp_on_connect_ready os s = (rc, t)"
  shows "tcp_wf t"
proof (cases "os_so_error os")
  case True
  then show ?thesis using assms by (auto simp: tcp_on_connect_ready_def Let_def drop_wf schedule_wf)
next
  case False
  define s1 where "s1 = s\<lparr>tc_connecting := False, tc_connected := True\<rparr>"
  have "tcp_wf (s1\<lparr>tc_retry_attempt := 0\<rparr>)" using connected_wf assms by (simp add: s1_def)
  moreover have "tcp_watch_conn os (s1\<lparr>tc_retry_attempt := 0\<rparr>) = (rc, t)"
    using assms(3) False by (simp add: tcp_on_connect_ready_def s1_def)
  ultimately show ?thesis using watch_conn_wf by blast
qed

lemma accept_one_wf:
  assumes "tcp_wf s" "tc_is_server s" "accept_sane r" "tcp_accept_one os r s = (rc, t)"
  shows "tcp_wf t \<and> tc_is_server t"
proof (cases r)
  case (Accepted fd)
  define s1 where "s1 = (if tc_connected s \<and> tc_conn_fd s \<ge> 0 then tcp_drop_connection os s else s)"
  define s2 where "s2 = tcp_sync_transport_fd (s1\<lparr>tc_conn_fd := fd, tc_connecting := False,
    tc_connected := True, tc_retry_attempt := 0\<rparr>)"
  have s1: "tcp_wf s1" "tc_is_server s1" "\<not> tc_connected s1"
    using assms(1,2) drop_wf by (simp_all add: s1_def) (simp add: tcp_wf_def)
  have "tcp_wf s2" "tc_is_server s2"
    using s1 assms(3) by (simp_all add: Accepted accept_sane_def s2_def tcp_wf_def tcp_active_fd_def
      tcp_sync_transport_fd_def)
  moreover have "tcp_watch_conn os s2 = (rc, t)"
    using assms(4) by (simp add: Accepted tcp_accept_one_def s1_def s2_def Let_def)
  ultimately show ?thesis using watch_conn_wf watch_conn_server by blast
qed (use assms in \<open>auto simp: tcp_accept_one_def\<close>)

lemma accept_loop_wf:
  "tcp_wf s \<Longrightarrow> tc_is_server s \<Longrightarrow> list_all accept_sane rs \<Longrightarrow> tcp_wf (tcp_accept_loop os rs s)"
proof (induction rs arbitrary: s)
  case (Cons r rs)
  obtain rc t where e: "tcp_accept_one os r s = (rc, t)" by force
  with Cons accept_one_wf [OF Cons.prems(1,2) _ e] show ?case by simp
qed simp

lemma timer_loop_wf:
  "tcp_wf s \<Longrightarrow> \<not> tc_is_server s \<Longrightarrow> list_all os_sane oss \<Longrightarrow>
     tcp_wf (tcp_timer_loop oss s)"
proof (induction oss arbitrary: s)
  case (Cons os oss)
  define s1 where "s1 = s\<lparr>tc_timer_ms := 0, tc_reconnect_armed := False\<rparr>"
  have s1: "tcp_wf s1" "\<not> tc_is_server s1" using Cons.prems by (simp_all add: s1_def wf_armed)
  obtain rc t where e: "tcp_begin_connect os s1 = (rc, t)" by force
  have "\<not> tc_connected s \<Longrightarrow> \<not> tc_connecting s \<Longrightarrow> tcp_wf t \<and> \<not> tc_is_server t"
    using begin_connect_wf [OF s1 _ _ _ e] Cons.prems(3) by (simp add: s1_def)
  moreover have "tcp_timer_loop (os # oss) s =
     (if tc_reconnect_armed s \<and> \<not> tc_connected s \<and> \<not> tc_connecting s then tcp_timer_loop oss t
      else tcp_timer_loop oss (s\<lparr>tc_timer_ms := 0\<rparr>))"
    using e by (simp add: s1_def Let_def)
  ultimately show ?case using Cons.IH [of t] Cons.IH [of "s\<lparr>tc_timer_ms := 0\<rparr>"] Cons.prems by simp
qed simp


section \<open>Sending\<close>

definition tcp_pending :: "tcp_impl \<Rightarrow> byte list" where
  "tcp_pending s = drop (tc_send_off s) (tc_send_buf s)"

definition tcp_ready :: "tcp_impl \<Rightarrow> bool" where
  "tcp_ready s \<longleftrightarrow> tcp_wf s \<and> tc_connected s"

lemma ready_fd: "tcp_ready s \<Longrightarrow> tc_conn_fd s \<ge> 0 \<and> tc_connected s"
  by (simp add: tcp_ready_def tcp_wf_def)

lemma watch_conn_keeps:
  assumes "tcp_watch_conn os s = (rc, t)"
  shows "tcp_ready t = tcp_ready s" "tcp_pending t = tcp_pending s"
  using watch_conn_cases [OF assms] watch_conn_wf [OF assms]
  by (auto simp: tcp_ready_def tcp_pending_def)

lemma epollout_events: "\<exists>e. snd (tcp_enable_epollout os s) = s\<lparr>tc_events := e\<rparr>"
proof -
  have "snd (tcp_enable_epollout os s) = s \<or>
      snd (tcp_enable_epollout os s) = s\<lparr>tc_events := tcp_conn_events s\<rparr>"
    by (simp add: tcp_enable_epollout_def tcp_watch_conn_def)
  then show ?thesis by (elim disjE) (rule exI [of _ "tc_events s"], simp, blast)
qed

lemma epollout_keeps:
  assumes "tcp_enable_epollout os s = (rc, t)"
  shows "tcp_ready t = tcp_ready s" "tcp_pending t = tcp_pending s"
  using assms watch_conn_keeps by (auto simp: tcp_enable_epollout_def split: if_splits)

lemma alloc_eq: "tc_send_alloc s \<Longrightarrow> s\<lparr>tc_send_alloc := True\<rparr> = s"
  by (cases s) simp

lemma ensure_send_cap_eq:
  "tcp_ensure_send_cap os need s =
     (if need > BC_TCP_SEND_CAP \<or> \<not> tc_send_alloc s \<and> \<not> os_malloc os then (BC_ERR_NOMEM, s)
      else (BC_OK, s\<lparr>tc_send_alloc := True\<rparr>))"
  by (simp add: tcp_ensure_send_cap_def alloc_eq)

definition tcp_queued :: "byte list \<Rightarrow> tcp_impl \<Rightarrow> tcp_impl" where
  "tcp_queued d s = s\<lparr>tc_send_alloc := True, tc_send_buf := tc_send_buf s @ d,
     tc_fault := (tc_fault s \<or> length (tc_send_buf s) + length d > BC_TCP_SEND_CAP)\<rparr>"

lemma queue_send_eq:
  "tcp_queue_send os d s =
     (if length (tcp_pending s) + length d > BC_TCP_SEND_CAP \<or> \<not> tc_send_alloc s \<and> \<not> os_malloc os
      then (BC_ERR_NOMEM, s)
      else (BC_OK, snd (tcp_enable_epollout os (tcp_queued d s))))"
  by (simp add: tcp_queue_send_def ensure_send_cap_eq tcp_pending_def tcp_queued_def)

lemma queued_keeps:
  assumes "tcp_ready s"
  shows "tcp_ready (tcp_queued d s)" "tcp_pending (tcp_queued d s) = tcp_pending s @ d"
  using assms by (simp_all add: tcp_ready_def tcp_wf_def tcp_active_fd_def tcp_queued_def tcp_pending_def)

lemma queue_send_law:
  assumes "tcp_ready s" "tcp_queue_send os d s = (rc, t)"
  shows "tcp_ready t \<and> tcp_pending t = (if rc = BC_OK then tcp_pending s @ d else tcp_pending s)"
proof -
  obtain rc' u where e: "tcp_enable_epollout os (tcp_queued d s) = (rc', u)" by force
  show ?thesis
    using assms(2) epollout_keeps [OF e] queued_keeps [OF assms(1), of d] assms(1) e
    by (simp add: queue_send_eq split: if_splits)
qed

lemma queue_send_ok:
  assumes "length (tcp_pending s) + length d \<le> BC_TCP_SEND_CAP" "os_malloc os"
  shows "fst (tcp_queue_send os d s) = BC_OK"
  using assms by (simp add: queue_send_eq)

lemma flush_loop_nil:
  "tcp_flush_loop [] s = (if tc_send_off s \<ge> length (tc_send_buf s) then Drained else Blocked, [], s)"
  by (subst tcp_flush_loop.simps) simp

lemma flush_loop_cons:
  "tcp_flush_loop (r # rs) s =
     (if tc_send_off s \<ge> length (tc_send_buf s) then (Drained, [], s)
      else case r of
          Done n \<Rightarrow>
            if n > 0 then
              (let n = min n (length (tc_send_buf s) - tc_send_off s) in
               case tcp_flush_loop rs (s\<lparr>tc_send_off := tc_send_off s + n\<rparr>) of (d, out, t) \<Rightarrow>
                 (d, take n (drop (tc_send_off s) (tc_send_buf s)) @ out, t))
            else (Failed, [], s)
        | Error \<Rightarrow> (Failed, [], s)
        | Again \<Rightarrow> (Blocked, [], s))"
  by (subst tcp_flush_loop.simps) simp

lemma flush_loop_law:
  "tc_send_off s \<le> length (tc_send_buf s) \<Longrightarrow> tcp_flush_loop rs s = (d, out, t) \<Longrightarrow>
     \<exists>k. t = s\<lparr>tc_send_off := tc_send_off s + k\<rparr> \<and> tc_send_off s + k \<le> length (tc_send_buf s) \<and>
       out = take k (tcp_pending s) \<and> (d = Drained \<longrightarrow> tc_send_off s + k = length (tc_send_buf s))"
proof (induction rs arbitrary: s d out t)
  case Nil
  then show ?case
    by (intro exI [of _ 0]) (auto simp: flush_loop_nil split: if_splits)
next
  case (Cons r rs)
  show ?case
  proof (cases "tc_send_off s \<ge> length (tc_send_buf s) \<or> (\<forall>n. r \<noteq> Done n) \<or> r = Done 0")
    case True
    then have "t = s \<and> out = [] \<and> (d = Drained \<longrightarrow> tc_send_off s = length (tc_send_buf s))"
      using Cons.prems by (cases r) (auto simp: flush_loop_cons split: if_splits)
    with Cons.prems(1) show ?thesis by (intro exI [of _ 0]) simp
  next
    case False
    then obtain n where n: "r = Done n" "n > 0" "tc_send_off s < length (tc_send_buf s)" by auto
    define m where "m = min n (length (tc_send_buf s) - tc_send_off s)"
    define s1 where "s1 = s\<lparr>tc_send_off := tc_send_off s + m\<rparr>"
    obtain d1 out1 t1 where r1: "tcp_flush_loop rs s1 = (d1, out1, t1)" by (metis prod_cases3)
    have eq: "d = d1" "t = t1" "out = take m (tcp_pending s) @ out1"
      using Cons.prems(2) n r1
      by (simp_all add: flush_loop_cons m_def [symmetric] s1_def [symmetric] tcp_pending_def)
    have "tc_send_off s1 \<le> length (tc_send_buf s1)" using n by (simp add: s1_def m_def)
    from Cons.IH [OF this r1] obtain k where k: "t1 = s1\<lparr>tc_send_off := tc_send_off s1 + k\<rparr>"
      "tc_send_off s1 + k \<le> length (tc_send_buf s1)" "out1 = take k (tcp_pending s1)"
      "d1 = Drained \<longrightarrow> tc_send_off s1 + k = length (tc_send_buf s1)" by blast
    have "tcp_pending s1 = drop m (tcp_pending s)" by (simp add: tcp_pending_def s1_def add.commute)
    then have "out = take (m + k) (tcp_pending s)" using eq(3) k(3) by (simp add: take_add)
    then show ?thesis using k(1,2,4) eq(1,2) by (intro exI [of _ "m + k"]) (simp add: s1_def add.assoc)
  qed
qed

lemma off_keeps:
  assumes "tcp_ready s" "tc_send_off s + k \<le> length (tc_send_buf s)"
  shows "tcp_ready (s\<lparr>tc_send_off := tc_send_off s + k\<rparr>)"
    "tcp_pending (s\<lparr>tc_send_off := tc_send_off s + k\<rparr>) = drop k (tcp_pending s)"
  using assms by (simp_all add: tcp_ready_def tcp_wf_def tcp_active_fd_def tcp_pending_def add.commute)

lemma flush_send_law:
  assumes "tcp_ready s" "tcp_flush_send os rs s = (rc, out, t)"
  shows "tcp_ready t \<and> out @ tcp_pending t = tcp_pending s"
proof -
  obtain d out1 t1 where l: "tcp_flush_loop rs s = (d, out1, t1)" by (metis prod_cases3)
  have "tc_send_off s \<le> length (tc_send_buf s)" using assms(1) by (simp add: tcp_ready_def tcp_wf_def)
  from flush_loop_law [OF this l] obtain k where k: "t1 = s\<lparr>tc_send_off := tc_send_off s + k\<rparr>"
    "tc_send_off s + k \<le> length (tc_send_buf s)" "out1 = take k (tcp_pending s)"
    "d = Drained \<longrightarrow> tc_send_off s + k = length (tc_send_buf s)" by blast
  have t1: "tcp_ready t1" "out1 @ tcp_pending t1 = tcp_pending s"
    using off_keeps [OF assms(1) k(2)] k(1,3) by simp_all
  have conn: "tc_connected s" "\<not> tc_conn_fd s < 0" using ready_fd [OF assms(1)] by simp_all
  show ?thesis
  proof (cases d)
    case Drained
    have p: "tcp_pending t1 = []" using k(1,4) Drained by (simp add: tcp_pending_def)
    have "tcp_ready (tcp_clear_send_queue t1)" "tcp_pending (tcp_clear_send_queue t1) = []"
      using t1(1) clear_wf [of t1] by (simp_all add: tcp_ready_def tcp_pending_def tcp_clear_send_queue_def)
    moreover have "tcp_watch_conn os (tcp_clear_send_queue t1) = (rc, t)" "out = out1"
      using assms(2) conn l Drained by (auto simp: tcp_flush_send_def split: prod.splits)
    ultimately show ?thesis using watch_conn_keeps t1(2) p by metis
  next
    case Blocked
    then have "tcp_enable_epollout os t1 = (rc, t)" "out = out1"
      using assms(2) conn l by (auto simp: tcp_flush_send_def split: prod.splits)
    then show ?thesis using epollout_keeps t1 by metis
  next
    case Failed
    then show ?thesis using assms(2) conn l t1 by (simp add: tcp_flush_send_def)
  qed
qed

interpretation tcp_tx: byte_queue tcp_ready tcp_pending "\<lambda>s d. tcp_queue_send os d s"
    "\<lambda>(os, rs) s. case tcp_flush_send os rs s of (rc, out, t) \<Rightarrow> (out, t)"
proof (unfold_locales, goal_cases)
  case (1 s d rc s')
  then show ?case using queue_send_law by simp
next
  case (2 s r out s')
  then show ?case using flush_send_law by (auto split: prod.splits)
qed


text \<open>The same order when the data go to the socket directly, as they do while nothing is pending.\<close>

lemma send_loop_nil:
  "tcp_send_loop os [] d s =
     (if d = [] then (BC_OK, [], s) else case tcp_queue_send os d s of (rc, t) \<Rightarrow> (rc, [], t))"
  by (subst tcp_send_loop.simps) simp

lemma send_loop_cons:
  "tcp_send_loop os (r # rs) d s =
     (if d = [] then (BC_OK, [], s)
      else case r of
          Done n \<Rightarrow>
            if n > 0 then (case tcp_send_loop os rs (drop n d) s of (rc, out, t) \<Rightarrow> (rc, take n d @ out, t))
            else (BC_ERR_IO, [], tcp_drop_connection os s)
        | Error \<Rightarrow> (BC_ERR_IO, [], tcp_drop_connection os s)
        | Again \<Rightarrow> (case tcp_queue_send os d s of (rc, t) \<Rightarrow> (rc, [], t)))"
  by (subst tcp_send_loop.simps) simp

lemma queue_send_step:
  assumes "tcp_ready s" "tcp_pending s = []" "length d \<le> BC_TCP_SEND_CAP" "os_malloc os"
    "tcp_queue_send os d s = (rc, t)"
  shows "tcp_ready t \<and> rc = BC_OK \<and> tcp_pending t = d"
  using queue_send_law [OF assms(1,5)] queue_send_ok [of s d os] assms by simp

lemma send_loop_law:
  assumes "tcp_ready s" "tcp_pending s = []" "length d \<le> BC_TCP_SEND_CAP" "os_malloc os"
    "tcp_send_loop os rs d s = (rc, out, t)"
  shows "rc = BC_OK \<and> tcp_ready t \<and> out @ tcp_pending t = d \<or>
    rc = BC_ERR_IO \<and> tcp_wf t \<and> \<not> tc_connected t"
  using assms
proof (induction rs arbitrary: d rc out t)
  case Nil
  then show ?case using queue_send_step [OF Nil.prems(1-4)]
    by (cases "tcp_queue_send os d s") (auto simp: send_loop_nil split: if_splits)
next
  case (Cons r rs)
  have wf: "tcp_wf s" using Cons.prems(1) by (simp add: tcp_ready_def)
  show ?case
  proof (cases "d = [] \<or> (\<forall>n. r \<noteq> Done n) \<or> r = Done 0")
    case True
    then show ?thesis using Cons.prems queue_send_step [OF Cons.prems(1-4)] drop_wf [OF wf]
      by (cases "tcp_queue_send os d s"; cases r) (auto simp: send_loop_cons split: if_splits)
  next
    case False
    then obtain n where n: "r = Done n" "n > 0" "d \<noteq> []" by auto
    obtain rc1 out1 t1 where l: "tcp_send_loop os rs (drop n d) s = (rc1, out1, t1)" by (metis prod_cases3)
    then have "rc = rc1" "t = t1" "out = take n d @ out1"
      using Cons.prems(5) n by (simp_all add: send_loop_cons)
    moreover have "length (drop n d) \<le> BC_TCP_SEND_CAP" using Cons.prems(3) by simp
    ultimately show ?thesis using Cons.IH [OF Cons.prems(1,2) _ Cons.prems(4) l] by auto
  qed
qed

lemma send_law:
  assumes "tcp_ready s" "length d \<le> BC_TCP_SEND_CAP" "os_malloc os" "tcp_send os rs d s = (rc, out, t)"
  shows "rc = BC_OK \<and> tcp_ready t \<and> out @ tcp_pending t = tcp_pending s @ d \<or>
    rc = BC_ERR_NOMEM \<and> t = s \<and> out = [] \<or> rc = BC_ERR_IO \<and> tcp_wf t \<and> \<not> tc_connected t"
proof (cases "tcp_pending s = []")
  case True
  then show ?thesis using send_loop_law [OF assms(1) True assms(2,3)] assms(4) ready_fd [OF assms(1)]
    by (auto simp: tcp_send_def tcp_pending_def)
next
  case False
  obtain rc' t' where q: "tcp_queue_send os d s = (rc', t')" by force
  then have eq: "rc = rc'" "t = t'" "out = []"
    using assms(4) False ready_fd [OF assms(1)] by (simp_all add: tcp_send_def tcp_pending_def)
  have "rc = BC_OK \<or> rc = BC_ERR_NOMEM \<and> t = s"
    using q eq by (simp add: queue_send_eq split: if_splits)
  then show ?thesis using queue_send_law [OF assms(1) q] eq by auto
qed

text \<open>
  The calls a link sees while it is up: frames to send, and the socket becoming writable,
  after which a flush that fails drops the connection.
\<close>

datatype tcp_tx = Tx_Send tcp_os "io_result list" "byte list" | Tx_Ready tcp_os "io_result list"

fun tcp_tx_run :: "tcp_tx list \<Rightarrow> tcp_impl \<Rightarrow> tcp_impl \<times> byte list \<times> byte list" where
  "tcp_tx_run [] s = (s, [], [])"
| "tcp_tx_run (Tx_Send os rs d # ops) s =
     (case tcp_send os rs d s of (rc, out, s) \<Rightarrow> case tcp_tx_run ops s of (t, acc, sent) \<Rightarrow>
        (t, (if rc = BC_OK then d else []) @ acc, out @ sent))"
| "tcp_tx_run (Tx_Ready os rs # ops) s =
     (case tcp_flush_send os rs s of (rc, out, s) \<Rightarrow>
        case tcp_tx_run ops (if rc = BC_OK then s else tcp_drop_connection os s) of (t, acc, sent) \<Rightarrow>
        (t, acc, out @ sent))"

fun tcp_tx_fits :: "tcp_tx \<Rightarrow> bool" where
  "tcp_tx_fits (Tx_Send os rs d) \<longleftrightarrow> length d \<le> BC_TCP_SEND_CAP \<and> os_malloc os"
| "tcp_tx_fits (Tx_Ready os rs) \<longleftrightarrow> True"

lemma drop_down: "\<not> tc_connected s \<Longrightarrow> \<not> tc_connecting s \<Longrightarrow> tcp_drop_connection os s = s"
  by (simp add: tcp_drop_connection_def)

lemma tx_run_down:
  "\<not> tc_connected s \<Longrightarrow> tcp_tx_run ops s = (t, acc, sent) \<Longrightarrow> \<not> tc_connected t"
proof (induction ops arbitrary: s t acc sent)
  case (Cons op ops)
  show ?case
  proof (cases op)
    case (Tx_Send os rs d)
    obtain t1 acc1 sent1 where r: "tcp_tx_run ops s = (t1, acc1, sent1)" by (metis prod_cases3)
    then have "t = t1" using Cons.prems by (simp add: Tx_Send tcp_send_def)
    with Cons.IH [OF Cons.prems(1) r] show ?thesis by simp
  next
    case (Tx_Ready os rs)
    have "fst (tcp_flush_send os rs s) = BC_ERR_IO" "snd (snd (tcp_flush_send os rs s)) = s"
      using Cons.prems(1) by (simp_all add: tcp_flush_send_def)
    moreover obtain t1 acc1 sent1 where r: "tcp_tx_run ops (tcp_drop_connection os s) = (t1, acc1, sent1)"
      by (metis prod_cases3)
    ultimately have "t = t1" using Cons.prems(2) Tx_Ready
      by (cases "tcp_flush_send os rs s") simp
    with Cons.IH [OF _ r] show ?thesis by simp
  qed
qed simp

lemma tx_run_law:
  "tcp_ready s \<Longrightarrow> list_all tcp_tx_fits ops \<Longrightarrow> tcp_tx_run ops s = (t, acc, sent) \<Longrightarrow> tc_connected t \<Longrightarrow>
     tcp_ready t \<and> tcp_pending s @ acc = sent @ tcp_pending t"
proof (induction ops arbitrary: s t acc sent)
  case (Cons op ops)
  show ?case
  proof (cases op)
    case (Tx_Send os rs d)
    obtain rc out s1 where e: "tcp_send os rs d s = (rc, out, s1)" by (metis prod_cases3)
    obtain t1 acc1 sent1 where r: "tcp_tx_run ops s1 = (t1, acc1, sent1)" by (metis prod_cases3)
    have eq: "t = t1" "acc = (if rc = BC_OK then d else []) @ acc1" "sent = out @ sent1"
      using Cons.prems(3) e r by (simp_all add: Tx_Send)
    have up: "tc_connected s1" using tx_run_down [OF _ r] Cons.prems(4) eq(1) by blast
    have fits: "length d \<le> BC_TCP_SEND_CAP" "os_malloc os" using Cons.prems(2) by (simp_all add: Tx_Send)
    have st: "tcp_ready s1 \<and> out @ tcp_pending s1 = tcp_pending s @ (if rc = BC_OK then d else [])"
      using send_law [OF Cons.prems(1) fits e] up Cons.prems(1) by auto
    then have "tcp_ready t \<and> tcp_pending s1 @ acc1 = sent1 @ tcp_pending t"
      using Cons.IH [OF _ _ r] Cons.prems(2,4) eq(1) by simp
    then show ?thesis using st eq by (metis append_assoc)
  next
    case (Tx_Ready os rs)
    obtain rc out s1 where e: "tcp_flush_send os rs s = (rc, out, s1)" by (metis prod_cases3)
    define s2 where "s2 = (if rc = BC_OK then s1 else tcp_drop_connection os s1)"
    obtain t1 acc1 sent1 where r: "tcp_tx_run ops s2 = (t1, acc1, sent1)" by (metis prod_cases3)
    have eq: "t = t1" "acc = acc1" "sent = out @ sent1"
      using Cons.prems(3) e r by (simp_all add: Tx_Ready s2_def)
    have "tc_connected s2" using tx_run_down [OF _ r] Cons.prems(4) eq(1) by blast
    then have "s2 = s1" by (auto simp: s2_def split: if_splits)
    moreover have st: "tcp_ready s1 \<and> out @ tcp_pending s1 = tcp_pending s"
      using flush_send_law [OF Cons.prems(1) e] .
    ultimately have "tcp_ready t \<and> tcp_pending s1 @ acc1 = sent1 @ tcp_pending t"
      using Cons.IH [OF _ _ r] Cons.prems(2,4) eq(1) by simp
    then show ?thesis using st eq by (metis append_assoc)
  qed
qed simp


text \<open>
  C32. While a TCP link stays up, the bytes the socket took followed by those still queued are,
  in order and without loss or duplication, what was queued at the start followed by every
  frame whose send was reported successful, whatever part of each write the socket takes.
\<close>
theorem tcp_stream_order:
  assumes "tcp_wf s" "tc_connected s" "\<forall>op\<in>set ops. tcp_tx_fits op"
    and "tcp_tx_run ops s = (t, acc, sent)" "tc_connected t"
  shows "tcp_pending s @ acc = sent @ tcp_pending t \<and> tcp_wf t"
  using tx_run_law [of s ops t acc sent] assms by (simp add: tcp_ready_def list_all_iff)

definition calm_os :: tcp_os where
  "calm_os = \<lparr>os_watch = BC_OK, os_socket = 7, os_addr_ok = True, os_connect = Conn_In_Progress,
     os_so_error = False, os_timer_ok = True, os_timer_fd = 5, os_malloc = True, os_listen_ok = True\<rparr>"

definition connected_client :: tcp_impl where
  "connected_client = bc_tcp_transport_init\<lparr>tc_conn_fd := 7, tc_timer_fd := 5, tc_connected := True,
     tc_fd := 7, tc_bound := True\<rparr>"

lemmas tcp_eval = connected_client_def bc_tcp_transport_init_def calm_os_def tcp_send_def send_loop_cons
  send_loop_nil queue_send_eq tcp_pending_def BC_TCP_SEND_CAP_def BC_MAX_FRAME_LEN_def tcp_flush_send_def
  flush_loop_cons flush_loop_nil tcp_enable_epollout_def tcp_watch_conn_def tcp_queued_def
  tcp_clear_send_queue_def

lemma connected_client_wf: "tcp_wf connected_client"
  by (simp add: connected_client_def bc_tcp_transport_init_def tcp_wf_def tcp_active_fd_def)

lemma tcp_stream_order_witness:
  "\<exists>t. tcp_tx_run [Tx_Send calm_os [Done 2, Again] [1, 2, 3, 4], Tx_Send calm_os [] [5, 6],
       Tx_Ready calm_os [Done 3, Again]] connected_client = (t, [1, 2, 3, 4, 5, 6], [1, 2, 3, 4, 5]) \<and>
     tcp_pending t = [6]"
proof -
  define ops where "ops = [Tx_Send calm_os [Done 2, Again] [1, 2, 3, 4], Tx_Send calm_os [] [5, 6],
       Tx_Ready calm_os [Done 3, Again]]"
  define r where "r = tcp_tx_run ops connected_client"
  have acc: "fst (snd r) = [1, 2, 3, 4, 5, 6]" and sent: "snd (snd r) = [1, 2, 3, 4, 5]"
    and up: "tc_connected (fst r)"
    by (simp_all add: r_def ops_def tcp_eval)
  have "tcp_pending connected_client @ fst (snd r) = snd (snd r) @ tcp_pending (fst r) \<and> tcp_wf (fst r)"
  proof (rule tcp_stream_order [OF connected_client_wf])
    show "tc_connected connected_client" by code_simp
    show "\<forall>op\<in>set ops. tcp_tx_fits op" by (simp add: ops_def tcp_eval)
    show "tcp_tx_run ops connected_client = (fst r, fst (snd r), snd (snd r))" by (simp add: r_def)
  qed (rule up)
  moreover have "tcp_pending connected_client = []" by code_simp
  ultimately show ?thesis using acc sent
    by (intro exI [of _ "fst r"]) (simp add: r_def ops_def prod_eq_iff)
qed

section \<open>The send buffer\<close>

text \<open>
  The send buffer can be written past its end: the capacity check counts the bytes that
  are still unsent, the copy goes behind all bytes still stored. Fill the queue, let the
  socket take one byte of it, and a frame of one byte more is accepted and written beyond the buffer.
\<close>
theorem tcp_send_buffer_overflow:
  assumes "tcp_wf s" "tc_connected s" "tc_send_buf s = []" "os_malloc os" "\<not> tc_fault s"
    and "length d = BC_TCP_SEND_CAP"
    and "tcp_send os [Again] d s = (rc1, out1, s1)" "tcp_flush_send os [Done 1, Again] s1 = (rc2, out2, s2)"
    and "tcp_send os [] [b] s2 = (rc3, out3, s3)"
  shows "rc1 = BC_OK \<and> \<not> tc_fault s1 \<and> out2 = take 1 d \<and> \<not> tc_fault s2 \<and> rc3 = BC_OK \<and> tc_fault s3"
proof -
  have cap: "1 \<le> BC_TCP_SEND_CAP" by (simp add: BC_TCP_SEND_CAP_def BC_MAX_FRAME_LEN_def)
  have fd: "tc_conn_fd s \<ge> 0" "tc_send_off s = 0" using assms(1-3) by (simp_all add: tcp_wf_def)
  have d: "d \<noteq> []" using assms(6) cap by auto
  then have d1: "Suc 0 \<le> length d" by (simp add: Suc_le_eq)
  have q: "tcp_queue_send os d s = (BC_OK, snd (tcp_enable_epollout os (tcp_queued d s)))"
    using assms(3,4,6) fd by (simp add: queue_send_eq tcp_pending_def)
  obtain e1 where s1: "rc1 = BC_OK" "s1 = (tcp_queued d s)\<lparr>tc_events := e1\<rparr>"
    using assms(7) q epollout_events [of os "tcp_queued d s"] assms(2,3) fd d
    by (auto simp: tcp_send_def send_loop_cons)
  have l: "tcp_flush_loop [Done 1, Again] s1 =
      (if length d = 1 then Drained else Blocked, take 1 d, s1\<lparr>tc_send_off := 1\<rparr>)"
    using assms(3) fd d d1 by (simp add: s1 flush_loop_cons tcp_queued_def Let_def min_absorb1)
  have "length d \<noteq> 1" using assms(6) by (simp add: BC_TCP_SEND_CAP_def BC_MAX_FRAME_LEN_def)
  then have "tcp_flush_send os [Done 1, Again] s1 =
      (case tcp_enable_epollout os (s1\<lparr>tc_send_off := 1\<rparr>) of (rc, t) \<Rightarrow> (rc, take 1 d, t))"
    using assms(2) fd(1) l by (simp add: tcp_flush_send_def) (simp add: s1 tcp_queued_def)
  then have "out2 = take 1 d" "s2 = snd (tcp_enable_epollout os (s1\<lparr>tc_send_off := 1\<rparr>))"
    using assms(8) by (simp_all split: prod.splits)
  then obtain e2 where s2: "out2 = take 1 d" "s2 = s1\<lparr>tc_send_off := 1, tc_events := e2\<rparr>"
    using epollout_events [of os "s1\<lparr>tc_send_off := 1\<rparr>"] by auto
  have "tcp_queue_send os [b] s2 = (BC_OK, snd (tcp_enable_epollout os (tcp_queued [b] s2)))"
    using assms(3,4,6) cap by (simp add: queue_send_eq tcp_pending_def s2 s1 tcp_queued_def)
  moreover have "tc_fault (tcp_queued [b] s2)" using assms(3,6) by (simp add: s2 s1 tcp_queued_def)
  moreover have "1 < length d" using d1 \<open>length d \<noteq> 1\<close> by simp
  then have "tcp_send os [] [b] s2 = (case tcp_queue_send os [b] s2 of (rc, t) \<Rightarrow> (rc, [], t))"
    using assms(2,3) fd(1) by (simp add: tcp_send_def s2 s1 tcp_queued_def)
  moreover have "tc_fault (snd (tcp_enable_epollout os u)) = tc_fault u" for u
    using epollout_events [of os u] by auto
  ultimately have "rc3 = BC_OK" "tc_fault s3" using assms(9) by simp_all
  then show ?thesis using s1 s2 assms(3,5,6) by (simp add: tcp_queued_def)
qed


lemma connected_client_up: "tc_connected connected_client" "tc_send_buf connected_client = []"
  "\<not> tc_fault connected_client"
  by (simp_all add: connected_client_def bc_tcp_transport_init_def)

lemma tcp_send_buffer_overflow_witness:
  "\<exists>s. tc_fault s \<and> (\<exists>d s1 s2. tcp_send calm_os [Again] d connected_client = (BC_OK, [], s1) \<and>
     snd (tcp_flush_send calm_os [Done 1, Again] s1) = ([0], s2) \<and>
     (\<exists>out. tcp_send calm_os [] [7] s2 = (BC_OK, out, s)))"
proof -
  define d where "d = replicate BC_TCP_SEND_CAP (0 :: byte)"
  have d: "length d = BC_TCP_SEND_CAP" by (simp add: d_def)
  have up: "tcp_wf connected_client" "tc_connected connected_client"
    by (rule connected_client_wf) (rule connected_client_up)
  obtain rc1 out1 s1 where e1: "tcp_send calm_os [Again] d connected_client = (rc1, out1, s1)"
    by (metis prod_cases3)
  obtain rc2 out2 s2 where e2: "tcp_flush_send calm_os [Done 1, Again] s1 = (rc2, out2, s2)"
    by (metis prod_cases3)
  obtain rc3 out3 s3 where e3: "tcp_send calm_os [] [7] s2 = (rc3, out3, s3)" by (metis prod_cases3)
  have m: "os_malloc calm_os" by (simp add: calm_os_def)
  note o = tcp_send_buffer_overflow [OF up connected_client_up(2) m connected_client_up(3) d e1 e2 e3]
  have "take 1 d = [0]" by (simp add: d_def BC_TCP_SEND_CAP_def BC_MAX_FRAME_LEN_def take_replicate)
  moreover have "out1 = []" using e1 d up(2) connected_client_up
    by (auto simp: tcp_send_def send_loop_cons queue_send_eq split: if_splits prod.splits)
  ultimately show ?thesis using o e1 e2 e3
    by (intro exI [of _ s3] conjI exI [of _ d] exI [of _ s1] exI [of _ s2] exI [of _ out3]) simp_all
qed

end
