(* ===== verification/Tcp_Reconnect.thy ===== *)
theory Tcp_Reconnect
  imports Tcp_Link
begin

text \<open>
  The TCP transport over its whole life: the calls the daemon makes on it as a step relation,
  the invariant of every state they reach, and what becomes of a client whose connection fails.
\<close>

section \<open>Calls\<close>

inductive tcp_call :: "tcp_impl \<Rightarrow> tcp_impl \<Rightarrow> bool" where
  call_bind: "tcp_bind_reactor os s = (rc, t) \<Longrightarrow> tcp_call s t"
| call_send: "tcp_send os results d s = (rc, out, t) \<Longrightarrow> os_malloc os \<Longrightarrow> length d \<le> BC_TCP_SEND_CAP \<Longrightarrow>
    tcp_call s t"
| call_recv: "tcp_recv os r s = (res, t) \<Longrightarrow> tcp_call s t"
| call_event: "tcp_handle_event os fd events expirations accepts sends s = (rc, t) \<Longrightarrow> fd \<ge> 0 \<Longrightarrow>
    list_all os_sane expirations \<Longrightarrow> list_all accept_sane accepts \<Longrightarrow> tcp_call s t"

inductive_cases tcp_call_cases: "tcp_call s t"

inductive tcp_reachable :: "bc_transport_config \<Rightarrow> tcp_impl \<Rightarrow> bool" for cfg where
  reach_open: "tcp_open os cfg bc_tcp_transport_init = (BC_OK, s) \<Longrightarrow> os_sane os \<Longrightarrow> tcp_reachable cfg s"
| reach_call: "tcp_reachable cfg s \<Longrightarrow> tcp_call s t \<Longrightarrow> tcp_reachable cfg t"

lemma open_wf:
  assumes "tcp_open os cfg bc_tcp_transport_init = (BC_OK, s)" "os_sane os"
  shows "tcp_wf s"
proof (cases "tcp_role_is_server cfg")
  case True
  define base where "base = bc_tcp_transport_init\<lparr>tc_listen_fd := - 1, tc_conn_fd := - 1, tc_timer_fd := - 1\<rparr>"
  obtain h p where hp: "(case bc_parse_endpoint (tc_endpoint cfg) 64 of
      Inl _ \<Rightarrow> (str ''0.0.0.0'', 0) | Inr hp \<Rightarrow> hp) = (h, p)" by force
  define i where "i = base\<lparr>tc_host := h, tc_port := tcp_listen_port cfg p\<rparr>"
  have "tcp_listen_open os i = (BC_OK, s)"
    using assms(1) True unfolding tcp_open_def base_def [symmetric] hp Let_def
    by (simp add: i_def split: if_splits)
  then have "os_socket os \<ge> 0"
    "s = tcp_sync_transport_fd (i\<lparr>tc_is_server := True, tc_listen_fd := os_socket os\<rparr>)"
    by (simp_all add: tcp_listen_open_def Let_def split: if_split_asm)
  then show ?thesis
    by (simp add: i_def base_def bc_tcp_transport_init_def tcp_wf_def tcp_active_fd_def tcp_sync_transport_fd_def)
next
  case False
  define base where "base = bc_tcp_transport_init\<lparr>tc_listen_fd := - 1, tc_conn_fd := - 1, tc_timer_fd := - 1\<rparr>"
  have o: "(case bc_parse_endpoint (tc_endpoint cfg) 64 of Inl x \<Rightarrow> (BC_ERR_INVALID, base)
      | Inr (host, port) \<Rightarrow> tcp_client_setup os (base\<lparr>tc_host := host, tc_port := port\<rparr>)) = (BC_OK, s)"
    using assms(1) False unfolding tcp_open_def base_def [symmetric] Let_def by simp
  then obtain host port where c: "tcp_client_setup os (base\<lparr>tc_host := host, tc_port := port\<rparr>) = (BC_OK, s)"
    by (cases "bc_parse_endpoint (tc_endpoint cfg) 64") (simp_all split: prod.splits)
  define i where "i = base\<lparr>tc_host := host, tc_port := port, tc_is_server := False, tc_timer_fd := os_timer_fd os\<rparr>"
  have i: "tcp_wf i" "\<not> tc_is_server i" "\<not> tc_connected i" "\<not> tc_connecting i"
    by (simp_all add: i_def base_def bc_tcp_transport_init_def tcp_wf_def tcp_active_fd_def)
  obtain rc t where b: "tcp_begin_connect os i = (rc, t)" by force
  have "(case tcp_begin_connect os i of (rc, impl) \<Rightarrow>
        (BC_OK, if rc \<noteq> BC_OK then tcp_schedule_reconnect os impl else impl)) = (BC_OK, s)"
    using c by (simp add: tcp_client_setup_def Let_def i_def split: if_split_asm)
  then have "s = t \<or> s = tcp_schedule_reconnect os t" by (simp add: b split: if_splits)
  then show ?thesis using begin_connect_wf [OF i(1,2) assms(2) i(3,4) b] schedule_wf by blast
qed

lemma bind_wf: "tcp_wf s \<Longrightarrow> tcp_bind_reactor os s = (rc, t) \<Longrightarrow> tcp_wf t"
  using watch_conn_wf by (auto simp: tcp_bind_reactor_def Let_def split: if_splits prod.splits)

lemma recv_wf: "tcp_wf s \<Longrightarrow> tcp_recv os r s = (res, t) \<Longrightarrow> tcp_wf t"
  by (auto simp: tcp_recv_def drop_wf split: if_splits sock_read.splits)

lemma send_wf:
  assumes "tcp_wf s" "length d \<le> BC_TCP_SEND_CAP" "os_malloc os" "tcp_send os rs d s = (rc, out, t)"
  shows "tcp_wf t"
proof (cases "tc_connected s")
  case True
  then show ?thesis using send_law [OF _ assms(2-4)] assms(1) by (auto simp: tcp_ready_def)
next
  case False
  then show ?thesis using assms by (simp add: tcp_send_def)
qed

lemma flush_wf:
  assumes "tcp_wf s" "tcp_flush_send os rs s = (rc, out, t)"
  shows "tcp_wf t"
proof (cases "tc_connected s")
  case True
  then show ?thesis using flush_send_law [OF _ assms(2)] assms(1) by (auto simp: tcp_ready_def)
next
  case False
  then show ?thesis using assms by (simp add: tcp_flush_send_def)
qed

lemma event_cases:
  assumes "tcp_handle_event os fd events expirations accepts sends s = (rc, t)"
    and f: "tcp_flush_send os sends s = (rc', out', u)"
  shows "fd = tc_timer_fd s \<and> t = tcp_timer_loop expirations s \<or>
    fd = tc_listen_fd s \<and> t = tcp_accept_loop os accepts s \<or>
    fd = tc_conn_fd s \<and> tc_connecting s \<and> tcp_on_connect_ready os s = (rc, t) \<or>
    fd = tc_conn_fd s \<and> tc_connected s \<and>
      (t = tcp_drop_connection os s \<or> t = u \<or> t = tcp_drop_connection os u) \<or> t = s"
  using assms(1) unfolding tcp_handle_event_def f prod.case by (simp split: if_split_asm)

lemma event_wf:
  assumes "tcp_wf s" "tcp_handle_event os fd events expirations accepts sends s = (rc, t)" "fd \<ge> 0"
    "list_all os_sane expirations" "list_all accept_sane accepts"
  shows "tcp_wf t"
proof -
  have client: "\<not> tc_is_server s" if "fd = tc_timer_fd s" using assms(1,3) that by (auto simp: tcp_wf_def)
  have server: "tc_is_server s" if "fd = tc_listen_fd s" using assms(1,3) that by (auto simp: tcp_wf_def)
  obtain rc' out' u where f: "tcp_flush_send os sends s = (rc', out', u)" by (metis prod_cases3)
  consider (timer) "fd = tc_timer_fd s" "t = tcp_timer_loop expirations s"
    | (listen) "fd = tc_listen_fd s" "t = tcp_accept_loop os accepts s"
    | (ready) "tc_connecting s" "tcp_on_connect_ready os s = (rc, t)"
    | (conn) "t = tcp_drop_connection os s \<or> t = s \<or> t = u \<or> t = tcp_drop_connection os u"
    using event_cases [OF assms(2) f] by blast
  then show ?thesis
  proof cases
    case timer
    then show ?thesis using timer_loop_wf [OF assms(1) client assms(4)] by simp
  next
    case listen
    then show ?thesis using accept_loop_wf [OF assms(1) server assms(5)] by simp
  next
    case ready
    then show ?thesis using on_connect_ready_wf [OF assms(1)] by simp
  next
    case conn
    then show ?thesis using assms(1) drop_wf flush_wf [OF assms(1) f] by blast
  qed
qed

text \<open>
  C33. In every state a TCP transport reaches after it was opened, whatever the operating
  system answers: it is not connected and connecting at once, it has a connection descriptor
  exactly when it is one of them, the descriptor the daemon watches is the active one, only a
  connected link holds data to send, and a server neither connects nor waits to reconnect.
\<close>
theorem tcp_invariant:
  assumes "tcp_reachable cfg s"
  shows "\<not> (tc_connected s \<and> tc_connecting s) \<and>
    (tc_conn_fd s \<ge> 0 \<longleftrightarrow> tc_connected s \<or> tc_connecting s) \<and> tc_fd s = tcp_active_fd s \<and>
    (\<not> tc_connected s \<longrightarrow> tcp_pending s = []) \<and> tc_send_off s \<le> length (tc_send_buf s) \<and>
    (tc_is_server s \<longrightarrow> \<not> tc_connecting s \<and> \<not> tc_reconnect_armed s)"
proof -
  from assms have "tcp_wf s"
  proof induction
    case (reach_open os s)
    then show ?case by (rule open_wf)
  next
    case (reach_call s t)
    from reach_call.hyps(2) reach_call.IH show ?case
      by (cases rule: tcp_call.cases) (blast intro: bind_wf send_wf recv_wf event_wf)+
  qed
  then show ?thesis by (simp add: tcp_wf_def tcp_pending_def)
qed


lemma sample_open:
  "tcp_open calm_os (cfg\<lparr>tc_tcp_listen := 0, tc_endpoint := str ''10.0.0.1:80''\<rparr>) bc_tcp_transport_init =
     (BC_OK, bc_tcp_transport_init\<lparr>tc_host := str ''10.0.0.1'', tc_port := 80, tc_timer_fd := 5,
        tc_conn_fd := 7, tc_connecting := True, tc_fd := 7\<rparr>)"
proof -
  have "bc_parse_endpoint (str ''10.0.0.1:80'') 64 = Inr (str ''10.0.0.1'', 80)" by code_simp
  then show ?thesis
    by (simp add: tcp_open_def tcp_role_is_server_def tcp_client_setup_def tcp_begin_connect_def calm_os_def
      bc_tcp_transport_init_def tcp_watch_conn_def tcp_sync_transport_fd_def tcp_active_fd_def)
qed

lemma tcp_invariant_witness:
  "\<exists>cfg s. tcp_reachable (cfg\<lparr>tc_tcp_listen := 0, tc_endpoint := str ''10.0.0.1:80''\<rparr>) s \<and>
     tc_connecting s \<and> tc_fd s = tcp_active_fd s"
proof -
  fix cfg :: bc_transport_config
  define s where "s = bc_tcp_transport_init\<lparr>tc_host := str ''10.0.0.1'', tc_port := 80, tc_timer_fd := 5,
        tc_conn_fd := 7, tc_connecting := True, tc_fd := 7\<rparr>"
  have r: "tcp_reachable (cfg\<lparr>tc_tcp_listen := 0, tc_endpoint := str ''10.0.0.1:80''\<rparr>) s"
    unfolding s_def by (rule reach_open [OF sample_open]) (simp add: os_sane_def calm_os_def)
  moreover have "tc_connecting s" by (simp add: s_def)
  ultimately show ?thesis using tcp_invariant [OF r] by blast
qed

section \<open>Reconnecting\<close>

lemma reconnect_delay:
  "tcp_reconnect_delay_ms n =
     (if n \<le> 0 then Some 1000
      else if n \<le> 5 then Some (1000 * 2 ^ nat (n - 1))
      else if n \<le> 22 then Some 30000 else None)"
proof -
  have limit: "(1000 * 2 ^ k > (2 ^ 31 - 1 :: int)) = (k \<ge> 22)" for k :: nat
  proof (cases "k \<ge> 22")
    case True
    then have "(2 :: int) ^ 22 \<le> 2 ^ k" by (intro power_increasing) auto
    with True show ?thesis by simp
  next
    case False
    then have "(2 :: int) ^ k \<le> 2 ^ 21" by (intro power_increasing) auto
    with False show ?thesis by simp
  qed
  have cap: "(1000 * 2 ^ k > (30000 :: int)) = (k \<ge> 5)" for k :: nat
  proof (cases "k \<ge> 5")
    case True
    then have "(2 :: int) ^ 5 \<le> 2 ^ k" by (intro power_increasing) auto
    with True show ?thesis by simp
  next
    case False
    then have "(2 :: int) ^ k \<le> 2 ^ 4" by (intro power_increasing) auto
    with False show ?thesis by simp
  qed
  show ?thesis
    unfolding tcp_reconnect_delay_ms_def BC_TCP_RECONNECT_MS_INIT_def BC_TCP_RECONNECT_MS_MAX_def Let_def limit cap
    by auto
qed

lemma backoff_none: "(tcp_reconnect_delay_ms n = None) = (n > 22)"
  unfolding reconnect_delay by auto

text \<open>
  The delay before a connection attempt doubles from one second to a limit of thirty,
  reached with the sixth attempt, and never falls; from the twenty-third on its computation
  overflows.
\<close>
theorem tcp_backoff:
  "tcp_reconnect_delay_ms n =
     (if n \<le> 0 then Some 1000
      else if n \<le> 5 then Some (1000 * 2 ^ nat (n - 1))
      else if n \<le> 22 then Some 30000 else None)"
  by (rule reconnect_delay)

text \<open>A client that is neither up nor waiting for its timer.\<close>

definition tcp_idle :: "tcp_impl \<Rightarrow> bool" where
  "tcp_idle s \<longleftrightarrow> tcp_wf s \<and> \<not> tc_is_server s \<and> \<not> tc_connected s \<and> \<not> tc_connecting s \<and> \<not> tc_reconnect_armed s"

lemma idle_timer_loop: "tcp_idle s \<Longrightarrow> tcp_idle (tcp_timer_loop oss s)"
proof (induction oss arbitrary: s)
  case (Cons os oss)
  have "tcp_idle (s\<lparr>tc_timer_ms := 0\<rparr>)" using Cons.prems by (simp add: tcp_idle_def)
  from Cons.IH [OF this] Cons.prems show ?case by (simp add: tcp_idle_def Let_def)
qed simp

lemma idle_call:
  assumes "tcp_call s t" "tcp_idle s"
  shows "tcp_idle t"
  using assms(1)
proof cases
  case (call_bind os rc)
  then show ?thesis using assms(2) bind_wf [of s os rc t]
    by (auto simp: tcp_idle_def tcp_bind_reactor_def tcp_watch_conn_def tcp_wf_def Let_def split: if_splits)
next
  case (call_send os results d rc out)
  then show ?thesis using assms(2) by (simp add: tcp_idle_def tcp_send_def)
next
  case (call_recv os r res)
  then show ?thesis using assms(2) by (simp add: tcp_idle_def tcp_recv_def)
next
  case (call_event os fd events expirations accepts sends rc)
  have "tc_conn_fd s = - 1" "tc_listen_fd s = - 1" using assms(2) by (auto simp: tcp_idle_def tcp_wf_def)
  then have "t = tcp_timer_loop expirations s \<or> t = s"
    using call_event(1,2) by (simp add: tcp_handle_event_def split: if_splits)
  then show ?thesis using idle_timer_loop assms(2) by blast
qed

lemma idle_forever: "tcp_call\<^sup>*\<^sup>* s t \<Longrightarrow> tcp_idle s \<Longrightarrow> tcp_idle t"
  by (induction rule: rtranclp_induct) (auto intro: idle_call)


lemma begin_connect_refused:
  assumes "os_connect os = Conn_Failed \<or> os_socket os < 0 \<or> \<not> os_addr_ok os" "tc_conn_fd s = - 1"
    and "\<not> tc_connected s" "\<not> tc_connecting s" "\<not> tc_reconnect_armed s"
  shows "\<not> tc_connected (snd (tcp_begin_connect os s)) \<and> \<not> tc_connecting (snd (tcp_begin_connect os s)) \<and>
    \<not> tc_reconnect_armed (snd (tcp_begin_connect os s))"
  using assms by (auto simp: tcp_begin_connect_def tcp_sync_transport_fd_def Let_def)

text \<open>
  C40. A client loses its connection for good: when the reconnect timer fires and the new
  attempt fails at once (no socket, an unreachable network), the timer is not set again.
  Whatever the daemon calls from then on, and whatever the operating system answers, the link
  never connects, never waits to reconnect and refuses every send.
\<close>
theorem tcp_reconnect_lost:
  assumes "tcp_wf s" "\<not> tc_is_server s" "\<not> tc_connected s" "\<not> tc_connecting s" "tc_reconnect_armed s"
    and "os_connect os1 = Conn_Failed \<or> os_socket os1 < 0" "os_sane os1" "tc_timer_fd s \<ge> 0"
    and "tcp_handle_event os (tc_timer_fd s) EPOLLIN [os1] accepts sends s = (rc, t)"
    and "tcp_call\<^sup>*\<^sup>* t u"
  shows "rc = BC_OK \<and> tc_timer_ms t = 0 \<and> \<not> tc_connected u \<and> \<not> tc_connecting u \<and> \<not> tc_reconnect_armed u \<and>
    tcp_send os' results d u = (BC_ERR_IO, [], u)"
proof -
  define s1 where "s1 = s\<lparr>tc_timer_ms := 0, tc_reconnect_armed := False\<rparr>"
  have t: "rc = BC_OK" "t = snd (tcp_begin_connect os1 s1)"
    using assms(3-5,9) by (simp_all add: tcp_handle_event_def EPOLLIN_def s1_def)
  obtain rc1 t1 where b: "tcp_begin_connect os1 s1 = (rc1, t1)" by force
  have s1: "tcp_wf s1" "\<not> tc_is_server s1" "\<not> tc_connected s1" "\<not> tc_connecting s1" "\<not> tc_reconnect_armed s1"
    using assms(1-4) by (simp_all add: s1_def wf_armed)
  have fd: "tc_conn_fd s1 = - 1" using s1(1,3,4) by (simp add: tcp_wf_def)
  have "tcp_wf t \<and> \<not> tc_is_server t" using begin_connect_wf [OF s1(1,2) assms(7) s1(3,4) b] t b by simp
  moreover have "\<not> tc_connected t \<and> \<not> tc_connecting t \<and> \<not> tc_reconnect_armed t"
    using begin_connect_refused [OF _ fd s1(3-5)] assms(6) t(2) by blast
  ultimately have "tcp_idle t" by (simp add: tcp_idle_def)
  then have u: "tcp_idle u" using idle_forever assms(10) by blast
  have "tc_timer_ms t = 0" using assms(6)
    by (auto simp: t(2) s1_def tcp_begin_connect_def tcp_sync_transport_fd_def Let_def)
  then show ?thesis using u t(1) by (simp add: tcp_idle_def tcp_send_def)
qed

definition waiting_client :: tcp_impl where
  "waiting_client = bc_tcp_transport_init\<lparr>tc_timer_fd := 5, tc_reconnect_armed := True, tc_timer_ms := 1000,
     tc_retry_attempt := 1, tc_bound := True\<rparr>"

lemma tcp_reconnect_lost_witness:
  "\<exists>t. tcp_handle_event calm_os 5 EPOLLIN [calm_os\<lparr>os_connect := Conn_Failed\<rparr>] [] [] waiting_client = (BC_OK, t) \<and>
     \<not> tc_reconnect_armed t \<and> tc_timer_ms t = 0 \<and> tcp_send calm_os [] [1] t = (BC_ERR_IO, [], t)"
proof -
  obtain rc t where t: "tcp_handle_event calm_os 5 EPOLLIN [calm_os\<lparr>os_connect := Conn_Failed\<rparr>] [] [] waiting_client = (rc, t)"
    by force
  have w: "tcp_wf waiting_client" "\<not> tc_is_server waiting_client" "\<not> tc_connected waiting_client"
    "\<not> tc_connecting waiting_client" "tc_reconnect_armed waiting_client" "tc_timer_fd waiting_client = 5"
    by (simp_all add: waiting_client_def bc_tcp_transport_init_def tcp_wf_def tcp_active_fd_def)
  have e: "tcp_handle_event calm_os (tc_timer_fd waiting_client) EPOLLIN [calm_os\<lparr>os_connect := Conn_Failed\<rparr>]
      [] [] waiting_client = (rc, t)" using w(6) t by simp
  have o: "os_connect (calm_os\<lparr>os_connect := Conn_Failed\<rparr>) = Conn_Failed \<or> os_socket (calm_os\<lparr>os_connect := Conn_Failed\<rparr>) < 0"
    "os_sane (calm_os\<lparr>os_connect := Conn_Failed\<rparr>)" "tc_timer_fd waiting_client \<ge> 0"
    using w(6) by (simp_all add: calm_os_def os_sane_def)
  show ?thesis using tcp_reconnect_lost [OF w(1-5) o e rtranclp.rtrancl_refl] t by blast
qed

text \<open>
  One refused attempt of a client: the socket reports the error, and later the timer
  fires and the next attempt is in progress.
\<close>

definition tcp_refused_round :: "tcp_os \<Rightarrow> tcp_impl \<Rightarrow> tcp_impl" where
  "tcp_refused_round os s =
     (let s1 = snd (tcp_handle_event os (tc_conn_fd s) EPOLLERR [] [] [] s) in
      snd (tcp_handle_event os (tc_timer_fd s1) EPOLLIN [os] [] [] s1))"

definition tcp_trying :: "int \<Rightarrow> tcp_impl \<Rightarrow> bool" where
  "tcp_trying n s \<longleftrightarrow> \<not> tc_is_server s \<and> tc_connecting s \<and> \<not> tc_connected s \<and> tc_conn_fd s = 7 \<and>
     tc_timer_fd s = 5 \<and> tc_listen_fd s = - 1 \<and> tc_retry_attempt s = n"

lemma schedule_armed [simp]:
  "\<not> tc_is_server s \<Longrightarrow> tc_reconnect_armed (tcp_schedule_reconnect os s)"
  "\<not> tc_is_server s \<Longrightarrow> tc_retry_attempt (tcp_schedule_reconnect os s) = tc_retry_attempt s + 1"
  "tc_timer_fd (tcp_schedule_reconnect os s) = tc_timer_fd s"
  "tc_listen_fd (tcp_schedule_reconnect os s) = tc_listen_fd s"
  "tc_conn_fd (tcp_schedule_reconnect os s) = tc_conn_fd s"
  "\<not> tc_is_server s \<Longrightarrow> tc_fault (tcp_schedule_reconnect os s) =
     (tc_fault s \<or> tcp_reconnect_delay_ms (tc_retry_attempt s) = None)"
  by (simp_all add: tcp_schedule_reconnect_def tcp_timer_arm_def Let_def split: option.split)

lemma close_conn_more [simp]:
  "tc_listen_fd (tcp_close_conn s) = tc_listen_fd s"
  "tc_conn_fd s \<ge> 0 \<Longrightarrow> tc_conn_fd (tcp_close_conn s) = - 1"
  by (simp_all add: tcp_close_conn_def tcp_clear_send_queue_def tcp_sync_transport_fd_def Let_def)

lemma refused_round:
  assumes "tcp_trying n s" "os_so_error os" "os_connect os = Conn_In_Progress" "os_socket os = 7" "os_addr_ok os"
  shows "tcp_trying (n + 2) (tcp_refused_round os s) \<and>
    tc_fault (tcp_refused_round os s) =
      (tc_fault s \<or> tcp_reconnect_delay_ms n = None \<or> tcp_reconnect_delay_ms (n + 1) = None)"
proof -
  note t = assms(1) [unfolded tcp_trying_def]
  define s1 where "s1 = tcp_schedule_reconnect os (tcp_schedule_reconnect os (tcp_close_conn s))"
  have e1: "snd (tcp_handle_event os (tc_conn_fd s) EPOLLERR [] [] [] s) = s1"
    using t assms(2) by (simp add: tcp_handle_event_def EPOLLERR_def EPOLLIN_def EPOLLOUT_def
      tcp_on_connect_ready_def tcp_drop_connection_def s1_def)
  have s1: "\<not> tc_is_server s1" "\<not> tc_connected s1" "\<not> tc_connecting s1" "tc_reconnect_armed s1" "tc_timer_fd s1 = 5"
    "tc_listen_fd s1 = - 1" "tc_retry_attempt s1 = n + 2" "tc_conn_fd s1 = - 1"
    "tc_fault s1 = (tc_fault s \<or> tcp_reconnect_delay_ms n = None \<or> tcp_reconnect_delay_ms (n + 1) = None)"
    using t by (auto simp: s1_def)
  define s2 where "s2 = tcp_sync_transport_fd
    (s1\<lparr>tc_timer_ms := 0, tc_reconnect_armed := False, tc_conn_fd := 7, tc_connecting := True,
     tc_connected := False, tc_reconnect_armed := False\<rparr>)"
  obtain rc s3 where w: "tcp_watch_conn os s2 = (rc, s3)" by force
  have b: "tcp_begin_connect os (s1\<lparr>tc_timer_ms := 0, tc_reconnect_armed := False\<rparr>) = (rc, s3)"
    using assms(3-5) s1(8) w by (simp add: tcp_begin_connect_def s2_def tcp_sync_transport_fd_def tcp_active_fd_def)
  have r: "tcp_refused_round os s = s3"
    unfolding tcp_refused_round_def e1 Let_def using s1(2-5) b by (simp add: tcp_handle_event_def EPOLLIN_def)
  have "tcp_trying (n + 2) s2" "tc_fault s2 = tc_fault s1"
    using s1 by (simp_all add: s2_def tcp_trying_def tcp_sync_transport_fd_def)
  then show ?thesis unfolding r using watch_conn_cases [OF w] s1(9) by (auto simp: tcp_trying_def)
qed

lemma refused_rounds:
  assumes "tcp_trying 0 s" "\<not> tc_fault s"
    and "os_so_error os" "os_connect os = Conn_In_Progress" "os_socket os = 7" "os_addr_ok os"
  shows "tcp_trying (2 * int k) ((tcp_refused_round os ^^ k) s) \<and>
    tc_fault ((tcp_refused_round os ^^ k) s) = (k \<ge> 12)"
proof (induction k)
  case 0
  then show ?case using assms(1,2) by simp
next
  case (Suc k)
  have e: "2 * int (Suc k) = 2 * int k + 2" by simp
  have n: "(tcp_reconnect_delay_ms (2 * int k) = None \<or> tcp_reconnect_delay_ms (2 * int k + 1) = None) =
      (k \<ge> 11)"
    unfolding backoff_none by auto
  show ?case unfolding e
    using Suc n refused_round [OF _ assms(3-6), of "2 * int k" "(tcp_refused_round os ^^ k) s"] by simp linarith
qed

text \<open>
  Each refused attempt counts twice, because a failed connect schedules the retry once
  while it drops the connection and once more after that; the eleventh still has a delay, the
  twelfth makes the computation of the delay overflow.
\<close>
theorem tcp_twelve_refusals_overflow:
  assumes "tcp_trying 0 s" "\<not> tc_fault s"
    and "os_so_error os" "os_connect os = Conn_In_Progress" "os_socket os = 7" "os_addr_ok os"
  shows "tc_retry_attempt ((tcp_refused_round os ^^ 11) s) = 22 \<and> \<not> tc_fault ((tcp_refused_round os ^^ 11) s) \<and>
    tc_fault ((tcp_refused_round os ^^ 12) s)"
proof -
  have "2 * int 11 = 22" by simp
  then show ?thesis using refused_rounds [OF assms, of 11] refused_rounds [OF assms, of 12]
    by (simp add: tcp_trying_def)
qed

lemma tcp_twelve_refusals_overflow_witness:
  "tc_fault ((tcp_refused_round (calm_os\<lparr>os_so_error := True\<rparr>) ^^ 12)
     (bc_tcp_transport_init\<lparr>tc_host := str ''10.0.0.1'', tc_port := 80, tc_timer_fd := 5, tc_conn_fd := 7,
        tc_connecting := True, tc_fd := 7\<rparr>))"
  by (rule tcp_twelve_refusals_overflow [THEN conjunct2, THEN conjunct2])
    (simp_all add: tcp_trying_def bc_tcp_transport_init_def calm_os_def)

end
