(* ===== verification/File_Transfer.thy ===== *)
theory File_Transfer
  imports Protocol
begin

text \<open>
  \<^verbatim>\<open>api/bc_file.c\<close>: sending a file over publish and subscribe, in packets START, DATA, END one
  way and NACK, DONE back. The calls of \<^verbatim>\<open>bc_write_ex\<close> and \<^verbatim>\<open>bc_subscribe_fd\<close> are functions of the
  environment on a world \<open>'w\<close> (\<open>BC_OK\<close> for any result that is not negative); the results of the
  successive \<^verbatim>\<open>bc_read\<close> calls are a list, whose end is a timeout. Files are byte lists. The
  variant without a channel passes an empty one, which the code treats alike.
\<close>

section \<open>Packets\<close>

definition BC_FILE_PKT_MAGIC :: u16 where "BC_FILE_PKT_MAGIC = 0xBCF1"
definition BC_FILE_NAME_MAX :: nat where "BC_FILE_NAME_MAX = 255"
definition BC_FILE_PKT_START :: byte where "BC_FILE_PKT_START = 1"
definition BC_FILE_PKT_DATA :: byte where "BC_FILE_PKT_DATA = 2"
definition BC_FILE_PKT_END :: byte where "BC_FILE_PKT_END = 3"
definition BC_FILE_PKT_NACK :: byte where "BC_FILE_PKT_NACK = 4"
definition BC_FILE_PKT_DONE :: byte where "BC_FILE_PKT_DONE = 5"
definition BC_FILE_PKT_FLAG_V2 :: byte where "BC_FILE_PKT_FLAG_V2 = 1"
definition BC_FILE_META_V2_VERSION :: byte where "BC_FILE_META_V2_VERSION = 2"
definition FILE_HDR_SIZE :: nat where "FILE_HDR_SIZE = 8"
definition BC_FILE_DATA_BODY_MAX :: nat where "BC_FILE_DATA_BODY_MAX = BC_MAX_PAYLOAD_LEN - 8"
definition BC_FILE_SEND_RETRY_MAX :: nat where "BC_FILE_SEND_RETRY_MAX = 64"
definition BC_FILE_DATA_RETRY_SPIN :: nat where "BC_FILE_DATA_RETRY_SPIN = 200000"
definition BC_FILE_RETX_WINDOW :: nat where "BC_FILE_RETX_WINDOW = 256"
definition BC_FILE_END_WAIT_ROUNDS :: nat where "BC_FILE_END_WAIT_ROUNDS = 200"

lemmas pkt_types = BC_FILE_PKT_START_def BC_FILE_PKT_DATA_def BC_FILE_PKT_END_def
  BC_FILE_PKT_NACK_def BC_FILE_PKT_DONE_def

record bc_file_pkt_hdr =
  fp_magic :: u16
  fp_type :: byte
  fp_reserved :: byte
  fp_value :: u32

definition put_file_hdr :: "bc_file_pkt_hdr \<Rightarrow> byte list" where
  "put_file_hdr h = to_le 2 (fp_magic h) @ [fp_type h, fp_reserved h] @ to_le 4 (fp_value h)"

definition get_file_hdr :: "byte list \<Rightarrow> bc_file_pkt_hdr" where
  "get_file_hdr bs = \<lparr>fp_magic = of_le (fld 0 2 bs), fp_type = bs ! 2, fp_reserved = bs ! 3,
     fp_value = of_le (fld 4 4 bs)\<rparr>"

interpretation file_hdr: fixed_codec put_file_hdr get_file_hdr FILE_HDR_SIZE
proof unfold_locales
  fix h :: bc_file_pkt_hdr and bs :: "byte list"
  show "length (put_file_hdr h) = FILE_HDR_SIZE"
    by (simp add: put_file_hdr_def FILE_HDR_SIZE_def del: to_le_numeral)
  have n: "(to_le 2 (fp_magic h) @ [fp_type h, fp_reserved h] @ to_le 4 (fp_value h)) ! 2 = fp_type h"
    "(to_le 2 (fp_magic h) @ [fp_type h, fp_reserved h] @ to_le 4 (fp_value h)) ! 3 = fp_reserved h"
    by (simp_all add: nth_append del: to_le_numeral)
  have "fld 4 4 (to_le 2 (fp_magic h) @ [fp_type h, fp_reserved h] @ to_le 4 (fp_value h)) = to_le 4 (fp_value h)"
    using fld_skip [of "to_le 2 (fp_magic h) @ [fp_type h, fp_reserved h]" 4 4 "to_le 4 (fp_value h)"]
    by (simp add: codec_simps del: to_le_numeral)
  then show "get_file_hdr (put_file_hdr h) = h" using n
    by (simp add: put_file_hdr_def get_file_hdr_def codec_simps le16.dec_enc le32.dec_enc del: to_le_numeral)
  assume l: "length bs = FILE_HDR_SIZE"
  then have l8: "length bs = 8" by (simp add: FILE_HDR_SIZE_def)
  have "put_file_hdr (get_file_hdr bs) = fld 0 2 bs @ [bs ! 2, bs ! 3] @ fld 4 4 bs"
    using l8 by (simp add: put_file_hdr_def get_file_hdr_def le16.enc_dec le32.enc_dec codec_simps del: to_le_numeral)
  also have "[bs ! 2, bs ! 3] = fld 2 2 bs"
    using l8 by (simp add: fld_def Cons_nth_drop_Suc [symmetric] numeral_eq_Suc)
  also have "fld 0 2 bs @ fld 2 2 bs @ fld 4 4 bs = take 8 bs" by (simp add: fld_chain)
  finally show "put_file_hdr (get_file_hdr bs) = bs" using l8 by simp
qed

record 'w file_env =
  fe_write :: "byte list \<Rightarrow> byte list \<Rightarrow> byte list \<Rightarrow> u16 \<Rightarrow> 'w \<Rightarrow> bc_status \<times> 'w"
  fe_subscribe :: "byte list \<Rightarrow> 'w \<Rightarrow> bc_status \<times> 'w"

text \<open>The two retry loops: spinning on backpressure for data, waiting longer for the rest.\<close>

fun send_spin :: "nat \<Rightarrow> ('w \<Rightarrow> bc_status \<times> 'w) \<Rightarrow> 'w \<Rightarrow> bc_status \<times> 'w" where
  "send_spin 0 write w = (BC_ERR_IO, w)"
| "send_spin (Suc left) write w =
     (case write w of (n, w) \<Rightarrow>
        if n = BC_OK then (n, w) else if n \<noteq> BC_ERR_NOMEM then (n, w) else send_spin left write w)"

fun send_attempts :: "nat \<Rightarrow> ('w \<Rightarrow> bc_status \<times> 'w) \<Rightarrow> 'w \<Rightarrow> bc_status \<times> 'w" where
  "send_attempts 0 write w = (BC_ERR_IO, w)"
| "send_attempts (Suc left) write w =
     (case write w of (n, w) \<Rightarrow>
        if n = BC_OK then (n, w)
        else if n = BC_ERR_NOMEM \<or> n = BC_ERR_IO then send_attempts left write w else (n, w))"

definition file_packet :: "byte \<Rightarrow> byte \<Rightarrow> u32 \<Rightarrow> byte list \<Rightarrow> byte list" where
  "file_packet type reserved value extra =
     put_file_hdr \<lparr>fp_magic = BC_FILE_PKT_MAGIC, fp_type = type, fp_reserved = reserved, fp_value = value\<rparr> @ extra"

definition send_file_packet ::
  "'w file_env \<Rightarrow> byte list \<Rightarrow> byte list \<Rightarrow> byte \<Rightarrow> byte \<Rightarrow> u32 \<Rightarrow> byte list \<Rightarrow> 'w \<Rightarrow> bc_status \<times> 'w" where
  "send_file_packet env channel topic type reserved value extra w =
     (if length extra > BC_MAX_PAYLOAD_LEN - FILE_HDR_SIZE then (BC_ERR_INVALID, w)
      else
        let payload = file_packet type reserved value extra in
        if type = BC_FILE_PKT_DATA
        then send_spin BC_FILE_DATA_RETRY_SPIN (fe_write env channel topic payload BC_QOS_AT_MOST_ONCE) w
        else send_attempts BC_FILE_SEND_RETRY_MAX (fe_write env channel topic payload BC_QOS_AT_LEAST_ONCE) w)"

definition parse_file_packet :: "byte list \<Rightarrow> bc_status + bc_file_pkt_hdr \<times> byte list" where
  "parse_file_packet payload =
     (if length payload < FILE_HDR_SIZE then Inl BC_ERR_INVALID
      else
        let hdr = get_file_hdr (take FILE_HDR_SIZE payload) in
        if fp_magic hdr \<noteq> BC_FILE_PKT_MAGIC then Inl BC_ERR_INVALID
        else Inr (hdr, drop FILE_HDR_SIZE payload))"

definition send_file_v2_control ::
  "'w file_env \<Rightarrow> byte list \<Rightarrow> byte list \<Rightarrow> byte \<Rightarrow> u32 \<Rightarrow> u32 \<Rightarrow> 'w \<Rightarrow> bc_status \<times> 'w" where
  "send_file_v2_control env channel topic type value transfer_id w =
     send_file_packet env channel topic type BC_FILE_PKT_FLAG_V2 value (to_le 4 transfer_id) w"

definition parse_file_v2_control ::
  "bc_file_pkt_hdr \<Rightarrow> byte list \<Rightarrow> byte \<Rightarrow> u32 \<Rightarrow> bc_status" where
  "parse_file_v2_control hdr extra expect_type expect_transfer_id =
     (if fp_type hdr \<noteq> expect_type \<or> (fp_reserved hdr AND BC_FILE_PKT_FLAG_V2) = 0 \<or> length extra \<noteq> 4
      then BC_ERR_INVALID
      else if of_le extra = expect_transfer_id then BC_OK else BC_ERR_NOT_FOUND)"

section \<open>The retransmission window\<close>

record bc_file_cache_slot =
  cs_valid :: bool
  cs_seq :: u32
  cs_data :: "byte list"

definition empty_cache :: "bc_file_cache_slot list" where
  "empty_cache = replicate BC_FILE_RETX_WINDOW \<lparr>cs_valid = False, cs_seq = 0, cs_data = []\<rparr>"

definition find_cache_slot :: "bc_file_cache_slot list \<Rightarrow> u32 \<Rightarrow> bc_file_cache_slot option" where
  "find_cache_slot cache seq = find (\<lambda>s. cs_valid s \<and> cs_seq s = seq) cache"

definition store_cache_slot ::
  "bc_file_cache_slot list \<Rightarrow> u32 \<Rightarrow> byte list \<Rightarrow> bc_file_cache_slot list" where
  "store_cache_slot cache seq data =
     cache[unat (seq mod of_nat (length cache)) := \<lparr>cs_valid = True, cs_seq = seq, cs_data = data\<rparr>]"

section \<open>The sender\<close>

type_synonym file_read = "bc_status + byte list \<times> byte list"

definition basename_only :: "byte list \<Rightarrow> byte list" where
  "basename_only path = rev (takeWhile (\<lambda>c. c \<noteq> of_char (CHR ''/'')) (rev (cstr path)))"

definition make_transfer_id :: "u32 \<Rightarrow> u32 \<Rightarrow> byte list \<Rightarrow> byte list \<Rightarrow> u32 \<Rightarrow> u32" where
  "make_transfer_id now pid topic path size_hint =
     (let seed = bc_file_crc32_update 0xffffffff (to_le 4 now);
          seed = bc_file_crc32_update seed (to_le 4 pid);
          seed = bc_file_crc32_update seed (to_le 4 size_hint);
          seed = bc_file_crc32_update seed (cstr topic);
          seed = bc_file_crc32_update seed (cstr path) in NOT seed)"

text \<open>The result: the status, whether DONE was seen, whether anything was sent again.\<close>

fun sender_handle_controls ::
  "'w file_env \<Rightarrow> byte list \<Rightarrow> byte list \<Rightarrow> u32 \<Rightarrow> u32 \<Rightarrow> bc_file_cache_slot list \<Rightarrow> file_read list \<Rightarrow> bool \<Rightarrow> bool \<Rightarrow> 'w \<Rightarrow>
     bc_status \<times> bool \<times> bool \<times> 'w" where
  "sender_handle_controls env channel topic tid seq_sent cache [] seen resent w = (BC_OK, seen, resent, w)"
| "sender_handle_controls env channel topic tid seq_sent cache (Inl n # reads) seen resent w =
     (if n = BC_ERR_TIMEOUT \<or> n = BC_ERR_NOT_FOUND then (BC_OK, seen, resent, w) else (n, seen, resent, w))"
| "sender_handle_controls env channel topic tid seq_sent cache (Inr (rx_topic, payload) # reads) seen resent w =
     (if \<not> strcmp_eq rx_topic topic
      then sender_handle_controls env channel topic tid seq_sent cache reads seen resent w
      else case parse_file_packet payload of
          Inl _ \<Rightarrow> sender_handle_controls env channel topic tid seq_sent cache reads seen resent w
        | Inr (hdr, extra) \<Rightarrow>
            if parse_file_v2_control hdr extra BC_FILE_PKT_DONE tid = BC_OK
            then sender_handle_controls env channel topic tid seq_sent cache reads True resent w
            else if fp_type hdr = BC_FILE_PKT_START \<or> fp_type hdr = BC_FILE_PKT_DATA \<or> fp_type hdr = BC_FILE_PKT_END
            then sender_handle_controls env channel topic tid seq_sent cache reads seen resent w
            else if parse_file_v2_control hdr extra BC_FILE_PKT_NACK tid = BC_OK then
              if fp_value hdr \<ge> seq_sent
              then sender_handle_controls env channel topic tid seq_sent cache reads seen resent w
              else (case find_cache_slot cache (fp_value hdr) of
                  None \<Rightarrow> (BC_ERR_IO, seen, resent, w)
                | Some slot \<Rightarrow>
                    (case send_file_packet env channel topic BC_FILE_PKT_DATA BC_FILE_PKT_FLAG_V2
                        (cs_seq slot) (cs_data slot) w of (rc, w) \<Rightarrow>
                       if rc \<noteq> BC_OK then (rc, seen, resent, w)
                       else sender_handle_controls env channel topic tid seq_sent cache reads seen True w))
            else sender_handle_controls env channel topic tid seq_sent cache reads seen resent w)"

text \<open>
  What the sender finds on the disk: the size \<^verbatim>\<open>stat\<close> reports (\<open>None\<close> unless a regular file), whether the
  file opens, the pieces the reads return, whether the last read ended the file, and the
  clock and process id that enter the transfer id.
\<close>

record file_source =
  fs_stat :: "nat option"
  fs_open :: bool
  fs_chunks :: "byte list list"
  fs_read_ok :: bool
  fs_now :: u32
  fs_pid :: u32

definition start_meta :: "byte list \<Rightarrow> byte list \<Rightarrow> u32 \<Rightarrow> byte list" where
  "start_meta name channel transfer_id =
     [BC_FILE_META_V2_VERSION] @ to_le 4 transfer_id @ to_le 2 (of_nat (length name) :: u64) @ name @
     to_le 2 (of_nat (length channel) :: u64) @ channel"

fun send_chunks ::
  "'w file_env \<Rightarrow> byte list \<Rightarrow> byte list \<Rightarrow> byte list list \<Rightarrow> u32 \<Rightarrow> u32 \<Rightarrow> bc_file_cache_slot list \<Rightarrow> 'w \<Rightarrow>
     bc_status \<times> u32 \<times> u32 \<times> bc_file_cache_slot list \<times> 'w" where
  "send_chunks env channel topic [] crc seq cache w = (BC_OK, crc, seq, cache, w)"
| "send_chunks env channel topic (chunk # chunks) crc seq cache w =
     (let crc = bc_file_crc32_update crc chunk in
      case send_file_packet env channel topic BC_FILE_PKT_DATA BC_FILE_PKT_FLAG_V2 seq chunk w of (n, w) \<Rightarrow>
        if n \<noteq> BC_OK then (n, crc, seq, cache, w)
        else send_chunks env channel topic chunks crc (seq + 1) (store_cache_slot cache seq chunk) w)"

text \<open>Round by round the controls read in it; a round without an entry reads none.\<close>

fun end_rounds ::
  "'w file_env \<Rightarrow> byte list \<Rightarrow> byte list \<Rightarrow> u32 \<Rightarrow> u32 \<Rightarrow> u32 \<Rightarrow> bc_file_cache_slot list \<Rightarrow> nat \<Rightarrow> file_read list list \<Rightarrow> 'w \<Rightarrow>
     bc_status \<times> 'w" where
  "end_rounds env channel topic tid crc seq cache 0 inboxes w = (BC_ERR_TIMEOUT, w)"
| "end_rounds env channel topic tid crc seq cache (Suc rounds) inboxes w =
     (case sender_handle_controls env channel topic tid seq cache
         (case inboxes of [] \<Rightarrow> [] | inbox # _ \<Rightarrow> inbox) False False w of (rc, seen, resent, w) \<Rightarrow>
        if rc \<noteq> BC_OK then (rc, w)
        else if seen then (BC_OK, w)
        else if resent then
          (case send_file_v2_control env channel topic BC_FILE_PKT_END (NOT crc) tid w of (rc, w) \<Rightarrow>
             if rc \<noteq> BC_OK then (rc, w)
             else end_rounds env channel topic tid crc seq cache rounds (tl inboxes) w)
        else end_rounds env channel topic tid crc seq cache rounds (tl inboxes) w)"

definition end_wait_rounds :: "nat \<Rightarrow> nat" where
  "end_wait_rounds st_size =
     (let file_mb = (st_size + (1024 * 1024 - 1)) div (1024 * 1024) in
      if file_mb > 0 \<and> file_mb * 50 > BC_FILE_END_WAIT_ROUNDS then file_mb * 50 else BC_FILE_END_WAIT_ROUNDS)"

definition send_file_path ::
  "'w file_env \<Rightarrow> byte list \<Rightarrow> byte list \<Rightarrow> byte list \<Rightarrow> file_source \<Rightarrow> file_read list list \<Rightarrow> 'w \<Rightarrow> bc_status \<times> 'w" where
  "send_file_path env channel topic path src inboxes w =
     (if cstr topic = [] \<or> cstr path = [] then (BC_ERR_INVALID, w)
      else case fs_stat src of
          None \<Rightarrow> (BC_ERR_IO, w)
        | Some st_size \<Rightarrow>
            if st_size > 2 ^ 32 - 1 then (BC_ERR_INVALID, w)
            else if \<not> fs_open src then (BC_ERR_IO, w)
            else
              let name = basename_only path; channel_len = length (cstr channel) in
              if name = [] \<or> length name > BC_FILE_NAME_MAX then (BC_ERR_INVALID, w)
              else if channel_len \<ge> BC_MAX_CHANNEL_LEN then (BC_ERR_INVALID, w)
              else if 1 + 4 + 2 * 2 + length name + channel_len > BC_MAX_PAYLOAD_LEN - FILE_HDR_SIZE
              then (BC_ERR_INVALID, w)
              else
                let tid = make_transfer_id (fs_now src) (fs_pid src) topic path (of_nat st_size) in
                (case fe_subscribe env topic w of (rc, w) \<Rightarrow>
                  if rc \<noteq> BC_OK then (rc, w)
                  else case send_file_packet env channel topic BC_FILE_PKT_START BC_FILE_PKT_FLAG_V2
                      (of_nat st_size) (start_meta name (cstr channel) tid) w of (n, w) \<Rightarrow>
                    if n \<noteq> BC_OK then (n, w)
                    else case send_chunks env channel topic (fs_chunks src) 0xffffffff 0 empty_cache w of
                      (n, crc, seq, cache, w) \<Rightarrow>
                        if n \<noteq> BC_OK then (n, w)
                        else if \<not> fs_read_ok src then (BC_ERR_IO, w)
                        else case send_file_packet env channel topic BC_FILE_PKT_END BC_FILE_PKT_FLAG_V2
                            (NOT crc) (to_le 4 tid) w of (rc, w) \<Rightarrow>
                          if rc \<noteq> BC_OK then (rc, w)
                          else end_rounds env channel topic tid crc seq cache (end_wait_rounds st_size) inboxes w))"

section \<open>The receiver\<close>

text \<open>The status and the transfer id, which the code stores before all checks are done.\<close>

definition parse_start_meta :: "byte list \<Rightarrow> byte list \<Rightarrow> bool \<Rightarrow> u32 \<Rightarrow> bc_status \<times> u32" where
  "parse_start_meta extra expect_channel expect_v2 tid0 =
     (if expect_v2 \<and> (length extra < 1 + 4 + 2 * 2 \<or> extra ! 0 \<noteq> BC_FILE_META_V2_VERSION)
      then (BC_ERR_INVALID, tid0)
      else if \<not> expect_v2 \<and> length extra < 2 * 2 then (BC_ERR_INVALID, tid0)
      else
        let tid = (if expect_v2 then of_le (fld 1 4 extra) else tid0);
            off = (if expect_v2 then 5 else 0);
            name_len = unat (of_le (fld off 2 extra) :: u16); off = off + 2 in
        if name_len = 0 \<or> name_len > BC_FILE_NAME_MAX \<or> off + name_len + 2 > length extra
        then (BC_ERR_INVALID, tid)
        else
          let off = off + name_len; channel_len = unat (of_le (fld off 2 extra) :: u16); off = off + 2 in
          if channel_len \<ge> BC_MAX_CHANNEL_LEN \<or> off + channel_len \<noteq> length extra then (BC_ERR_INVALID, tid)
          else if cstr expect_channel \<noteq> [] then
            (if channel_len \<noteq> length (cstr expect_channel) \<or> fld off channel_len extra \<noteq> cstr expect_channel
             then (BC_ERR_INVALID, tid) else (BC_OK, tid))
          else if channel_len \<noteq> 0 then (BC_ERR_INVALID, tid) else (BC_OK, tid))"

record recv_state =
  rv_file :: "byte list option"
  rv_expected_size :: u32
  rv_received :: u32
  rv_expected_seq :: u32
  rv_transfer_id :: u32
  rv_crc :: u32
  rv_end_crc :: u32
  rv_got_start :: bool
  rv_got_end :: bool
  rv_v2 :: bool

definition recv_init :: recv_state where
  "recv_init = \<lparr>rv_file = None, rv_expected_size = 0, rv_received = 0, rv_expected_seq = 0, rv_transfer_id = 0,
     rv_crc = 0xffffffff, rv_end_crc = 0, rv_got_start = False, rv_got_end = False, rv_v2 = False\<rparr>"

text \<open>What is left of the file at the end: untouched, removed, or written with its content.\<close>

datatype file_left = Untouched | Removed | Written "byte list"

datatype recv_outcome = Go recv_state | Stop bc_status file_left

text \<open>Whether the file can be created, and whether more data can be written behind some.\<close>

record file_sink =
  sk_create :: bool
  sk_write :: "byte list \<Rightarrow> byte list \<Rightarrow> bool"

definition recv_start :: "file_sink \<Rightarrow> byte list \<Rightarrow> bc_file_pkt_hdr \<Rightarrow> byte list \<Rightarrow> recv_state \<Rightarrow> recv_outcome" where
  "recv_start sink channel hdr extra s =
     (if rv_got_start s then Go s
      else
        let v2 = (fp_reserved hdr AND BC_FILE_PKT_FLAG_V2) \<noteq> 0 in
        (case parse_start_meta extra channel v2 (rv_transfer_id s) of (rc, tid) \<Rightarrow>
           let s = s\<lparr>rv_transfer_id := tid\<rparr> in
           if rc \<noteq> BC_OK then Go s
           else if \<not> sk_create sink then Stop BC_ERR_IO Untouched
           else Go (s\<lparr>rv_expected_size := fp_value hdr, rv_file := Some [], rv_got_start := True, rv_v2 := v2\<rparr>)))"

text \<open>
  The data of a packet: a version 2 packet whose data begin with the transfer id is taken to
  carry it as a prefix, although the sender never puts it there.
\<close>

definition packet_data :: "recv_state \<Rightarrow> byte list \<Rightarrow> byte list" where
  "packet_data s extra =
     (if rv_v2 s \<and> length extra > 4 \<and> of_le (fld 0 4 extra) = rv_transfer_id s then drop 4 extra else extra)"

text \<open>The end of a transfer whose size is right.\<close>

definition recv_finish ::
  "'w file_env \<Rightarrow> byte list \<Rightarrow> byte list \<Rightarrow> byte list \<Rightarrow> recv_state \<Rightarrow> 'w \<Rightarrow> recv_outcome \<times> 'w" where
  "recv_finish env channel topic file s w =
     (if rv_end_crc s \<noteq> NOT (rv_crc s) then (Stop BC_ERR_IO Removed, w)
      else if rv_v2 s
      then (Stop BC_OK (Written file), snd (send_file_v2_control env channel topic BC_FILE_PKT_DONE
        (rv_expected_seq s) (rv_transfer_id s) w))
      else (Stop BC_OK (Written file), w))"

definition send_nack ::
  "'w file_env \<Rightarrow> byte list \<Rightarrow> byte list \<Rightarrow> recv_state \<Rightarrow> 'w \<Rightarrow> 'w" where
  "send_nack env channel topic s w =
     (if rv_v2 s
      then snd (send_file_v2_control env channel topic BC_FILE_PKT_NACK (rv_expected_seq s) (rv_transfer_id s) w)
      else w)"

definition recv_data ::
  "'w file_env \<Rightarrow> file_sink \<Rightarrow> byte list \<Rightarrow> byte list \<Rightarrow> bc_file_pkt_hdr \<Rightarrow> byte list \<Rightarrow> byte list \<Rightarrow> recv_state \<Rightarrow> 'w \<Rightarrow>
     recv_outcome \<times> 'w" where
  "recv_data env sink channel topic hdr extra file s w =
     (if rv_v2 s \<and> ((fp_reserved hdr AND BC_FILE_PKT_FLAG_V2) = 0 \<or> extra = []) then (Go s, w)
      else
        let data = packet_data s extra in
        if data = [] then (Go s, w)
        else if fp_value hdr < rv_expected_seq s then (Go s, w)
        else if fp_value hdr > rv_expected_seq s then (Go s, send_nack env channel topic s w)
        else if \<not> sk_write sink file data then (Stop BC_ERR_IO Removed, w)
        else
          let s = s\<lparr>rv_file := Some (file @ data), rv_crc := bc_file_crc32_update (rv_crc s) data,
                rv_received := rv_received s + of_nat (length data), rv_expected_seq := rv_expected_seq s + 1\<rparr> in
          if rv_got_end s \<and> rv_received s = rv_expected_size s
          then recv_finish env channel topic (file @ data) s w
          else (Go s, w))"

definition recv_end ::
  "'w file_env \<Rightarrow> byte list \<Rightarrow> byte list \<Rightarrow> bc_file_pkt_hdr \<Rightarrow> byte list \<Rightarrow> byte list \<Rightarrow> recv_state \<Rightarrow> 'w \<Rightarrow> recv_outcome \<times> 'w" where
  "recv_end env channel topic hdr extra file s w =
     (if rv_got_end s then (Go s, w)
      else
        let s = s\<lparr>rv_got_end := True, rv_end_crc := fp_value hdr\<rparr> in
        if rv_v2 s \<and> ((fp_reserved hdr AND BC_FILE_PKT_FLAG_V2) = 0 \<or> length extra \<noteq> 4)
        then (Stop BC_ERR_IO Removed, w)
        else if rv_v2 s \<and> of_le extra \<noteq> rv_transfer_id s then (Stop BC_ERR_IO Removed, w)
        else if rv_received s \<noteq> rv_expected_size s then (Go s, send_nack env channel topic s w)
        else recv_finish env channel topic file s w)"

definition recv_packet ::
  "'w file_env \<Rightarrow> file_sink \<Rightarrow> byte list \<Rightarrow> byte list \<Rightarrow> byte list \<Rightarrow> recv_state \<Rightarrow> 'w \<Rightarrow> recv_outcome \<times> 'w" where
  "recv_packet env sink channel topic payload s w =
     (case parse_file_packet payload of
        Inl _ \<Rightarrow> (Go s, w)
      | Inr (hdr, extra) \<Rightarrow>
          if fp_type hdr = BC_FILE_PKT_START then (recv_start sink channel hdr extra s, w)
          else if \<not> rv_got_start s then (Go s, w)
          else (case rv_file s of
              None \<Rightarrow> (Go s, w)
            | Some file \<Rightarrow>
                if fp_type hdr = BC_FILE_PKT_DATA then recv_data env sink channel topic hdr extra file s w
                else if fp_type hdr = BC_FILE_PKT_END then recv_end env channel topic hdr extra file s w
                else (Go s, w)))"

definition recv_timeout ::
  "'w file_env \<Rightarrow> byte list \<Rightarrow> byte list \<Rightarrow> recv_state \<Rightarrow> 'w \<Rightarrow> bc_status \<times> file_left \<times> 'w" where
  "recv_timeout env channel topic s w =
     (if \<not> rv_got_start s then (BC_ERR_TIMEOUT, Untouched, w)
      else (BC_ERR_IO, Removed, send_nack env channel topic s w))"

fun recv_file_loop ::
  "'w file_env \<Rightarrow> file_sink \<Rightarrow> byte list \<Rightarrow> byte list \<Rightarrow> file_read list \<Rightarrow> recv_state \<Rightarrow> 'w \<Rightarrow> bc_status \<times> file_left \<times> 'w" where
  "recv_file_loop env sink channel topic [] s w = recv_timeout env channel topic s w"
| "recv_file_loop env sink channel topic (Inl n # reads) s w =
     (if n = BC_ERR_TIMEOUT \<or> n = BC_ERR_NOT_FOUND then recv_timeout env channel topic s w
      else (n, if rv_file s = None then Untouched else Removed, w))"
| "recv_file_loop env sink channel topic (Inr (rx_topic, payload) # reads) s w =
     (if \<not> strcmp_eq rx_topic topic then recv_file_loop env sink channel topic reads s w
      else case recv_packet env sink channel topic payload s w of
          (Go s, w) \<Rightarrow> recv_file_loop env sink channel topic reads s w
        | (Stop rc left, w) \<Rightarrow> (rc, left, w))"

definition recv_file_path ::
  "'w file_env \<Rightarrow> file_sink \<Rightarrow> byte list \<Rightarrow> byte list \<Rightarrow> byte list \<Rightarrow> file_read list \<Rightarrow> 'w \<Rightarrow> bc_status \<times> file_left \<times> 'w" where
  "recv_file_path env sink channel topic path reads w =
     (if cstr topic = [] \<or> cstr path = [] then (BC_ERR_INVALID, Untouched, w)
      else case fe_subscribe env topic w of (rc, w) \<Rightarrow>
        if rc \<noteq> BC_OK then (rc, Untouched, w)
        else recv_file_loop env sink channel topic reads recv_init w)"

section \<open>The entry points\<close>

definition bc_file_send_channel where
  "bc_file_send_channel env channel topic path src inboxes w = send_file_path env channel topic path src inboxes w"

definition bc_file_send where
  "bc_file_send env topic path src inboxes w = send_file_path env [] topic path src inboxes w"

definition bc_file_recv_channel where
  "bc_file_recv_channel env sink channel topic path reads w = recv_file_path env sink channel topic path reads w"

definition bc_file_recv where
  "bc_file_recv env sink topic path reads w = recv_file_path env sink [] topic path reads w"

end
