(* ===== verification/File_Receiver.thy ===== *)
theory File_Receiver
  imports File_Transfer
begin

text \<open>
  The receiver of a file transfer, for the packets one sender produces, in whatever order and
  number the network hands them over. A transfer has the pieces \<open>cs\<close> of the file, the transfer
  id \<open>tid\<close> and the START data; the receiver's state is determined by how many pieces it has
  taken and whether it has seen the END, which is the abstract machine the code refines.
\<close>

section \<open>The packets of a transfer\<close>

definition strip :: "u32 \<Rightarrow> byte list \<Rightarrow> byte list" where
  "strip tid c = (if length c > 4 \<and> of_le (fld 0 4 c) = tid then drop 4 c else c)"

definition pieces_ok :: "byte list list \<Rightarrow> bool" where
  "pieces_ok cs \<longleftrightarrow> list_all (\<lambda>c. c \<noteq> [] \<and> length c \<le> BC_FILE_DATA_BODY_MAX) cs \<and> length (concat cs) < 2 ^ 32"

definition file_crc :: "byte list list \<Rightarrow> u32" where
  "file_crc cs = bc_file_crc32_update 0xffffffff (concat cs)"

definition start_packet :: "byte list list \<Rightarrow> byte list \<Rightarrow> byte list" where
  "start_packet cs meta = file_packet BC_FILE_PKT_START BC_FILE_PKT_FLAG_V2 (of_nat (length (concat cs))) meta"

definition data_packet :: "byte list list \<Rightarrow> nat \<Rightarrow> byte list" where
  "data_packet cs i = file_packet BC_FILE_PKT_DATA BC_FILE_PKT_FLAG_V2 (of_nat i) (cs ! i)"

definition end_packet :: "byte list list \<Rightarrow> u32 \<Rightarrow> byte list" where
  "end_packet cs tid = file_packet BC_FILE_PKT_END BC_FILE_PKT_FLAG_V2 (NOT (file_crc cs)) (to_le 4 tid)"

definition nack_packet :: "u32 \<Rightarrow> nat \<Rightarrow> byte list" where
  "nack_packet tid i = file_packet BC_FILE_PKT_NACK BC_FILE_PKT_FLAG_V2 (of_nat i) (to_le 4 tid)"

definition done_packet :: "byte list list \<Rightarrow> u32 \<Rightarrow> byte list" where
  "done_packet cs tid = file_packet BC_FILE_PKT_DONE BC_FILE_PKT_FLAG_V2 (of_nat (length cs)) (to_le 4 tid)"

text \<open>What arrives on the topic, and the abstract receiver: waiting, or at a piece, before or after END.\<close>

datatype arrival = Start | Piece nat | End | Junk "byte list"

fun arrival_packet :: "byte list list \<Rightarrow> byte list \<Rightarrow> u32 \<Rightarrow> arrival \<Rightarrow> byte list" where
  "arrival_packet cs meta tid Start = start_packet cs meta"
| "arrival_packet cs meta tid (Piece i) = data_packet cs i"
| "arrival_packet cs meta tid End = end_packet cs tid"
| "arrival_packet cs meta tid (Junk p) = p"

fun arrival_ok :: "byte list list \<Rightarrow> arrival \<Rightarrow> bool" where
  "arrival_ok cs (Piece i) \<longleftrightarrow> i < length cs"
| "arrival_ok cs (Junk p) \<longleftrightarrow> (case parse_file_packet p of Inl _ \<Rightarrow> True
     | Inr (hdr, _) \<Rightarrow> fp_type hdr \<notin> {BC_FILE_PKT_START, BC_FILE_PKT_DATA, BC_FILE_PKT_END})"
| "arrival_ok cs _ \<longleftrightarrow> True"

datatype progress = Waiting | At nat bool | Complete

datatype reply = Silent | Nack nat | Acknowledge

fun spec_step :: "nat \<Rightarrow> bool \<Rightarrow> arrival \<Rightarrow> progress \<Rightarrow> progress \<times> reply" where
  "spec_step n whole Start Waiting = (At 0 False, Silent)"
| "spec_step n whole (Piece i) (At k ended) =
     (if i < k then (At k ended, Silent)
      else if i > k then (At k ended, Nack k)
      else if ended \<and> whole \<and> Suc k = n then (Complete, Acknowledge)
      else (At (Suc k) ended, Silent))"
| "spec_step n whole End (At k False) =
     (if whole \<and> k = n then (Complete, Acknowledge) else (At k True, Nack k))"
| "spec_step n whole a p = (p, Silent)"

section \<open>The state of the receiver\<close>

definition rv_at :: "byte list list \<Rightarrow> u32 \<Rightarrow> nat \<Rightarrow> bool \<Rightarrow> recv_state" where
  "rv_at cs tid k ended =
     (let content = concat (take k (map (strip tid) cs)) in
      \<lparr>rv_file = Some content, rv_expected_size = of_nat (length (concat cs)),
       rv_received = of_nat (length content), rv_expected_seq = of_nat k, rv_transfer_id = tid,
       rv_crc = bc_file_crc32_update 0xffffffff content,
       rv_end_crc = (if ended then NOT (file_crc cs) else 0),
       rv_got_start = True, rv_got_end = ended, rv_v2 = True\<rparr>)"

text \<open>The transfer's pieces are intact: none begins with the transfer id.\<close>

definition intact :: "u32 \<Rightarrow> byte list list \<Rightarrow> bool" where
  "intact tid cs \<longleftrightarrow> map (strip tid) cs = cs"

lemma length_strip: "length (strip tid c) \<le> length c"
  by (simp add: strip_def)

lemma strip_eq: "length (strip tid c) = length c \<Longrightarrow> strip tid c = c"
  by (auto simp: strip_def split: if_splits)

lemma strip_nonempty: "c \<noteq> [] \<Longrightarrow> strip tid c \<noteq> []"
  by (auto simp: strip_def)

lemma length_concat_take: "k \<le> length xs \<Longrightarrow> length (concat (take k xs)) \<le> length (concat xs)"
  by (metis append_take_drop_id concat_append le_add1 length_append)

lemma length_concat_strip: "length (concat (map (strip tid) cs)) \<le> length (concat cs)"
  by (induction cs) (simp_all add: add_mono length_strip)

lemma concat_strip_eq:
  "length (concat (map (strip tid) cs)) = length (concat cs) \<Longrightarrow> map (strip tid) cs = cs"
proof (induction cs)
  case (Cons c cs)
  have "length (strip tid c) \<le> length c" "length (concat (map (strip tid) cs)) \<le> length (concat cs)"
    by (rule length_strip, rule length_concat_strip)
  with Cons.prems have "length (strip tid c) = length c" "length (concat (map (strip tid) cs)) = length (concat cs)"
    by simp_all
  with Cons.IH strip_eq show ?case by simp
qed simp

lemma concat_take_less:
  assumes "list_all (\<lambda>c. c \<noteq> []) xs" "k < length xs"
  shows "length (concat (take k xs)) < length (concat xs)"
proof -
  have "xs = take k xs @ xs ! k # drop (Suc k) xs" using assms(2) by (simp add: id_take_nth_drop)
  then have "length (concat xs) = length (concat (take k xs)) + length (xs ! k) + length (concat (drop (Suc k) xs))"
    by (metis add.assoc concat.simps(2) concat_append length_append)
  moreover have "xs ! k \<noteq> []" using assms by (simp add: list_all_length)
  ultimately show ?thesis by simp
qed

lemma of_nat_u32_eq: "a < 2 ^ 32 \<Longrightarrow> b < 2 ^ 32 \<Longrightarrow> (of_nat a = (of_nat b :: u32)) = (a = b)"
  by (simp add: word_unat_eq_iff unat_of_nat_word)

text \<open>The receiver has as many bytes as announced exactly when it has all pieces, intact.\<close>

lemma received_all:
  assumes "pieces_ok cs" "k \<le> length cs"
  shows "(of_nat (length (concat (take k (map (strip tid) cs)))) = (of_nat (length (concat cs)) :: u32)) =
    (intact tid cs \<and> k = length cs)"
proof -
  let ?ds = "map (strip tid) cs"
  have ne: "list_all (\<lambda>c. c \<noteq> []) ?ds" using assms(1)
    by (auto simp: pieces_ok_def list_all_iff strip_nonempty)
  have l: "length (concat (take k ?ds)) \<le> length (concat ?ds)"
    by (rule length_concat_take) (simp add: assms(2))
  have l2: "length (concat ?ds) \<le> length (concat cs)" by (rule length_concat_strip)
  have lt: "length (concat cs) < 2 ^ 32" using assms(1) by (simp add: pieces_ok_def)
  have "(of_nat (length (concat (take k ?ds))) = (of_nat (length (concat cs)) :: u32)) =
      (length (concat (take k ?ds)) = length (concat cs))"
    by (rule of_nat_u32_eq [OF order.strict_trans1 [OF order.trans [OF l l2] lt] lt])
  also have "\<dots> = (intact tid cs \<and> k = length cs)"
  proof
    assume e: "length (concat (take k ?ds)) = length (concat cs)"
    then have "length (concat ?ds) = length (concat cs)" using l l2 by linarith
    then have "intact tid cs" unfolding intact_def by (rule concat_strip_eq)
    moreover have "k = length cs"
    proof (rule ccontr)
      assume "k \<noteq> length cs"
      then have "k < length ?ds" using assms(2) by simp
      from concat_take_less [OF ne this] show False using e l2 by linarith
    qed
    ultimately show "intact tid cs \<and> k = length cs" by simp
  next
    assume "intact tid cs \<and> k = length cs"
    then show "length (concat (take k ?ds)) = length (concat cs)" by (simp add: intact_def)
  qed
  finally show ?thesis .
qed

lemma parse_packet [simp]:
  "parse_file_packet (file_packet type res value extra) =
     Inr (\<lparr>fp_magic = BC_FILE_PKT_MAGIC, fp_type = type, fp_reserved = res, fp_value = value\<rparr>, extra)"
  unfolding parse_file_packet_def file_packet_def
  by (simp add: file_hdr.dec_enc file_hdr.enc_len Let_def)

lemma length_file_packet: "length (file_packet type res value extra) = FILE_HDR_SIZE + length extra"
  by (simp add: file_packet_def file_hdr.enc_len)


section \<open>An environment that keeps what is written\<close>

definition log_file_env :: "byte list list file_env" where
  "log_file_env = \<lparr>fe_write = (\<lambda>channel topic payload qos w. (BC_OK, w @ [payload])),
     fe_subscribe = (\<lambda>topic w. (BC_OK, w))\<rparr>"

lemma send_log:
  assumes "length extra \<le> BC_FILE_DATA_BODY_MAX"
  shows "send_file_packet log_file_env channel topic type res value extra w =
    (BC_OK, w @ [file_packet type res value extra])"
proof -
  have "send_spin n act w = (BC_OK, w')" "send_attempts n act w = (BC_OK, w')"
    if "n > 0" "act w = (BC_OK, w')" for n act and w w' :: "byte list list"
    using that by (cases n; simp)+
  then show ?thesis using assms
    by (simp add: send_file_packet_def log_file_env_def BC_FILE_DATA_BODY_MAX_def FILE_HDR_SIZE_def
        BC_FILE_DATA_RETRY_SPIN_def BC_FILE_SEND_RETRY_MAX_def Let_def)
qed

lemma control_log:
  "send_file_v2_control log_file_env channel topic type value tid w =
     (BC_OK, w @ [file_packet type BC_FILE_PKT_FLAG_V2 value (to_le 4 tid)])"
  unfolding send_file_v2_control_def
  by (rule send_log) (simp add: BC_FILE_DATA_BODY_MAX_def bc_limits del: to_le_numeral)

section \<open>The refinement\<close>

fun reply_packets :: "byte list list \<Rightarrow> u32 \<Rightarrow> reply \<Rightarrow> byte list list" where
  "reply_packets cs tid Silent = []"
| "reply_packets cs tid (Nack k) = [nack_packet tid k]"
| "reply_packets cs tid Acknowledge = [done_packet cs tid]"

fun recv_rep :: "byte list list \<Rightarrow> u32 \<Rightarrow> recv_state \<Rightarrow> progress \<Rightarrow> bool" where
  "recv_rep cs tid s Waiting \<longleftrightarrow> s = recv_init"
| "recv_rep cs tid s (At k ended) \<longleftrightarrow> s = rv_at cs tid k ended \<and> k \<le> length cs"
| "recv_rep cs tid s Complete \<longleftrightarrow> False"

definition free_sink :: file_sink where
  "free_sink = \<lparr>sk_create = True, sk_write = (\<lambda>_ _. True)\<rparr>"

lemma length_pieces: "pieces_ok cs \<Longrightarrow> length cs < 2 ^ 32"
proof -
  assume p: "pieces_ok cs"
  have "length cs \<le> length (concat cs)" if "list_all (\<lambda>c. c \<noteq> []) cs" for cs :: "byte list list"
    using that by (induction cs) (auto simp: neq_Nil_conv)
  moreover have "list_all (\<lambda>c. c \<noteq> []) cs" using p by (auto simp: pieces_ok_def list_all_iff)
  ultimately show ?thesis using p by (fastforce simp: pieces_ok_def)
qed

lemma of_nat_u32_less: "a < 2 ^ 32 \<Longrightarrow> b < 2 ^ 32 \<Longrightarrow> ((of_nat a :: u32) < of_nat b) = (a < b)"
  by (simp add: word_less_nat_alt unat_of_nat_word)

lemma flag_v2: "BC_FILE_PKT_FLAG_V2 AND BC_FILE_PKT_FLAG_V2 \<noteq> 0"
  by (simp add: BC_FILE_PKT_FLAG_V2_def)

lemma nack_log: "send_nack log_file_env channel topic (rv_at cs tid k ended) w = w @ [nack_packet tid k]"
  by (simp add: send_nack_def rv_at_def control_log nack_packet_def Let_def)

lemma packet_data_at: "packet_data (rv_at cs tid k ended) c = strip tid c"
  by (simp add: packet_data_def rv_at_def strip_def Let_def)

lemma rv_at_simps [simp]:
  "rv_expected_seq (rv_at cs tid k ended) = of_nat k" "rv_v2 (rv_at cs tid k ended)"
  "rv_got_start (rv_at cs tid k ended)" "rv_got_end (rv_at cs tid k ended) = ended"
  "rv_file (rv_at cs tid k ended) = Some (concat (take k (map (strip tid) cs)))"
  "rv_received (rv_at cs tid k ended) = of_nat (length (concat (take k (map (strip tid) cs))))"
  "rv_expected_size (rv_at cs tid k ended) = of_nat (length (concat cs))"
  "rv_transfer_id (rv_at cs tid k ended) = tid"
  "rv_crc (rv_at cs tid k ended) = bc_file_crc32_update 0xffffffff (concat (take k (map (strip tid) cs)))"
  "rv_end_crc (rv_at cs tid k True) = NOT (file_crc cs)"
  by (simp_all add: rv_at_def Let_def)

lemma rv_at_take:
  assumes "i < length cs"
  shows "rv_at cs tid i e\<lparr>rv_file := Some (concat (take i (map (strip tid) cs)) @ strip tid (cs ! i)),
      rv_crc := bc_file_crc32_update (bc_file_crc32_update 0xffffffff (concat (take i (map (strip tid) cs)))) (strip tid (cs ! i)),
      rv_received := of_nat (length (concat (take i (map (strip tid) cs)))) + of_nat (length (strip tid (cs ! i))),
      rv_expected_seq := of_nat i + 1\<rparr> = rv_at cs tid (Suc i) e"
proof -
  have "take (Suc i) (map (strip tid) cs) = take i (map (strip tid) cs) @ [strip tid (cs ! i)]"
    using assms by (simp add: take_Suc_conv_app_nth)
  then show ?thesis
    by (simp add: rv_at_def Let_def crc_update_append add.commute del: length_concat)
qed

lemma rv_at_end: "rv_at cs tid k False\<lparr>rv_got_end := True, rv_end_crc := NOT (file_crc cs)\<rparr> = rv_at cs tid k True"
  by (simp add: rv_at_def Let_def)

lemma finish_at:
  assumes "intact tid cs"
  shows "recv_finish log_file_env channel topic file (rv_at cs tid (length cs) True) w =
    (Stop BC_OK (Written file), w @ [done_packet cs tid])"
  using assms by (simp add: recv_finish_def control_log done_packet_def file_crc_def intact_def)


lemma pkt_types_distinct [simp]:
  "BC_FILE_PKT_DATA \<noteq> BC_FILE_PKT_START" "BC_FILE_PKT_END \<noteq> BC_FILE_PKT_START" "BC_FILE_PKT_END \<noteq> BC_FILE_PKT_DATA"
  "BC_FILE_PKT_NACK \<noteq> BC_FILE_PKT_START" "BC_FILE_PKT_NACK \<noteq> BC_FILE_PKT_DATA" "BC_FILE_PKT_NACK \<noteq> BC_FILE_PKT_END"
  "BC_FILE_PKT_NACK \<noteq> BC_FILE_PKT_DONE" "BC_FILE_PKT_DONE \<noteq> BC_FILE_PKT_NACK"
  by (simp_all add: pkt_types)

text \<open>What one packet of the transfer does to the receiver, as outcome and replies.\<close>

definition recv_result :: "byte list list \<Rightarrow> u32 \<Rightarrow> progress \<Rightarrow> reply \<Rightarrow> byte list list \<Rightarrow> recv_outcome \<times> byte list list" where
  "recv_result cs tid p r w = (case p of
     Waiting \<Rightarrow> Go recv_init | At k ended \<Rightarrow> Go (rv_at cs tid k ended) | Complete \<Rightarrow> Stop BC_OK (Written (concat cs)),
     w @ reply_packets cs tid r)"

lemma recv_data_at:
  assumes p: "pieces_ok cs" and k: "k \<le> length cs" and i: "i < length cs"
  shows "recv_data log_file_env free_sink channel topic
      \<lparr>fp_magic = BC_FILE_PKT_MAGIC, fp_type = BC_FILE_PKT_DATA, fp_reserved = BC_FILE_PKT_FLAG_V2, fp_value = of_nat i\<rparr>
      (cs ! i) (concat (take k (map (strip tid) cs))) (rv_at cs tid k ended) w =
    (case spec_step (length cs) (intact tid cs) (Piece i) (At k ended) of (p, r) \<Rightarrow> recv_result cs tid p r w)"
proof -
  note len = length_pieces [OF p]
  have ne: "cs ! i \<noteq> []" using p i by (auto simp: pieces_ok_def list_all_length)
  have lt: "((of_nat i :: u32) < of_nat k) = (i < k)" "((of_nat k :: u32) < of_nat i) = (k < i)"
    using len k i by (simp_all add: of_nat_u32_less)
  show ?thesis
  proof (cases "i = k")
    case False
    then show ?thesis using ne lt flag_v2 strip_nonempty [OF ne]
      by (simp add: recv_data_def packet_data_at nack_log recv_result_def)
  next
    case True
    have kl: "k < length cs" using True i by simp
    have all: "(rv_received (rv_at cs tid (Suc k) ended) = rv_expected_size (rv_at cs tid (Suc k) ended)) =
        (intact tid cs \<and> Suc k = length cs)"
      using received_all [OF p, of "Suc k" tid] i True by (simp del: length_concat)
    have content: "concat (take k (map (strip tid) cs)) @ strip tid (cs ! k) = concat (take (Suc k) (map (strip tid) cs))"
      using i True by (simp add: take_Suc_conv_app_nth)
    have "recv_data log_file_env free_sink channel topic
        \<lparr>fp_magic = BC_FILE_PKT_MAGIC, fp_type = BC_FILE_PKT_DATA, fp_reserved = BC_FILE_PKT_FLAG_V2, fp_value = of_nat i\<rparr>
        (cs ! i) (concat (take k (map (strip tid) cs))) (rv_at cs tid k ended) w =
      (if ended \<and> intact tid cs \<and> Suc k = length cs
       then recv_finish log_file_env channel topic (concat (take (Suc k) (map (strip tid) cs))) (rv_at cs tid (Suc k) ended) w
       else (Go (rv_at cs tid (Suc k) ended), w))"
      using True ne flag_v2 strip_nonempty [OF ne] all
      unfolding recv_data_def packet_data_at Let_def content [symmetric]
      by (simp add: free_sink_def rv_at_take [OF kl] del: length_concat)
    then show ?thesis
      using True finish_at [of tid cs] by (auto simp: recv_result_def intact_def)
  qed
qed


lemma recv_end_at:
  assumes p: "pieces_ok cs" and k: "k \<le> length cs"
  shows "recv_end log_file_env channel topic
      \<lparr>fp_magic = BC_FILE_PKT_MAGIC, fp_type = BC_FILE_PKT_END, fp_reserved = BC_FILE_PKT_FLAG_V2,
       fp_value = NOT (file_crc cs)\<rparr>
      (to_le 4 tid) (concat (take k (map (strip tid) cs))) (rv_at cs tid k ended) w =
    (case spec_step (length cs) (intact tid cs) End (At k ended) of (p, r) \<Rightarrow> recv_result cs tid p r w)"
proof (cases ended)
  case True
  then show ?thesis by (simp add: recv_end_def recv_result_def)
next
  case False
  have all: "(rv_received (rv_at cs tid k True) = rv_expected_size (rv_at cs tid k True)) =
      (intact tid cs \<and> k = length cs)"
    using received_all [OF p k, of tid] by (simp del: length_concat)
  have "recv_end log_file_env channel topic
      \<lparr>fp_magic = BC_FILE_PKT_MAGIC, fp_type = BC_FILE_PKT_END, fp_reserved = BC_FILE_PKT_FLAG_V2,
       fp_value = NOT (file_crc cs)\<rparr>
      (to_le 4 tid) (concat (take k (map (strip tid) cs))) (rv_at cs tid k False) w =
    (if intact tid cs \<and> k = length cs
     then recv_finish log_file_env channel topic (concat (take k (map (strip tid) cs))) (rv_at cs tid k True) w
     else (Go (rv_at cs tid k True), w @ [nack_packet tid k]))"
    using all flag_v2
    by (simp add: recv_end_def rv_at_end nack_log le32.dec_enc del: length_concat to_le_numeral)
  then show ?thesis using False finish_at [of tid cs] by (auto simp: recv_result_def intact_def)
qed

lemma recv_start_init:
  assumes "\<And>t. parse_start_meta meta channel True t = (BC_OK, tid)"
  shows "recv_start free_sink channel
      \<lparr>fp_magic = BC_FILE_PKT_MAGIC, fp_type = BC_FILE_PKT_START, fp_reserved = BC_FILE_PKT_FLAG_V2,
       fp_value = of_nat (length (concat cs))\<rparr> meta recv_init = Go (rv_at cs tid 0 False)"
  using assms flag_v2 by (simp add: recv_start_def recv_init_def free_sink_def rv_at_def)

lemma recv_refines:
  assumes p: "pieces_ok cs" and m: "\<And>t. parse_start_meta meta channel True t = (BC_OK, tid)"
    and a: "arrival_ok cs a" and r: "recv_rep cs tid s q"
  shows "recv_packet log_file_env free_sink channel topic (arrival_packet cs meta tid a) s w =
    (case spec_step (length cs) (intact tid cs) a q of (q', r) \<Rightarrow> recv_result cs tid q' r w)"
proof (cases q)
  case Waiting
  then have s: "s = recv_init" using r by simp
  then have "\<not> rv_got_start s" by (simp add: recv_init_def)
  then show ?thesis
    using s m a recv_start_init [OF m, where cs = cs] Waiting
    by (cases a) (auto simp: recv_packet_def start_packet_def data_packet_def end_packet_def recv_result_def
        split: sum.splits)
next
  case (At k ended)
  then have s: "s = rv_at cs tid k ended" "k \<le> length cs" using r by simp_all
  show ?thesis
  proof (cases a)
    case Start
    then show ?thesis using s(1) At
      by (simp add: recv_packet_def start_packet_def recv_start_def recv_result_def)
  next
    case (Piece i)
    then have "i < length cs" using a by simp
    from recv_data_at [OF p s(2) this] show ?thesis
      using Piece At s(1) by (simp add: recv_packet_def data_packet_def)
  next
    case End
    from recv_end_at [OF p s(2)] show ?thesis
      using End At s(1) by (simp add: recv_packet_def end_packet_def del: to_le_numeral)
  next
    case (Junk x)
    then show ?thesis using a s(1) At
      by (auto simp: recv_packet_def recv_result_def split: sum.splits)
  qed
next
  case Complete
  then show ?thesis using r by simp
qed

section \<open>Runs\<close>

fun spec_run :: "nat \<Rightarrow> bool \<Rightarrow> arrival list \<Rightarrow> progress \<Rightarrow> progress \<times> reply list" where
  "spec_run n whole [] q = (q, case q of At k _ \<Rightarrow> [Nack k] | _ \<Rightarrow> [])"
| "spec_run n whole (a # as) q =
     (case spec_step n whole a q of (q', r) \<Rightarrow>
        if q' = Complete then (q', [r])
        else (case spec_run n whole as q' of (q'', rs) \<Rightarrow> (q'', r # rs)))"

definition outcome :: "byte list list \<Rightarrow> progress \<Rightarrow> bc_status \<times> file_left" where
  "outcome cs q = (case q of Waiting \<Rightarrow> (BC_ERR_TIMEOUT, Untouched) | At _ _ \<Rightarrow> (BC_ERR_IO, Removed)
     | Complete \<Rightarrow> (BC_OK, Written (concat cs)))"

definition on_topic :: "byte list \<Rightarrow> byte list list \<Rightarrow> file_read list" where
  "on_topic topic ps = map (\<lambda>p. Inr (topic, p)) ps"

text \<open>The abstract receiver never counts past the last piece.\<close>

fun in_range :: "nat \<Rightarrow> progress \<Rightarrow> bool" where
  "in_range n (At k ended) \<longleftrightarrow> k \<le> n"
| "in_range n q \<longleftrightarrow> True"

lemma spec_step_range:
  assumes "in_range (length cs) q" "arrival_ok cs a" "spec_step (length cs) whole a q = (q', r)"
  shows "in_range (length cs) q'"
proof (cases q)
  case (At k ended)
  then show ?thesis using assms by (cases a; cases ended) (auto split: if_splits)
next
  case Waiting
  then show ?thesis using assms by (cases a) auto
next
  case Complete
  then show ?thesis using assms by (cases a) auto
qed

definition state_of :: "byte list list \<Rightarrow> u32 \<Rightarrow> progress \<Rightarrow> recv_state" where
  "state_of cs tid q = (case q of At k ended \<Rightarrow> rv_at cs tid k ended | _ \<Rightarrow> recv_init)"

lemma state_of_rep: "in_range (length cs) q \<Longrightarrow> q \<noteq> Complete \<Longrightarrow> recv_rep cs tid (state_of cs tid q) q"
  by (cases q) (simp_all add: state_of_def)

lemma result_go:
  "q \<noteq> Complete \<Longrightarrow> recv_result cs tid q r w = (Go (state_of cs tid q), w @ reply_packets cs tid r)"
  "recv_result cs tid Complete r w = (Stop BC_OK (Written (concat cs)), w @ reply_packets cs tid r)"
  by (cases q) (simp_all add: recv_result_def state_of_def)

lemma timeout_at:
  "q \<noteq> Complete \<Longrightarrow> recv_timeout log_file_env channel topic (state_of cs tid q) w =
     (fst (outcome cs q), snd (outcome cs q),
      w @ concat (map (reply_packets cs tid) (case q of At k _ \<Rightarrow> [Nack k] | _ \<Rightarrow> [])))"
  by (cases q) (simp_all add: recv_timeout_def state_of_def outcome_def nack_log, simp add: recv_init_def)

text \<open>The receiver's loop refines the run of the abstract machine.\<close>

lemma recv_loop_run:
  assumes p: "pieces_ok cs" and m: "\<And>t. parse_start_meta meta channel True t = (BC_OK, tid)"
  shows "list_all (arrival_ok cs) as \<Longrightarrow> in_range (length cs) q \<Longrightarrow> q \<noteq> Complete \<Longrightarrow>
     spec_run (length cs) (intact tid cs) as q = (q', rs) \<Longrightarrow>
     recv_file_loop log_file_env free_sink channel topic
       (on_topic topic (map (arrival_packet cs meta tid) as)) (state_of cs tid q) w =
     (fst (outcome cs q'), snd (outcome cs q'), w @ concat (map (reply_packets cs tid) rs))"
proof (induction as arbitrary: q rs w)
  case Nil
  then show ?case using timeout_at [OF Nil.prems(3), where cs = cs] by (auto simp: on_topic_def)
next
  case (Cons a as)
  obtain q1 r where st: "spec_step (length cs) (intact tid cs) a q = (q1, r)" by force
  have a: "arrival_ok cs a" "list_all (arrival_ok cs) as" using Cons.prems(1) by simp_all
  have step: "recv_packet log_file_env free_sink channel topic (arrival_packet cs meta tid a) (state_of cs tid q) w =
      recv_result cs tid q1 r w"
    using recv_refines [OF p m a(1) state_of_rep [OF Cons.prems(2,3)]] st by simp
  show ?case
  proof (cases "q1 = Complete")
    case True
    then show ?thesis using Cons.prems(4) st step
      by (auto simp: on_topic_def strcmp_eq_def result_go(2) outcome_def)
  next
    case False
    obtain q2 rs2 where r: "spec_run (length cs) (intact tid cs) as q1 = (q2, rs2)" by force
    have eq: "q' = q2" "rs = r # rs2" using Cons.prems(4) st r False by simp_all
    have "in_range (length cs) q1" by (rule spec_step_range [OF Cons.prems(2) a(1) st])
    from Cons.IH [OF a(2) this False r [folded eq(1)]] show ?thesis
      using step by (simp add: on_topic_def strcmp_eq_def result_go(1) [OF False] eq(2))
  qed
qed

lemma recv_path_run:
  assumes "pieces_ok cs" "\<And>t. parse_start_meta meta channel True t = (BC_OK, tid)"
    and "list_all (arrival_ok cs) as" "cstr topic \<noteq> []" "cstr path \<noteq> []"
    and "spec_run (length cs) (intact tid cs) as Waiting = (q, rs)"
  shows "recv_file_path log_file_env free_sink channel topic path
      (on_topic topic (map (arrival_packet cs meta tid) as)) [] =
    (fst (outcome cs q), snd (outcome cs q), concat (map (reply_packets cs tid) rs))"
  using recv_loop_run [OF assms(1,2,3), of Waiting q rs topic "[]"] assms(4-6)
  by (simp add: recv_file_path_def log_file_env_def [THEN arg_cong, of fe_subscribe] state_of_def)

text \<open>
  C11. The receiver refines a counter of pieces. For every sequence of packets of a transfer,
  lost, repeated or reordered, with other packets among them: its result, what is left of the
  file and the packets it sends are those of the abstract machine, which takes the next piece
  only, asks for it when a later one arrives, and is complete with the last piece after END.
\<close>
theorem receiver_refines_counter:
  assumes "pieces_ok cs" "list_all (arrival_ok cs) as" "cstr topic \<noteq> []" "cstr path \<noteq> []"
    and "\<forall>t. parse_start_meta meta channel True t = (BC_OK, tid)"
    and "spec_run (length cs) (intact tid cs) as Waiting = (q, rs)"
  shows "recv_file_path log_file_env free_sink channel topic path
      (on_topic topic (map (arrival_packet cs meta tid) as)) [] =
    (fst (outcome cs q), snd (outcome cs q), concat (map (reply_packets cs tid) rs))"
  by (rule recv_path_run [OF assms(1) _ assms(2-4,6)]) (use assms(5) in blast)


lemma receiver_refines_counter_witness:
  "recv_file_path log_file_env free_sink [] (str ''t'') (str ''g'')
      (on_topic (str ''t'') (map (arrival_packet [[1, 2], [3]] [2, 9, 0, 0, 0, 1, 0, 102, 0, 0] 9)
        [Start, Piece 1, Piece 0, End, Piece 1])) [] =
    (BC_OK, Written [1, 2, 3], [nack_packet 9 0, nack_packet 9 1, done_packet [[1, 2], [3]] 9])"
proof -
  have p: "pieces_ok [[1, 2], [3]]" by (simp add: pieces_ok_def BC_FILE_DATA_BODY_MAX_def bc_limits)
  have n: "cstr (str ''t'') \<noteq> []" "cstr (str ''g'') \<noteq> []" by code_simp+
  have m: "\<forall>t. parse_start_meta [2, 9, 0, 0, 0, 1, 0, 102, 0, 0] [] True t = (BC_OK, 9)"
    by (simp add: parse_start_meta_def BC_FILE_META_V2_VERSION_def BC_FILE_NAME_MAX_def bc_limits fld_def)
  have r: "spec_run (length [[1, 2], [3 :: byte]]) (intact 9 [[1, 2], [3]]) [Start, Piece 1, Piece 0, End, Piece 1] Waiting =
      (Complete, [Silent, Nack 0, Silent, Nack 1, Acknowledge])"
    by (simp add: intact_def strip_def)
  show ?thesis using receiver_refines_counter [OF p _ n m r] by (simp add: outcome_def)
qed

end
