(* ===== verification/File_Session.thy ===== *)
theory File_Session
  imports File_Receiver
begin

text \<open>
  Whole file transfers: the packets the sender emits, what a receiver makes of them when the
  network is reliable and when it is not, and the two kinds of files and losses for which a
  transfer cannot succeed.
\<close>

section \<open>The sender\<close>

lemma send_chunks_log:
  assumes "list_all (\<lambda>c. length c \<le> BC_FILE_DATA_BODY_MAX) cs"
  shows "\<exists>cache'. send_chunks log_file_env channel topic cs crc seq cache w =
    (BC_OK, bc_file_crc32_update crc (concat cs), seq + of_nat (length cs), cache',
     w @ map (\<lambda>i. file_packet BC_FILE_PKT_DATA BC_FILE_PKT_FLAG_V2 (seq + of_nat i) (cs ! i)) [0..<length cs])"
  using assms
proof (induction cs arbitrary: crc seq cache w)
  case Nil
  then show ?case by simp
next
  case (Cons c cs)
  have step: "send_file_packet log_file_env channel topic BC_FILE_PKT_DATA BC_FILE_PKT_FLAG_V2 seq c w =
      (BC_OK, w @ [file_packet BC_FILE_PKT_DATA BC_FILE_PKT_FLAG_V2 seq c])"
    by (rule send_log) (use Cons.prems in simp)
  have split: "map (\<lambda>i. file_packet BC_FILE_PKT_DATA BC_FILE_PKT_FLAG_V2 (seq + of_nat i) ((c # cs) ! i)) [0..<length (c # cs)] =
      file_packet BC_FILE_PKT_DATA BC_FILE_PKT_FLAG_V2 seq c #
      map (\<lambda>i. file_packet BC_FILE_PKT_DATA BC_FILE_PKT_FLAG_V2 (seq + 1 + of_nat i) (cs ! i)) [0..<length cs]"
    by (simp add: upt_conv_Cons map_Suc_upt [symmetric] add.assoc del: upt_Suc)
  obtain cache' where "send_chunks log_file_env channel topic cs (bc_file_crc32_update crc c) (seq + 1)
      (store_cache_slot cache seq c) (w @ [file_packet BC_FILE_PKT_DATA BC_FILE_PKT_FLAG_V2 seq c]) =
    (BC_OK, bc_file_crc32_update (bc_file_crc32_update crc c) (concat cs), seq + 1 + of_nat (length cs), cache',
     (w @ [file_packet BC_FILE_PKT_DATA BC_FILE_PKT_FLAG_V2 seq c]) @
     map (\<lambda>i. file_packet BC_FILE_PKT_DATA BC_FILE_PKT_FLAG_V2 (seq + 1 + of_nat i) (cs ! i)) [0..<length cs])"
    using Cons.IH Cons.prems by fastforce
  then show ?case unfolding split
    by (intro exI [of _ cache']) (simp add: step Let_def crc_update_append add.assoc)
qed

text \<open>A source that can be read to its end, in pieces that fit, under names that fit.\<close>

definition readable :: "file_source \<Rightarrow> byte list \<Rightarrow> byte list \<Rightarrow> byte list \<Rightarrow> bool" where
  "readable src channel topic path \<longleftrightarrow>
     fs_stat src = Some (length (concat (fs_chunks src))) \<and> fs_open src \<and> fs_read_ok src \<and> pieces_ok (fs_chunks src) \<and>
     cstr topic \<noteq> [] \<and> cstr path \<noteq> [] \<and> basename_only path \<noteq> [] \<and>
     length (basename_only path) \<le> BC_FILE_NAME_MAX \<and> length (cstr channel) < BC_MAX_CHANNEL_LEN"

definition source_id :: "file_source \<Rightarrow> byte list \<Rightarrow> byte list \<Rightarrow> u32" where
  "source_id src topic path =
     make_transfer_id (fs_now src) (fs_pid src) topic path (of_nat (length (concat (fs_chunks src))))"

definition first_pass :: "nat \<Rightarrow> arrival list" where
  "first_pass n = Start # map Piece [0..<n] @ [End]"

definition source_meta :: "file_source \<Rightarrow> byte list \<Rightarrow> byte list \<Rightarrow> byte list \<Rightarrow> byte list" where
  "source_meta src channel topic path = start_meta (basename_only path) (cstr channel) (source_id src topic path)"

definition source_packets :: "file_source \<Rightarrow> byte list \<Rightarrow> byte list \<Rightarrow> byte list \<Rightarrow> byte list list" where
  "source_packets src channel topic path =
     map (arrival_packet (fs_chunks src) (source_meta src channel topic path) (source_id src topic path))
       (first_pass (length (fs_chunks src)))"

lemma length_start_meta: "length (start_meta name channel tid) = 9 + length name + length channel"
  by (simp add: start_meta_def del: to_le_numeral)

lemma send_file_first_pass:
  assumes "readable src channel topic path"
  shows "\<exists>cache. send_file_path log_file_env channel topic path src inboxes [] =
    end_rounds log_file_env channel topic (source_id src topic path)
      (file_crc (fs_chunks src)) (of_nat (length (fs_chunks src))) cache
      (end_wait_rounds (length (concat (fs_chunks src)))) inboxes (source_packets src channel topic path)"
proof -
  let ?cs = "fs_chunks src" and ?tid = "source_id src topic path"
  note r = assms [unfolded readable_def]
  have cs: "list_all (\<lambda>c. length c \<le> BC_FILE_DATA_BODY_MAX) ?cs" "length (concat ?cs) < 2 ^ 32"
    using r by (auto simp: pieces_ok_def list_all_iff)
  have small: "length (basename_only path) \<le> 255" "length (cstr channel) < 32"
    using r by (simp_all add: BC_FILE_NAME_MAX_def bc_limits)
  then have meta: "length (start_meta (basename_only path) (cstr channel) ?tid) \<le> BC_FILE_DATA_BODY_MAX"
    by (simp add: length_start_meta BC_FILE_DATA_BODY_MAX_def bc_limits)
  obtain cache where c: "send_chunks log_file_env channel topic ?cs 0xffffffff 0 empty_cache
      [start_packet ?cs (start_meta (basename_only path) (cstr channel) ?tid)] =
    (BC_OK, file_crc ?cs, of_nat (length ?cs), cache,
     [start_packet ?cs (start_meta (basename_only path) (cstr channel) ?tid)] @ map (data_packet ?cs) [0..<length ?cs])"
    using send_chunks_log [OF cs(1), of channel topic "0xffffffff" 0 empty_cache
      "[start_packet ?cs (start_meta (basename_only path) (cstr channel) ?tid)]"]
    by (auto simp: file_crc_def data_packet_def [abs_def])
  have fits: "\<not> 2 ^ 32 - 1 < length (concat ?cs)" using cs(2) by linarith
  have room: "\<not> BC_MAX_PAYLOAD_LEN - FILE_HDR_SIZE < 1 + 4 + 2 * 2 + length (basename_only path) + length (cstr channel)"
    using small by (simp add: bc_limits FILE_HDR_SIZE_def)
  have sub: "fe_subscribe log_file_env topic [] = (BC_OK, [])" by (simp add: log_file_env_def)
  have st: "send_file_packet log_file_env channel topic BC_FILE_PKT_START BC_FILE_PKT_FLAG_V2
      (of_nat (length (concat ?cs))) (start_meta (basename_only path) (cstr channel) ?tid) [] =
    (BC_OK, [start_packet ?cs (start_meta (basename_only path) (cstr channel) ?tid)])"
    unfolding send_log [OF meta] by (simp add: start_packet_def)
  have en: "send_file_packet log_file_env channel topic BC_FILE_PKT_END BC_FILE_PKT_FLAG_V2 v (to_le 4 ?tid) w =
      (BC_OK, w @ [file_packet BC_FILE_PKT_END BC_FILE_PKT_FLAG_V2 v (to_le 4 ?tid)])" for v w
    by (rule send_log) (simp add: BC_FILE_DATA_BODY_MAX_def bc_limits del: to_le_numeral)
  have "send_file_path log_file_env channel topic path src inboxes [] =
      end_rounds log_file_env channel topic ?tid (file_crc ?cs) (of_nat (length ?cs)) cache
        (end_wait_rounds (length (concat ?cs))) inboxes
        ([start_packet ?cs (start_meta (basename_only path) (cstr channel) ?tid)] @
         map (data_packet ?cs) [0..<length ?cs] @ [end_packet ?cs ?tid])"
    using r room fits unfolding send_file_path_def
    by (simp add: Let_def sub st c en end_packet_def source_id_def [symmetric] del: to_le_numeral length_concat)
  then show ?thesis
    by (simp add: source_packets_def first_pass_def source_meta_def exI comp_def)
qed


section \<open>The START data\<close>

lemma parse_start_meta_inverse:
  assumes "0 < length name" "length name \<le> BC_FILE_NAME_MAX" "length (cstr channel) < BC_MAX_CHANNEL_LEN"
  shows "parse_start_meta (start_meta name (cstr channel) tid) channel True t = (BC_OK, tid)"
proof -
  let ?m = "start_meta name (cstr channel) tid"
  have l16: "to_le 2 (of_nat k :: u64) = to_le 2 (of_nat k :: u16)" for k
    by (rule to_le_of_nat) simp_all
  have m: "?m = [BC_FILE_META_V2_VERSION] @ to_le 4 tid @ to_le 2 (of_nat (length name) :: u16) @ name @
      to_le 2 (of_nat (length (cstr channel)) :: u16) @ cstr channel"
    unfolding start_meta_def l16 ..
  have b: "length name < 65536" "length (cstr channel) < 65536"
    using assms by (simp_all add: BC_FILE_NAME_MAX_def bc_limits)
  define A where "A = [BC_FILE_META_V2_VERSION] @ to_le 4 tid @ to_le 2 (of_nat (length name) :: u16) @ name"
  have A: "?m = A @ to_le 2 (of_nat (length (cstr channel)) :: u16) @ cstr channel" "length A = 7 + length name"
    unfolding m A_def by (simp_all del: to_le_numeral)
  have f: "fld 1 4 ?m = to_le 4 tid" "fld 5 2 ?m = to_le 2 (of_nat (length name) :: u16)"
    unfolding m by (simp_all add: fld_def del: to_le_numeral)
  have g: "fld (7 + length name) 2 ?m = to_le 2 (of_nat (length (cstr channel)) :: u16)"
    "fld (9 + length name) (length (cstr channel)) ?m = cstr channel"
    unfolding A(1) by (simp_all add: fld_def A(2) del: to_le_numeral)
  have u: "unat (of_nat (length name) :: u16) = length name"
    "unat (of_nat (length (cstr channel)) :: u16) = length (cstr channel)"
    using b by (simp_all add: unat_of_nat_word)
  have "?m ! 0 = BC_FILE_META_V2_VERSION" by (simp add: m)
  then show ?thesis
    using assms f g u le16.dec_enc le32.dec_enc
    by (cases "cstr channel = []") (simp_all add: parse_start_meta_def Let_def length_start_meta del: to_le_numeral)
qed

section \<open>A reliable network\<close>

lemma spec_run_pieces:
  assumes "k + m \<le> n"
  shows "spec_run n whole (map Piece [k..<k + m] @ as) (At k False) =
    (case spec_run n whole as (At (k + m) False) of (q, rs) \<Rightarrow> (q, replicate m Silent @ rs))"
  using assms
proof (induction m arbitrary: k)
  case 0
  then show ?case by (cases "spec_run n whole as (At k False)") simp
next
  case (Suc m)
  have "[k..<k + Suc m] = k # [Suc k..<Suc k + m]" by (simp add: upt_conv_Cons)
  then show ?case using Suc.IH [of "Suc k"] Suc.prems
    by (cases "spec_run n whole as (At (Suc (k + m)) False)") simp
qed

lemma spec_run_first_pass:
  "spec_run n True (first_pass n) Waiting = (Complete, replicate (Suc n) Silent @ [Acknowledge])"
  using spec_run_pieces [of 0 n n True "[End]"] by (simp add: first_pass_def)

lemma silent_replies: "concat (map (reply_packets cs tid) (replicate n Silent)) = []"
  by (induction n) simp_all

lemma first_pass_ok: "list_all (arrival_ok cs) (first_pass (length cs))"
  by (simp add: first_pass_def list_all_iff)

lemma end_rounds_done:
  assumes "parse_file_packet d = Inr (hdr, extra)" "parse_file_v2_control hdr extra BC_FILE_PKT_DONE tid = BC_OK" "rounds > 0"
  shows "end_rounds log_file_env channel topic tid crc seq cache rounds [on_topic topic [d]] w = (BC_OK, w)"
  using assms by (cases rounds) (simp_all add: on_topic_def strcmp_eq_def)

lemma rounds_pos: "end_wait_rounds n > 0"
  by (simp add: end_wait_rounds_def BC_FILE_END_WAIT_ROUNDS_def Let_def)

text \<open>
  C10. Over a reliable network a file arrives: if no piece of it begins with the transfer id, the
  receiver of the packets the sender emits ends with success and a copy of the file, answering
  with one DONE packet, and the sender that reads this packet ends with success.
\<close>
theorem file_transfer_roundtrip:
  assumes "readable src channel topic path" "intact (source_id src topic path) (fs_chunks src)"
    and "cstr path' \<noteq> []"
  shows "\<exists>reply. recv_file_path log_file_env free_sink channel topic path'
        (on_topic topic (source_packets src channel topic path)) [] =
      (BC_OK, Written (concat (fs_chunks src)), [reply]) \<and>
    send_file_path log_file_env channel topic path src [on_topic topic [reply]] [] =
      (BC_OK, source_packets src channel topic path)"
proof -
  let ?cs = "fs_chunks src" and ?tid = "source_id src topic path"
  have ok: "pieces_ok ?cs" "cstr topic \<noteq> []" using assms(1) by (simp_all add: readable_def)
  have meta: "parse_start_meta (source_meta src channel topic path) channel True t = (BC_OK, ?tid)" for t
    unfolding source_meta_def
    by (rule parse_start_meta_inverse) (use assms(1) in \<open>simp_all add: readable_def\<close>)
  have run: "spec_run (length ?cs) (intact ?tid ?cs) (first_pass (length ?cs)) Waiting =
      (Complete, replicate (Suc (length ?cs)) Silent @ [Acknowledge])"
    using assms(2) spec_run_first_pass by simp
  have "recv_file_path log_file_env free_sink channel topic path'
      (on_topic topic (source_packets src channel topic path)) [] =
    (BC_OK, Written (concat ?cs), [done_packet ?cs ?tid])"
    using recv_path_run [OF ok(1) meta first_pass_ok ok(2) assms(3) run] silent_replies [of ?cs ?tid]
    by (simp add: source_packets_def outcome_def del: replicate_Suc)
  moreover have "send_file_path log_file_env channel topic path src [on_topic topic [done_packet ?cs ?tid]] [] =
      (BC_OK, source_packets src channel topic path)"
  proof -
    have "parse_file_v2_control \<lparr>fp_magic = BC_FILE_PKT_MAGIC, fp_type = BC_FILE_PKT_DONE,
        fp_reserved = BC_FILE_PKT_FLAG_V2, fp_value = of_nat (length ?cs)\<rparr> (to_le 4 ?tid) BC_FILE_PKT_DONE ?tid = BC_OK"
      using flag_v2 by (simp add: parse_file_v2_control_def le32.dec_enc del: to_le_numeral)
    note d = end_rounds_done [OF parse_packet this rounds_pos]
    show ?thesis using send_file_first_pass [OF assms(1), of "[on_topic topic [done_packet ?cs ?tid]]"] d
      by (auto simp: done_packet_def simp del: to_le_numeral)
  qed
  ultimately show ?thesis by blast
qed


definition sample_source :: file_source where
  "sample_source = \<lparr>fs_stat = Some 5, fs_open = True, fs_chunks = [[1, 2, 3], [4, 5]], fs_read_ok = True,
     fs_now = 100, fs_pid = 7\<rparr>"

lemma sample_readable: "readable sample_source [] (str ''t'') (str ''/d/f'')"
proof -
  have "basename_only (str ''/d/f'') = str ''f''" "cstr (str ''t'') = str ''t''" "cstr (str ''/d/f'') = str ''/d/f''"
    by code_simp+
  then show ?thesis
    by (simp add: readable_def sample_source_def pieces_ok_def BC_FILE_DATA_BODY_MAX_def bc_limits
        BC_FILE_NAME_MAX_def str_def)
qed

lemma sample_intact: "intact tid (fs_chunks sample_source)"
  by (simp add: intact_def sample_source_def strip_def)

lemma file_transfer_roundtrip_witness:
  "\<exists>reply. recv_file_path log_file_env free_sink [] (str ''t'') (str ''g'')
      (on_topic (str ''t'') (source_packets sample_source [] (str ''t'') (str ''/d/f''))) [] =
    (BC_OK, Written [1, 2, 3, 4, 5], [reply])"
proof -
  have "cstr (str ''g'') \<noteq> []" by code_simp
  from file_transfer_roundtrip [OF sample_readable sample_intact this] show ?thesis
    by (auto simp: sample_source_def)
qed

section \<open>An unreliable network\<close>

lemma broken_never_complete:
  "q \<noteq> Complete \<Longrightarrow> spec_run n False as q = (q', rs) \<Longrightarrow> q' \<noteq> Complete"
proof (induction as arbitrary: q rs)
  case (Cons a as)
  obtain q1 r where st: "spec_step n False a q = (q1, r)" by force
  obtain q2 rs2 where r: "spec_run n False as q1 = (q2, rs2)" by force
  have "q1 \<noteq> Complete"
  proof (cases q)
    case (At k ended)
    then show ?thesis using st by (cases a; cases ended) (auto split: if_splits)
  next
    case Waiting
    then show ?thesis using st by (cases a) auto
  next
    case Complete
    then show ?thesis using Cons.prems(1) by simp
  qed
  moreover have "q' = q2" using Cons.prems(2) st r \<open>q1 \<noteq> Complete\<close> by simp
  ultimately show ?case using Cons.IH r by blast
qed simp

text \<open>
  A file with a piece that happens to begin with the four bytes of the transfer id can
  never be received: the receiver cuts them off as if the sender had added them, and whatever
  arrives, in whatever order and however often, it ends without success.
\<close>
theorem prefixed_piece_never_received:
  assumes "pieces_ok cs" "c \<in> set cs" "length c > 4" "of_le (take 4 c) = tid"
    and "list_all (arrival_ok cs) as" "cstr topic \<noteq> []" "cstr path \<noteq> []"
    and "\<forall>t. parse_start_meta meta channel True t = (BC_OK, tid)"
  shows "fst (recv_file_path log_file_env free_sink channel topic path
      (on_topic topic (map (arrival_packet cs meta tid) as)) []) \<noteq> BC_OK"
proof -
  have "strip tid c \<noteq> c" using assms(3,4) by (auto simp: strip_def fld_def dest: arg_cong [where f = length])
  then have "\<not> intact tid cs" using assms(2) using map_eq_conv [of "strip tid" cs id] by (auto simp: intact_def)
  moreover obtain q rs where r: "spec_run (length cs) (intact tid cs) as Waiting = (q, rs)" by force
  ultimately have "q \<noteq> Complete" using broken_never_complete [of Waiting] by simp
  then show ?thesis using recv_path_run [OF assms(1) _ assms(5-7) r, of meta channel] assms(8)
    by (cases q) (simp_all add: outcome_def)
qed


lemma spec_run_ahead:
  "k < j \<Longrightarrow> spec_run n whole (map Piece [j..<j + m] @ as) (At k e) =
    (case spec_run n whole as (At k e) of (q, rs) \<Rightarrow> (q, replicate m (Nack k) @ rs))"
proof (induction m arbitrary: j)
  case 0
  then show ?case by (cases "spec_run n whole as (At k e)") simp
next
  case (Suc m)
  have "[j..<j + Suc m] = j # [Suc j..<Suc j + m]" by (simp add: upt_conv_Cons)
  then show ?case using Suc.IH [of "Suc j"] Suc.prems by (cases "spec_run n whole as (At k e)") simp
qed

lemma spec_run_retries:
  assumes "Suc k < n"
  shows "list_all (\<lambda>a. a = Piece k \<or> a = End) as \<Longrightarrow> j = k \<or> j = Suc k \<Longrightarrow>
    \<exists>i. spec_run n whole as (At j True) = (At i True, replicate (length as) Silent @ [Nack i])"
proof (induction as arbitrary: j)
  case Nil
  then show ?case by simp
next
  case (Cons a as)
  obtain j' where st: "spec_step n whole a (At j True) = (At j' True, Silent)" "j' = k \<or> j' = Suc k"
    using Cons.prems assms by (cases "a = End"; cases "j = k") auto
  then obtain i where "spec_run n whole as (At j' True) = (At i True, replicate (length as) Silent @ [Nack i])"
    using Cons.IH [of j'] Cons.prems(1) by auto
  then show ?case using st by simp
qed

text \<open>What arrives when piece \<open>k\<close> of the first pass is lost.\<close>

definition pass_without :: "nat \<Rightarrow> nat \<Rightarrow> arrival list" where
  "pass_without k n = Start # map Piece [0..<k] @ map Piece [Suc k..<n] @ [End]"

lemma spec_run_without:
  assumes "Suc k < n" "list_all (\<lambda>a. a = Piece k \<or> a = End) retries"
  shows "\<exists>i. spec_run n whole (pass_without k n @ retries) Waiting =
    (At i True, replicate (Suc k) Silent @ replicate (n - k) (Nack k) @ replicate (length retries) Silent @ [Nack i])"
proof -
  obtain i where i: "spec_run n whole retries (At k True) = (At i True, replicate (length retries) Silent @ [Nack i])"
    using spec_run_retries [OF assms, of k whole] by blast
  have "spec_run n whole (End # retries) (At k False) =
      (At i True, Nack k # replicate (length retries) Silent @ [Nack i])"
    using assms(1) i by simp
  then have "spec_run n whole (map Piece [Suc k..<n] @ End # retries) (At k False) =
      (At i True, replicate (n - Suc k) (Nack k) @ Nack k # replicate (length retries) Silent @ [Nack i])"
    using spec_run_ahead [of k "Suc k" n whole "n - Suc k" "End # retries" False] assms(1) by simp
  moreover have "replicate (n - Suc k) (Nack k) @ Nack k # xs = replicate (n - k) (Nack k) @ xs" for xs
  proof -
    have "n - k = Suc (n - Suc k)" using assms(1) by simp
    then show ?thesis by (simp add: replicate_app_Cons_same)
  qed
  ultimately show ?thesis
    using spec_run_pieces [of 0 k n whole "map Piece [Suc k..<n] @ End # retries"] assms(1)
    by (simp add: pass_without_def)
qed

lemma concat_nacks: "concat (map (reply_packets cs tid) (replicate m (Nack k))) = replicate m (nack_packet tid k)"
  by (induction m) simp_all

lemma sender_answers_nacks:
  assumes "find_cache_slot cache (of_nat k) = Some \<lparr>cs_valid = True, cs_seq = of_nat k, cs_data = cs ! k\<rparr>"
    and "(of_nat k :: u32) < seq" "length (cs ! k) \<le> BC_FILE_DATA_BODY_MAX"
  shows "\<exists>resent'. sender_handle_controls log_file_env channel topic tid seq cache
      (on_topic topic (replicate m (nack_packet tid k))) False resent w =
    (BC_OK, False, resent', w @ replicate m (data_packet cs k))"
proof (induction m arbitrary: resent w)
  case 0
  then show ?case by (simp add: on_topic_def)
next
  case (Suc m)
  have "parse_file_v2_control \<lparr>fp_magic = BC_FILE_PKT_MAGIC, fp_type = BC_FILE_PKT_NACK,
      fp_reserved = BC_FILE_PKT_FLAG_V2, fp_value = of_nat k\<rparr> (to_le 4 tid) BC_FILE_PKT_NACK tid = BC_OK"
    "parse_file_v2_control \<lparr>fp_magic = BC_FILE_PKT_MAGIC, fp_type = BC_FILE_PKT_NACK,
      fp_reserved = BC_FILE_PKT_FLAG_V2, fp_value = of_nat k\<rparr> (to_le 4 tid) BC_FILE_PKT_DONE tid \<noteq> BC_OK"
    using flag_v2 by (simp_all add: parse_file_v2_control_def le32.dec_enc del: to_le_numeral)
  then show ?case
    using Suc.IH [of True "w @ [data_packet cs k]"] assms send_log [OF assms(3)]
    by (simp add: on_topic_def strcmp_eq_def nack_packet_def data_packet_def not_le [symmetric] del: to_le_numeral)
qed

text \<open>
  The loss of one piece that is not the last is fatal, although every packet after it
  arrives and every request is answered. The receiver drops the pieces after the lost one and
  asks for the lost one only; the sender answers with that piece only, whatever the number of
  requests; with it and repeated ENDs the receiver asks for nothing more and gives up.
\<close>
theorem lost_piece_not_recovered:
  assumes "pieces_ok cs" "Suc k < length cs" "cstr topic \<noteq> []" "cstr path \<noteq> []"
    and "\<forall>t. parse_start_meta meta channel True t = (BC_OK, tid)"
    and "\<forall>a\<in>set retries. a = Piece k \<or> a = End"
    and "find_cache_slot cache (of_nat k) = Some \<lparr>cs_valid = True, cs_seq = of_nat k, cs_data = cs ! k\<rparr>"
    and "(of_nat k :: u32) < seq"
  shows "(\<exists>i. recv_file_path log_file_env free_sink channel topic path
      (on_topic topic (map (arrival_packet cs meta tid) (pass_without k (length cs) @ retries))) [] =
    (BC_ERR_IO, Removed, replicate (length cs - k) (nack_packet tid k) @ [nack_packet tid i])) \<and>
    (\<exists>resent. sender_handle_controls log_file_env channel topic tid seq cache
      (on_topic topic (replicate m (nack_packet tid k))) False False w =
    (BC_OK, False, resent, w @ replicate m (data_packet cs k)))"
proof -
  have ok: "list_all (arrival_ok cs) (pass_without k (length cs) @ retries)"
    using assms(2,6) by (auto simp: pass_without_def list_all_iff)
  have retries: "list_all (\<lambda>a. a = Piece k \<or> a = End) retries" using assms(6) by (simp add: list_all_iff)
  obtain i where r: "spec_run (length cs) (intact tid cs) (pass_without k (length cs) @ retries) Waiting =
      (At i True, replicate (Suc k) Silent @ replicate (length cs - k) (Nack k) @ replicate (length retries) Silent @ [Nack i])"
    using spec_run_without [OF assms(2) retries] by blast
  have "\<exists>i. recv_file_path log_file_env free_sink channel topic path
      (on_topic topic (map (arrival_packet cs meta tid) (pass_without k (length cs) @ retries))) [] =
    (BC_ERR_IO, Removed, replicate (length cs - k) (nack_packet tid k) @ [nack_packet tid i])"
    using recv_path_run [OF assms(1) _ ok assms(3,4) r, of meta channel] assms(5)
    by (intro exI [of _ i]) (simp add: outcome_def silent_replies concat_nacks del: replicate_Suc)
  moreover have "length (cs ! k) \<le> BC_FILE_DATA_BODY_MAX"
    using assms(1,2) by (auto simp: pieces_ok_def list_all_length)
  from sender_answers_nacks [OF assms(7,8) this]
  have "\<exists>resent. sender_handle_controls log_file_env channel topic tid seq cache
      (on_topic topic (replicate m (nack_packet tid k))) False False w =
    (BC_OK, False, resent, w @ replicate m (data_packet cs k))" .
  ultimately show ?thesis ..
qed

definition three_pieces :: "byte list list" where
  "three_pieces = [[1, 2, 3], [4, 5], [6]]"

lemma three_pieces_ok: "pieces_ok three_pieces"
  by (simp add: three_pieces_def pieces_ok_def BC_FILE_DATA_BODY_MAX_def bc_limits)

lemma sample_names: "cstr (str ''t'') \<noteq> []" "cstr (str ''g'') \<noteq> []"
  by code_simp+

lemma sample_meta: "\<forall>t. parse_start_meta (start_meta (str ''f'') (cstr []) tid) [] True t = (BC_OK, tid)"
  by (intro allI parse_start_meta_inverse) (simp_all add: str_def BC_FILE_NAME_MAX_def bc_limits)

lemma lost_piece_not_recovered_witness:
  "\<exists>ps. recv_file_path log_file_env free_sink [] (str ''t'') (str ''g'')
      (on_topic (str ''t'') (map (arrival_packet three_pieces (start_meta (str ''f'') (cstr []) 9) 9)
        (pass_without 1 3 @ [Piece 1, End, Piece 1]))) [] = (BC_ERR_IO, Removed, ps)"
proof -
  define cache where "cache = store_cache_slot empty_cache 1 [4, 5]"
  have "find_cache_slot cache (of_nat 1) =
      Some \<lparr>cs_valid = True, cs_seq = of_nat 1, cs_data = three_pieces ! 1\<rparr>"
    unfolding cache_def by code_simp
  from lost_piece_not_recovered [OF three_pieces_ok _ sample_names sample_meta _ this,
      where tid = 9 and retries = "[Piece 1, End, Piece 1]" and seq = 3]
  have "\<exists>ps. recv_file_path log_file_env free_sink [] (str ''t'') (str ''g'')
      (on_topic (str ''t'') (map (arrival_packet three_pieces (start_meta (str ''f'') (cstr []) 9) 9)
        (pass_without 1 (length three_pieces) @ [Piece 1, End, Piece 1]))) [] = (BC_ERR_IO, Removed, ps)"
    by (simp add: three_pieces_def) blast
  moreover have "length three_pieces = 3" by (simp add: three_pieces_def)
  ultimately show ?thesis by simp
qed

lemma prefixed_piece_never_received_witness:
  "fst (recv_file_path log_file_env free_sink [] (str ''t'') (str ''g'')
      (on_topic (str ''t'') (map (arrival_packet [[9, 0, 0, 0, 5]] (start_meta (str ''f'') (cstr []) 9) 9)
        [Start, Piece 0, End, Piece 0, End])) []) \<noteq> BC_OK"
proof -
  have p: "pieces_ok [[9, 0, 0, 0, 5]]" by (simp add: pieces_ok_def BC_FILE_DATA_BODY_MAX_def bc_limits)
  show ?thesis
    by (rule prefixed_piece_never_received [OF p _ _ _ _ sample_names sample_meta, of "[9, 0, 0, 0, 5]"]) simp_all
qed

end
