(* ===== verification/Uart_Transport.thy ===== *)
theory Uart_Transport
  imports Tcp_Transport
begin

text \<open>
  \<^verbatim>\<open>src/transport/uart/uart_transport.c\<close>: a serial line, full duplex (RS-232) or half duplex with
  a driver-enable pin (RS-485), reopened with growing delays when it fails. The conventions are those
  of \<open>Tcp_Transport\<close>: \<open>uart_os\<close> holds what the operating system answers to the calls of one operation,
  \<open>ua_events\<close>, \<open>ua_timer_ms\<close>, \<open>ua_speed\<close> and \<open>ua_de_level\<close> are the mask, timer, line speed and
  pin level last set, and \<open>ua_fault\<close> is undefined behaviour. The remaining bits of the line settings are left out.
\<close>

section \<open>State\<close>

definition BC_UART_SEND_CAP :: nat where "BC_UART_SEND_CAP = BC_MAX_FRAME_LEN * 8"
definition BC_UART_REOPEN_MS_INIT :: int where "BC_UART_REOPEN_MS_INIT = 1000"
definition BC_UART_REOPEN_MS_MAX :: int where "BC_UART_REOPEN_MS_MAX = 30000"

record uart_impl =
  ua_mode :: int
  ua_de_gpio :: int
  ua_de_value_fd :: int
  ua_de_tx_active :: bool
  ua_timer_fd :: int
  ua_reopen_armed :: bool
  ua_retry_attempt :: int
  ua_opened :: bool
  ua_send_alloc :: bool
  ua_send_buf :: "byte list"
  ua_send_off :: nat
  ua_bound :: bool
  ua_fd :: int
  ua_speed :: int
  ua_de_level :: bool
  ua_events :: u32
  ua_timer_ms :: int
  ua_fault :: bool

record uart_os =
  uo_open :: int
  uo_tcsetattr :: bool
  uo_watch :: bc_status
  uo_timer_fd :: int
  uo_timer_ok :: bool
  uo_malloc :: bool
  uo_gpio_exists :: bool
  uo_gpio_export :: "bool option"
  uo_gpio_value_fd :: int
  uo_gpio_seek :: bool
  uo_gpio_write :: bool

definition bc_uart_transport_init :: uart_impl where
  "bc_uart_transport_init =
     \<lparr>ua_mode = BC_UART_MODE_232, ua_de_gpio = 0, ua_de_value_fd = - 1, ua_de_tx_active = False, ua_timer_fd = - 1,
      ua_reopen_armed = False, ua_retry_attempt = 0, ua_opened = False, ua_send_alloc = False,
      ua_send_buf = [], ua_send_off = 0, ua_bound = False, ua_fd = - 1, ua_speed = 0,
      ua_de_level = False, ua_events = 0, ua_timer_ms = 0, ua_fault = False\<rparr>"

text \<open>A speed constant of the system is written as the number it stands for.\<close>

definition baud_to_speed :: "int \<Rightarrow> int" where
  "baud_to_speed baudrate =
     (if baudrate \<in> {9600, 38400, 57600, 230400, 460800, 921600} then baudrate else 115200)"

definition uart_epoll_events :: "uart_impl \<Rightarrow> u32" where
  "uart_epoll_events impl =
     (let events = EPOLLIN OR EPOLLHUP OR EPOLLERR in
      if ua_send_off impl < length (ua_send_buf impl) then events OR EPOLLOUT else events)"

definition uart_watch_fd :: "uart_os \<Rightarrow> u32 \<Rightarrow> uart_impl \<Rightarrow> bc_status \<times> uart_impl" where
  "uart_watch_fd os events impl =
     (if \<not> ua_bound impl \<or> ua_fd impl < 0 then (BC_OK, impl)
      else (uo_watch os, if uo_watch os = BC_OK then impl\<lparr>ua_events := events\<rparr> else impl))"

section \<open>The driver-enable pin\<close>

text \<open>\<open>uo_gpio_export\<close> is \<open>None\<close> when the export file does not open, else whether the pin is exported.\<close>

definition gpio_export :: "uart_os \<Rightarrow> bc_status" where
  "gpio_export os =
     (if uo_gpio_exists os then BC_OK
      else case uo_gpio_export os of None \<Rightarrow> BC_ERR_IO | Some written \<Rightarrow> if \<not> written then BC_ERR_IO else BC_OK)"

definition gpio_open_value :: "uart_os \<Rightarrow> int" where
  "gpio_open_value os = (if gpio_export os \<noteq> BC_OK then - 1 else uo_gpio_value_fd os)"

definition gpio_set_value :: "uart_os \<Rightarrow> bool \<Rightarrow> uart_impl \<Rightarrow> bc_status \<times> uart_impl" where
  "gpio_set_value os level impl =
     (if ua_de_value_fd impl < 0 then (BC_OK, impl)
      else if \<not> uo_gpio_seek os then (BC_ERR_IO, impl)
      else if \<not> uo_gpio_write os then (BC_ERR_IO, impl)
      else (BC_OK, impl\<lparr>ua_de_level := level\<rparr>))"

definition uart_rs485_deinit :: "uart_os \<Rightarrow> uart_impl \<Rightarrow> uart_impl" where
  "uart_rs485_deinit os impl =
     (let impl = (if ua_de_tx_active impl
            then (snd (gpio_set_value os False impl))\<lparr>ua_de_tx_active := False\<rparr> else impl) in
      if ua_de_value_fd impl \<ge> 0 then impl\<lparr>ua_de_value_fd := - 1\<rparr> else impl)"

definition uart_rs485_init :: "uart_os \<Rightarrow> uart_impl \<Rightarrow> bc_status \<times> uart_impl" where
  "uart_rs485_init os impl =
     (if ua_mode impl \<noteq> BC_UART_MODE_485 then (BC_OK, impl)
      else if ua_de_gpio impl < 0 then (BC_OK, impl)
      else
        let impl = impl\<lparr>ua_de_value_fd := gpio_open_value os\<rparr> in
        if ua_de_value_fd impl < 0 then (BC_ERR_IO, impl)
        else case gpio_set_value os False impl of (rc, impl) \<Rightarrow>
          if rc \<noteq> BC_OK then (BC_ERR_IO, uart_rs485_deinit os impl) else (BC_OK, impl))"

definition uart_rs485_tx_enable :: "uart_os \<Rightarrow> uart_impl \<Rightarrow> bc_status \<times> uart_impl" where
  "uart_rs485_tx_enable os impl =
     (if ua_mode impl \<noteq> BC_UART_MODE_485 \<or> ua_de_tx_active impl then (BC_OK, impl)
      else case gpio_set_value os True impl of (rc, impl) \<Rightarrow>
        if rc \<noteq> BC_OK then (BC_ERR_IO, impl) else (BC_OK, impl\<lparr>ua_de_tx_active := True\<rparr>))"

definition uart_rs485_tx_disable :: "uart_os \<Rightarrow> uart_impl \<Rightarrow> uart_impl" where
  "uart_rs485_tx_disable os impl =
     (if ua_mode impl \<noteq> BC_UART_MODE_485 \<or> \<not> ua_de_tx_active impl then impl
      else (snd (gpio_set_value os False impl))\<lparr>ua_de_tx_active := False\<rparr>)"

section \<open>The device\<close>

definition uart_apply_termios :: "uart_os \<Rightarrow> int \<Rightarrow> uart_impl \<Rightarrow> bc_status \<times> uart_impl" where
  "uart_apply_termios os baudrate impl =
     (if uo_tcsetattr os then (BC_OK, impl\<lparr>ua_speed := baud_to_speed baudrate\<rparr>) else (BC_ERR_IO, impl))"

definition uart_device_open :: "uart_os \<Rightarrow> bc_transport_config \<Rightarrow> uart_impl \<Rightarrow> bc_status \<times> uart_impl" where
  "uart_device_open os cfg impl =
     (let impl = impl\<lparr>ua_fd := uo_open os\<rparr> in
      if ua_fd impl < 0 then (BC_ERR_IO, impl)
      else case uart_apply_termios os (tc_baudrate cfg) impl of (rc, impl) \<Rightarrow>
        if rc \<noteq> BC_OK then (BC_ERR_IO, impl\<lparr>ua_fd := - 1\<rparr>) else (BC_OK, impl\<lparr>ua_opened := True\<rparr>))"

definition uart_device_close :: "uart_os \<Rightarrow> uart_impl \<Rightarrow> uart_impl" where
  "uart_device_close os impl =
     (let impl = uart_rs485_tx_disable os impl;
          impl = (if ua_fd impl \<ge> 0 then impl\<lparr>ua_fd := - 1\<rparr> else impl) in
      impl\<lparr>ua_opened := False\<rparr>)"

text \<open>\<open>None\<close>: the shift overflows a 32-bit \<^verbatim>\<open>int\<close>, which C leaves undefined.\<close>

definition uart_reopen_delay_ms :: "int \<Rightarrow> int option" where
  "uart_reopen_delay_ms retry_attempt =
     (if retry_attempt > 0 then
        (let k = nat (retry_attempt - 1) in
         if k \<ge> 32 \<or> BC_UART_REOPEN_MS_INIT * 2 ^ k > 2 ^ 31 - 1 then None
         else let delay = BC_UART_REOPEN_MS_INIT * 2 ^ k in
           Some (if delay > BC_UART_REOPEN_MS_MAX then BC_UART_REOPEN_MS_MAX else delay))
      else Some BC_UART_REOPEN_MS_INIT)"

definition uart_timer_arm :: "uart_os \<Rightarrow> int \<Rightarrow> uart_impl \<Rightarrow> bc_status \<times> uart_impl" where
  "uart_timer_arm os delay_ms impl =
     (if ua_timer_fd impl < 0 then (BC_ERR_IO, impl)
      else if uo_timer_ok os then (BC_OK, impl\<lparr>ua_timer_ms := delay_ms\<rparr>) else (BC_ERR_IO, impl))"

definition uart_schedule_reopen :: "uart_os \<Rightarrow> uart_impl \<Rightarrow> uart_impl" where
  "uart_schedule_reopen os impl =
     (let impl = (uart_device_close os impl)\<lparr>ua_reopen_armed := True\<rparr>;
          counted = impl\<lparr>ua_retry_attempt := ua_retry_attempt impl + 1\<rparr> in
      case uart_reopen_delay_ms (ua_retry_attempt impl) of
        None \<Rightarrow> counted\<lparr>ua_fault := True\<rparr>
      | Some delay \<Rightarrow> snd (uart_timer_arm os delay counted))"

definition uart_try_reopen :: "uart_os \<Rightarrow> bc_transport_config \<Rightarrow> uart_impl \<Rightarrow> bc_status \<times> uart_impl" where
  "uart_try_reopen os cfg impl =
     (case uart_device_open os cfg impl of (rc, impl) \<Rightarrow>
        if rc \<noteq> BC_OK then (BC_ERR_IO, uart_schedule_reopen os impl)
        else
          let impl = impl\<lparr>ua_retry_attempt := 0, ua_reopen_armed := False\<rparr> in
          uart_watch_fd os (uart_epoll_events impl) impl)"

section \<open>The send queue\<close>

definition uart_clear_send_queue :: "uart_impl \<Rightarrow> uart_impl" where
  "uart_clear_send_queue impl = impl\<lparr>ua_send_buf := [], ua_send_off := 0\<rparr>"

definition uart_ensure_send_cap :: "uart_os \<Rightarrow> nat \<Rightarrow> uart_impl \<Rightarrow> bc_status \<times> uart_impl" where
  "uart_ensure_send_cap os need impl =
     (if need > BC_UART_SEND_CAP then (BC_ERR_NOMEM, impl)
      else if \<not> ua_send_alloc impl then
        (if uo_malloc os then (BC_OK, impl\<lparr>ua_send_alloc := True\<rparr>) else (BC_ERR_NOMEM, impl))
      else (BC_OK, impl))"

fun uart_flush_loop :: "io_result list \<Rightarrow> uart_impl \<Rightarrow> drain \<times> byte list \<times> uart_impl" where
  "uart_flush_loop results impl =
     (if ua_send_off impl \<ge> length (ua_send_buf impl) then (Drained, [], impl)
      else case results of
          Done n # rs \<Rightarrow>
            if n > 0 then
              (let n = min n (length (ua_send_buf impl) - ua_send_off impl) in
               case uart_flush_loop rs (impl\<lparr>ua_send_off := ua_send_off impl + n\<rparr>) of (d, out, impl') \<Rightarrow>
                 (d, take n (drop (ua_send_off impl) (ua_send_buf impl)) @ out, impl'))
            else (Failed, [], impl)
        | Error # rs \<Rightarrow> (Failed, [], impl)
        | Again # rs \<Rightarrow> (Blocked, [], impl)
        | [] \<Rightarrow> (Blocked, [], impl))"

declare uart_flush_loop.simps [simp del]

definition uart_flush_send ::
  "uart_os \<Rightarrow> io_result list \<Rightarrow> uart_impl \<Rightarrow> bc_status \<times> byte list \<times> uart_impl" where
  "uart_flush_send os results impl =
     (if \<not> ua_opened impl \<or> ua_fd impl < 0 then (BC_ERR_IO, [], impl)
      else case (if ua_send_off impl < length (ua_send_buf impl) then uart_rs485_tx_enable os impl else (BC_OK, impl)) of
        (rc, impl) \<Rightarrow>
          if rc \<noteq> BC_OK then (BC_ERR_IO, [], impl)
          else case uart_flush_loop results impl of
              (Blocked, out, impl) \<Rightarrow> (case uart_watch_fd os (uart_epoll_events impl) impl of (rc, impl) \<Rightarrow> (rc, out, impl))
            | (Failed, out, impl) \<Rightarrow> (BC_ERR_IO, out, uart_schedule_reopen os impl)
            | (Drained, out, impl) \<Rightarrow>
                (let impl = uart_rs485_tx_disable os (uart_clear_send_queue impl) in
                 case uart_watch_fd os (uart_epoll_events impl) impl of (rc, impl) \<Rightarrow> (rc, out, impl)))"

definition uart_queue_send :: "uart_os \<Rightarrow> byte list \<Rightarrow> uart_impl \<Rightarrow> bc_status \<times> uart_impl" where
  "uart_queue_send os data impl =
     (if \<not> ua_opened impl then (BC_ERR_IO, impl)
      else
        let need = (length (ua_send_buf impl) - ua_send_off impl) + length data in
        case uart_ensure_send_cap os need impl of (rc, impl) \<Rightarrow>
          if rc \<noteq> BC_OK then (BC_ERR_NOMEM, impl)
          else
            let impl = impl\<lparr>ua_send_buf := ua_send_buf impl @ data,
              ua_fault := (ua_fault impl \<or> length (ua_send_buf impl) + length data > BC_UART_SEND_CAP)\<rparr> in
            uart_watch_fd os (uart_epoll_events impl) impl)"

section \<open>The operations of the transport\<close>

definition uart_open :: "uart_os \<Rightarrow> bc_transport_config \<Rightarrow> uart_impl \<Rightarrow> bc_status \<times> uart_impl" where
  "uart_open os cfg impl =
     (let impl = impl\<lparr>ua_mode := tc_uart_mode cfg, ua_de_gpio := tc_rs485_de_gpio cfg, ua_de_value_fd := - 1,
            ua_timer_fd := uo_timer_fd os\<rparr> in
      if ua_timer_fd impl < 0 then (BC_ERR_IO, impl)
      else case uart_rs485_init os impl of (rc, impl) \<Rightarrow>
        if rc \<noteq> BC_OK then (BC_ERR_IO, impl\<lparr>ua_timer_fd := - 1\<rparr>)
        else case uart_device_open os cfg impl of (rc, impl) \<Rightarrow>
          if rc \<noteq> BC_OK then (BC_ERR_IO, (uart_rs485_deinit os impl)\<lparr>ua_timer_fd := - 1\<rparr>)
          else (BC_OK, impl))"

text \<open>What is left of the transport after closing: the structure itself is freed.\<close>

definition uart_close :: "uart_os \<Rightarrow> uart_impl \<Rightarrow> uart_impl" where
  "uart_close os impl =
     (let impl = uart_rs485_deinit os (uart_device_close os impl);
          impl = (if ua_timer_fd impl \<ge> 0 then impl\<lparr>ua_timer_fd := - 1\<rparr> else impl) in
      impl\<lparr>ua_send_alloc := False, ua_fd := - 1\<rparr>)"

fun uart_send_loop :: "uart_os \<Rightarrow> io_result list \<Rightarrow> byte list \<Rightarrow> uart_impl \<Rightarrow> bc_status \<times> byte list \<times> uart_impl" where
  "uart_send_loop os results data impl =
     (if data = [] then (BC_OK, [], uart_rs485_tx_disable os impl)
      else case results of
          Done n # rs \<Rightarrow>
            if n > 0 then
              (case uart_send_loop os rs (drop n data) impl of (rc, out, impl) \<Rightarrow> (rc, take n data @ out, impl))
            else (BC_ERR_IO, [], uart_schedule_reopen os impl)
        | Error # rs \<Rightarrow> (BC_ERR_IO, [], uart_schedule_reopen os impl)
        | Again # rs \<Rightarrow> (case uart_queue_send os data impl of (rc, impl) \<Rightarrow> (rc, [], impl))
        | [] \<Rightarrow> (case uart_queue_send os data impl of (rc, impl) \<Rightarrow> (rc, [], impl)))"

declare uart_send_loop.simps [simp del]

definition uart_send :: "uart_os \<Rightarrow> io_result list \<Rightarrow> byte list \<Rightarrow> uart_impl \<Rightarrow> bc_status \<times> byte list \<times> uart_impl" where
  "uart_send os results data impl =
     (if \<not> ua_opened impl \<or> ua_fd impl < 0 then (BC_ERR_IO, [], impl)
      else if ua_send_off impl < length (ua_send_buf impl)
      then (case uart_queue_send os data impl of (rc, impl) \<Rightarrow> (rc, [], impl))
      else case uart_rs485_tx_enable os impl of (rc, impl) \<Rightarrow>
        if rc \<noteq> BC_OK then (BC_ERR_IO, [], impl) else uart_send_loop os results data impl)"

text \<open>An interrupted read and one that would block have the same result; \<open>Closed\<close> is a read of no bytes.\<close>

definition uart_recv :: "uart_os \<Rightarrow> sock_read \<Rightarrow> uart_impl \<Rightarrow> (bc_status + byte list) \<times> uart_impl" where
  "uart_recv os res impl =
     (if \<not> ua_opened impl \<or> ua_fd impl < 0 then (Inl BC_ERR_INVALID, impl)
      else if ua_mode impl = BC_UART_MODE_485 \<and> ua_de_tx_active impl then (Inl BC_ERR_NOT_FOUND, impl)
      else case res of
          Got data \<Rightarrow> (Inr data, impl)
        | Closed \<Rightarrow> (Inl BC_ERR_IO, uart_schedule_reopen os impl)
        | Would_Block \<Rightarrow> (Inl BC_ERR_NOT_FOUND, impl)
        | Read_Failed \<Rightarrow> (Inl BC_ERR_IO, uart_schedule_reopen os impl))"

definition uart_bind_reactor :: "uart_os \<Rightarrow> uart_impl \<Rightarrow> bc_status \<times> uart_impl" where
  "uart_bind_reactor os impl =
     (let impl = impl\<lparr>ua_bound := True\<rparr> in
      case (if ua_fd impl \<ge> 0 then uart_watch_fd os (uart_epoll_events impl) impl else (BC_OK, impl)) of (rc, impl) \<Rightarrow>
        if rc \<noteq> BC_OK then (BC_ERR_IO, impl)
        else if ua_timer_fd impl \<ge> 0 \<and> uo_watch os \<noteq> BC_OK then (BC_ERR_IO, impl)
        else (BC_OK, impl))"

definition uart_get_fds :: "bc_status \<times> nat" where "uart_get_fds = (BC_OK, 0)"

text \<open>As for TCP, one entry for each expiration read from the timer.\<close>

fun uart_timer_loop :: "bc_transport_config \<Rightarrow> uart_os list \<Rightarrow> uart_impl \<Rightarrow> uart_impl" where
  "uart_timer_loop cfg [] impl = impl"
| "uart_timer_loop cfg (os # expirations) impl =
     (let impl = impl\<lparr>ua_timer_ms := 0\<rparr> in
      if ua_reopen_armed impl
      then uart_timer_loop cfg expirations (snd (uart_try_reopen os cfg (impl\<lparr>ua_reopen_armed := False\<rparr>)))
      else uart_timer_loop cfg expirations impl)"

definition uart_handle_event ::
  "uart_os \<Rightarrow> bc_transport_config \<Rightarrow> int \<Rightarrow> u32 \<Rightarrow> uart_os list \<Rightarrow> io_result list \<Rightarrow> uart_impl \<Rightarrow>
     bc_status \<times> byte list \<times> uart_impl" where
  "uart_handle_event os cfg fd events expirations sends impl =
     (if fd = ua_timer_fd impl \<and> (events AND EPOLLIN) \<noteq> 0 then (BC_OK, [], uart_timer_loop cfg expirations impl)
      else if fd = ua_fd impl then
        (if (events AND (EPOLLHUP OR EPOLLERR)) \<noteq> 0 then (BC_OK, [], uart_schedule_reopen os impl)
         else if (events AND EPOLLOUT) \<noteq> 0 \<and> ua_send_off impl < length (ua_send_buf impl) then
           (case uart_flush_send os sends impl of (rc, out, impl) \<Rightarrow> (BC_OK, out, impl))
         else (BC_OK, [], impl))
      else (BC_OK, [], impl))"

end
