(* ===== verification/Uart_Link.thy ===== *)
theory Uart_Link
  imports Uart_Transport Tcp_Reconnect
begin

text \<open>
  Properties of the serial line: the invariant of its reachable states, with the reopening that is
  armed while the device is closed, the order of the bytes sent across reopenings,
  and the idle line that the code takes for a lost device. In \<open>uart_live\<close> and \<open>uart_os_sane\<close> the
  argument says whether every setting of the timer succeeds.
\<close>

section \<open>What the steps leave alone\<close>

lemma gpio_set_fields [simp]:
  "ua_mode (snd (gpio_set_value os l s)) = ua_mode s" "ua_fd (snd (gpio_set_value os l s)) = ua_fd s"
  "ua_de_value_fd (snd (gpio_set_value os l s)) = ua_de_value_fd s"
  "ua_de_tx_active (snd (gpio_set_value os l s)) = ua_de_tx_active s"
  "ua_timer_fd (snd (gpio_set_value os l s)) = ua_timer_fd s"
  "ua_reopen_armed (snd (gpio_set_value os l s)) = ua_reopen_armed s"
  "ua_retry_attempt (snd (gpio_set_value os l s)) = ua_retry_attempt s"
  "ua_opened (snd (gpio_set_value os l s)) = ua_opened s"
  "ua_send_alloc (snd (gpio_set_value os l s)) = ua_send_alloc s"
  "ua_send_buf (snd (gpio_set_value os l s)) = ua_send_buf s"
  "ua_send_off (snd (gpio_set_value os l s)) = ua_send_off s"
  "ua_timer_ms (snd (gpio_set_value os l s)) = ua_timer_ms s"
  "ua_fault (snd (gpio_set_value os l s)) = ua_fault s" "ua_bound (snd (gpio_set_value os l s)) = ua_bound s"
  by (simp_all add: gpio_set_value_def)

lemma tx_disable_fields [simp]:
  "ua_mode (uart_rs485_tx_disable os s) = ua_mode s" "ua_fd (uart_rs485_tx_disable os s) = ua_fd s"
  "ua_de_value_fd (uart_rs485_tx_disable os s) = ua_de_value_fd s"
  "ua_timer_fd (uart_rs485_tx_disable os s) = ua_timer_fd s"
  "ua_reopen_armed (uart_rs485_tx_disable os s) = ua_reopen_armed s"
  "ua_retry_attempt (uart_rs485_tx_disable os s) = ua_retry_attempt s"
  "ua_opened (uart_rs485_tx_disable os s) = ua_opened s"
  "ua_send_alloc (uart_rs485_tx_disable os s) = ua_send_alloc s"
  "ua_send_buf (uart_rs485_tx_disable os s) = ua_send_buf s"
  "ua_send_off (uart_rs485_tx_disable os s) = ua_send_off s"
  "ua_timer_ms (uart_rs485_tx_disable os s) = ua_timer_ms s"
  "ua_fault (uart_rs485_tx_disable os s) = ua_fault s" "ua_bound (uart_rs485_tx_disable os s) = ua_bound s"
  "ua_de_tx_active (uart_rs485_tx_disable os s) = (ua_de_tx_active s \<and> ua_mode s \<noteq> BC_UART_MODE_485)"
  by (auto simp: uart_rs485_tx_disable_def)

lemma device_close_fields [simp]:
  "ua_mode (uart_device_close os s) = ua_mode s" "ua_fd (uart_device_close os s) = (if ua_fd s \<ge> 0 then - 1 else ua_fd s)"
  "ua_de_value_fd (uart_device_close os s) = ua_de_value_fd s"
  "ua_timer_fd (uart_device_close os s) = ua_timer_fd s"
  "ua_reopen_armed (uart_device_close os s) = ua_reopen_armed s"
  "ua_retry_attempt (uart_device_close os s) = ua_retry_attempt s"
  "\<not> ua_opened (uart_device_close os s)"
  "ua_send_alloc (uart_device_close os s) = ua_send_alloc s"
  "ua_send_buf (uart_device_close os s) = ua_send_buf s" "ua_send_off (uart_device_close os s) = ua_send_off s"
  "ua_timer_ms (uart_device_close os s) = ua_timer_ms s" "ua_fault (uart_device_close os s) = ua_fault s"
  "ua_bound (uart_device_close os s) = ua_bound s"
  "ua_de_tx_active (uart_device_close os s) = (ua_de_tx_active s \<and> ua_mode s \<noteq> BC_UART_MODE_485)"
  by (auto simp: uart_device_close_def Let_def)

lemma uart_delay: "uart_reopen_delay_ms = tcp_reconnect_delay_ms"
  by (simp add: fun_eq_iff uart_reopen_delay_ms_def tcp_reconnect_delay_ms_def Let_def BC_UART_REOPEN_MS_INIT_def
      BC_UART_REOPEN_MS_MAX_def BC_TCP_RECONNECT_MS_INIT_def BC_TCP_RECONNECT_MS_MAX_def)

lemma uart_delay_pos: "uart_reopen_delay_ms n = Some d \<Longrightarrow> d > 0"
  by (auto simp: uart_delay reconnect_delay split: if_splits)

lemma uart_delay_none: "uart_reopen_delay_ms n = None \<longleftrightarrow> n \<ge> 23"
  by (auto simp: uart_delay reconnect_delay split: if_splits)

lemma schedule_reopen_fields [simp]:
  "ua_mode (uart_schedule_reopen os s) = ua_mode s"
  "ua_fd (uart_schedule_reopen os s) = (if ua_fd s \<ge> 0 then - 1 else ua_fd s)"
  "ua_de_value_fd (uart_schedule_reopen os s) = ua_de_value_fd s"
  "ua_timer_fd (uart_schedule_reopen os s) = ua_timer_fd s"
  "ua_reopen_armed (uart_schedule_reopen os s)" "\<not> ua_opened (uart_schedule_reopen os s)"
  "ua_retry_attempt (uart_schedule_reopen os s) = ua_retry_attempt s + 1"
  "ua_send_alloc (uart_schedule_reopen os s) = ua_send_alloc s"
  "ua_send_buf (uart_schedule_reopen os s) = ua_send_buf s" "ua_send_off (uart_schedule_reopen os s) = ua_send_off s"
  "ua_fault (uart_schedule_reopen os s) = (ua_fault s \<or> uart_reopen_delay_ms (ua_retry_attempt s) = None)"
  "ua_bound (uart_schedule_reopen os s) = ua_bound s"
  "ua_de_tx_active (uart_schedule_reopen os s) = (ua_de_tx_active s \<and> ua_mode s \<noteq> BC_UART_MODE_485)"
  by (auto simp: uart_schedule_reopen_def uart_timer_arm_def Let_def split: option.split)

lemma schedule_reopen_timer:
  "uo_timer_ok os \<Longrightarrow> ua_timer_fd s \<ge> 0 \<Longrightarrow> uart_reopen_delay_ms (ua_retry_attempt s) = Some d \<Longrightarrow>
     ua_timer_ms (uart_schedule_reopen os s) = d"
  by (simp add: uart_schedule_reopen_def uart_timer_arm_def Let_def)

lemma watch_fd_cases: "uart_watch_fd os e s = (rc, t) \<Longrightarrow> \<exists>m. t = s\<lparr>ua_events := m\<rparr>"
proof -
  assume "uart_watch_fd os e s = (rc, t)"
  then have "t = s\<lparr>ua_events := ua_events s\<rparr> \<or> t = s\<lparr>ua_events := e\<rparr>"
    by (auto simp: uart_watch_fd_def split: if_splits)
  then show ?thesis by blast
qed

section \<open>The invariant\<close>

definition uart_wf :: "uart_impl \<Rightarrow> bool" where
  "uart_wf s \<longleftrightarrow> ua_fd s \<ge> - 1 \<and> (ua_opened s \<longleftrightarrow> ua_fd s \<ge> 0) \<and>
     ua_send_off s \<le> length (ua_send_buf s) \<and> (ua_send_buf s \<noteq> [] \<longrightarrow> ua_send_alloc s) \<and>
     (ua_de_tx_active s \<longrightarrow> ua_mode s = BC_UART_MODE_485 \<and> ua_opened s \<and> (ua_de_value_fd s \<ge> 0 \<longrightarrow> ua_de_level s)) \<and>
     ua_timer_fd s \<ge> 0"

definition uart_live :: "bool \<Rightarrow> uart_impl \<Rightarrow> bool" where
  "uart_live b s \<longleftrightarrow> (ua_opened s \<longleftrightarrow> \<not> ua_reopen_armed s) \<and>
     (b \<longrightarrow> ua_reopen_armed s \<longrightarrow> ua_timer_ms s > 0 \<or> ua_retry_attempt s \<ge> 24)"

definition uart_os_sane :: "bool \<Rightarrow> uart_os \<Rightarrow> bool" where
  "uart_os_sane b os \<longleftrightarrow> uo_open os \<ge> - 1 \<and> (b \<longrightarrow> uo_timer_ok os)"

lemma uart_wf_updates [simp]:
  "uart_wf (s\<lparr>ua_events := e\<rparr>) = uart_wf s" "uart_wf (s\<lparr>ua_timer_ms := ms\<rparr>) = uart_wf s"
  "uart_wf (s\<lparr>ua_reopen_armed := b\<rparr>) = uart_wf s" "uart_wf (s\<lparr>ua_retry_attempt := n\<rparr>) = uart_wf s"
  "uart_wf (s\<lparr>ua_bound := b\<rparr>) = uart_wf s" "uart_live c (s\<lparr>ua_events := e\<rparr>) = uart_live c s"
  "uart_live c (s\<lparr>ua_bound := b\<rparr>) = uart_live c s" "uart_live c (s\<lparr>ua_send_off := k\<rparr>) = uart_live c s"
  "uart_wf (s\<lparr>ua_fault := f\<rparr>) = uart_wf s"
  by (simp_all add: uart_wf_def uart_live_def)

lemma schedule_reopen_wf: "uart_wf s \<Longrightarrow> uart_wf (uart_schedule_reopen os s)"
  by (auto simp: uart_wf_def)

lemma schedule_reopen_live:
  "uart_wf s \<Longrightarrow> uart_os_sane b os \<Longrightarrow> uart_live b (uart_schedule_reopen os s)"
  using schedule_reopen_timer [of os s] uart_delay_pos uart_delay_none [of "ua_retry_attempt s"]
  by (cases "uart_reopen_delay_ms (ua_retry_attempt s)") (auto simp: uart_live_def uart_wf_def uart_os_sane_def)

lemma watch_fd_wf:
  assumes "uart_watch_fd os e s = (rc, t)"
  shows "uart_wf t = uart_wf s" "uart_live b t = uart_live b s" "ua_send_buf t = ua_send_buf s" "ua_send_off t = ua_send_off s"
  using watch_fd_cases [OF assms] by auto

lemma tx_enable_wf:
  assumes "uart_rs485_tx_enable os s = (rc, t)" "ua_opened s"
  shows "uart_wf s \<Longrightarrow> uart_wf t" "uart_live b t = uart_live b s" "ua_send_buf t = ua_send_buf s"
    "ua_send_off t = ua_send_off s" "ua_opened t" "ua_fd t = ua_fd s"
  using assms by (auto simp: uart_rs485_tx_enable_def gpio_set_value_def uart_wf_def uart_live_def split: if_splits)

lemma tx_disable_wf: "uart_wf s \<Longrightarrow> uart_wf (uart_rs485_tx_disable os s)"
  by (auto simp: uart_wf_def)

lemma tx_disable_live: "uart_live b (uart_rs485_tx_disable os s) = uart_live b s"
  by (simp add: uart_live_def)

lemma device_open_cases:
  assumes "uart_device_open os cfg s = (rc, t)" "uart_wf s" "\<not> ua_opened s" "uart_os_sane b os"
  shows "rc = BC_OK \<and> ua_opened t \<and> uart_wf t \<and> ua_reopen_armed t = ua_reopen_armed s \<and>
      ua_send_buf t = ua_send_buf s \<and> ua_send_off t = ua_send_off s \<or>
    rc = BC_ERR_IO \<and> uart_wf t \<and> ua_send_buf t = ua_send_buf s \<and> ua_send_off t = ua_send_off s"
  using assms by (auto simp: uart_device_open_def uart_apply_termios_def uart_wf_def uart_os_sane_def Let_def split: if_splits)

lemma try_reopen_step:
  assumes "uart_try_reopen os cfg s = (rc, t)" "uart_wf s" "\<not> ua_opened s" "uart_os_sane b os"
  shows "uart_wf t \<and> uart_live b t \<and> ua_send_buf t = ua_send_buf s \<and> ua_send_off t = ua_send_off s"
proof -
  obtain rc1 s1 where o: "uart_device_open os cfg s = (rc1, s1)" by force
  note c = device_open_cases [OF o assms(2-4)]
  show ?thesis
  proof (cases "rc1 = BC_OK")
    case True
    then have s1: "ua_opened s1" "uart_wf s1" "ua_send_buf s1 = ua_send_buf s" "ua_send_off s1 = ua_send_off s"
      using c by auto
    define s2 where "s2 = s1\<lparr>ua_retry_attempt := 0, ua_reopen_armed := False\<rparr>"
    have w: "uart_watch_fd os (uart_epoll_events s2) s2 = (rc, t)"
      using assms(1) True o by (simp add: uart_try_reopen_def s2_def Let_def)
    have "uart_wf s2" "uart_live b s2" using s1 by (simp_all add: s2_def uart_live_def)
    then show ?thesis using watch_fd_wf [OF w] s1 by (simp add: s2_def)
  next
    case False
    then have "t = uart_schedule_reopen os s1" using assms(1) o by (simp add: uart_try_reopen_def)
    then show ?thesis using c False schedule_reopen_wf schedule_reopen_live assms(4) by auto
  qed
qed

lemma timer_loop_step:
  "uart_wf s \<Longrightarrow> uart_live b s \<Longrightarrow> list_all (uart_os_sane b) oss \<Longrightarrow>
     uart_wf (uart_timer_loop cfg oss s) \<and> ua_send_buf (uart_timer_loop cfg oss s) = ua_send_buf s \<and>
     ua_send_off (uart_timer_loop cfg oss s) = ua_send_off s \<and> uart_live b (uart_timer_loop cfg oss s)"
proof (induction oss arbitrary: s)
  case Nil
  then show ?case by simp
next
  case (Cons os oss)
  show ?case
  proof (cases "ua_reopen_armed s")
    case True
    define s1 where "s1 = s\<lparr>ua_timer_ms := 0, ua_reopen_armed := False\<rparr>"
    obtain rc t where t: "uart_try_reopen os cfg s1 = (rc, t)" by force
    have "uart_wf s1" "\<not> ua_opened s1" using Cons.prems True by (simp_all add: s1_def uart_live_def)
    with try_reopen_step [OF t, of b] Cons.prems(3)
    have s: "uart_wf t" "uart_live b t" "ua_send_buf t = ua_send_buf s" "ua_send_off t = ua_send_off s"
      by (simp_all add: s1_def)
    have "uart_timer_loop cfg (os # oss) s = uart_timer_loop cfg oss t"
      using True t by (simp add: s1_def Let_def)
    then show ?thesis using Cons.IH [OF s(1,2)] Cons.prems(3) s(3,4) by simp
  next
    case False
    have "uart_live b (s\<lparr>ua_timer_ms := 0\<rparr>)" using Cons.prems(2) False by (simp add: uart_live_def)
    then show ?thesis using Cons.IH [of "s\<lparr>ua_timer_ms := 0\<rparr>"] Cons.prems False by (simp add: Let_def)
  qed
qed

section \<open>Sending\<close>

definition uart_pending :: "uart_impl \<Rightarrow> byte list" where
  "uart_pending s = drop (ua_send_off s) (ua_send_buf s)"

definition uart_ok :: "bool \<Rightarrow> uart_impl \<Rightarrow> bool" where
  "uart_ok b s \<longleftrightarrow> uart_wf s \<and> uart_live b s"

text \<open>
  A frame that was put into the queue is sent later, also when the registration for writing that
  follows fails and the caller is told so. These two functions count such a frame as taken.
\<close>

definition uart_queued :: "uart_impl \<Rightarrow> uart_impl \<Rightarrow> bool" where
  "uart_queued s t \<longleftrightarrow> ua_send_buf t \<noteq> ua_send_buf s"

definition uart_enqueue :: "uart_os \<Rightarrow> byte list \<Rightarrow> uart_impl \<Rightarrow> bc_status \<times> uart_impl" where
  "uart_enqueue os d s = (case uart_queue_send os d s of (rc, t) \<Rightarrow> (if uart_queued s t then BC_OK else rc, t))"

lemma pending_eq: "ua_send_buf t = ua_send_buf s \<Longrightarrow> ua_send_off t = ua_send_off s \<Longrightarrow> uart_pending t = uart_pending s"
  by (simp add: uart_pending_def)

lemma queue_wf:
  "uart_wf s \<Longrightarrow> uart_wf (s\<lparr>ua_send_alloc := True, ua_send_buf := ua_send_buf s @ d, ua_fault := f\<rparr>)"
  by (auto simp: uart_wf_def)

lemma uart_ensure_send_cap_eq:
  "uart_ensure_send_cap os need s =
     (if need > BC_UART_SEND_CAP \<or> \<not> ua_send_alloc s \<and> \<not> uo_malloc os then (BC_ERR_NOMEM, s)
      else (BC_OK, s\<lparr>ua_send_alloc := True\<rparr>))"
proof -
  have "ua_send_alloc s \<Longrightarrow> s\<lparr>ua_send_alloc := True\<rparr> = s" by (cases s) simp
  then show ?thesis by (simp add: uart_ensure_send_cap_def)
qed

lemma uart_queue_send_law:
  assumes "uart_ok b s" "uart_queue_send os d s = (rc, t)"
  shows "uart_ok b t \<and> uart_pending t = (if rc = BC_OK \<or> uart_queued s t then uart_pending s @ d else uart_pending s)"
proof -
  define f where "f = (ua_fault s \<or> length (ua_send_buf s) + length d > BC_UART_SEND_CAP)"
  define q where "q = s\<lparr>ua_send_alloc := True, ua_send_buf := ua_send_buf s @ d, ua_fault := f\<rparr>"
  have wf: "uart_wf s" "uart_live b s" using assms(1) by (simp_all add: uart_ok_def)
  have "rc \<noteq> BC_OK \<and> ua_send_buf t = ua_send_buf s \<and> t = s \<or> uart_watch_fd os (uart_epoll_events q) q = (rc, t)"
    using assms(2) by (simp add: uart_queue_send_def uart_ensure_send_cap_eq q_def f_def Let_def split: if_splits)
  moreover have "uart_ok b q" "uart_pending q = uart_pending s @ d"
    using queue_wf [OF wf(1), where d = d and f = f] wf by (auto simp: q_def f_def uart_ok_def uart_live_def uart_pending_def uart_wf_def)
  moreover have "uart_queued s t = (d \<noteq> [])" if "uart_watch_fd os (uart_epoll_events q) q = (rc, t)"
    using watch_fd_wf(3) [OF that] by (simp add: uart_queued_def q_def)
  ultimately show ?thesis using assms(1) watch_fd_wf [of os "uart_epoll_events q" q rc t]
    by (auto simp: uart_ok_def uart_pending_def uart_queued_def)
qed

lemma uart_enqueue_law:
  "uart_ok b s \<Longrightarrow> uart_enqueue os d s = (rc, t) \<Longrightarrow>
     uart_ok b t \<and> uart_pending t = (if rc = BC_OK then uart_pending s @ d else uart_pending s)"
  using uart_queue_send_law [of b s os d] by (auto simp: uart_enqueue_def split: prod.splits if_splits)

lemma uart_flush_loop_nil:
  "uart_flush_loop [] s = (if ua_send_off s \<ge> length (ua_send_buf s) then Drained else Blocked, [], s)"
  by (subst uart_flush_loop.simps) simp

lemma uart_flush_loop_cons:
  "uart_flush_loop (r # rs) s =
     (if ua_send_off s \<ge> length (ua_send_buf s) then (Drained, [], s)
      else case r of
          Done n \<Rightarrow>
            if n > 0 then
              (let n = min n (length (ua_send_buf s) - ua_send_off s) in
               case uart_flush_loop rs (s\<lparr>ua_send_off := ua_send_off s + n\<rparr>) of (d, out, t) \<Rightarrow>
                 (d, take n (drop (ua_send_off s) (ua_send_buf s)) @ out, t))
            else (Failed, [], s)
        | Error \<Rightarrow> (Failed, [], s)
        | Again \<Rightarrow> (Blocked, [], s))"
  by (subst uart_flush_loop.simps) simp

lemma uart_flush_loop_law:
  "uart_wf s \<Longrightarrow> uart_flush_loop rs s = (d, out, t) \<Longrightarrow>
     uart_wf t \<and> uart_live b t = uart_live b s \<and> out @ uart_pending t = uart_pending s \<and>
     (d = Drained \<longrightarrow> uart_pending t = [])"
proof (induction rs arbitrary: s d out t)
  case Nil
  then show ?case by (auto simp: uart_flush_loop_nil uart_pending_def split: if_splits)
next
  case (Cons r rs)
  show ?case
  proof (cases "ua_send_off s \<ge> length (ua_send_buf s) \<or> (\<forall>n. r \<noteq> Done n) \<or> r = Done 0")
    case True
    then show ?thesis using Cons.prems
      by (cases r) (auto simp: uart_flush_loop_cons uart_pending_def split: if_splits)
  next
    case False
    then obtain n where n: "r = Done n" "n > 0" "ua_send_off s < length (ua_send_buf s)" by auto
    define m where "m = min n (length (ua_send_buf s) - ua_send_off s)"
    define s1 where "s1 = s\<lparr>ua_send_off := ua_send_off s + m\<rparr>"
    obtain d1 out1 t1 where r1: "uart_flush_loop rs s1 = (d1, out1, t1)" by (metis prod_cases3)
    have eq: "d = d1" "t = t1" "out = take m (uart_pending s) @ out1"
      using Cons.prems(2) n r1
      by (simp_all add: uart_flush_loop_cons m_def [symmetric] s1_def [symmetric] uart_pending_def)
    have "uart_wf s1" using Cons.prems(1) n by (auto simp: s1_def m_def uart_wf_def)
    note IH = Cons.IH [OF this r1]
    have "uart_pending s1 = drop m (uart_pending s)" by (simp add: uart_pending_def s1_def add.commute)
    then have "out @ uart_pending t = uart_pending s" using eq IH by (metis append_assoc append_take_drop_id)
    then show ?thesis using IH eq by (simp add: s1_def)
  qed
qed

lemma uart_flush_send_law:
  assumes "uart_ok b s" "uart_os_sane b os" "uart_flush_send os rs s = (rc, out, t)"
  shows "uart_ok b t \<and> out @ uart_pending t = uart_pending s"
proof (cases "\<not> ua_opened s \<or> ua_fd s < 0")
  case True
  then show ?thesis using assms by (simp add: uart_flush_send_def)
next
  case is_open: False
  have wf: "uart_wf s" "uart_live b s" using assms(1) by (simp_all add: uart_ok_def)
  obtain rc1 s1 where e: "(if ua_send_off s < length (ua_send_buf s) then uart_rs485_tx_enable os s else (BC_OK, s)) = (rc1, s1)"
    by force
  then have s1: "uart_wf s1" "uart_live b s1" "uart_pending s1 = uart_pending s"
    using tx_enable_wf [of os s rc1 s1] wf is_open by (auto simp: uart_pending_def split: if_splits)
  have f: "uart_flush_send os rs s =
     (if rc1 \<noteq> BC_OK then (BC_ERR_IO, [], s1)
      else case uart_flush_loop rs s1 of
              (Blocked, out, impl) \<Rightarrow> (case uart_watch_fd os (uart_epoll_events impl) impl of (rc, impl) \<Rightarrow> (rc, out, impl))
            | (Failed, out, impl) \<Rightarrow> (BC_ERR_IO, out, uart_schedule_reopen os impl)
            | (Drained, out, impl) \<Rightarrow>
                (let impl = uart_rs485_tx_disable os (uart_clear_send_queue impl) in
                 case uart_watch_fd os (uart_epoll_events impl) impl of (rc, impl) \<Rightarrow> (rc, out, impl)))"
    unfolding uart_flush_send_def e using is_open by simp
  show ?thesis
  proof (cases "rc1 = BC_OK")
    case False
    then show ?thesis using f assms(3) s1 by (simp add: uart_ok_def)
  next
    case True
    obtain d out1 u where l: "uart_flush_loop rs s1 = (d, out1, u)" by (metis prod_cases3)
    note k = uart_flush_loop_law [OF s1(1) l]
    show ?thesis
    proof (cases d)
      case Drained
      define v where "v = uart_rs485_tx_disable os (uart_clear_send_queue u)"
      have "uart_wf (uart_clear_send_queue u)" "uart_live b (uart_clear_send_queue u)"
        using k s1(2) by (auto simp: uart_wf_def uart_live_def uart_clear_send_queue_def)
      then have v: "uart_wf v" "uart_live b v" "uart_pending v = []"
        using tx_disable_wf by (simp_all add: v_def tx_disable_live uart_pending_def uart_clear_send_queue_def)
      have w: "uart_watch_fd os (uart_epoll_events v) v = (rc, t)" "out = out1"
        using f assms(3) True l Drained by (auto simp: v_def Let_def split: prod.splits)
      have "uart_pending t = []" using watch_fd_wf [OF w(1)] v(3) pending_eq by metis
      moreover have "out1 = uart_pending s" using k [of b] Drained s1(3) by auto
      ultimately show ?thesis using watch_fd_wf [OF w(1)] v w(2) by (simp add: uart_ok_def)
    next
      case Blocked
      then have w: "uart_watch_fd os (uart_epoll_events u) u = (rc, t)" "out = out1"
        using f assms(3) True l by (auto split: prod.splits)
      show ?thesis using watch_fd_wf [OF w(1)] k w(2) s1 by (simp add: uart_ok_def uart_pending_def)
    next
      case Failed
      then have "t = uart_schedule_reopen os u" "out = out1" using f assms(3) True l by simp_all
      then show ?thesis using k s1 schedule_reopen_wf schedule_reopen_live assms(2)
        by (simp add: uart_ok_def uart_pending_def)
    qed
  qed
qed

interpretation uart_tx: byte_queue "uart_ok b" uart_pending "\<lambda>s d. uart_enqueue os d s"
    "\<lambda>(os, rs) s. if uart_os_sane b os then (case uart_flush_send os rs s of (rc, out, t) \<Rightarrow> (out, t)) else ([], s)" for b os
proof (unfold_locales, goal_cases)
  case (1 s d rc s')
  then show ?case using uart_enqueue_law by blast
next
  case (2 s r out s')
  then show ?case using uart_flush_send_law by (auto split: prod.splits if_splits)
qed

lemma uart_send_loop_nil:
  "uart_send_loop os [] d s =
     (if d = [] then (BC_OK, [], uart_rs485_tx_disable os s)
      else case uart_queue_send os d s of (rc, t) \<Rightarrow> (rc, [], t))"
  by (subst uart_send_loop.simps) simp

lemma uart_send_loop_cons:
  "uart_send_loop os (r # rs) d s =
     (if d = [] then (BC_OK, [], uart_rs485_tx_disable os s)
      else case r of
          Done n \<Rightarrow>
            if n > 0 then (case uart_send_loop os rs (drop n d) s of (rc, out, t) \<Rightarrow> (rc, take n d @ out, t))
            else (BC_ERR_IO, [], uart_schedule_reopen os s)
        | Error \<Rightarrow> (BC_ERR_IO, [], uart_schedule_reopen os s)
        | Again \<Rightarrow> (case uart_queue_send os d s of (rc, t) \<Rightarrow> (rc, [], t)))"
  by (subst uart_send_loop.simps) simp

lemma uart_schedule_ok: "uart_ok b s \<Longrightarrow> uart_os_sane b os \<Longrightarrow> uart_ok b (uart_schedule_reopen os s)"
  using schedule_reopen_wf schedule_reopen_live by (simp add: uart_ok_def)

lemma uart_pending_fields [simp]:
  "uart_pending (uart_schedule_reopen os s) = uart_pending s"
  "uart_pending (uart_rs485_tx_disable os s) = uart_pending s"
  "uart_queued s (uart_schedule_reopen os s) = False" "uart_queued s (uart_rs485_tx_disable os s) = False"
  "uart_queued s s = False"
  by (simp_all add: uart_pending_def uart_queued_def)

lemma uart_send_loop_law:
  assumes "uart_ok b s" "uart_os_sane b os" "uart_pending s = []"
  shows "uart_send_loop os rs d s = (rc, out, t) \<Longrightarrow>
    uart_ok b t \<and> out @ uart_pending t = (if rc = BC_OK \<or> uart_queued s t then d else out)"
proof (induction rs arbitrary: d rc out t)
  case Nil
  then show ?case using uart_queue_send_law [OF assms(1)] assms(1,3) tx_disable_wf
    by (cases "uart_queue_send os d s")
      (auto simp: uart_send_loop_nil uart_ok_def tx_disable_live split: if_splits)
next
  case (Cons r rs)
  show ?case
  proof (cases "d = [] \<or> (\<forall>n. r \<noteq> Done n) \<or> r = Done 0")
    case True
    then show ?thesis using Cons.prems uart_queue_send_law [OF assms(1)] assms(1,3) tx_disable_wf
        uart_schedule_ok [OF assms(1,2)]
      by (cases "uart_queue_send os d s"; cases r)
        (auto simp: uart_send_loop_cons uart_ok_def tx_disable_live split: if_splits)
  next
    case False
    then obtain n where n: "r = Done n" "n > 0" "d \<noteq> []" by auto
    obtain rc1 out1 t1 where l: "uart_send_loop os rs (drop n d) s = (rc1, out1, t1)" by (metis prod_cases3)
    then have "rc = rc1" "t = t1" "out = take n d @ out1"
      using Cons.prems n by (simp_all add: uart_send_loop_cons)
    then show ?thesis using Cons.IH [OF l] by (auto split: if_splits)
  qed
qed

lemma uart_send_law:
  assumes "uart_ok b s" "uart_os_sane b os" "uart_send os rs d s = (rc, out, t)"
  shows "uart_ok b t \<and> out @ uart_pending t = uart_pending s @ (if rc = BC_OK \<or> uart_queued s t then d else out)"
proof (cases "\<not> ua_opened s \<or> ua_fd s < 0")
  case True
  then show ?thesis using assms by (simp add: uart_send_def)
next
  case is_open: False
  show ?thesis
  proof (cases "uart_pending s = []")
    case False
    then obtain rc1 t1 where q: "uart_queue_send os d s = (rc1, t1)" "rc = rc1" "out = []" "t = t1"
      using assms(3) is_open by (cases "uart_queue_send os d s") (auto simp: uart_send_def uart_pending_def)
    then show ?thesis using uart_queue_send_law [OF assms(1) q(1)] by auto
  next
    case True
    obtain rc1 s1 where e: "uart_rs485_tx_enable os s = (rc1, s1)" by force
    have s1: "uart_ok b s1" "uart_pending s1 = []"
      using tx_enable_wf [OF e] is_open assms(1) True pending_eq [of s1 s] by (simp_all add: uart_ok_def)
    show ?thesis
    proof (cases "rc1 = BC_OK")
      case False
      then show ?thesis using assms(3) is_open True e s1 tx_enable_wf(3) [OF e]
        by (auto simp: uart_send_def uart_pending_def uart_queued_def)
    next
      case ok: True
      then have "uart_send_loop os rs d s1 = (rc, out, t)"
        using assms(3) is_open True e by (auto simp: uart_send_def uart_pending_def)
      from uart_send_loop_law [OF s1(1) assms(2) s1(2) this] show ?thesis using True tx_enable_wf(3) [OF e] is_open by (auto simp: uart_queued_def)
    qed
  qed
qed

section \<open>All calls\<close>

text \<open>The calls of the daemon on an open line, and what they take and write.\<close>

datatype uart_call = Send uart_os "io_result list" "byte list" | Receive uart_os sock_read
  | Event uart_os int u32 "uart_os list" "io_result list" | Bind uart_os

fun uart_step :: "bc_transport_config \<Rightarrow> uart_call \<Rightarrow> uart_impl \<Rightarrow> uart_impl \<times> byte list \<times> byte list" where
  "uart_step cfg (Send os rs d) s =
     (case uart_send os rs d s of (rc, out, t) \<Rightarrow> (t, if rc = BC_OK \<or> uart_queued s t then d else out, out))"
| "uart_step cfg (Receive os r) s = (case uart_recv os r s of (res, t) \<Rightarrow> (t, [], []))"
| "uart_step cfg (Event os fd events expirations sends) s =
     (case uart_handle_event os cfg fd events expirations sends s of (rc, out, t) \<Rightarrow> (t, [], out))"
| "uart_step cfg (Bind os) s = (case uart_bind_reactor os s of (rc, t) \<Rightarrow> (t, [], []))"

fun uart_run :: "bc_transport_config \<Rightarrow> uart_call list \<Rightarrow> uart_impl \<Rightarrow> uart_impl \<times> byte list \<times> byte list" where
  "uart_run cfg [] s = (s, [], [])"
| "uart_run cfg (c # cs) s =
     (case uart_step cfg c s of (s, a, w) \<Rightarrow> case uart_run cfg cs s of (t, acc, sent) \<Rightarrow> (t, a @ acc, w @ sent))"

fun uart_call_ok :: "bool \<Rightarrow> uart_call \<Rightarrow> bool" where
  "uart_call_ok b (Send os rs d) \<longleftrightarrow> uart_os_sane b os"
| "uart_call_ok b (Receive os r) \<longleftrightarrow> uart_os_sane b os"
| "uart_call_ok b (Event os fd events expirations sends) \<longleftrightarrow> uart_os_sane b os \<and> list_all (uart_os_sane b) expirations"
| "uart_call_ok b (Bind os) \<longleftrightarrow> True"

lemma uart_event_law:
  assumes "uart_ok b s" "uart_os_sane b os" "list_all (uart_os_sane b) oss"
    "uart_handle_event os cfg fd events oss sends s = (rc, out, t)"
  shows "uart_ok b t \<and> out @ uart_pending t = uart_pending s"
proof -
  consider "t = uart_timer_loop cfg oss s" "out = []" | "t = uart_schedule_reopen os s" "out = []"
    | rc1 where "uart_flush_send os sends s = (rc1, out, t)" | "t = s" "out = []"
    using assms(4) by (auto simp: uart_handle_event_def split: if_splits prod.splits)
  then show ?thesis
  proof cases
    case 1
    then show ?thesis using timer_loop_step [of s b oss cfg] assms(1,3) by (simp add: uart_ok_def uart_pending_def)
  next
    case 2
    then show ?thesis using uart_schedule_ok assms(1,2) by simp
  next
    case 3
    then show ?thesis using uart_flush_send_law assms(1,2) by blast
  qed (use assms(1) in simp)
qed

lemma uart_step_law:
  assumes "uart_ok b s" "uart_call_ok b c" "uart_step cfg c s = (t, a, w)"
  shows "uart_ok b t \<and> uart_pending s @ a = w @ uart_pending t"
proof (cases c)
  case (Send os rs d)
  then obtain rc where "uart_send os rs d s = (rc, w, t)" "a = (if rc = BC_OK \<or> uart_queued s t then d else w)"
    using assms(3) by (cases "uart_send os rs d s") auto
  then show ?thesis using uart_send_law [OF assms(1)] assms(2) Send by auto
next
  case (Receive os r)
  then have "t = s \<or> t = uart_schedule_reopen os s" "a = []" "w = []"
    using assms(3) by (auto simp: uart_recv_def split: if_splits sock_read.splits)
  then show ?thesis using uart_schedule_ok assms(1,2) Receive by auto
next
  case (Event os fd events oss sends)
  then obtain rc where "uart_handle_event os cfg fd events oss sends s = (rc, w, t)" "a = []"
    using assms(3) by (cases "uart_handle_event os cfg fd events oss sends s") auto
  then show ?thesis using uart_event_law [OF assms(1)] assms(2) Event by auto
next
  case (Bind os)
  define bd where "bd = s\<lparr>ua_bound := True\<rparr>"
  have b: "uart_ok b bd" "uart_pending bd = uart_pending s" using assms(1) by (simp_all add: bd_def uart_ok_def uart_pending_def)
  have "t = bd \<or> (\<exists>rc. uart_watch_fd os (uart_epoll_events bd) bd = (rc, t))" "a = []" "w = []"
    using assms(3) by (auto simp: Bind uart_bind_reactor_def bd_def Let_def split: if_splits prod.splits)
  then show ?thesis using b watch_fd_wf [of os "uart_epoll_events bd" bd] pending_eq [of t bd] by (auto simp: uart_ok_def)
qed

lemma uart_run_law:
  "uart_ok b s \<Longrightarrow> list_all (uart_call_ok b) cs \<Longrightarrow> uart_run cfg cs s = (t, acc, sent) \<Longrightarrow>
     uart_ok b t \<and> uart_pending s @ acc = sent @ uart_pending t"
proof (induction cs arbitrary: s t acc sent)
  case (Cons c cs)
  obtain s1 a w where st: "uart_step cfg c s = (s1, a, w)" by (metis prod_cases3)
  obtain t1 acc1 sent1 where r: "uart_run cfg cs s1 = (t1, acc1, sent1)" by (metis prod_cases3)
  have l: "uart_ok b s1 \<and> uart_pending s @ a = w @ uart_pending s1"
    using uart_step_law [OF Cons.prems(1) _ st] Cons.prems(2) by simp
  then have "uart_ok b t1 \<and> uart_pending s1 @ acc1 = sent1 @ uart_pending t1"
    using Cons.IH [OF _ _ r] Cons.prems(2) by simp
  then show ?case using l Cons.prems(3) st r by (metis (no_types, lifting) append_assoc case_prod_conv prod.inject uart_run.simps(2))
qed simp

lemma uart_open_ok:
  assumes "uart_open os cfg bc_uart_transport_init = (BC_OK, s)" "uart_os_sane b os"
  shows "uart_ok c s \<and> uart_pending s = []"
proof -
  define i where "i = bc_uart_transport_init\<lparr>ua_mode := tc_uart_mode cfg, ua_de_gpio := tc_rs485_de_gpio cfg,
     ua_de_value_fd := - 1, ua_timer_fd := uo_timer_fd os\<rparr>"
  obtain rc1 s1 where r: "uart_rs485_init os i = (rc1, s1)" by force
  obtain rc2 s2 where o: "uart_device_open os cfg s1 = (rc2, s2)" by force
  have rc: "rc1 = BC_OK" "rc2 = BC_OK" "s = s2" "\<not> uo_timer_fd os < 0"
    using assms(1) r o unfolding uart_open_def Let_def i_def [symmetric]
    by (auto simp: i_def split: if_splits)
  have s1: "uart_wf s1" "\<not> ua_opened s1" "\<not> ua_reopen_armed s1" "ua_send_buf s1 = []"
    using r rc(1,4)
    by (auto simp: i_def bc_uart_transport_init_def uart_rs485_init_def gpio_set_value_def uart_wf_def Let_def split: if_splits)
  then show ?thesis using device_open_cases [OF o s1(1,2) assms(2)] rc(2,3)
    by (auto simp: uart_ok_def uart_live_def uart_pending_def)
qed

text \<open>
  A send that fails may have given the device a first part of the frame, never anything else.
\<close>

lemma uart_send_loop_part: "uart_send_loop os rs d s = (rc, out, t) \<Longrightarrow> \<exists>k. out = take k d"
proof (induction rs arbitrary: d rc out t)
  case Nil
  then show ?case by (auto simp: uart_send_loop_nil split: if_splits prod.splits intro: exI [of _ 0])
next
  case (Cons r rs)
  have "out = [] \<or> (\<exists>n out1 rc1 t1. uart_send_loop os rs (drop n d) s = (rc1, out1, t1) \<and> out = take n d @ out1)"
    using Cons.prems by (auto simp: uart_send_loop_cons split: if_splits prod.splits io_result.splits)
  then consider "out = []" | n out1 rc1 t1 where "uart_send_loop os rs (drop n d) s = (rc1, out1, t1)" "out = take n d @ out1"
    by blast
  then show ?case
  proof cases
    case 1
    then show ?thesis by (intro exI [of _ 0]) simp
  next
    case 2
    then obtain k where "out = take n d @ take k (drop n d)" using Cons.IH by blast
    then show ?thesis by (intro exI [of _ "n + k"]) (simp add: take_add)
  qed
qed

lemma uart_send_part: "uart_send os rs d s = (rc, out, t) \<Longrightarrow> \<exists>k. out = take k d"
  by (auto simp: uart_send_def split: if_splits prod.splits intro: exI [of _ 0] dest: uart_send_loop_part)

text \<open>
  C35. A serial line that is closed has its reopening armed, whatever the daemon calls and in whatever way
  these calls fail: \<^verbatim>\<open>open\<close> gives a descriptor or fails, the other calls answer as they like. So the line is
  either open and not waiting, or closed and waiting, and the driver of a half-duplex line is enabled
  only while the line is open. That the timer of a waiting line runs needs two things more, which the code does not
  check: every setting of the timer succeeds (\<open>uart_call_ok True\<close>; the result of
  \<^verbatim>\<open>timerfd_settime\<close> is ignored, see \<open>reopen_timer_ignored\<close>), and fewer than 23 reopenings have failed one after
  another, since the delay of the next overflows (\<open>uart_reopen_overflow\<close>). Nothing is said on whether a line
  that was reopened could be registered with the reactor again.
\<close>
theorem uart_closed_waits:
  assumes "uart_open os cfg bc_uart_transport_init = (BC_OK, s)" "uart_os_sane False os"
    and "list_all (uart_call_ok False) cs" "uart_run cfg cs s = (t, acc, sent)"
  shows "(ua_opened t \<longleftrightarrow> ua_fd t \<ge> 0) \<and> (ua_opened t \<longleftrightarrow> \<not> ua_reopen_armed t) \<and>
    (ua_opened t \<or> \<not> ua_de_tx_active t) \<and> ua_send_off t \<le> length (ua_send_buf t) \<and>
    (list_all (uart_call_ok True) cs \<longrightarrow> ua_opened t \<or> ua_timer_ms t > 0 \<or> ua_retry_attempt t \<ge> 24)"
proof -
  have o: "uart_ok b s" for b using uart_open_ok [OF assms(1,2)] by blast
  have t: "list_all (uart_call_ok b) cs \<Longrightarrow> uart_ok b t" for b using uart_run_law [OF o _ assms(4)] by blast
  show ?thesis using t [of True] t [OF assms(3)] by (auto simp: uart_ok_def uart_wf_def uart_live_def)
qed

text \<open>
  C34. The serial line keeps the order of its bytes, also when it is closed and reopened and in whatever
  way the calls fail: the bytes the device took followed by those still queued are the frames taken, in
  order. A frame is taken when its send was reported successful, and also when it was put into the queue
  and only the registration for writing failed, which is reported as a failed send although
  the frame is sent later. Of any other frame whose send failed the device may have taken a first part
  (\<open>uart_send_part\<close>), which then stays in the stream. A run that sets \<open>ua_fault\<close> because the bytes stored go
  beyond the end of the send buffer is included, with the bytes the code writes out of bounds kept as
  if the buffer had room for them: for the code the statement describes such a run up to that point.
\<close>
theorem uart_stream_order:
  assumes "uart_open os cfg bc_uart_transport_init = (BC_OK, s)" "uart_os_sane False os"
    and "list_all (uart_call_ok False) cs" "uart_run cfg cs s = (t, acc, sent)"
  shows "acc = sent @ uart_pending t"
  using uart_run_law [OF _ assms(3,4)] uart_open_ok [OF assms(1,2)] by simp

text \<open>The result of setting the timer is ignored: if it fails, the line is closed for good.\<close>

lemma reopen_timer_ignored:
  assumes "\<not> uo_timer_ok os" "ua_timer_ms s = 0"
  shows "ua_fd (uart_schedule_reopen os s) < 0" "ua_reopen_armed (uart_schedule_reopen os s)"
    "ua_timer_ms (uart_schedule_reopen os s) = 0"
  using assms
  by (auto simp: uart_schedule_reopen_def uart_timer_arm_def uart_device_close_def uart_rs485_tx_disable_def
      gpio_set_value_def Let_def split: option.split)

text \<open>A frame that is queued and reported as failed.\<close>

lemma queued_yet_failed:
  assumes "ua_opened s" "ua_bound s" "ua_fd s \<ge> 0" "ua_send_alloc s" "uo_watch os \<noteq> BC_OK"
    "length (uart_pending s) + length d \<le> BC_UART_SEND_CAP"
  shows "\<exists>t. uart_queue_send os d s = (uo_watch os, t) \<and> ua_send_buf t = ua_send_buf s @ d"
  using assms by (simp add: uart_queue_send_def uart_ensure_send_cap_eq uart_pending_def uart_watch_fd_def Let_def)

definition calm_uart :: uart_os where
  "calm_uart = \<lparr>uo_open = 6, uo_tcsetattr = True, uo_watch = BC_OK, uo_timer_fd = 5, uo_timer_ok = True, uo_malloc = True,
     uo_gpio_exists = True, uo_gpio_export = None, uo_gpio_value_fd = 9, uo_gpio_seek = True, uo_gpio_write = True\<rparr>"

definition rs485_config :: bc_transport_config where
  "rs485_config = \<lparr>tc_name = str ''u'', tc_type = BC_TRANSPORT_UART, tc_endpoint = str ''/dev/ttyS1'', tc_local_port = 0,
     tc_baudrate = 9600, tc_tcp_listen = - 1, tc_kcp_conv = 0, tc_uart_mode = BC_UART_MODE_485, tc_rs485_de_gpio = 3\<rparr>"

definition sample_calls :: "uart_call list" where
  "sample_calls = [Bind calm_uart, Send calm_uart [Done 2, Again] [1, 2, 3, 4], Event calm_uart 6 EPOLLHUP [] [],
     Event calm_uart 5 EPOLLIN [calm_uart] [], Event calm_uart 6 EPOLLOUT [] [Done 1, Again]]"

lemmas uart_eval = sample_calls_def rs485_config_def calm_uart_def bc_uart_transport_init_def
  BC_UART_MODE_485_def BC_UART_MODE_232_def uart_open_def uart_rs485_init_def gpio_open_value_def gpio_export_def
  gpio_set_value_def uart_device_open_def uart_apply_termios_def uart_bind_reactor_def uart_watch_fd_def
  uart_send_def uart_rs485_tx_enable_def uart_rs485_tx_disable_def uart_send_loop_cons uart_send_loop_nil
  uart_queue_send_def uart_ensure_send_cap_def BC_UART_SEND_CAP_def BC_MAX_FRAME_LEN_def uart_handle_event_def
  EPOLLIN_def EPOLLOUT_def EPOLLHUP_def EPOLLERR_def uart_schedule_reopen_def uart_device_close_def
  uart_reopen_delay_ms_def uart_timer_arm_def uart_try_reopen_def uart_flush_send_def uart_flush_loop_cons
  BC_UART_REOPEN_MS_INIT_def

lemma sample_calls_ok: "list_all (uart_call_ok False) sample_calls" "uart_os_sane False calm_uart"
  "list_all (uart_call_ok True) sample_calls"
  by code_simp+

lemma sample_open_uart: "fst (uart_open calm_uart rs485_config bc_uart_transport_init) = BC_OK"
  by code_simp

lemma uart_closed_waits_witness:
  "\<exists>s t acc sent. uart_open calm_uart rs485_config bc_uart_transport_init = (BC_OK, s) \<and>
     uart_run rs485_config sample_calls s = (t, acc, sent) \<and> (ua_opened t \<longleftrightarrow> \<not> ua_reopen_armed t) \<and>
     (ua_opened t \<or> ua_timer_ms t > 0 \<or> ua_retry_attempt t \<ge> 24)"
proof -
  obtain s where s: "uart_open calm_uart rs485_config bc_uart_transport_init = (BC_OK, s)"
    using sample_open_uart by (metis prod.collapse)
  obtain t acc sent where r: "uart_run rs485_config sample_calls s = (t, acc, sent)" by (metis prod_cases3)
  from uart_closed_waits [OF s sample_calls_ok(2,1) r] s r sample_calls_ok(3) show ?thesis by blast
qed

lemma uart_stream_order_witness:
  "\<exists>s t. uart_open calm_uart rs485_config bc_uart_transport_init = (BC_OK, s) \<and>
     uart_run rs485_config sample_calls s = (t, [1, 2, 3, 4], [1, 2, 3]) \<and> [1, 2, 3, 4] = [1, 2, 3] @ uart_pending t"
proof -
  obtain s where s: "uart_open calm_uart rs485_config bc_uart_transport_init = (BC_OK, s)"
    using sample_open_uart by (metis prod.collapse)
  obtain t acc sent where r: "uart_run rs485_config sample_calls s = (t, acc, sent)" by (metis prod_cases3)
  have "s = snd (uart_open calm_uart rs485_config bc_uart_transport_init)" using s by simp
  moreover have "snd (uart_run rs485_config sample_calls (snd (uart_open calm_uart rs485_config bc_uart_transport_init))) =
      ([1, 2, 3, 4], [1, 2, 3])" by (simp add: uart_eval)
  ultimately have v: "acc = [1, 2, 3, 4]" "sent = [1, 2, 3]" using r by simp_all
  show ?thesis using uart_stream_order [OF s sample_calls_ok(2,1) r] s r unfolding v by (intro exI [of _ s] exI [of _ t]) simp
qed

section \<open>An idle line\<close>

text \<open>The receive loop of the daemon on a serial line: it reads until a read gives no data.\<close>

fun uart_drain :: "uart_os \<Rightarrow> sock_read list \<Rightarrow> uart_impl \<Rightarrow> byte list list \<times> uart_impl" where
  "uart_drain os [] s = ([], s)"
| "uart_drain os (r # rs) s =
     (case uart_recv os r s of
        (Inr d, t) \<Rightarrow> if d = [] then ([], t) else (case uart_drain os rs t of (ds, u) \<Rightarrow> (d # ds, u))
      | (Inl rc, t) \<Rightarrow> ([], t))"

lemma uart_drain_got:
  "ua_opened s \<Longrightarrow> ua_fd s \<ge> 0 \<Longrightarrow> \<not> ua_de_tx_active s \<Longrightarrow> list_all (\<lambda>d. d \<noteq> []) ds \<Longrightarrow>
     uart_drain os (map Got ds @ rs) s = (case uart_drain os rs s of (es, t) \<Rightarrow> (ds @ es, t))"
  by (induction ds) (auto simp: uart_recv_def split: prod.splits)

text \<open>
  The settings the line is opened with (\<^verbatim>\<open>VMIN\<close> and \<^verbatim>\<open>VTIME\<close> 0) make a read of an idle line return
  no bytes, and the code takes that for the loss of the device: however much input arrives, the
  loop that receives it ends by closing the device and starting the reopen timer, and until
  it fires every frame to be sent is refused.
\<close>
theorem uart_idle_read_closes:
  assumes "uart_wf s" "ua_opened s" "\<not> ua_de_tx_active s" "list_all (\<lambda>d. d \<noteq> []) ds"
    and "uart_drain os (map Got ds @ [Closed]) s = (es, t)"
  shows "es = ds \<and> ua_fd t = - 1 \<and> ua_reopen_armed t \<and> uart_send os' rs d t = (BC_ERR_IO, [], t)"
proof -
  have fd: "ua_fd s \<ge> 0" using assms(1,2) by (simp add: uart_wf_def)
  have "uart_drain os [Closed] s = ([], uart_schedule_reopen os s)"
    using assms(2,3) fd by (simp add: uart_recv_def)
  then have "es = ds" "t = uart_schedule_reopen os s"
    using uart_drain_got [OF assms(2) fd assms(3,4), of os "[Closed]"] assms(5) by simp_all
  then show ?thesis using fd by (simp add: uart_send_def)
qed

definition open_line :: uart_impl where
  "open_line = bc_uart_transport_init\<lparr>ua_fd := 6, ua_opened := True, ua_timer_fd := 5, ua_bound := True\<rparr>"

lemma open_line_ok: "uart_wf open_line" "ua_opened open_line" "\<not> ua_de_tx_active open_line"
  by (simp_all add: open_line_def bc_uart_transport_init_def uart_wf_def)

lemma uart_idle_read_closes_witness:
  "\<exists>es t. uart_drain calm_uart (map Got [[1, 2], [3]] @ [Closed]) open_line = (es, t) \<and> es = [[1, 2], [3]] \<and>
     ua_fd t = - 1 \<and> ua_reopen_armed t \<and> uart_send calm_uart [] [9] t = (BC_ERR_IO, [], t)"
proof -
  obtain es t where e: "uart_drain calm_uart (map Got [[1, 2], [3]] @ [Closed]) open_line = (es, t)" by force
  have "list_all (\<lambda>d. d \<noteq> []) [[1 :: byte, 2], [3]]" by simp
  from uart_idle_read_closes [OF open_line_ok this e] e show ?thesis by blast
qed

section \<open>A missing device\<close>

text \<open>The timer fires and the device does not open.\<close>

definition uart_failed_reopen :: "uart_os \<Rightarrow> bc_transport_config \<Rightarrow> uart_impl \<Rightarrow> uart_impl" where
  "uart_failed_reopen os cfg s = snd (snd (uart_handle_event os cfg (ua_timer_fd s) EPOLLIN [os] [] s))"

lemma failed_reopen_step:
  assumes "ua_reopen_armed s" "uo_open os = - 1"
  shows "ua_reopen_armed (uart_failed_reopen os cfg s)"
    "ua_retry_attempt (uart_failed_reopen os cfg s) = ua_retry_attempt s + 1"
    "ua_fault (uart_failed_reopen os cfg s) = (ua_fault s \<or> uart_reopen_delay_ms (ua_retry_attempt s) = None)"
  using assms by (simp_all add: uart_failed_reopen_def uart_handle_event_def EPOLLIN_def uart_try_reopen_def
      uart_device_open_def Let_def)

lemma failed_reopens:
  assumes "ua_reopen_armed s" "uo_open os = - 1" "ua_retry_attempt s = 1" "\<not> ua_fault s"
  shows "ua_reopen_armed ((uart_failed_reopen os cfg ^^ k) s) \<and>
    ua_retry_attempt ((uart_failed_reopen os cfg ^^ k) s) = int k + 1 \<and>
    ua_fault ((uart_failed_reopen os cfg ^^ k) s) = (k \<ge> 23)"
proof (induction k)
  case 0
  then show ?case using assms by simp
next
  case (Suc k)
  have "(uart_reopen_delay_ms (int k + 1) = None) = (k \<ge> 22)" by (auto simp: uart_delay backoff_none)
  then show ?case using Suc failed_reopen_step [OF _ assms(2), of "(uart_failed_reopen os cfg ^^ k) s" cfg] by auto
qed

text \<open>
  A device that stays away: the delays double and stay at thirty seconds, but the count of the
  attempts goes on, and with the twenty-third failure after the loss the computation of
  the delay overflows.
\<close>
lemma uart_reopen_overflow:
  assumes "uart_wf s" "ua_retry_attempt s = 0" "\<not> ua_fault s" "uo_open os = - 1"
  shows "ua_fault ((uart_failed_reopen os cfg ^^ k) (uart_schedule_reopen os s)) = (k \<ge> 23)"
  using failed_reopens [where s = "uart_schedule_reopen os s" and k = k and cfg = cfg] assms
  by (simp add: uart_delay reconnect_delay)

end
