(* ===== verification/Reactor.thy ===== *)
theory Reactor
  imports Prelude
begin

text \<open>
  \<^verbatim>\<open>src/daemon/reactor.c\<close>: the registered descriptors, each with an item that holds its callback
  (\<open>'c\<close>: the function with its user pointer), and the loop that calls them. An item has an address
  \<open>ev_ptr\<close>; \<open>re_next\<close> is the next address the allocator gives out. \<open>re_kernel\<close> is the epoll set, from
  descriptors to the address and mask registered. An argument \<open>ok\<close> gives (allocation succeeds,
  \<^verbatim>\<open>epoll_ctl\<close> does not fail for reasons of its own).
\<close>

record 'c reactor_event =
  ev_ptr :: nat
  ev_fd :: int
  ev_cb :: 'c

record 'c bc_reactor =
  re_epoll_fd :: int
  re_stop :: bool
  re_events :: "'c reactor_event list"
  re_next :: nat
  re_kernel :: "int \<Rightarrow> (nat \<times> u32) option"

definition find_event :: "'c bc_reactor \<Rightarrow> int \<Rightarrow> 'c reactor_event option" where
  "find_event reactor fd = find (\<lambda>item. ev_fd item = fd) (re_events reactor)"

definition link_event :: "'c bc_reactor \<Rightarrow> 'c reactor_event \<Rightarrow> 'c bc_reactor" where
  "link_event reactor item = reactor\<lparr>re_events := item # re_events reactor\<rparr>"

fun unlink_first :: "int \<Rightarrow> 'c reactor_event list \<Rightarrow> 'c reactor_event list" where
  "unlink_first fd [] = []"
| "unlink_first fd (item # items) = (if ev_fd item = fd then items else item # unlink_first fd items)"

definition unlink_event :: "'c bc_reactor \<Rightarrow> int \<Rightarrow> 'c bc_reactor" where
  "unlink_event reactor fd = reactor\<lparr>re_events := unlink_first fd (re_events reactor)\<rparr>"

definition bc_reactor_init :: "int \<Rightarrow> bc_status \<times> 'c bc_reactor" where
  "bc_reactor_init epoll_fd =
     (if epoll_fd \<ge> 0 then BC_OK else BC_ERR_IO,
      \<lparr>re_epoll_fd = epoll_fd, re_stop = False, re_events = [], re_next = 0, re_kernel = (\<lambda>_. None)\<rparr>)"

definition bc_reactor_close :: "'c bc_reactor \<Rightarrow> 'c bc_reactor" where
  "bc_reactor_close reactor =
     (let reactor = reactor\<lparr>re_events := []\<rparr> in
      if re_epoll_fd reactor \<ge> 0 then reactor\<lparr>re_epoll_fd := - 1, re_kernel := (\<lambda>_. None)\<rparr> else reactor)"

definition bc_reactor_add :: "bool \<times> bool \<Rightarrow> int \<Rightarrow> u32 \<Rightarrow> 'c \<Rightarrow> 'c bc_reactor \<Rightarrow> bc_status \<times> 'c bc_reactor" where
  "bc_reactor_add ok fd events cb reactor =
     (if \<not> fst ok then (BC_ERR_NOMEM, reactor)
      else
        let item = \<lparr>ev_ptr = re_next reactor, ev_fd = fd, ev_cb = cb\<rparr>;
            reactor = reactor\<lparr>re_next := re_next reactor + 1\<rparr> in
        if \<not> snd ok \<or> re_kernel reactor fd \<noteq> None then (BC_ERR_IO, reactor)
        else (BC_OK, link_event (reactor\<lparr>re_kernel := (re_kernel reactor)(fd \<mapsto> (ev_ptr item, events))\<rparr>) item))"

fun set_item :: "int \<Rightarrow> 'c \<Rightarrow> 'c reactor_event list \<Rightarrow> 'c reactor_event list" where
  "set_item fd cb [] = []"
| "set_item fd cb (item # items) =
     (if ev_fd item = fd then item\<lparr>ev_cb := cb\<rparr> # items else item # set_item fd cb items)"

text \<open>The item is changed before the system call, also when that fails.\<close>

definition bc_reactor_mod :: "bool \<times> bool \<Rightarrow> int \<Rightarrow> u32 \<Rightarrow> 'c \<Rightarrow> 'c bc_reactor \<Rightarrow> bc_status \<times> 'c bc_reactor" where
  "bc_reactor_mod ok fd events cb reactor =
     (case find_event reactor fd of
        None \<Rightarrow> (BC_ERR_NOT_FOUND, reactor)
      | Some item \<Rightarrow>
          let reactor = reactor\<lparr>re_events := set_item fd cb (re_events reactor)\<rparr> in
          if \<not> snd ok \<or> re_kernel reactor fd = None then (BC_ERR_IO, reactor)
          else (BC_OK, reactor\<lparr>re_kernel := (re_kernel reactor)(fd \<mapsto> (ev_ptr item, events))\<rparr>))"

definition bc_reactor_del :: "int \<Rightarrow> 'c bc_reactor \<Rightarrow> 'c bc_reactor" where
  "bc_reactor_del fd reactor = unlink_event (reactor\<lparr>re_kernel := (re_kernel reactor)(fd := None)\<rparr>) fd"

definition bc_reactor_stop :: "'c bc_reactor \<Rightarrow> 'c bc_reactor" where
  "bc_reactor_stop reactor = reactor\<lparr>re_stop := True\<rparr>"

section \<open>The loop\<close>

text \<open>
  \<open>call\<close> runs a callback on the reactor and the rest of the program. A batch is what
  one \<^verbatim>\<open>epoll_wait\<close> returns: addresses of items with the events on them. \<open>None\<close>: an item is used
  that has been freed.
\<close>

type_synonym ('c, 'w) dispatch = "'c \<Rightarrow> int \<Rightarrow> u32 \<Rightarrow> 'c bc_reactor \<times> 'w \<Rightarrow> 'c bc_reactor \<times> 'w"

fun run_batch :: "('c, 'w) dispatch \<Rightarrow> (nat \<times> u32) list \<Rightarrow> 'c bc_reactor \<times> 'w \<Rightarrow> ('c bc_reactor \<times> 'w) option" where
  "run_batch call [] st = Some st"
| "run_batch call ((ptr, events) # batch) st =
     (case find (\<lambda>item. ev_ptr item = ptr) (re_events (fst st)) of
        None \<Rightarrow> None
      | Some item \<Rightarrow> run_batch call batch (call (ev_cb item) (ev_fd item) events st))"

text \<open>The results of the successive waits, where \<open>None\<close> is a wait that failed; the list ends the run.\<close>

fun bc_reactor_run :: "('c, 'w) dispatch \<Rightarrow> (nat \<times> u32) list option list \<Rightarrow> 'c bc_reactor \<times> 'w \<Rightarrow> ('c bc_reactor \<times> 'w) option" where
  "bc_reactor_run call [] st = Some st"
| "bc_reactor_run call (wait # waits) st =
     (if re_stop (fst st) then Some st
      else case wait of
          None \<Rightarrow> bc_reactor_run call waits st
        | Some batch \<Rightarrow>
            (case run_batch call batch st of None \<Rightarrow> None | Some st \<Rightarrow> bc_reactor_run call waits st))"

section \<open>The registry\<close>

text \<open>
  What the users of the reactor rely on: a table of descriptors with callback and mask. The
  transports register a descriptor by modifying its entry and, if that fails, adding one.
\<close>

locale event_registry =
  fixes wf :: "'s \<Rightarrow> bool" and entry :: "'s \<Rightarrow> int \<Rightarrow> ('c \<times> u32) option"
    and add modify :: "'o \<Rightarrow> int \<Rightarrow> u32 \<Rightarrow> 'c \<Rightarrow> 's \<Rightarrow> bc_status \<times> 's" and del :: "int \<Rightarrow> 's \<Rightarrow> 's"
  assumes add_law: "wf s \<Longrightarrow> add ok fd e c s = (rc, s') \<Longrightarrow>
      wf s' \<and> entry s' = (if rc = BC_OK then (entry s)(fd \<mapsto> (c, e)) else entry s) \<and> (rc = BC_OK \<longrightarrow> entry s fd = None)"
    and mod_law: "wf s \<Longrightarrow> modify ok fd e c s = (rc, s') \<Longrightarrow>
      wf s' \<and> (rc = BC_OK \<longrightarrow> entry s' = (entry s)(fd \<mapsto> (c, e)) \<and> entry s fd \<noteq> None) \<and>
      (rc \<noteq> BC_OK \<longrightarrow> (\<forall>fd'. fd' \<noteq> fd \<longrightarrow> entry s' fd' = entry s fd') \<and> (entry s' fd = None \<longleftrightarrow> entry s fd = None))"
    and del_law: "wf s \<Longrightarrow> wf (del fd s) \<and> entry (del fd s) = (entry s)(fd := None)"
begin

definition watch :: "'o \<Rightarrow> 'o \<Rightarrow> int \<Rightarrow> u32 \<Rightarrow> 'c \<Rightarrow> 's \<Rightarrow> bc_status \<times> 's" where
  "watch ok1 ok2 fd e c s = (case modify ok1 fd e c s of (rc, s) \<Rightarrow> if rc = BC_OK then (BC_OK, s) else add ok2 fd e c s)"

lemma watch_law:
  assumes "wf s" "watch ok1 ok2 fd e c s = (rc, t)"
  shows "wf t \<and> (rc = BC_OK \<longrightarrow> entry t = (entry s)(fd \<mapsto> (c, e))) \<and> (\<forall>fd'. fd' \<noteq> fd \<longrightarrow> entry t fd' = entry s fd')"
proof -
  obtain rc1 s1 where m: "modify ok1 fd e c s = (rc1, s1)" by force
  note ml = mod_law [OF assms(1) m]
  show ?thesis
  proof (cases "rc1 = BC_OK")
    case True
    then show ?thesis using ml m assms(2) by (auto simp: watch_def)
  next
    case False
    then have a: "add ok2 fd e c s1 = (rc, t)" using m assms(2) by (simp add: watch_def)
    have al: "wf t \<and> entry t = (if rc = BC_OK then (entry s1)(fd \<mapsto> (c, e)) else entry s1)"
      using add_law [OF _ a] ml by blast
    have s1: "fd' \<noteq> fd \<Longrightarrow> entry s1 fd' = entry s fd'" for fd' using ml False by blast
    have "entry t = (entry s)(fd \<mapsto> (c, e))" if "rc = BC_OK"
      using al s1 that by (auto simp: fun_eq_iff)
    then show ?thesis using al s1 by auto
  qed
qed

end

text \<open>The items and the epoll set agree.\<close>

definition reactor_wf :: "'c bc_reactor \<Rightarrow> bool" where
  "reactor_wf r \<longleftrightarrow> distinct (map ev_fd (re_events r)) \<and> distinct (map ev_ptr (re_events r)) \<and>
     (\<forall>item \<in> set (re_events r). ev_ptr item < re_next r) \<and>
     (\<forall>fd. map_option fst (re_kernel r fd) = map_option ev_ptr (find_event r fd))"

definition reactor_entry :: "'c bc_reactor \<Rightarrow> int \<Rightarrow> ('c \<times> u32) option" where
  "reactor_entry r fd = (case (find_event r fd, re_kernel r fd) of
     (Some item, Some (_, events)) \<Rightarrow> Some (ev_cb item, events) | _ \<Rightarrow> None)"

lemma find_event_simps:
  "find_event (link_event r item) fd = (if ev_fd item = fd then Some item else find_event r fd)"
  "find_event (r\<lparr>re_kernel := k\<rparr>) fd = find_event r fd" "find_event (r\<lparr>re_next := n\<rparr>) fd = find_event r fd"
  by (simp_all add: find_event_def link_event_def)

lemma set_item_fds [simp]: "map ev_fd (set_item fd c xs) = map ev_fd xs" "map ev_ptr (set_item fd c xs) = map ev_ptr xs"
  by (induction xs) auto

lemma find_set_item:
  "find (\<lambda>item. ev_fd item = fd') (set_item fd c xs) =
     (if fd' = fd then map_option (\<lambda>item. item\<lparr>ev_cb := c\<rparr>) (find (\<lambda>item. ev_fd item = fd) xs)
      else find (\<lambda>item. ev_fd item = fd') xs)"
  by (induction xs) auto

lemma set_item_bound:
  "\<forall>item \<in> set xs. ev_ptr item < n \<Longrightarrow> item \<in> set (set_item fd c xs) \<Longrightarrow> ev_ptr item < n"
  by (induction xs) (auto split: if_splits)

lemma find_unlink:
  "distinct (map ev_fd xs) \<Longrightarrow> find (\<lambda>item. ev_fd item = fd') (unlink_first fd xs) =
     (if fd' = fd then None else find (\<lambda>item. ev_fd item = fd') xs)"
  by (induction xs) (auto simp: find_None_iff image_iff)

lemma unlink_subset: "set (unlink_first fd xs) \<subseteq> set xs"
  by (induction xs) auto

lemma unlink_distinct: "distinct (map f xs) \<Longrightarrow> distinct (map f (unlink_first fd xs))"
  using unlink_subset by (induction xs) (auto simp: subset_iff image_iff)

lemma find_event_None: "find_event r fd = None \<longleftrightarrow> fd \<notin> ev_fd ` set (re_events r)"
  by (auto simp: find_event_def find_None_iff)

lemma kernel_None: "reactor_wf r \<Longrightarrow> re_kernel r fd = None \<longleftrightarrow> find_event r fd = None"
  by (metis option.map_disc_iff reactor_wf_def)

lemma entry_None: "reactor_wf r \<Longrightarrow> reactor_entry r fd = None \<longleftrightarrow> find_event r fd = None"
  using kernel_None [of r fd] by (auto simp: reactor_entry_def split: option.splits)

interpretation registry: event_registry reactor_wf reactor_entry bc_reactor_add bc_reactor_mod bc_reactor_del
proof (unfold_locales, goal_cases)
  case (1 s ok fd e c rc s')
  show ?case
  proof (cases "rc = BC_OK")
    case True
    define item where "item = \<lparr>ev_ptr = re_next s, ev_fd = fd, ev_cb = c\<rparr>"
    define s1 where "s1 = s\<lparr>re_next := re_next s + 1, re_kernel := (re_kernel s)(fd \<mapsto> (re_next s, e))\<rparr>"
    have s': "s' = link_event s1 item" "re_kernel s fd = None"
      using 1(2) True by (auto simp: bc_reactor_add_def item_def s1_def Let_def simp del: not_None_eq split: if_splits)
    have f: "find_event s fd = None" using s'(2) kernel_None 1(1) by blast
    have fe: "find_event s' fd' = (if fd' = fd then Some item else find_event s fd')" for fd'
      by (auto simp: s' find_event_simps s1_def item_def)
    have "reactor_wf s'"
      using 1(1) f fe by (auto simp: reactor_wf_def find_event_None s'(1) link_event_def s1_def item_def)
    moreover have k: "re_kernel s' = (re_kernel s)(fd \<mapsto> (re_next s, e))"
      by (simp add: s'(1) s1_def link_event_def)
    then have "reactor_entry s' = (reactor_entry s)(fd \<mapsto> (c, e))"
      by (intro ext) (simp add: reactor_entry_def fe item_def)
    ultimately show ?thesis using True entry_None [OF 1(1)] f by simp
  next
    case False
    then obtain n where "s' = s\<lparr>re_next := n\<rparr>" "n \<ge> re_next s"
      using 1(2) by (auto simp: bc_reactor_add_def Let_def split: if_splits)
         (metis (no_types, lifting) bc_reactor.surjective bc_reactor.update_convs(4) le_refl)+
    then show ?thesis using 1(1) False by (auto simp: reactor_wf_def reactor_entry_def find_event_def)
  qed
next
  case (2 s ok fd e c rc s')
  show ?case
  proof (cases "find_event s fd")
    case None
    then show ?thesis using 2 by (simp add: bc_reactor_mod_def)
  next
    case (Some item)
    define s1 where "s1 = s\<lparr>re_events := set_item fd c (re_events s)\<rparr>"
    have fe: "find_event s1 fd' = (if fd' = fd then Some (item\<lparr>ev_cb := c\<rparr>) else find_event s fd')" for fd'
      using Some by (simp add: find_event_def s1_def find_set_item)
    have s1: "reactor_wf s1" "re_kernel s1 = re_kernel s"
      using 2(1) fe Some set_item_bound [of "re_events s" "re_next s" _ fd c]
      by (auto simp: reactor_wf_def s1_def)
    have p: "map_option fst (re_kernel s fd) = Some (ev_ptr item)" using 2(1) Some by (simp add: reactor_wf_def)
    show ?thesis
    proof (cases "rc = BC_OK")
      case False
      then have "s' = s1" using 2(2) Some by (auto simp: bc_reactor_mod_def s1_def Let_def split: if_splits)
      have "reactor_entry s1 fd' = reactor_entry s fd'" if "fd' \<noteq> fd" for fd'
        using that fe s1(2) by (simp add: reactor_entry_def)
      moreover have "reactor_entry s1 fd = None \<longleftrightarrow> reactor_entry s fd = None"
        using fe Some unfolding entry_None [OF 2(1)] entry_None [OF s1(1)] by simp
      ultimately show ?thesis using False s1(1) \<open>s' = s1\<close> by simp
    next
      case True
      then have s': "s' = s1\<lparr>re_kernel := (re_kernel s)(fd \<mapsto> (ev_ptr item, e))\<rparr>"
        using 2(2) Some by (auto simp: bc_reactor_mod_def s1_def Let_def split: if_splits)
      have "reactor_wf s'" using s1(1) fe by (auto simp: reactor_wf_def s' s1(2) find_event_simps)
      moreover have "reactor_entry s' = (reactor_entry s)(fd \<mapsto> (c, e))"
        by (rule ext) (auto simp: reactor_entry_def s' find_event_simps fe)
      ultimately show ?thesis using True entry_None [OF 2(1)] Some by simp
    qed
  qed
next
  case (3 s fd)
  have d: "distinct (map ev_fd (re_events s))" using 3 by (simp add: reactor_wf_def)
  have fe: "find_event (bc_reactor_del fd s) fd' = (if fd' = fd then None else find_event s fd')" for fd'
    using find_unlink [OF d] by (simp add: bc_reactor_del_def unlink_event_def find_event_def)
  have "reactor_wf (bc_reactor_del fd s)"
    using 3 fe unlink_subset [of fd "re_events s"] unlink_distinct [of ev_fd "re_events s" fd]
      unlink_distinct [of ev_ptr "re_events s" fd]
    by (auto simp: reactor_wf_def) (auto simp: bc_reactor_del_def unlink_event_def)
  moreover have "reactor_entry (bc_reactor_del fd s) = (reactor_entry s)(fd := None)"
  proof (rule ext)
    fix fd'
    have "re_kernel (bc_reactor_del fd s) = (re_kernel s)(fd := None)"
      by (simp add: bc_reactor_del_def unlink_event_def)
    then show "reactor_entry (bc_reactor_del fd s) fd' = ((reactor_entry s)(fd := None)) fd'"
      by (simp add: reactor_entry_def fe)
  qed
  ultimately show ?case by simp
qed

section \<open>Dispatch\<close>

definition live :: "nat \<Rightarrow> 'c bc_reactor \<Rightarrow> bool" where
  "live ptr r \<longleftrightarrow> (\<exists>item \<in> set (re_events r). ev_ptr item = ptr)"

text \<open>A callback that unregisters nothing but, perhaps, the descriptor it was called for.\<close>

definition own_only :: "('c, 'w) dispatch \<Rightarrow> bool" where
  "own_only call \<longleftrightarrow> (\<forall>c fd e r w r' w'. reactor_wf r \<longrightarrow> call c fd e (r, w) = (r', w') \<longrightarrow>
     reactor_wf r' \<and> (\<forall>item \<in> set (re_events r). ev_fd item \<noteq> fd \<longrightarrow> live (ev_ptr item) r'))"

lemma find_live: "find (\<lambda>item. ev_ptr item = p) (re_events r) = None \<longleftrightarrow> \<not> live p r"
  by (auto simp: find_None_iff live_def)

lemma wf_inj:
  "reactor_wf r \<Longrightarrow> a \<in> set (re_events r) \<Longrightarrow> b \<in> set (re_events r) \<Longrightarrow> ev_fd a = ev_fd b \<longleftrightarrow> ev_ptr a = ev_ptr b"
  by (metis (mono_tags, lifting) distinct_map inj_onD reactor_wf_def)

lemma run_batch_live:
  assumes "own_only call"
  shows "reactor_wf r \<Longrightarrow> distinct (map fst batch) \<Longrightarrow> list_all (\<lambda>(p, e). live p r) batch \<Longrightarrow>
    \<exists>r' w'. run_batch call batch (r, w) = Some (r', w') \<and> reactor_wf r'"
proof (induction batch arbitrary: r w)
  case (Cons pe batch)
  obtain p e where pe: "pe = (p, e)" by force
  obtain item where it: "find (\<lambda>item. ev_ptr item = p) (re_events r) = Some item"
    using Cons.prems(3) find_live [of p r] by (cases "find (\<lambda>item. ev_ptr item = p) (re_events r)") (auto simp: pe)
  then have item: "item \<in> set (re_events r)" "ev_ptr item = p" by (auto simp: find_Some_iff)
  obtain r1 w1 where c: "call (ev_cb item) (ev_fd item) e (r, w) = (r1, w1)" by force
  have k: "reactor_wf r1" "\<And>i. i \<in> set (re_events r) \<Longrightarrow> ev_fd i \<noteq> ev_fd item \<Longrightarrow> live (ev_ptr i) r1"
    using assms Cons.prems(1) c unfolding own_only_def by blast+
  have "live q r1" if "(q, e') \<in> set batch" for q e'
  proof -
    have q: "q \<noteq> p" "live q r" using that Cons.prems(2,3) by (force simp: pe list_all_iff)+
    then obtain i where "i \<in> set (re_events r)" "ev_ptr i = q" by (auto simp: live_def)
    then show ?thesis using k(2) wf_inj [OF Cons.prems(1) _ item(1), of i] item(2) q(1) by auto
  qed
  then have "list_all (\<lambda>(p, e). live p r1) batch" by (auto simp: list_all_iff)
  then show ?case using Cons.IH [OF k(1)] Cons.prems(2) it c by (simp add: pe)
qed simp

text \<open>
  C36. The reactor dispatches safely as long as callbacks unregister only their own descriptor:
  every event of a batch that one wait returned reaches the callback that is registered for it, no
  item is used after it was freed, and the table and the epoll set agree afterwards.
\<close>
theorem reactor_dispatch_safe:
  assumes "own_only call" "reactor_wf r" "distinct (map fst batch)" "list_all (\<lambda>(p, e). live p r) batch"
  shows "\<exists>r' w'. run_batch call batch (r, w) = Some (r', w') \<and> reactor_wf r' \<and>
    (\<forall>fd. map_option fst (reactor_entry r' fd) = map_option ev_cb (find_event r' fd))"
proof -
  obtain r' w' where r: "run_batch call batch (r, w) = Some (r', w')" "reactor_wf r'"
    using run_batch_live [OF assms] by blast
  have "map_option fst (reactor_entry r' fd) = map_option ev_cb (find_event r' fd)" for fd
    using kernel_None [OF r(2), of fd] by (auto simp: reactor_entry_def split: option.split)
  then show ?thesis using r by blast
qed

definition two_events :: "nat bc_reactor" where
  "two_events = snd (bc_reactor_add (True, True) 5 1 50 (snd (bc_reactor_add (True, True) 4 1 40 (snd (bc_reactor_init 3)))))"

lemma two_events_wf: "reactor_wf two_events" and two_events_items: "re_events two_events =
    [\<lparr>ev_ptr = 1, ev_fd = 5, ev_cb = 50\<rparr>, \<lparr>ev_ptr = 0, ev_fd = 4, ev_cb = 40\<rparr>]"
proof -
  show e: "re_events two_events = [\<lparr>ev_ptr = 1, ev_fd = 5, ev_cb = 50\<rparr>, \<lparr>ev_ptr = 0, ev_fd = 4, ev_cb = 40\<rparr>]"
    by (simp add: two_events_def bc_reactor_init_def bc_reactor_add_def link_event_def)
  have "reactor_wf (snd (bc_reactor_init 3) :: nat bc_reactor)"
    by (simp add: reactor_wf_def bc_reactor_init_def find_event_def)
  then show "reactor_wf two_events" unfolding two_events_def
    by (metis registry.add_law prod.collapse)
qed

lemma reactor_dispatch_safe_witness:
  "\<exists>r' w'. run_batch (\<lambda>c fd e (r, w). (r, w @ [(c, e)])) [(0, 1), (1, 4)] (two_events, []) = Some (r', w') \<and> reactor_wf r' \<and>
     w' = [(40, 1), (50, 4)]"
proof -
  have o: "own_only (\<lambda>c fd e (r, w). (r, w @ [(c :: nat, e)]))" by (auto simp: own_only_def live_def)
  have "list_all (\<lambda>(p, e). live p two_events) [(0, 1), (1, 4 :: u32)]" by (simp add: live_def two_events_items)
  from reactor_dispatch_safe [OF o two_events_wf _ this, of "[]"] show ?thesis
    by (simp add: two_events_items)
qed

text \<open>
  A callback that unregisters another descriptor frees its item, and if that descriptor has an
  event later in the same batch the loop reads the freed item. The daemon does this when a
  TCP server accepts a second connection while the first has an event pending, and when a client
  that becomes writable lets the daemon close another one.
\<close>
theorem stale_event_used:
  assumes "reactor_wf r" "a \<in> set (re_events r)" "b \<in> set (re_events r)" "ev_fd a \<noteq> ev_fd b"
    and "call (ev_cb a) (ev_fd a) e (r, w) = (bc_reactor_del (ev_fd b) r, w')"
  shows "run_batch call [(ev_ptr a, e), (ev_ptr b, e')] (r, w) = None"
proof -
  have f: "find (\<lambda>item. ev_ptr item = ev_ptr a) (re_events r) = Some a"
  proof (cases "find (\<lambda>item. ev_ptr item = ev_ptr a) (re_events r)")
    case None
    then show ?thesis using assms(2) by (auto simp: find_None_iff)
  next
    case (Some i)
    then have "i \<in> set (re_events r)" "ev_ptr i = ev_ptr a" by (auto simp: find_Some_iff)
    then have "i = a" using assms(1,2) by (metis (mono_tags, lifting) distinct_map inj_onD reactor_wf_def)
    then show ?thesis using Some by simp
  qed
  have "\<not> live (ev_ptr b) (bc_reactor_del (ev_fd b) r)"
  proof
    assume "live (ev_ptr b) (bc_reactor_del (ev_fd b) r)"
    then obtain i where i: "i \<in> set (unlink_first (ev_fd b) (re_events r))" "ev_ptr i = ev_ptr b"
      by (auto simp: live_def bc_reactor_del_def unlink_event_def)
    then have "ev_fd i = ev_fd b" using unlink_subset wf_inj [OF assms(1) _ assms(3)] by blast
    moreover have "find (\<lambda>item. ev_fd item = ev_fd b) (unlink_first (ev_fd b) (re_events r)) = None"
      using assms(1) by (simp add: find_unlink reactor_wf_def)
    ultimately show False using i(1) by (simp add: find_None_iff)
  qed
  then show ?thesis using f assms(5) find_live [of "ev_ptr b" "bc_reactor_del (ev_fd b) r"] by simp
qed

lemma stale_event_used_witness:
  "run_batch (\<lambda>c fd e (r, w :: nat). (bc_reactor_del 5 r, w)) [(0, 1), (1, 16)] (two_events, 0) = None"
  using stale_event_used [OF two_events_wf, of "\<lparr>ev_ptr = 0, ev_fd = 4, ev_cb = 40\<rparr>" "\<lparr>ev_ptr = 1, ev_fd = 5, ev_cb = 50\<rparr>"
      "\<lambda>c fd e (r, w :: nat). (bc_reactor_del 5 r, w)" 1 0 0 16]
  by (simp add: two_events_items)

end
