(* ===== verification/Udp_Transport.thy ===== *)
theory Udp_Transport
  imports Tcp_Transport Main_Loop
begin

text \<open>
  \<^verbatim>\<open>src/transport/udp/udp_transport.c\<close> and \<^verbatim>\<open>bc_fill_sockaddr_in\<close> of \<^verbatim>\<open>endpoint.h\<close>: a transport that
  sends each frame as a datagram. What the operating system answers is the record \<open>udp_os\<close>; the
  address parser \<^verbatim>\<open>inet_pton\<close> is its field \<open>ud_pton\<close>.
\<close>

section \<open>The transport\<close>

type_synonym sockaddr = "u32 \<times> u16"

definition bc_fill_sockaddr_in :: "(byte list \<Rightarrow> u32 option) \<Rightarrow> byte list \<Rightarrow> int \<Rightarrow> bc_status + sockaddr" where
  "bc_fill_sockaddr_in pton host port =
     (case pton host of None \<Rightarrow> Inl BC_ERR_INVALID | Some address \<Rightarrow> Inr (address, of_int port))"

record udp_os =
  ud_calloc :: bool
  ud_socket :: int
  ud_bind :: "u16 \<Rightarrow> bool"
  ud_pton :: "byte list \<Rightarrow> u32 option"

record udp_impl =
  ut_fd :: int
  ut_remote :: "sockaddr option"

definition bc_udp_transport_init :: udp_impl where
  "bc_udp_transport_init = \<lparr>ut_fd = - 1, ut_remote = None\<rparr>"

text \<open>A failed open leaves the descriptor as it is, also when it has been closed.\<close>

definition udp_open :: "udp_os \<Rightarrow> bc_transport_config \<Rightarrow> udp_impl \<Rightarrow> bc_status \<times> udp_impl" where
  "udp_open os cfg impl =
     (if \<not> ud_calloc os then (BC_ERR_NOMEM, impl)
      else case bc_parse_endpoint (tc_endpoint cfg) 64 of
          Inl _ \<Rightarrow> (BC_ERR_INVALID, impl)
        | Inr (host, port) \<Rightarrow>
            let impl = impl\<lparr>ut_fd := ud_socket os\<rparr> in
            if ut_fd impl < 0 then (BC_ERR_IO, impl)
            else if \<not> ud_bind os (of_int (tc_local_port cfg)) then (BC_ERR_IO, impl)
            else (case bc_fill_sockaddr_in (ud_pton os) host port of
                Inl _ \<Rightarrow> (BC_ERR_IO, impl)
              | Inr remote \<Rightarrow> (BC_OK, impl\<lparr>ut_remote := Some remote\<rparr>)))"

definition udp_close :: "udp_impl \<Rightarrow> udp_impl" where
  "udp_close impl =
     (let impl = (if ut_fd impl \<ge> 0 then impl\<lparr>ut_fd := - 1\<rparr> else impl) in impl\<lparr>ut_remote := None\<rparr>)"

definition udp_send :: "io_result \<Rightarrow> byte list \<Rightarrow> bc_status" where
  "udp_send res data = (case res of
     Done n \<Rightarrow> if n = length data then BC_OK else BC_ERR_IO
   | Again \<Rightarrow> BC_ERR_NOMEM
   | Error \<Rightarrow> BC_ERR_IO)"

text \<open>A datagram longer than the buffer is cut off by the system.\<close>

definition udp_recv :: "nat \<Rightarrow> sock_read \<Rightarrow> bc_status + byte list" where
  "udp_recv cap res = (case res of
     Got data \<Rightarrow> if take cap data = [] then Inl BC_ERR_IO else Inr (take cap data)
   | Closed \<Rightarrow> Inl BC_ERR_IO
   | Would_Block \<Rightarrow> Inl BC_ERR_NOT_FOUND
   | Read_Failed \<Rightarrow> Inl BC_ERR_IO)"

text \<open>The receive loop of the daemon on the datagrams that are there.\<close>

fun udp_event ::
  "'w bus_env \<Rightarrow> nat \<Rightarrow> sock_read list \<Rightarrow> byte list \<Rightarrow> 'w bus_state \<Rightarrow> (byte list \<times> 'w bus_state) option" where
  "udp_event env t [] rx s = (if length rx \<ge> RX_BUF_SIZE then Some ([], s) else Some (rx, s))"
| "udp_event env t (r # rs) rx s =
     (if length rx \<ge> RX_BUF_SIZE then Some ([], s)
      else case udp_recv (RX_BUF_SIZE - length rx) r of
          Inl _ \<Rightarrow> Some (rx, s)
        | Inr data \<Rightarrow>
            (case process_transport_frames env t (rx @ data) s of
               None \<Rightarrow> None
             | Some (rc, rx', s') \<Rightarrow> if rc \<noteq> BC_OK then Some ([], s') else udp_event env t rs rx' s'))"

section \<open>Frames as datagrams\<close>

lemma wire_bound: "encodable m \<Longrightarrow> length (wire m) \<le> BC_MAX_FRAME_LEN"
  by (simp add: length_wire body_offset_def encodable_def BC_MAX_FRAME_LEN_def FRAME_HEADER_SIZE_def bc_limits)

lemma wire_nonempty: "wire m \<noteq> []"
  using length_wire [of m] by (auto simp: body_offset_def FRAME_HEADER_SIZE_def)

lemma look_empty: "net_look [] = More"
  by (simp add: net_look_def bc_protocol_frame_length_def FRAME_HEADER_SIZE_def)

lemma process_wire:
  assumes "encodable m" "bc_message_bus_handle_inbound env (canon_message m) (Some t) s = Some (rc, s1)"
  shows "process_transport_frames env t (wire m) s = Some (BC_OK, [], s1)"
proof -
  have "net_handle env t (wire m) s = Some (BC_OK, s1)"
    using decode_wire [of m "[]"] assms by (simp add: net_handle_def)
  then show ?thesis
    using net.consume_frames [OF _ look_empty, of "[wire m]" "net_handle env t" s s1] look_wire [OF assms(1)]
    by (simp add: process_is_consume)
qed

text \<open>
  Over UDP the frames that arrive, whichever of those sent these are and in whatever order and
  number, are each handed to the message bus exactly once and in the order of arrival; no
  datagram is cut off and the receive buffer is empty afterwards.
\<close>
theorem udp_delivers_arrivals:
  assumes "\<forall>m \<in> set ms. encodable m" "inbound_all env t (map canon_message ms) s = Some s'"
  shows "udp_event env t (map (\<lambda>m. Got (wire m)) ms) [] s = Some ([], s') \<and>
    (\<forall>m \<in> set ms. udp_send (Done (length (wire m))) (wire m) = BC_OK)"
  using assms
proof (induction ms arbitrary: s)
  case Nil
  then show ?case by (simp add: RX_BUF_SIZE_def BC_MAX_FRAME_LEN_def)
next
  case (Cons m ms)
  then obtain rc s1 where h: "bc_message_bus_handle_inbound env (canon_message m) (Some t) s = Some (rc, s1)"
    "inbound_all env t (map canon_message ms) s1 = Some s'"
    by (auto split: option.splits)
  have e: "encodable m" using Cons.prems(1) by simp
  have "take RX_BUF_SIZE (wire m) = wire m" using wire_bound [OF e] by (simp add: RX_BUF_SIZE_def)
  moreover have "\<not> length ([] :: byte list) \<ge> RX_BUF_SIZE" by (simp add: RX_BUF_SIZE_def BC_MAX_FRAME_LEN_def)
  ultimately show ?case
    using Cons.IH [OF _ h(2)] Cons.prems(1) process_wire [OF e h(1)] wire_nonempty
    by (simp add: udp_recv_def udp_send_def)
qed

lemma udp_delivers_arrivals_witness:
  "\<exists>s'. udp_event (log_env bc_config_load_defaults [] (\<lambda>_ _ _. BC_OK) (\<lambda>_ _ _. BC_OK)) 0
      (map (\<lambda>m. Got (wire m)) [sample_message]) [] (bc_message_bus_init, []) = Some ([], s')"
proof -
  let ?env = "log_env bc_config_load_defaults [] (\<lambda>_ _ _. BC_OK) (\<lambda>_ _ _. BC_OK)"
  obtain rc bus' w' where h: "bc_message_bus_handle_inbound ?env (canon_message sample_message) (Some 0)
      (bc_message_bus_init, []) = Some (rc, bus', w')"
    using inbound_trace_total [of bc_message_bus_init] reasm_wf_init by (fastforce simp: bc_message_bus_init_def)
  have i: "inbound_all ?env 0 (map canon_message [sample_message]) (bc_message_bus_init, []) = Some (bus', w')"
    using h by simp
  have "\<forall>m \<in> set [sample_message]. encodable m" using encodable_sample by simp
  from udp_delivers_arrivals [OF this i] show ?thesis by blast
qed

section \<open>Datagrams that are no frames\<close>

lemma short_not_found: "length g < FRAME_HEADER_SIZE \<Longrightarrow> process_transport_frames env t g s = Some (BC_OK, g, s)"
  by (subst process_transport_frames.simps) (simp add: bc_protocol_frame_length_def)

lemma wrong_magic:
  assumes "FRAME_HEADER_SIZE \<le> length d" "hd d \<noteq> 0x52"
  shows "process_transport_frames env t d s = Some (BC_ERR_INVALID, d, s)"
proof -
  have l: "length (fld 0 4 d) = 4" using assms(1) by (simp add: fld_def FRAME_HEADER_SIZE_def)
  have "fh_magic (get_frame_header (take FRAME_HEADER_SIZE d)) \<noteq> BC_FRAME_MAGIC"
  proof
    assume "fh_magic (get_frame_header (take FRAME_HEADER_SIZE d)) = BC_FRAME_MAGIC"
    then have "of_le (fld 0 4 d) = BC_FRAME_MAGIC"
      by (simp add: get_frame_header_def fld_take FRAME_HEADER_SIZE_def)
    then have "fld 0 4 d = to_le 4 BC_FRAME_MAGIC" using le32.enc_dec [OF l] by metis
    then have "hd (fld 0 4 d) = hd (to_le 4 BC_FRAME_MAGIC)" by simp
    moreover have "hd (to_le 4 BC_FRAME_MAGIC) = 0x52" by code_simp
    moreover have "hd (fld 0 4 d) = hd d" using assms(1) by (cases d) (simp_all add: fld_def FRAME_HEADER_SIZE_def)
    ultimately show False using assms(2) by simp
  qed
  then show ?thesis using assms(1)
    by (subst process_transport_frames.simps) (simp add: bc_protocol_frame_length_def Let_def)
qed

text \<open>
  The receive buffer treats datagrams as a byte stream: a datagram shorter than a frame
  header, which anyone can send to the port, is kept as the beginning of a frame, and the next
  valid frame is thrown away with it. The message in it never reaches the bus.
\<close>
theorem udp_runt_loses_frame:
  assumes "g \<noteq> []" "length g < FRAME_HEADER_SIZE" "hd g \<noteq> 0x52" "encodable m"
  shows "udp_event env t [Got g, Got (wire m)] [] s = Some ([], s)"
proof -
  have len: "FRAME_HEADER_SIZE \<le> length (g @ wire m)" by (simp add: length_wire body_offset_def)
  have "hd (g @ wire m) \<noteq> 0x52" using assms(1,3) by simp
  note w = wrong_magic [OF len this]
  have cap: "length (wire m) \<le> RX_BUF_SIZE - length g" "length g < RX_BUF_SIZE"
    using wire_bound [OF assms(4)] assms(2) by (simp_all add: RX_BUF_SIZE_def BC_MAX_FRAME_LEN_def FRAME_HEADER_SIZE_def)
  have r: "udp_recv RX_BUF_SIZE (Got g) = Inr g" "udp_recv (RX_BUF_SIZE - length g) (Got (wire m)) = Inr (wire m)"
    using cap assms(1) wire_nonempty by (simp_all add: udp_recv_def)
  then show ?thesis using cap(2) short_not_found [OF assms(2), of env t s] w [of env t s] by simp
qed

lemma udp_runt_loses_frame_witness:
  "udp_event (log_env bc_config_load_defaults [] (\<lambda>_ _ _. BC_OK) (\<lambda>_ _ _. BC_OK)) 0
     [Got [0], Got (wire sample_message)] [] (bc_message_bus_init, []) = Some ([], bc_message_bus_init, [])"
  by (rule udp_runt_loses_frame) (use encodable_sample in \<open>simp_all add: FRAME_HEADER_SIZE_def\<close>)

end
