(* ===== verification/Kcp.thy ===== *)
theory Kcp
  imports Prelude
begin

text \<open>
  \<^verbatim>\<open>src/transport/udp/kcp/ikcp.c\<close> and \<^verbatim>\<open>ikcp.h\<close>: the reliability protocol that the UDP-KCP transport
  runs. The program installs no congestion control operations, no log writer and no allocator, so
  \<open>ccops\<close>, \<open>writelog\<close> and the hooks are null here. A queue of segments is a list beside the counter
  the code keeps for it, a segment's length field the length of its data. The datagrams that
  \<open>ikcp_flush\<close> hands to the output callback are its result. Allocating a segment succeeds, as the
  code asserts. \<open>kc_fault\<close> is set by a signed overflow or a write past the output buffer.
\<close>

section \<open>Constants and helpers\<close>

definition IKCP_RTO_NDL :: int where "IKCP_RTO_NDL = 30"
definition IKCP_RTO_MIN :: int where "IKCP_RTO_MIN = 100"
definition IKCP_RTO_DEF :: int where "IKCP_RTO_DEF = 200"
definition IKCP_RTO_MAX :: u32 where "IKCP_RTO_MAX = 60000"
definition IKCP_CMD_PUSH :: u32 where "IKCP_CMD_PUSH = 81"
definition IKCP_CMD_ACK :: u32 where "IKCP_CMD_ACK = 82"
definition IKCP_CMD_WASK :: u32 where "IKCP_CMD_WASK = 83"
definition IKCP_CMD_WINS :: u32 where "IKCP_CMD_WINS = 84"
definition IKCP_ASK_SEND :: u32 where "IKCP_ASK_SEND = 1"
definition IKCP_ASK_TELL :: u32 where "IKCP_ASK_TELL = 2"
definition IKCP_WND_SND :: u32 where "IKCP_WND_SND = 32"
definition IKCP_WND_RCV :: u32 where "IKCP_WND_RCV = 128"
definition IKCP_MTU_DEF :: u32 where "IKCP_MTU_DEF = 1400"
definition IKCP_INTERVAL :: u32 where "IKCP_INTERVAL = 100"
definition IKCP_OVERHEAD :: nat where "IKCP_OVERHEAD = 24"
definition IKCP_DEADLINK :: u32 where "IKCP_DEADLINK = 20"
definition IKCP_THRESH_INIT :: u32 where "IKCP_THRESH_INIT = 2"
definition IKCP_THRESH_MIN :: u32 where "IKCP_THRESH_MIN = 2"
definition IKCP_PROBE_INIT :: u32 where "IKCP_PROBE_INIT = 5000"
definition IKCP_PROBE_LIMIT :: u32 where "IKCP_PROBE_LIMIT = 120000"
definition IKCP_FASTACK_LIMIT :: int where "IKCP_FASTACK_LIMIT = 5"

lemmas ikcp_cmds = IKCP_CMD_PUSH_def IKCP_CMD_ACK_def IKCP_CMD_WASK_def IKCP_CMD_WINS_def

definition imin :: "u32 \<Rightarrow> u32 \<Rightarrow> u32" where "imin a b = (if a \<le> b then a else b)"
definition imax :: "u32 \<Rightarrow> u32 \<Rightarrow> u32" where "imax a b = (if a \<ge> b then a else b)"
definition ibound :: "u32 \<Rightarrow> u32 \<Rightarrow> u32 \<Rightarrow> u32" where "ibound lower middle upper = imin (imax lower middle) upper"
definition itimediff :: "u32 \<Rightarrow> u32 \<Rightarrow> int" where "itimediff later earlier = sint (later - earlier)"

definition fits_int :: "int \<Rightarrow> bool" where "fits_int n \<longleftrightarrow> - (2 ^ 31) \<le> n \<and> n < 2 ^ 31"

section \<open>Segments\<close>

record kseg =
  sg_conv :: u32
  sg_cmd :: u32
  sg_frg :: u32
  sg_wnd :: u32
  sg_ts :: u32
  sg_sn :: u32
  sg_una :: u32
  sg_resendts :: u32
  sg_rto :: u32
  sg_fastack :: u32
  sg_xmit :: u32
  sg_data :: "byte list"

definition seg_len :: "kseg \<Rightarrow> u32" where "seg_len seg = of_nat (length (sg_data seg))"

text \<open>A new segment; the fields that are not set here are set before they are read.\<close>

definition ikcp_segment_new :: "u32 \<Rightarrow> byte list \<Rightarrow> kseg" where
  "ikcp_segment_new frg data =
     \<lparr>sg_conv = 0, sg_cmd = 0, sg_frg = frg, sg_wnd = 0, sg_ts = 0, sg_sn = 0, sg_una = 0,
      sg_resendts = 0, sg_rto = 0, sg_fastack = 0, sg_xmit = 0, sg_data = data\<rparr>"

definition ikcp_encode_seg :: "kseg \<Rightarrow> byte list" where
  "ikcp_encode_seg seg =
     to_le 4 (sg_conv seg) @ to_le 1 (ucast (sg_cmd seg) :: byte) @ to_le 1 (ucast (sg_frg seg) :: byte) @
     to_le 2 (ucast (sg_wnd seg) :: u16) @ to_le 4 (sg_ts seg) @ to_le 4 (sg_sn seg) @
     to_le 4 (sg_una seg) @ to_le 4 (seg_len seg)"

section \<open>The control block\<close>

record ikcpcb =
  kc_conv :: u32
  kc_mtu :: u32
  kc_mss :: u32
  kc_state :: u32
  kc_snd_una :: u32
  kc_snd_nxt :: u32
  kc_rcv_nxt :: u32
  kc_ssthresh :: u32
  kc_rx_rttval :: int
  kc_rx_srtt :: int
  kc_rx_rto :: int
  kc_rx_minrto :: int
  kc_snd_wnd :: u32
  kc_rcv_wnd :: u32
  kc_rmt_wnd :: u32
  kc_cwnd :: u32
  kc_probe :: u32
  kc_current :: u32
  kc_interval :: u32
  kc_ts_flush :: u32
  kc_xmit :: u32
  kc_nrcv_buf :: u32
  kc_nsnd_buf :: u32
  kc_nrcv_que :: u32
  kc_nsnd_que :: u32
  kc_nodelay :: u32
  kc_updated :: bool
  kc_ts_probe :: u32
  kc_probe_wait :: u32
  kc_dead_link :: u32
  kc_incr :: u32
  kc_snd_queue :: "kseg list"
  kc_rcv_queue :: "kseg list"
  kc_snd_buf :: "kseg list"
  kc_rcv_buf :: "kseg list"
  kc_acklist :: "(u32 \<times> u32) list"
  kc_ackblock :: nat
  kc_ackedlen :: u32
  kc_fastresend :: int
  kc_fastlimit :: int
  kc_nocwnd :: int
  kc_stream :: int
  kc_fault :: bool

definition ikcp_create :: "bool \<times> bool \<Rightarrow> u32 \<Rightarrow> ikcpcb option" where
  "ikcp_create malloc conv =
     (if \<not> fst malloc \<or> \<not> snd malloc then None
      else Some
        \<lparr>kc_conv = conv, kc_mtu = IKCP_MTU_DEF, kc_mss = IKCP_MTU_DEF - of_nat IKCP_OVERHEAD, kc_state = 0,
         kc_snd_una = 0, kc_snd_nxt = 0, kc_rcv_nxt = 0, kc_ssthresh = IKCP_THRESH_INIT,
         kc_rx_rttval = 0, kc_rx_srtt = 0, kc_rx_rto = IKCP_RTO_DEF, kc_rx_minrto = IKCP_RTO_MIN,
         kc_snd_wnd = IKCP_WND_SND, kc_rcv_wnd = IKCP_WND_RCV, kc_rmt_wnd = IKCP_WND_RCV, kc_cwnd = 0,
         kc_probe = 0, kc_current = 0, kc_interval = IKCP_INTERVAL, kc_ts_flush = IKCP_INTERVAL, kc_xmit = 0,
         kc_nrcv_buf = 0, kc_nsnd_buf = 0, kc_nrcv_que = 0, kc_nsnd_que = 0, kc_nodelay = 0,
         kc_updated = False, kc_ts_probe = 0, kc_probe_wait = 0, kc_dead_link = IKCP_DEADLINK, kc_incr = 0,
         kc_snd_queue = [], kc_rcv_queue = [], kc_snd_buf = [], kc_rcv_buf = [], kc_acklist = [],
         kc_ackblock = 0, kc_ackedlen = 0, kc_fastresend = 0, kc_fastlimit = IKCP_FASTACK_LIMIT,
         kc_nocwnd = 0, kc_stream = 0, kc_fault = False\<rparr>)"

definition ikcp_release :: "ikcpcb \<Rightarrow> ikcpcb" where
  "ikcp_release kcp = kcp\<lparr>kc_snd_buf := [], kc_rcv_buf := [], kc_snd_queue := [], kc_rcv_queue := [],
     kc_nrcv_buf := 0, kc_nsnd_buf := 0, kc_nrcv_que := 0, kc_nsnd_que := 0, kc_acklist := []\<rparr>"

section \<open>Receiving messages\<close>

text \<open>The segments up to the first with fragment number 0: their data, and what stays.\<close>

fun take_message :: "kseg list \<Rightarrow> byte list \<times> kseg list" where
  "take_message [] = ([], [])"
| "take_message (seg # segs) =
     (if sg_frg seg = 0 then (sg_data seg, segs)
      else case take_message segs of (data, rest) \<Rightarrow> (sg_data seg @ data, rest))"

definition ikcp_peeksize :: "ikcpcb \<Rightarrow> int" where
  "ikcp_peeksize kcp = (case kc_rcv_queue kcp of
     [] \<Rightarrow> - 1
   | seg # segs \<Rightarrow>
       if sg_frg seg = 0 then int (length (sg_data seg))
       else if kc_nrcv_que kcp < sg_frg seg + 1 then - 1
       else int (length (fst (take_message (kc_rcv_queue kcp)))))"

text \<open>The segments of \<open>rcv_buf\<close> that are next move to \<open>rcv_queue\<close> while the window has room.\<close>

fun move_available :: "kseg list \<Rightarrow> ikcpcb \<Rightarrow> ikcpcb" where
  "move_available [] kcp = kcp\<lparr>kc_rcv_buf := []\<rparr>"
| "move_available (seg # segs) kcp =
     (if sg_sn seg = kc_rcv_nxt kcp \<and> kc_nrcv_que kcp < kc_rcv_wnd kcp
      then move_available segs (kcp\<lparr>kc_nrcv_buf := kc_nrcv_buf kcp - 1, kc_rcv_queue := kc_rcv_queue kcp @ [seg],
             kc_nrcv_que := kc_nrcv_que kcp + 1, kc_rcv_nxt := kc_rcv_nxt kcp + 1\<rparr>)
      else kcp\<lparr>kc_rcv_buf := seg # segs\<rparr>)"

text \<open>A negative length only looks at the message. The result is the length or an error, and what is
  copied to the buffer.\<close>

definition ikcp_recv :: "int \<Rightarrow> ikcpcb \<Rightarrow> int \<times> byte list \<times> ikcpcb" where
  "ikcp_recv len kcp =
     (if kc_rcv_queue kcp = [] then (- 1, [], kcp)
      else if ikcp_peeksize kcp < 0 then (- 2, [], kcp)
      else if ikcp_peeksize kcp > \<bar>len\<bar> then (- 3, [], kcp)
      else
        let recover = (kc_nrcv_que kcp \<ge> kc_rcv_wnd kcp);
            (data, rest) = take_message (kc_rcv_queue kcp);
            kcp = (if len < 0 then kcp
                   else kcp\<lparr>kc_rcv_queue := rest,
                          kc_nrcv_que := kc_nrcv_que kcp - of_nat (length (kc_rcv_queue kcp) - length rest)\<rparr>);
            kcp = move_available (kc_rcv_buf kcp) kcp;
            kcp = (if kc_nrcv_que kcp < kc_rcv_wnd kcp \<and> recover
                   then kcp\<lparr>kc_probe := kc_probe kcp OR IKCP_ASK_TELL\<rparr> else kcp) in
        (int (length data), data, kcp))"

section \<open>Sending messages\<close>

text \<open>The fragments of a message, numbered down to 0 unless in stream mode.\<close>

fun push_fragments :: "nat \<Rightarrow> byte list \<Rightarrow> ikcpcb \<Rightarrow> ikcpcb" where
  "push_fragments 0 data kcp = kcp"
| "push_fragments (Suc n) data kcp =
     (let size = (if int (length data) > sint (kc_mss kcp) then nat (sint (kc_mss kcp)) else length data);
          seg = ikcp_segment_new (if kc_stream kcp = 0 then of_nat n else 0) (take size data) in
      push_fragments n (drop size data)
        (kcp\<lparr>kc_snd_queue := kc_snd_queue kcp @ [seg], kc_nsnd_que := kc_nsnd_que kcp + 1\<rparr>))"

text \<open>In stream mode the last queued segment takes up what it can.\<close>

definition extend_last :: "byte list \<Rightarrow> ikcpcb \<Rightarrow> nat \<times> ikcpcb" where
  "extend_last data kcp =
     (if kc_snd_queue kcp = [] then (0, kcp)
      else
        let old = last (kc_snd_queue kcp) in
        if seg_len old < kc_mss kcp then
          let capacity = unat (kc_mss kcp - seg_len old); extend = min (length data) capacity;
              seg = ikcp_segment_new 0 (sg_data old @ take extend data) in
          (extend, kcp\<lparr>kc_snd_queue := butlast (kc_snd_queue kcp) @ [seg]\<rparr>)
        else (0, kcp))"

definition ikcp_send :: "byte list \<Rightarrow> int \<Rightarrow> ikcpcb \<Rightarrow> int \<times> ikcpcb" where
  "ikcp_send buffer len kcp =
     (if len < 0 then (- 1, kcp)
      else
        let data = take (nat len) buffer;
            (sent, kcp) = (if kc_stream kcp \<noteq> 0 then extend_last data kcp else (0, kcp));
            data = drop sent data in
        if kc_stream kcp \<noteq> 0 \<and> data = [] then (int sent, kcp)
        else
          let count = (if int (length data) \<le> sint (kc_mss kcp) then 1
                       else sint ((of_nat (length data) + kc_mss kcp - 1) div kc_mss kcp)) in
          if count \<ge> sint IKCP_WND_RCV then (if kc_stream kcp \<noteq> 0 \<and> sent > 0 then int sent else - 2, kcp)
          else
            let count = (if count = 0 then 1 else count) in
            (int (sent + length data), push_fragments (nat count) data kcp))"

section \<open>Acknowledgements\<close>

definition ikcp_update_ack :: "int \<Rightarrow> ikcpcb \<Rightarrow> ikcpcb" where
  "ikcp_update_ack rtt kcp =
     (let (srtt, rttval, ok) =
            (if kc_rx_srtt kcp = 0 then (rtt, rtt div 2, True)
             else
               let delta = \<bar>rtt - kc_rx_srtt kcp\<bar>; rttval = (3 * kc_rx_rttval kcp + delta) div 4;
                   srtt = (7 * kc_rx_srtt kcp + rtt) div 8 in
               (if srtt < 1 then 1 else srtt, rttval,
                fits_int (3 * kc_rx_rttval kcp) \<and> fits_int (7 * kc_rx_srtt kcp + rtt)));
          rto = of_int srtt + imax (kc_interval kcp) (of_int (4 * rttval)) in
      kcp\<lparr>kc_rx_srtt := srtt, kc_rx_rttval := rttval,
          kc_rx_rto := sint (ibound (of_int (kc_rx_minrto kcp)) rto IKCP_RTO_MAX),
          kc_fault := kc_fault kcp \<or> \<not> ok \<or> \<not> fits_int (4 * rttval)\<rparr>)"

definition ikcp_shrink_buf :: "ikcpcb \<Rightarrow> ikcpcb" where
  "ikcp_shrink_buf kcp = (case kc_snd_buf kcp of
     [] \<Rightarrow> kcp\<lparr>kc_snd_una := kc_snd_nxt kcp\<rparr>
   | seg # _ \<Rightarrow> kcp\<lparr>kc_snd_una := sg_sn seg\<rparr>)"

fun remove_sn :: "u32 \<Rightarrow> kseg list \<Rightarrow> kseg option \<times> kseg list" where
  "remove_sn sn [] = (None, [])"
| "remove_sn sn (seg # segs) =
     (if sn = sg_sn seg then (Some seg, segs)
      else if itimediff sn (sg_sn seg) < 0 then (None, seg # segs)
      else case remove_sn sn segs of (found, rest) \<Rightarrow> (found, seg # rest))"

definition ikcp_parse_ack :: "u32 \<Rightarrow> ikcpcb \<Rightarrow> ikcpcb" where
  "ikcp_parse_ack sn kcp =
     (if itimediff sn (kc_snd_una kcp) < 0 \<or> itimediff sn (kc_snd_nxt kcp) \<ge> 0 then kcp
      else case remove_sn sn (kc_snd_buf kcp) of
          (None, segs) \<Rightarrow> kcp\<lparr>kc_snd_buf := segs\<rparr>
        | (Some seg, segs) \<Rightarrow> kcp\<lparr>kc_snd_buf := segs, kc_ackedlen := kc_ackedlen kcp + seg_len seg,
                                kc_nsnd_buf := kc_nsnd_buf kcp - 1\<rparr>)"

fun drop_acked :: "u32 \<Rightarrow> kseg list \<Rightarrow> ikcpcb \<Rightarrow> ikcpcb" where
  "drop_acked una [] kcp = kcp\<lparr>kc_snd_buf := []\<rparr>"
| "drop_acked una (seg # segs) kcp =
     (if itimediff una (sg_sn seg) > 0
      then drop_acked una segs (kcp\<lparr>kc_ackedlen := kc_ackedlen kcp + seg_len seg, kc_nsnd_buf := kc_nsnd_buf kcp - 1\<rparr>)
      else kcp\<lparr>kc_snd_buf := seg # segs\<rparr>)"

definition ikcp_parse_una :: "u32 \<Rightarrow> ikcpcb \<Rightarrow> ikcpcb" where
  "ikcp_parse_una una kcp = drop_acked una (kc_snd_buf kcp) kcp"

fun count_fastack :: "u32 \<Rightarrow> u32 \<Rightarrow> kseg list \<Rightarrow> kseg list" where
  "count_fastack sn ts [] = []"
| "count_fastack sn ts (seg # segs) =
     (if itimediff sn (sg_sn seg) < 0 then seg # segs
      else (if sn \<noteq> sg_sn seg \<and> itimediff ts (sg_ts seg) \<ge> 0 then seg\<lparr>sg_fastack := sg_fastack seg + 1\<rparr> else seg)
        # count_fastack sn ts segs)"

definition ikcp_parse_fastack :: "u32 \<Rightarrow> u32 \<Rightarrow> ikcpcb \<Rightarrow> ikcpcb" where
  "ikcp_parse_fastack sn ts kcp =
     (if itimediff sn (kc_snd_una kcp) < 0 \<or> itimediff sn (kc_snd_nxt kcp) \<ge> 0 then kcp
      else kcp\<lparr>kc_snd_buf := count_fastack sn ts (kc_snd_buf kcp)\<rparr>)"

text \<open>The array of acknowledgements doubles from 8 entries until the new one fits.\<close>

function ack_block :: "nat \<Rightarrow> nat \<Rightarrow> nat" where
  "ack_block newblock newsize = (if newblock = 0 \<or> newblock \<ge> newsize then newblock else ack_block (2 * newblock) newsize)"
  by pat_completeness auto
termination by (relation "measure (\<lambda>(b, n). n - b)") auto

declare ack_block.simps [simp del]

definition ikcp_ack_push :: "u32 \<Rightarrow> u32 \<Rightarrow> ikcpcb \<Rightarrow> ikcpcb" where
  "ikcp_ack_push sn ts kcp =
     (let newsize = length (kc_acklist kcp) + 1;
          kcp = (if newsize > kc_ackblock kcp then kcp\<lparr>kc_ackblock := ack_block 8 newsize\<rparr> else kcp) in
      kcp\<lparr>kc_acklist := kc_acklist kcp @ [(sn, ts)]\<rparr>)"

section \<open>Receiving segments\<close>

text \<open>The segments of \<open>rcv_buf\<close> from the last to the first: \<open>None\<close> when the number is there already.\<close>

fun insert_back :: "kseg \<Rightarrow> kseg list \<Rightarrow> kseg list option" where
  "insert_back newseg [] = Some [newseg]"
| "insert_back newseg (seg # segs) =
     (if sg_sn seg = sg_sn newseg then None
      else if itimediff (sg_sn newseg) (sg_sn seg) > 0 then Some (newseg # seg # segs)
      else case insert_back newseg segs of None \<Rightarrow> None | Some rest \<Rightarrow> Some (seg # rest))"

definition ikcp_parse_data :: "kseg \<Rightarrow> ikcpcb \<Rightarrow> ikcpcb" where
  "ikcp_parse_data newseg kcp =
     (if itimediff (sg_sn newseg) (kc_rcv_nxt kcp + kc_rcv_wnd kcp) \<ge> 0 \<or> itimediff (sg_sn newseg) (kc_rcv_nxt kcp) < 0
      then kcp
      else
        let kcp = (case insert_back newseg (rev (kc_rcv_buf kcp)) of
                     None \<Rightarrow> kcp
                   | Some segs \<Rightarrow> kcp\<lparr>kc_rcv_buf := rev segs, kc_nrcv_buf := kc_nrcv_buf kcp + 1\<rparr>) in
        move_available (kc_rcv_buf kcp) kcp)"

text \<open>The highest acknowledgement so far with its time stamp; \<open>None\<close> is \<open>flag = 0\<close>.\<close>

definition track_ack :: "u32 \<Rightarrow> u32 \<Rightarrow> (u32 \<times> u32) option \<Rightarrow> (u32 \<times> u32) option" where
  "track_ack sn ts acked = (case acked of
     None \<Rightarrow> Some (sn, ts)
   | Some (maxack, latest_ts) \<Rightarrow>
       if itimediff sn maxack > 0 \<and> itimediff ts latest_ts > 0 then Some (sn, ts) else acked)"

definition input_ack :: "u32 \<Rightarrow> u32 \<Rightarrow> ikcpcb \<Rightarrow> ikcpcb" where
  "input_ack sn ts kcp =
     (let diff = itimediff (kc_current kcp) ts;
          kcp = (if diff \<ge> 0 then ikcp_update_ack diff kcp else kcp) in
      ikcp_shrink_buf (ikcp_parse_ack sn kcp))"

definition input_push :: "kseg \<Rightarrow> ikcpcb \<Rightarrow> ikcpcb" where
  "input_push seg kcp =
     (if itimediff (sg_sn seg) (kc_rcv_nxt kcp + kc_rcv_wnd kcp) < 0 then
        let kcp = ikcp_ack_push (sg_sn seg) (sg_ts seg) kcp in
        if itimediff (sg_sn seg) (kc_rcv_nxt kcp) \<ge> 0 then ikcp_parse_data seg kcp else kcp
      else kcp)"

definition decode_seg :: "byte list \<Rightarrow> kseg \<times> u32" where
  "decode_seg data =
     (\<lparr>sg_conv = of_le (fld 0 4 data), sg_cmd = of_le (fld 4 1 data), sg_frg = of_le (fld 5 1 data),
       sg_wnd = of_le (fld 6 2 data), sg_ts = of_le (fld 8 4 data), sg_sn = of_le (fld 12 4 data),
       sg_una = of_le (fld 16 4 data), sg_resendts = 0, sg_rto = 0, sg_fastack = 0, sg_xmit = 0, sg_data = []\<rparr>,
      of_le (fld 20 4 data))"

text \<open>What one segment does, after its header has been accepted.\<close>

definition input_seg :: "kseg \<Rightarrow> ikcpcb \<times> (u32 \<times> u32) option \<Rightarrow> ikcpcb \<times> (u32 \<times> u32) option" where
  "input_seg seg st =
     (case st of (kcp, acked) \<Rightarrow>
       let kcp = ikcp_shrink_buf (ikcp_parse_una (sg_una seg) (kcp\<lparr>kc_rmt_wnd := sg_wnd seg\<rparr>)) in
       if sg_cmd seg = IKCP_CMD_ACK then (input_ack (sg_sn seg) (sg_ts seg) kcp, track_ack (sg_sn seg) (sg_ts seg) acked)
       else if sg_cmd seg = IKCP_CMD_PUSH then (input_push seg kcp, acked)
       else if sg_cmd seg = IKCP_CMD_WASK then (kcp\<lparr>kc_probe := kc_probe kcp OR IKCP_ASK_TELL\<rparr>, acked)
       else (kcp, acked))"

function input_loop :: "byte list \<Rightarrow> ikcpcb \<times> (u32 \<times> u32) option \<Rightarrow> int \<times> ikcpcb \<times> (u32 \<times> u32) option" where
  "input_loop data st =
     (if length data < IKCP_OVERHEAD then (0, st)
      else case decode_seg data of (seg, len) \<Rightarrow>
        if sg_conv seg \<noteq> kc_conv (fst st) then (- 1, st)
        else
          let body = drop IKCP_OVERHEAD data in
          if length body < unat len \<or> sint len < 0 then (- 2, st)
          else if sg_cmd seg \<notin> {IKCP_CMD_PUSH, IKCP_CMD_ACK, IKCP_CMD_WASK, IKCP_CMD_WINS} then (- 3, st)
          else input_loop (drop (unat len) body) (input_seg (seg\<lparr>sg_data := take (unat len) body\<rparr>) st))"
  by pat_completeness auto
termination by (relation "measure (\<lambda>(data, st). length data)") (auto simp: IKCP_OVERHEAD_def)

declare input_loop.simps [simp del]

definition grow_cwnd :: "ikcpcb \<Rightarrow> ikcpcb" where
  "grow_cwnd kcp =
     (if kc_cwnd kcp < kc_rmt_wnd kcp then
        let mss = kc_mss kcp;
            kcp = (if kc_cwnd kcp < kc_ssthresh kcp
                   then kcp\<lparr>kc_cwnd := kc_cwnd kcp + 1, kc_incr := kc_incr kcp + mss\<rparr>
                   else
                     let incr = (if kc_incr kcp < mss then mss else kc_incr kcp);
                         incr = incr + (mss * mss div incr + mss div 16) in
                     kcp\<lparr>kc_incr := incr,
                         kc_cwnd := (if (kc_cwnd kcp + 1) * mss \<le> incr
                                     then (incr + mss - 1) div (if mss > 0 then mss else 1) else kc_cwnd kcp)\<rparr>) in
        if kc_cwnd kcp > kc_rmt_wnd kcp
        then kcp\<lparr>kc_cwnd := kc_rmt_wnd kcp, kc_incr := kc_rmt_wnd kcp * mss\<rparr> else kcp
      else kcp)"

definition ikcp_input :: "byte list \<Rightarrow> ikcpcb \<Rightarrow> int \<times> ikcpcb" where
  "ikcp_input data kcp =
     (let prev_una = kc_snd_una kcp; kcp = kcp\<lparr>kc_ackedlen := 0\<rparr> in
      if length data < IKCP_OVERHEAD then (- 1, kcp)
      else case input_loop data (kcp, None) of (rc, kcp, acked) \<Rightarrow>
        if rc \<noteq> 0 then (rc, kcp)
        else
          let kcp = (case acked of None \<Rightarrow> kcp | Some (maxack, latest_ts) \<Rightarrow> ikcp_parse_fastack maxack latest_ts kcp);
              kcp = (if itimediff (kc_snd_una kcp) prev_una > 0 then grow_cwnd kcp else kcp) in
          (0, kcp))"

section \<open>Flushing\<close>

text \<open>
  The output under way: the datagrams given to the callback, the bytes gathered for the next one,
  and whether a write went past the buffer of \<open>3 * (mtu + 24)\<close> bytes.
\<close>

type_synonym kout = "byte list list \<times> byte list \<times> bool"

definition ikcp_output :: "byte list \<Rightarrow> byte list list \<Rightarrow> byte list list" where
  "ikcp_output data outs = (if data = [] then outs else outs @ [data])"

definition emit :: "u32 \<Rightarrow> byte list \<Rightarrow> kout \<Rightarrow> kout" where
  "emit mtu bytes = (\<lambda>(outs, buf, fault).
     let (outs, buf) = (if int (length buf) + int (length bytes) > sint mtu then (ikcp_output buf outs, []) else (outs, buf));
         buf = buf @ bytes in
     (outs, buf, fault \<or> length buf > unat ((mtu + of_nat IKCP_OVERHEAD) * 3)))"

definition ikcp_wnd_unused :: "ikcpcb \<Rightarrow> u32" where
  "ikcp_wnd_unused kcp = (if kc_nrcv_que kcp < kc_rcv_wnd kcp then kc_rcv_wnd kcp - kc_nrcv_que kcp else 0)"

definition control_seg :: "ikcpcb \<Rightarrow> kseg" where
  "control_seg kcp = (ikcp_segment_new 0 [])\<lparr>sg_conv := kc_conv kcp, sg_cmd := IKCP_CMD_ACK,
     sg_wnd := ikcp_wnd_unused kcp, sg_una := kc_rcv_nxt kcp\<rparr>"

fun flush_acks :: "u32 \<Rightarrow> (u32 \<times> u32) list \<Rightarrow> kseg \<Rightarrow> kout \<Rightarrow> kseg \<times> kout" where
  "flush_acks mtu [] seg out = (seg, out)"
| "flush_acks mtu ((sn, ts) # acks) seg out =
     (let seg = seg\<lparr>sg_sn := sn, sg_ts := ts\<rparr> in flush_acks mtu acks seg (emit mtu (ikcp_encode_seg seg) out))"

definition probe_window :: "ikcpcb \<Rightarrow> ikcpcb" where
  "probe_window kcp =
     (if kc_rmt_wnd kcp = 0 then
        if kc_probe_wait kcp = 0
        then kcp\<lparr>kc_probe_wait := IKCP_PROBE_INIT, kc_ts_probe := kc_current kcp + IKCP_PROBE_INIT\<rparr>
        else if itimediff (kc_current kcp) (kc_ts_probe kcp) \<ge> 0 then
          let wait = (if kc_probe_wait kcp < IKCP_PROBE_INIT then IKCP_PROBE_INIT else kc_probe_wait kcp);
              wait = wait + wait div 2;
              wait = (if wait > IKCP_PROBE_LIMIT then IKCP_PROBE_LIMIT else wait) in
          kcp\<lparr>kc_probe_wait := wait, kc_ts_probe := kc_current kcp + wait, kc_probe := kc_probe kcp OR IKCP_ASK_SEND\<rparr>
        else kcp
      else kcp\<lparr>kc_ts_probe := 0, kc_probe_wait := 0\<rparr>)"

definition flush_probe :: "ikcpcb \<Rightarrow> kseg \<Rightarrow> kout \<Rightarrow> kout" where
  "flush_probe kcp seg out =
     (let out = (if kc_probe kcp AND IKCP_ASK_SEND \<noteq> 0
                 then emit (kc_mtu kcp) (ikcp_encode_seg (seg\<lparr>sg_cmd := IKCP_CMD_WASK\<rparr>)) out else out) in
      if kc_probe kcp AND IKCP_ASK_TELL \<noteq> 0
      then emit (kc_mtu kcp) (ikcp_encode_seg (seg\<lparr>sg_cmd := IKCP_CMD_WINS\<rparr>)) out else out)"

definition send_window :: "ikcpcb \<Rightarrow> u32" where
  "send_window kcp =
     (let cwnd = imin (kc_snd_wnd kcp) (kc_rmt_wnd kcp) in
      if kc_nocwnd kcp = 0 then imin (kc_cwnd kcp) cwnd else cwnd)"

fun move_to_buf :: "u32 \<Rightarrow> u32 \<Rightarrow> kseg list \<Rightarrow> ikcpcb \<Rightarrow> ikcpcb" where
  "move_to_buf cwnd wnd [] kcp = kcp\<lparr>kc_snd_queue := []\<rparr>"
| "move_to_buf cwnd wnd (seg # segs) kcp =
     (if itimediff (kc_snd_nxt kcp) (kc_snd_una kcp + cwnd) < 0 then
        let newseg = seg\<lparr>sg_conv := kc_conv kcp, sg_cmd := IKCP_CMD_PUSH, sg_wnd := wnd, sg_ts := kc_current kcp,
              sg_sn := kc_snd_nxt kcp, sg_una := kc_rcv_nxt kcp, sg_resendts := kc_current kcp,
              sg_rto := of_int (kc_rx_rto kcp), sg_fastack := 0, sg_xmit := 0\<rparr> in
        move_to_buf cwnd wnd segs (kcp\<lparr>kc_snd_buf := kc_snd_buf kcp @ [newseg], kc_nsnd_que := kc_nsnd_que kcp - 1,
          kc_nsnd_buf := kc_nsnd_buf kcp + 1, kc_snd_nxt := kc_snd_nxt kcp + 1\<rparr>)
      else kcp\<lparr>kc_snd_queue := seg # segs\<rparr>)"

datatype resend = First | Timeout | Fast | Rest

definition half :: "int \<Rightarrow> int" where "half n = sgn n * (\<bar>n\<bar> div 2)"

definition resend_seg :: "ikcpcb \<Rightarrow> u32 \<Rightarrow> u32 \<Rightarrow> kseg \<Rightarrow> resend \<times> kseg" where
  "resend_seg kcp resent rtomin seg =
     (let current = kc_current kcp in
      if sg_xmit seg = 0 then
        (First, seg\<lparr>sg_xmit := sg_xmit seg + 1, sg_rto := of_int (kc_rx_rto kcp),
                    sg_resendts := current + of_int (kc_rx_rto kcp) + rtomin\<rparr>)
      else if itimediff current (sg_resendts seg) \<ge> 0 then
        let rto = (if kc_nodelay kcp = 0 then sg_rto seg + imax (sg_rto seg) (of_int (kc_rx_rto kcp))
                   else sg_rto seg + of_int (half (if kc_nodelay kcp < 2 then sint (sg_rto seg) else kc_rx_rto kcp))) in
        (Timeout, seg\<lparr>sg_xmit := sg_xmit seg + 1, sg_rto := rto, sg_resendts := current + rto\<rparr>)
      else if sg_fastack seg \<ge> resent \<and> (sint (sg_xmit seg) \<le> kc_fastlimit kcp \<or> kc_fastlimit kcp \<le> 0) then
        (Fast, seg\<lparr>sg_xmit := sg_xmit seg + 1, sg_fastack := 0, sg_resendts := current + sg_rto seg\<rparr>)
      else (Rest, seg))"

record flushing =
  fl_out :: kout
  fl_xmit :: u32
  fl_state :: u32
  fl_change :: u32
  fl_lost :: bool

fun flush_segments :: "ikcpcb \<Rightarrow> u32 \<Rightarrow> u32 \<Rightarrow> u32 \<Rightarrow> kseg list \<Rightarrow> flushing \<Rightarrow> kseg list \<times> flushing" where
  "flush_segments kcp wnd resent rtomin [] fl = ([], fl)"
| "flush_segments kcp wnd resent rtomin (seg # segs) fl =
     (case resend_seg kcp resent rtomin seg of (what, seg) \<Rightarrow>
       if what = Rest then
         (case flush_segments kcp wnd resent rtomin segs fl of (rest, fl) \<Rightarrow> (seg # rest, fl))
       else
         let seg = seg\<lparr>sg_ts := kc_current kcp, sg_wnd := wnd, sg_una := kc_rcv_nxt kcp\<rparr>;
             fl = fl\<lparr>fl_out := emit (kc_mtu kcp) (ikcp_encode_seg seg @ sg_data seg) (fl_out fl),
                     fl_xmit := (if what = Timeout then fl_xmit fl + 1 else fl_xmit fl),
                     fl_change := (if what = Fast then fl_change fl + 1 else fl_change fl),
                     fl_lost := (fl_lost fl \<or> what = Timeout),
                     fl_state := (if sg_xmit seg \<ge> kc_dead_link kcp then - 1 else fl_state fl)\<rparr> in
         (case flush_segments kcp wnd resent rtomin segs fl of (rest, fl) \<Rightarrow> (seg # rest, fl)))"

definition flush_congestion :: "u32 \<Rightarrow> u32 \<Rightarrow> flushing \<Rightarrow> ikcpcb \<Rightarrow> ikcpcb" where
  "flush_congestion prior_cwnd resent fl kcp =
     (let kcp = (if fl_change fl \<noteq> 0 then
                   let ssthresh = imax ((kc_snd_nxt kcp - kc_snd_una kcp) div 2) IKCP_THRESH_MIN in
                   kcp\<lparr>kc_ssthresh := ssthresh, kc_cwnd := ssthresh + resent, kc_incr := (ssthresh + resent) * kc_mss kcp\<rparr>
                 else kcp);
          kcp = (if fl_lost fl
                 then kcp\<lparr>kc_ssthresh := imax (prior_cwnd div 2) IKCP_THRESH_MIN, kc_cwnd := 1, kc_incr := kc_mss kcp\<rparr>
                 else kcp) in
      if kc_cwnd kcp < 1 then kcp\<lparr>kc_cwnd := 1, kc_incr := kc_mss kcp\<rparr> else kcp)"

definition ikcp_flush :: "ikcpcb \<Rightarrow> byte list list \<times> ikcpcb" where
  "ikcp_flush kcp =
     (if \<not> kc_updated kcp then ([], kcp)
      else
        let prior_cwnd = kc_cwnd kcp;
            wnd = ikcp_wnd_unused kcp;
            (seg, out) = flush_acks (kc_mtu kcp) (kc_acklist kcp) (control_seg kcp) ([], [], False);
            kcp = probe_window (kcp\<lparr>kc_acklist := []\<rparr>);
            out = flush_probe kcp seg out;
            kcp = kcp\<lparr>kc_probe := 0\<rparr>;
            kcp = move_to_buf (send_window kcp) wnd (kc_snd_queue kcp) kcp;
            resent = (if kc_fastresend kcp > 0 then of_int (kc_fastresend kcp) else 0xffffffff);
            rtomin = (if kc_nodelay kcp = 0 then of_int (kc_rx_rto kcp div 8) else 0);
            (segs, fl) = flush_segments kcp wnd resent rtomin (kc_snd_buf kcp)
              \<lparr>fl_out = out, fl_xmit = kc_xmit kcp, fl_state = kc_state kcp, fl_change = 0, fl_lost = False\<rparr>;
            (outs, buf, fault) = fl_out fl;
            kcp = kcp\<lparr>kc_snd_buf := segs, kc_xmit := fl_xmit fl, kc_state := fl_state fl, kc_fault := (kc_fault kcp \<or> fault)\<rparr> in
        (ikcp_output buf outs, flush_congestion prior_cwnd resent fl kcp))"

section \<open>Time\<close>

definition ikcp_update :: "u32 \<Rightarrow> ikcpcb \<Rightarrow> byte list list \<times> ikcpcb" where
  "ikcp_update current kcp =
     (let kcp = kcp\<lparr>kc_current := current\<rparr>;
          kcp = (if \<not> kc_updated kcp then kcp\<lparr>kc_updated := True, kc_ts_flush := current\<rparr> else kcp);
          slap = itimediff current (kc_ts_flush kcp);
          (slap, kcp) = (if slap \<ge> 10000 \<or> slap < - 10000 then (0, kcp\<lparr>kc_ts_flush := current\<rparr>) else (slap, kcp)) in
      if slap \<ge> 0 then
        let kcp = kcp\<lparr>kc_ts_flush := kc_ts_flush kcp + kc_interval kcp\<rparr>;
            kcp = (if itimediff current (kc_ts_flush kcp) \<ge> 0 then kcp\<lparr>kc_ts_flush := current + kc_interval kcp\<rparr> else kcp) in
        ikcp_flush kcp
      else ([], kcp))"

text \<open>The time until the next packet is due; \<open>None\<close> when one is due already.\<close>

fun next_packet :: "u32 \<Rightarrow> kseg list \<Rightarrow> int \<Rightarrow> int option" where
  "next_packet current [] tm_packet = Some tm_packet"
| "next_packet current (seg # segs) tm_packet =
     (let diff = itimediff (sg_resendts seg) current in
      if diff \<le> 0 then None else next_packet current segs (if diff < tm_packet then diff else tm_packet))"

definition ikcp_check :: "u32 \<Rightarrow> ikcpcb \<Rightarrow> u32" where
  "ikcp_check current kcp =
     (if \<not> kc_updated kcp then current
      else
        let diff = itimediff current (kc_ts_flush kcp);
            ts_flush = (if diff \<ge> 10000 \<or> diff < - 10000 then current else kc_ts_flush kcp) in
        if itimediff current ts_flush \<ge> 0 then current
        else
          let tm_flush = itimediff ts_flush current in
          case next_packet current (kc_snd_buf kcp) 0x7fffffff of
            None \<Rightarrow> current
          | Some tm_packet \<Rightarrow>
              let minimal = of_int (if tm_packet < tm_flush then tm_packet else tm_flush);
                  minimal = (if minimal \<ge> kc_interval kcp then kc_interval kcp else minimal) in
              current + minimal)"

section \<open>Settings\<close>

definition ikcp_setmtu :: "bool \<Rightarrow> int \<Rightarrow> ikcpcb \<Rightarrow> int \<times> ikcpcb" where
  "ikcp_setmtu malloc mtu kcp =
     (if mtu < 50 \<or> mtu < int IKCP_OVERHEAD then (- 1, kcp)
      else if \<not> malloc then (- 2, kcp)
      else (0, kcp\<lparr>kc_mtu := of_int mtu, kc_mss := of_int mtu - of_nat IKCP_OVERHEAD\<rparr>))"

definition clamp_interval :: "int \<Rightarrow> u32" where
  "clamp_interval interval = of_int (if interval > 5000 then 5000 else if interval < 10 then 10 else interval)"

definition ikcp_interval :: "int \<Rightarrow> ikcpcb \<Rightarrow> int \<times> ikcpcb" where
  "ikcp_interval interval kcp = (0, kcp\<lparr>kc_interval := clamp_interval interval\<rparr>)"

definition ikcp_nodelay :: "int \<Rightarrow> int \<Rightarrow> int \<Rightarrow> int \<Rightarrow> ikcpcb \<Rightarrow> int \<times> ikcpcb" where
  "ikcp_nodelay nodelay interval resend nc kcp =
     (let kcp = (if nodelay \<ge> 0
                 then kcp\<lparr>kc_nodelay := of_int nodelay,
                        kc_rx_minrto := (if nodelay \<noteq> 0 then IKCP_RTO_NDL else IKCP_RTO_MIN)\<rparr> else kcp);
          kcp = (if interval \<ge> 0 then kcp\<lparr>kc_interval := clamp_interval interval\<rparr> else kcp);
          kcp = (if resend \<ge> 0 then kcp\<lparr>kc_fastresend := resend\<rparr> else kcp);
          kcp = (if nc \<ge> 0 then kcp\<lparr>kc_nocwnd := nc\<rparr> else kcp) in
      (0, kcp))"

definition ikcp_wndsize :: "int \<Rightarrow> int \<Rightarrow> ikcpcb \<Rightarrow> int \<times> ikcpcb" where
  "ikcp_wndsize sndwnd rcvwnd kcp =
     (let kcp = (if sndwnd > 0 then kcp\<lparr>kc_snd_wnd := of_int sndwnd\<rparr> else kcp);
          kcp = (if rcvwnd > 0 then kcp\<lparr>kc_rcv_wnd := imax (of_int rcvwnd) IKCP_WND_RCV\<rparr> else kcp) in
      (0, kcp))"

definition ikcp_waitsnd :: "ikcpcb \<Rightarrow> u32" where
  "ikcp_waitsnd kcp = kc_nsnd_buf kcp + kc_nsnd_que kcp"

definition ikcp_getconv :: "byte list \<Rightarrow> u32" where
  "ikcp_getconv data = of_le (fld 0 4 data)"

end
