(* ===== verification/Kcp_Receiver.thy ===== *)
theory Kcp_Receiver
  imports Kcp
begin

text \<open>
  The receiving side of KCP: whatever segments of a stream of fragments arrive, in whatever order and
  number, the receive queue holds the next fragments of the stream and the receive buffer later
  ones inside the window.
\<close>

section \<open>Sequence numbers\<close>

lemma sint_of_int_small:
  assumes "- (2 ^ 31) \<le> k" "k < 2 ^ 31"
  shows "sint (of_int k :: u32) = k"
  using assms signed_take_bit_int_eq_self [of 31 k] by (simp add: signed_of_int)

lemma itimediff_unat:
  assumes "\<bar>int (unat a) - int (unat b)\<bar> < 2 ^ 31"
  shows "itimediff a b = int (unat a) - int (unat b)"
proof -
  have "a - b = of_int (int (unat a) - int (unat b))" by simp
  then show ?thesis using assms sint_of_int_small [of "int (unat a) - int (unat b)"]
    by (simp add: itimediff_def abs_less_iff)
qed

lemma unat_of_nat_seq: "n \<le> 2 ^ 31 \<Longrightarrow> unat (of_nat n :: u32) = n"
  by (rule unat_of_nat_word) simp

lemma seq_near: "a < 2 ^ 31 \<Longrightarrow> b < 2 ^ 31 \<Longrightarrow> \<bar>int a - int b\<bar> < 2 ^ 31"
  by simp

lemma unat_seq_add: "unat a \<le> 2 ^ 30 \<Longrightarrow> unat b \<le> 2 ^ 30 \<Longrightarrow> unat (a + b :: u32) = unat a + unat b"
  by (simp add: unat_word_ariths)

section \<open>The stream of fragments\<close>

type_synonym fragment = "u32 \<times> byte list"

definition frag :: "kseg \<Rightarrow> fragment" where "frag seg = (sg_frg seg, sg_data seg)"

definition idx :: "kseg \<Rightarrow> nat" where "idx seg = unat (sg_sn seg)"

lemma itimediff_idx: "\<bar>int (idx a) - int (idx b)\<bar> < 2 ^ 31 \<Longrightarrow> itimediff (sg_sn a) (sg_sn b) = int (idx a) - int (idx b)"
  unfolding idx_def by (rule itimediff_unat)

lemma itimediff_idx_at:
  "unat b = k \<Longrightarrow> \<bar>int (idx a) - int k\<bar> < 2 ^ 31 \<Longrightarrow> itimediff (sg_sn a) b = int (idx a) - int k"
  unfolding idx_def using itimediff_unat by blast

definition piece :: "fragment list \<Rightarrow> kseg \<Rightarrow> bool" where
  "piece F seg \<longleftrightarrow> idx seg < length F \<and> F ! idx seg = frag seg"

lemma piece_append: "piece F seg \<Longrightarrow> piece (F @ G) seg"
  by (simp add: piece_def nth_append)

section \<open>The state of a receiver\<close>

text \<open>The fields a receiver uses; the operations of the sender leave them alone.\<close>

definition rview :: "ikcpcb \<Rightarrow> u32 \<times> u32 \<times> u32 \<times> u32 \<times> kseg list \<times> kseg list" where
  "rview kcp = (kc_rcv_nxt kcp, kc_rcv_wnd kcp, kc_nrcv_buf kcp, kc_nrcv_que kcp, kc_rcv_queue kcp, kc_rcv_buf kcp)"

definition rcv_count :: "nat \<Rightarrow> ikcpcb \<Rightarrow> nat" where
  "rcv_count n kcp = n + length (kc_rcv_queue kcp)"

text \<open>
  \<open>n\<close> fragments of \<open>F\<close> have been handed to the application; \<open>buf\<close> stands for the receive buffer.
\<close>

definition recv_core :: "fragment list \<Rightarrow> nat \<Rightarrow> ikcpcb \<Rightarrow> kseg list \<Rightarrow> bool" where
  "recv_core F n kcp buf \<longleftrightarrow>
     rcv_count n kcp \<le> length F \<and> map frag (kc_rcv_queue kcp) = take (length (kc_rcv_queue kcp)) (drop n F) \<and>
     kc_rcv_nxt kcp = of_nat (rcv_count n kcp) \<and> kc_nrcv_que kcp = of_nat (length (kc_rcv_queue kcp)) \<and>
     length (kc_rcv_queue kcp) \<le> unat (kc_rcv_wnd kcp) \<and> 0 < unat (kc_rcv_wnd kcp) \<and> unat (kc_rcv_wnd kcp) \<le> 2 ^ 29 \<and>
     kc_nrcv_buf kcp = of_nat (length buf) \<and> sorted_wrt (<) (map idx buf) \<and>
     (\<forall>seg \<in> set buf. piece F seg \<and> rcv_count n kcp \<le> idx seg \<and> idx seg < rcv_count n kcp + unat (kc_rcv_wnd kcp))"

definition settled :: "ikcpcb \<Rightarrow> bool" where
  "settled kcp \<longleftrightarrow> (case kc_rcv_buf kcp of [] \<Rightarrow> True
     | seg # _ \<Rightarrow> sg_sn seg \<noteq> kc_rcv_nxt kcp \<or> \<not> kc_nrcv_que kcp < kc_rcv_wnd kcp)"

definition recv_ok :: "fragment list \<Rightarrow> nat \<Rightarrow> ikcpcb \<Rightarrow> bool" where
  "recv_ok F n kcp \<longleftrightarrow> recv_core F n kcp (kc_rcv_buf kcp) \<and> settled kcp"

text \<open>The numbers of the fragments that have arrived.\<close>

definition arrived :: "nat \<Rightarrow> ikcpcb \<Rightarrow> nat set" where
  "arrived n kcp = {..<rcv_count n kcp} \<union> idx ` set (kc_rcv_buf kcp)"

lemma rview_cong:
  assumes "rview a = rview b"
  shows "recv_ok F n a = recv_ok F n b" "arrived n a = arrived n b" "rcv_count n a = rcv_count n b"
  using assms
  by (simp_all add: recv_ok_def recv_core_def settled_def arrived_def rcv_count_def rview_def split: list.split)

lemma rview_fields:
  "rview (kcp\<lparr>kc_rmt_wnd := a\<rparr>) = rview kcp" "rview (kcp\<lparr>kc_ackedlen := b\<rparr>) = rview kcp"
  "rview (kcp\<lparr>kc_probe := b\<rparr>) = rview kcp" "rview (kcp\<lparr>kc_acklist := l\<rparr>) = rview kcp"
  "rview (kcp\<lparr>kc_ackblock := k\<rparr>) = rview kcp" "rview (kcp\<lparr>kc_snd_buf := segs\<rparr>) = rview kcp"
  "rview (kcp\<lparr>kc_snd_una := b\<rparr>) = rview kcp" "rview (kcp\<lparr>kc_nsnd_buf := b\<rparr>) = rview kcp"
  "rview (kcp\<lparr>kc_snd_queue := segs\<rparr>) = rview kcp" "rview (kcp\<lparr>kc_nsnd_que := b\<rparr>) = rview kcp"
  "rview (kcp\<lparr>kc_current := b\<rparr>) = rview kcp" "rview (kcp\<lparr>kc_updated := u\<rparr>) = rview kcp"
  "rview (kcp\<lparr>kc_ts_flush := b\<rparr>) = rview kcp" "rview (kcp\<lparr>kc_cwnd := b\<rparr>) = rview kcp"
  "rview (kcp\<lparr>kc_incr := b\<rparr>) = rview kcp" "rview (kcp\<lparr>kc_ssthresh := b\<rparr>) = rview kcp"
  "rview (kcp\<lparr>kc_xmit := b\<rparr>) = rview kcp" "rview (kcp\<lparr>kc_state := b\<rparr>) = rview kcp"
  "rview (kcp\<lparr>kc_fault := u\<rparr>) = rview kcp" "rview (kcp\<lparr>kc_snd_nxt := b\<rparr>) = rview kcp"
  "rview (kcp\<lparr>kc_rx_srtt := i\<rparr>) = rview kcp" "rview (kcp\<lparr>kc_rx_rttval := i\<rparr>) = rview kcp"
  "rview (kcp\<lparr>kc_rx_rto := i\<rparr>) = rview kcp" "rview (kcp\<lparr>kc_ts_probe := b\<rparr>) = rview kcp"
  "rview (kcp\<lparr>kc_probe_wait := b\<rparr>) = rview kcp"
  by (simp_all add: rview_def)

lemma recv_core_append: "recv_core F n kcp buf \<Longrightarrow> recv_core (F @ G) n kcp buf"
  by (auto simp: recv_core_def piece_append rcv_count_def)

lemma recv_ok_append: "recv_ok F n kcp \<Longrightarrow> recv_ok (F @ G) n kcp"
  by (simp add: recv_ok_def recv_core_append)

lemma arrived_bound: "recv_ok F n kcp \<Longrightarrow> j \<in> arrived n kcp \<Longrightarrow> j < length F"
  by (auto simp: recv_ok_def recv_core_def arrived_def piece_def)

section \<open>Moving to the queue\<close>

lemma move_available_step:
  assumes core: "recv_core F n kcp (seg # segs)" and F: "length F \<le> 2 ^ 30"
    and m: "sg_sn seg = kc_rcv_nxt kcp" "kc_nrcv_que kcp < kc_rcv_wnd kcp"
  shows "recv_core F n (kcp\<lparr>kc_nrcv_buf := kc_nrcv_buf kcp - 1, kc_rcv_queue := kc_rcv_queue kcp @ [seg],
      kc_nrcv_que := kc_nrcv_que kcp + 1, kc_rcv_nxt := kc_rcv_nxt kcp + 1\<rparr>) segs"
proof -
  let ?q = "kc_rcv_queue kcp" and ?N = "rcv_count n kcp"
  have bounds: "?N \<le> 2 ^ 30" "length ?q \<le> 2 ^ 30" using core F by (auto simp: recv_core_def)
  have N: "idx seg = ?N" using core m(1) bounds by (simp add: recv_core_def idx_def unat_of_nat_seq)
  have p: "piece F seg" using core by (simp add: recv_core_def)
  have room: "length ?q < unat (kc_rcv_wnd kcp)"
    using core m(2) bounds by (simp add: recv_core_def word_less_nat_alt unat_of_nat_seq)
  have "n + length ?q < length F" using p N by (simp add: piece_def rcv_count_def)
  then have nth: "drop n F ! length ?q = frag seg" "length ?q < length F - n"
    using p N by (simp_all add: piece_def rcv_count_def)
  have later: "\<forall>s \<in> set segs. ?N < idx s" using core N by (simp add: recv_core_def)
  show ?thesis using core nth later room N p
    by (auto simp: recv_core_def rcv_count_def take_Suc_conv_app_nth piece_def)
qed

lemma move_available_ok:
  assumes "recv_core F n kcp segs" "length F \<le> 2 ^ 30"
  shows "recv_ok F n (move_available segs kcp) \<and>
    arrived n (move_available segs kcp) = {..<rcv_count n kcp} \<union> idx ` set segs \<and>
    rcv_count n kcp \<le> rcv_count n (move_available segs kcp)"
  using assms(1)
proof (induction segs arbitrary: kcp)
  case Nil
  then show ?case by (simp add: recv_ok_def recv_core_def settled_def arrived_def rcv_count_def)
next
  case (Cons seg segs)
  show ?case
  proof (cases "sg_sn seg = kc_rcv_nxt kcp \<and> kc_nrcv_que kcp < kc_rcv_wnd kcp")
    case True
    have "rcv_count n kcp \<le> length F" using Cons.prems by (simp add: recv_core_def)
    then have N: "idx seg = rcv_count n kcp" using Cons.prems True assms(2)
      by (simp add: recv_core_def idx_def unat_of_nat_seq)
    let ?k = "kcp\<lparr>kc_nrcv_buf := kc_nrcv_buf kcp - 1, kc_rcv_queue := kc_rcv_queue kcp @ [seg],
      kc_nrcv_que := kc_nrcv_que kcp + 1, kc_rcv_nxt := kc_rcv_nxt kcp + 1\<rparr>"
    have "move_available (seg # segs) kcp = move_available segs ?k" using True by (simp only: move_available.simps if_True simp_thms)
    moreover have "rcv_count n ?k = Suc (rcv_count n kcp)" by (simp add: rcv_count_def)
    moreover have "{..<Suc (rcv_count n kcp)} \<union> idx ` set segs = {..<rcv_count n kcp} \<union> idx ` set (seg # segs)"
      using N by (simp add: lessThan_Suc)
    ultimately show ?thesis
      using Cons.IH [OF move_available_step [OF Cons.prems assms(2)]] True by (metis Suc_leD)
  next
    case False
    then have "move_available (seg # segs) kcp = kcp\<lparr>kc_rcv_buf := seg # segs\<rparr>"
      by (simp only: move_available.simps if_False)
    then show ?thesis using Cons.prems False
      by (auto simp: recv_ok_def recv_core_def settled_def arrived_def rcv_count_def)
  qed
qed

section \<open>Arrivals\<close>

lemma insert_back_ok:
  assumes "\<forall>s \<in> set segs. \<bar>int (idx new) - int (idx s)\<bar> < 2 ^ 31" "sorted_wrt (>) (map idx segs)"
  shows "(case insert_back new segs of
      None \<Rightarrow> idx new \<in> idx ` set segs
    | Some segs' \<Rightarrow> set segs' = insert new (set segs) \<and> length segs' = Suc (length segs) \<and> sorted_wrt (>) (map idx segs'))"
  using assms
proof (induction segs)
  case Nil
  then show ?case by simp
next
  case (Cons s segs)
  have d: "itimediff (sg_sn new) (sg_sn s) = int (idx new) - int (idx s)"
    using Cons.prems by (simp add: itimediff_idx)
  have ih: "case insert_back new segs of
      None \<Rightarrow> idx new \<in> idx ` set segs
    | Some segs' \<Rightarrow> set segs' = insert new (set segs) \<and> length segs' = Suc (length segs) \<and> sorted_wrt (>) (map idx segs')"
    using Cons by simp
  consider "sg_sn s = sg_sn new" | "sg_sn s \<noteq> sg_sn new" "idx s < idx new" | "idx new < idx s"
    by (metis idx_def linorder_neqE_nat word_unat_eq_iff)
  then show ?case
  proof cases
    case 1
    then show ?thesis by (simp add: image_iff idx_def)
  next
    case 2
    then show ?thesis using Cons.prems d by (auto simp: sorted_wrt_map)
  next
    case 3
    then have "sg_sn s \<noteq> sg_sn new" by (auto simp: idx_def)
    then show ?thesis using 3 Cons.prems d ih by (auto split: option.splits)
  qed
qed

lemma sorted_wrt_rev_idx: "sorted_wrt (>) (map idx segs) \<Longrightarrow> sorted_wrt (<) (map idx (rev segs))"
  by (simp add: rev_map [symmetric] sorted_wrt_rev)

lemma parse_data_ok:
  assumes ok: "recv_ok F n kcp" and F: "length F \<le> 2 ^ 30" and p: "piece F seg"
  shows "recv_ok F n (ikcp_parse_data seg kcp) \<and> arrived n kcp \<subseteq> arrived n (ikcp_parse_data seg kcp) \<and>
    rcv_count n kcp \<le> rcv_count n (ikcp_parse_data seg kcp) \<and>
    (idx seg < rcv_count n kcp + unat (kc_rcv_wnd kcp) \<longrightarrow> idx seg \<in> arrived n (ikcp_parse_data seg kcp))"
proof -
  let ?N = "rcv_count n kcp" and ?W = "unat (kc_rcv_wnd kcp)"
  have core: "recv_core F n kcp (kc_rcv_buf kcp)" using ok by (simp add: recv_ok_def)
  have b: "?N \<le> 2 ^ 30" "?W \<le> 2 ^ 29" "idx seg < 2 ^ 30" "unat (kc_rcv_nxt kcp) = ?N"
    using core F p by (auto simp: recv_core_def piece_def unat_of_nat_seq)
  have w: "unat (kc_rcv_nxt kcp + kc_rcv_wnd kcp) = ?N + ?W"
    using b unat_seq_add [of "kc_rcv_nxt kcp" "kc_rcv_wnd kcp"] by simp
  have d1: "itimediff (sg_sn seg) (kc_rcv_nxt kcp + kc_rcv_wnd kcp) = int (idx seg) - int (?N + ?W)"
    using b by (intro itimediff_idx_at [OF w] seq_near) simp_all
  have d2: "itimediff (sg_sn seg) (kc_rcv_nxt kcp) = int (idx seg) - int ?N"
    using b by (intro itimediff_idx_at [OF b(4)] seq_near) simp_all
  have d: "0 \<le> itimediff (sg_sn seg) (kc_rcv_nxt kcp + kc_rcv_wnd kcp) \<longleftrightarrow> ?N + ?W \<le> idx seg"
    "itimediff (sg_sn seg) (kc_rcv_nxt kcp) < 0 \<longleftrightarrow> idx seg < ?N"
    unfolding d1 d2 by linarith+
  show ?thesis
  proof (cases "?N \<le> idx seg \<and> idx seg < ?N + ?W")
    case False
    then have "ikcp_parse_data seg kcp = kcp" using d by (auto simp: ikcp_parse_data_def)
    then show ?thesis using ok False by (auto simp: arrived_def)
  next
    case True
    let ?buf = "kc_rcv_buf kcp"
    have "\<forall>s \<in> set (rev ?buf). \<bar>int (idx seg) - int (idx s)\<bar> < 2 ^ 31" using core b by (auto simp: recv_core_def)
    moreover have "sorted_wrt (>) (map idx (rev ?buf))"
      using core by (simp add: recv_core_def rev_map [symmetric] sorted_wrt_rev)
    ultimately have ins: "case insert_back seg (rev ?buf) of
        None \<Rightarrow> idx seg \<in> idx ` set (rev ?buf)
      | Some segs \<Rightarrow> set segs = insert seg (set (rev ?buf)) \<and> length segs = Suc (length (rev ?buf)) \<and>
          sorted_wrt (>) (map idx segs)"
      by (rule insert_back_ok)
    show ?thesis
    proof (cases "insert_back seg (rev ?buf)")
      case None
      then have "ikcp_parse_data seg kcp = move_available ?buf kcp" using d True by (simp add: ikcp_parse_data_def)
      then show ?thesis using move_available_ok [OF core F] ins None by (simp add: arrived_def)
    next
      case (Some segs)
      let ?k = "kcp\<lparr>kc_rcv_buf := rev segs, kc_nrcv_buf := kc_nrcv_buf kcp + 1\<rparr>"
      have "sorted_wrt (<) (map idx (rev segs))" using ins Some by (simp add: sorted_wrt_rev_idx)
      then have "recv_core F n ?k (rev segs)" using core ins Some True p by (auto simp: recv_core_def rcv_count_def)
      moreover have "ikcp_parse_data seg kcp = move_available (rev segs) ?k"
        using d True Some by (simp add: ikcp_parse_data_def)
      moreover have "rcv_count n ?k = ?N" by (simp add: rcv_count_def)
      ultimately show ?thesis using move_available_ok [OF _ F, of n ?k "rev segs"] ins Some by (auto simp: arrived_def)
    qed
  qed
qed

section \<open>Messages\<close>

text \<open>A message is cut into fragments that count down to 0; \<open>join\<close> puts them together again.\<close>

fun chop :: "nat \<Rightarrow> nat \<Rightarrow> byte list \<Rightarrow> fragment list" where
  "chop 0 mss data = []"
| "chop (Suc n) mss data = (of_nat n, take mss data) # chop n mss (drop mss data)"

definition frag_count :: "nat \<Rightarrow> byte list \<Rightarrow> nat" where
  "frag_count mss data = (if length data \<le> mss then 1 else (length data + mss - 1) div mss)"

definition split_message :: "nat \<Rightarrow> byte list \<Rightarrow> fragment list" where
  "split_message mss data = chop (frag_count mss data) mss data"

fun join :: "fragment list \<Rightarrow> byte list \<times> fragment list" where
  "join [] = ([], [])"
| "join ((frg, data) # F) = (if frg = 0 then (data, F) else case join F of (tail, rest) \<Rightarrow> (data @ tail, rest))"

lemma length_chop [simp]: "length (chop n mss data) = n"
  by (induction n arbitrary: data) simp_all

lemma frag_count_covers:
  assumes "0 < mss"
  shows "length data \<le> frag_count mss data * mss"
proof -
  let ?a = "length data + mss - 1"
  have "?a mod mss < mss" "?a div mss * mss + ?a mod mss = ?a" using assms by simp_all
  then have "length data \<le> ?a div mss * mss" by linarith
  then show ?thesis by (simp add: frag_count_def)
qed

lemma frag_count_pos:
  assumes "0 < mss"
  shows "0 < frag_count mss data"
proof (cases "length data \<le> mss")
  case False
  then have "mss \<le> length data + mss - 1" by linarith
  then show ?thesis using assms by (simp add: frag_count_def div_greater_zero_iff)
qed (simp add: frag_count_def)

lemma length_split [simp]: "length (split_message mss data) = frag_count mss data"
  by (simp add: split_message_def)

lemma join_chop:
  "0 < n \<Longrightarrow> n \<le> 2 ^ 31 \<Longrightarrow> length data \<le> n * mss \<Longrightarrow> join (chop n mss data @ F) = (data, F)"
proof (induction n arbitrary: data)
  case 0
  then show ?case by simp
next
  case (Suc n)
  show ?case
  proof (cases "n = 0")
    case True
    then show ?thesis using Suc.prems by simp
  next
    case False
    have "unat (of_nat n :: u32) = n" using Suc.prems by (intro unat_of_nat_seq) simp
    then have "(of_nat n :: u32) \<noteq> 0" using False by (metis unat_0)
    moreover have "join (chop n mss (drop mss data) @ F) = (drop mss data, F)"
      by (rule Suc.IH) (use Suc.prems False in \<open>simp_all add: le_diff_conv\<close>)
    ultimately show ?thesis by simp
  qed
qed

lemma take_message_join: "take_message segs = (data, rest) \<Longrightarrow> join (map frag segs) = (data, map frag rest)"
  by (induction segs arbitrary: data rest) (auto simp: frag_def split: if_splits prod.splits)

lemma take_message_prefix: "take_message segs = (data, rest) \<Longrightarrow> \<exists>taken. segs = taken @ rest"
proof (induction segs arbitrary: data rest)
  case Nil
  then show ?case by simp
next
  case (Cons seg segs)
  then show ?case by (fastforce split: if_splits prod.splits intro: exI [of _ "[seg]"] exI [of _ "seg # _"])
qed

lemma take_message_suffix: "take_message segs = (data, rest) \<Longrightarrow> rest = drop (length segs - length rest) segs"
  using take_message_prefix by fastforce

section \<open>Handing a message to the application\<close>

lemma queue_head:
  assumes ok: "recv_ok F n kcp" and F: "length F \<le> 2 ^ 30" "drop n F = split_message mss m @ rest"
    and mss: "0 < mss" and peek: "kc_rcv_queue kcp \<noteq> []" "ikcp_peeksize kcp \<ge> 0"
  shows "frag_count mss m \<le> length (kc_rcv_queue kcp)"
proof -
  let ?q = "kc_rcv_queue kcp" and ?c = "frag_count mss m"
  obtain c where c: "?c = Suc c" using frag_count_pos [OF mss, of m] by (cases ?c) auto
  obtain seg segs where q: "?q = seg # segs" using peek(1) by (cases ?q) auto
  have len: "length ?q \<le> 2 ^ 30" "?c \<le> 2 ^ 30" and core: "recv_core F n kcp (kc_rcv_buf kcp)"
    using ok F(1) arg_cong [OF F(2), of length] by (auto simp: recv_ok_def recv_core_def rcv_count_def)
  have "map frag ?q = take (length ?q) (chop ?c mss m @ rest)"
    using core F(2) by (simp add: recv_core_def split_message_def)
  then have frg: "sg_frg seg = of_nat c" using q c by (simp add: frag_def)
  show ?thesis
  proof (cases "c = 0")
    case True
    then show ?thesis using q c by simp
  next
    case False
    moreover have "unat (of_nat c :: u32) = c" using len c by (intro unat_of_nat_seq) simp
    ultimately have "sg_frg seg \<noteq> 0" using frg by (metis unat_0)
    then have "\<not> of_nat (length ?q) < (of_nat c + 1 :: u32)"
      using peek(2) q frg core by (auto simp: ikcp_peeksize_def recv_core_def split: if_splits)
    moreover have "unat (of_nat (length ?q) :: u32) = length ?q" using len by (intro unat_of_nat_seq) simp
    moreover have "unat (of_nat c + 1 :: u32) = ?c" using len c unat_of_nat_seq [of "Suc c"] by (simp add: add.commute)
    ultimately show ?thesis by (simp add: word_less_nat_alt)
  qed
qed

lemma recv_core_take:
  assumes "recv_core F n kcp buf" "c \<le> length (kc_rcv_queue kcp)"
  shows "recv_core F (n + c) (kcp\<lparr>kc_rcv_queue := drop c (kc_rcv_queue kcp),
      kc_nrcv_que := kc_nrcv_que kcp - of_nat c\<rparr>) buf"
  using assms by (auto simp: recv_core_def rcv_count_def drop_map [symmetric] take_drop [symmetric] drop_take
      add.commute of_nat_diff)

lemma recv_message:
  assumes ok: "recv_ok F n kcp" and F: "length F \<le> 2 ^ 30" "drop n F = split_message mss m @ rest" and mss: "0 < mss"
    and r: "ikcp_recv len kcp = (r, data, kcp')" "r \<ge> 0"
  defines "n' \<equiv> (if len < 0 then n else n + frag_count mss m)"
  shows "data = m \<and> recv_ok F n' kcp' \<and> arrived n kcp \<subseteq> arrived n' kcp' \<and> rcv_count n kcp \<le> rcv_count n' kcp'"
proof -
  let ?q = "kc_rcv_queue kcp" and ?c = "frag_count mss m"
  have q: "?q \<noteq> []" "ikcp_peeksize kcp \<ge> 0" using r by (auto simp: ikcp_recv_def split: if_splits)
  obtain d t where t: "take_message ?q = (d, t)" by force
  let ?k = "if len < 0 then kcp else kcp\<lparr>kc_rcv_queue := t, kc_nrcv_que := kc_nrcv_que kcp - of_nat (length ?q - length t)\<rparr>"
  let ?k1 = "move_available (kc_rcv_buf ?k) ?k"
  have res: "data = d" "rview kcp' = rview ?k1"
    using r q t by (auto simp: ikcp_recv_def Let_def rview_fields split: if_splits)
  have core: "recv_core F n kcp (kc_rcv_buf kcp)" using ok by (simp add: recv_ok_def)
  have le: "?c \<le> length ?q" by (rule queue_head [OF ok F mss q])
  have c: "?c \<le> 2 ^ 30" using F(1) arg_cong [OF F(2), of length] by (simp only: length_append length_drop length_split)
  have "map frag ?q = split_message mss m @ take (length ?q - ?c) rest"
    using core F(2) le by (simp add: recv_core_def)
  note split = this
  have "join (split_message mss m @ X) = (m, X)" for X
    unfolding split_message_def
    by (rule join_chop) (use c frag_count_pos [OF mss] frag_count_covers [OF mss] in auto)
  then have dm: "d = m" "map frag t = take (length ?q - ?c) rest"
    using take_message_join [OF t] split by auto
  then have "map frag ?q = split_message mss m @ map frag t" using split by simp
  then have "length t = length ?q - ?c" by (metis length_append length_map length_split add_diff_cancel_left')
  then have lt: "length ?q - length t = ?c" using le by simp
  have kc: "recv_core F n' ?k (kc_rcv_buf ?k)"
    using recv_core_take [OF core le] core take_message_suffix [OF t] lt by (simp add: n'_def)
  have same: "rcv_count n' ?k = rcv_count n kcp" "kc_rcv_buf ?k = kc_rcv_buf kcp"
    using lt le \<open>length t = length ?q - ?c\<close> by (simp_all add: n'_def rcv_count_def)
  show ?thesis using move_available_ok [OF kc F(1)] same res dm(1) rview_cong [OF res(2)]
    by (simp add: arrived_def)
qed

lemma recv_nothing:
  assumes "recv_ok F n kcp" "ikcp_recv len kcp = (r, data, kcp')" "r < 0 \<or> n = length F"
  shows "kcp' = kcp \<and> data = [] \<and> r < 0"
  using assms by (auto simp: ikcp_recv_def recv_ok_def recv_core_def rcv_count_def Let_def split: if_splits prod.splits)

end
