(* ===== verification/Kcp_Wire.thy ===== *)
theory Kcp_Wire
  imports Kcp_Receiver
begin

text \<open>
  KCP datagrams: a datagram is a sequence of segments, and reading one does what its segments do one
  after the other. Gathering segments for output makes such datagrams, none larger than the MTU.
\<close>

section \<open>Segments on the wire\<close>

definition wire_seg :: "kseg \<Rightarrow> byte list" where
  "wire_seg seg = ikcp_encode_seg seg @ sg_data seg"

text \<open>What the peer reads of a segment: the window is cut to 16 bits.\<close>

definition wire_read :: "kseg \<Rightarrow> kseg" where
  "wire_read seg =
     \<lparr>sg_conv = sg_conv seg, sg_cmd = sg_cmd seg, sg_frg = sg_frg seg,
      sg_wnd = of_le (to_le 2 (ucast (sg_wnd seg) :: u16)), sg_ts = sg_ts seg, sg_sn = sg_sn seg,
      sg_una = sg_una seg, sg_resendts = 0, sg_rto = 0, sg_fastack = 0, sg_xmit = 0, sg_data = sg_data seg\<rparr>"

definition sendable :: "u32 \<Rightarrow> kseg \<Rightarrow> bool" where
  "sendable conv seg \<longleftrightarrow> sg_conv seg = conv \<and> unat (sg_frg seg) < 256 \<and> length (sg_data seg) < 2 ^ 31 \<and>
     sg_cmd seg \<in> {IKCP_CMD_PUSH, IKCP_CMD_ACK, IKCP_CMD_WASK, IKCP_CMD_WINS}"

lemma length_encode_seg [simp]: "length (ikcp_encode_seg seg) = IKCP_OVERHEAD"
  by (simp add: ikcp_encode_seg_def IKCP_OVERHEAD_def del: to_le_numeral)

lemma wire_seg_nonempty: "wire_seg seg \<noteq> []"
  by (metis append_is_Nil_conv length_encode_seg IKCP_OVERHEAD_def list.size(3) wire_seg_def zero_neq_numeral)

lemma byte_field: "unat w < 256 \<Longrightarrow> of_le (to_le 1 (ucast w :: byte)) = (w :: u32)"
proof -
  assume a: "unat w < 256"
  have "unat (take_bit 8 w) = unat w" using a by (simp add: unsigned_take_bit_eq take_bit_nat_def)
  then have "take_bit 8 w = w" by (simp only: word_unat_eq_iff)
  moreover have "(ucast (ucast w :: byte) :: u32) = take_bit 8 w"
    by (rule bit_word_eqI) (auto simp: bit_ucast_iff bit_take_bit_iff dest: bit_imp_le_length)
  ultimately have "(ucast (ucast w :: byte) :: u32) = w" by simp
  then show ?thesis by (simp add: One_nat_def)
qed

lemma decode_encode:
  assumes "sendable conv seg"
  shows "decode_seg (ikcp_encode_seg seg @ r) = ((wire_read seg)\<lparr>sg_data := []\<rparr>, seg_len seg)"
proof -
  have "unat (sg_cmd seg) < 256" using assms by (auto simp: sendable_def ikcp_cmds)
  then show ?thesis using assms
    by (simp add: decode_seg_def ikcp_encode_seg_def codec_simps le32.dec_enc byte_field wire_read_def
        sendable_def del: to_le_numeral to_le.simps One_nat_def)
qed

lemma seg_len_small: "length (sg_data seg) < 2 ^ 31 \<Longrightarrow> unat (seg_len seg) = length (sg_data seg) \<and> 0 \<le> sint (seg_len seg)"
proof -
  assume "length (sg_data seg) < 2 ^ 31"
  then have l: "int (length (sg_data seg)) < 2 ^ 31" by simp
  have "seg_len seg = of_int (int (length (sg_data seg)))" by (simp add: seg_len_def)
  then have "sint (seg_len seg) = int (length (sg_data seg))"
    using sint_of_int_small [of "int (length (sg_data seg))"] l by (simp only: )
  moreover have "unat (seg_len seg) = length (sg_data seg)"
    using \<open>length (sg_data seg) < 2 ^ 31\<close> unat_of_nat_seq by (simp add: seg_len_def)
  ultimately show ?thesis by simp
qed

text \<open>The bytes determine the segments.\<close>

lemma wire_seg_cancel:
  assumes "wire_seg a @ r = wire_seg b @ s" "length (sg_data a) < 2 ^ 31" "length (sg_data b) < 2 ^ 31"
  shows "wire_seg a = wire_seg b \<and> r = s"
proof -
  have e: "ikcp_encode_seg a = ikcp_encode_seg b" "sg_data a @ r = sg_data b @ s"
    using assms(1) by (simp_all add: wire_seg_def append_eq_append_conv)
  have len: "fld 20 4 (ikcp_encode_seg x) = to_le 4 (seg_len x)" for x
    by (simp add: ikcp_encode_seg_def codec_simps del: to_le_numeral to_le.simps One_nat_def)
  have "to_le 4 (seg_len a) = to_le 4 (seg_len b)" unfolding len [symmetric] e(1) by (rule refl)
  then have "seg_len a = seg_len b" by (rule le32.enc_inj)
  then have "length (sg_data a) = length (sg_data b)" using seg_len_small [OF assms(2)] seg_len_small [OF assms(3)] by simp
  then show ?thesis using e by (simp add: wire_seg_def)
qed

lemma wire_unique:
  "concat (map wire_seg xs) = concat (map wire_seg ys) \<Longrightarrow> length (concat (map wire_seg xs)) < 2 ^ 31 \<Longrightarrow>
     map wire_seg xs = map wire_seg ys"
proof (induction xs arbitrary: ys)
  case Nil
  then show ?case using wire_seg_nonempty by (cases ys) auto
next
  case (Cons x xs)
  then obtain y zs where ys: "ys = y # zs" using wire_seg_nonempty by (cases ys) auto
  have eq: "wire_seg x @ concat (map wire_seg xs) = wire_seg y @ concat (map wire_seg zs)" using Cons.prems(1) ys by simp
  have len: "length (wire_seg x) < 2 ^ 31" "length (wire_seg y @ concat (map wire_seg zs)) < 2 ^ 31"
    using Cons.prems(2) unfolding eq [symmetric] by simp_all
  then have "length (sg_data x) < 2 ^ 31" "length (sg_data y) < 2 ^ 31" by (simp_all add: wire_seg_def)
  from wire_seg_cancel [OF eq this] show ?case using Cons.IH [of zs] Cons.prems(2) ys by simp
qed

section \<open>Reading a datagram\<close>

lemma move_available_conv: "kc_conv (move_available segs kcp) = kc_conv kcp"
  by (induction segs arbitrary: kcp) simp_all

lemma drop_acked_conv: "kc_conv (drop_acked una segs kcp) = kc_conv kcp"
  by (induction segs arbitrary: kcp) simp_all

lemma parse_conv:
  "kc_conv (ikcp_shrink_buf kcp) = kc_conv kcp" "kc_conv (ikcp_parse_una una kcp) = kc_conv kcp"
  "kc_conv (ikcp_parse_ack sn kcp) = kc_conv kcp" "kc_conv (ikcp_update_ack rtt kcp) = kc_conv kcp"
  "kc_conv (ikcp_ack_push sn ts kcp) = kc_conv kcp" "kc_conv (ikcp_parse_data seg kcp) = kc_conv kcp"
  by (simp_all add: ikcp_shrink_buf_def ikcp_parse_una_def drop_acked_conv ikcp_parse_ack_def ikcp_update_ack_def
      ikcp_ack_push_def ikcp_parse_data_def move_available_conv Let_def split: list.split option.split prod.split)

lemma input_seg_conv: "kc_conv (fst (input_seg seg st)) = kc_conv (fst st)"
  by (cases st) (simp add: input_seg_def input_ack_def input_push_def parse_conv Let_def)

lemma input_loop_step:
  assumes "sendable (kc_conv (fst st)) seg"
  shows "input_loop (wire_seg seg @ rest) st = input_loop rest (input_seg (wire_read seg) st)"
proof -
  let ?data = "wire_seg seg @ rest" and ?seg = "(wire_read seg)\<lparr>sg_data := []\<rparr>" and ?body = "sg_data seg @ rest"
  have len: "unat (seg_len seg) = length (sg_data seg)" "\<not> sint (seg_len seg) < 0"
    using assms seg_len_small by (simp_all add: sendable_def not_less)
  have w: "?seg\<lparr>sg_data := sg_data seg\<rparr> = wire_read seg" by (simp add: wire_read_def)
  have d: "drop IKCP_OVERHEAD ?data = ?body" by (simp add: wire_seg_def)
  have dec: "decode_seg ?data = (?seg, seg_len seg)" using decode_encode [OF assms] by (simp add: wire_seg_def)
  have "(length ?data < IKCP_OVERHEAD) = False" by (simp add: wire_seg_def)
  moreover have "(sg_conv ?seg \<noteq> kc_conv (fst st)) = False"
    "(sg_cmd ?seg \<notin> {IKCP_CMD_PUSH, IKCP_CMD_ACK, IKCP_CMD_WASK, IKCP_CMD_WINS}) = False"
    using assms by (simp_all add: sendable_def wire_read_def)
  moreover have "(length ?body < unat (seg_len seg) \<or> sint (seg_len seg) < 0) = False" using len by simp
  moreover have "drop (unat (seg_len seg)) ?body = rest" "take (unat (seg_len seg)) ?body = sg_data seg"
    using len by simp_all
  ultimately show ?thesis
    by (subst input_loop.simps) (simp only: dec d w Let_def prod.case if_False)
qed

lemma input_loop_segs:
  assumes "\<forall>seg \<in> set segs. sendable (kc_conv (fst st)) seg"
  shows "input_loop (concat (map wire_seg segs)) st = (0, foldl (\<lambda>st seg. input_seg (wire_read seg) st) st segs)"
  using assms
proof (induction segs arbitrary: st)
  case Nil
  then show ?case by (simp add: input_loop.simps IKCP_OVERHEAD_def)
next
  case (Cons seg segs)
  then show ?case by (simp add: input_loop_step input_seg_conv)
qed

section \<open>Gathering output\<close>

definition is_datagram :: "(kseg \<Rightarrow> bool) \<Rightarrow> byte list \<Rightarrow> bool" where
  "is_datagram Q d \<longleftrightarrow> (\<exists>segs. segs \<noteq> [] \<and> d = concat (map wire_seg segs) \<and> (\<forall>seg \<in> set segs. Q seg))"

lemma is_datagram_mono: "is_datagram Q d \<Longrightarrow> (\<And>seg. Q seg \<Longrightarrow> Q' seg) \<Longrightarrow> is_datagram Q' d"
  unfolding is_datagram_def by blast

lemma is_datagram_add: "d = [] \<or> is_datagram Q d \<Longrightarrow> Q seg \<Longrightarrow> is_datagram Q (d @ wire_seg seg)"
  unfolding is_datagram_def
proof (elim disjE exE conjE)
  assume "d = []" "Q seg"
  then show "\<exists>segs. segs \<noteq> [] \<and> d @ wire_seg seg = concat (map wire_seg segs) \<and> (\<forall>seg \<in> set segs. Q seg)"
    by (intro exI [of _ "[seg]"]) simp
next
  fix segs
  assume "Q seg" "d = concat (map wire_seg segs)" "\<forall>seg \<in> set segs. Q seg"
  then show "\<exists>segs. segs \<noteq> [] \<and> d @ wire_seg seg = concat (map wire_seg segs) \<and> (\<forall>seg \<in> set segs. Q seg)"
    by (intro exI [of _ "segs @ [seg]"]) auto
qed

definition out_ok :: "(kseg \<Rightarrow> bool) \<Rightarrow> u32 \<Rightarrow> kout \<Rightarrow> bool" where
  "out_ok Q mtu = (\<lambda>(outs, buf, fault). (\<forall>d \<in> set outs. is_datagram Q d \<and> length d \<le> unat mtu) \<and>
     (buf = [] \<or> is_datagram Q buf) \<and> length buf \<le> unat mtu \<and> \<not> fault)"

definition mtu_ok :: "u32 \<Rightarrow> bool" where
  "mtu_ok mtu \<longleftrightarrow> IKCP_OVERHEAD < unat mtu \<and> unat mtu < 2 ^ 20"

lemma mtu_ok_values:
  assumes "mtu_ok mtu"
  shows "sint mtu = int (unat mtu)" "unat ((mtu + of_nat IKCP_OVERHEAD) * 3) = 3 * unat mtu + 72"
    "unat (mtu - of_nat IKCP_OVERHEAD) = unat mtu - IKCP_OVERHEAD" "sint (mtu - of_nat IKCP_OVERHEAD) = int (unat mtu - IKCP_OVERHEAD)"
proof -
  have m: "24 < unat mtu" "unat mtu < 1048576" using assms by (simp_all add: mtu_ok_def IKCP_OVERHEAD_def)
  have s: "sint (of_nat k :: u32) = int k" if "k < 2 ^ 20" for k
    using that sint_of_int_small [of "int k"] by simp
  show "sint mtu = int (unat mtu)" using s [of "unat mtu"] m by simp
  have w: "(mtu + of_nat IKCP_OVERHEAD) * 3 = of_nat (3 * unat mtu + 72)" by (simp add: IKCP_OVERHEAD_def algebra_simps)
  show "unat ((mtu + of_nat IKCP_OVERHEAD) * 3) = 3 * unat mtu + 72"
    unfolding w by (rule unat_of_nat_seq) (use m in simp)
  have d: "mtu - of_nat IKCP_OVERHEAD = of_nat (unat mtu - IKCP_OVERHEAD)" using m by (simp add: IKCP_OVERHEAD_def of_nat_diff)
  show "unat (mtu - of_nat IKCP_OVERHEAD) = unat mtu - IKCP_OVERHEAD"
    unfolding d by (rule unat_of_nat_seq) (use m in simp)
  show "sint (mtu - of_nat IKCP_OVERHEAD) = int (unat mtu - IKCP_OVERHEAD)"
    unfolding d by (rule s) (use m in simp)
qed

lemma emit_ok:
  assumes "out_ok Q mtu out" "Q seg" "mtu_ok mtu" "length (sg_data seg) \<le> unat mtu - IKCP_OVERHEAD"
  shows "out_ok Q mtu (emit mtu (wire_seg seg) out)"
proof -
  obtain outs buf fault where out: "out = (outs, buf, fault)" by (cases out)
  have "IKCP_OVERHEAD + length (sg_data seg) \<le> unat mtu" using assms(3,4) unfolding mtu_ok_def by linarith
  then have len: "length (wire_seg seg) \<le> unat mtu" by (simp add: wire_seg_def)
  have ok: "\<forall>d \<in> set outs. is_datagram Q d \<and> length d \<le> unat mtu" "buf = [] \<or> is_datagram Q buf"
    "length buf \<le> unat mtu" "\<not> fault"
    using assms(1) by (simp_all add: out out_ok_def)
  show ?thesis
  proof (cases "length buf + length (wire_seg seg) > unat mtu")
    case True
    then have "int (length buf) + int (length (wire_seg seg)) > sint mtu" unfolding mtu_ok_values(1) [OF assms(3)] by linarith
    then have "emit mtu (wire_seg seg) out =
        (ikcp_output buf outs, wire_seg seg, fault \<or> length (wire_seg seg) > 3 * unat mtu + 72)"
      using mtu_ok_values(2) [OF assms(3)] by (simp only: emit_def out Let_def prod.case if_True append_Nil)
    then show ?thesis using ok len assms(2) is_datagram_add [of "[]" Q seg]
      by (auto simp: out_ok_def ikcp_output_def)
  next
    case False
    then have f: "\<not> int (length buf) + int (length (wire_seg seg)) > sint mtu"
      unfolding mtu_ok_values(1) [OF assms(3)] by linarith
    then have "emit mtu (wire_seg seg) out =
        (outs, buf @ wire_seg seg, fault \<or> length (buf @ wire_seg seg) > 3 * unat mtu + 72)"
      using mtu_ok_values(2) [OF assms(3)] by (simp only: emit_def out Let_def prod.case if_not_P [OF f] if_False)
    then show ?thesis using ok False assms(2) is_datagram_add [OF ok(2) assms(2)] by (auto simp: out_ok_def)
  qed
qed

lemma out_ok_mono: "out_ok Q mtu out \<Longrightarrow> (\<And>seg. Q seg \<Longrightarrow> Q' seg) \<Longrightarrow> out_ok Q' mtu out"
  by (auto simp: out_ok_def intro: is_datagram_mono)

lemma flush_acks_ok:
  assumes "out_ok Q mtu out" "mtu_ok mtu" "sg_data seg = []"
    "\<And>sn ts. (sn, ts) \<in> set acks \<Longrightarrow> Q (seg\<lparr>sg_sn := sn, sg_ts := ts\<rparr>)"
  shows "out_ok Q mtu (snd (flush_acks mtu acks seg out)) \<and> (\<exists>sn ts. fst (flush_acks mtu acks seg out) = seg\<lparr>sg_sn := sn, sg_ts := ts\<rparr>)"
  using assms
proof (induction acks arbitrary: seg out)
  case Nil
  have "\<exists>sn ts. seg = seg\<lparr>sg_sn := sn, sg_ts := ts\<rparr>"
    by (rule exI [of _ "sg_sn seg"], rule exI [of _ "sg_ts seg"]) simp
  then show ?case using Nil by simp
next
  case (Cons a acks)
  obtain sn ts where a: "a = (sn, ts)" by (cases a)
  let ?s = "seg\<lparr>sg_sn := sn, sg_ts := ts\<rparr>"
  have q: "Q ?s" using Cons.prems(4) a by simp
  have e: "emit mtu (ikcp_encode_seg ?s) out = emit mtu (wire_seg ?s) out" using Cons.prems(3) by (simp add: wire_seg_def)
  have o: "out_ok Q mtu (emit mtu (ikcp_encode_seg ?s) out)"
    unfolding e by (rule emit_ok) (use Cons.prems q in simp_all)
  have "out_ok Q mtu (snd (flush_acks mtu acks ?s (emit mtu (ikcp_encode_seg ?s) out))) \<and>
      (\<exists>sn' ts'. fst (flush_acks mtu acks ?s (emit mtu (ikcp_encode_seg ?s) out)) = ?s\<lparr>sg_sn := sn', sg_ts := ts'\<rparr>)"
    by (rule Cons.IH [OF o Cons.prems(2)]) (use Cons.prems(3,4) in auto)
  then show ?case using a by (simp add: Let_def)
qed

lemma flush_probe_ok:
  assumes "out_ok Q (kc_mtu kcp) out" "mtu_ok (kc_mtu kcp)" "sg_data seg = []"
    "Q (seg\<lparr>sg_cmd := IKCP_CMD_WASK\<rparr>)" "Q (seg\<lparr>sg_cmd := IKCP_CMD_WINS\<rparr>)"
  shows "out_ok Q (kc_mtu kcp) (flush_probe kcp seg out)"
proof -
  have e: "out_ok Q (kc_mtu kcp) (emit (kc_mtu kcp) (ikcp_encode_seg (seg\<lparr>sg_cmd := c\<rparr>)) o1)"
    if "out_ok Q (kc_mtu kcp) o1" "Q (seg\<lparr>sg_cmd := c\<rparr>)" for c o1
    using emit_ok [OF that(1) that(2) assms(2)] assms(3) by (simp add: wire_seg_def)
  show ?thesis unfolding flush_probe_def Let_def using assms e by simp
qed

end
