(* ===== verification/Kcp_Sender.thy ===== *)
theory Kcp_Sender
  imports Kcp_Wire
begin

text \<open>
  The sending side of KCP: the fragments of the accepted messages are numbered in order, each is kept
  until it is acknowledged, and every datagram that is sent carries fragments of the stream.
\<close>

section \<open>The state of a sender\<close>

definition sview :: "ikcpcb \<Rightarrow> u32 \<times> u32 \<times> u32 \<times> u32 \<times> u32 \<times> u32 \<times> kseg list \<times> kseg list \<times> int" where
  "sview kcp = (kc_conv kcp, kc_mtu kcp, kc_mss kcp, kc_snd_nxt kcp, kc_nsnd_buf kcp, kc_nsnd_que kcp,
     kc_snd_queue kcp, kc_snd_buf kcp, kc_stream kcp)"

text \<open>The number of fragments that have been given a sequence number.\<close>

definition numbered :: "fragment list \<Rightarrow> ikcpcb \<Rightarrow> nat" where
  "numbered F kcp = length F - length (kc_snd_queue kcp)"

definition frags_fit :: "u32 \<Rightarrow> u32 \<Rightarrow> fragment list \<Rightarrow> bool" where
  "frags_fit mtu mss F \<longleftrightarrow> mtu_ok mtu \<and> mss = mtu - of_nat IKCP_OVERHEAD \<and>
     (\<forall>(frg, data) \<in> set F. unat frg < 128 \<and> length data \<le> unat mss)"

definition send_core :: "fragment list \<Rightarrow> ikcpcb \<Rightarrow> kseg list \<Rightarrow> bool" where
  "send_core F kcp buf \<longleftrightarrow>
     frags_fit (kc_mtu kcp) (kc_mss kcp) F \<and> kc_stream kcp = 0 \<and>
     length (kc_snd_queue kcp) \<le> length F \<and> map frag (kc_snd_queue kcp) = drop (numbered F kcp) F \<and>
     kc_snd_nxt kcp = of_nat (numbered F kcp) \<and> kc_nsnd_que kcp = of_nat (length (kc_snd_queue kcp)) \<and>
     kc_nsnd_buf kcp = of_nat (length buf) \<and> sorted_wrt (<) (map idx buf) \<and>
     (\<forall>seg \<in> set buf. piece F seg \<and> idx seg < numbered F kcp \<and> sg_cmd seg = IKCP_CMD_PUSH \<and> sg_conv seg = kc_conv kcp)"

definition send_ok :: "fragment list \<Rightarrow> ikcpcb \<Rightarrow> bool" where
  "send_ok F kcp \<longleftrightarrow> send_core F kcp (kc_snd_buf kcp)"

text \<open>The fragments that have been sent and are no longer kept.\<close>

definition cleared :: "fragment list \<Rightarrow> ikcpcb \<Rightarrow> nat set" where
  "cleared F kcp = {..<numbered F kcp} - idx ` set (kc_snd_buf kcp)"

lemma sview_cong:
  assumes "sview a = sview b"
  shows "send_ok F a = send_ok F b" "cleared F a = cleared F b" "numbered F a = numbered F b" "kc_conv a = kc_conv b"
    "kc_mtu a = kc_mtu b" "kc_mss a = kc_mss b" "kc_snd_queue a = kc_snd_queue b" "kc_snd_buf a = kc_snd_buf b"
  using assms by (simp_all add: send_ok_def send_core_def cleared_def numbered_def sview_def)

lemma sview_fields:
  "sview (kcp\<lparr>kc_rmt_wnd := a\<rparr>) = sview kcp" "sview (kcp\<lparr>kc_ackedlen := a\<rparr>) = sview kcp"
  "sview (kcp\<lparr>kc_probe := a\<rparr>) = sview kcp" "sview (kcp\<lparr>kc_acklist := l\<rparr>) = sview kcp"
  "sview (kcp\<lparr>kc_ackblock := k\<rparr>) = sview kcp" "sview (kcp\<lparr>kc_rcv_buf := segs\<rparr>) = sview kcp"
  "sview (kcp\<lparr>kc_snd_una := a\<rparr>) = sview kcp" "sview (kcp\<lparr>kc_nrcv_buf := a\<rparr>) = sview kcp"
  "sview (kcp\<lparr>kc_rcv_queue := segs\<rparr>) = sview kcp" "sview (kcp\<lparr>kc_nrcv_que := a\<rparr>) = sview kcp"
  "sview (kcp\<lparr>kc_current := a\<rparr>) = sview kcp" "sview (kcp\<lparr>kc_updated := u\<rparr>) = sview kcp"
  "sview (kcp\<lparr>kc_ts_flush := a\<rparr>) = sview kcp" "sview (kcp\<lparr>kc_cwnd := a\<rparr>) = sview kcp"
  "sview (kcp\<lparr>kc_incr := a\<rparr>) = sview kcp" "sview (kcp\<lparr>kc_ssthresh := a\<rparr>) = sview kcp"
  "sview (kcp\<lparr>kc_xmit := a\<rparr>) = sview kcp" "sview (kcp\<lparr>kc_state := a\<rparr>) = sview kcp"
  "sview (kcp\<lparr>kc_fault := u\<rparr>) = sview kcp" "sview (kcp\<lparr>kc_rcv_nxt := a\<rparr>) = sview kcp"
  "sview (kcp\<lparr>kc_rx_srtt := i\<rparr>) = sview kcp" "sview (kcp\<lparr>kc_rx_rttval := i\<rparr>) = sview kcp"
  "sview (kcp\<lparr>kc_rx_rto := i\<rparr>) = sview kcp" "sview (kcp\<lparr>kc_ts_probe := a\<rparr>) = sview kcp"
  "sview (kcp\<lparr>kc_probe_wait := a\<rparr>) = sview kcp"
  by (simp_all add: sview_def)

section \<open>Accepting a message\<close>

lemma push_fragments_effect:
  assumes "kc_stream kcp = 0" "mtu_ok (kc_mtu kcp)" "kc_mss kcp = kc_mtu kcp - of_nat IKCP_OVERHEAD"
  shows "\<exists>segs. map frag segs = chop n (unat (kc_mss kcp)) data \<and>
    push_fragments n data kcp = kcp\<lparr>kc_snd_queue := kc_snd_queue kcp @ segs, kc_nsnd_que := kc_nsnd_que kcp + of_nat n\<rparr>"
  using assms
proof (induction n arbitrary: data kcp)
  case 0
  then show ?case by simp
next
  case (Suc n)
  let ?mss = "unat (kc_mss kcp)"
  let ?seg = "ikcp_segment_new (of_nat n) (take ?mss data)"
  let ?k = "kcp\<lparr>kc_snd_queue := kc_snd_queue kcp @ [?seg], kc_nsnd_que := kc_nsnd_que kcp + 1\<rparr>"
  have s: "sint (kc_mss kcp) = int ?mss" using mtu_ok_values(3,4) [OF Suc.prems(2)] Suc.prems(3) by simp
  have size: "take (if int (length data) > sint (kc_mss kcp) then nat (sint (kc_mss kcp)) else length data) data = take ?mss data"
    "drop (if int (length data) > sint (kc_mss kcp) then nat (sint (kc_mss kcp)) else length data) data = drop ?mss data"
    unfolding s by (simp_all del: of_nat_unat)
  have p: "push_fragments (Suc n) data kcp = push_fragments n (drop ?mss data) ?k"
    by (simp only: push_fragments.simps Let_def size Suc.prems(1) simp_thms if_True)
  obtain segs where "map frag segs = chop n ?mss (drop ?mss data)"
    "push_fragments n (drop ?mss data) ?k = ?k\<lparr>kc_snd_queue := kc_snd_queue ?k @ segs, kc_nsnd_que := kc_nsnd_que ?k + of_nat n\<rparr>"
    using Suc.IH [of ?k "drop ?mss data"] Suc.prems by auto
  moreover have "frag ?seg = (of_nat n, take ?mss data)" by (simp add: frag_def ikcp_segment_new_def)
  ultimately show ?case unfolding p
    by (intro exI [of _ "?seg # segs"]) (simp add: add.assoc)
qed

lemma frag_count_word:
  assumes "length data < 2 ^ 31" "0 < unat mss" "unat mss < 2 ^ 20"
  shows "(if int (length data) \<le> int (unat (mss :: u32)) then 1 else sint ((of_nat (length data) + mss - 1) div mss)) =
    int (frag_count (unat mss) data)"
proof (cases "length data \<le> unat mss")
  case True
  then show ?thesis by (simp add: frag_count_def del: of_nat_unat)
next
  case False
  let ?a = "length data + unat mss - 1"
  have w: "of_nat (length data) + mss - 1 = (of_nat ?a :: u32)" using assms(2) by (simp add: of_nat_diff)
  have "?a < 2 ^ 32" using assms by simp
  then have u: "unat (of_nat ?a :: u32) = ?a" by (intro unat_of_nat_word) simp
  have le: "?a div unat mss < 2 ^ 31"
  proof -
    have "?a div unat mss \<le> length data"
    proof -
      have "?a \<le> length data * unat mss + (unat mss - 1)"
        using assms(2) by (metis add_diff_assoc add_mono_thms_linordered_semiring(1) le_refl mult.commute
            mult_le_mono1 nat_mult_1 Suc_leI One_nat_def mult.right_neutral)
      then have "?a div unat mss \<le> (length data * unat mss + (unat mss - 1)) div unat mss" by (rule div_le_mono)
      also have "\<dots> = (unat mss - 1 + length data * unat mss) div unat mss" by (simp only: add.commute)
      also have "\<dots> = length data + (unat mss - 1) div unat mss" using assms(2) by (intro div_mult_self1) simp
      also have "\<dots> = length data" using assms(2) by simp
      finally show ?thesis .
    qed
    then show ?thesis using assms(1) by simp
  qed
  have "(of_nat ?a :: u32) div mss = of_nat (?a div unat mss)"
    by (simp only: word_arith_nat_div u)
  then have "(of_nat ?a :: u32) div mss = of_int (int (?a div unat mss))" by simp
  then have "sint ((of_nat ?a :: u32) div mss) = int (?a div unat mss)"
    using sint_of_int_small [of "int (?a div unat mss)"] le by (simp only: of_nat_less_iff) simp
  then show ?thesis using False w by (simp add: frag_count_def del: of_nat_unat)
qed

lemma chop_bounds: "(frg, d) \<in> set (chop n mss data) \<Longrightarrow> n \<le> 128 \<Longrightarrow> unat frg < 128 \<and> length d \<le> mss"
proof (induction n arbitrary: data)
  case 0
  then show ?case by simp
next
  case (Suc n)
  then show ?case using unat_of_nat_seq [of n] by auto
qed

lemma send_message:
  assumes ok: "send_ok F kcp" and m: "length m < 2 ^ 31" and s: "ikcp_send m (int (length m)) kcp = (r, kcp')"
  shows "if r < 0 then kcp' = kcp
    else r = int (length m) \<and> send_ok (F @ split_message (unat (kc_mss kcp)) m) kcp' \<and> rview kcp' = rview kcp \<and>
      cleared (F @ split_message (unat (kc_mss kcp)) m) kcp' = cleared F kcp \<and> kc_conv kcp' = kc_conv kcp \<and>
      kc_mss kcp' = kc_mss kcp \<and> kc_acklist kcp' = kc_acklist kcp \<and> kc_fault kcp' = kc_fault kcp"
proof -
  let ?mss = "unat (kc_mss kcp)"
  let ?c = "frag_count ?mss m" and ?G = "F @ split_message ?mss m"
  have core: "mtu_ok (kc_mtu kcp)" "kc_mss kcp = kc_mtu kcp - of_nat IKCP_OVERHEAD" "kc_stream kcp = 0"
    using ok by (simp_all add: send_ok_def send_core_def frags_fit_def)
  have mss: "0 < ?mss" "?mss < 2 ^ 20" "sint (kc_mss kcp) = int ?mss"
    using mtu_ok_values(3,4) [OF core(1)] core(1,2) by (auto simp: mtu_ok_def simp del: of_nat_unat)
  have count: "(if int (length m) \<le> sint (kc_mss kcp) then 1 else sint ((of_nat (length m) + kc_mss kcp - 1) div kc_mss kcp)) = int ?c"
    unfolding mss(3) by (rule frag_count_word [OF m mss(1,2)])
  have c0: "0 < ?c" by (rule frag_count_pos [OF mss(1)])
  have send: "ikcp_send m (int (length m)) kcp =
      (if int ?c \<ge> 128 then (- 2, kcp) else (int (length m), push_fragments ?c m kcp))"
  proof -
    have "sint IKCP_WND_RCV = 128" by (simp add: IKCP_WND_RCV_def)
    then have "ikcp_send m (int (length m)) kcp =
        (if int ?c \<ge> 128 then (- 2, kcp) else (int (0 + length m), push_fragments (nat (if int ?c = 0 then 1 else int ?c)) m kcp))"
      by (simp only: ikcp_send_def Let_def core(3) simp_thms if_False if_True prod.case drop_0 nat_int
          take_all [OF order_refl] of_nat_less_0_iff count)
    then show ?thesis using c0 by simp
  qed
  show ?thesis
  proof (cases "int ?c \<ge> 128")
    case True
    then show ?thesis using s send by simp
  next
    case False
    obtain segs where p: "map frag segs = chop ?c ?mss m"
      "push_fragments ?c m kcp = kcp\<lparr>kc_snd_queue := kc_snd_queue kcp @ segs, kc_nsnd_que := kc_nsnd_que kcp + of_nat ?c\<rparr>"
      using push_fragments_effect [OF core(3,1,2), of ?c m] by auto
    have kcp': "kcp' = kcp\<lparr>kc_snd_queue := kc_snd_queue kcp @ segs, kc_nsnd_que := kc_nsnd_que kcp + of_nat ?c\<rparr>" "r = int (length m)"
      using s send False p(2) by simp_all
    have len: "length segs = ?c" using arg_cong [OF p(1), of length] by simp
    have q: "length (kc_snd_queue kcp) \<le> length F" using ok by (simp add: send_ok_def send_core_def)
    have num: "numbered ?G kcp' = numbered F kcp" using q len by (simp add: numbered_def kcp')
    have "\<forall>(frg, data) \<in> set (split_message ?mss m). unat frg < 128 \<and> length data \<le> ?mss"
      using False chop_bounds by (fastforce simp: split_message_def)
    then have G: "frags_fit (kc_mtu kcp) (kc_mss kcp) ?G" using ok by (auto simp: send_ok_def send_core_def frags_fit_def)
    have "send_core ?G kcp' (kc_snd_buf kcp')"
      using ok G num len p(1) q
      by (auto simp: send_ok_def send_core_def kcp' piece_append split_message_def numbered_def)
    then show ?thesis using num kcp' by (simp add: send_ok_def cleared_def rview_fields)
  qed
qed

end
