(* ===== verification/Kcp_Flush.thy ===== *)
theory Kcp_Flush
  imports Kcp_Sender
begin

text \<open>
  What acknowledgements and flushing do to the sender: a fragment is dropped only when its number is
  acknowledged, and every segment sent carries what the stream and the receiver's state say.
\<close>

section \<open>The buffer up to bookkeeping\<close>

definition key :: "kseg \<Rightarrow> fragment \<times> u32 \<times> u32 \<times> u32" where
  "key seg = (frag seg, sg_sn seg, sg_cmd seg, sg_conv seg)"

lemma key_fields: "key a = key b \<Longrightarrow> frag a = frag b \<and> sg_sn a = sg_sn b \<and> idx a = idx b \<and> sg_cmd a = sg_cmd b \<and>
    sg_conv a = sg_conv b \<and> piece F a = piece F b"
  by (simp add: key_def idx_def piece_def)

lemma key_updates:
  "key (seg\<lparr>sg_fastack := a\<rparr>) = key seg" "key (seg\<lparr>sg_xmit := a\<rparr>) = key seg" "key (seg\<lparr>sg_rto := a\<rparr>) = key seg"
  "key (seg\<lparr>sg_resendts := a\<rparr>) = key seg" "key (seg\<lparr>sg_ts := a\<rparr>) = key seg" "key (seg\<lparr>sg_wnd := a\<rparr>) = key seg"
  "key (seg\<lparr>sg_una := a\<rparr>) = key seg"
  by (simp_all add: key_def frag_def)

lemma key_map_idx: "map key a = map key b \<Longrightarrow> map idx a = map idx b"
proof -
  have k: "map idx segs = map (\<lambda>k. unat (fst (snd k))) (map key segs)" for segs
    by (simp add: key_def idx_def)
  assume "map key a = map key b"
  then show ?thesis unfolding k by (rule arg_cong)
qed

lemma key_map_in: "map key a = map key b \<Longrightarrow> s \<in> set b \<Longrightarrow> \<exists>t \<in> set a. key t = key s"
  by (metis (no_types, opaque_lifting) imageE image_eqI list.set_map)

lemma send_core_key:
  assumes "map key a = map key b" "send_core F kcp a"
  shows "send_core F kcp b"
proof -
  have "\<forall>s \<in> set b. piece F s \<and> idx s < numbered F kcp \<and> sg_cmd s = IKCP_CMD_PUSH \<and> sg_conv s = kc_conv kcp"
  proof
    fix s
    assume "s \<in> set b"
    then obtain t where "t \<in> set a" "key t = key s" using key_map_in [OF assms(1)] by blast
    then show "piece F s \<and> idx s < numbered F kcp \<and> sg_cmd s = IKCP_CMD_PUSH \<and> sg_conv s = kc_conv kcp"
      using assms(2) key_fields [of t s F] by (auto simp: send_core_def)
  qed
  moreover have "length a = length b" using arg_cong [OF assms(1), of length] by simp
  ultimately show ?thesis using assms(2) key_map_idx [OF assms(1)] by (simp add: send_core_def)
qed

lemma cleared_key: "map key (kc_snd_buf a) = map key (kc_snd_buf b) \<Longrightarrow> numbered F a = numbered F b \<Longrightarrow> cleared F a = cleared F b"
  using key_map_idx [of "kc_snd_buf a" "kc_snd_buf b"] by (metis cleared_def list.set_map)

section \<open>Acknowledgements\<close>

definition keeps :: "ikcpcb \<Rightarrow> ikcpcb \<Rightarrow> bool" where
  "keeps a b \<longleftrightarrow> rview a = rview b \<and> kc_acklist a = kc_acklist b \<and> kc_mss a = kc_mss b \<and> kc_conv a = kc_conv b"

lemma keeps_trans: "keeps a b \<Longrightarrow> keeps b c \<Longrightarrow> keeps a c"
  by (simp add: keeps_def)

lemma drop_acked_ok:
  assumes "send_core F kcp segs" "length F \<le> 2 ^ 30" "unat una \<le> 2 ^ 30"
  shows "send_ok F (drop_acked una segs kcp) \<and> keeps (drop_acked una segs kcp) kcp \<and>
    cleared F (drop_acked una segs kcp) \<subseteq> ({..<numbered F kcp} - idx ` set segs) \<union> {..<unat una}"
  using assms(1)
proof (induction segs arbitrary: kcp)
  case Nil
  then show ?case
    by (simp add: send_ok_def send_core_def numbered_def cleared_def keeps_def rview_def)
next
  case (Cons seg segs)
  show ?case
  proof (cases "itimediff una (sg_sn seg) > 0")
    case True
    let ?k = "kcp\<lparr>kc_ackedlen := kc_ackedlen kcp + seg_len seg, kc_nsnd_buf := kc_nsnd_buf kcp - 1\<rparr>"
    have eq: "drop_acked una (seg # segs) kcp = drop_acked una segs ?k" using True by simp
    have num: "numbered F ?k = numbered F kcp" by (simp add: numbered_def)
    have "idx seg < 2 ^ 30" using Cons.prems assms(2) by (simp add: send_core_def piece_def)
    then have "itimediff una (sg_sn seg) = int (unat una) - int (idx seg)"
      unfolding idx_def using assms(3) by (intro itimediff_unat seq_near) (simp_all add: idx_def)
    then have "idx seg < unat una" using True by linarith
    moreover have "send_core F ?k segs" using Cons.prems num by (simp add: send_core_def)
    moreover have "keeps ?k kcp" by (simp add: keeps_def rview_def)
    ultimately show ?thesis using Cons.IH [of ?k] num keeps_trans unfolding eq by auto
  next
    case False
    then have "drop_acked una (seg # segs) kcp = kcp\<lparr>kc_snd_buf := seg # segs\<rparr>" by simp
    then show ?thesis using Cons.prems
      by (simp add: send_ok_def send_core_def numbered_def cleared_def keeps_def rview_def)
  qed
qed

lemma parse_una_ok:
  assumes "send_ok F kcp" "length F \<le> 2 ^ 30" "unat una \<le> 2 ^ 30"
  shows "send_ok F (ikcp_parse_una una kcp) \<and> keeps (ikcp_parse_una una kcp) kcp \<and>
    cleared F (ikcp_parse_una una kcp) \<subseteq> cleared F kcp \<union> {..<unat una}"
  using drop_acked_ok [of F kcp "kc_snd_buf kcp"] assms by (simp add: ikcp_parse_una_def send_ok_def cleared_def)

lemma remove_sn_ok:
  "remove_sn sn segs = (found, rest) \<Longrightarrow>
     set rest \<subseteq> set segs \<and> (\<forall>s \<in> set segs. s \<in> set rest \<or> sg_sn s = sn) \<and>
     (sorted_wrt (<) (map idx segs) \<longrightarrow> sorted_wrt (<) (map idx rest)) \<and>
     length segs = length rest + (case found of None \<Rightarrow> 0 | Some _ \<Rightarrow> 1)"
proof (induction segs arbitrary: found rest)
  case Nil
  then show ?case by simp
next
  case (Cons seg segs)
  obtain f r where r: "remove_sn sn segs = (f, r)" by force
  note ih = Cons.IH [OF r]
  show ?case using Cons.prems ih r by (auto simp: subset_iff split: if_splits)
qed

lemma parse_ack_ok:
  assumes "send_ok F kcp"
  shows "send_ok F (ikcp_parse_ack sn kcp) \<and> keeps (ikcp_parse_ack sn kcp) kcp \<and>
    cleared F (ikcp_parse_ack sn kcp) \<subseteq> cleared F kcp \<union> {unat sn}"
proof -
  obtain found rest where r: "remove_sn sn (kc_snd_buf kcp) = (found, rest)" by force
  let ?k = "kcp\<lparr>kc_snd_buf := rest, kc_ackedlen := a, kc_nsnd_buf := of_nat (length rest)\<rparr>"
  have facts: "set rest \<subseteq> set (kc_snd_buf kcp)" "\<forall>s \<in> set (kc_snd_buf kcp). s \<in> set rest \<or> sg_sn s = sn"
    "sorted_wrt (<) (map idx rest)" "length (kc_snd_buf kcp) = length rest + (case found of None \<Rightarrow> 0 | Some _ \<Rightarrow> 1)"
    using remove_sn_ok [OF r] assms by (auto simp: send_ok_def send_core_def)
  have k: "send_ok F (kcp\<lparr>kc_snd_buf := rest, kc_ackedlen := a, kc_nsnd_buf := of_nat (length rest)\<rparr>)" for a
    using assms facts by (auto simp: send_ok_def send_core_def numbered_def)
  have c: "cleared F (kcp\<lparr>kc_snd_buf := rest, kc_ackedlen := a, kc_nsnd_buf := of_nat (length rest)\<rparr>) \<subseteq> cleared F kcp \<union> {unat sn}" for a
    using facts(2) by (auto simp: cleared_def numbered_def idx_def)
  have n: "kc_nsnd_buf kcp = of_nat (length (kc_snd_buf kcp))" using assms by (simp add: send_ok_def send_core_def)
  have "ikcp_parse_ack sn kcp = kcp \<or>
    (\<exists>a. ikcp_parse_ack sn kcp = kcp\<lparr>kc_snd_buf := rest, kc_ackedlen := a, kc_nsnd_buf := of_nat (length rest)\<rparr>)"
  proof (cases "itimediff sn (kc_snd_una kcp) < 0 \<or> itimediff sn (kc_snd_nxt kcp) \<ge> 0")
    case True
    then show ?thesis by (simp add: ikcp_parse_ack_def)
  next
    case False
    show ?thesis
    proof (cases found)
      case None
      then have "ikcp_parse_ack sn kcp = kcp\<lparr>kc_snd_buf := rest, kc_ackedlen := kc_ackedlen kcp, kc_nsnd_buf := of_nat (length rest)\<rparr>"
        using False r n facts(4) by (simp add: ikcp_parse_ack_def)
      then show ?thesis by blast
    next
      case (Some seg)
      then have "ikcp_parse_ack sn kcp =
          kcp\<lparr>kc_snd_buf := rest, kc_ackedlen := kc_ackedlen kcp + seg_len seg, kc_nsnd_buf := of_nat (length rest)\<rparr>"
        using False r n facts(4) by (simp add: ikcp_parse_ack_def)
      then show ?thesis by blast
    qed
  qed
  then show ?thesis
  proof (elim disjE exE)
    assume "ikcp_parse_ack sn kcp = kcp"
    then show ?thesis using assms by (simp add: keeps_def) blast
  next
    fix a
    assume e: "ikcp_parse_ack sn kcp = kcp\<lparr>kc_snd_buf := rest, kc_ackedlen := a, kc_nsnd_buf := of_nat (length rest)\<rparr>"
    have "keeps (ikcp_parse_ack sn kcp) kcp" unfolding e by (simp add: keeps_def rview_def)
    then show ?thesis using k [of a] c [of a] unfolding e by blast
  qed
qed

lemma count_fastack_key: "map key (count_fastack sn ts segs) = map key segs"
  by (induction segs) (simp_all add: key_updates)

lemma parse_fastack_ok:
  assumes "send_ok F kcp"
  shows "send_ok F (ikcp_parse_fastack sn ts kcp) \<and> keeps (ikcp_parse_fastack sn ts kcp) kcp \<and>
    cleared F (ikcp_parse_fastack sn ts kcp) = cleared F kcp"
proof -
  let ?k = "kcp\<lparr>kc_snd_buf := count_fastack sn ts (kc_snd_buf kcp)\<rparr>"
  have "send_core F kcp (count_fastack sn ts (kc_snd_buf kcp))"
    using send_core_key [OF count_fastack_key [symmetric]] assms by (simp add: send_ok_def)
  then have "send_ok F ?k" by (simp add: send_ok_def send_core_def numbered_def)
  moreover have "cleared F ?k = cleared F kcp"
    by (rule cleared_key) (simp_all add: count_fastack_key numbered_def)
  moreover have "keeps ?k kcp" "keeps kcp kcp" by (simp_all add: keeps_def rview_def)
  ultimately show ?thesis using assms by (simp add: ikcp_parse_fastack_def)
qed

lemma shrink_views:
  "sview (ikcp_shrink_buf kcp) = sview kcp" "keeps (ikcp_shrink_buf kcp) kcp"
  by (simp_all add: ikcp_shrink_buf_def sview_fields keeps_def rview_fields split: list.split)

lemma update_ack_views:
  "sview (ikcp_update_ack rtt kcp) = sview kcp" "keeps (ikcp_update_ack rtt kcp) kcp"
  by (simp_all add: ikcp_update_ack_def Let_def sview_fields keeps_def rview_fields split: prod.split)

lemma grow_cwnd_views: "sview (grow_cwnd kcp) = sview kcp" "keeps (grow_cwnd kcp) kcp"
  by (simp_all add: grow_cwnd_def Let_def sview_fields keeps_def rview_fields)

section \<open>Flushing\<close>

text \<open>
  What a segment from this end says: fragments of its stream, acknowledgements of numbers that have
  arrived at it, and how many fragments it has received.
\<close>

definition link_seg :: "u32 \<Rightarrow> fragment list \<Rightarrow> nat set \<Rightarrow> nat \<Rightarrow> kseg \<Rightarrow> bool" where
  "link_seg conv F A N seg \<longleftrightarrow> sendable conv seg \<and> unat (sg_una seg) \<le> N \<and>
     (sg_cmd seg = IKCP_CMD_PUSH \<longrightarrow> piece F seg) \<and> (sg_cmd seg = IKCP_CMD_ACK \<longrightarrow> idx seg \<in> A)"

lemma link_seg_mono:
  "link_seg conv F A N seg \<Longrightarrow> A \<subseteq> A' \<Longrightarrow> N \<le> N' \<Longrightarrow> link_seg conv (F @ G) A' N' seg"
  by (auto simp: link_seg_def piece_append)

lemma move_to_buf_ok:
  assumes "send_ok F (kcp\<lparr>kc_snd_queue := segs\<rparr>)" "length F \<le> 2 ^ 30"
  shows "send_ok F (move_to_buf cwnd wnd segs kcp) \<and> keeps (move_to_buf cwnd wnd segs kcp) kcp \<and>
    cleared F (move_to_buf cwnd wnd segs kcp) = cleared F (kcp\<lparr>kc_snd_queue := segs\<rparr>) \<and>
    kc_mtu (move_to_buf cwnd wnd segs kcp) = kc_mtu kcp \<and> kc_fault (move_to_buf cwnd wnd segs kcp) = kc_fault kcp"
  using assms(1)
proof (induction segs arbitrary: kcp)
  case Nil
  then show ?case by (simp add: keeps_def rview_fields)
next
  case (Cons seg segs)
  show ?case
  proof (cases "itimediff (kc_snd_nxt kcp) (kc_snd_una kcp + cwnd) < 0")
    case False
    then show ?thesis using Cons.prems by (simp add: keeps_def rview_fields)
  next
    case True
    let ?new = "seg\<lparr>sg_conv := kc_conv kcp, sg_cmd := IKCP_CMD_PUSH, sg_wnd := wnd, sg_ts := kc_current kcp,
      sg_sn := kc_snd_nxt kcp, sg_una := kc_rcv_nxt kcp, sg_resendts := kc_current kcp,
      sg_rto := of_int (kc_rx_rto kcp), sg_fastack := 0, sg_xmit := 0\<rparr>"
    let ?k = "kcp\<lparr>kc_snd_buf := kc_snd_buf kcp @ [?new], kc_nsnd_que := kc_nsnd_que kcp - 1,
      kc_nsnd_buf := kc_nsnd_buf kcp + 1, kc_snd_nxt := kc_snd_nxt kcp + 1\<rparr>"
    let ?n = "length F - Suc (length segs)"
    have eq: "move_to_buf cwnd wnd (seg # segs) kcp = move_to_buf cwnd wnd segs ?k" using True by (simp add: Let_def)
    have q: "Suc (length segs) \<le> length F" "frag seg # map frag segs = drop ?n F" "kc_snd_nxt kcp = of_nat ?n"
      using Cons.prems by (simp_all add: send_ok_def send_core_def numbered_def)
    have n: "idx ?new = ?n" using q(3) assms(2) unat_of_nat_seq [of ?n] by (simp add: idx_def)
    have "?n < length F" using q(1) by simp
    then have nth: "F ! ?n = frag seg" "drop (Suc ?n) F = map frag segs"
      using q(2) by (metis Cons_nth_drop_Suc list.inject)+
    have p: "piece F ?new" unfolding piece_def n using nth(1) \<open>?n < length F\<close> by (simp add: frag_def)
    have Sn: "Suc ?n = length F - length segs" using q(1) by simp
    have "send_core F (?k\<lparr>kc_snd_queue := segs\<rparr>) (kc_snd_buf ?k)"
      using Cons.prems p n nth(2) q(1) Sn
      by (auto simp: send_ok_def send_core_def numbered_def sorted_wrt_append less_Suc_eq of_nat_diff)
    then have ok: "send_ok F (?k\<lparr>kc_snd_queue := segs\<rparr>)" by (simp add: send_ok_def)
    have c: "cleared F (?k\<lparr>kc_snd_queue := segs\<rparr>) = cleared F (kcp\<lparr>kc_snd_queue := seg # segs\<rparr>)"
      using n Sn [symmetric] by (auto simp: cleared_def numbered_def less_Suc_eq)
    have "keeps ?k kcp" by (simp add: keeps_def rview_def)
    then show ?thesis using Cons.IH [OF ok] c keeps_trans unfolding eq by auto
  qed
qed

lemma resend_seg_key: "resend_seg kcp resent rtomin seg = (what, seg') \<Longrightarrow> key seg' = key seg"
  by (auto simp: resend_seg_def Let_def key_updates split: if_splits)

lemma flush_segments_ok:
  assumes "out_ok Q (kc_mtu kcp) (fl_out fl)" "mtu_ok (kc_mtu kcp)"
    "\<And>seg s. seg \<in> set segs \<Longrightarrow> key s = key seg \<Longrightarrow> sg_una s = kc_rcv_nxt kcp \<Longrightarrow>
       Q s \<and> length (sg_data s) \<le> unat (kc_mtu kcp) - IKCP_OVERHEAD"
  shows "map key (fst (flush_segments kcp wnd resent rtomin segs fl)) = map key segs \<and>
    out_ok Q (kc_mtu kcp) (fl_out (snd (flush_segments kcp wnd resent rtomin segs fl)))"
  using assms(1,3)
proof (induction segs arbitrary: fl)
  case Nil
  then show ?case by simp
next
  case (Cons seg segs)
  obtain what seg1 where r: "resend_seg kcp resent rtomin seg = (what, seg1)" by force
  have k1: "key seg1 = key seg" by (rule resend_seg_key [OF r])
  have sub: "\<And>g s. g \<in> set segs \<Longrightarrow> key s = key g \<Longrightarrow> sg_una s = kc_rcv_nxt kcp \<Longrightarrow>
       Q s \<and> length (sg_data s) \<le> unat (kc_mtu kcp) - IKCP_OVERHEAD"
    using Cons.prems(2) by (meson list.set_intros(2))
  show ?case
  proof (cases "what = Rest")
    case True
    then show ?thesis using r k1 Cons.IH [OF Cons.prems(1) sub] by (auto split: prod.split)
  next
    case False
    let ?s = "seg1\<lparr>sg_ts := kc_current kcp, sg_wnd := wnd, sg_una := kc_rcv_nxt kcp\<rparr>"
    have ks: "key ?s = key seg" using k1 by (simp add: key_updates)
    have q: "Q ?s" "length (sg_data ?s) \<le> unat (kc_mtu kcp) - IKCP_OVERHEAD"
      using Cons.prems(2) [of seg ?s] ks by simp_all
    let ?fl = "fl\<lparr>fl_out := emit (kc_mtu kcp) (ikcp_encode_seg ?s @ sg_data ?s) (fl_out fl),
                     fl_xmit := (if what = Timeout then fl_xmit fl + 1 else fl_xmit fl),
                     fl_change := (if what = Fast then fl_change fl + 1 else fl_change fl),
                     fl_lost := (fl_lost fl \<or> what = Timeout),
                     fl_state := (if sg_xmit ?s \<ge> kc_dead_link kcp then - 1 else fl_state fl)\<rparr>"
    have e: "out_ok Q (kc_mtu kcp) (fl_out ?fl)"
      using emit_ok [OF Cons.prems(1) q(1) assms(2) q(2)] by (simp add: wire_seg_def)
    obtain rest fl' where t: "flush_segments kcp wnd resent rtomin segs ?fl = (rest, fl')" by fastforce
    have "flush_segments kcp wnd resent rtomin (seg # segs) fl = (?s # rest, fl')"
      using False by (simp only: flush_segments.simps r prod.case Let_def if_False t)
    then show ?thesis using Cons.IH [OF e sub] ks t by simp
  qed
qed

end
