(* ===== verification/Kcp_Session.thy ===== *)
theory Kcp_Session
  imports Kcp_Flush
begin

text \<open>
  One end of a KCP session: what its operations do to both of its sides, when what arrives has been
  sent by the other end.
\<close>

section \<open>Flushing and updating\<close>

definition acks_ok :: "nat \<Rightarrow> ikcpcb \<Rightarrow> bool" where
  "acks_ok n kcp \<longleftrightarrow> (\<forall>(sn, ts) \<in> set (kc_acklist kcp). unat sn \<in> arrived n kcp)"

lemma probe_window_views:
  "sview (probe_window kcp) = sview kcp" "rview (probe_window kcp) = rview kcp"
  "kc_fault (probe_window kcp) = kc_fault kcp" "kc_acklist (probe_window kcp) = kc_acklist kcp"
  by (simp_all add: probe_window_def Let_def sview_fields rview_fields)

lemma flush_congestion_views:
  "sview (flush_congestion w r fl kcp) = sview kcp" "rview (flush_congestion w r fl kcp) = rview kcp"
  "kc_fault (flush_congestion w r fl kcp) = kc_fault kcp" "kc_acklist (flush_congestion w r fl kcp) = kc_acklist kcp"
  by (simp_all add: flush_congestion_def Let_def sview_fields rview_fields)

lemma control_seg_link:
  assumes "unat (kc_rcv_nxt kcp) \<le> N" "cmd \<in> {IKCP_CMD_ACK, IKCP_CMD_WASK, IKCP_CMD_WINS}"
    "cmd = IKCP_CMD_ACK \<Longrightarrow> unat sn \<in> A"
  shows "link_seg (kc_conv kcp) F A N ((control_seg kcp)\<lparr>sg_sn := sn, sg_ts := ts, sg_cmd := cmd\<rparr>)"
proof -
  have "cmd \<noteq> IKCP_CMD_PUSH" using assms(2) by (auto simp: ikcp_cmds)
  then show ?thesis using assms
    by (auto simp: link_seg_def sendable_def control_seg_def ikcp_segment_new_def idx_def)
qed

lemma buffer_seg_link:
  assumes "send_ok F kcp" "seg \<in> set (kc_snd_buf kcp)" "key s = key seg" "unat (sg_una s) \<le> N"
  shows "link_seg (kc_conv kcp) F A N s \<and> length (sg_data s) \<le> unat (kc_mtu kcp) - IKCP_OVERHEAD"
proof -
  have seg: "piece F seg" "sg_cmd seg = IKCP_CMD_PUSH" "sg_conv seg = kc_conv kcp"
    and fit: "frags_fit (kc_mtu kcp) (kc_mss kcp) F"
    using assms(1,2) by (auto simp: send_ok_def send_core_def)
  have s: "piece F s" "sg_cmd s = IKCP_CMD_PUSH" "sg_conv s = kc_conv kcp"
    using seg key_fields [OF assms(3), of F] by simp_all
  then have "frag s \<in> set F" by (metis piece_def nth_mem)
  then have f: "unat (sg_frg s) < 128" "length (sg_data s) \<le> unat (kc_mss kcp)"
    using fit by (auto simp: frags_fit_def frag_def)
  have m: "unat (kc_mss kcp) = unat (kc_mtu kcp) - IKCP_OVERHEAD" "unat (kc_mtu kcp) < 2 ^ 20"
    using fit mtu_ok_values(3) by (auto simp: frags_fit_def mtu_ok_def)
  have "sg_cmd s \<noteq> IKCP_CMD_ACK" using s by (simp add: ikcp_cmds)
  then show ?thesis using s f m assms(4) by (simp add: link_seg_def sendable_def)
qed

lemma flush_ok:
  assumes ok: "send_ok F kcp" "acks_ok n kcp" "unat (kc_rcv_nxt kcp) \<le> N" and F: "length F \<le> 2 ^ 30"
    and fl: "ikcp_flush kcp = (outs, kcp')"
  shows "(\<forall>d \<in> set outs. is_datagram (link_seg (kc_conv kcp) F (arrived n kcp) N) d \<and> length d \<le> unat (kc_mtu kcp)) \<and>
    send_ok F kcp' \<and> cleared F kcp' = cleared F kcp \<and> rview kcp' = rview kcp \<and> acks_ok n kcp' \<and>
    kc_conv kcp' = kc_conv kcp \<and> kc_mss kcp' = kc_mss kcp \<and> kc_fault kcp' = kc_fault kcp"
proof (cases "kc_updated kcp")
  case False
  then show ?thesis using fl ok by (simp add: ikcp_flush_def)
next
  case True
  let ?Q = "link_seg (kc_conv kcp) F (arrived n kcp) N" and ?mtu = "kc_mtu kcp"
  have mtu: "mtu_ok ?mtu" using ok(1) by (simp add: send_ok_def send_core_def frags_fit_def)
  obtain seg out where a: "flush_acks ?mtu (kc_acklist kcp) (control_seg kcp) ([], [], False) = (seg, out)" by (meson surj_pair)
  let ?k1 = "(probe_window (kcp\<lparr>kc_acklist := []\<rparr>))"
  let ?k2 = "?k1\<lparr>kc_probe := 0\<rparr>"
  let ?out2 = "flush_probe ?k1 seg out"
  let ?wnd = "ikcp_wnd_unused kcp"
  let ?k3 = "move_to_buf (send_window ?k2) ?wnd (kc_snd_queue ?k2) ?k2"
  let ?resent = "if kc_fastresend ?k3 > 0 then of_int (kc_fastresend ?k3) else 0xffffffff"
  let ?rtomin = "if kc_nodelay ?k3 = 0 then of_int (kc_rx_rto ?k3 div 8) else 0"
  let ?fl = "\<lparr>fl_out = ?out2, fl_xmit = kc_xmit ?k3, fl_state = kc_state ?k3, fl_change = 0, fl_lost = False\<rparr>"
  obtain segs fl2 where s: "flush_segments ?k3 ?wnd ?resent ?rtomin (kc_snd_buf ?k3) ?fl = (segs, fl2)" by (meson surj_pair)
  obtain os buf fault where f: "fl_out fl2 = (os, buf, fault)" by (cases "fl_out fl2")
  let ?k4 = "?k3\<lparr>kc_snd_buf := segs, kc_xmit := fl_xmit fl2, kc_state := fl_state fl2, kc_fault := (kc_fault ?k3 \<or> fault)\<rparr>"
  have res: "outs = ikcp_output buf os" "kcp' = flush_congestion (kc_cwnd kcp) ?resent fl2 ?k4"
    using fl True a s f by (simp_all add: ikcp_flush_def Let_def)
  \<comment> \<open>acknowledgements and probes\<close>
  have data: "sg_data (control_seg kcp) = []" by (simp add: control_seg_def ikcp_segment_new_def)
  have out0: "out_ok ?Q ?mtu ([], [], False)" by (simp add: out_ok_def)
  have "?Q ((control_seg kcp)\<lparr>sg_sn := sn, sg_ts := ts\<rparr>)" if "(sn, ts) \<in> set (kc_acklist kcp)" for sn ts
  proof -
    have "(control_seg kcp)\<lparr>sg_sn := sn, sg_ts := ts\<rparr> = (control_seg kcp)\<lparr>sg_sn := sn, sg_ts := ts, sg_cmd := IKCP_CMD_ACK\<rparr>"
      by (simp add: control_seg_def ikcp_segment_new_def)
    then show ?thesis using control_seg_link [OF ok(3), of IKCP_CMD_ACK sn "arrived n kcp" F ts] that ok(2)
      by (auto simp: acks_ok_def)
  qed
  then have a1: "out_ok ?Q ?mtu out" "\<exists>sn ts. seg = (control_seg kcp)\<lparr>sg_sn := sn, sg_ts := ts\<rparr>"
    using flush_acks_ok [OF out0 mtu data, of "kc_acklist kcp"] a by auto
  then obtain sn ts where seg: "seg = (control_seg kcp)\<lparr>sg_sn := sn, sg_ts := ts\<rparr>" by blast
  have v1: "sview ?k1 = sview kcp" "rview ?k1 = rview kcp" "kc_mtu ?k1 = ?mtu"
    using probe_window_views [of "kcp\<lparr>kc_acklist := []\<rparr>"] sview_cong(5) [of ?k1 kcp]
    by (simp_all add: sview_fields rview_fields)
  have q: "?Q (seg\<lparr>sg_cmd := IKCP_CMD_WASK\<rparr>)" "?Q (seg\<lparr>sg_cmd := IKCP_CMD_WINS\<rparr>)"
    unfolding seg by (rule control_seg_link [OF ok(3)]; simp add: ikcp_cmds)+
  have "sg_data seg = []" unfolding seg using data by simp
  then have out2: "out_ok ?Q ?mtu ?out2"
    using flush_probe_ok [of ?Q ?k1 out seg] a1(1) mtu q unfolding v1(3) by blast
  \<comment> \<open>numbering fragments\<close>
  have v2: "sview (?k2\<lparr>kc_snd_queue := kc_snd_queue ?k2\<rparr>) = sview kcp" "rview ?k2 = rview kcp"
    using v1 by (simp_all add: sview_fields rview_fields)
  have s2: "send_ok F (?k2\<lparr>kc_snd_queue := kc_snd_queue ?k2\<rparr>)" using sview_cong(1) [OF v2(1)] ok(1) by simp
  note m = move_to_buf_ok [OF s2 F, of "send_window ?k2" ?wnd]
  have k3: "send_ok F ?k3" "keeps ?k3 ?k2" "cleared F ?k3 = cleared F kcp" "kc_mtu ?k3 = ?mtu" "kc_fault ?k3 = kc_fault kcp"
    using m sview_cong(2) [OF v2(1), of F] v1(3) by (simp_all add: probe_window_views)
  have kk: "kc_conv ?k2 = kc_conv kcp" "kc_mss ?k2 = kc_mss kcp" "kc_acklist ?k2 = []"
    using sview_cong(4,6) [OF v1(1)] by (simp_all add: probe_window_views)
  have r3: "rview ?k3 = rview kcp" "kc_conv ?k3 = kc_conv kcp" "kc_mss ?k3 = kc_mss kcp" "kc_acklist ?k3 = []"
    using k3(2) v2(2) kk by (simp_all add: keeps_def)
  then have n3: "kc_rcv_nxt ?k3 = kc_rcv_nxt kcp" by (simp add: rview_def)
  \<comment> \<open>sending\<close>
  have "?Q g \<and> length (sg_data g) \<le> unat (kc_mtu ?k3) - IKCP_OVERHEAD"
    if "h \<in> set (kc_snd_buf ?k3)" "key g = key h" "sg_una g = kc_rcv_nxt ?k3" for h g
    using buffer_seg_link [OF k3(1) that(1,2), of N "arrived n kcp"] that(3) ok(3) n3 r3(2) by simp
  then have fs: "map key segs = map key (kc_snd_buf ?k3)" "out_ok ?Q ?mtu (os, buf, fault)"
    using flush_segments_ok [of ?Q ?k3 ?fl "kc_snd_buf ?k3" ?wnd ?resent ?rtomin] out2 mtu s f unfolding k3(4) by auto
  have "send_core F ?k3 segs" using send_core_key [OF fs(1) [symmetric]] k3(1) by (simp add: send_ok_def)
  then have s4: "send_ok F ?k4" by (simp add: send_ok_def send_core_def numbered_def)
  have c4: "cleared F ?k4 = cleared F ?k3" by (rule cleared_key) (simp_all add: fs(1) numbered_def)
  have o: "\<forall>d \<in> set outs. is_datagram ?Q d \<and> length d \<le> unat ?mtu" "\<not> fault"
    using fs(2) by (auto simp: out_ok_def res(1) ikcp_output_def)
  have "sview kcp' = sview ?k4" "rview kcp' = rview ?k4" unfolding res(2) by (rule flush_congestion_views)+
  note sv = this
  have "rview kcp' = rview kcp" unfolding sv(2) using r3(1) by (simp add: rview_fields)
  moreover have "kc_acklist kcp' = []" "kc_fault kcp' = kc_fault kcp"
    unfolding res(2) using o(2) k3(5) r3(4) by (simp_all add: flush_congestion_views)
  moreover have "acks_ok n kcp'" by (simp add: acks_ok_def calculation(2))
  ultimately show ?thesis
    using o(1) s4 c4 k3(3) r3 sview_cong [OF sv(1)] by simp
qed

lemma update_ok:
  assumes ok: "send_ok F kcp" "acks_ok n kcp" "unat (kc_rcv_nxt kcp) \<le> N" and F: "length F \<le> 2 ^ 30"
    and up: "ikcp_update now kcp = (outs, kcp')"
  shows "(\<forall>d \<in> set outs. is_datagram (link_seg (kc_conv kcp) F (arrived n kcp) N) d \<and> length d \<le> unat (kc_mtu kcp)) \<and>
    send_ok F kcp' \<and> cleared F kcp' = cleared F kcp \<and> rview kcp' = rview kcp \<and> acks_ok n kcp' \<and>
    kc_conv kcp' = kc_conv kcp \<and> kc_mss kcp' = kc_mss kcp \<and> kc_fault kcp' = kc_fault kcp"
proof -
  have "\<exists>k. sview k = sview kcp \<and> rview k = rview kcp \<and> kc_acklist k = kc_acklist kcp \<and> kc_fault k = kc_fault kcp \<and>
      (ikcp_update now kcp = ikcp_flush k \<or> ikcp_update now kcp = ([], k))"
  proof -
    define a where "a = kcp\<lparr>kc_current := now\<rparr>"
    define b where "b = (if \<not> kc_updated a then a\<lparr>kc_updated := True, kc_ts_flush := now\<rparr> else a)"
    define slap where "slap = itimediff now (kc_ts_flush b)"
    define c where "c = (if slap \<ge> 10000 \<or> slap < - 10000 then (0, b\<lparr>kc_ts_flush := now\<rparr>) else (slap, b))"
    define d where "d = (snd c)\<lparr>kc_ts_flush := kc_ts_flush (snd c) + kc_interval (snd c)\<rparr>"
    define e where "e = (if itimediff now (kc_ts_flush d) \<ge> 0 then d\<lparr>kc_ts_flush := now + kc_interval d\<rparr> else d)"
    have u: "ikcp_update now kcp = (if fst c \<ge> 0 then ikcp_flush e else ([], snd c))"
      unfolding ikcp_update_def Let_def case_prod_unfold a_def [symmetric] b_def [symmetric] slap_def [symmetric]
        c_def [symmetric] d_def [symmetric] e_def [symmetric] by (rule refl)
    have b: "sview b = sview kcp" "rview b = rview kcp" "kc_acklist b = kc_acklist kcp" "kc_fault b = kc_fault kcp"
      by (simp_all add: b_def a_def sview_fields rview_fields)
    have c: "sview (snd c) = sview kcp" "rview (snd c) = rview kcp" "kc_acklist (snd c) = kc_acklist kcp"
      "kc_fault (snd c) = kc_fault kcp"
      by (simp_all add: c_def b sview_fields rview_fields)
    have e: "sview e = sview kcp" "rview e = rview kcp" "kc_acklist e = kc_acklist kcp" "kc_fault e = kc_fault kcp"
      by (simp_all add: e_def d_def c sview_fields rview_fields)
    show ?thesis
    proof (cases "fst c \<ge> 0")
      case True
      then show ?thesis unfolding u using e by (intro exI [of _ e]) (simp only: if_True simp_thms)
    next
      case False
      then show ?thesis unfolding u using c by (intro exI [of _ "snd c"]) (simp only: if_False simp_thms)
    qed
  qed
  then obtain k where k: "sview k = sview kcp" "rview k = rview kcp" "kc_acklist k = kc_acklist kcp" "kc_fault k = kc_fault kcp"
    "ikcp_update now kcp = ikcp_flush k \<or> ikcp_update now kcp = ([], k)" by blast
  have same: "send_ok F k" "acks_ok n k" "unat (kc_rcv_nxt k) \<le> N" "kc_conv k = kc_conv kcp" "kc_mtu k = kc_mtu kcp"
      "kc_mss k = kc_mss kcp" "cleared F k = cleared F kcp" "arrived n k = arrived n kcp"
    using ok k sview_cong [OF k(1)] rview_cong [OF k(2)] by (simp_all add: acks_ok_def rview_def)
  from k(5) show ?thesis
  proof
    assume "ikcp_update now kcp = ikcp_flush k"
    then have "ikcp_flush k = (outs, kcp')" using up by simp
    from flush_ok [OF same(1-3) F this] show ?thesis using same k by simp
  next
    assume "ikcp_update now kcp = ([], k)"
    then show ?thesis using up same k by simp
  qed
qed

section \<open>Taking in what the other end sent\<close>

text \<open>The state of one end: \<open>F\<close> is its own stream, \<open>G\<close> that of the other end.\<close>

definition end_ok :: "fragment list \<Rightarrow> fragment list \<Rightarrow> nat \<Rightarrow> ikcpcb \<Rightarrow> bool" where
  "end_ok F G n kcp \<longleftrightarrow> send_ok F kcp \<and> recv_ok G n kcp \<and> acks_ok n kcp"

definition advances :: "nat \<Rightarrow> ikcpcb \<Rightarrow> ikcpcb \<Rightarrow> bool" where
  "advances n a b \<longleftrightarrow> arrived n a \<subseteq> arrived n b \<and> rcv_count n a \<le> rcv_count n b \<and>
     kc_conv b = kc_conv a \<and> kc_mss b = kc_mss a \<and> kc_rcv_wnd b = kc_rcv_wnd a"

lemma advances_trans: "advances n a b \<Longrightarrow> advances n b c \<Longrightarrow> advances n a c"
  by (auto simp: advances_def)

lemma keeps_end:
  assumes "keeps b a"
  shows "recv_ok G n b = recv_ok G n a" "acks_ok n b = acks_ok n a" "advances n a b" "arrived n b = arrived n a"
  using assms rview_cong [of b a] by (simp_all add: keeps_def acks_ok_def advances_def) (simp add: rview_def)

lemma move_available_sview: "sview (move_available segs kcp) = sview kcp \<and> kc_acklist (move_available segs kcp) = kc_acklist kcp \<and>
    kc_rcv_wnd (move_available segs kcp) = kc_rcv_wnd kcp"
  by (induction segs arbitrary: kcp) (simp_all add: sview_def)

lemma recv_views: "ikcp_recv cap kcp = (r, data, kcp') \<Longrightarrow> sview kcp' = sview kcp \<and> kc_acklist kcp' = kc_acklist kcp"
  by (auto simp: ikcp_recv_def Let_def move_available_sview sview_fields split: if_splits prod.splits)

lemma parse_data_views: "sview (ikcp_parse_data seg kcp) = sview kcp" "kc_acklist (ikcp_parse_data seg kcp) = kc_acklist kcp"
  "kc_rcv_wnd (ikcp_parse_data seg kcp) = kc_rcv_wnd kcp"
  by (simp_all add: ikcp_parse_data_def Let_def move_available_sview sview_fields split: option.split)

lemma ack_push_views:
  "sview (ikcp_ack_push sn ts kcp) = sview kcp" "rview (ikcp_ack_push sn ts kcp) = rview kcp"
  "kc_acklist (ikcp_ack_push sn ts kcp) = kc_acklist kcp @ [(sn, ts)]"
  by (simp_all add: ikcp_ack_push_def Let_def sview_fields rview_fields)

lemma input_push_ok:
  assumes ok: "end_ok F G n kcp" and G: "length G \<le> 2 ^ 30" and p: "piece G seg"
  shows "end_ok F G n (input_push seg kcp) \<and> advances n kcp (input_push seg kcp) \<and> sview (input_push seg kcp) = sview kcp \<and>
    (idx seg < rcv_count n kcp + unat (kc_rcv_wnd kcp) \<longrightarrow> idx seg \<in> arrived n (input_push seg kcp))"
proof -
  let ?k = "ikcp_ack_push (sg_sn seg) (sg_ts seg) kcp"
  let ?r = "if itimediff (sg_sn seg) (kc_rcv_nxt ?k) \<ge> 0 then ikcp_parse_data seg ?k else ?k"
  have rk: "recv_ok G n ?k" "arrived n ?k = arrived n kcp" "rcv_count n ?k = rcv_count n kcp" "kc_rcv_nxt ?k = kc_rcv_nxt kcp"
    "kc_rcv_wnd ?k = kc_rcv_wnd kcp"
    using ok rview_cong [OF ack_push_views(2)] ack_push_views(2) by (simp_all add: end_ok_def rview_def)
  have core: "recv_core G n kcp (kc_rcv_buf kcp)" using ok by (simp add: end_ok_def recv_ok_def)
  let ?N = "rcv_count n kcp" and ?W = "unat (kc_rcv_wnd kcp)"
  have b: "?N \<le> 2 ^ 30" "?W \<le> 2 ^ 29" "idx seg < 2 ^ 30" "unat (kc_rcv_nxt kcp) = ?N"
    using core G p by (auto simp: recv_core_def piece_def unat_of_nat_seq)
  have w: "unat (kc_rcv_nxt kcp + kc_rcv_wnd kcp) = ?N + ?W"
    using b unat_seq_add [of "kc_rcv_nxt kcp" "kc_rcv_wnd kcp"] by simp
  have d: "itimediff (sg_sn seg) (kc_rcv_nxt kcp + kc_rcv_wnd kcp) = int (idx seg) - int (?N + ?W)"
    "itimediff (sg_sn seg) (kc_rcv_nxt kcp) = int (idx seg) - int ?N"
    by (rule itimediff_idx_at [OF w], rule seq_near) (use b in simp_all, rule itimediff_idx_at [OF b(4)], rule seq_near, simp_all)
  show ?thesis
  proof (cases "idx seg < ?N + ?W")
    case False
    then have "\<not> itimediff (sg_sn seg) (kc_rcv_nxt kcp + kc_rcv_wnd kcp) < 0" unfolding d(1) by linarith
    then have "input_push seg kcp = kcp" by (simp add: input_push_def)
    then show ?thesis using ok False by (simp add: advances_def)
  next
    case in_window: True
    then have "itimediff (sg_sn seg) (kc_rcv_nxt kcp + kc_rcv_wnd kcp) < 0" unfolding d(1) by linarith
    then have i: "input_push seg kcp = ?r" by (simp add: input_push_def Let_def)
    have r: "recv_ok G n ?r \<and> arrived n kcp \<subseteq> arrived n ?r \<and> ?N \<le> rcv_count n ?r \<and> idx seg \<in> arrived n ?r"
    proof (cases "itimediff (sg_sn seg) (kc_rcv_nxt ?k) \<ge> 0")
      case True
      then show ?thesis using parse_data_ok [OF rk(1) G p] rk in_window by simp
    next
      case False
      then have "idx seg < ?N" unfolding rk(4) d(2) by linarith
      then have "idx seg \<in> arrived n ?k" using rk(2) by (simp add: arrived_def)
      then show ?thesis using False rk by simp
    qed
    have v: "sview ?r = sview kcp" "kc_acklist ?r = kc_acklist kcp @ [(sg_sn seg, sg_ts seg)]" "kc_rcv_wnd ?r = kc_rcv_wnd kcp"
      by (simp_all add: parse_data_views ack_push_views rk(5))
    have "acks_ok n ?r" using ok r v(2) by (auto simp: end_ok_def acks_ok_def idx_def)
    then show ?thesis using r v ok sview_cong [OF v(1)] unfolding i by (simp add: end_ok_def advances_def)
  qed
qed

lemma end_ok_sview: "sview b = sview a \<Longrightarrow> keeps b a \<Longrightarrow> end_ok F G n a \<Longrightarrow> end_ok F G n b"
  using sview_cong(1) [of b a F] keeps_end(1,2) [of b a] by (simp add: end_ok_def)

lemma input_seg_ok:
  assumes ok: "end_ok F G n kcp" and len: "length F \<le> 2 ^ 30" "length G \<le> 2 ^ 30"
    and seg: "link_seg conv G A N seg" "N \<le> length F" "{..<N} \<subseteq> A"
    and step: "input_seg (wire_read seg) (kcp, acked) = (kcp', acked')"
  shows "end_ok F G n kcp' \<and> advances n kcp kcp' \<and> cleared F kcp' \<subseteq> cleared F kcp \<union> A \<and>
    (sg_cmd seg = IKCP_CMD_PUSH \<and> idx seg < rcv_count n kcp + unat (kc_rcv_wnd kcp) \<longrightarrow> idx seg \<in> arrived n kcp')"
proof -
  let ?s = "wire_read seg"
  let ?k0 = "kcp\<lparr>kc_rmt_wnd := sg_wnd ?s\<rparr>"
  let ?k1 = "ikcp_parse_una (sg_una seg) ?k0"
  let ?k2 = "ikcp_shrink_buf ?k1"
  have k0: "sview ?k0 = sview kcp" "keeps ?k0 kcp" by (simp_all add: sview_fields keeps_def rview_fields)
  have una: "unat (sg_una seg) \<le> N" using seg(1) by (simp add: link_seg_def)
  then have "unat (sg_una seg) \<le> 2 ^ 30" using seg(2) len(1) by simp
  then have k1: "send_ok F ?k1" "keeps ?k1 ?k0" "cleared F ?k1 \<subseteq> cleared F kcp \<union> {..<unat (sg_una seg)}"
    using parse_una_ok [of F ?k0 "sg_una seg"] ok len(1) sview_cong [OF k0(1)] by (simp_all add: end_ok_def)
  have "{..<unat (sg_una seg)} \<subseteq> A" using una seg(3) by auto
  then have c2: "cleared F ?k2 \<subseteq> cleared F kcp \<union> A" using k1(3) sview_cong(2) [OF shrink_views(1)] by blast
  have kp: "keeps ?k2 kcp" using keeps_trans [OF shrink_views(2)] keeps_trans [OF k1(2) k0(2)] by blast
  have e2: "end_ok F G n ?k2" using ok k1(1) keeps_end [OF kp] sview_cong(1) [OF shrink_views(1)] by (simp add: end_ok_def)
  have ad: "advances n kcp ?k2" by (rule keeps_end(3) [OF kp])
  have fields: "sg_una ?s = sg_una seg" "sg_cmd ?s = sg_cmd seg" "sg_sn ?s = sg_sn seg" "sg_ts ?s = sg_ts seg"
    by (simp_all add: wire_read_def)
  consider "sg_cmd seg = IKCP_CMD_ACK" | "sg_cmd seg = IKCP_CMD_PUSH" | "sg_cmd seg \<noteq> IKCP_CMD_ACK" "sg_cmd seg \<noteq> IKCP_CMD_PUSH"
    by blast
  then show ?thesis
  proof cases
    case 1
    let ?k3 = "if itimediff (kc_current ?k2) (sg_ts seg) \<ge> 0 then ikcp_update_ack (itimediff (kc_current ?k2) (sg_ts seg)) ?k2 else ?k2"
    have k': "kcp' = ikcp_shrink_buf (ikcp_parse_ack (sg_sn seg) ?k3)"
      using step 1 by (simp add: input_seg_def fields input_ack_def Let_def)
    have v3: "sview ?k3 = sview ?k2" "keeps ?k3 ?k2" by (simp_all add: update_ack_views) (simp add: keeps_def)
    have s3: "send_ok F ?k3" using e2 sview_cong(1) [OF v3(1)] by (simp add: end_ok_def)
    note p = parse_ack_ok [OF s3, of "sg_sn seg"]
    have kp3: "keeps kcp' ?k2" unfolding k' using keeps_trans [OF shrink_views(2)] keeps_trans p v3(2) by blast
    have "idx seg \<in> A" using seg(1) 1 by (simp add: link_seg_def)
    then have "cleared F kcp' \<subseteq> cleared F kcp \<union> A"
      using p c2 sview_cong(2) [OF shrink_views(1)] sview_cong(2) [OF v3(1)] unfolding k' by (auto simp: idx_def)
    moreover have "end_ok F G n kcp'"
      using e2 keeps_end(1,2) [OF kp3] p sview_cong(1) [OF shrink_views(1)] unfolding k' by (simp add: end_ok_def)
    moreover have "sg_cmd seg \<noteq> IKCP_CMD_PUSH" using 1 by (simp add: ikcp_cmds)
    ultimately show ?thesis using advances_trans [OF ad keeps_end(3) [OF kp3]] by blast
  next
    case 2
    then have k': "kcp' = input_push ?s ?k2" using step by (simp add: input_seg_def fields ikcp_cmds Let_def)
    have "piece G ?s" using seg(1) 2 by (simp add: link_seg_def piece_def idx_def frag_def wire_read_def)
    note p = input_push_ok [OF e2 len(2) this]
    have i: "idx ?s = idx seg" by (simp add: idx_def wire_read_def)
    have w: "rcv_count n ?k2 = rcv_count n kcp" "kc_rcv_wnd ?k2 = kc_rcv_wnd kcp"
      using kp rview_cong [of ?k2 kcp] by (simp_all add: keeps_def) (simp add: rview_def)
    show ?thesis unfolding k' using p [unfolded i w] advances_trans [OF ad] c2 sview_cong(2) [of "input_push ?s ?k2" ?k2 F] by blast
  next
    case 3
    then have "kcp' = ?k2 \<or> kcp' = ?k2\<lparr>kc_probe := kc_probe ?k2 OR IKCP_ASK_TELL\<rparr>"
      using step by (auto simp: input_seg_def fields Let_def split: if_splits)
    then have "sview kcp' = sview ?k2" "keeps kcp' ?k2" by (auto simp: sview_fields keeps_def rview_fields)
    then show ?thesis using 3 end_ok_sview e2 advances_trans [OF ad keeps_end(3)] c2 sview_cong(2) [of kcp' ?k2 F] by blast
  qed
qed

lemma input_fold_ok:
  assumes "end_ok F G n kcp" "length F \<le> 2 ^ 30" "length G \<le> 2 ^ 30"
    "\<forall>seg \<in> set segs. link_seg conv G A N seg" "N \<le> length F" "{..<N} \<subseteq> A"
    "foldl (\<lambda>st seg. input_seg (wire_read seg) st) (kcp, acked) segs = (kcp', acked')"
  shows "end_ok F G n kcp' \<and> advances n kcp kcp' \<and> cleared F kcp' \<subseteq> cleared F kcp \<union> A \<and>
    (\<forall>seg \<in> set segs. sg_cmd seg = IKCP_CMD_PUSH \<and> idx seg < rcv_count n kcp + unat (kc_rcv_wnd kcp) \<longrightarrow> idx seg \<in> arrived n kcp')"
  using assms(1,4,7)
proof (induction segs arbitrary: kcp acked)
  case Nil
  then show ?case by (simp add: advances_def)
next
  case (Cons seg segs)
  obtain k a where s: "input_seg (wire_read seg) (kcp, acked) = (k, a)" by (meson surj_pair)
  have one: "end_ok F G n k \<and> advances n kcp k \<and> cleared F k \<subseteq> cleared F kcp \<union> A \<and>
    (sg_cmd seg = IKCP_CMD_PUSH \<and> idx seg < rcv_count n kcp + unat (kc_rcv_wnd kcp) \<longrightarrow> idx seg \<in> arrived n k)"
    using input_seg_ok [OF Cons.prems(1) assms(2,3) _ assms(5,6) s, of conv] Cons.prems(2) by simp
  have rest: "end_ok F G n kcp' \<and> advances n k kcp' \<and> cleared F kcp' \<subseteq> cleared F k \<union> A \<and>
    (\<forall>seg \<in> set segs. sg_cmd seg = IKCP_CMD_PUSH \<and> idx seg < rcv_count n k + unat (kc_rcv_wnd k) \<longrightarrow> idx seg \<in> arrived n kcp')"
    using Cons.IH [of k a] one Cons.prems(2,3) s by simp
  have grow: "rcv_count n kcp \<le> rcv_count n k" "kc_rcv_wnd k = kc_rcv_wnd kcp" "arrived n k \<subseteq> arrived n kcp'"
    using one rest by (simp_all add: advances_def)
  have "\<forall>g \<in> set (seg # segs). sg_cmd g = IKCP_CMD_PUSH \<and> idx g < rcv_count n kcp + unat (kc_rcv_wnd kcp) \<longrightarrow> idx g \<in> arrived n kcp'"
    using one rest grow by fastforce
  then show ?case using one rest advances_trans by blast
qed

lemma input_segs_ok:
  assumes ok: "end_ok F G n kcp" and len: "length F \<le> 2 ^ 30" "length G \<le> 2 ^ 30"
    and segs: "segs \<noteq> []" "d = concat (map wire_seg segs)" "\<forall>seg \<in> set segs. link_seg (kc_conv kcp) G A N seg"
    and N: "N \<le> length F" "{..<N} \<subseteq> A"
    and inp: "ikcp_input d kcp = (rc, kcp')"
  shows "rc = 0 \<and> end_ok F G n kcp' \<and> advances n kcp kcp' \<and> cleared F kcp' \<subseteq> cleared F kcp \<union> A \<and>
    (\<forall>seg \<in> set segs. sg_cmd seg = IKCP_CMD_PUSH \<and> idx seg < rcv_count n kcp + unat (kc_rcv_wnd kcp) \<longrightarrow> idx seg \<in> arrived n kcp')"
proof -
  let ?k0 = "kcp\<lparr>kc_ackedlen := 0\<rparr>"
  obtain k acked where f: "foldl (\<lambda>st seg. input_seg (wire_read seg) st) (?k0, None) segs = (k, acked)" by (meson surj_pair)
  have "\<forall>seg \<in> set segs. sendable (kc_conv (fst (?k0, None :: (u32 \<times> u32) option))) seg" using segs(3) by (simp add: link_seg_def)
  from input_loop_segs [OF this] have loop: "input_loop d (?k0, None) = (0, k, acked)" unfolding segs(2) f .
  have "length d \<ge> IKCP_OVERHEAD" using segs(1,2) by (cases segs) (simp_all add: wire_seg_def)
  then have long: "\<not> length d < IKCP_OVERHEAD" by simp
  let ?k1 = "case acked of None \<Rightarrow> k | Some (maxack, latest_ts) \<Rightarrow> ikcp_parse_fastack maxack latest_ts k"
  let ?k2 = "if itimediff (kc_snd_una ?k1) (kc_snd_una kcp) > 0 then grow_cwnd ?k1 else ?k1"
  have res: "rc = 0" "kcp' = ?k2" using inp long by (simp_all add: ikcp_input_def Let_def loop)
  have k0: "sview ?k0 = sview kcp" "keeps ?k0 kcp" by (simp_all add: sview_fields keeps_def rview_fields)
  have e0: "end_ok F G n ?k0" by (rule end_ok_sview [OF k0 ok])
  have r0: "rcv_count n ?k0 = rcv_count n kcp" "kc_rcv_wnd ?k0 = kc_rcv_wnd kcp" by (simp_all add: rcv_count_def)
  have fold: "end_ok F G n k \<and> advances n ?k0 k \<and> cleared F k \<subseteq> cleared F ?k0 \<union> A \<and>
    (\<forall>seg \<in> set segs. sg_cmd seg = IKCP_CMD_PUSH \<and> idx seg < rcv_count n kcp + unat (kc_rcv_wnd kcp) \<longrightarrow> idx seg \<in> arrived n k)"
    unfolding r0 [symmetric] by (rule input_fold_ok [OF e0 len _ N f, of "kc_conv kcp"]) (use segs(3) in simp)
  have k1: "send_ok F ?k1 \<and> keeps ?k1 k \<and> cleared F ?k1 = cleared F k"
    using parse_fastack_ok [of F k] fold by (cases acked) (auto simp: end_ok_def keeps_def)
  have k2: "sview ?k2 = sview ?k1" "keeps ?k2 k"
    using k1 keeps_trans [OF grow_cwnd_views(2)] by (simp_all add: grow_cwnd_views(1))
  have "end_ok F G n ?k2" using fold k1 keeps_end [OF k2(2)] sview_cong(1) [OF k2(1)] by (simp add: end_ok_def)
  moreover have "cleared F ?k2 \<subseteq> cleared F kcp \<union> A" using k1 fold sview_cong(2) [OF k2(1)] sview_cong(2) [OF k0(1)] by blast
  moreover have "advances n kcp ?k2"
    using advances_trans [OF keeps_end(3) [OF k0(2)]] advances_trans [OF _ keeps_end(3) [OF k2(2)]] fold by blast
  moreover have "arrived n ?k2 = arrived n k" by (rule keeps_end(4) [OF k2(2)])
  ultimately show ?thesis using res fold by simp
qed

lemma input_ok:
  assumes "end_ok F G n kcp" "length F \<le> 2 ^ 30" "length G \<le> 2 ^ 30"
    "is_datagram (link_seg (kc_conv kcp) G A N) d" "N \<le> length F" "{..<N} \<subseteq> A" "ikcp_input d kcp = (rc, kcp')"
  shows "rc = 0 \<and> end_ok F G n kcp' \<and> advances n kcp kcp' \<and> cleared F kcp' \<subseteq> cleared F kcp \<union> A"
  using assms(4) input_segs_ok [OF assms(1-3) _ _ _ assms(5-7)] unfolding is_datagram_def by blast

end
