(* ===== verification/Kcp_Link.thy ===== *)
theory Kcp_Link
  imports Kcp_Session "HOL-Library.Sublist"
begin

text \<open>
  Two ends of a KCP session over a network that may lose, duplicate, delay and reorder datagrams, but
  does not forge them: every datagram that arrives at one end was sent by the other. The ends are
  configured as \<^verbatim>\<open>udp_kcp_open\<close> does it. Each end remembers, beside its control block, which messages it
  accepted, which it handed out, and the datagrams it sent.
\<close>

section \<open>Two ends and a network\<close>

definition BC_KCP_TIMER_MS :: int where "BC_KCP_TIMER_MS = 10"

definition kcp_configure :: "ikcpcb \<Rightarrow> ikcpcb" where
  "kcp_configure kcp = snd (ikcp_wndsize 256 256 (snd (ikcp_nodelay 1 BC_KCP_TIMER_MS 2 1 kcp)))"

definition kcp_start :: "u32 \<Rightarrow> ikcpcb" where
  "kcp_start conv = kcp_configure (the (ikcp_create (True, True) conv))"

record knode =
  kn_kcp :: ikcpcb
  kn_sent :: "byte list list"
  kn_got :: "byte list list"
  kn_out :: "byte list list"

definition knode_start :: "u32 \<Rightarrow> knode" where
  "knode_start conv = \<lparr>kn_kcp = kcp_start conv, kn_sent = [], kn_got = [], kn_out = []\<rparr>"

datatype kevent = K_Send "byte list" | K_Recv int | K_Update u32 | K_Input "byte list"

fun knode_step :: "kevent \<Rightarrow> knode \<Rightarrow> knode" where
  "knode_step (K_Send m) a =
     (case ikcp_send m (int (length m)) (kn_kcp a) of (r, kcp) \<Rightarrow>
        a\<lparr>kn_kcp := kcp, kn_sent := (if r < 0 then kn_sent a else kn_sent a @ [m])\<rparr>)"
| "knode_step (K_Recv cap) a =
     (case ikcp_recv cap (kn_kcp a) of (r, data, kcp) \<Rightarrow>
        a\<lparr>kn_kcp := kcp, kn_got := (if r < 0 \<or> cap < 0 then kn_got a else kn_got a @ [data])\<rparr>)"
| "knode_step (K_Update now) a =
     (case ikcp_update now (kn_kcp a) of (outs, kcp) \<Rightarrow> a\<lparr>kn_kcp := kcp, kn_out := kn_out a @ outs\<rparr>)"
| "knode_step (K_Input d) a = a\<lparr>kn_kcp := snd (ikcp_input d (kn_kcp a))\<rparr>"

declare knode_step.simps [simp del]

fun kevent_ok :: "kevent \<Rightarrow> knode \<Rightarrow> bool" where
  "kevent_ok (K_Send m) peer \<longleftrightarrow> length m < 2 ^ 31"
| "kevent_ok (K_Input d) peer \<longleftrightarrow> d \<in> set (kn_out peer)"
| "kevent_ok _ peer \<longleftrightarrow> True"

inductive klink :: "u32 \<Rightarrow> knode \<times> knode \<Rightarrow> bool" for conv where
  klink_start: "klink conv (knode_start conv, knode_start conv)"
| klink_left: "klink conv (a, b) \<Longrightarrow> kevent_ok e b \<Longrightarrow> klink conv (knode_step e a, b)"
| klink_right: "klink conv (a, b) \<Longrightarrow> kevent_ok e a \<Longrightarrow> klink conv (a, knode_step e b)"

text \<open>The fragments of the messages an end has accepted; the code keeps 1376 bytes in each.\<close>

definition kstream :: "byte list list \<Rightarrow> fragment list" where
  "kstream ms = concat (map (split_message 1376) ms)"

section \<open>The invariant\<close>

definition got_count :: "knode \<Rightarrow> nat" where
  "got_count a = length (kstream (kn_got a))"

definition link_ok :: "u32 \<Rightarrow> knode \<Rightarrow> knode \<Rightarrow> bool" where
  "link_ok conv a b \<longleftrightarrow>
     prefix (kn_got a) (kn_sent b) \<and> kc_conv (kn_kcp a) = conv \<and> unat (kc_mss (kn_kcp a)) = 1376 \<and>
     end_ok (kstream (kn_sent a)) (kstream (kn_sent b)) (got_count a) (kn_kcp a) \<and>
     (\<forall>d \<in> set (kn_out a). length d \<le> 1400 \<and>
        is_datagram (link_seg conv (kstream (kn_sent a)) (arrived (got_count a) (kn_kcp a)) (rcv_count (got_count a) (kn_kcp a))) d) \<and>
     cleared (kstream (kn_sent a)) (kn_kcp a) \<subseteq> arrived (got_count b) (kn_kcp b)"

definition few_fragments :: "knode \<Rightarrow> knode \<Rightarrow> bool" where
  "few_fragments a b \<longleftrightarrow> length (kstream (kn_sent a)) \<le> 2 ^ 30 \<and> length (kstream (kn_sent b)) \<le> 2 ^ 30"

lemma kstream_append: "kstream (xs @ ys) = kstream xs @ kstream ys"
  by (simp add: kstream_def)

lemma start_fields:
  "kc_conv (kcp_start conv) = conv" "kc_mtu (kcp_start conv) = 1400" "kc_mss (kcp_start conv) = 1376"
  "kc_stream (kcp_start conv) = 0" "kc_snd_queue (kcp_start conv) = []" "kc_snd_buf (kcp_start conv) = []"
  "kc_rcv_queue (kcp_start conv) = []" "kc_rcv_buf (kcp_start conv) = []" "kc_acklist (kcp_start conv) = []"
  "kc_snd_nxt (kcp_start conv) = 0" "kc_rcv_nxt (kcp_start conv) = 0" "kc_nsnd_buf (kcp_start conv) = 0"
  "kc_nsnd_que (kcp_start conv) = 0" "kc_nrcv_buf (kcp_start conv) = 0" "kc_nrcv_que (kcp_start conv) = 0"
  "kc_rcv_wnd (kcp_start conv) = 256"
  by (simp_all add: kcp_start_def kcp_configure_def ikcp_create_def ikcp_nodelay_def ikcp_wndsize_def BC_KCP_TIMER_MS_def
      IKCP_MTU_DEF_def IKCP_OVERHEAD_def IKCP_WND_RCV_def imax_def Let_def)

lemma start_ok: "link_ok conv (knode_start conv) (knode_start conv)"
  by (simp add: link_ok_def knode_start_def kstream_def got_count_def end_ok_def send_ok_def send_core_def frags_fit_def
      mtu_ok_def IKCP_OVERHEAD_def numbered_def recv_ok_def recv_core_def rcv_count_def settled_def acks_ok_def cleared_def
      start_fields)

text \<open>What a step of one end does for the other end's part of the invariant.\<close>

lemma link_ok_peer:
  assumes "link_ok conv b a" "kn_sent a' = kn_sent a @ X" "arrived (got_count a) (kn_kcp a) \<subseteq> arrived (got_count a') (kn_kcp a')"
  shows "link_ok conv b a'"
proof -
  have e: "end_ok (kstream (kn_sent b)) (kstream (kn_sent a')) (got_count b) (kn_kcp b)"
    using assms(1) by (simp add: link_ok_def end_ok_def assms(2) kstream_append recv_ok_append)
  have p: "prefix (kn_got b) (kn_sent a')" using assms(1) by (simp add: link_ok_def assms(2))
  have "cleared (kstream (kn_sent b)) (kn_kcp b) \<subseteq> arrived (got_count a') (kn_kcp a')"
    using assms(1,3) by (auto simp: link_ok_def)
  then show ?thesis using assms(1) e p by (simp add: link_ok_def)
qed

lemma outs_grow:
  assumes "\<forall>d \<in> set outs. length d \<le> 1400 \<and> is_datagram (link_seg conv F A N) d" "A \<subseteq> A'" "N \<le> N'"
  shows "\<forall>d \<in> set outs. length d \<le> 1400 \<and> is_datagram (link_seg conv (F @ X) A' N') d"
  using assms is_datagram_mono link_seg_mono by metis

lemma rcv_nxt_small: "recv_ok G n kcp \<Longrightarrow> length G \<le> 2 ^ 30 \<Longrightarrow> unat (kc_rcv_nxt kcp) = rcv_count n kcp"
  by (simp add: recv_ok_def recv_core_def unat_of_nat_seq)

lemma got_prefix_stream:
  assumes "prefix got sent" "length got < length sent"
  shows "drop (length (kstream got)) (kstream sent) = split_message 1376 (sent ! length got) @ kstream (drop (Suc (length got)) sent)"
    "prefix (got @ [sent ! length got]) sent"
proof -
  obtain ys where ys: "sent = got @ ys" using assms(1) by (auto simp: prefix_def)
  then obtain y zs where zs: "ys = y # zs" using assms(2) by (cases ys) auto
  then show "drop (length (kstream got)) (kstream sent) = split_message 1376 (sent ! length got) @ kstream (drop (Suc (length got)) sent)"
    "prefix (got @ [sent ! length got]) sent"
    using ys by (simp_all add: kstream_append) (simp add: kstream_def)
qed

lemma link_step_send:
  assumes ok: "link_ok conv a b" and m: "length m < 2 ^ 31"
  shows "\<exists>X. kn_sent (knode_step (K_Send m) a) = kn_sent a @ X \<and> link_ok conv (knode_step (K_Send m) a) b \<and>
    arrived (got_count a) (kn_kcp a) \<subseteq> arrived (got_count (knode_step (K_Send m) a)) (kn_kcp (knode_step (K_Send m) a))"
proof -
  let ?F = "kstream (kn_sent a)" and ?k = "kn_kcp a"
  obtain r kcp' where s: "ikcp_send m (int (length m)) ?k = (r, kcp')" by (meson surj_pair)
  have e: "send_ok ?F ?k" "unat (kc_mss ?k) = 1376" using ok by (simp_all add: link_ok_def end_ok_def)
  note f = send_message [OF e(1) m s]
  show ?thesis
  proof (cases "r < 0")
    case True
    then have "knode_step (K_Send m) a = a" using f s by (simp add: knode_step.simps)
    then show ?thesis using ok by (intro exI [of _ "[]"]) simp
  next
    case False
    let ?a = "knode_step (K_Send m) a"
    have a: "?a = a\<lparr>kn_kcp := kcp', kn_sent := kn_sent a @ [m]\<rparr>" using s False by (simp add: knode_step.simps)
    have g: "kstream (kn_sent a @ [m]) = ?F @ split_message 1376 m" by (simp add: kstream_def)
    have f': "send_ok (?F @ split_message 1376 m) kcp'" "rview kcp' = rview ?k" "cleared (?F @ split_message 1376 m) kcp' = cleared ?F ?k"
      "kc_conv kcp' = kc_conv ?k" "kc_mss kcp' = kc_mss ?k" "kc_acklist kcp' = kc_acklist ?k"
      using f False e(2) by simp_all
    note rc = rview_cong [OF f'(2)]
    have n: "got_count ?a = got_count a" by (simp add: a got_count_def)
    have outs: "\<forall>d \<in> set (kn_out a). length d \<le> 1400 \<and> is_datagram (link_seg conv (?F @ split_message 1376 m)
        (arrived (got_count a) kcp') (rcv_count (got_count a) kcp')) d"
      by (rule outs_grow) (use ok rc in \<open>auto simp: link_ok_def\<close>)
    have "link_ok conv ?a b"
      using ok f' rc outs n by (simp add: link_ok_def end_ok_def acks_ok_def a g)
    then show ?thesis using n rc by (intro exI [of _ "[m]"]) (simp add: a)
  qed
qed

lemma link_step_recv:
  assumes ok: "link_ok conv a b" and few: "few_fragments a b"
  shows "\<exists>X. kn_sent (knode_step (K_Recv cap) a) = kn_sent a @ X \<and> link_ok conv (knode_step (K_Recv cap) a) b \<and>
    arrived (got_count a) (kn_kcp a) \<subseteq> arrived (got_count (knode_step (K_Recv cap) a)) (kn_kcp (knode_step (K_Recv cap) a))"
proof -
  let ?k = "kn_kcp a" and ?G = "kstream (kn_sent b)" and ?n = "got_count a" and ?a = "knode_step (K_Recv cap) a"
  obtain r data kcp' where r: "ikcp_recv cap ?k = (r, data, kcp')" by (metis prod_cases3)
  have rok: "recv_ok ?G ?n ?k" and pre: "prefix (kn_got a) (kn_sent b)" and G: "length ?G \<le> 2 ^ 30"
    using ok few by (simp_all add: link_ok_def end_ok_def few_fragments_def)
  show ?thesis
  proof (cases "r < 0 \<or> ?n = length ?G")
    case True
    then have "kcp' = ?k \<and> r < 0" using recv_nothing [OF rok r] by blast
    then have "?a = a" using r by (simp add: knode_step.simps)
    then show ?thesis using ok by (intro exI [of _ "[]"]) simp
  next
    case False
    have lt: "length (kn_got a) < length (kn_sent b)"
    proof (rule ccontr)
      assume "\<not> length (kn_got a) < length (kn_sent b)"
      then have "kn_got a = kn_sent b" using pre by (metis not_equal_is_parallel prefix_length_le prefix_order.eq_iff
            le_antisym linorder_not_less prefix_length_less prefix_order.less_le)
      then show False using False by (simp add: got_count_def)
    qed
    let ?m = "kn_sent b ! length (kn_got a)"
    note gp = got_prefix_stream [OF pre lt]
    have d: "drop ?n ?G = split_message 1376 ?m @ kstream (drop (Suc (length (kn_got a))) (kn_sent b))"
      using gp(1) by (simp add: got_count_def)
    have f: "data = ?m" "recv_ok ?G (if cap < 0 then ?n else ?n + frag_count 1376 ?m) kcp'"
      "arrived ?n ?k \<subseteq> arrived (if cap < 0 then ?n else ?n + frag_count 1376 ?m) kcp'"
      "rcv_count ?n ?k \<le> rcv_count (if cap < 0 then ?n else ?n + frag_count 1376 ?m) kcp'"
      using recv_message [OF rok G d _ r] False by simp_all
    have a: "?a = a\<lparr>kn_kcp := kcp', kn_got := (if cap < 0 then kn_got a else kn_got a @ [?m])\<rparr>"
      using r False f(1) by (simp add: knode_step.simps)
    have n: "got_count ?a = (if cap < 0 then ?n else ?n + frag_count 1376 ?m)"
      by (simp add: a got_count_def kstream_append) (simp add: kstream_def)
    have sv: "sview kcp' = sview ?k" "kc_acklist kcp' = kc_acklist ?k" using recv_views [OF r] by simp_all
    note sc = sview_cong [OF sv(1)]
    have "acks_ok (got_count ?a) kcp'" using ok f(3) n sv(2) by (auto simp: link_ok_def end_ok_def acks_ok_def)
    then have e: "end_ok (kstream (kn_sent a)) ?G (got_count ?a) kcp'"
      using ok f(2) n sc(1) by (simp add: link_ok_def end_ok_def)
    have outs: "\<forall>d \<in> set (kn_out a). length d \<le> 1400 \<and> is_datagram (link_seg conv (kstream (kn_sent a) @ [])
        (arrived (got_count ?a) kcp') (rcv_count (got_count ?a) kcp')) d"
      by (rule outs_grow [of _ _ _ "arrived ?n ?k" "rcv_count ?n ?k"]) (use ok f(3,4) n in \<open>auto simp: link_ok_def\<close>)
    have "link_ok conv ?a b"
      using ok e outs sc gp(2) pre by (simp add: link_ok_def a)
    then show ?thesis using f(3) n by (intro exI [of _ "[]"]) (simp add: a)
  qed
qed

lemma link_step_update:
  assumes ok: "link_ok conv a b" and few: "few_fragments a b"
  shows "\<exists>X. kn_sent (knode_step (K_Update now) a) = kn_sent a @ X \<and> link_ok conv (knode_step (K_Update now) a) b \<and>
    arrived (got_count a) (kn_kcp a) \<subseteq> arrived (got_count (knode_step (K_Update now) a)) (kn_kcp (knode_step (K_Update now) a))"
proof -
  let ?k = "kn_kcp a" and ?F = "kstream (kn_sent a)" and ?n = "got_count a" and ?a = "knode_step (K_Update now) a"
  obtain outs kcp' where u: "ikcp_update now ?k = (outs, kcp')" by (meson surj_pair)
  have pre: "send_ok ?F ?k" "acks_ok ?n ?k" "unat (kc_rcv_nxt ?k) \<le> rcv_count ?n ?k" "length ?F \<le> 2 ^ 30"
    using ok few rcv_nxt_small by (auto simp: link_ok_def end_ok_def few_fragments_def)
  note f = update_ok [OF pre u]
  have a: "?a = a\<lparr>kn_kcp := kcp', kn_out := kn_out a @ outs\<rparr>" using u by (simp add: knode_step.simps)
  have n: "got_count ?a = ?n" by (simp add: a got_count_def)
  have rv: "rview kcp' = rview ?k" using f by blast
  note rc = rview_cong [OF rv]
  have mtu: "unat (kc_mtu ?k) = 1400"
  proof -
    have "frags_fit (kc_mtu ?k) (kc_mss ?k) ?F" using pre(1) by (simp add: send_ok_def send_core_def)
    then have "unat (kc_mss ?k) = unat (kc_mtu ?k) - 24" "24 < unat (kc_mtu ?k)"
      using mtu_ok_values(3) by (auto simp: frags_fit_def mtu_ok_def IKCP_OVERHEAD_def)
    moreover have "unat (kc_mss ?k) = 1376" using ok by (simp add: link_ok_def)
    ultimately show ?thesis by linarith
  qed
  have "link_ok conv ?a b"
    using ok f rc n mtu by (simp add: link_ok_def end_ok_def a ball_Un)
  then show ?thesis using n rc by (intro exI [of _ "[]"]) (simp add: a)
qed

lemma link_step_input:
  assumes ok: "link_ok conv a b" "link_ok conv b a" and few: "few_fragments a b" and d: "d \<in> set (kn_out b)"
  shows "\<exists>X. kn_sent (knode_step (K_Input d) a) = kn_sent a @ X \<and> link_ok conv (knode_step (K_Input d) a) b \<and>
    arrived (got_count a) (kn_kcp a) \<subseteq> arrived (got_count (knode_step (K_Input d) a)) (kn_kcp (knode_step (K_Input d) a))"
proof -
  let ?k = "kn_kcp a" and ?F = "kstream (kn_sent a)" and ?G = "kstream (kn_sent b)" and ?n = "got_count a"
    and ?A = "arrived (got_count b) (kn_kcp b)" and ?N = "rcv_count (got_count b) (kn_kcp b)" and ?a = "knode_step (K_Input d) a"
  obtain rc kcp' where i: "ikcp_input d ?k = (rc, kcp')" by (meson surj_pair)
  have len: "length ?F \<le> 2 ^ 30" "length ?G \<le> 2 ^ 30" using few by (simp_all add: few_fragments_def)
  have e: "end_ok ?F ?G ?n ?k" "kc_conv ?k = conv" using ok(1) by (simp_all add: link_ok_def)
  have dg: "is_datagram (link_seg (kc_conv ?k) ?G ?A ?N) d" using ok(2) d e(2) by (auto simp: link_ok_def)
  have N: "?N \<le> length ?F" using ok(2) by (simp add: link_ok_def end_ok_def recv_ok_def recv_core_def)
  have NA: "{..<?N} \<subseteq> ?A" by (auto simp: arrived_def)
  note f = input_ok [OF e(1) len dg N NA i]
  have a: "?a = a\<lparr>kn_kcp := kcp'\<rparr>" using i by (simp add: knode_step.simps)
  have n: "got_count ?a = ?n" by (simp add: a got_count_def)
  have ad: "arrived ?n ?k \<subseteq> arrived ?n kcp'" "rcv_count ?n ?k \<le> rcv_count ?n kcp'" "kc_conv kcp' = conv" "kc_mss kcp' = kc_mss ?k"
    using f e(2) by (simp_all add: advances_def)
  have outs: "\<forall>d \<in> set (kn_out a). length d \<le> 1400 \<and> is_datagram (link_seg conv (?F @ []) (arrived ?n kcp') (rcv_count ?n kcp')) d"
    by (rule outs_grow [of _ _ _ "arrived ?n ?k" "rcv_count ?n ?k"]) (use ok(1) ad in \<open>auto simp: link_ok_def\<close>)
  have "cleared ?F kcp' \<subseteq> ?A" using f ok(1) by (auto simp: link_ok_def)
  then have "link_ok conv ?a b" using ok(1) f ad outs n by (simp add: link_ok_def a)
  then show ?thesis using n ad by (intro exI [of _ "[]"]) (simp add: a)
qed

lemma link_step:
  assumes "link_ok conv a b" "link_ok conv b a" "few_fragments a b" "kevent_ok e b"
  shows "link_ok conv (knode_step e a) b \<and> link_ok conv b (knode_step e a)"
proof -
  have "\<exists>X. kn_sent (knode_step e a) = kn_sent a @ X \<and> link_ok conv (knode_step e a) b \<and>
    arrived (got_count a) (kn_kcp a) \<subseteq> arrived (got_count (knode_step e a)) (kn_kcp (knode_step e a))"
    using assms link_step_send link_step_recv link_step_update link_step_input by (cases e) simp_all
  then show ?thesis using link_ok_peer [OF assms(2)] by blast
qed

lemma step_grows: "length (kstream (kn_sent a)) \<le> length (kstream (kn_sent (knode_step e a)))"
  by (cases e) (auto simp: kstream_append knode_step.simps split: prod.split)

lemma klink_ok: "klink conv ab \<Longrightarrow> few_fragments (fst ab) (snd ab) \<Longrightarrow> link_ok conv (fst ab) (snd ab) \<and> link_ok conv (snd ab) (fst ab)"
proof (induction rule: klink.induct)
  case klink_start
  then show ?case using start_ok by simp
next
  case (klink_left a b e)
  then have few: "few_fragments a b" using step_grows [of a e] by (simp add: few_fragments_def)
  then have "link_ok conv a b" "link_ok conv b a" using klink_left.IH by simp_all
  then show ?case using link_step [OF _ _ few klink_left.hyps(2)] by simp
next
  case (klink_right a b e)
  then have few: "few_fragments b a" using step_grows [of b e] by (simp add: few_fragments_def)
  then have "link_ok conv a b" "link_ok conv b a" using klink_right.IH by (simp_all add: few_fragments_def)
  then show ?case using link_step [OF _ _ few klink_right.hyps(2)] by simp
qed

end
