(* ===== verification/Kcp_Reliable.thy ===== *)
theory Kcp_Reliable
  imports Kcp_Link
begin

text \<open>
  What the KCP session promises the transport: messages are delivered in order, without loss,
  damage or repetition, in bounded memory, and what is not acknowledged is sent again.
\<close>

text \<open>
  C3. Whatever the network does with the datagrams -- losing, repeating, delaying and reordering them --
  the messages the application gets at either end are the first of those the other end accepted:
  each once, whole, and in order.
\<close>
theorem kcp_delivers_in_order:
  assumes "klink conv (a, b)" "few_fragments a b"
  shows "prefix (kn_got b) (kn_sent a) \<and> prefix (kn_got a) (kn_sent b)"
  using klink_ok [OF assms(1)] assms(2) by (simp add: link_ok_def)

lemma numbers_bounded: "distinct ns \<Longrightarrow> set ns \<subseteq> {lo..<lo + w} \<Longrightarrow> length ns \<le> (w :: nat)"
  by (metis card_atLeastLessThan card_mono diff_add_inverse distinct_card finite_atLeastLessThan)

lemma sorted_distinct: "sorted_wrt (<) (ns :: nat list) \<Longrightarrow> distinct ns"
  by (simp add: strict_sorted_iff)

lemma send_buf_bounded: "send_ok F kcp \<Longrightarrow> length (kc_snd_buf kcp) \<le> numbered F kcp"
proof -
  assume "send_ok F kcp"
  then have "sorted_wrt (<) (map idx (kc_snd_buf kcp))" "set (map idx (kc_snd_buf kcp)) \<subseteq> {0..<0 + numbered F kcp}"
    by (auto simp: send_ok_def send_core_def)
  then show ?thesis using numbers_bounded [OF sorted_distinct] by fastforce
qed

lemma waitsnd_zero:
  assumes "send_ok F kcp" "length F \<le> 2 ^ 30" "ikcp_waitsnd kcp = 0"
  shows "kc_snd_buf kcp = [] \<and> kc_snd_queue kcp = []"
proof -
  let ?b = "length (kc_snd_buf kcp)" and ?q = "length (kc_snd_queue kcp)"
  have "?b \<le> length F - ?q" "?q \<le> length F"
    using send_buf_bounded [OF assms(1)] assms(1) by (simp_all add: send_ok_def send_core_def numbered_def)
  then have "?b + ?q \<le> 2 ^ 31" using assms(2) by simp
  moreover have "(of_nat (?b + ?q) :: u32) = 0"
    using assms(1,3) by (simp add: ikcp_waitsnd_def send_ok_def send_core_def)
  ultimately have "?b + ?q = 0" using unat_of_nat_seq [of "?b + ?q"] by (metis unat_0)
  then show ?thesis by simp
qed

text \<open>Everything that was sent has arrived, and nothing waits in the queue: then it is all delivered.\<close>

lemma all_arrived_delivered:
  assumes ok: "recv_ok F n kcp" and F: "length F \<le> 2 ^ 30" and all: "{..<length F} \<subseteq> arrived n kcp" and q: "kc_rcv_queue kcp = []"
  shows "n = length F"
proof (rule ccontr)
  assume "n \<noteq> length F"
  have core: "recv_core F n kcp (kc_rcv_buf kcp)" and st: "settled kcp" using ok by (simp_all add: recv_ok_def)
  have N: "rcv_count n kcp = n" using q by (simp add: rcv_count_def)
  then have "n < length F" using core \<open>n \<noteq> length F\<close> by (simp add: recv_core_def)
  then have "n \<in> arrived n kcp" using all by auto
  then obtain s where s: "s \<in> set (kc_rcv_buf kcp)" "idx s = n" using N by (auto simp: arrived_def)
  then obtain t ts where buf: "kc_rcv_buf kcp = t # ts" by (cases "kc_rcv_buf kcp") auto
  have "n \<le> idx t" "\<forall>u \<in> set ts. idx t < idx u" using core buf N by (simp_all add: recv_core_def)
  then have "idx t = n" using s buf by fastforce
  then have "unat (sg_sn t) = unat (kc_rcv_nxt kcp)" using core N F \<open>n < length F\<close> by (simp add: idx_def recv_core_def unat_of_nat_seq)
  then have "sg_sn t = kc_rcv_nxt kcp" by (simp only: word_unat_eq_iff)
  moreover have "kc_nrcv_que kcp = 0" "0 < kc_rcv_wnd kcp" using core q by (simp_all add: recv_core_def word_less_nat_alt)
  ultimately show False using st buf by (simp add: settled_def)
qed

lemma stream_complete: "prefix got sent \<Longrightarrow> length (kstream got) = length (kstream sent) \<Longrightarrow> got = sent"
proof (elim prefixE)
  fix ys
  assume "length (kstream got) = length (kstream sent)" "sent = got @ ys"
  then have "kstream ys = []" by (simp add: kstream_append)
  moreover have "kstream (y # zs) \<noteq> []" for y zs
  proof -
    have "length (split_message 1376 y) \<noteq> 0" using frag_count_pos [of 1376 y] by simp
    then show ?thesis unfolding kstream_def by (metis append_is_Nil_conv concat.simps(2) list.map(2) list.size(3))
  qed
  ultimately show "got = sent" using \<open>sent = got @ ys\<close> by (cases ys) auto
qed

lemma kcp_nothing_lost_core:
  assumes "klink conv (a, b)" "few_fragments a b" "ikcp_waitsnd (kn_kcp a) = 0" "kc_rcv_queue (kn_kcp b) = []"
  shows "kn_got b = kn_sent a"
proof -
  let ?F = "kstream (kn_sent a)"
  have ok: "link_ok conv a b" "link_ok conv b a" using klink_ok [OF assms(1)] assms(2) by simp_all
  have F: "length ?F \<le> 2 ^ 30" using assms(2) by (simp add: few_fragments_def)
  have s: "send_ok ?F (kn_kcp a)" using ok(1) by (simp add: link_ok_def end_ok_def)
  have empty: "kc_snd_buf (kn_kcp a) = [] \<and> kc_snd_queue (kn_kcp a) = []" by (rule waitsnd_zero [OF s F assms(3)])
  then have all: "{..<length ?F} \<subseteq> arrived (got_count b) (kn_kcp b)" using ok(1) by (simp add: link_ok_def cleared_def numbered_def)
  have r: "recv_ok ?F (got_count b) (kn_kcp b)" using ok(2) by (simp add: link_ok_def end_ok_def)
  have "got_count b = length ?F" by (rule all_arrived_delivered [OF r F all assms(4)])
  then show ?thesis using ok(2) stream_complete by (simp add: link_ok_def got_count_def)
qed

text \<open>
  C37. When an end has nothing left to send or to have acknowledged, no message is lost: once the other
  end has emptied its receive queue, it has got exactly the messages the first one accepted.
\<close>
theorem kcp_nothing_lost:
  assumes "klink conv (a, b)" "few_fragments a b" "ikcp_waitsnd (kn_kcp a) = 0" "kc_rcv_queue (kn_kcp b) = []"
  shows "kn_got b = kn_sent a"
  by (rule kcp_nothing_lost_core [OF assms])

text \<open>
  C39. The datagrams never exceed the MTU, the two receive lists never hold more segments than the
  window, and the counters the code keeps are the lengths of its lists.
\<close>
theorem kcp_bounded:
  assumes "klink conv (a, b)" "few_fragments a b"
  shows "(\<forall>d \<in> set (kn_out a). length d \<le> 1400) \<and>
    length (kc_rcv_queue (kn_kcp a)) \<le> unat (kc_rcv_wnd (kn_kcp a)) \<and> length (kc_rcv_buf (kn_kcp a)) \<le> unat (kc_rcv_wnd (kn_kcp a)) \<and>
    kc_nrcv_que (kn_kcp a) = of_nat (length (kc_rcv_queue (kn_kcp a))) \<and> kc_nrcv_buf (kn_kcp a) = of_nat (length (kc_rcv_buf (kn_kcp a))) \<and>
    kc_nsnd_que (kn_kcp a) = of_nat (length (kc_snd_queue (kn_kcp a))) \<and> kc_nsnd_buf (kn_kcp a) = of_nat (length (kc_snd_buf (kn_kcp a)))"
proof -
  let ?k = "kn_kcp a"
  have ok: "link_ok conv a b" using klink_ok [OF assms(1)] assms(2) by simp
  then have s: "send_ok (kstream (kn_sent a)) ?k" and r: "recv_core (kstream (kn_sent b)) (got_count a) ?k (kc_rcv_buf ?k)"
    by (simp_all add: link_ok_def end_ok_def recv_ok_def)
  have "sorted_wrt (<) (map idx (kc_rcv_buf ?k))"
    "set (map idx (kc_rcv_buf ?k)) \<subseteq> {rcv_count (got_count a) ?k..<rcv_count (got_count a) ?k + unat (kc_rcv_wnd ?k)}"
    using r by (auto simp: recv_core_def)
  then have "length (kc_rcv_buf ?k) \<le> unat (kc_rcv_wnd ?k)"
    using numbers_bounded [OF sorted_distinct] by (metis length_map)
  then show ?thesis using ok s r by (auto simp: link_ok_def send_ok_def send_core_def recv_core_def)
qed

section \<open>Sending again\<close>

text \<open>A segment is in the output: in a datagram, or in the bytes gathered for the next one.\<close>

definition carries :: "kseg \<Rightarrow> byte list \<Rightarrow> bool" where
  "carries seg d \<longleftrightarrow> (\<exists>xs ys. d = concat (map wire_seg (xs @ seg # ys)))"

definition held :: "kseg \<Rightarrow> kout \<Rightarrow> bool" where
  "held seg = (\<lambda>(outs, buf, fault). (\<exists>d \<in> set outs. carries seg d) \<or> carries seg buf)"

definition of_segs :: "kout \<Rightarrow> bool" where
  "of_segs = (\<lambda>(outs, buf, fault). \<exists>xs. buf = concat (map wire_seg xs))"

lemma carries_nonempty: "carries seg d \<Longrightarrow> d \<noteq> []"
  using wire_seg_nonempty by (auto simp: carries_def)

lemma carries_append: "carries seg d \<Longrightarrow> carries seg (d @ wire_seg t)"
proof -
  assume "carries seg d"
  then obtain xs ys where "d = concat (map wire_seg (xs @ seg # ys))" by (auto simp: carries_def)
  then have "d @ wire_seg t = concat (map wire_seg (xs @ seg # (ys @ [t])))" by simp
  then show ?thesis unfolding carries_def by blast
qed

lemma emit_held: "held seg out \<Longrightarrow> held seg (emit mtu (wire_seg t) out)"
  using carries_nonempty carries_append
  by (cases out) (auto simp: held_def emit_def ikcp_output_def Let_def)

lemma emit_of_segs: "of_segs out \<Longrightarrow> of_segs (emit mtu (wire_seg t) out)"
proof -
  obtain outs buf fault where out: "out = (outs, buf, fault)" by (cases out)
  assume "of_segs out"
  then obtain xs where "buf = concat (map wire_seg xs)" by (auto simp: of_segs_def out)
  then have "buf @ wire_seg t = concat (map wire_seg (xs @ [t]))" "wire_seg t = concat (map wire_seg [t])" by simp_all
  then have e: "\<exists>ys. buf @ wire_seg t = concat (map wire_seg ys)" "\<exists>ys. wire_seg t = concat (map wire_seg ys)" by blast+
  show ?thesis
  proof (cases "int (length buf) + int (length (wire_seg t)) > sint mtu")
    case True
    then have "emit mtu (wire_seg t) out = (ikcp_output buf outs, wire_seg t,
        fault \<or> length (wire_seg t) > unat ((mtu + of_nat IKCP_OVERHEAD) * 3))"
      by (simp only: out emit_def prod.case Let_def if_True append_Nil)
    then show ?thesis using e(2) by (simp add: of_segs_def)
  next
    case False
    then have "emit mtu (wire_seg t) out = (outs, buf @ wire_seg t,
        fault \<or> length (buf @ wire_seg t) > unat ((mtu + of_nat IKCP_OVERHEAD) * 3))"
      by (simp only: out emit_def prod.case Let_def if_False)
    then show ?thesis using e(1) by (simp add: of_segs_def)
  qed
qed

lemma emit_holds: "of_segs out \<Longrightarrow> held t (emit mtu (wire_seg t) out)"
proof -
  obtain outs buf fault where out: "out = (outs, buf, fault)" by (cases out)
  assume "of_segs out"
  then obtain xs where "buf = concat (map wire_seg xs)" by (auto simp: of_segs_def out)
  then have "buf @ wire_seg t = concat (map wire_seg (xs @ t # []))" "wire_seg t = concat (map wire_seg ([] @ t # []))" by simp_all
  then have "carries t (buf @ wire_seg t)" "carries t (wire_seg t)" unfolding carries_def by metis+
  then show ?thesis unfolding out by (simp add: held_def emit_def Let_def)
qed

lemma flush_acks_of_segs:
  "of_segs out \<Longrightarrow> sg_data seg = [] \<Longrightarrow> of_segs (snd (flush_acks mtu acks seg out)) \<and> sg_data (fst (flush_acks mtu acks seg out)) = []"
proof (induction acks arbitrary: seg out)
  case Nil
  then show ?case by simp
next
  case (Cons a acks)
  let ?s = "seg\<lparr>sg_sn := fst a, sg_ts := snd a\<rparr>"
  have "emit mtu (ikcp_encode_seg ?s) out = emit mtu (wire_seg ?s) out" using Cons.prems(2) by (simp add: wire_seg_def)
  then have "of_segs (emit mtu (ikcp_encode_seg ?s) out)" using emit_of_segs [OF Cons.prems(1)] by simp
  then show ?case using Cons.IH [of "emit mtu (ikcp_encode_seg ?s) out" ?s] Cons.prems(2) by (cases a) (simp add: Let_def)
qed

lemma flush_probe_of_segs: "of_segs out \<Longrightarrow> sg_data seg = [] \<Longrightarrow> of_segs (flush_probe kcp seg out)"
proof -
  assume o: "of_segs out" and d: "sg_data seg = []"
  have "of_segs (emit m (ikcp_encode_seg (seg\<lparr>sg_cmd := c\<rparr>)) o1)" if "of_segs o1" for m c o1
    using emit_of_segs [OF that, of m "seg\<lparr>sg_cmd := c\<rparr>"] d by (simp add: wire_seg_def)
  then show ?thesis using o by (simp add: flush_probe_def Let_def)
qed

lemma move_to_buf_keeps: "set (kc_snd_buf kcp) \<subseteq> set (kc_snd_buf (move_to_buf cwnd wnd segs kcp)) \<and>
    kc_current (move_to_buf cwnd wnd segs kcp) = kc_current kcp \<and> kc_rcv_nxt (move_to_buf cwnd wnd segs kcp) = kc_rcv_nxt kcp"
proof (induction segs arbitrary: kcp)
  case Nil
  then show ?case by simp
next
  case (Cons seg segs)
  show ?case
  proof (cases "itimediff (kc_snd_nxt kcp) (kc_snd_una kcp + cwnd) < 0")
    case True
    let ?new = "seg\<lparr>sg_conv := kc_conv kcp, sg_cmd := IKCP_CMD_PUSH, sg_wnd := wnd, sg_ts := kc_current kcp,
      sg_sn := kc_snd_nxt kcp, sg_una := kc_rcv_nxt kcp, sg_resendts := kc_current kcp,
      sg_rto := of_int (kc_rx_rto kcp), sg_fastack := 0, sg_xmit := 0\<rparr>"
    let ?k = "kcp\<lparr>kc_snd_buf := kc_snd_buf kcp @ [?new], kc_nsnd_que := kc_nsnd_que kcp - 1,
      kc_nsnd_buf := kc_nsnd_buf kcp + 1, kc_snd_nxt := kc_snd_nxt kcp + 1\<rparr>"
    have "move_to_buf cwnd wnd (seg # segs) kcp = move_to_buf cwnd wnd segs ?k" using True by (simp add: Let_def)
    then show ?thesis using Cons.IH [of ?k] by simp
  next
    case False
    then show ?thesis by simp
  qed
qed

lemma flush_segments_held:
  "held t (fl_out fl) \<Longrightarrow> held t (fl_out (snd (flush_segments kcp wnd resent rtomin segs fl)))"
proof (induction segs arbitrary: fl)
  case Nil
  then show ?case by simp
next
  case (Cons seg segs)
  obtain what s where r: "resend_seg kcp resent rtomin seg = (what, s)" by (meson surj_pair)
  show ?case
  proof (cases "what = Rest")
    case True
    then show ?thesis using r Cons.IH [OF Cons.prems] by (simp add: case_prod_unfold)
  next
    case False
    let ?s = "s\<lparr>sg_ts := kc_current kcp, sg_wnd := wnd, sg_una := kc_rcv_nxt kcp\<rparr>"
    have "held t (emit (kc_mtu kcp) (ikcp_encode_seg ?s @ sg_data ?s) (fl_out fl))"
      using emit_held [OF Cons.prems, of "kc_mtu kcp" ?s] by (simp add: wire_seg_def)
    then show ?thesis using r False Cons.IH by (simp add: case_prod_unfold Let_def)
  qed
qed

definition due :: "u32 \<Rightarrow> kseg \<Rightarrow> bool" where
  "due current seg \<longleftrightarrow> sg_xmit seg = 0 \<or> itimediff current (sg_resendts seg) \<ge> 0"

lemma flush_segments_sends:
  assumes "of_segs (fl_out fl)" "seg \<in> set segs" "due (kc_current kcp) seg"
  shows "\<exists>t. key t = key seg \<and> sg_una t = kc_rcv_nxt kcp \<and> held t (fl_out (snd (flush_segments kcp wnd resent rtomin segs fl)))"
  using assms(1,2)
proof (induction segs arbitrary: fl)
  case Nil
  then show ?case by simp
next
  case (Cons g segs)
  obtain what s where r: "resend_seg kcp resent rtomin g = (what, s)" by (meson surj_pair)
  let ?s = "s\<lparr>sg_ts := kc_current kcp, sg_wnd := wnd, sg_una := kc_rcv_nxt kcp\<rparr>"
  let ?fl = "if what = Rest then fl else fl\<lparr>fl_out := emit (kc_mtu kcp) (ikcp_encode_seg ?s @ sg_data ?s) (fl_out fl),
                     fl_xmit := (if what = Timeout then fl_xmit fl + 1 else fl_xmit fl),
                     fl_change := (if what = Fast then fl_change fl + 1 else fl_change fl),
                     fl_lost := (fl_lost fl \<or> what = Timeout),
                     fl_state := (if sg_xmit ?s \<ge> kc_dead_link kcp then - 1 else fl_state fl)\<rparr>"
  have step: "fl_out (snd (flush_segments kcp wnd resent rtomin (g # segs) fl)) =
      fl_out (snd (flush_segments kcp wnd resent rtomin segs ?fl))"
    by (simp only: flush_segments.simps r prod.case Let_def case_prod_unfold snd_conv if_distrib cong: if_cong) (simp split: if_split)
  have e: "emit (kc_mtu kcp) (ikcp_encode_seg ?s @ sg_data ?s) (fl_out fl) = emit (kc_mtu kcp) (wire_seg ?s) (fl_out fl)"
    by (simp add: wire_seg_def)
  have segs: "of_segs (fl_out ?fl)" using Cons.prems(1) emit_of_segs e by simp
  show ?case
  proof (cases "seg = g")
    case True
    then have w: "what \<noteq> Rest" using r assms(3) by (auto simp: due_def resend_seg_def Let_def split: if_splits)
    have "held ?s (fl_out ?fl)" using w emit_holds [OF Cons.prems(1)] e by simp
    then have "held ?s (fl_out (snd (flush_segments kcp wnd resent rtomin (g # segs) fl)))"
      unfolding step by (rule flush_segments_held)
    moreover have "key ?s = key seg" using True resend_seg_key [OF r] by (simp add: key_updates)
    ultimately show ?thesis by (intro exI [of _ ?s]) simp
  next
    case False
    then show ?thesis using Cons.IH [OF segs] Cons.prems(2) unfolding step by simp
  qed
qed

lemma kcp_retransmits_core:
  assumes "kc_updated kcp" "seg \<in> set (kc_snd_buf kcp)" "due (kc_current kcp) seg"
  shows "\<exists>t. \<exists>d \<in> set (fst (ikcp_flush kcp)). key t = key seg \<and> sg_una t = kc_rcv_nxt kcp \<and> carries t d"
proof -
  obtain cseg out where a: "flush_acks (kc_mtu kcp) (kc_acklist kcp) (control_seg kcp) ([], [], False) = (cseg, out)" by (meson surj_pair)
  have "of_segs ([], [], False)" by (auto simp: of_segs_def intro: exI [of _ "[]"])
  then have "of_segs out" "sg_data cseg = []"
    using flush_acks_of_segs [of "([], [], False)" "control_seg kcp" "kc_mtu kcp" "kc_acklist kcp"] a
    by (simp_all add: control_seg_def ikcp_segment_new_def)
  let ?k1 = "probe_window (kcp\<lparr>kc_acklist := []\<rparr>)"
  let ?k2 = "?k1\<lparr>kc_probe := 0\<rparr>"
  let ?out = "flush_probe ?k1 cseg out"
  have o: "of_segs ?out" by (rule flush_probe_of_segs) fact+
  let ?wnd = "ikcp_wnd_unused kcp"
  let ?k3 = "move_to_buf (send_window ?k2) ?wnd (kc_snd_queue ?k2) ?k2"
  let ?resent = "if kc_fastresend ?k3 > 0 then of_int (kc_fastresend ?k3) else 0xffffffff"
  let ?rtomin = "if kc_nodelay ?k3 = 0 then of_int (kc_rx_rto ?k3 div 8) else 0"
  let ?fl = "\<lparr>fl_out = ?out, fl_xmit = kc_xmit ?k3, fl_state = kc_state ?k3, fl_change = 0, fl_lost = False\<rparr>"
  obtain segs fl2 where s: "flush_segments ?k3 ?wnd ?resent ?rtomin (kc_snd_buf ?k3) ?fl = (segs, fl2)" by (meson surj_pair)
  obtain outs buf fault where f: "fl_out fl2 = (outs, buf, fault)" by (cases "fl_out fl2")
  have res: "fst (ikcp_flush kcp) = ikcp_output buf outs"
    using assms(1) a s f by (simp add: ikcp_flush_def Let_def)
  have p: "kc_snd_buf ?k1 = kc_snd_buf kcp" "kc_current ?k1 = kc_current kcp" "kc_rcv_nxt ?k1 = kc_rcv_nxt kcp"
    by (simp_all add: probe_window_def Let_def)
  have m: "set (kc_snd_buf kcp) \<subseteq> set (kc_snd_buf ?k3)" "kc_current ?k3 = kc_current kcp" "kc_rcv_nxt ?k3 = kc_rcv_nxt kcp"
    using move_to_buf_keeps [of ?k2 "send_window ?k2" ?wnd "kc_snd_queue ?k2"] p by simp_all
  have "seg \<in> set (kc_snd_buf ?k3)" "due (kc_current ?k3) seg" using m assms(2,3) by auto
  then obtain t where "key t = key seg" "sg_una t = kc_rcv_nxt kcp" "held t (fl_out fl2)"
    using flush_segments_sends [of ?fl seg "kc_snd_buf ?k3" ?k3 ?wnd ?resent ?rtomin] o s m(3) by auto
  then show ?thesis using carries_nonempty [of t buf] unfolding res f
    by (intro exI [of _ t]) (auto simp: held_def ikcp_output_def f)
qed

text \<open>
  A fragment that is kept because it is not acknowledged is in one of the datagrams of the next
  flush after its timer has run out, as is a fragment that has not been sent before.
\<close>
theorem kcp_retransmits:
  assumes "kc_updated kcp" "seg \<in> set (kc_snd_buf kcp)" "due (kc_current kcp) seg"
  shows "\<exists>t. \<exists>d \<in> set (fst (ikcp_flush kcp)). key t = key seg \<and> sg_una t = kc_rcv_nxt kcp \<and> carries t d"
  by (rule kcp_retransmits_core [OF assms])

text \<open>Segments that look the same on the wire have the same number and kind.\<close>

lemma same_on_wire:
  assumes "link_seg conv F A N s" "link_seg conv F A N t" "wire_seg s = wire_seg t"
  shows "sg_sn s = sg_sn t \<and> sg_cmd s = sg_cmd t"
proof -
  have "decode_seg (wire_seg s) = decode_seg (wire_seg t)" using assms(3) by simp
  then have "(wire_read s)\<lparr>sg_data := []\<rparr> = (wire_read t)\<lparr>sg_data := []\<rparr>"
    using decode_encode [of conv s "sg_data s"] decode_encode [of conv t "sg_data t"] assms(1,2)
    by (simp add: link_seg_def wire_seg_def)
  then show ?thesis by (simp add: wire_read_def)
qed

text \<open>Once the fragment a receiver waits for has arrived and there is room, its queue has grown.\<close>

lemma arrival_moves_on:
  assumes F: "length F \<le> 2 ^ 30" and ok: "recv_ok F n l" "recv_ok F n l'" and adv: "advances n l l'"
    and arr: "rcv_count n l \<in> arrived n l'" and room: "kc_nrcv_que l < kc_rcv_wnd l"
  shows "length (kc_rcv_queue l) < length (kc_rcv_queue l')"
proof -
  have "rcv_count n l \<noteq> rcv_count n l'"
  proof
    assume same: "rcv_count n l = rcv_count n l'"
    have core: "recv_core F n l' (kc_rcv_buf l')" and settled: "settled l'" using ok(2) by (simp_all add: recv_ok_def)
    obtain x where x: "x \<in> set (kc_rcv_buf l')" "idx x = rcv_count n l'" using arr same by (auto simp: arrived_def)
    then obtain y zs where buf: "kc_rcv_buf l' = y # zs" by (cases "kc_rcv_buf l'") auto
    have "rcv_count n l' \<le> idx y" "\<forall>u \<in> set zs. idx y < idx u" using core buf by (simp_all add: recv_core_def)
    then have "idx y = rcv_count n l'" using x buf by fastforce
    then have "unat (sg_sn y) = unat (kc_rcv_nxt l')" using rcv_nxt_small [OF ok(2) F] by (simp add: idx_def)
    then have "sg_sn y = kc_rcv_nxt l'" by (simp only: word_unat_eq_iff)
    moreover have "kc_nrcv_que l' = kc_nrcv_que l" "kc_rcv_wnd l' = kc_rcv_wnd l"
      using same core ok(1) adv by (simp_all add: recv_ok_def recv_core_def rcv_count_def advances_def)
    ultimately show False using settled buf room by (simp add: settled_def)
  qed
  then show ?thesis using adv by (simp add: advances_def rcv_count_def)
qed

text \<open>
  C38. Progress: when the end \<open>b\<close> waits for a fragment the end \<open>a\<close> keeps, has room in its queue, and the timer
  of the fragment has run out, then some datagram of the next flush of \<open>a\<close>, should it get through,
  makes the queue of \<open>b\<close> longer.
\<close>
theorem kcp_progress:
  assumes "klink conv (a, b)" "few_fragments a b" "seg \<in> set (kc_snd_buf (kn_kcp a))" "sg_sn seg = kc_rcv_nxt (kn_kcp b)"
    "kc_nrcv_que (kn_kcp b) < kc_rcv_wnd (kn_kcp b)" "kc_updated (kn_kcp a)" "due (kc_current (kn_kcp a)) seg"
  shows "\<exists>d \<in> set (fst (ikcp_flush (kn_kcp a))).
    length (kc_rcv_queue (kn_kcp b)) < length (kc_rcv_queue (snd (ikcp_input d (kn_kcp b))))"
proof -
  let ?k = "kn_kcp a" and ?l = "kn_kcp b" and ?F = "kstream (kn_sent a)" and ?G = "kstream (kn_sent b)" and ?n = "got_count b"
  let ?A = "arrived (got_count a) ?k" and ?N = "rcv_count (got_count a) ?k"
  have ok: "link_ok conv a b" "link_ok conv b a" using klink_ok [OF assms(1)] assms(2) by simp_all
  have F: "length ?F \<le> 2 ^ 30" "length ?G \<le> 2 ^ 30" using assms(2) by (simp_all add: few_fragments_def)
  have ea: "end_ok ?F ?G (got_count a) ?k" "kc_conv ?k = conv" and eb: "end_ok ?G ?F ?n ?l" "kc_conv ?l = conv"
    using ok by (simp_all add: link_ok_def)
  then have sa: "send_ok ?F ?k" "acks_ok (got_count a) ?k" and ra: "recv_ok ?G (got_count a) ?k" and rb: "recv_ok ?F ?n ?l"
    by (simp_all add: end_ok_def)
  have una: "unat (kc_rcv_nxt ?k) = ?N" by (rule rcv_nxt_small [OF ra F(2)])
  obtain t d where t: "d \<in> set (fst (ikcp_flush ?k))" "key t = key seg" "sg_una t = kc_rcv_nxt ?k" "carries t d"
    using kcp_retransmits_core [OF assms(6,3,7)] by blast
  obtain k' where "ikcp_flush ?k = (fst (ikcp_flush ?k), k')" by (metis prod.collapse)
  from flush_ok [OF sa eq_imp_le [OF una] F(1) this]
  have "is_datagram (link_seg conv ?F ?A ?N) d" "length d \<le> unat (kc_mtu ?k)" using t(1) ea(2) by auto
  then obtain segs where segs: "segs \<noteq> []" "d = concat (map wire_seg segs)" "\<forall>s \<in> set segs. link_seg (kc_conv ?l) ?F ?A ?N s"
    using eb(2) by (auto simp: is_datagram_def)
  have "unat (kc_mtu ?k) < 2 ^ 20" using sa(1) by (simp add: send_ok_def send_core_def frags_fit_def mtu_ok_def)
  then have "length d < 2 ^ 31" using \<open>length d \<le> unat (kc_mtu ?k)\<close> by simp
  moreover obtain xs ys where "d = concat (map wire_seg (xs @ t # ys))" using t(4) by (auto simp: carries_def)
  ultimately have "map wire_seg segs = map wire_seg (xs @ t # ys)" using wire_unique segs(2) by metis
  then have "wire_seg t \<in> set (map wire_seg segs)" by simp
  then obtain s where s: "s \<in> set segs" "wire_seg s = wire_seg t" by force
  have lt: "link_seg conv ?F ?A ?N t" using buffer_seg_link [OF sa(1) assms(3) t(2)] t(3) una ea(2) by simp
  have st: "sg_sn s = sg_sn t" "sg_cmd s = sg_cmd t"
    using same_on_wire [OF _ lt s(2)] segs(3) s(1) eb(2) by auto
  have seg: "sg_cmd seg = IKCP_CMD_PUSH" using sa(1) assms(3) by (simp add: send_ok_def send_core_def)
  have nb: "unat (kc_rcv_nxt ?l) = rcv_count ?n ?l" by (rule rcv_nxt_small [OF rb F(1)])
  have s_next: "idx s = rcv_count ?n ?l" "sg_cmd s = IKCP_CMD_PUSH"
    using st key_fields [OF t(2)] assms(4) seg nb by (simp_all add: idx_def)
  have Nb: "?N \<le> length ?G" using ra by (simp add: recv_ok_def recv_core_def)
  obtain rc l' where inp: "ikcp_input d ?l = (rc, l')" by (meson surj_pair)
  have NA: "{..<?N} \<subseteq> ?A" by (auto simp: arrived_def)
  have w: "0 < unat (kc_rcv_wnd ?l)" using rb by (simp add: recv_ok_def recv_core_def)
  note res = input_segs_ok [OF eb(1) F(2,1) segs Nb NA inp]
  then have arr: "idx s \<in> arrived ?n l'" and rl: "recv_ok ?F ?n l'" and adv: "advances ?n ?l l'"
    using s(1) s_next w by (auto simp: end_ok_def)
  have "rcv_count ?n ?l \<in> arrived ?n l'" using arr s_next(1) by simp
  then have "length (kc_rcv_queue ?l) < length (kc_rcv_queue l')"
    by (rule arrival_moves_on [OF F(1) rb rl adv _ assms(5)])
  then show ?thesis using t(1) inp by (intro bexI [of _ d]) simp_all
qed

section \<open>A run\<close>

definition run_a :: knode where
  "run_a = knode_step (K_Update 0) (knode_step (K_Send [1, 2, 3]) (knode_start 7))"

definition run_b :: knode where
  "run_b = knode_step (K_Update 0) (knode_step (K_Recv 100) (knode_step (K_Input (hd (kn_out run_a))) (knode_start 7)))"

definition run_a' :: knode where
  "run_a' = knode_step (K_Input (hd (kn_out run_b))) run_a"

text \<open>The facts used below, in one function so that each state is evaluated once.\<close>

definition run_facts :: "knode \<Rightarrow> knode \<Rightarrow> knode \<Rightarrow> bool" where
  "run_facts a b a' \<longleftrightarrow> kn_out a \<noteq> [] \<and> kn_out b \<noteq> [] \<and> kn_got b = [[1, 2, 3]] \<and> kn_sent a' = [[1, 2, 3]] \<and> kn_sent b = [] \<and>
     ikcp_waitsnd (kn_kcp a') = 0 \<and> kc_rcv_queue (kn_kcp b) = [] \<and>
     kc_updated (kn_kcp a) \<and> kc_snd_buf (kn_kcp a) \<noteq> [] \<and> due 1000 (hd (kc_snd_buf (kn_kcp a)))"

lemma run_facts: "run_facts run_a run_b run_a'"
  by code_simp

lemmas run_values = run_facts [unfolded run_facts_def, THEN conjunct1] run_facts [unfolded run_facts_def, THEN conjunct2]

lemma run_linked: "klink 7 (run_a', run_b)"
proof -
  have "klink 7 (run_a, knode_start 7)"
    unfolding run_a_def by (intro klink_left klink_start) simp_all
  then have "klink 7 (run_a, run_b)"
    unfolding run_b_def by (intro klink_right) (simp_all add: run_values)
  then show ?thesis unfolding run_a'_def by (intro klink_left) (simp_all add: run_values)
qed

lemma run_few: "few_fragments run_a' run_b"
  by (simp add: few_fragments_def run_values kstream_def frag_count_def)

lemma kcp_delivers_in_order_witness: "prefix (kn_got run_b) (kn_sent run_a') \<and> kn_got run_b = [[1, 2, 3]]"
  using kcp_delivers_in_order [OF run_linked run_few] run_values by blast

lemma kcp_nothing_lost_witness: "kn_got run_b = kn_sent run_a' \<and> kn_sent run_a' = [[1, 2, 3]]"
  using kcp_nothing_lost [OF run_linked run_few] run_values by blast

lemma kcp_bounded_witness: "length (kc_rcv_buf (kn_kcp run_a')) \<le> unat (kc_rcv_wnd (kn_kcp run_a'))"
  using kcp_bounded [OF run_linked run_few] by blast

lemma kcp_retransmits_witness:
  "\<exists>t. \<exists>d \<in> set (fst (ikcp_flush ((kn_kcp run_a)\<lparr>kc_current := 1000\<rparr>))). carries t d"
  using kcp_retransmits [of "(kn_kcp run_a)\<lparr>kc_current := 1000\<rparr>" "hd (kc_snd_buf (kn_kcp run_a))"] run_values
  by (simp add: hd_in_set) blast

text \<open>Two updates later the timer of the first segment has run out before the next flush.\<close>

definition run_late :: knode where
  "run_late = knode_step (K_Update 202) (knode_step (K_Update 195) run_a)"

definition late_facts :: "knode \<Rightarrow> bool" where
  "late_facts a \<longleftrightarrow> kc_updated (kn_kcp a) \<and> kc_snd_buf (kn_kcp a) \<noteq> [] \<and> sg_sn (hd (kc_snd_buf (kn_kcp a))) = 0 \<and>
     due (kc_current (kn_kcp a)) (hd (kc_snd_buf (kn_kcp a))) \<and> kn_sent a = [[1, 2, 3]]"

lemma late_facts: "late_facts run_late"
  by code_simp

lemma kcp_progress_witness:
  "\<exists>d \<in> set (fst (ikcp_flush (kn_kcp run_late))).
     length (kc_rcv_queue (kn_kcp (knode_start 7))) < length (kc_rcv_queue (snd (ikcp_input d (kn_kcp (knode_start 7)))))"
proof (rule kcp_progress [of 7 run_late "knode_start 7" "hd (kc_snd_buf (kn_kcp run_late))"])
  show "klink 7 (run_late, knode_start 7)"
    unfolding run_late_def run_a_def by (intro klink_left klink_start) simp_all
  show "few_fragments run_late (knode_start 7)"
    using late_facts by (simp add: late_facts_def few_fragments_def knode_start_def kstream_def frag_count_def)
qed (use late_facts in \<open>simp_all add: late_facts_def knode_start_def start_fields\<close>)

end
