(* ===== verification/Kcp_Transport.thy ===== *)
theory Kcp_Transport
  imports Udp_Transport Kcp_Reliable
begin

text \<open>
  \<^verbatim>\<open>src/transport/udp/udp_kcp_transport.c\<close>: a transport that sends frames as messages of a KCP session
  over UDP. The frames that arrive are joined in \<open>ki_rx_buf\<close>, the valid part of \<^verbatim>\<open>rx_buf\<close>. The time of
  an operation is an argument; the datagrams it sends are part of its result. \<open>None\<close> stands for a
  transport without its private state, before a successful open or after a close.
\<close>

definition BC_KCP_RX_BUF_LEN :: nat where "BC_KCP_RX_BUF_LEN = 3200"
definition BC_KCP_UDP_BUF_LEN :: nat where "BC_KCP_UDP_BUF_LEN = 2048"

record kcp_impl =
  ki_remote :: sockaddr
  ki_kcp :: ikcpcb
  ki_timer_fd :: int
  ki_rx_buf :: "byte list"
  ki_conv :: u32

record kcp_transport =
  kt_fd :: int
  kt_impl :: "kcp_impl option"

record kcp_os =
  ko_calloc :: bool
  ko_socket :: int
  ko_bind :: "u16 \<Rightarrow> bool"
  ko_pton :: "byte list \<Rightarrow> u32 option"
  ko_timerfd :: int
  ko_settime :: bool
  ko_malloc :: "bool \<times> bool"

text \<open>The monotonic clock in milliseconds, from its seconds and nanoseconds.\<close>

definition kcp_now_ms :: "int \<times> int \<Rightarrow> u32" where
  "kcp_now_ms ts = of_int (fst ts * 1000) + of_int (snd ts div 1000000)"

text \<open>The output callback; KCP ignores its result. Each datagram it is given is in the output.\<close>

definition kcp_udp_output :: "int \<Rightarrow> io_result \<Rightarrow> byte list \<Rightarrow> int" where
  "kcp_udp_output fd res data =
     (if fd < 0 then - 1 else case res of Done n \<Rightarrow> if n = length data then 0 else - 1 | _ \<Rightarrow> - 1)"

definition kcp_conv_from_config :: "bc_transport_config \<Rightarrow> u32" where
  "kcp_conv_from_config cfg =
     (if tc_kcp_conv cfg > 0 then of_int (tc_kcp_conv cfg)
      else if tc_local_port cfg > 0 then of_int (tc_local_port cfg) else 1)"

definition kcp_timer_start :: "bool \<Rightarrow> bc_status" where
  "kcp_timer_start settime = (if settime then BC_OK else BC_ERR_IO)"

section \<open>Input\<close>

text \<open>The datagrams that are there; the end of the list is \<^verbatim>\<open>EAGAIN\<close>.\<close>

fun kcp_pump_udp :: "sock_read list \<Rightarrow> ikcpcb \<Rightarrow> bc_status \<times> ikcpcb" where
  "kcp_pump_udp [] kcp = (BC_OK, kcp)"
| "kcp_pump_udp (r # rs) kcp = (case r of
     Got d \<Rightarrow>
       let d = take BC_KCP_UDP_BUF_LEN d in
       if d = [] then (BC_ERR_IO, kcp)
       else (case ikcp_input d kcp of (rc, kcp) \<Rightarrow> if rc < 0 then (BC_ERR_IO, kcp) else kcp_pump_udp rs kcp)
   | Would_Block \<Rightarrow> (BC_OK, kcp)
   | _ \<Rightarrow> (BC_ERR_IO, kcp))"

lemma take_message_less: "segs \<noteq> [] \<Longrightarrow> length (snd (take_message segs)) < length segs"
proof (induction segs)
  case (Cons seg segs)
  then show ?case by (cases segs) (auto simp: case_prod_unfold)
qed simp

lemma move_available_total:
  "length (kc_rcv_queue (move_available segs kcp)) + length (kc_rcv_buf (move_available segs kcp)) =
     length (kc_rcv_queue kcp) + length segs"
  by (induction segs arbitrary: kcp) simp_all

lemma recv_total:
  assumes "ikcp_recv len kcp = (n, data, kcp')" "0 < n" "0 \<le> len"
  shows "length (kc_rcv_queue kcp') + length (kc_rcv_buf kcp') < length (kc_rcv_queue kcp) + length (kc_rcv_buf kcp)"
proof -
  have q: "kc_rcv_queue kcp \<noteq> []" using assms by (auto simp: ikcp_recv_def split: if_splits)
  obtain d t where t: "take_message (kc_rcv_queue kcp) = (d, t)" by (meson surj_pair)
  let ?k = "kcp\<lparr>kc_rcv_queue := t, kc_nrcv_que := kc_nrcv_que kcp - of_nat (length (kc_rcv_queue kcp) - length t)\<rparr>"
  have "length (kc_rcv_queue kcp') = length (kc_rcv_queue (move_available (kc_rcv_buf kcp) ?k)) \<and>
      length (kc_rcv_buf kcp') = length (kc_rcv_buf (move_available (kc_rcv_buf kcp) ?k))"
    using assms t by (auto simp: ikcp_recv_def Let_def split: if_splits)
  then show ?thesis using move_available_total [of "kc_rcv_buf kcp" ?k] take_message_less [OF q] t by simp
qed

text \<open>Messages are taken out until the next one does not fit or none is there.\<close>

function kcp_drain_recv :: "ikcpcb \<Rightarrow> byte list \<Rightarrow> bc_status \<times> ikcpcb \<times> byte list" where
  "kcp_drain_recv kcp rx =
     (if length rx \<ge> BC_KCP_RX_BUF_LEN then (BC_ERR_IO, kcp, [])
      else case ikcp_recv (int (BC_KCP_RX_BUF_LEN - length rx)) kcp of (n, data, kcp') \<Rightarrow>
        if n > 0 then kcp_drain_recv kcp' (rx @ data)
        else if n = - 3 then (BC_OK, kcp', rx)
        else (BC_ERR_IO, kcp', rx))"
  by pat_completeness auto
termination
  by (relation "measure (\<lambda>(kcp, rx). length (kc_rcv_queue kcp) + length (kc_rcv_buf kcp))")
    (auto dest: recv_total [OF sym])

declare kcp_drain_recv.simps [simp del]

definition kcp_update_session :: "u32 \<Rightarrow> kcp_impl \<Rightarrow> byte list list \<times> kcp_impl" where
  "kcp_update_session now impl =
     (case ikcp_update now (ki_kcp impl) of (outs, kcp) \<Rightarrow>
        case kcp_drain_recv kcp (ki_rx_buf impl) of (rc, kcp, rx) \<Rightarrow>
          (outs, impl\<lparr>ki_kcp := kcp, ki_rx_buf := rx\<rparr>))"

section \<open>The operations\<close>

definition bc_udp_kcp_transport_init :: kcp_transport where
  "bc_udp_kcp_transport_init = \<lparr>kt_fd = - 1, kt_impl = None\<rparr>"

definition udp_kcp_open :: "kcp_os \<Rightarrow> bc_transport_config \<Rightarrow> kcp_transport \<Rightarrow> bc_status \<times> kcp_transport" where
  "udp_kcp_open os cfg t =
     (if \<not> ko_calloc os then (BC_ERR_NOMEM, t)
      else case bc_parse_endpoint (tc_endpoint cfg) 64 of
          Inl _ \<Rightarrow> (BC_ERR_INVALID, t)
        | Inr (host, port) \<Rightarrow>
            let t = t\<lparr>kt_fd := ko_socket os\<rparr> in
            if kt_fd t < 0 then (BC_ERR_IO, t)
            else if \<not> ko_bind os (of_int (tc_local_port cfg)) then (BC_ERR_IO, t\<lparr>kt_fd := - 1\<rparr>)
            else (case bc_fill_sockaddr_in (ko_pton os) host port of
                Inl _ \<Rightarrow> (BC_ERR_INVALID, t\<lparr>kt_fd := - 1\<rparr>)
              | Inr remote \<Rightarrow>
                  if ko_timerfd os < 0 then (BC_ERR_IO, t\<lparr>kt_fd := - 1\<rparr>)
                  else if kcp_timer_start (ko_settime os) \<noteq> BC_OK then (BC_ERR_IO, t\<lparr>kt_fd := - 1\<rparr>)
                  else (case ikcp_create (ko_malloc os) (kcp_conv_from_config cfg) of
                      None \<Rightarrow> (BC_ERR_NOMEM, t\<lparr>kt_fd := - 1\<rparr>)
                    | Some kcp \<Rightarrow>
                        (BC_OK, t\<lparr>kt_impl := Some \<lparr>ki_remote = remote, ki_kcp = kcp_configure kcp,
                           ki_timer_fd = ko_timerfd os, ki_rx_buf = [], ki_conv = kcp_conv_from_config cfg\<rparr>\<rparr>))))"

definition udp_kcp_close :: "kcp_transport \<Rightarrow> kcp_transport" where
  "udp_kcp_close t = (case kt_impl t of
     None \<Rightarrow> t
   | Some impl \<Rightarrow> t\<lparr>kt_fd := (if kt_fd t \<ge> 0 then - 1 else kt_fd t), kt_impl := None\<rparr>)"

definition udp_kcp_send :: "u32 \<Rightarrow> byte list \<Rightarrow> kcp_impl \<Rightarrow> bc_status \<times> byte list list \<times> kcp_impl" where
  "udp_kcp_send now data impl =
     (case ikcp_send data (int (length data)) (ki_kcp impl) of (rc, kcp) \<Rightarrow>
        let impl = impl\<lparr>ki_kcp := kcp\<rparr> in
        if rc < 0 then (BC_ERR_IO, [], impl)
        else case kcp_update_session now impl of (outs, impl) \<Rightarrow> (BC_OK, outs, impl))"

definition udp_kcp_recv :: "u32 \<Rightarrow> nat \<Rightarrow> kcp_impl \<Rightarrow> (bc_status + byte list) \<times> byte list list \<times> kcp_impl" where
  "udp_kcp_recv now cap impl =
     (case kcp_update_session now impl of (outs, impl) \<Rightarrow>
        if ki_rx_buf impl = [] then (Inl BC_ERR_NOT_FOUND, outs, impl)
        else
          let n = min (length (ki_rx_buf impl)) cap in
          (Inr (take n (ki_rx_buf impl)), outs, impl\<lparr>ki_rx_buf := drop n (ki_rx_buf impl)\<rparr>))"

definition udp_kcp_get_fds :: "kcp_transport \<Rightarrow> bc_status + int list" where
  "udp_kcp_get_fds t = (case kt_impl t of
     None \<Rightarrow> Inl BC_ERR_INVALID
   | Some impl \<Rightarrow> Inr ((if kt_fd t \<ge> 0 then [kt_fd t] else []) @ (if ki_timer_fd impl \<ge> 0 then [ki_timer_fd impl] else [])))"

text \<open>One update for each expiration read from the timer, at the times given.\<close>

fun kcp_timer_loop :: "u32 list \<Rightarrow> kcp_impl \<Rightarrow> byte list list \<times> kcp_impl" where
  "kcp_timer_loop [] impl = ([], impl)"
| "kcp_timer_loop (now # ticks) impl =
     (case kcp_update_session now impl of (outs, impl) \<Rightarrow>
        case kcp_timer_loop ticks impl of (more_outs, impl) \<Rightarrow> (outs @ more_outs, impl))"

definition udp_kcp_handle_event ::
  "int \<Rightarrow> int \<Rightarrow> u32 \<Rightarrow> u32 list \<Rightarrow> sock_read list \<Rightarrow> u32 \<Rightarrow> kcp_impl \<Rightarrow> bc_status \<times> byte list list \<times> kcp_impl" where
  "udp_kcp_handle_event transport_fd fd events ticks reads now impl =
     (if fd = ki_timer_fd impl \<and> (events AND EPOLLIN) \<noteq> 0 then
        (case kcp_timer_loop ticks impl of (outs, impl) \<Rightarrow> (BC_OK, outs, impl))
      else if fd = transport_fd \<and> (events AND EPOLLIN) \<noteq> 0 then
        (case kcp_pump_udp reads (ki_kcp impl) of (rc, kcp) \<Rightarrow>
           let impl = impl\<lparr>ki_kcp := kcp\<rparr> in
           if rc \<noteq> BC_OK then (BC_ERR_IO, [], impl)
           else case kcp_update_session now impl of (outs, impl) \<Rightarrow> (BC_OK, outs, impl))
      else (BC_OK, [], impl))"

end
