(* ===== verification/Kcp_Tunnel.thy ===== *)
theory Kcp_Tunnel
  imports Kcp_Transport
begin

text \<open>
  Two daemons joined by the KCP transport over a network that loses, repeats and reorders datagrams:
  what one reads is the stream of the frames the other sent, as long as the receive buffer is not
  filled to the last byte, in which case the transport throws its content away.
\<close>

section \<open>Two transports\<close>

text \<open>\<open>drain_full\<close>: taking out messages fills the buffer exactly, and its content is dropped.\<close>

function drain_full :: "ikcpcb \<Rightarrow> byte list \<Rightarrow> bool" where
  "drain_full kcp rx =
     (if length rx \<ge> BC_KCP_RX_BUF_LEN then True
      else case ikcp_recv (int (BC_KCP_RX_BUF_LEN - length rx)) kcp of (n, data, kcp') \<Rightarrow>
        if n > 0 then drain_full kcp' (rx @ data) else False)"
  by pat_completeness auto
termination
  by (relation "measure (\<lambda>(kcp, rx). length (kc_rcv_queue kcp) + length (kc_rcv_buf kcp))")
    (auto dest: recv_total [OF sym])

declare drain_full.simps [simp del]

lemma full_drain_drops:
  "drain_full kcp rx \<Longrightarrow> \<exists>kcp'. kcp_drain_recv kcp rx = (BC_ERR_IO, kcp', [])"
proof (induction kcp rx rule: drain_full.induct)
  case (1 kcp rx)
  obtain n data kcp' where r: "ikcp_recv (int (BC_KCP_RX_BUF_LEN - length rx)) kcp = (n, data, kcp')"
    by (metis prod_cases3)
  show ?case
    using 1 r by (auto simp: drain_full.simps [of kcp rx] kcp_drain_recv.simps [of kcp rx] split: if_splits)
qed

text \<open>
  Two frames of the largest size (each in two segments of the configured MTU), received and
  acknowledged before the transport is drained, are lost: they fill the buffer, and the next round
  of the loop sets its length to zero.
\<close>

lemma kcp_two_largest_lost:
  assumes q: "kc_rcv_queue kcp = [s1, s2, s3, s4]" "kc_rcv_buf kcp = []" "kc_nrcv_que kcp = 4"
    and f: "sg_frg s1 = 1" "sg_frg s2 = 0" "sg_frg s3 = 1" "sg_frg s4 = 0"
    and l: "length (sg_data s1) = 1376" "length (sg_data s2) = 224" "length (sg_data s3) = 1376" "length (sg_data s4) = 224"
  shows "\<exists>kcp'. kcp_drain_recv kcp [] = (BC_ERR_IO, kcp', []) \<and> kc_rcv_queue kcp' = []"
proof -
  note d = ikcp_recv_def ikcp_peeksize_def Let_def BC_KCP_RX_BUF_LEN_def
  obtain kcp1 where r1: "ikcp_recv 3200 kcp = (1600, sg_data s1 @ sg_data s2, kcp1)"
    "kc_rcv_queue kcp1 = [s3, s4]" "kc_rcv_buf kcp1 = []" "kc_nrcv_que kcp1 = 2"
    using q f l by (simp add: d)
  obtain kcp2 where r2: "ikcp_recv 1600 kcp1 = (1600, sg_data s3 @ sg_data s4, kcp2)" "kc_rcv_queue kcp2 = []"
    using f l r1 by (simp add: d)
  show ?thesis
    using r1 r2 l
    by (simp add: kcp_drain_recv.simps [of kcp] kcp_drain_recv.simps [of kcp1] kcp_drain_recv.simps [of kcp2]
        BC_KCP_RX_BUF_LEN_def)
qed

record tnode =
  tn_impl :: kcp_impl
  tn_sent :: "byte list list"
  tn_reads :: "byte list list"
  tn_out :: "byte list list"
  tn_full :: bool

definition update_full :: "u32 \<Rightarrow> kcp_impl \<Rightarrow> bool" where
  "update_full now impl = drain_full (snd (ikcp_update now (ki_kcp impl))) (ki_rx_buf impl)"

definition tnode_start :: "u32 \<Rightarrow> sockaddr \<Rightarrow> int \<Rightarrow> tnode" where
  "tnode_start conv remote timer_fd =
     \<lparr>tn_impl = \<lparr>ki_remote = remote, ki_kcp = kcp_start conv, ki_timer_fd = timer_fd, ki_rx_buf = [], ki_conv = conv\<rparr>,
      tn_sent = [], tn_reads = [], tn_out = [], tn_full = False\<rparr>"

text \<open>A frame is sent, the daemon reads, the timer ticks, or datagrams arrive on the socket \<open>fd\<close>.\<close>

datatype tevent = T_Send "byte list" u32 | T_Recv nat u32 | T_Timer int u32 | T_Input int "byte list list" u32

fun tnode_step :: "tevent \<Rightarrow> tnode \<Rightarrow> tnode" where
  "tnode_step (T_Send m now) a =
     (case udp_kcp_send now m (tn_impl a) of (rc, outs, impl) \<Rightarrow>
        a\<lparr>tn_impl := impl, tn_out := tn_out a @ outs, tn_sent := (if rc = BC_OK then tn_sent a @ [m] else tn_sent a),
          tn_full := (tn_full a \<or> (rc = BC_OK \<and>
            update_full now ((tn_impl a)\<lparr>ki_kcp := snd (ikcp_send m (int (length m)) (ki_kcp (tn_impl a)))\<rparr>))) \<rparr>)"
| "tnode_step (T_Recv cap now) a =
     (case udp_kcp_recv now cap (tn_impl a) of (res, outs, impl) \<Rightarrow>
        a\<lparr>tn_impl := impl, tn_out := tn_out a @ outs,
          tn_reads := (case res of Inl _ \<Rightarrow> tn_reads a | Inr data \<Rightarrow> tn_reads a @ [data]),
          tn_full := (tn_full a \<or> update_full now (tn_impl a))\<rparr>)"
| "tnode_step (T_Timer fd now) a =
     (case udp_kcp_handle_event fd (ki_timer_fd (tn_impl a)) EPOLLIN [now] [] now (tn_impl a) of (rc, outs, impl) \<Rightarrow>
        a\<lparr>tn_impl := impl, tn_out := tn_out a @ outs, tn_full := (tn_full a \<or> update_full now (tn_impl a))\<rparr>)"
| "tnode_step (T_Input fd ds now) a =
     (case udp_kcp_handle_event fd fd EPOLLIN [] (map Got ds) now (tn_impl a) of (rc, outs, impl) \<Rightarrow>
        a\<lparr>tn_impl := impl, tn_out := tn_out a @ outs,
          tn_full := (tn_full a \<or> update_full now ((tn_impl a)\<lparr>ki_kcp := snd (kcp_pump_udp (map Got ds) (ki_kcp (tn_impl a)))\<rparr>))\<rparr>)"

declare tnode_step.simps [simp del]

fun tevent_ok :: "tevent \<Rightarrow> tnode \<Rightarrow> tnode \<Rightarrow> bool" where
  "tevent_ok (T_Send m now) a peer \<longleftrightarrow> length m < 2 ^ 31"
| "tevent_ok (T_Input fd ds now) a peer \<longleftrightarrow> set ds \<subseteq> set (tn_out peer) \<and> fd \<noteq> ki_timer_fd (tn_impl a)"
| "tevent_ok _ a peer \<longleftrightarrow> True"

inductive tlink :: "u32 \<Rightarrow> tnode \<times> tnode \<Rightarrow> bool" for conv where
  tlink_start: "tlink conv (tnode_start conv ra ta, tnode_start conv rb tb)"
| tlink_left: "tlink conv (a, b) \<Longrightarrow> tevent_ok e a b \<Longrightarrow> tlink conv (tnode_step e a, b)"
| tlink_right: "tlink conv (a, b) \<Longrightarrow> tevent_ok e b a \<Longrightarrow> tlink conv (a, tnode_step e b)"

section \<open>Each transport is an end of a session\<close>

definition runs :: "kevent list \<Rightarrow> knode \<Rightarrow> knode" where
  "runs es k = foldl (\<lambda>k e. knode_step e k) k es"

lemma runs_append: "runs (es @ fs) k = runs fs (runs es k)"
  by (simp add: runs_def)

lemma klink_runs: "klink conv (k, p) \<Longrightarrow> \<forall>e \<in> set es. kevent_ok e p \<Longrightarrow> klink conv (runs es k, p)"
proof (induction es arbitrary: k)
  case Nil
  then show ?case by (simp add: runs_def)
next
  case (Cons e es)
  then show ?case using klink_left [of conv k p e] by (simp add: runs_def)
qed

lemma klink_sym: "klink conv ab \<Longrightarrow> klink conv (snd ab, fst ab)"
  by (induction rule: klink.induct) (simp_all add: klink_start klink_left klink_right)

definition as_end :: "tnode \<Rightarrow> knode \<Rightarrow> bool" where
  "as_end a k \<longleftrightarrow> kn_kcp k = ki_kcp (tn_impl a) \<and> kn_sent k = tn_sent a \<and> kn_out k = tn_out a \<and>
     (\<not> tn_full a \<longrightarrow> concat (kn_got k) = concat (tn_reads a) @ ki_rx_buf (tn_impl a))"

text \<open>Draining is a number of receives.\<close>

lemma drain_runs:
  assumes "kcp_drain_recv kcp rx = (rc, kcp', rx')" "kn_kcp k = kcp"
  shows "\<exists>es. (\<forall>e \<in> set es. \<forall>p. kevent_ok e p) \<and> kn_kcp (runs es k) = kcp' \<and> kn_sent (runs es k) = kn_sent k \<and>
    kn_out (runs es k) = kn_out k \<and>
    (\<not> drain_full kcp rx \<longrightarrow> (\<exists>ms. kn_got (runs es k) = kn_got k @ ms \<and> rx' = rx @ concat ms))"
  using assms
proof (induction kcp rx arbitrary: k rule: kcp_drain_recv.induct)
  case (1 kcp rx)
  show ?case
  proof (cases "length rx \<ge> BC_KCP_RX_BUF_LEN")
    case True
    have "drain_full kcp rx" using True by (subst drain_full.simps) simp
    moreover have "kcp' = kcp" using 1(2) True by (subst (asm) kcp_drain_recv.simps) simp
    ultimately show ?thesis using 1(3) by (intro exI [of _ "[]"]) (simp add: runs_def)
  next
    case False
    let ?cap = "int (BC_KCP_RX_BUF_LEN - length rx)"
    obtain n data k1 where r: "ikcp_recv ?cap kcp = (n, data, k1)" by (metis prod_cases3)
    let ?k = "knode_step (K_Recv ?cap) k"
    have s: "?k = k\<lparr>kn_kcp := k1, kn_got := (if n < 0 then kn_got k else kn_got k @ [data])\<rparr>"
      using r 1(3) by (simp add: knode_step.simps)
    have full: "drain_full kcp rx = (if n > 0 then drain_full k1 (rx @ data) else False)"
      using False r by (subst drain_full.simps) simp
    show ?thesis
    proof (cases "n > 0")
      case True
      have d: "kcp_drain_recv k1 (rx @ data) = (rc, kcp', rx')"
        using 1(2) False r True by (subst (asm) kcp_drain_recv.simps) simp
      have k1: "kn_kcp ?k = k1" by (simp add: s)
      from 1(1) [OF _ r [symmetric] _ True d k1] False obtain es where es: "\<forall>e \<in> set es. \<forall>p. kevent_ok e p"
        "kn_kcp (runs es ?k) = kcp'" "kn_sent (runs es ?k) = kn_sent ?k" "kn_out (runs es ?k) = kn_out ?k"
        "\<not> drain_full k1 (rx @ data) \<longrightarrow> (\<exists>ms. kn_got (runs es ?k) = kn_got ?k @ ms \<and> rx' = (rx @ data) @ concat ms)"
        by auto
      have "runs (K_Recv ?cap # es) k = runs es ?k" by (simp add: runs_def)
      then show ?thesis using es True s full
        by (intro exI [of _ "K_Recv ?cap # es"]) (auto intro: exI [of _ "data # _"])
    next
      case False': False
      have d: "kcp' = k1" "rx' = rx" using 1(2) False r False' by (subst (asm) kcp_drain_recv.simps; auto split: if_splits)+
      have "\<not> n < 0 \<Longrightarrow> data = []"
        using r False' by (auto simp: ikcp_recv_def Let_def split: if_splits prod.splits)
      then show ?thesis using s d
        by (intro exI [of _ "[K_Recv ?cap]"]) (auto simp: runs_def)
    qed
  qed
qed

lemma update_runs:
  assumes "kcp_update_session now impl = (outs, impl')" "kn_kcp k = ki_kcp impl"
  shows "\<exists>es. (\<forall>e \<in> set es. \<forall>p. kevent_ok e p) \<and> kn_kcp (runs es k) = ki_kcp impl' \<and> kn_sent (runs es k) = kn_sent k \<and>
    kn_out (runs es k) = kn_out k @ outs \<and>
    (\<not> update_full now impl \<longrightarrow> (\<exists>ms. kn_got (runs es k) = kn_got k @ ms \<and> ki_rx_buf impl' = ki_rx_buf impl @ concat ms))"
proof -
  obtain o1 k1 where u: "ikcp_update now (ki_kcp impl) = (o1, k1)" by (meson surj_pair)
  obtain rc k2 rx where d: "kcp_drain_recv k1 (ki_rx_buf impl) = (rc, k2, rx)" by (metis prod_cases3)
  have i: "outs = o1" "impl' = impl\<lparr>ki_kcp := k2, ki_rx_buf := rx\<rparr>" using assms(1) u d by (simp_all add: kcp_update_session_def)
  let ?k = "knode_step (K_Update now) k"
  have s: "?k = k\<lparr>kn_kcp := k1, kn_out := kn_out k @ o1\<rparr>" using u assms(2) by (simp add: knode_step.simps)
  have k1: "kn_kcp ?k = k1" by (simp add: s)
  have f: "update_full now impl = drain_full k1 (ki_rx_buf impl)" using u by (simp add: update_full_def)
  obtain es where es: "\<forall>e \<in> set es. \<forall>p. kevent_ok e p" "kn_kcp (runs es ?k) = k2" "kn_sent (runs es ?k) = kn_sent ?k"
    "kn_out (runs es ?k) = kn_out ?k"
    "\<not> drain_full k1 (ki_rx_buf impl) \<longrightarrow> (\<exists>ms. kn_got (runs es ?k) = kn_got ?k @ ms \<and> rx = ki_rx_buf impl @ concat ms)"
    using drain_runs [OF d k1] by blast
  have "runs (K_Update now # es) k = runs es ?k" by (simp add: runs_def)
  then show ?thesis using es s f i by (intro exI [of _ "K_Update now # es"]) auto
qed

lemma datagram_nonempty: "is_datagram Q d \<Longrightarrow> d \<noteq> []"
proof -
  assume "is_datagram Q d"
  then obtain segs where "segs \<noteq> []" "d = concat (map wire_seg segs)" by (auto simp: is_datagram_def)
  then show "d \<noteq> []" using wire_seg_nonempty by (cases segs) auto
qed

lemma pump_runs:
  assumes "klink conv (k, p)" "set ds \<subseteq> set (kn_out p)" "few_fragments k p" "kn_kcp k = kcp"
  shows "\<exists>kcp'. kcp_pump_udp (map Got ds) kcp = (BC_OK, kcp') \<and> kn_kcp (runs (map K_Input ds) k) = kcp' \<and>
    kn_sent (runs (map K_Input ds) k) = kn_sent k \<and> kn_out (runs (map K_Input ds) k) = kn_out k \<and>
    kn_got (runs (map K_Input ds) k) = kn_got k"
  using assms
proof (induction ds arbitrary: k kcp)
  case Nil
  then show ?case by (simp add: runs_def)
next
  case (Cons d ds)
  obtain rc kcp1 where i: "ikcp_input d kcp = (rc, kcp1)" by (meson surj_pair)
  let ?k = "knode_step (K_Input d) k"
  have s: "?k = k\<lparr>kn_kcp := kcp1\<rparr>" using i Cons.prems(4) by (simp add: knode_step.simps)
  have ok: "link_ok conv k p" "link_ok conv p k" using klink_ok [OF Cons.prems(1)] Cons.prems(3) by simp_all
  have d: "length d \<le> 1400" "is_datagram (link_seg conv (kstream (kn_sent p)) (arrived (got_count p) (kn_kcp p)) (rcv_count (got_count p) (kn_kcp p))) d"
    using ok(2) Cons.prems(2) by (auto simp: link_ok_def)
  have "rc = 0"
  proof -
    have e: "end_ok (kstream (kn_sent k)) (kstream (kn_sent p)) (got_count k) kcp" "kc_conv kcp = conv"
      using ok(1) Cons.prems(4) by (simp_all add: link_ok_def)
    have N: "rcv_count (got_count p) (kn_kcp p) \<le> length (kstream (kn_sent k))"
      using ok(2) by (simp add: link_ok_def end_ok_def recv_ok_def recv_core_def)
    have A: "{..<rcv_count (got_count p) (kn_kcp p)} \<subseteq> arrived (got_count p) (kn_kcp p)" by (auto simp: arrived_def)
    have few: "length (kstream (kn_sent k)) \<le> 2 ^ 30" "length (kstream (kn_sent p)) \<le> 2 ^ 30"
      using Cons.prems(3) by (simp_all add: few_fragments_def)
    show ?thesis using input_ok [OF e(1) few _ N A i] d(2) e(2) by simp
  qed
  moreover have "d \<noteq> []" by (rule datagram_nonempty [OF d(2)])
  moreover have "take BC_KCP_UDP_BUF_LEN d = d" using d(1) by (simp add: BC_KCP_UDP_BUF_LEN_def)
  ultimately have pump: "kcp_pump_udp (map Got (d # ds)) kcp = kcp_pump_udp (map Got ds) kcp1" using i by simp
  have "klink conv (?k, p)" by (rule klink_left [OF Cons.prems(1)]) (use Cons.prems(2) in simp)
  moreover have "few_fragments ?k p" "kn_kcp ?k = kcp1" using Cons.prems(3) by (simp_all add: s few_fragments_def)
  moreover have "runs (map K_Input (d # ds)) k = runs (map K_Input ds) ?k" by (simp add: runs_def)
  ultimately show ?case unfolding pump using Cons.IH [of ?k kcp1] Cons.prems(2) s by simp
qed

lemma session_step:
  assumes "as_end a k" "kcp_update_session now (tn_impl a) = (outs, impl')"
    "a' = a\<lparr>tn_impl := impl', tn_out := tn_out a @ outs, tn_full := (tn_full a \<or> update_full now (tn_impl a))\<rparr>"
  shows "\<exists>es. (\<forall>e \<in> set es. \<forall>p. kevent_ok e p) \<and> as_end a' (runs es k)"
proof -
  have "kn_kcp k = ki_kcp (tn_impl a)" using assms(1) by (simp add: as_end_def)
  from update_runs [OF assms(2) this] obtain es where es: "\<forall>e \<in> set es. \<forall>p. kevent_ok e p"
    "kn_kcp (runs es k) = ki_kcp impl'" "kn_sent (runs es k) = kn_sent k" "kn_out (runs es k) = kn_out k @ outs"
    "\<not> update_full now (tn_impl a) \<longrightarrow> (\<exists>ms. kn_got (runs es k) = kn_got k @ ms \<and> ki_rx_buf impl' = ki_rx_buf (tn_impl a) @ concat ms)"
    by blast
  then have "as_end a' (runs es k)" using assms(1,3) by (auto simp: as_end_def)
  then show ?thesis using es(1) by blast
qed

text \<open>Each operation of a transport is a number of steps of its end of the session.\<close>

lemma tnode_runs:
  assumes a: "as_end a k" and p: "as_end b p" and link: "klink conv (k, p)" and ok: "tevent_ok e a b" and few: "few_fragments k p"
  shows "\<exists>k'. as_end (tnode_step e a) k' \<and> klink conv (k', p)"
proof (cases e)
  case (T_Send m now)
  let ?impl = "tn_impl a"
  obtain r kcp1 where s: "ikcp_send m (int (length m)) (ki_kcp ?impl) = (r, kcp1)" by (meson surj_pair)
  let ?k1 = "knode_step (K_Send m) k" and ?i1 = "?impl\<lparr>ki_kcp := kcp1\<rparr>"
  have k1: "?k1 = k\<lparr>kn_kcp := kcp1, kn_sent := (if r < 0 then kn_sent k else kn_sent k @ [m])\<rparr>"
    using s a by (simp add: knode_step.simps as_end_def)
  have l1: "klink conv (?k1, p)" by (rule klink_left [OF link]) (use ok T_Send in simp)
  show ?thesis
  proof (cases "r < 0")
    case True
    then have "tnode_step e a = a\<lparr>tn_impl := ?i1\<rparr>" using s T_Send by (simp add: tnode_step.simps udp_kcp_send_def)
    then have "as_end (tnode_step e a) ?k1" using a k1 True by (simp add: as_end_def)
    then show ?thesis using l1 by blast
  next
    case False
    obtain outs i2 where u: "kcp_update_session now ?i1 = (outs, i2)" by (meson surj_pair)
    let ?a1 = "a\<lparr>tn_impl := ?i1, tn_sent := tn_sent a @ [m]\<rparr>"
    have a1: "as_end ?a1 ?k1" using a k1 False by (simp add: as_end_def)
    have "tnode_step e a = ?a1\<lparr>tn_impl := i2, tn_out := tn_out ?a1 @ outs, tn_full := (tn_full ?a1 \<or> update_full now (tn_impl ?a1))\<rparr>"
      using s u False T_Send by (simp add: tnode_step.simps udp_kcp_send_def)
    from session_step [OF a1 _ this] u obtain es where "\<forall>e \<in> set es. \<forall>p. kevent_ok e p" "as_end (tnode_step e a) (runs es ?k1)"
      by auto
    then show ?thesis using klink_runs [OF l1] by blast
  qed
next
  case (T_Recv cap now)
  obtain outs i2 where u: "kcp_update_session now (tn_impl a) = (outs, i2)" by (meson surj_pair)
  let ?a1 = "a\<lparr>tn_impl := i2, tn_out := tn_out a @ outs, tn_full := (tn_full a \<or> update_full now (tn_impl a))\<rparr>"
  obtain es where es: "\<forall>e \<in> set es. \<forall>p. kevent_ok e p" "as_end ?a1 (runs es k)" using session_step [OF a u refl] by blast
  let ?n = "min (length (ki_rx_buf i2)) cap"
  have "as_end (tnode_step e a) (runs es k)"
  proof (cases "ki_rx_buf i2 = []")
    case True
    then have "tnode_step e a = ?a1" using u T_Recv by (simp add: tnode_step.simps udp_kcp_recv_def)
    then show ?thesis using es(2) by simp
  next
    case False
    then have "tnode_step e a = ?a1\<lparr>tn_impl := i2\<lparr>ki_rx_buf := drop ?n (ki_rx_buf i2)\<rparr>, tn_reads := tn_reads a @ [take ?n (ki_rx_buf i2)]\<rparr>"
      using u T_Recv by (simp add: tnode_step.simps udp_kcp_recv_def Let_def)
    then show ?thesis using es(2) by (simp add: as_end_def)
  qed
  then show ?thesis using klink_runs [OF link] es(1) by blast
next
  case (T_Timer fd now)
  obtain outs i2 where u: "kcp_update_session now (tn_impl a) = (outs, i2)" by (meson surj_pair)
  have "EPOLLIN AND EPOLLIN \<noteq> 0" by (simp add: EPOLLIN_def)
  then have "tnode_step e a = a\<lparr>tn_impl := i2, tn_out := tn_out a @ outs, tn_full := (tn_full a \<or> update_full now (tn_impl a))\<rparr>"
    using u T_Timer by (simp add: tnode_step.simps udp_kcp_handle_event_def)
  from session_step [OF a u this] show ?thesis using klink_runs [OF link] by blast
next
  case (T_Input fd ds now)
  have ds: "set ds \<subseteq> set (kn_out p)" "fd \<noteq> ki_timer_fd (tn_impl a)" using ok p T_Input by (simp_all add: as_end_def)
  have kk: "kn_kcp k = ki_kcp (tn_impl a)" using a by (simp add: as_end_def)
  let ?k1 = "runs (map K_Input ds) k"
  obtain kcp1 where pump: "kcp_pump_udp (map Got ds) (ki_kcp (tn_impl a)) = (BC_OK, kcp1)" "kn_kcp ?k1 = kcp1"
    "kn_sent ?k1 = kn_sent k" "kn_out ?k1 = kn_out k" "kn_got ?k1 = kn_got k"
    using pump_runs [OF link ds(1) few kk] by blast
  let ?i1 = "(tn_impl a)\<lparr>ki_kcp := kcp1\<rparr>"
  obtain outs i2 where u: "kcp_update_session now ?i1 = (outs, i2)" by (meson surj_pair)
  let ?a1 = "a\<lparr>tn_impl := ?i1\<rparr>"
  have a1: "as_end ?a1 ?k1" using a pump by (simp add: as_end_def)
  have "EPOLLIN AND EPOLLIN \<noteq> 0" by (simp add: EPOLLIN_def)
  then have "tnode_step e a = ?a1\<lparr>tn_impl := i2, tn_out := tn_out ?a1 @ outs, tn_full := (tn_full ?a1 \<or> update_full now (tn_impl ?a1))\<rparr>"
    using u T_Input ds(2) pump(1) by (simp add: tnode_step.simps udp_kcp_handle_event_def Let_def)
  from session_step [OF a1 _ this] u obtain es where es: "\<forall>e \<in> set es. \<forall>p. kevent_ok e p" "as_end (tnode_step e a) (runs es ?k1)"
    by auto
  have "\<forall>e \<in> set (map K_Input ds). kevent_ok e p" using ds(1) by auto
  from klink_runs [OF klink_runs [OF link this]] es show ?thesis by blast
qed

lemma tnode_sent_grows: "length (kstream (tn_sent a)) \<le> length (kstream (tn_sent (tnode_step e a)))"
  by (cases e) (auto simp: kstream_append tnode_step.simps split: prod.split)

definition few_frames :: "tnode \<Rightarrow> tnode \<Rightarrow> bool" where
  "few_frames a b \<longleftrightarrow> length (kstream (tn_sent a)) \<le> 2 ^ 30 \<and> length (kstream (tn_sent b)) \<le> 2 ^ 30"

lemma few_frames_end: "as_end a k \<Longrightarrow> as_end b p \<Longrightarrow> few_frames a b \<longleftrightarrow> few_fragments k p"
  by (simp add: few_frames_def few_fragments_def as_end_def)

lemma start_end: "as_end (tnode_start conv r t) (knode_start conv)"
  by (simp add: as_end_def tnode_start_def knode_start_def)

lemma tlink_klink: "tlink conv ab \<Longrightarrow> few_frames (fst ab) (snd ab) \<Longrightarrow>
    \<exists>k p. as_end (fst ab) k \<and> as_end (snd ab) p \<and> klink conv (k, p)"
proof (induction rule: tlink.induct)
  case (tlink_start ra ta rb tb)
  then show ?case using start_end klink_start by fastforce
next
  case (tlink_left a b e)
  then have few: "few_frames a b" using tnode_sent_grows [of a e] by (simp add: few_frames_def)
  then obtain k p where kp: "as_end a k" "as_end b p" "klink conv (k, p)" using tlink_left.IH by auto
  from tnode_runs [OF kp tlink_left.hyps(2)] few kp(2) few_frames_end [OF kp(1,2)] show ?case by auto
next
  case (tlink_right a b e)
  then have few: "few_frames a b" using tnode_sent_grows [of b e] by (simp add: few_frames_def)
  then obtain k p where kp: "as_end a k" "as_end b p" "klink conv (k, p)" using tlink_right.IH by auto
  have f: "few_fragments p k" using few few_frames_end [OF kp(1,2)] by (simp add: few_fragments_def)
  obtain p' where "as_end (tnode_step e b) p'" "klink conv (p', k)"
    using tnode_runs [OF kp(2,1) _ tlink_right.hyps(2) f] klink_sym [OF kp(3)] by auto
  then show ?case using kp(1) klink_sym [of conv "(p', k)"] by auto
qed

section \<open>What the daemons see\<close>

text \<open>
  Over the KCP transport the bytes a daemon has read, and those waiting in the receive buffer, are
  the beginning of the stream of the frames the other daemon has sent, whatever the network does
  with the datagrams, unless the receive buffer was filled exactly.
\<close>
theorem kcp_transport_stream:
  assumes "tlink conv (a, b)" "few_frames a b" "\<not> tn_full b"
  shows "prefix (concat (tn_reads b) @ ki_rx_buf (tn_impl b)) (concat (tn_sent a))"
proof -
  obtain k p where kp: "as_end a k" "as_end b p" "klink conv (k, p)" using tlink_klink [OF assms(1)] assms(2) by auto
  have "few_fragments k p" using assms(2) few_frames_end [OF kp(1,2)] by simp
  then have "prefix (kn_got p) (kn_sent k)" using klink_ok [OF kp(3)] by (simp add: link_ok_def)
  then have "prefix (concat (kn_got p)) (concat (kn_sent k))" by (auto simp: prefix_def)
  then show ?thesis using kp(1,2) assms(3) by (simp add: as_end_def)
qed

text \<open>
  C2. From daemon to daemon, as long as the receiver's transport never threw its buffer away: whatever
  the network lost, repeated or reordered, when the sender has nothing left to send or to have acknowledged
  and the receiver has read everything, then handling the reads one after the other hands each message
  that was sent as a frame to the message bus, once and in order, and leaves the receive buffer of the
  daemon empty. Two hypotheses bound it. \<open>\<not> tn_full b\<close>: the messages taken out never filled the 3200
  bytes of \<^verbatim>\<open>rx_buf\<close> exactly, where \<^verbatim>\<open>kcp_drain_recv\<close> sets \<^verbatim>\<open>rx_len\<close> to 0 and the frames in the buffer are lost
  although they were acknowledged (\<open>full_drain_drops\<close>, \<open>kcp_two_largest_lost\<close>). \<open>few_frames\<close>: at most
  \<open>2 ^ 30\<close> fragments were sent in each direction, so that the 32-bit sequence numbers do not wrap.
\<close>
theorem kcp_daemon_to_daemon:
  assumes "tlink conv (a, b)" "few_frames a b" "\<not> tn_full b"
    and finished: "ikcp_waitsnd (ki_kcp (tn_impl a)) = 0" "kc_rcv_queue (ki_kcp (tn_impl b)) = []" "ki_rx_buf (tn_impl b) = []"
    and frames: "tn_sent a = map wire ms" "\<forall>m \<in> set ms. encodable m"
    and bus: "inbound_all env t (map canon_message ms) s = Some s'"
  shows "feed (process_transport_frames env t) (tn_reads b) [] s = Some (BC_OK, [], s')"
proof -
  obtain k p where kp: "as_end a k" "as_end b p" "klink conv (k, p)" using tlink_klink [OF assms(1)] assms(2) by auto
  have few: "few_fragments k p" using assms(2) few_frames_end [OF kp(1,2)] by simp
  have "ikcp_waitsnd (kn_kcp k) = 0" "kc_rcv_queue (kn_kcp p) = []" using finished kp(1,2) by (simp_all add: as_end_def)
  then have "kn_got p = kn_sent k" using kcp_nothing_lost_core [OF kp(3) few] by simp
  then have stream: "concat (tn_reads b) = concat (map wire ms)" using kp(1,2) assms(3) finished(3) frames(1) by (simp add: as_end_def)
  have empty: "net_look [] = More" by (rule look_empty)
  have "consume net_look (net_handle env t) (concat (map wire ms)) s = Some (BC_OK, [], s')"
    using net.consume_frames [OF _ empty handle_wires [OF frames(2) bus]] look_wire frames(2) by simp
  then have "consume net_look (net_handle env t) ([] @ concat (tn_reads b)) s = Some (BC_OK, [], s')" by (simp add: stream)
  from net.feed_concat [OF empty this] show ?thesis by (simp add: process_is_consume [abs_def])
qed

section \<open>A run\<close>

text \<open>One frame sent, its datagram arriving and being read, and the acknowledgement arriving.\<close>

definition sends :: "byte list \<Rightarrow> tnode" where
  "sends frame = tnode_step (T_Send frame 0) (tnode_start 7 (1, 2) 5)"

definition receives :: "byte list list \<Rightarrow> tnode" where
  "receives outs = tnode_step (T_Recv 3000 1) (tnode_step (T_Input 4 [hd outs] 0) (tnode_start 7 (1, 2) 5))"

definition acknowledged :: "byte list list \<Rightarrow> tnode \<Rightarrow> tnode" where
  "acknowledged outs a = tnode_step (T_Input 4 [hd outs] 0) a"

definition tun_frame :: "byte list" where "tun_frame = wire sample_message"
definition tun_a :: tnode where "tun_a = sends tun_frame"
definition tun_b :: tnode where "tun_b = receives (tn_out tun_a)"
definition tun_a' :: tnode where "tun_a' = acknowledged (tn_out tun_b) tun_a"

text \<open>The facts used below, in functions of the states so that each state is evaluated once.\<close>

definition tun_facts :: "byte list \<Rightarrow> tnode \<Rightarrow> tnode \<Rightarrow> tnode \<Rightarrow> bool" where
  "tun_facts frame a b a' \<longleftrightarrow> length frame = 44 \<and> tn_out a \<noteq> [] \<and> ki_timer_fd (tn_impl a) = 5 \<and> tn_out b \<noteq> [] \<and> \<not> tn_full b \<and>
     tn_reads b = [frame] \<and> tn_sent a' = [frame] \<and> tn_sent b = [] \<and> ikcp_waitsnd (ki_kcp (tn_impl a')) = 0 \<and>
     kc_rcv_queue (ki_kcp (tn_impl b)) = [] \<and> ki_rx_buf (tn_impl b) = []"

definition tun_ack :: "byte list \<Rightarrow> tnode \<Rightarrow> tnode \<Rightarrow> bool" where
  "tun_ack frame a b \<longleftrightarrow> tun_facts frame a b (acknowledged (tn_out b) a)"

definition tun_receive :: "byte list \<Rightarrow> tnode \<Rightarrow> bool" where
  "tun_receive frame a \<longleftrightarrow> tun_ack frame a (receives (tn_out a))"

definition tun_send :: "byte list \<Rightarrow> bool" where
  "tun_send frame \<longleftrightarrow> tun_receive frame (sends frame)"

lemma tun_run: "tun_send tun_frame"
  by code_simp

lemma tun_facts: "tun_facts tun_frame tun_a tun_b tun_a'"
  using tun_run by (simp only: tun_send_def tun_receive_def tun_ack_def tun_a_def tun_b_def tun_a'_def)

lemmas tun_values = tun_facts [unfolded tun_facts_def, THEN conjunct1] tun_facts [unfolded tun_facts_def, THEN conjunct2]

lemma tun_linked: "tlink 7 (tun_a', tun_b)"
proof -
  have "tlink 7 (tun_a, tnode_start 7 (1, 2) 5)"
    unfolding tun_a_def sends_def by (intro tlink_left tlink_start) (simp add: tun_values)
  then have "tlink 7 (tun_a, tun_b)"
    unfolding tun_b_def receives_def
    by (intro tlink_right) (simp_all add: tun_values tnode_start_def)
  then show ?thesis unfolding tun_a'_def acknowledged_def by (intro tlink_left) (simp_all add: tun_values)
qed

lemma tun_few: "few_frames tun_a' tun_b"
  by (simp add: few_frames_def tun_values kstream_def frag_count_def)

lemma kcp_transport_stream_witness:
  "prefix (concat (tn_reads tun_b) @ ki_rx_buf (tn_impl tun_b)) (concat (tn_sent tun_a')) \<and> length (concat (tn_reads tun_b)) = 44"
  using kcp_transport_stream [OF tun_linked tun_few] tun_values by simp

lemma kcp_daemon_to_daemon_witness:
  "\<exists>s'. feed (process_transport_frames (log_env bc_config_load_defaults [] (\<lambda>_ _ _. BC_OK) (\<lambda>_ _ _. BC_OK)) 0)
     (tn_reads tun_b) [] (bc_message_bus_init, []) = Some (BC_OK, [], s')"
proof -
  let ?env = "log_env bc_config_load_defaults [] (\<lambda>_ _ _. BC_OK) (\<lambda>_ _ _. BC_OK)"
  obtain rc bus' w' where h: "bc_message_bus_handle_inbound ?env (canon_message sample_message) (Some 0)
      (bc_message_bus_init, []) = Some (rc, bus', w')"
    using inbound_trace_total [of bc_message_bus_init] reasm_wf_init by (fastforce simp: bc_message_bus_init_def)
  have i: "inbound_all ?env 0 (map canon_message [sample_message]) (bc_message_bus_init, []) = Some (bus', w')"
    using h by simp
  have "tn_sent tun_a' = map wire [sample_message]" using tun_values by (simp add: tun_frame_def)
  from kcp_daemon_to_daemon [OF tun_linked tun_few _ _ _ _ this _ i] encodable_sample tun_values show ?thesis by auto
qed

end
