(* ===== verification/Transport_Ops.thy ===== *)
theory Transport_Ops
  imports Uart_Link Kcp_Transport Router Reactor
begin

text \<open>
  \<^verbatim>\<open>src/transport/transport.h\<close>: a transport as the daemon sees it, a table of operations beside an
  untyped private structure. A call through the table casts that structure to what the operations of
  the table expect; \<open>None\<close> is a call whose cast or null pointer leaves defined behaviour. The descriptor
  field is kept with the private structure, as in the models of the four transports. A plugin is
  code of its own: its operations are functions on the descriptor
  and its own state \<open>'p\<close>, any of which may be missing; \<open>po_bind\<close> also tells what it registers with the reactor.
\<close>

section \<open>A transport\<close>

record 'p plugin_ops =
  po_open :: "(int \<times> 'p \<Rightarrow> bc_status \<times> int \<times> 'p) option"
  po_close :: "(int \<times> 'p \<Rightarrow> int \<times> 'p) option"
  po_send :: "(byte list \<Rightarrow> int \<times> 'p \<Rightarrow> bc_status \<times> int \<times> 'p) option"
  po_recv :: "(nat \<Rightarrow> int \<times> 'p \<Rightarrow> (bc_status + byte list) \<times> int \<times> 'p) option"
  po_get_fds :: "(int \<times> 'p \<Rightarrow> bc_status + int list) option"
  po_bind :: "(int \<times> 'p \<Rightarrow> bc_status \<times> (int \<times> u32) list \<times> int \<times> 'p) option"
  po_event :: "(int \<Rightarrow> u32 \<Rightarrow> int \<times> 'p \<Rightarrow> bc_status \<times> int \<times> 'p) option"

datatype 'p transport_ops = Tcp_Ops | Uart_Ops | Udp_Ops | Kcp_Ops | Plugin_Ops "'p plugin_ops"

text \<open>\<open>No_Impl\<close> is the null pointer; a plugin has its descriptor beside its state.\<close>

datatype 'p transport_impl = No_Impl | Tcp_Impl tcp_impl | Uart_Impl uart_impl | Udp_Impl udp_impl
  | Kcp_Impl kcp_transport | Plugin_Impl "int \<times> 'p"

record 'p bc_transport =
  tr_name :: "byte list"
  tr_type :: bc_transport_type
  tr_config :: bc_transport_config
  tr_ops :: "'p transport_ops option"
  tr_impl :: "'p transport_impl"

text \<open>What the operating system answers to the calls of one operation, whichever transport it is of.\<close>

record transport_os =
  to_calloc :: bool
  to_tcp :: tcp_os
  to_uart :: uart_os
  to_udp :: udp_os
  to_kcp :: kcp_os
  to_sends :: "io_result list"
  to_read :: sock_read
  to_datagrams :: "sock_read list"
  to_accepts :: "accept_result list"
  to_tcp_ticks :: "tcp_os list"
  to_uart_ticks :: "uart_os list"
  to_kcp_ticks :: "u32 list"
  to_now :: u32

section \<open>Initialisation\<close>

definition blank_transport :: "bc_transport_type \<Rightarrow> bc_transport_config \<Rightarrow> 'p bc_transport" where
  "blank_transport type cfg =
     \<lparr>tr_name = snprintf_s (zeros 32) (tc_name cfg), tr_type = type, tr_config = cfg, tr_ops = None, tr_impl = No_Impl\<rparr>"

definition init_transport :: "transport_os \<Rightarrow> bc_transport_config \<Rightarrow> bc_status \<times> 'p bc_transport" where
  "init_transport os cfg = (case tc_type cfg of
     BC_TRANSPORT_TCP \<Rightarrow>
       let t = blank_transport BC_TRANSPORT_TCP cfg in
       if \<not> to_calloc os then (BC_ERR_NOMEM, t)
       else (BC_OK, t\<lparr>tr_impl := Tcp_Impl bc_tcp_transport_init, tr_ops := Some Tcp_Ops\<rparr>)
   | BC_TRANSPORT_UART \<Rightarrow>
       let t = blank_transport BC_TRANSPORT_UART cfg in
       if \<not> to_calloc os then (BC_ERR_NOMEM, t)
       else (BC_OK, t\<lparr>tr_impl := Uart_Impl bc_uart_transport_init, tr_ops := Some Uart_Ops\<rparr>)
   | BC_TRANSPORT_UDP_KCP \<Rightarrow>
       (BC_OK, (blank_transport BC_TRANSPORT_UDP_KCP cfg)\<lparr>tr_impl := Kcp_Impl bc_udp_kcp_transport_init, tr_ops := Some Kcp_Ops\<rparr>)
   | BC_TRANSPORT_UDP \<Rightarrow>
       (BC_OK, (blank_transport BC_TRANSPORT_UDP cfg)\<lparr>tr_impl := Udp_Impl bc_udp_transport_init, tr_ops := Some Udp_Ops\<rparr>))"

section \<open>Calls through the table\<close>

definition transport_open :: "transport_os \<Rightarrow> 'p bc_transport \<Rightarrow> (bc_status \<times> 'p bc_transport) option" where
  "transport_open os t = (case (tr_ops t, tr_impl t) of
     (Some Tcp_Ops, No_Impl) \<Rightarrow> Some (BC_ERR_INVALID, t)
   | (Some Tcp_Ops, Tcp_Impl s) \<Rightarrow>
       Some (case tcp_open (to_tcp os) (tr_config t) s of (rc, s) \<Rightarrow> (rc, t\<lparr>tr_impl := Tcp_Impl s\<rparr>))
   | (Some Uart_Ops, No_Impl) \<Rightarrow> Some (BC_ERR_INVALID, t)
   | (Some Uart_Ops, Uart_Impl s) \<Rightarrow>
       Some (case uart_open (to_uart os) (tr_config t) s of (rc, s) \<Rightarrow> (rc, t\<lparr>tr_impl := Uart_Impl s\<rparr>))
   | (Some Udp_Ops, Udp_Impl s) \<Rightarrow>
       Some (case udp_open (to_udp os) (tr_config t) s of (rc, s) \<Rightarrow> (rc, t\<lparr>tr_impl := Udp_Impl s\<rparr>))
   | (Some Kcp_Ops, Kcp_Impl s) \<Rightarrow>
       Some (case udp_kcp_open (to_kcp os) (tr_config t) s of (rc, s) \<Rightarrow> (rc, t\<lparr>tr_impl := Kcp_Impl s\<rparr>))
   | (Some (Plugin_Ops ops), Plugin_Impl p) \<Rightarrow>
       map_option (\<lambda>f. case f p of (rc, p) \<Rightarrow> (rc, t\<lparr>tr_impl := Plugin_Impl p\<rparr>)) (po_open ops)
   | _ \<Rightarrow> None)"

text \<open>\<^verbatim>\<open>udp_send\<close> takes the address of the peer from the private structure without looking whether there is one.\<close>

definition transport_send :: "transport_os \<Rightarrow> byte list \<Rightarrow> 'p bc_transport \<Rightarrow> (bc_status \<times> 'p bc_transport) option" where
  "transport_send os data t = (case (tr_ops t, tr_impl t) of
     (Some Tcp_Ops, No_Impl) \<Rightarrow> Some (BC_ERR_IO, t)
   | (Some Tcp_Ops, Tcp_Impl s) \<Rightarrow>
       Some (case tcp_send (to_tcp os) (to_sends os) data s of (rc, _, s) \<Rightarrow> (rc, t\<lparr>tr_impl := Tcp_Impl s\<rparr>))
   | (Some Uart_Ops, No_Impl) \<Rightarrow> Some (BC_ERR_IO, t)
   | (Some Uart_Ops, Uart_Impl s) \<Rightarrow>
       Some (case uart_send (to_uart os) (to_sends os) data s of (rc, _, s) \<Rightarrow> (rc, t\<lparr>tr_impl := Uart_Impl s\<rparr>))
   | (Some Udp_Ops, Udp_Impl s) \<Rightarrow>
       (if ut_remote s = None then None
        else Some (udp_send (case to_sends os of [] \<Rightarrow> Again | r # _ \<Rightarrow> r) data, t))
   | (Some Kcp_Ops, Kcp_Impl s) \<Rightarrow> Some (case kt_impl s of
       None \<Rightarrow> (BC_ERR_IO, t)
     | Some impl \<Rightarrow> (case udp_kcp_send (to_now os) data impl of (rc, _, impl) \<Rightarrow>
         (rc, t\<lparr>tr_impl := Kcp_Impl (s\<lparr>kt_impl := Some impl\<rparr>)\<rparr>)))
   | (Some (Plugin_Ops ops), Plugin_Impl p) \<Rightarrow> Some (case po_send ops of
       None \<Rightarrow> (BC_ERR_INVALID, t)
     | Some f \<Rightarrow> (case f data p of (rc, p) \<Rightarrow> (rc, t\<lparr>tr_impl := Plugin_Impl p\<rparr>)))
   | _ \<Rightarrow> None)"

text \<open>For a plugin without \<^verbatim>\<open>recv\<close> the daemon reads the descriptor itself.\<close>

definition transport_recv ::
  "transport_os \<Rightarrow> nat \<Rightarrow> 'p bc_transport \<Rightarrow> ((bc_status + byte list) \<times> 'p bc_transport) option" where
  "transport_recv os cap t = (case (tr_ops t, tr_impl t) of
     (Some Tcp_Ops, No_Impl) \<Rightarrow> Some (Inl BC_ERR_INVALID, t)
   | (Some Tcp_Ops, Tcp_Impl s) \<Rightarrow>
       Some (case tcp_recv (to_tcp os) (to_read os) s of (res, s) \<Rightarrow> (res, t\<lparr>tr_impl := Tcp_Impl s\<rparr>))
   | (Some Uart_Ops, No_Impl) \<Rightarrow> Some (Inl BC_ERR_INVALID, t)
   | (Some Uart_Ops, Uart_Impl s) \<Rightarrow>
       Some (case uart_recv (to_uart os) (to_read os) s of (res, s) \<Rightarrow> (res, t\<lparr>tr_impl := Uart_Impl s\<rparr>))
   | (Some Udp_Ops, Udp_Impl s) \<Rightarrow> Some (udp_recv cap (to_read os), t)
   | (Some Kcp_Ops, Kcp_Impl s) \<Rightarrow> Some (case kt_impl s of
       None \<Rightarrow> (Inl BC_ERR_INVALID, t)
     | Some impl \<Rightarrow> (case udp_kcp_recv (to_now os) cap impl of (res, _, impl) \<Rightarrow>
         (res, t\<lparr>tr_impl := Kcp_Impl (s\<lparr>kt_impl := Some impl\<rparr>)\<rparr>)))
   | (Some (Plugin_Ops ops), Plugin_Impl p) \<Rightarrow> Some (case po_recv ops of
       None \<Rightarrow> (case to_read os of Got data \<Rightarrow> Inr data | _ \<Rightarrow> Inl BC_ERR_IO, t)
     | Some f \<Rightarrow> (case f cap p of (res, p) \<Rightarrow> (res, t\<lparr>tr_impl := Plugin_Impl p\<rparr>)))
   | _ \<Rightarrow> None)"

definition transport_event :: "transport_os \<Rightarrow> int \<Rightarrow> u32 \<Rightarrow> 'p bc_transport \<Rightarrow> 'p bc_transport option" where
  "transport_event os fd events t = (case (tr_ops t, tr_impl t) of
     (Some Tcp_Ops, No_Impl) \<Rightarrow> Some t
   | (Some Tcp_Ops, Tcp_Impl s) \<Rightarrow>
       Some (t\<lparr>tr_impl := Tcp_Impl (snd (tcp_handle_event (to_tcp os) fd events (to_tcp_ticks os) (to_accepts os) (to_sends os) s))\<rparr>)
   | (Some Uart_Ops, No_Impl) \<Rightarrow> Some t
   | (Some Uart_Ops, Uart_Impl s) \<Rightarrow>
       Some (case uart_handle_event (to_uart os) (tr_config t) fd events (to_uart_ticks os) (to_sends os) s of
         (rc, _, s) \<Rightarrow> t\<lparr>tr_impl := Uart_Impl s\<rparr>)
   | (Some Udp_Ops, Udp_Impl s) \<Rightarrow> Some t
   | (Some Kcp_Ops, Kcp_Impl s) \<Rightarrow> Some (case kt_impl s of
       None \<Rightarrow> t
     | Some impl \<Rightarrow>
         (case udp_kcp_handle_event (kt_fd s) fd events (to_kcp_ticks os) (to_datagrams os) (to_now os) impl of
            (rc, _, impl) \<Rightarrow> t\<lparr>tr_impl := Kcp_Impl (s\<lparr>kt_impl := Some impl\<rparr>)\<rparr>))
   | (Some (Plugin_Ops ops), Plugin_Impl p) \<Rightarrow> Some (case po_event ops of
       None \<Rightarrow> t
     | Some f \<Rightarrow> t\<lparr>tr_impl := Plugin_Impl (snd (f fd events p))\<rparr>)
   | _ \<Rightarrow> None)"

section \<open>Closing\<close>

text \<open>
  The descriptors a private structure holds. Closing frees the structure; the result tells,
  beside the transport, which descriptors it still held then: nobody can close those any more.
\<close>

definition impl_fds :: "'p transport_impl \<Rightarrow> int list" where
  "impl_fds impl = filter (\<lambda>fd. fd \<ge> 0) (case impl of
     No_Impl \<Rightarrow> []
   | Tcp_Impl s \<Rightarrow> [tc_listen_fd s, tc_conn_fd s, tc_timer_fd s]
   | Uart_Impl s \<Rightarrow> [ua_fd s, ua_timer_fd s, ua_de_value_fd s]
   | Udp_Impl s \<Rightarrow> [ut_fd s]
   | Kcp_Impl s \<Rightarrow> kt_fd s # (case kt_impl s of None \<Rightarrow> [] | Some impl \<Rightarrow> [ki_timer_fd impl])
   | Plugin_Impl p \<Rightarrow> [fst p])"

definition tcp_close :: "tcp_impl \<Rightarrow> tcp_impl" where
  "tcp_close impl =
     (let impl = (if tc_conn_fd impl \<ge> 0 then impl\<lparr>tc_conn_fd := - 1\<rparr> else impl);
          impl = (if tc_listen_fd impl \<ge> 0 then impl\<lparr>tc_listen_fd := - 1\<rparr> else impl);
          impl = (if tc_timer_fd impl \<ge> 0 then impl\<lparr>tc_timer_fd := - 1\<rparr> else impl) in
      impl\<lparr>tc_send_alloc := False, tc_fd := - 1\<rparr>)"

definition transport_close :: "transport_os \<Rightarrow> 'p bc_transport \<Rightarrow> ('p bc_transport \<times> int list) option" where
  "transport_close os t = (case (tr_ops t, tr_impl t) of
     (Some Tcp_Ops, No_Impl) \<Rightarrow> Some (t, [])
   | (Some Tcp_Ops, Tcp_Impl s) \<Rightarrow>
       Some (t\<lparr>tr_impl := No_Impl\<rparr>, impl_fds (Tcp_Impl (tcp_close s) :: 'p transport_impl))
   | (Some Uart_Ops, No_Impl) \<Rightarrow> Some (t, [])
   | (Some Uart_Ops, Uart_Impl s) \<Rightarrow>
       Some (t\<lparr>tr_impl := No_Impl\<rparr>, impl_fds (Uart_Impl (uart_close (to_uart os) s) :: 'p transport_impl))
   | (Some Udp_Ops, Udp_Impl s) \<Rightarrow> Some (t\<lparr>tr_impl := Udp_Impl (udp_close s)\<rparr>, [])
   | (Some Kcp_Ops, Kcp_Impl s) \<Rightarrow> Some (t\<lparr>tr_impl := Kcp_Impl (udp_kcp_close s)\<rparr>, [])
   | (Some (Plugin_Ops ops), Plugin_Impl p) \<Rightarrow> Some (case po_close ops of
       None \<Rightarrow> (t\<lparr>tr_impl := Plugin_Impl (if fst p \<ge> 0 then (- 1, snd p) else p)\<rparr>, [])
     | Some f \<Rightarrow> (t\<lparr>tr_impl := Plugin_Impl (f p)\<rparr>, []))
   | _ \<Rightarrow> None)"

section \<open>Well-typed transports\<close>

text \<open>
  The private structure is one the table expects, and it is there unless the operations of the table
  check for it. \<open>ready\<close>: it has been opened and not been closed.
\<close>

definition well_typed :: "'p bc_transport \<Rightarrow> bool" where
  "well_typed t \<longleftrightarrow> (case tr_ops t of
     None \<Rightarrow> False
   | Some Tcp_Ops \<Rightarrow> tr_type t = BC_TRANSPORT_TCP \<and> (tr_impl t = No_Impl \<or> (\<exists>s. tr_impl t = Tcp_Impl s))
   | Some Uart_Ops \<Rightarrow> tr_type t = BC_TRANSPORT_UART \<and> (tr_impl t = No_Impl \<or> (\<exists>s. tr_impl t = Uart_Impl s))
   | Some Udp_Ops \<Rightarrow> tr_type t = BC_TRANSPORT_UDP \<and> (\<exists>s. tr_impl t = Udp_Impl s)
   | Some Kcp_Ops \<Rightarrow> tr_type t = BC_TRANSPORT_UDP_KCP \<and> (\<exists>s. tr_impl t = Kcp_Impl s)
   | Some (Plugin_Ops ops) \<Rightarrow> \<exists>p. tr_impl t = Plugin_Impl p)"

definition ready :: "'p bc_transport \<Rightarrow> bool" where
  "ready t \<longleftrightarrow> well_typed t \<and> (case tr_impl t of
     No_Impl \<Rightarrow> False
   | Udp_Impl s \<Rightarrow> ut_remote s \<noteq> None
   | Kcp_Impl s \<Rightarrow> kt_impl s \<noteq> None
   | _ \<Rightarrow> True)"

text \<open>What no operation changes.\<close>

definition same_entry :: "'p bc_transport \<Rightarrow> 'p bc_transport \<Rightarrow> bool" where
  "same_entry t u \<longleftrightarrow> tr_name u = tr_name t \<and> tr_type u = tr_type t \<and> tr_config u = tr_config t \<and> tr_ops u = tr_ops t"

lemma same_entry_impl [simp]: "same_entry t (t\<lparr>tr_impl := i\<rparr>)" "same_entry t t"
  by (simp_all add: same_entry_def)

lemma same_entry_trans: "same_entry t u \<Longrightarrow> same_entry u v \<Longrightarrow> same_entry t v"
  by (simp add: same_entry_def)

lemma well_typed_cases:
  assumes "well_typed t"
  obtains (Tcp) s where "tr_ops t = Some Tcp_Ops" "tr_type t = BC_TRANSPORT_TCP" "tr_impl t = Tcp_Impl s"
    | (Tcp_Null) "tr_ops t = Some Tcp_Ops" "tr_type t = BC_TRANSPORT_TCP" "tr_impl t = No_Impl"
    | (Uart) s where "tr_ops t = Some Uart_Ops" "tr_type t = BC_TRANSPORT_UART" "tr_impl t = Uart_Impl s"
    | (Uart_Null) "tr_ops t = Some Uart_Ops" "tr_type t = BC_TRANSPORT_UART" "tr_impl t = No_Impl"
    | (Udp) s where "tr_ops t = Some Udp_Ops" "tr_type t = BC_TRANSPORT_UDP" "tr_impl t = Udp_Impl s"
    | (Kcp) s where "tr_ops t = Some Kcp_Ops" "tr_type t = BC_TRANSPORT_UDP_KCP" "tr_impl t = Kcp_Impl s"
    | (Plugin) ops p where "tr_ops t = Some (Plugin_Ops ops)" "tr_impl t = Plugin_Impl p"
  using assms by (auto simp: well_typed_def split: option.splits transport_ops.splits)

lemma init_well_typed: "init_transport os cfg = (BC_OK, t) \<Longrightarrow>
    well_typed t \<and> tr_config t = cfg \<and> tr_type t = tc_type cfg \<and> tr_name t = snprintf_s (zeros 32) (tc_name cfg) \<and>
    (\<forall>ops. tr_ops t \<noteq> Some (Plugin_Ops ops))"
  by (auto simp: init_transport_def blank_transport_def well_typed_def Let_def split: bc_transport_type.splits if_splits)

lemma udp_open_remote: "udp_open os cfg s = (BC_OK, s') \<Longrightarrow> ut_remote s' \<noteq> None"
  by (auto simp: udp_open_def Let_def split: if_splits sum.splits prod.splits)

lemma kcp_open_impl: "udp_kcp_open os cfg s = (BC_OK, s') \<Longrightarrow> kt_impl s' \<noteq> None"
  by (auto simp: udp_kcp_open_def Let_def split: if_splits sum.splits prod.splits option.splits)

lemma open_typed:
  assumes "well_typed t" "\<And>ops. tr_ops t = Some (Plugin_Ops ops) \<Longrightarrow> po_open ops \<noteq> None"
  shows "\<exists>rc u. transport_open os t = Some (rc, u) \<and> well_typed u \<and> same_entry t u \<and> (rc = BC_OK \<longrightarrow> ready u)"
  using assms(1)
proof (cases rule: well_typed_cases)
  case (Udp s)
  then show ?thesis using udp_open_remote
    by (auto simp: transport_open_def well_typed_def ready_def split: prod.splits)
next
  case (Kcp s)
  then show ?thesis using kcp_open_impl
    by (auto simp: transport_open_def well_typed_def ready_def split: prod.splits)
next
  case (Plugin ops p)
  then obtain f where "po_open ops = Some f" using assms(2) by auto
  then show ?thesis using Plugin by (auto simp: transport_open_def well_typed_def ready_def split: prod.splits)
qed (auto simp: transport_open_def well_typed_def ready_def split: prod.splits)

lemma send_typed: "ready t \<Longrightarrow> \<exists>rc u. transport_send os data t = Some (rc, u) \<and> ready u \<and> same_entry t u"
  unfolding ready_def
  by (elim conjE, cases t rule: well_typed_cases)
    (auto simp: transport_send_def well_typed_def split: prod.splits option.splits)

lemma recv_typed: "ready t \<Longrightarrow> \<exists>res u. transport_recv os cap t = Some (res, u) \<and> ready u \<and> same_entry t u"
  unfolding ready_def
  by (elim conjE, cases t rule: well_typed_cases)
    (auto simp: transport_recv_def well_typed_def split: prod.splits option.splits)

lemma event_typed: "ready t \<Longrightarrow> \<exists>u. transport_event os fd events t = Some u \<and> ready u \<and> same_entry t u"
  unfolding ready_def
  by (elim conjE, cases t rule: well_typed_cases)
    (auto simp: transport_event_def well_typed_def split: prod.splits option.splits)

text \<open>Closing releases every descriptor, when the plugin's close does so with its own.\<close>

definition plugin_closes :: "'p bc_transport \<Rightarrow> bool" where
  "plugin_closes t \<longleftrightarrow> (\<forall>ops f p. tr_ops t = Some (Plugin_Ops ops) \<longrightarrow> po_close ops = Some f \<longrightarrow> fst (f p) < 0)"

lemma tcp_close_fds: "impl_fds (Tcp_Impl (tcp_close s)) = []"
  by (simp add: impl_fds_def tcp_close_def Let_def)

lemma uart_close_fds: "impl_fds (Uart_Impl (uart_close os s)) = []"
  by (simp add: impl_fds_def uart_close_def uart_rs485_deinit_def Let_def)

lemma close_releases:
  assumes "well_typed t" "plugin_closes t" "\<And>s. tr_impl t = Kcp_Impl s \<Longrightarrow> kt_impl s \<noteq> None"
  shows "\<exists>u. transport_close os t = Some (u, []) \<and> well_typed u \<and> same_entry t u \<and> impl_fds (tr_impl u) = []"
  using assms(1)
proof (cases rule: well_typed_cases)
  case (Tcp s)
  then show ?thesis using tcp_close_fds by (auto simp: transport_close_def well_typed_def impl_fds_def)
next
  case (Uart s)
  then show ?thesis using uart_close_fds by (auto simp: transport_close_def well_typed_def impl_fds_def)
next
  case (Udp s)
  then show ?thesis by (auto simp: transport_close_def well_typed_def impl_fds_def udp_close_def Let_def)
next
  case (Kcp s)
  then show ?thesis using assms(3)
    by (auto simp: transport_close_def well_typed_def impl_fds_def udp_kcp_close_def)
next
  case (Plugin ops p)
  then show ?thesis using assms(2)
    by (cases p) (auto simp: transport_close_def well_typed_def impl_fds_def plugin_closes_def not_le split: option.split)
qed (auto simp: transport_close_def well_typed_def impl_fds_def)

end
