(* ===== verification/Transport_Manager.thy ===== *)
theory Transport_Manager
  imports Transport_Ops
begin

text \<open>
  \<^verbatim>\<open>src/daemon/transport_manager.c\<close>: the transports of the configuration that could be opened, then
  those of plugins, in an array of eight. The array is the list of its first \<open>count\<close> entries. The
  answers of the operating system for the i-th line of the configuration are \<open>oss i\<close>.
\<close>

section \<open>Plugins\<close>

text \<open>What the initialisation function of a plugin returns and sets: status, name, type, table, private state.\<close>

type_synonym 'p plugin_init =
  "bc_transport_config \<Rightarrow> bc_status \<times> byte list \<times> bc_transport_type \<times> 'p plugin_ops option \<times> int \<times> 'p"

datatype 'p plugin_load = Dlopen_Failed | Dlsym_Failed | Plugin_Init "'p plugin_init"

definition plugin_symbol :: "bc_transport_config \<Rightarrow> byte list" where
  "plugin_symbol cfg =
     str ''bc_'' @ (if tc_type cfg = BC_TRANSPORT_TCP then str ''tcp'' else str ''udp'') @ str ''_transport_init''"

definition load_plugin_transport ::
  "(byte list \<Rightarrow> byte list \<Rightarrow> 'p plugin_load) \<Rightarrow> byte list \<Rightarrow> bc_transport_config \<Rightarrow> 'p bc_transport list \<Rightarrow>
     bc_status \<times> 'p bc_transport list" where
  "load_plugin_transport dl plugin_path cfg ts =
     (if length ts \<ge> BC_MAX_TRANSPORTS then (BC_ERR_NOMEM, ts)
      else case dl plugin_path (plugin_symbol cfg) of
          Dlopen_Failed \<Rightarrow> (BC_ERR_NOT_FOUND, ts)
        | Dlsym_Failed \<Rightarrow> (BC_ERR_NOT_FOUND, ts)
        | Plugin_Init init \<Rightarrow>
            (case init cfg of (rc, name, type, ops, p) \<Rightarrow>
               if rc \<noteq> BC_OK then (BC_ERR, ts)
               else case ops of
                   None \<Rightarrow> (BC_ERR, ts)
                 | Some ops \<Rightarrow>
                     (case po_open ops of
                        None \<Rightarrow> (BC_ERR, ts)
                      | Some open_fn \<Rightarrow>
                          (case open_fn p of (rc, p) \<Rightarrow>
                             if rc \<noteq> BC_OK then (BC_ERR, ts)
                             else (BC_OK, ts @ [\<lparr>tr_name = name, tr_type = type, tr_config = cfg,
                               tr_ops = Some (Plugin_Ops ops), tr_impl = Plugin_Impl p\<rparr>])))))"

section \<open>The manager\<close>

fun init_loop ::
  "(nat \<Rightarrow> transport_os) \<Rightarrow> nat \<Rightarrow> bc_transport_config list \<Rightarrow> 'p bc_transport list \<Rightarrow> 'p bc_transport list option" where
  "init_loop oss i [] ts = Some ts"
| "init_loop oss i (tcfg # tcfgs) ts =
     (if i \<ge> BC_MAX_TRANSPORTS then Some ts
      else case init_transport (oss i) tcfg of (rc, t) \<Rightarrow>
        if rc \<noteq> BC_OK then init_loop oss (Suc i) tcfgs ts
        else case transport_open (oss i) t of
            None \<Rightarrow> None
          | Some (rc, t) \<Rightarrow> init_loop oss (Suc i) tcfgs (if rc = BC_OK then ts @ [t] else ts))"

fun plugin_loop ::
  "(byte list \<Rightarrow> byte list \<Rightarrow> 'p plugin_load) \<Rightarrow> bc_transport_config \<Rightarrow> byte list list \<Rightarrow> 'p bc_transport list \<Rightarrow> 'p bc_transport list" where
  "plugin_loop dl cfg [] ts = ts"
| "plugin_loop dl cfg (path # paths) ts = plugin_loop dl cfg paths (snd (load_plugin_transport dl path cfg ts))"

definition bc_transport_manager_init ::
  "(byte list \<Rightarrow> byte list \<Rightarrow> 'p plugin_load) \<Rightarrow> (nat \<Rightarrow> transport_os) \<Rightarrow> bc_config \<Rightarrow> (bc_status \<times> 'p bc_transport list) option" where
  "bc_transport_manager_init dl oss cfg =
     (case init_loop oss 0 (cf_transports cfg) [] of
        None \<Rightarrow> None
      | Some ts \<Rightarrow>
          let ts = (case cf_transports cfg of [] \<Rightarrow> ts | tcfg # _ \<Rightarrow> plugin_loop dl tcfg (cf_plugins cfg) ts) in
          Some (if length ts > 0 then BC_OK else BC_ERR_NOT_FOUND, ts))"

text \<open>The transports after closing, and the descriptors that were lost.\<close>

fun bc_transport_manager_close ::
  "(nat \<Rightarrow> transport_os) \<Rightarrow> 'p bc_transport list \<Rightarrow> ('p bc_transport list \<times> int list) option" where
  "bc_transport_manager_close oss [] = Some ([], [])"
| "bc_transport_manager_close oss (t # ts) = (case transport_close (oss 0) t of
     None \<Rightarrow> None
   | Some (t, lost) \<Rightarrow> (case bc_transport_manager_close (\<lambda>i. oss (Suc i)) ts of
       None \<Rightarrow> None | Some (ts, lost') \<Rightarrow> Some (t # ts, lost @ lost')))"

definition bc_transport_manager_find :: "'p bc_transport list \<Rightarrow> byte list \<Rightarrow> 'p bc_transport option" where
  "bc_transport_manager_find ts name = find (\<lambda>t. strcmp_eq (tr_name t) name) ts"

section \<open>Which transports there are\<close>

text \<open>Whether the line of the configuration becomes a transport.\<close>

definition opens :: "transport_os \<Rightarrow> bc_transport_config \<Rightarrow> bool" where
  "opens os cfg \<longleftrightarrow> (case init_transport os cfg :: bc_status \<times> unit bc_transport of (rc, t) \<Rightarrow>
     rc = BC_OK \<and> (case transport_open os t of None \<Rightarrow> False | Some (rc, _) \<Rightarrow> rc = BC_OK))"

text \<open>Opening does not depend on what the private states of plugins look like.\<close>

lemma opens_eq:
  assumes "init_transport os cfg = (rc, t :: 'p bc_transport)"
  shows "opens os cfg \<longleftrightarrow> rc = BC_OK \<and> (\<exists>u. transport_open os t = Some (BC_OK, u))"
  using assms
  by (cases "tc_type cfg")
    (auto simp: opens_def init_transport_def transport_open_def blank_transport_def Let_def split: if_splits prod.splits)

definition built_in :: "'p bc_transport \<Rightarrow> bool" where
  "built_in t \<longleftrightarrow> ready t \<and> tr_type t = tc_type (tr_config t) \<and> tr_name t = snprintf_s (zeros 32) (tc_name (tr_config t)) \<and>
     (\<forall>ops. tr_ops t \<noteq> Some (Plugin_Ops ops))"

fun opened_configs :: "(nat \<Rightarrow> transport_os) \<Rightarrow> nat \<Rightarrow> bc_transport_config list \<Rightarrow> bc_transport_config list" where
  "opened_configs oss i [] = []"
| "opened_configs oss i (c # cs) =
     (if i \<ge> BC_MAX_TRANSPORTS then []
      else if opens (oss i) c then c # opened_configs oss (Suc i) cs else opened_configs oss (Suc i) cs)"

lemma opened_configs_length: "length (opened_configs oss i cs) \<le> BC_MAX_TRANSPORTS - i"
proof (induction cs arbitrary: i)
  case (Cons c cs)
  have "length (opened_configs oss (Suc i) cs) \<le> BC_MAX_TRANSPORTS - Suc i" by (rule Cons.IH)
  then show ?case by auto
qed simp

lemma init_loop_spec:
  "\<exists>new. init_loop oss i cs ts = Some (ts @ new) \<and> map tr_config new = opened_configs oss i cs \<and> list_all built_in new"
proof (induction cs arbitrary: i ts)
  case Nil
  then show ?case by simp
next
  case (Cons c cs)
  obtain rc t where t: "init_transport (oss i) c = (rc, t :: 'a bc_transport)" by (meson surj_pair)
  show ?case
  proof (cases "i \<ge> BC_MAX_TRANSPORTS \<or> rc \<noteq> BC_OK")
    case True
    then show ?thesis using Cons.IH [of "Suc i" ts] t opens_eq [OF t] by auto
  next
    case False
    then have i: "i < BC_MAX_TRANSPORTS" "rc = BC_OK" by auto
    have w: "well_typed t" "tr_config t = c" "tr_type t = tc_type c" "tr_name t = snprintf_s (zeros 32) (tc_name c)"
      "\<forall>ops. tr_ops t \<noteq> Some (Plugin_Ops ops)" using init_well_typed t i(2) by auto
    then obtain rc' u where u: "transport_open (oss i) t = Some (rc', u)" "same_entry t u" "rc' = BC_OK \<longrightarrow> ready u"
      using open_typed [of t "oss i"] by blast
    have o: "opens (oss i) c \<longleftrightarrow> rc' = BC_OK" using opens_eq [OF t] i(2) u(1) by auto
    have "rc' = BC_OK \<Longrightarrow> built_in u" "tr_config u = c" using u w by (auto simp: built_in_def same_entry_def)
    moreover obtain new where "init_loop oss (Suc i) cs (if rc' = BC_OK then ts @ [u] else ts) =
        Some ((if rc' = BC_OK then ts @ [u] else ts) @ new)" "map tr_config new = opened_configs oss (Suc i) cs" "list_all built_in new"
      using Cons.IH by blast
    ultimately show ?thesis using t i u(1) o
      by (intro exI [of _ "(if rc' = BC_OK then [u] else []) @ new"]) auto
  qed
qed

definition plugged :: "'p bc_transport \<Rightarrow> bool" where
  "plugged t \<longleftrightarrow> ready t \<and> (\<exists>ops. tr_ops t = Some (Plugin_Ops ops))"

lemma load_plugin_spec:
  "load_plugin_transport dl path cfg ts = (rc, us) \<Longrightarrow> length ts \<le> BC_MAX_TRANSPORTS \<Longrightarrow>
     \<exists>new. us = ts @ new \<and> list_all plugged new \<and> length us \<le> BC_MAX_TRANSPORTS"
  by (auto simp: load_plugin_transport_def plugged_def ready_def well_typed_def
      split: if_splits plugin_load.splits prod.splits option.splits)

lemma plugin_loop_spec:
  "length ts \<le> BC_MAX_TRANSPORTS \<Longrightarrow>
     \<exists>new. plugin_loop dl cfg paths ts = ts @ new \<and> list_all plugged new \<and> length (plugin_loop dl cfg paths ts) \<le> BC_MAX_TRANSPORTS"
proof (induction paths arbitrary: ts)
  case Nil
  then show ?case by simp
next
  case (Cons path paths)
  obtain rc us where l: "load_plugin_transport dl path cfg ts = (rc, us)" by (meson surj_pair)
  then obtain new where "us = ts @ new" "list_all plugged new" "length us \<le> BC_MAX_TRANSPORTS"
    using load_plugin_spec [OF l Cons.prems] by blast
  then show ?case using Cons.IH [of us] l by auto
qed

section \<open>Calls on the transports\<close>

text \<open>The calls the daemon makes on the transports of the array, with the answers for each.\<close>

datatype transport_call = Call_Send "byte list" | Call_Recv nat | Call_Event int u32

fun transport_step :: "transport_os \<Rightarrow> transport_call \<Rightarrow> 'p bc_transport \<Rightarrow> 'p bc_transport option" where
  "transport_step os (Call_Send data) t = map_option snd (transport_send os data t)"
| "transport_step os (Call_Recv cap) t = map_option snd (transport_recv os cap t)"
| "transport_step os (Call_Event fd events) t = transport_event os fd events t"

fun run_calls :: "(nat \<times> transport_os \<times> transport_call) list \<Rightarrow> 'p bc_transport list \<Rightarrow> 'p bc_transport list option" where
  "run_calls [] ts = Some ts"
| "run_calls ((i, os, c) # cs) ts =
     (if i \<ge> length ts then run_calls cs ts
      else case transport_step os c (ts ! i) of None \<Rightarrow> None | Some t \<Rightarrow> run_calls cs (ts[i := t]))"

lemma step_typed: "ready t \<Longrightarrow> \<exists>u. transport_step os c t = Some u \<and> ready u \<and> same_entry t u"
  using send_typed [of t os] recv_typed [of t os] event_typed [of t os] by (cases c) fastforce+

lemma run_calls_typed:
  "list_all ready ts \<Longrightarrow> \<exists>us. run_calls cs ts = Some us \<and> list_all ready us \<and> list_all2 same_entry ts us"
proof (induction cs arbitrary: ts)
  case Nil
  then show ?case by (simp add: list_all2_same)
next
  case (Cons a cs)
  obtain i os c where a: "a = (i, os, c)" by (metis prod_cases3)
  show ?case
  proof (cases "i < length ts")
    case False
    then show ?thesis using Cons a by simp
  next
    case True
    then obtain u where u: "transport_step os c (ts ! i) = Some u" "ready u" "same_entry (ts ! i) u"
      using Cons.prems step_typed by (metis list_all_length)
    have "list_all ready (ts[i := u])" using Cons.prems u(2) set_update_subset_insert [of ts i u] by (auto simp: list_all_iff)
    then obtain us where us: "run_calls cs (ts[i := u]) = Some us" "list_all ready us" "list_all2 same_entry (ts[i := u]) us"
      using Cons.IH by blast
    have "same_entry (ts ! j) (us ! j)" if "j < length ts" for j
    proof -
      have "same_entry (ts[i := u] ! j) (us ! j)" using us(3) that by (simp add: list_all2_conv_all_nth)
      then show ?thesis using u(3) that by (cases "j = i") (auto intro: same_entry_trans)
    qed
    then have "list_all2 same_entry ts us" using us(3) by (auto simp: list_all2_conv_all_nth)
    then show ?thesis using us True u(1) a by simp
  qed
qed

lemma manager_init_core:
  "\<exists>ts ps. bc_transport_manager_init dl oss cfg = Some (if ts @ ps = [] then BC_ERR_NOT_FOUND else BC_OK, ts @ ps) \<and>
     map tr_config ts = opened_configs oss 0 (cf_transports cfg) \<and> list_all built_in ts \<and> list_all plugged ps \<and>
     length (ts @ ps) \<le> BC_MAX_TRANSPORTS"
proof -
  obtain ts where ts: "init_loop oss 0 (cf_transports cfg) [] = Some ts" "map tr_config ts = opened_configs oss 0 (cf_transports cfg)"
    "list_all built_in (ts :: 'a bc_transport list)" using init_loop_spec [of oss 0 _ "[]"] by fastforce
  have "length ts = length (opened_configs oss 0 (cf_transports cfg))" using ts(2) by (metis length_map)
  then have l: "length ts \<le> BC_MAX_TRANSPORTS" using opened_configs_length [of oss 0 "cf_transports cfg"] by simp
  show ?thesis
  proof (cases "cf_transports cfg")
    case Nil
    then show ?thesis using ts l
      by (intro exI [of _ ts] exI [of _ "[]"]) (simp add: bc_transport_manager_init_def)
  next
    case (Cons tcfg tcfgs)
    obtain ps where "plugin_loop dl tcfg (cf_plugins cfg) ts = ts @ ps" "list_all plugged ps" "length (ts @ ps) \<le> BC_MAX_TRANSPORTS"
      using plugin_loop_spec [OF l, of dl tcfg "cf_plugins cfg"] by auto
    then show ?thesis using ts Cons
      by (intro exI [of _ ts] exI [of _ ps]) (simp add: bc_transport_manager_init_def Let_def)
  qed
qed

lemma built_in_ready: "list_all built_in ts \<Longrightarrow> list_all ready ts"
  by (auto simp: list_all_iff built_in_def)

lemma plugged_ready: "list_all plugged ts \<Longrightarrow> list_all ready ts"
  by (auto simp: list_all_iff plugged_def)

text \<open>
  C24. Type safety of the transports. Whatever the configuration, the plugins and the operating system do,
  starting the transports succeeds or fails in a defined way, and no sequence of sends, receives and
  events ever calls an operation on a private structure of another kind, on a missing function,
  or on a null pointer that the operation does not check; every transport stays ready, with the name,
  type, configuration and table it was given.
\<close>
theorem transports_type_safe:
  "\<exists>rc ts us. bc_transport_manager_init dl oss cfg = Some (rc, ts) \<and> run_calls cs ts = Some us \<and>
     list_all ready us \<and> list_all2 same_entry ts us"
proof -
  obtain ts ps where i: "bc_transport_manager_init dl oss cfg = Some (if ts @ ps = [] then BC_ERR_NOT_FOUND else BC_OK, ts @ ps)"
    "list_all built_in ts" "list_all plugged ps" using manager_init_core [of dl oss cfg] by blast
  have "list_all ready (ts @ ps)" using built_in_ready [OF i(2)] plugged_ready [OF i(3)] by simp
  from run_calls_typed [OF this] show ?thesis using i(1) by blast
qed

text \<open>
  C27. The transports of the daemon are those lines of the configuration, in their order, that could be
  initialised and opened, followed by those of plugins, never more than eight; each has the
  name and type of its line; the start succeeds exactly if there is one.
\<close>
theorem manager_init_spec:
  "\<exists>ts ps. bc_transport_manager_init dl oss cfg = Some (if ts @ ps = [] then BC_ERR_NOT_FOUND else BC_OK, ts @ ps) \<and>
     map tr_config ts = opened_configs oss 0 (cf_transports cfg) \<and> length (ts @ ps) \<le> BC_MAX_TRANSPORTS \<and>
     map tr_type ts = map tc_type (opened_configs oss 0 (cf_transports cfg)) \<and>
     map tr_name ts = map (\<lambda>c. snprintf_s (zeros 32) (tc_name c)) (opened_configs oss 0 (cf_transports cfg)) \<and>
     list_all ready (ts @ ps)"
proof -
  obtain ts ps where i: "bc_transport_manager_init dl oss cfg = Some (if ts @ ps = [] then BC_ERR_NOT_FOUND else BC_OK, ts @ ps)"
    "map tr_config ts = opened_configs oss 0 (cf_transports cfg)" "list_all built_in ts" "list_all plugged ps"
    "length (ts @ ps) \<le> BC_MAX_TRANSPORTS" using manager_init_core [of dl oss cfg] by blast
  have "map tr_type ts = map tc_type (map tr_config ts)"
    "map tr_name ts = map (\<lambda>c. snprintf_s (zeros 32) (tc_name c)) (map tr_config ts)"
    using i(3) by (simp_all add: list_all_iff built_in_def)
  moreover have "list_all ready (ts @ ps)" using built_in_ready [OF i(3)] plugged_ready [OF i(4)] by simp
  ultimately show ?thesis using i(1,2,5) by metis
qed

end
