(* ===== verification/Daemon_Start.thy ===== *)
theory Daemon_Start
  imports Transport_Manager Client_Manager
begin

text \<open>
  \<^verbatim>\<open>main\<close> in \<^verbatim>\<open>src/daemon/main.c\<close> and \<^verbatim>\<open>bc_client_manager_init\<close>: starting the daemon, registering its
  descriptors with the reactor, and closing everything on every way out. \<open>main_os\<close> holds what the
  operating system answers, for reactor calls by descriptor.
\<close>

datatype daemon_cb = Cb_Transport nat | Cb_Server | Cb_Client int

type_synonym reactor = "daemon_cb bc_reactor"

record 'p main_os =
  mo_config :: "byte list option option"
  mo_epoll :: int
  mo_dl :: "byte list \<Rightarrow> byte list \<Rightarrow> 'p plugin_load"
  mo_open :: "nat \<Rightarrow> transport_os"
  mo_close :: "nat \<Rightarrow> transport_os"
  mo_socket :: int
  mo_bind :: bool
  mo_listen :: bool
  mo_add :: "int \<Rightarrow> bool \<times> bool"
  mo_mod :: "int \<Rightarrow> bool \<times> bool"

text \<open>\<^verbatim>\<open>g_reactor\<close> is null until the reactor is there.\<close>

definition on_signal :: "reactor option \<Rightarrow> reactor option" where
  "on_signal g_reactor = map_option bc_reactor_stop g_reactor"

section \<open>Registering transports\<close>

definition tcp_watch_fd ::
  "bool \<times> bool \<Rightarrow> bool \<times> bool \<Rightarrow> int \<Rightarrow> u32 \<Rightarrow> 'c \<Rightarrow> 'c bc_reactor \<Rightarrow> bc_status \<times> 'c bc_reactor" where
  "tcp_watch_fd ok_mod ok_add fd events cb reactor =
     (case bc_reactor_mod ok_mod fd events cb reactor of (rc, reactor) \<Rightarrow>
        if rc = BC_OK then (BC_OK, reactor) else bc_reactor_add ok_add fd events cb reactor)"

text \<open>Registering a list of descriptors, each in its own way, until one fails.\<close>

fun watch_list :: "(int \<Rightarrow> u32 \<Rightarrow> 's \<Rightarrow> bc_status \<times> 's) \<Rightarrow> (int \<times> u32) list \<Rightarrow> 's \<Rightarrow> bc_status \<times> 's" where
  "watch_list f [] r = (BC_OK, r)"
| "watch_list f ((fd, events) # fds) r = (case f fd events r of (rc, r) \<Rightarrow>
     if rc \<noteq> BC_OK then (BC_ERR_IO, r) else watch_list f fds r)"

definition tcp_watches :: "tcp_impl \<Rightarrow> (int \<times> u32) list" where
  "tcp_watches s = filter (\<lambda>(fd, events). fd \<ge> 0)
     [(tc_listen_fd s, EPOLLIN), (tc_conn_fd s, tcp_conn_events s), (tc_timer_fd s, EPOLLIN)]"

definition tcp_bind :: "'p main_os \<Rightarrow> 'c \<Rightarrow> tcp_impl \<Rightarrow> 'c bc_reactor \<Rightarrow> bc_status \<times> tcp_impl \<times> 'c bc_reactor" where
  "tcp_bind os cb s reactor =
     (case watch_list (\<lambda>fd events. tcp_watch_fd (mo_mod os fd) (mo_add os fd) fd events cb) (tcp_watches s) reactor of
        (rc, reactor) \<Rightarrow> (rc, s\<lparr>tc_bound := True, tc_events := (if tc_conn_fd s \<ge> 0 then tcp_conn_events s else tc_events s)\<rparr>, reactor))"

definition uart_watches :: "uart_impl \<Rightarrow> (int \<times> u32) list" where
  "uart_watches s = filter (\<lambda>(fd, events). fd \<ge> 0) [(ua_fd s, uart_epoll_events s)]"

definition uart_bind :: "'p main_os \<Rightarrow> 'c \<Rightarrow> uart_impl \<Rightarrow> 'c bc_reactor \<Rightarrow> bc_status \<times> uart_impl \<times> 'c bc_reactor" where
  "uart_bind os cb s reactor =
     (case watch_list (\<lambda>fd events. tcp_watch_fd (mo_mod os fd) (mo_add os fd) fd events cb) (uart_watches s) reactor of
        (rc, reactor) \<Rightarrow>
          let s = s\<lparr>ua_bound := True, ua_events := (if ua_fd s \<ge> 0 then uart_epoll_events s else ua_events s)\<rparr> in
          if rc \<noteq> BC_OK then (BC_ERR_IO, s, reactor)
          else case watch_list (\<lambda>fd events. bc_reactor_add (mo_add os fd) fd events cb)
              (filter (\<lambda>(fd, events). fd \<ge> 0) [(ua_timer_fd s, EPOLLIN)]) reactor of
            (rc, reactor) \<Rightarrow> (rc, s, reactor))"

definition fd_events :: u32 where "fd_events = EPOLLIN OR EPOLLHUP OR EPOLLERR"

text \<open>For the tables without \<^verbatim>\<open>bind_reactor\<close>: the descriptors listed, or else the one of the transport.\<close>

definition register_fds ::
  "'p main_os \<Rightarrow> 'c \<Rightarrow> int \<Rightarrow> bc_status + int list \<Rightarrow> 'c bc_reactor \<Rightarrow> bc_status \<times> 'c bc_reactor" where
  "register_fds os cb transport_fd listed reactor =
     (let add = (\<lambda>fd events. bc_reactor_add (mo_add os fd) fd events cb) in
      case listed of
        Inr (fd # fds) \<Rightarrow> watch_list add (map (\<lambda>fd. (fd, fd_events)) (fd # fds)) reactor
      | _ \<Rightarrow> if transport_fd \<ge> 0 then add transport_fd fd_events reactor else (BC_OK, reactor))"

definition register_transport_fds ::
  "'p main_os \<Rightarrow> 'c \<Rightarrow> 'p bc_transport \<Rightarrow> 'c bc_reactor \<Rightarrow> (bc_status \<times> 'p bc_transport \<times> 'c bc_reactor) option" where
  "register_transport_fds os cb t reactor = (case (tr_ops t, tr_impl t) of
     (Some Tcp_Ops, No_Impl) \<Rightarrow> Some (BC_ERR_INVALID, t, reactor)
   | (Some Tcp_Ops, Tcp_Impl s) \<Rightarrow>
       Some (case tcp_bind os cb s reactor of (rc, s, reactor) \<Rightarrow> (rc, t\<lparr>tr_impl := Tcp_Impl s\<rparr>, reactor))
   | (Some Uart_Ops, No_Impl) \<Rightarrow> Some (BC_ERR_INVALID, t, reactor)
   | (Some Uart_Ops, Uart_Impl s) \<Rightarrow>
       Some (case uart_bind os cb s reactor of (rc, s, reactor) \<Rightarrow> (rc, t\<lparr>tr_impl := Uart_Impl s\<rparr>, reactor))
   | (Some Udp_Ops, Udp_Impl s) \<Rightarrow>
       Some (case register_fds os cb (ut_fd s) (Inl BC_ERR_INVALID) reactor of (rc, reactor) \<Rightarrow> (rc, t, reactor))
   | (Some Kcp_Ops, Kcp_Impl s) \<Rightarrow>
       Some (case register_fds os cb (kt_fd s) (udp_kcp_get_fds s) reactor of (rc, reactor) \<Rightarrow> (rc, t, reactor))
   | (Some (Plugin_Ops ops), Plugin_Impl p) \<Rightarrow> Some (case po_bind ops of
       Some f \<Rightarrow> (case f p of (rc, fds, p) \<Rightarrow>
         (rc, t\<lparr>tr_impl := Plugin_Impl p\<rparr>, snd (watch_list (\<lambda>fd events. bc_reactor_add (mo_add os fd) fd events cb) fds reactor)))
     | None \<Rightarrow>
         (case register_fds os cb (fst p) (case po_get_fds ops of None \<Rightarrow> Inl BC_ERR_INVALID | Some f \<Rightarrow> f p) reactor of
            (rc, reactor) \<Rightarrow> (rc, t, reactor)))
   | _ \<Rightarrow> None)"

text \<open>The loop over the transports; the i-th one is called back with its own context.\<close>

fun register_transports ::
  "'p main_os \<Rightarrow> nat \<Rightarrow> 'p bc_transport list \<Rightarrow> reactor \<Rightarrow> (bc_status \<times> 'p bc_transport list \<times> reactor) option" where
  "register_transports os i [] reactor = Some (BC_OK, [], reactor)"
| "register_transports os i (t # ts) reactor =
     (case register_transport_fds os (Cb_Transport i) t reactor of
        None \<Rightarrow> None
      | Some (rc, t, reactor) \<Rightarrow>
          if rc \<noteq> BC_OK then Some (rc, t # ts, reactor)
          else (case register_transports os (Suc i) ts reactor of
              None \<Rightarrow> None | Some (rc, ts, reactor) \<Rightarrow> Some (rc, t # ts, reactor)))"

section \<open>The local socket\<close>

definition SUN_PATH_LEN :: nat where "SUN_PATH_LEN = 108"

record client_server =
  cs_server_fd :: int
  cs_socket_path :: "byte list"

definition bc_client_manager_init ::
  "'p main_os \<Rightarrow> byte list \<Rightarrow> reactor \<Rightarrow> bc_status \<times> client_server \<times> reactor" where
  "bc_client_manager_init os socket_path reactor =
     (let m = \<lparr>cs_server_fd = - 1, cs_socket_path = snprintf_s (zeros 128) socket_path\<rparr>; m = m\<lparr>cs_server_fd := mo_socket os\<rparr> in
      if cs_server_fd m < 0 then (BC_ERR_IO, m, reactor)
      else if length (cstr (cs_socket_path m)) \<ge> SUN_PATH_LEN then (BC_ERR_INVALID, m\<lparr>cs_server_fd := - 1\<rparr>, reactor)
      else if \<not> mo_bind os \<or> \<not> mo_listen os then (BC_ERR_IO, m\<lparr>cs_server_fd := - 1\<rparr>, reactor)
      else (case bc_reactor_add (mo_add os (cs_server_fd m)) (cs_server_fd m) EPOLLIN Cb_Server reactor of
        (rc, reactor) \<Rightarrow> (rc, m, reactor)))"

text \<open>The end of \<^verbatim>\<open>bc_client_manager_close\<close>, after the clients.\<close>

definition close_server :: "client_server \<Rightarrow> reactor \<Rightarrow> client_server \<times> reactor" where
  "close_server m reactor =
     (if cs_server_fd m \<ge> 0 then (m\<lparr>cs_server_fd := - 1\<rparr>, bc_reactor_del (cs_server_fd m) reactor) else (m, reactor))"

section \<open>The program\<close>

text \<open>
  What running the reactor leaves behind: the calls it made on the transports, the clients
  there are, the bus, and the registrations. A world of the client manager is the reactor
  with the descriptors of its clients and of their shared-memory sessions that are open; \<open>dr_shm\<close>
  says which one a client's session has, and \<open>dr_lost\<close> lists those of sessions that a second request
  of a client has overwritten (\<^verbatim>\<open>setup_client_shm\<close>), which no client has any more.
\<close>

record daemon_run =
  dr_calls :: "(nat \<times> transport_os \<times> transport_call) list"
  dr_clients :: "bc_client_ctx list"
  dr_shm :: "int \<Rightarrow> int"
  dr_lost :: "int list"
  dr_bus :: bc_message_bus
  dr_events :: "daemon_cb reactor_event list"
  dr_kernel :: "int \<Rightarrow> (nat \<times> u32) option"

type_synonym daemon_world = "reactor \<times> int list"

definition closing_sys :: "(int \<Rightarrow> int) \<Rightarrow> daemon_world sys \<Rightarrow> daemon_world sys" where
  "closing_sys shm sys = sys\<lparr>sy_del := (\<lambda>fd (r, fds). (bc_reactor_del fd r, fds)),
     sy_close := (\<lambda>fd (r, fds). (r, removeAll fd fds)),
     sy_shm_close := (\<lambda>fd (r, fds). (r, removeAll (shm fd) fds))\<rparr>"

definition client_fds :: "(int \<Rightarrow> int) \<Rightarrow> bc_client_ctx \<Rightarrow> int list" where
  "client_fds shm c = cl_fd c # (if cl_shm c = None then [] else [shm (cl_fd c)])"

text \<open>How the program ends, with the descriptors it has not closed.\<close>

record ended =
  en_success :: bool
  en_open :: "int list"

definition reactor_fds :: "reactor \<Rightarrow> int list" where
  "reactor_fds reactor = filter (\<lambda>fd. fd \<ge> 0) [re_epoll_fd reactor]"

text \<open>Closing the transports, then the reactor; \<open>fds\<close> are the descriptors left open before.\<close>

definition close_rest :: "'p main_os \<Rightarrow> bool \<Rightarrow> int list \<Rightarrow> 'p bc_transport list \<Rightarrow> reactor \<Rightarrow> ended option" where
  "close_rest os success fds ts reactor =
     (case bc_transport_manager_close (mo_close os) ts of
        None \<Rightarrow> None
      | Some (ts, lost) \<Rightarrow>
          Some \<lparr>en_success = success,
            en_open = fds @ concat (map (\<lambda>t. impl_fds (tr_impl t)) ts) @ lost @ reactor_fds (bc_reactor_close reactor)\<rparr>)"

definition close_all ::
  "'p main_os \<Rightarrow> (int \<Rightarrow> int) \<Rightarrow> daemon_world sys \<Rightarrow> bool \<Rightarrow> client_server \<Rightarrow> bc_message_bus \<Rightarrow> daemon_world bc_client_manager \<Rightarrow>
     'p bc_transport list \<Rightarrow> ended option" where
  "close_all os shm sys success m bus cm ts =
     (case bc_client_manager_close (closing_sys shm sys) (bus, cm) of (bus, cm) \<Rightarrow>
        case mg_ext cm of (reactor, fds) \<Rightarrow>
          case close_server m reactor of (m, reactor) \<Rightarrow>
            close_rest os success (fds @ filter (\<lambda>fd. fd \<ge> 0) [cs_server_fd m]) ts reactor)"

definition start_bus :: "bc_config \<Rightarrow> bc_message_bus" where
  "start_bus config =
     bc_message_bus_configure bc_message_bus_init (cf_node_id config) (cf_require_route config) (cf_bridge_broadcast config)"

definition client_manager ::
  "bc_config \<Rightarrow> (int \<Rightarrow> int) \<Rightarrow> int list \<Rightarrow> bc_client_ctx list \<Rightarrow> reactor \<Rightarrow> daemon_world bc_client_manager" where
  "client_manager config shm lost clients reactor =
     \<lparr>mg_clients = clients, mg_socket_uid = cf_socket_uid config, mg_fault = False,
      mg_ext = (reactor, concat (map (client_fds shm) clients) @ lost)\<rparr>"

definition main :: "'p main_os \<Rightarrow> daemon_world sys \<Rightarrow> daemon_run \<Rightarrow> ended option" where
  "main os sys run =
     (case bc_config_load (mo_config os) of (rc, config) \<Rightarrow>
      if rc \<noteq> BC_OK then Some \<lparr>en_success = False, en_open = []\<rparr>
      else case bc_reactor_init (mo_epoll os) of (rc, reactor) \<Rightarrow>
      if rc \<noteq> BC_OK then Some \<lparr>en_success = False, en_open = reactor_fds reactor\<rparr>
      else case bc_transport_manager_init (mo_dl os) (mo_open os) config of
        None \<Rightarrow> None
      | Some (rc, ts) \<Rightarrow>
        if rc \<noteq> BC_OK
        then Some \<lparr>en_success = False, en_open = concat (map (\<lambda>t. impl_fds (tr_impl t)) ts) @ reactor_fds (bc_reactor_close reactor)\<rparr>
        else case bc_client_manager_init os (cf_socket_path config) reactor of (rc, m, reactor) \<Rightarrow>
        if rc \<noteq> BC_OK then close_rest os False (filter (\<lambda>fd. fd \<ge> 0) [cs_server_fd m]) ts reactor
        else case register_transports os 0 ts reactor of
          None \<Rightarrow> None
        | Some (rc, ts, reactor) \<Rightarrow>
          if rc \<noteq> BC_OK then close_all os (dr_shm run) sys False m (start_bus config) (client_manager config (dr_shm run) [] [] reactor) ts
          else case run_calls (dr_calls run) ts of
            None \<Rightarrow> None
          | Some ts \<Rightarrow>
              close_all os (dr_shm run) sys True m (dr_bus run)
                (client_manager config (dr_shm run) (dr_lost run) (dr_clients run) (reactor\<lparr>re_events := dr_events run, re_kernel := dr_kernel run\<rparr>)) ts)"

section \<open>Nothing is left open\<close>

lemma register_typed:
  "ready t \<Longrightarrow> \<exists>rc u r. register_transport_fds os cb t reactor = Some (rc, u, r) \<and> ready u \<and> same_entry t u"
  unfolding ready_def
  by (elim conjE, cases t rule: well_typed_cases)
    (auto simp: register_transport_fds_def well_typed_def split: prod.splits option.splits)

lemma register_transports_typed:
  "list_all ready ts \<Longrightarrow>
     \<exists>rc us r. register_transports os i ts reactor = Some (rc, us, r) \<and> list_all ready us \<and> list_all2 same_entry ts us"
proof (induction ts arbitrary: i reactor)
  case Nil
  then show ?case by simp
next
  case (Cons t ts)
  then obtain rc u r where u: "register_transport_fds os (Cb_Transport i) t reactor = Some (rc, u, r)" "ready u" "same_entry t u"
    using register_typed [of t os] by fastforce
  obtain rc' us r' where us: "register_transports os (Suc i) ts r = Some (rc', us, r')" "list_all ready us" "list_all2 same_entry ts us"
    using Cons by fastforce
  have "list_all2 same_entry ts ts" by (simp add: list_all2_same)
  then show ?case using u us Cons.prems by (cases "rc = BC_OK") auto
qed

text \<open>A plugin whose close releases its descriptor; \<open>plugin_closes\<close> says so of a transport.\<close>

definition plugins_close :: "(byte list \<Rightarrow> byte list \<Rightarrow> 'p plugin_load) \<Rightarrow> bool" where
  "plugins_close dl \<longleftrightarrow> (\<forall>path symbol init cfg rc name type ops p f q. dl path symbol = Plugin_Init init \<longrightarrow>
     init cfg = (rc, name, type, Some ops, p) \<longrightarrow> po_close ops = Some f \<longrightarrow> fst (f q) < 0)"

lemma load_plugin_closes:
  assumes "plugins_close dl" "load_plugin_transport dl path cfg ts = (rc, us)" "list_all plugin_closes ts"
  shows "list_all plugin_closes us"
proof -
  have "us = ts \<or> (\<exists>t. us = ts @ [t] \<and> plugin_closes t)"
  proof (cases "dl path (plugin_symbol cfg)")
    case (Plugin_Init init)
      obtain rc1 name type opt p where i: "init cfg = (rc1, name, type, opt, p)" by (metis prod_cases5)
    show ?thesis
    proof (cases opt)
      case None
      then show ?thesis using assms(2) Plugin_Init i by (auto simp: load_plugin_transport_def split: if_splits)
    next
      case (Some ops)
      have "\<And>f q. po_close ops = Some f \<Longrightarrow> fst (f q) < 0"
        using assms(1) Plugin_Init i Some unfolding plugins_close_def by blast
      then have "plugin_closes t" if "tr_ops t = Some (Plugin_Ops ops)" for t
        using that by (simp add: plugin_closes_def)
      then show ?thesis using assms(2) Plugin_Init i Some
        by (auto simp: load_plugin_transport_def split: if_splits option.splits prod.splits)
    qed
  qed (use assms(2) in \<open>auto simp: load_plugin_transport_def split: if_splits\<close>)
  then show ?thesis using assms(3) by auto
qed

lemma plugin_loop_closes:
  "plugins_close dl \<Longrightarrow> list_all plugin_closes ts \<Longrightarrow> list_all plugin_closes (plugin_loop dl cfg paths ts)"
proof (induction paths arbitrary: ts)
  case (Cons path paths)
  obtain rc us where l: "load_plugin_transport dl path cfg ts = (rc, us)" by (meson surj_pair)
  then show ?case using Cons load_plugin_closes [OF Cons.prems(1) l] by simp
qed simp

lemma built_in_closes: "list_all built_in ts \<Longrightarrow> list_all plugin_closes ts"
  by (auto simp: list_all_iff built_in_def plugin_closes_def)

text \<open>What the manager holds after starting: ready, and closing for good.\<close>

lemma manager_init_closes:
  assumes "plugins_close dl"
  shows "\<exists>ts. bc_transport_manager_init dl oss cfg = Some (if ts = [] then BC_ERR_NOT_FOUND else BC_OK, ts) \<and>
    list_all ready ts \<and> list_all plugin_closes ts"
proof -
  obtain us ps where i: "bc_transport_manager_init dl oss cfg = Some (if us @ ps = [] then BC_ERR_NOT_FOUND else BC_OK, us @ ps)"
    "list_all built_in us" "list_all plugged ps" using manager_init_core [of dl oss cfg] by blast
  have r: "list_all ready (us @ ps)" using built_in_ready [OF i(2)] plugged_ready [OF i(3)] by simp
  obtain ts where ts: "init_loop oss 0 (cf_transports cfg) [] = Some ts" "list_all built_in (ts :: 'a bc_transport list)"
    using init_loop_spec [of oss 0 _ "[]"] by fastforce
  have "us @ ps = (case cf_transports cfg of [] \<Rightarrow> ts | c # _ \<Rightarrow> plugin_loop dl c (cf_plugins cfg) ts)"
    using i(1) ts(1) by (auto simp: bc_transport_manager_init_def Let_def)
  then have "list_all plugin_closes (us @ ps)"
    using plugin_loop_closes [OF assms] built_in_closes [OF ts(2)] by (auto split: list.splits)
  then show ?thesis using i(1) r by blast
qed

lemma same_closes: "list_all2 same_entry ts us \<Longrightarrow> list_all plugin_closes ts \<Longrightarrow> list_all plugin_closes us"
  by (induction rule: list_all2_induct) (auto simp: same_entry_def plugin_closes_def)

lemma manager_close_releases:
  "list_all ready ts \<Longrightarrow> list_all plugin_closes ts \<Longrightarrow>
     \<exists>us. bc_transport_manager_close oss ts = Some (us, []) \<and> concat (map (\<lambda>t. impl_fds (tr_impl t)) us) = []"
proof (induction ts arbitrary: oss)
  case (Cons t ts)
  have "well_typed t" "plugin_closes t" "\<And>s. tr_impl t = Kcp_Impl s \<Longrightarrow> kt_impl s \<noteq> None"
    using Cons.prems by (auto simp: ready_def split: transport_impl.splits)
  then obtain u where "transport_close (oss 0) t = Some (u, [])" "impl_fds (tr_impl u) = []"
    using close_releases by blast
  then show ?case using Cons.IH [of "\<lambda>i. oss (Suc i)"] Cons.prems by auto
qed simp

lemma reactor_closed [simp]: "reactor_fds (bc_reactor_close reactor) = []"
  by (simp add: reactor_fds_def bc_reactor_close_def Let_def)

lemma close_rest_open:
  assumes "list_all ready ts" "list_all plugin_closes ts"
  shows "close_rest os success fds ts reactor = Some \<lparr>en_success = success, en_open = fds\<rparr>"
proof -
  obtain us where "bc_transport_manager_close (mo_close os) ts = Some (us, [])" "concat (map (\<lambda>t. impl_fds (tr_impl t)) us) = []"
    using manager_close_releases [OF assms] by blast
  then show ?thesis by (simp only: close_rest_def option.case prod.case reactor_closed append_Nil append_Nil2)
qed

text \<open>Closing the clients closes their descriptors and no other.\<close>

definition held_by :: "(int \<Rightarrow> int) \<Rightarrow> bc_client_ctx list \<Rightarrow> int set" where
  "held_by shm cs = (\<Union>c \<in> set cs. set (client_fds shm c))"

lemma held_by_simps [simp]: "held_by shm [] = {}" "held_by shm (c # cs) = set (client_fds shm c) \<union> held_by shm cs"
  by (simp_all add: held_by_def)

lemma close_clients_open:
  "length (mg_clients m) \<le> n \<Longrightarrow>
     snd (mg_ext (snd (close_clients (closing_sys shm sys) n (bus, m)))) =
       filter (\<lambda>fd. fd \<notin> held_by shm (mg_clients m)) (snd (mg_ext m))"
proof (induction n arbitrary: bus m)
  case 0
  then show ?case by simp
next
  case (Suc n)
  show ?case
  proof (cases "mg_clients m")
    case Nil
    then show ?thesis by simp
  next
    case (Cons c cs)
    obtain r fds where x: "mg_ext m = (r, fds)" by (meson surj_pair)
    define fds' where "fds' = filter (\<lambda>fd. fd \<notin> set (client_fds shm c)) fds"
    define m' where "m' = m\<lparr>mg_clients := cs, mg_ext := (bc_reactor_del (cl_fd c) r, fds')\<rparr>"
    have "fds' = removeAll (cl_fd c) (if cl_shm c = None then fds else removeAll (shm (cl_fd c)) fds)"
      by (auto simp: fds'_def client_fds_def removeAll_filter_not_eq intro!: filter_cong)
    then have "close_client (closing_sys shm sys) (cl_fd c) (bus, m) = (bc_message_bus_remove_client bus (cl_fd c), m')"
      by (cases "cl_shm c") (simp_all add: close_client_def closing_sys_def m'_def Cons x Let_def find_client_def)
    moreover have "length (mg_clients m') \<le> n" using Suc.prems Cons by (simp add: m'_def)
    moreover have "snd (mg_ext m') = filter (\<lambda>fd. fd \<notin> set (client_fds shm c)) fds" "mg_clients m' = cs"
      by (simp_all add: m'_def fds'_def)
    ultimately show ?thesis using Suc.IH [of m'] Cons x by (simp add: conj_ac)
  qed
qed

lemma close_all_open:
  assumes "list_all ready ts" "list_all plugin_closes ts" "set lost \<inter> held_by shm clients = {}"
  shows "close_all os shm sys success m bus (client_manager config shm lost clients reactor) ts =
    Some \<lparr>en_success = success, en_open = lost\<rparr>"
proof -
  let ?cm = "client_manager config shm lost clients reactor"
  have "snd (mg_ext (snd (bc_client_manager_close (closing_sys shm sys) (bus, ?cm)))) =
      filter (\<lambda>fd. fd \<notin> held_by shm (mg_clients ?cm)) (snd (mg_ext ?cm))"
    unfolding bc_client_manager_close_def by (rule close_clients_open) simp
  also have "\<dots> = filter (\<lambda>fd. fd \<notin> held_by shm clients) lost"
    by (auto simp: client_manager_def held_by_def filter_empty_conv)
  also have "\<dots> = lost" using assms(3) by (auto simp: filter_id_conv)
  finally show ?thesis
    by (auto simp: close_all_def close_rest_open [OF assms(1,2)] close_server_def split: prod.splits)
qed

lemma fresh_add: "bc_reactor_init n = (BC_OK, r) \<Longrightarrow> bc_reactor_add ok fd e cb r = (rc, r') \<Longrightarrow> rc \<noteq> BC_OK \<Longrightarrow> ok \<noteq> (True, True)"
  by (auto simp: bc_reactor_init_def bc_reactor_add_def Let_def split: if_splits)

lemma manager_init_fds:
  assumes "bc_client_manager_init os path reactor = (rc, m, r)" "rc \<noteq> BC_OK"
  shows "filter (\<lambda>fd. fd \<ge> 0) [cs_server_fd m] = [] \<or> filter (\<lambda>fd. fd \<ge> 0) [cs_server_fd m] = [mo_socket os] \<and>
    (\<exists>r'. bc_reactor_add (mo_add os (mo_socket os)) (mo_socket os) EPOLLIN Cb_Server reactor = (rc, r'))"
  using assms by (auto simp: bc_client_manager_init_def Let_def split: if_splits prod.splits)

end
