(* ===== verification/Daemon_Ready.thy ===== *)
theory Daemon_Ready
  imports Daemon_Start
begin

text \<open>
  What the daemon can do once it has started: it hears of everything that happens on its descriptors,
  and it can route every message its configuration speaks of.
\<close>

section \<open>Registering\<close>

lemma tcp_watch_registry: "tcp_watch_fd ok1 ok2 fd e cb r = registry.watch ok1 ok2 fd e cb r"
  by (simp add: tcp_watch_fd_def registry.watch_def)

text \<open>A way of registering that leaves an entry when it succeeds.\<close>

definition registers :: "'c \<Rightarrow> (int \<Rightarrow> u32 \<Rightarrow> 'c bc_reactor \<Rightarrow> bc_status \<times> 'c bc_reactor) \<Rightarrow> bool" where
  "registers cb f \<longleftrightarrow> (\<forall>fd e r r'. reactor_wf r \<longrightarrow> f fd e r = (BC_OK, r') \<longrightarrow>
     reactor_wf r' \<and> reactor_entry r' = (reactor_entry r)(fd \<mapsto> (cb, e)))"

lemma watch_registers: "registers cb (\<lambda>fd e. tcp_watch_fd (ok1 fd) (ok2 fd) fd e cb)"
  unfolding registers_def tcp_watch_registry using registry.watch_law by fastforce

lemma add_registers: "registers cb (\<lambda>fd e. bc_reactor_add (ok fd) fd e cb)"
  unfolding registers_def using registry.add_law by fastforce

definition tagged :: "'c \<Rightarrow> (int \<times> u32) list \<Rightarrow> (int \<times> 'c \<times> u32) list" where
  "tagged cb fds = map (\<lambda>(fd, e). (fd, cb, e)) fds"

lemma tagged_simps [simp]: "tagged cb [] = []" "tagged cb ((fd, e) # fds) = (fd, cb, e) # tagged cb fds"
  "tagged cb (xs @ ys) = tagged cb xs @ tagged cb ys"
  by (simp_all add: tagged_def)

text \<open>The entries after registering a list, the later ones taking precedence.\<close>

definition extended :: "'c bc_reactor \<Rightarrow> (int \<times> 'c \<times> u32) list \<Rightarrow> 'c bc_reactor \<Rightarrow> bool" where
  "extended r fds r' \<longleftrightarrow> reactor_wf r' \<and> reactor_entry r' = reactor_entry r ++ map_of (rev fds)"

lemma extended_nil [simp]: "extended r [] r' \<longleftrightarrow> reactor_wf r' \<and> reactor_entry r' = reactor_entry r"
  by (simp add: extended_def)

lemma extended_append: "extended r xs r1 \<Longrightarrow> extended r1 ys r2 \<Longrightarrow> extended r (xs @ ys) r2"
  by (simp add: extended_def map_of_append)

lemma extended_one: "registers cb f \<Longrightarrow> reactor_wf r \<Longrightarrow> f fd e r = (BC_OK, r') \<Longrightarrow> extended r [(fd, cb, e)] r'"
  by (simp add: registers_def extended_def)

lemma add_extends: "reactor_wf r \<Longrightarrow> bc_reactor_add ok fd e cb r = (BC_OK, r') \<Longrightarrow> extended r [(fd, cb, e)] r'"
  using registry.add_law [of r ok fd e cb BC_OK r'] by (simp add: extended_def)

lemma watch_list_extends:
  assumes f: "registers cb f"
  shows "reactor_wf r \<Longrightarrow> watch_list f fds r = (BC_OK, r') \<Longrightarrow> extended r (tagged cb fds) r'"
proof (induction fds arbitrary: r)
  case Nil
  then show ?case by simp
next
  case (Cons a fds)
  obtain fd e where a: "a = (fd, e)" by (meson surj_pair)
  obtain rc r1 where s: "f fd e r = (rc, r1)" by (meson surj_pair)
  then have ok: "rc = BC_OK" "watch_list f fds r1 = (BC_OK, r')" using Cons.prems(2) a by (auto split: if_splits)
  have e1: "extended r [(fd, cb, e)] r1" using extended_one [OF f Cons.prems(1)] s ok(1) by simp
  then have "reactor_wf r1" by (simp add: extended_def)
  from extended_append [OF e1 Cons.IH [OF this ok(2)]] show ?case by (simp add: a)
qed

text \<open>
  What the daemon has to wait for on the descriptors of a transport, from the transport's own fields: for
  input on what accepts connections and on timers, for input, errors and the end on what carries data, and there
  for output too as long as a connection is being made or bytes wait to be sent.
\<close>

definition data_events :: "bool \<Rightarrow> u32" where
  "data_events out = (if out then (EPOLLIN OR EPOLLHUP OR EPOLLERR) OR EPOLLOUT else EPOLLIN OR EPOLLHUP OR EPOLLERR)"

definition watched :: "'p bc_transport \<Rightarrow> (int \<times> u32) list" where
  "watched t = filter (\<lambda>(fd, events). fd \<ge> 0) (case tr_impl t of
     Tcp_Impl s \<Rightarrow> [(tc_listen_fd s, EPOLLIN),
       (tc_conn_fd s, data_events (tc_connecting s \<or> drop (tc_send_off s) (tc_send_buf s) \<noteq> [])), (tc_timer_fd s, EPOLLIN)]
   | Uart_Impl s \<Rightarrow> [(ua_fd s, data_events (drop (ua_send_off s) (ua_send_buf s) \<noteq> [])), (ua_timer_fd s, EPOLLIN)]
   | Udp_Impl s \<Rightarrow> [(ut_fd s, data_events False)]
   | Kcp_Impl s \<Rightarrow> (kt_fd s, data_events False) #
       (case kt_impl s of None \<Rightarrow> [] | Some impl \<Rightarrow> [(ki_timer_fd impl, data_events False)])
   | _ \<Rightarrow> [])"

text \<open>The one descriptor nothing has to be heard of: the GPIO pin that switches an RS-485 line.\<close>

definition written_only :: "'p bc_transport \<Rightarrow> int list" where
  "written_only t = filter (\<lambda>fd. fd \<ge> 0) (case tr_impl t of Uart_Impl s \<Rightarrow> [ua_de_value_fd s] | _ \<Rightarrow> [])"

lemma watched_all: "built_in t \<Longrightarrow> impl_fds (tr_impl t) = map fst (watched t) @ written_only t"
proof -
  assume b: "built_in t"
  then have "well_typed t" by (simp add: built_in_def ready_def)
  then show ?thesis
    by (cases rule: well_typed_cases)
      (use b in \<open>auto simp: impl_fds_def watched_def written_only_def built_in_def split: option.splits\<close>)
qed

lemma fd_events_data: "fd_events = data_events False"
  by (simp add: fd_events_def data_events_def)

lemma tcp_watches_watched: "tr_impl t = Tcp_Impl s \<Longrightarrow> tcp_watches s = watched t"
  by (simp add: tcp_watches_def watched_def tcp_conn_events_def data_events_def Let_def)

lemma uart_watches_watched:
  "tr_impl t = Uart_Impl s \<Longrightarrow> uart_watches s @ filter (\<lambda>(fd, events). fd \<ge> 0) [(ua_timer_fd s, EPOLLIN)] = watched t"
  by (simp add: uart_watches_def watched_def uart_epoll_events_def data_events_def Let_def)

lemma register_fds_extends:
  assumes "reactor_wf r" "register_fds os cb fd listed r = (BC_OK, r')"
  shows "extended r (tagged cb (case listed of Inr (fd1 # fds) \<Rightarrow> map (\<lambda>fd. (fd, fd_events)) (fd1 # fds)
    | _ \<Rightarrow> filter (\<lambda>(fd, events). fd \<ge> 0) [(fd, fd_events)])) r'"
proof -
  have one: "extended r (tagged cb (filter (\<lambda>(fd, events). fd \<ge> 0) [(fd, fd_events)])) r'"
    if "(if fd \<ge> 0 then bc_reactor_add (mo_add os fd) fd fd_events cb r else (BC_OK, r)) = (BC_OK, r')"
    using that add_extends [OF assms(1)] assms(1) by (auto split: if_splits)
  show ?thesis
  proof (cases listed)
    case (Inl rc)
    then show ?thesis using one assms(2) by (simp add: register_fds_def)
  next
    case (Inr fds)
    then show ?thesis
      using one assms(2) watch_list_extends [OF add_registers [of cb "mo_add os"] assms(1), of "map (\<lambda>fd. (fd, fd_events)) fds" r']
      by (cases fds) (simp_all add: register_fds_def)
  qed
qed

lemma tcp_bind_extends:
  assumes "reactor_wf r" "tcp_bind os cb s r = (BC_OK, s', r')"
  shows "extended r (tagged cb (tcp_watches s)) r'"
  using watch_list_extends [OF watch_registers assms(1)] assms(2) by (auto simp: tcp_bind_def split: prod.splits)

lemma uart_bind_extends:
  assumes "reactor_wf r" "uart_bind os cb s r = (BC_OK, s', r')"
  shows "extended r (tagged cb (uart_watches s @ filter (\<lambda>(fd, events). fd \<ge> 0) [(ua_timer_fd s, EPOLLIN)])) r'"
proof -
  let ?w = "watch_list (\<lambda>fd events. tcp_watch_fd (mo_mod os fd) (mo_add os fd) fd events cb) (uart_watches s) r"
  let ?t = "filter (\<lambda>(fd, events). fd \<ge> 0) [(ua_timer_fd s, EPOLLIN)]"
  obtain rc r1 where w: "?w = (rc, r1)" by (meson surj_pair)
  have ok: "rc = BC_OK" "watch_list (\<lambda>fd events. bc_reactor_add (mo_add os fd) fd events cb) ?t r1 = (BC_OK, r')"
    using assms(2) w by (auto simp: uart_bind_def Let_def simp del: filter.simps split: if_splits prod.splits)
  have e1: "extended r (tagged cb (uart_watches s)) r1"
    by (rule watch_list_extends [OF watch_registers assms(1)]) (use w ok(1) in simp)
  then have "reactor_wf r1" by (simp add: extended_def)
  from extended_append [OF e1 watch_list_extends [OF add_registers this ok(2)]] show ?thesis by (simp del: filter.simps)
qed

lemma register_extends:
  assumes t: "built_in t" and r: "reactor_wf r" and reg: "register_transport_fds os cb t r = Some (BC_OK, u, r')"
  shows "extended r (tagged cb (watched t)) r'"
proof -
  have "well_typed t" using t by (simp add: built_in_def ready_def)
  then show ?thesis
  proof (cases rule: well_typed_cases)
    case (Tcp s)
    then show ?thesis using tcp_bind_extends [OF r] reg
      by (auto simp: register_transport_fds_def tcp_watches_watched [of t s, symmetric] split: prod.splits)
  next
    case (Uart s)
    then show ?thesis using uart_bind_extends [OF r] reg
      by (auto simp: register_transport_fds_def uart_watches_watched [of t s, symmetric] simp del: filter.simps split: prod.splits)
  next
    case (Udp s)
    then show ?thesis using register_fds_extends [OF r, of os cb "ut_fd s" "Inl BC_ERR_INVALID" r'] reg
      by (auto simp: register_transport_fds_def watched_def fd_events_data simp del: filter.simps split: prod.splits)
  next
    case (Kcp s)
    then obtain impl where impl: "kt_impl s = Some impl" using t by (auto simp: built_in_def ready_def)
    show ?thesis using register_fds_extends [OF r, of os cb "kt_fd s" "udp_kcp_get_fds s" r'] reg Kcp impl
      by (auto simp: register_transport_fds_def watched_def fd_events_data udp_kcp_get_fds_def split: prod.splits if_splits)
  qed (use t reg in \<open>auto simp: built_in_def ready_def register_transport_fds_def\<close>)
qed

fun registrations :: "nat \<Rightarrow> 'p bc_transport list \<Rightarrow> (int \<times> daemon_cb \<times> u32) list" where
  "registrations i [] = []"
| "registrations i (t # ts) = tagged (Cb_Transport i) (watched t) @ registrations (Suc i) ts"

lemma register_transports_extends:
  "list_all built_in ts \<Longrightarrow> reactor_wf r \<Longrightarrow> register_transports os i ts r = Some (BC_OK, us, r') \<Longrightarrow>
     extended r (registrations i ts) r'"
proof (induction ts arbitrary: i r us)
  case Nil
  then show ?case by simp
next
  case (Cons t ts)
  obtain rc u r1 where u: "register_transport_fds os (Cb_Transport i) t r = Some (rc, u, r1)"
    using Cons.prems(3) by (auto split: option.splits)
  then have ok: "rc = BC_OK" "\<exists>vs. register_transports os (Suc i) ts r1 = Some (BC_OK, vs, r')"
    using Cons.prems(3) by (auto split: option.splits if_splits)
  have e1: "extended r (tagged (Cb_Transport i) (watched t)) r1"
    by (rule register_extends [of t r os _ u]) (use Cons.prems(1,2) u ok(1) in simp_all)
  then have "extended r1 (registrations (Suc i) ts) r'" using Cons ok(2) by (auto simp: extended_def)
  from extended_append [OF e1 this] show ?case by simp
qed

lemma registrations_nth: "i < length ts \<Longrightarrow> (fd, e) \<in> set (watched (ts ! i)) \<Longrightarrow> (fd, Cb_Transport (k + i), e) \<in> set (registrations k ts)"
proof (induction ts arbitrary: i k)
  case (Cons t ts)
  then show ?case
  proof (cases i)
    case 0
    then show ?thesis using Cons.prems by (force simp: tagged_def)
  next
    case (Suc j)
    then show ?thesis using Cons.IH [of j "Suc k"] Cons.prems by simp
  qed
qed simp

lemma extended_entry:
  assumes "extended r fds r'" "distinct (map fst fds)"
  shows "(fd, c) \<in> set fds \<Longrightarrow> reactor_entry r' fd = Some c"
    and "fd \<notin> fst ` set fds \<Longrightarrow> reactor_entry r' fd = reactor_entry r fd"
proof -
  have d: "distinct (map fst (rev fds))" using assms(2) by (metis distinct_rev rev_map)
  show "reactor_entry r' fd = Some c" if "(fd, c) \<in> set fds"
    using assms(1) map_of_is_SomeI [OF d, of fd c] that by (simp add: extended_def map_add_Some_iff)
  show "reactor_entry r' fd = reactor_entry r fd" if "fd \<notin> fst ` set fds"
  proof -
    have "map_of (rev fds) fd = None" using that by (simp add: map_of_eq_None_iff)
    then show ?thesis using assms(1) by (simp add: extended_def map_add_def)
  qed
qed

lemma reactor_init_wf: "bc_reactor_init n = (rc, r) \<Longrightarrow> reactor_wf r"
  by (auto simp: bc_reactor_init_def reactor_wf_def find_event_def)

text \<open>
  C26. Once a daemon without plugins has started, it hears of everything: for every descriptor a transport
  has, but the GPIO pin of a serial line, the reactor has an entry with the callback context of
  that transport and the events to wait for (a listening socket and timers for input; data descriptors
  for input, errors and the end, and for output too while connecting or with bytes to send), and it has one for the local
  socket, as long as the descriptors the system gave out differ.
\<close>
theorem daemon_listens:
  assumes "bc_reactor_init epoll_fd = (BC_OK, r0)" "bc_transport_manager_init dl oss config = Some (BC_OK, ts)" "cf_plugins config = []"
    and "bc_client_manager_init os path r0 = (BC_OK, m, r1)" "register_transports os 0 ts r1 = Some (BC_OK, us, r2)"
    and "distinct (cs_server_fd m # map fst (registrations 0 ts))"
  shows "reactor_entry r2 (cs_server_fd m) = Some (Cb_Server, EPOLLIN) \<and>
    (\<forall>i < length ts. impl_fds (tr_impl (ts ! i)) = map fst (watched (ts ! i)) @ written_only (ts ! i) \<and>
      (\<forall>(fd, e) \<in> set (watched (ts ! i)). reactor_entry r2 fd = Some (Cb_Transport i, e)))"
proof -
  obtain ts' where "init_loop oss 0 (cf_transports config) [] = Some ts'" "list_all built_in (ts' :: 'a bc_transport list)"
    using init_loop_spec [of oss 0 _ "[]"] by fastforce
  then have b: "list_all built_in ts" using assms(2,3)
    by (auto simp: bc_transport_manager_init_def Let_def split: list.splits if_splits)
  have wf0: "reactor_wf r0" by (rule reactor_init_wf [OF assms(1)])
  have "bc_reactor_add (mo_add os (cs_server_fd m)) (cs_server_fd m) EPOLLIN Cb_Server r0 = (BC_OK, r1)"
    using assms(4) by (auto simp: bc_client_manager_init_def Let_def split: if_splits prod.splits)
  from add_extends [OF wf0 this] have e1: "extended r0 [(cs_server_fd m, Cb_Server, EPOLLIN)] r1" .
  then have "reactor_wf r1" by (simp add: extended_def)
  from register_transports_extends [OF b this assms(5)] have e2: "extended r1 (registrations 0 ts) r2" .
  have "reactor_entry r2 fd = Some (Cb_Transport i, e)" if "i < length ts" "(fd, e) \<in> set (watched (ts ! i))" for i fd e
    using extended_entry(1) [OF e2] registrations_nth [OF that, of 0] assms(6) by simp
  moreover have "reactor_entry r1 (cs_server_fd m) = Some (Cb_Server, EPOLLIN)" using e1 by (simp add: extended_def)
  moreover have "impl_fds (tr_impl (ts ! i)) = map fst (watched (ts ! i)) @ written_only (ts ! i)" if "i < length ts" for i
    by (rule watched_all) (use b that in \<open>simp add: list_all_length\<close>)
  moreover have "cs_server_fd m \<notin> fst ` set (registrations 0 ts)" using assms(6) by simp
  ultimately show ?thesis using extended_entry(2) [OF e2] assms(6) by auto
qed

section \<open>Routing\<close>

text \<open>The router keeps the configuration and looks at the names of the transports there are.\<close>

definition bc_router_init :: "bc_config \<Rightarrow> 'p bc_transport list \<Rightarrow> bc_config \<times> byte list list" where
  "bc_router_init config transports = (config, map tr_name transports)"

lemma opened_configs_all:
  "\<forall>j < length cs. opens (oss (i + j)) (cs ! j) \<Longrightarrow> i + length cs \<le> BC_MAX_TRANSPORTS \<Longrightarrow> opened_configs oss i cs = cs"
proof (induction cs arbitrary: i)
  case (Cons c cs)
  have "opens (oss i) c" using Cons.prems(1) by force
  moreover have "\<forall>j < length cs. opens (oss (Suc i + j)) (cs ! j)" using Cons.prems(1) by force
  ultimately show ?case using Cons.IH [of "Suc i"] Cons.prems(2) by simp
qed simp

lemma transport_name: "transport_fits c \<Longrightarrow> cstr (snprintf_s (zeros 32) (tc_name c)) = cstr (tc_name c)"
proof -
  assume "transport_fits c"
  then have "length (cstr (tc_name c)) \<le> 31"
    using length_takeWhile_le [of "\<lambda>b. b \<noteq> 0" "tc_name c"] by (simp add: transport_fits_def cstr_def)
  then show ?thesis by (simp add: cstr_snprintf_s zeros_def)
qed

text \<open>
  C19. When every line of a configuration that was loaded could be opened, the daemon starts, and
  routing a message fails for two reasons only: it names a channel that is not configured, or it
  names none and no route accepts its topic. In particular, the names by which the
  router finds the transports are not damaged by the copies on the way.
\<close>
theorem routes_after_start:
  assumes "bc_config_load f = (BC_OK, config)"
    and "\<forall>i < length (cf_transports config). opens (oss i) (cf_transports config ! i)"
    and "bc_transport_manager_init dl oss config = Some (rc, ts)" "bc_router_init config ts = (cfg, names)"
  shows "rc = BC_OK \<and> (bc_router_route cfg names msg = Inl BC_ERR_NOT_FOUND \<longleftrightarrow>
    (if cstr (m_channel msg) \<noteq> []
     then \<forall>c \<in> set (cf_channels config). cstr (ch_name c) \<noteq> cstr (m_channel msg)
     else \<forall>r \<in> set (cf_routes config). \<not> bc_topic_matches (rt_topic r) (m_topic msg)))"
proof -
  have v: "bc_config_validate config = BC_OK"
    using assms(1) by (auto simp: bc_config_load_def split: option.splits)
  have fits: "config_fits config" using config_load_fits [of f] assms(1) by simp
  then have "opened_configs oss 0 (cf_transports config) = cf_transports config"
    using opened_configs_all [of "cf_transports config" oss 0] assms(2) by (simp add: config_fits_def)
  then obtain us ps where i: "bc_transport_manager_init dl oss config = Some (if us @ ps = [] then BC_ERR_NOT_FOUND else BC_OK, us @ ps)"
    "map tr_config us = cf_transports config" "list_all built_in us" using manager_init_core [of dl oss config] by metis
  have "cf_transports config \<noteq> []" using v by (auto simp: bc_config_validate_def split: if_splits)
  then have "us \<noteq> []" using i(2) by auto
  have n: "cfg = config" "names = map tr_name (us @ ps)" using assms(3,4) i(1) by (auto simp: bc_router_init_def)
  have "names_cover config names"
    unfolding names_cover_def
  proof
    fix c assume c: "c \<in> set (cf_transports config)"
    then obtain u where u: "u \<in> set us" "tr_config u = c" using i(2) by (metis in_set_conv_nth length_map nth_map)
    then have "tr_name u = snprintf_s (zeros 32) (tc_name c)" using i(3) by (auto simp: list_all_iff built_in_def)
    moreover have "transport_fits c" using fits c by (simp add: config_fits_def)
    moreover have "tr_name u \<in> set names" using u(1) n(2) by auto
    ultimately show "\<exists>n \<in> set names. cstr n = cstr (tc_name c)" using transport_name [of c] by auto
  qed
  from router_total_cover [OF v this] show ?thesis using i(1) assms(3) \<open>us \<noteq> []\<close> n(1) by simp
qed

section \<open>The end\<close>

text \<open>
  C25. Every way out of the program closes what it opened, with two exceptions. Whatever the configuration file, the
  operating system and the plugins answer, and whatever happens while the reactor runs, the program ends in a
  defined way, and at its end every descriptor of the reactor, the transports, the local socket, the
  clients and their shared memory has been closed, provided that plugins close their own. The exceptions: after a run, the
  descriptors of sessions that were overwritten because a client asked for shared memory a second time are left open
  (\<open>second_shm_lost\<close>); and when the local socket cannot be registered with the reactor, it is left open.
  (No two open descriptors have the same number.)
\<close>
theorem main_closes_all:
  assumes "plugins_close (mo_dl os)" "set (dr_lost run) \<inter> held_by (dr_shm run) (dr_clients run) = {}"
  shows "\<exists>e. main os sys run = Some e \<and>
    (if en_success e then en_open e = dr_lost run
     else en_open e = [] \<or> en_open e = [mo_socket os] \<and> mo_add os (mo_socket os) \<noteq> (True, True))"
proof -
  obtain rc config where config: "bc_config_load (mo_config os) = (rc, config)" by (meson surj_pair)
  obtain rc1 reactor where r: "bc_reactor_init (mo_epoll os) = (rc1, reactor :: reactor)" by (meson surj_pair)
  obtain ts where ts: "bc_transport_manager_init (mo_dl os) (mo_open os) config =
      Some (if ts = [] then BC_ERR_NOT_FOUND else BC_OK, ts)" "list_all ready ts" "list_all plugin_closes ts"
    using manager_init_closes [OF assms(1)] by blast
  obtain rc2 m r2 where m: "bc_client_manager_init os (cf_socket_path config) reactor = (rc2, m, r2)" by (metis prod_cases3)
  obtain rc3 us r3 where us: "register_transports os 0 ts r2 = Some (rc3, us, r3)" "list_all ready us" "list_all2 same_entry ts us"
    using register_transports_typed [OF ts(2)] by blast
  have pus: "list_all plugin_closes us" by (rule same_closes [OF us(3) ts(3)])
  obtain vs where vs: "run_calls (dr_calls run) us = Some vs" "list_all ready vs" "list_all2 same_entry us vs"
    using run_calls_typed [OF us(2)] by blast
  have pvs: "list_all plugin_closes vs" by (rule same_closes [OF vs(3) pus])
  note steps = main_def config r ts(1) m us(1) vs(1)
  consider "rc \<noteq> BC_OK" | "rc = BC_OK" "rc1 \<noteq> BC_OK" | "rc = BC_OK" "rc1 = BC_OK" "ts = []"
    | "rc = BC_OK" "rc1 = BC_OK" "ts \<noteq> []" "rc2 \<noteq> BC_OK" | "rc = BC_OK" "rc1 = BC_OK" "ts \<noteq> []" "rc2 = BC_OK" by blast
  then show ?thesis
  proof cases
    case 2
    then have "reactor_fds reactor = []" using r by (auto simp: bc_reactor_init_def reactor_fds_def split: if_splits)
    then show ?thesis using 2 by (simp add: steps)
  next
    case 4
    then have "main os sys run = Some \<lparr>en_success = False, en_open = filter (\<lambda>fd. fd \<ge> 0) [cs_server_fd m]\<rparr>"
      by (simp add: steps close_rest_open [OF ts(2,3)])
    then show ?thesis using manager_init_fds [OF m 4(4)] fresh_add [of "mo_epoll os" reactor] r 4(2,4) by fastforce
  next
    case 5
    then show ?thesis
      using assms(2) by (simp add: steps close_all_open [OF us(2) pus] close_all_open [OF vs(2) pvs])
  qed (simp_all add: steps)
qed

section \<open>A start\<close>

definition start_os :: transport_os where
  "start_os =
     \<lparr>to_calloc = True, to_tcp = calm_os, to_uart = calm_uart,
      to_udp = \<lparr>ud_calloc = True, ud_socket = 8, ud_bind = (\<lambda>_. True), ud_pton = (\<lambda>_. Some 1)\<rparr>,
      to_kcp = \<lparr>ko_calloc = True, ko_socket = 9, ko_bind = (\<lambda>_. True), ko_pton = (\<lambda>_. Some 1), ko_timerfd = 10,
        ko_settime = True, ko_malloc = (True, True)\<rparr>,
      to_sends = [], to_read = sock_read.Would_Block, to_datagrams = [], to_accepts = [], to_tcp_ticks = [], to_uart_ticks = [],
      to_kcp_ticks = [], to_now = 0\<rparr>"

definition start_main :: "unit main_os" where
  "start_main =
     \<lparr>mo_config = None, mo_epoll = 3, mo_dl = (\<lambda>_ _. Dlopen_Failed), mo_open = (\<lambda>_. start_os), mo_close = (\<lambda>_. start_os),
      mo_socket = 4, mo_bind = True, mo_listen = True, mo_add = (\<lambda>_. (True, True)), mo_mod = (\<lambda>_. (True, True))\<rparr>"

definition started :: "unit bc_transport list" where
  "started = snd (the (bc_transport_manager_init (mo_dl start_main) (mo_open start_main) bc_config_load_defaults))"

definition start_facts :: "unit bc_transport list \<Rightarrow> bool" where
  "start_facts ts \<longleftrightarrow> map watched ts = [[(8, fd_events)]] \<and>
     map fst (registrations 0 ts) = [8]"

lemma start_manager:
  "bc_transport_manager_init (mo_dl start_main) (mo_open start_main) bc_config_load_defaults = Some (BC_OK, started)"
proof -
  have "map_option fst (bc_transport_manager_init (mo_dl start_main) (mo_open start_main) bc_config_load_defaults) = Some BC_OK"
    by code_simp
  then show ?thesis by (auto simp: started_def)
qed

lemma start_facts: "start_facts started"
  by code_simp

lemma start_opens: "opens start_os (cf_transports bc_config_load_defaults ! 0)"
  by code_simp

lemma start_config: "bc_config_load None = (BC_OK, bc_config_load_defaults)" "length (cf_transports bc_config_load_defaults) = 1"
  by code_simp+

lemma routes_after_start_witness:
  "bc_router_route bc_config_load_defaults (map tr_name started)
     (empty_message\<lparr>m_channel := snprintf_s (zeros 32) (str ''ctl'')\<rparr>) = Inl BC_ERR_NOT_FOUND"
proof -
  have "\<forall>i < length (cf_transports bc_config_load_defaults). opens (mo_open start_main i) (cf_transports bc_config_load_defaults ! i)"
    using start_opens start_config(2) by (simp add: start_main_def)
  from routes_after_start [OF start_config(1) this start_manager bc_router_init_def, THEN conjunct2]
  show ?thesis by (simp add: bc_config_load_defaults_def cstring_simps str_def)
qed

definition start_reactor :: reactor where "start_reactor = snd (bc_reactor_init 3)"

definition start_server :: "bc_status \<times> client_server \<times> reactor" where
  "start_server = bc_client_manager_init start_main (cf_socket_path bc_config_load_defaults) start_reactor"

definition start_registered :: "(bc_status \<times> unit bc_transport list \<times> reactor) option" where
  "start_registered = register_transports start_main 0 started (snd (snd start_server))"

lemma start_server_ok: "fst start_server = BC_OK \<and> cs_server_fd (fst (snd start_server)) = 4"
  by code_simp

lemma start_registered_ok: "map_option fst start_registered = Some BC_OK"
  by code_simp

lemma daemon_listens_witness:
  "reactor_entry (snd (snd (the start_registered))) 8 = Some (Cb_Transport 0, fd_events)"
proof -
  obtain m r1 where s: "start_server = (BC_OK, m, r1)" "cs_server_fd m = 4"
    using start_server_ok by (metis prod.collapse)
  obtain us r2 where r: "start_registered = Some (BC_OK, us, r2)" using start_registered_ok by auto
  have c: "bc_reactor_init 3 = (BC_OK, start_reactor)" by (simp add: start_reactor_def bc_reactor_init_def)
  have p: "cf_plugins bc_config_load_defaults = []" by (simp add: bc_config_load_defaults_def)
  obtain t where t: "started = [t]" "watched t = [(8, fd_events)]"
    using start_facts by (auto simp: start_facts_def)
  have w: "length started = 1" "watched (started ! 0) = [(8, fd_events)]" unfolding t(1) using t(2) by simp_all
  have "map fst (registrations 0 started) = [8]" using start_facts by (simp add: start_facts_def)
  then have d: "distinct (cs_server_fd m # map fst (registrations 0 started))" using s(2) by simp
  have "register_transports start_main 0 started r1 = Some (BC_OK, us, r2)" using r unfolding start_registered_def s(1) by simp
  from daemon_listens [OF c start_manager p s(1) [unfolded start_server_def] this d]
  have e: "\<forall>(fd, e) \<in> set (watched (started ! 0)). reactor_entry r2 fd = Some (Cb_Transport 0, e)" using w(1) by simp
  show ?thesis using e unfolding r w(2) by simp
qed

definition idle_run :: daemon_run where
  "idle_run = \<lparr>dr_calls = [(0, start_os, Call_Send [1]), (0, start_os, Call_Recv 10)],
     dr_clients = [new_client 12, (new_client 13)\<lparr>cl_shm := Some (init_ring [] 0, init_ring [] 0)\<rparr>], dr_shm = (\<lambda>_. 14),
     dr_lost = [15],
     dr_bus = bc_message_bus_init, dr_events = [], dr_kernel = (\<lambda>_. None)\<rparr>"

definition idle_sys :: "daemon_world sys" where
  "idle_sys =
     \<lparr>sy_config = bc_config_load_defaults, sy_names = [], sy_send = (\<lambda>_. None), sy_add = (\<lambda>_ x. (BC_OK, x)),
      sy_mod = (\<lambda>_ _ x. (BC_OK, x)), sy_del = (\<lambda>_ x. x), sy_close = (\<lambda>_ x. x), sy_shm = (\<lambda>x. (None, x)),
      sy_send_fd = (\<lambda>_ x. (BC_OK, x)),
      sy_shm_close = (\<lambda>_ x. x)\<rparr>"

lemma main_success: "map_option en_success (main start_main idle_sys idle_run) = Some True"
  by code_simp

lemma main_closes_all_witness:
  "main start_main idle_sys idle_run = Some \<lparr>en_success = True, en_open = [15]\<rparr>"
proof -
  have "plugins_close (mo_dl start_main)" by (simp add: plugins_close_def start_main_def)
  moreover have "set (dr_lost idle_run) \<inter> held_by (dr_shm idle_run) (dr_clients idle_run) = {}"
    by (simp add: idle_run_def client_fds_def new_client_def)
  ultimately obtain e where e: "main start_main idle_sys idle_run = Some e" "en_success e \<longrightarrow> en_open e = [15]"
    using main_closes_all [of start_main idle_run idle_sys] by (auto simp: idle_run_def)
  then show ?thesis using main_success by (cases e) simp
qed

end
