(* ===== verification/Daemon_World.thy ===== *)
theory Daemon_World
  imports Client_Stream
begin

text \<open>
  What the client manager keeps of the rest of the daemon. The functions of \<open>sys\<close> are the only ways
  it acts on the world; a property of the world and of the descriptors of the clients that each of
  these functions keeps is kept by every event of the local socket and of the clients, and so is the
  reassembly table of the bus.
\<close>

definition client_fd_list :: "'x bc_client_manager \<Rightarrow> int list" where
  "client_fd_list m = map cl_fd (mg_clients m)"

lemma update_client_fds [simp]: "(\<And>c. cl_fd (f c) = cl_fd c) \<Longrightarrow> map cl_fd (update_client fd f cs) = map cl_fd cs"
  by (induction cs) auto

lemma unlink_client_fds: "map cl_fd (unlink_client fd cs) = remove1 fd (map cl_fd cs)"
  by (induction cs) auto

lemma client_fd_list_simps [simp]:
  "client_fd_list (m\<lparr>mg_ext := x\<rparr>) = client_fd_list m" "client_fd_list (m\<lparr>mg_fault := b\<rparr>) = client_fd_list m"
  "client_fd_list (m\<lparr>mg_clients := link_client (new_client fd) (mg_clients m)\<rparr>) = fd # client_fd_list m"
  "client_fd_list (m\<lparr>mg_clients := unlink_client fd (mg_clients m)\<rparr>) = remove1 fd (client_fd_list m)"
  by (simp_all add: client_fd_list_def unlink_client_fds link_client_def new_client_def)

lemma set_client_fds [simp]: "(\<And>c. cl_fd (f c) = cl_fd c) \<Longrightarrow> client_fd_list (set_client fd f m) = client_fd_list m"
  by (simp add: client_fd_list_def set_client_def)

lemma set_client_ext [simp]: "mg_ext (set_client fd f m) = mg_ext m"
  by (simp add: set_client_def)

lemma find_client_mem: "find_client (mg_clients m) fd = Some c \<Longrightarrow> cl_fd c = fd \<and> fd \<in> set (client_fd_list m)"
  by (auto simp: find_client_def find_Some_iff client_fd_list_def)

lemma tx_flush_fd: "cl_fd (fst (snd (tx_flush rs c))) = cl_fd c"
proof (induction rs arbitrary: c)
  case Nil
  then show ?case by (subst tx_flush.simps) simp
next
  case (Cons r rs)
  show ?case
  proof (cases r)
    case (Done n)
    then show ?thesis
      using Cons [of "c\<lparr>cl_tx_off := (if drop n (cl_tx c) = [] then 0 else cl_tx_off c + n), cl_tx := drop n (cl_tx c)\<rparr>"]
      by (subst tx_flush.simps) (simp add: Let_def case_prod_beta)
  qed (subst tx_flush.simps; simp)+
qed

locale world_keeper =
  fixes sys :: "'x sys" and P :: "int list \<Rightarrow> 'x \<Rightarrow> bool"
  assumes P_send: "sy_send sys i = Some f \<Longrightarrow> P fds x \<Longrightarrow> P fds (snd (f frame x))"
    and P_add: "P fds x \<Longrightarrow> sy_add sys fd x = (rc, x') \<Longrightarrow> P (if rc = BC_OK then fd # fds else fds) x'"
    and P_mod: "P fds x \<Longrightarrow> fd \<in> set fds \<Longrightarrow> P fds (snd (sy_mod sys fd out x))"
    and P_del: "P fds x \<Longrightarrow> P (remove1 fd fds) (sy_del sys fd x)"
    and P_close: "P fds x \<Longrightarrow> P fds (sy_close sys fd x)"
    and P_shm: "P fds x \<Longrightarrow> P fds (snd (sy_shm sys x))"
    and P_send_fd: "P fds x \<Longrightarrow> P fds (snd (sy_send_fd sys fd x))"
    and P_shm_close: "P fds x \<Longrightarrow> P fds (sy_shm_close sys fd x)"
begin

definition holds_in :: "'x bc_client_manager \<Rightarrow> bool" where
  "holds_in m \<longleftrightarrow> P (client_fd_list m) (mg_ext m)"

definition keeps :: "'x bc_client_manager \<Rightarrow> 'x bc_client_manager \<Rightarrow> bool" where
  "keeps m m' \<longleftrightarrow> (holds_in m \<longrightarrow> holds_in m')"

lemma holds_set_client [simp]: "(\<And>c. cl_fd (f c) = cl_fd c) \<Longrightarrow> holds_in (set_client fd f m) = holds_in m"
  by (simp add: holds_in_def)

lemma holds_fault [simp]: "holds_in (m\<lparr>mg_fault := b\<rparr>) = holds_in m"
  by (simp add: holds_in_def)

lemma holds_ext: "holds_in (m\<lparr>mg_ext := x\<rparr>) = P (client_fd_list m) x"
  by (simp add: holds_in_def)

lemma events_P: "holds_in m \<Longrightarrow> cl_fd c \<in> set (client_fd_list m) \<Longrightarrow>
    P (client_fd_list m) (snd (update_client_events sys c (mg_ext m)))"
  by (simp add: update_client_events_def holds_in_def P_mod)

lemma tx_enqueue_fd: "cl_fd (snd (tx_enqueue c data)) = cl_fd c"
  by (simp add: tx_enqueue_def Let_def)

lemma update_to_same:
  "find_client cs fd = Some c \<Longrightarrow> cl_fd c' = cl_fd c \<Longrightarrow> map cl_fd (update_client fd (\<lambda>_. c') cs) = map cl_fd cs"
  by (induction cs) (auto split: if_splits)

lemma replace_client_fds:
  "find_client (mg_clients m) fd = Some c \<Longrightarrow> cl_fd c' = fd \<Longrightarrow> client_fd_list (set_client fd (\<lambda>_. c') m) = client_fd_list m"
  using update_to_same [of "mg_clients m" fd c c'] find_client_mem [of m fd c]
  by (simp add: client_fd_list_def set_client_def)

lemma enqueue_keeps: "holds_in m \<Longrightarrow> holds_in (snd (enqueue_client_tx sys fd data m))"
proof (cases "find_client (mg_clients m) fd")
  case None
  then show "holds_in m \<Longrightarrow> ?thesis" by (simp add: enqueue_client_tx_def)
next
  case (Some c)
  assume h: "holds_in m"
  obtain rc c' where e: "tx_enqueue c data = (rc, c')" by (meson surj_pair)
  have fd: "cl_fd c' = fd" "fd \<in> set (client_fd_list m)"
    using tx_enqueue_fd [of c data] e find_client_mem [OF Some] by auto
  have l: "client_fd_list (set_client fd (\<lambda>_. c') m) = client_fd_list m" by (rule replace_client_fds [OF Some fd(1)])
  have s: "holds_in (set_client fd (\<lambda>_. c') m)" using h l by (simp add: holds_in_def)
  have "P (client_fd_list m) (snd (update_client_events sys c' (mg_ext m)))" using events_P [OF h] fd by simp
  then show ?thesis
    using Some e s l by (simp add: enqueue_client_tx_def Let_def case_prod_beta holds_ext)
qed

lemma deliver_keeps: "holds_in m \<Longrightarrow> holds_in (snd (deliver_to_client sys fd data m))"
  by (auto simp: deliver_to_client_def Let_def enqueue_keeps split: option.split prod.split)

lemma keeps_bus: "bus_world (daemon_env sys) keeps"
proof
  fix i g and frame :: "byte list" and w :: "'x bc_client_manager"
  assume g: "env_send (daemon_env sys) i = Some g"
  show "keeps w (snd (g frame w))"
    using g P_send [of i _ "client_fd_list w" "mg_ext w" frame]
    by (auto simp: daemon_env_def keeps_def holds_in_def split: prod.splits)
qed (auto simp: keeps_def daemon_env_def deliver_keeps)

end

sublocale world_keeper \<subseteq> bw: bus_world "daemon_env sys" keeps
  by (rule keeps_bus)

context world_keeper
begin

text \<open>The state of bus and clients; \<open>R\<close> is the reassembly table.\<close>

definition good :: "bc_reasm \<Rightarrow> 'x daemon \<Rightarrow> bool" where
  "good R st \<longleftrightarrow> bus_reasm (fst st) = R \<and> holds_in (snd st)"

lemma close_client_good: "good R st \<Longrightarrow> good R (close_client sys fd st)"
proof -
  assume g: "good R st"
  obtain bus m where st: "st = (bus, m)" by (meson surj_pair)
  define x where "x = sy_del sys fd (mg_ext m)"
  have "P (remove1 fd (client_fd_list m)) x" using g P_del by (simp add: good_def holds_in_def st x_def)
  then show ?thesis
    using g by (simp add: st good_def close_client_def remove_client_filter Let_def holds_in_def x_def [symmetric]
        client_fd_list_def unlink_client_fds P_close P_shm_close split: option.split)
qed

lemma stats_good: "good R st \<Longrightarrow> good R (snd (send_stats_reply sys fd st))"
proof -
  assume g: "good R st"
  obtain bus m where st: "st = (bus, m)" by (meson surj_pair)
  define s where "s = stats_bytes (bus_stats bus)"
  define h where "h = put_ipc_header (empty_ipc_header\<lparr>ih_magic := BC_IPC_MAGIC, ih_version := BC_IPC_VERSION,
           ih_type := ipc_code BC_IPC_STATS, ih_payload_len := of_nat (length s)\<rparr>)"
  obtain r1 m1 where a: "enqueue_client_tx sys fd h m = (r1, m1)" by (meson surj_pair)
  obtain r2 m2 where b: "enqueue_client_tx sys fd s m1 = (r2, m2)" by (meson surj_pair)
  have "holds_in m1" using enqueue_keeps [of m fd h] a g by (simp add: good_def st)
  moreover from this have "holds_in m2" using enqueue_keeps [of m1 fd s] b by simp
  ultimately show ?thesis
    using g unfolding send_stats_reply_def st s_def [symmetric] Let_def case_prod_conv h_def [symmetric] a b
    by (simp add: good_def)
qed

lemma setup_shm_holds: "holds_in m \<Longrightarrow> holds_in (snd (setup_client_shm sys fd m))"
proof -
  assume h: "holds_in m"
  obtain mem x where a: "sy_shm sys (mg_ext m) = (mem, x)" by (meson surj_pair)
  obtain rc y where b: "sy_send_fd sys fd x = (rc, y)" by (meson surj_pair)
  have "P (client_fd_list m) x" using h P_shm [of "client_fd_list m" "mg_ext m"] a by (simp add: holds_in_def)
  moreover from this have "P (client_fd_list m) y" using P_send_fd [of "client_fd_list m" x fd] b by simp
  ultimately show ?thesis
    by (auto simp: setup_client_shm_def a b Let_def holds_ext P_shm_close split: option.split)
qed

lemma publish_good:
  "good R st \<Longrightarrow> good R (snd (bc_message_bus_publish (daemon_env sys) fd msg st))"
proof -
  assume g: "good R st"
  obtain bus m where st: "st = (bus, m)" by (meson surj_pair)
  obtain rc bus' m' where p: "bc_message_bus_publish (daemon_env sys) fd msg (bus, m) = (rc, bus', m')"
    by (metis prod_cases3)
  from bw.publish_R [OF p] show ?thesis
    using g by (simp add: st p good_def keeps_def same_but_stats_fields stamp_keeps)
qed

lemma subscribe_reasm: "bus_reasm (fst (bc_message_bus_subscribe bus fd t)) = bus_reasm bus"
  by (simp add: bc_message_bus_subscribe_def)

lemma payload_good: "good R st \<Longrightarrow> good R (snd (process_ipc_payload sys fd h c t p st))"
proof -
  assume g: "good R st"
  obtain bus m where st: "st = (bus, m)" by (meson surj_pair)
  have "good R (fst (bc_message_bus_subscribe bus fd t), m)" "good R (bus, snd (setup_client_shm sys fd m))"
    using g by (simp_all add: good_def st subscribe_reasm setup_shm_holds)
  then show ?thesis
    using g publish_good [OF g] stats_good [OF g]
    by (auto simp: process_ipc_payload_def st split: prod.split)
qed

lemma frame_good: "good R st \<Longrightarrow> good R (snd (process_frame_buffer sys fd data st))"
  by (simp add: process_frame_buffer_def Let_def payload_good)

lemma one_message_good: "good R st \<Longrightarrow> good R (snd (snd (process_one_message sys fd rx st)))"
  using frame_good [of R st fd] by (simp add: process_one_message_def Let_def case_prod_beta)

lemma messages_good: "good R st \<Longrightarrow> good R (snd (snd (process_messages sys fd rx st)))"
proof (induction "length rx" arbitrary: rx st rule: less_induct)
  case less
  obtain rc rx' st' where o: "process_one_message sys fd rx st = (rc, rx', st')" by (metis prod_cases3)
  have g: "good R st'" using one_message_good [OF less.prems, of fd rx] o by simp
  show ?case
    using g less.hyps [OF _ g, of rx'] process_one_shorter [of sys fd rx st rx' st'] o
    by (subst process_messages.simps) simp
qed

lemma run_messages_good: "good R st \<Longrightarrow> good R (snd (run_messages sys fd st))"
  using messages_good [of R st fd "client_rx (snd st) fd"]
  by (auto simp: run_messages_def good_def split: prod.split)

lemma good_fault: "good R (bus, m\<lparr>mg_fault := b\<rparr>) = good R (bus, m)"
  by (simp add: good_def)

lemma good_set_client: "(\<And>c. cl_fd (f c) = cl_fd c) \<Longrightarrow> good R (bus, set_client fd f m) = good R (bus, m)"
  by (simp add: good_def)

lemma resume_one_good: "good R st \<Longrightarrow> good R (resume_one sys fd st)"
proof -
  assume g: "good R st"
  obtain rc st' where r: "run_messages sys fd st = (rc, st')" by (meson surj_pair)
  have g': "good R st'" using run_messages_good [OF g, of fd] r by simp
  have "good R (case close_client sys fd st' of (bus, m) \<Rightarrow> (bus, m\<lparr>mg_fault := True\<rparr>))"
    using close_client_good [OF g', of fd] by (cases "close_client sys fd st'") (simp add: good_fault)
  then show ?thesis using g g' by (simp add: resume_one_def r)
qed

lemma resume_good: "good R st \<Longrightarrow> good R (resume_pending_publishers sys st)"
proof -
  have "good R st \<Longrightarrow> good R (foldl (\<lambda>st fd. resume_one sys fd st) st fds)" for fds
    by (induction fds arbitrary: st) (simp_all add: resume_one_good)
  then show "good R st \<Longrightarrow> ?thesis" by (simp add: resume_pending_publishers_def)
qed

lemma drain_loop_good: "good R st \<Longrightarrow> drain_loop sys fd fuel st = Some (rc, st') \<Longrightarrow> good R st'"
proof (induction fuel arbitrary: st)
  case (Suc fuel)
  obtain bus m where st: "st = (bus, m)" by (meson surj_pair)
  show ?case
  proof (cases "client_ring m fd")
    case None
    then show ?thesis using Suc.prems by (simp add: st)
  next
    case ring: (Some ring)
    show ?thesis
    proof (cases "bc_shm_ring_read ring BC_CLIENT_FRAME_MAX")
      case None
      then show ?thesis using Suc.prems ring by (auto simp: st good_fault)
    next
      case (Some r)
      obtain res ring' where r: "r = (res, ring')" by (meson surj_pair)
      show ?thesis
      proof (cases res)
        case (Inl e)
        then show ?thesis using Suc.prems ring Some r by (auto simp: st split: if_splits)
      next
        case (Inr frame)
        obtain rc1 st1 where f: "process_frame_buffer sys fd frame (bus, set_client_ring fd ring' m) = (rc1, st1)"
          by (meson surj_pair)
        have "good R (bus, set_client_ring fd ring' m)"
          using Suc.prems(1) by (simp add: st set_client_ring_def good_set_client)
        then have "good R st1" using frame_good [of R _ fd frame] f by force
        then show ?thesis using Suc ring Some r Inr f by (auto simp: st split: if_splits)
      qed
    qed
  qed
qed simp

lemma drain_good:
  assumes "good R st"
  obtains rc st' where "drain_client_shm sys fd st = Some (rc, st')" "good R st'"
  using drain_client_total [of sys fd st] drain_loop_good [OF assms]
  unfolding drain_client_shm_def by (metis option.exhaust surj_pair)

section \<open>Events\<close>

lemma read_loop_good: "good R st \<Longrightarrow> \<exists>st'. read_loop sys fd results st = Some st' \<and> good R st'"
proof (induction results arbitrary: st)
  case Nil
  then show ?case by (cases st) simp
next
  case (Cons r results)
  obtain bus m where st: "st = (bus, m)" by (meson surj_pair)
  show ?case
  proof (cases "\<exists>bytes. r = Data bytes \<and> length (client_rx m fd) < BC_CLIENT_RX_CAP")
    case False
    then show ?thesis
      using Cons.prems close_client_good [OF Cons.prems]
      by (cases r) (auto simp: st not_less simp del: split_paired_Ex)
  next
    case True
    then obtain bytes where b: "r = Data bytes" "\<not> length (client_rx m fd) \<ge> BC_CLIENT_RX_CAP" by auto
    define m1 where "m1 = set_client fd (\<lambda>c. c\<lparr>cl_rx := cl_rx c @ take (BC_CLIENT_RX_CAP - length (client_rx m fd)) bytes\<rparr>) m"
    have "good R (bus, m1)" using Cons.prems by (simp add: st m1_def good_set_client)
    moreover obtain rc st1 where r1: "run_messages sys fd (bus, m1) = (rc, st1)" by (meson surj_pair)
    ultimately have g1: "good R st1" using run_messages_good [of R "(bus, m1)" fd] by simp
    obtain rc2 st2 where d: "drain_client_shm sys fd st1 = Some (rc2, st2)" and g2: "good R st2"
      using drain_good [OF g1] by blast
    show ?thesis
      using Cons.IH [OF g2] resume_good [OF g1] close_client_good [OF g1] close_client_good [OF g2] g2 b
      by (simp add: st m1_def [symmetric] r1 d del: split_paired_Ex)
  qed
qed

lemma flush_holds: "holds_in m \<Longrightarrow> holds_in (snd (flush_client_tx sys fd results m))"
proof (cases "find_client (mg_clients m) fd")
  case None
  then show "holds_in m \<Longrightarrow> ?thesis" by (simp add: flush_client_tx_def)
next
  case (Some c)
  assume h: "holds_in m"
  obtain rc c' sent fin where f: "tx_flush results c = (rc, c', sent, fin)" by (metis prod_cases4)
  have fd: "cl_fd c' = fd" "fd \<in> set (client_fd_list m)" using tx_flush_fd [of results c] f find_client_mem [OF Some] by auto
  have l: "client_fd_list (set_client fd (\<lambda>_. c') m) = client_fd_list m" by (rule replace_client_fds [OF Some fd(1)])
  have "P (client_fd_list m) (snd (update_client_events sys c' (mg_ext m)))" using events_P [OF h] fd by simp
  then show ?thesis
    using Some f l h by (simp add: flush_client_tx_def Let_def case_prod_beta holds_ext) (simp add: holds_in_def)
qed

lemma client_event_good:
  assumes g: "good R st"
  shows "\<exists>st'. on_client_event sys fd ev_out ev_in ev_hup sends reads st = Some st' \<and> good R st'"
proof -
  obtain bus m where st: "st = (bus, m)" by (meson surj_pair)
  obtain rc m1 where f: "flush_client_tx sys fd sends m = (rc, m1)" by (meson surj_pair)
  have g1: "good R (bus, m1)" using flush_holds [of m fd sends] g f by (simp add: good_def st)
  have after: "\<exists>st'. (case drain_client_shm sys fd s of
         None \<Rightarrow> None
       | Some (rc, st) \<Rightarrow>
           if rc = BC_ERR_NOMEM then Some (resume_pending_publishers sys st)
           else if rc \<noteq> BC_OK then Some (close_client sys fd st)
           else if ev_hup \<and> \<not> ev_in then Some (close_client sys fd st)
           else read_loop sys fd reads st) = Some st' \<and> good R st'" if s: "good R s" for s
  proof -
    obtain rc2 s2 where "drain_client_shm sys fd s = Some (rc2, s2)" "good R s2" using drain_good [OF s] by blast
    then show ?thesis using resume_good close_client_good read_loop_good by (simp del: split_paired_Ex)
  qed
  show ?thesis
    using after [OF g] after [OF resume_good [OF g1]] close_client_good [OF g1, of fd]
    by (simp add: on_client_event_def st f Let_def del: split_paired_Ex)
qed

lemma server_event_holds: "holds_in m \<Longrightarrow> holds_in (on_server_event sys accepts m)"
proof (induction accepts arbitrary: m)
  case (Cons a accepts)
  obtain fd peer mem where a: "a = (fd, peer, mem)" by (metis prod_cases3)
  obtain rc x where s: "sy_add sys fd (mg_ext m) = (rc, x)" by (meson surj_pair)
  have p: "P (if rc = BC_OK then fd # client_fd_list m else client_fd_list m) x"
    using P_add [OF _ s] Cons.prems by (simp add: holds_in_def)
  have l: "client_fd_list (m\<lparr>mg_clients := unlink_client fd (link_client (new_client fd) (mg_clients m)), mg_ext := y\<rparr>) =
      client_fd_list m" "client_fd_list (m\<lparr>mg_clients := link_client (new_client fd) (mg_clients m), mg_ext := y\<rparr>) =
      fd # client_fd_list m" for y
    by (simp_all add: client_fd_list_def link_client_def new_client_def)
  have rejected: "holds_in (m\<lparr>mg_ext := sy_close sys fd (mg_ext m)\<rparr>)"
    using Cons.prems P_close by (simp add: holds_in_def)
  have failed: "rc \<noteq> BC_OK \<Longrightarrow> holds_in (m\<lparr>mg_clients := unlink_client fd (link_client (new_client fd) (mg_clients m)),
      mg_ext := sy_close sys fd x\<rparr>)"
    using p l(1) P_close by (simp add: holds_in_def)
  have admitted: "rc = BC_OK \<Longrightarrow> holds_in (m\<lparr>mg_clients := link_client (new_client fd) (mg_clients m), mg_ext := x\<rparr>)"
    using p l(2) by (simp add: holds_in_def)
  show ?case
    using Cons.IH [OF rejected] Cons.IH [OF failed] Cons.IH [OF admitted] by (simp add: a s Let_def)
qed simp

end

end
