(* ===== verification/Daemon_Loop.thy ===== *)
theory Daemon_Loop
  imports Daemon_Ready Daemon_World Main_Loop
begin

text \<open>
  The running daemon: the callbacks of \<^verbatim>\<open>main.c\<close> and \<^verbatim>\<open>client_manager.c\<close> under the loop of
  \<^verbatim>\<open>reactor.c\<close>, on the transports, their receive buffers, the message bus and the clients together.
  \<open>world\<close> is what the client manager and the bus act on: the array of transports, the receive buffer of
  each, and the reactor. What the operating system answers is \<open>outside\<close>: a record for each event
  (\<open>dw_events\<close> counts them) and one for each system call of the client manager and each \<^verbatim>\<open>send\<close> of a
  transport (\<open>dw_calls\<close>). Which descriptors a transport registers, changes or removes
  while it runs is part of the answer, with its own callback. \<open>dw_fault\<close> is set where
  a call would go through a missing or a wrong operation table, or the reassembly out of its arrays;
  the memory faults of the client manager and of the transports have flags of their own in their states.
\<close>

section \<open>The world\<close>

datatype watch_op = Watch_Add int u32 "bool \<times> bool" | Watch_Mod int u32 "bool \<times> bool" | Watch_Del int

fun watch_step :: "daemon_cb \<Rightarrow> watch_op \<Rightarrow> reactor \<Rightarrow> reactor" where
  "watch_step cb (Watch_Add fd events ok) r = snd (bc_reactor_add ok fd events cb r)"
| "watch_step cb (Watch_Mod fd events ok) r = snd (bc_reactor_mod ok fd events cb r)"
| "watch_step cb (Watch_Del fd) r = bc_reactor_del fd r"

record answers =
  an_transport :: transport_os
  an_watches :: "watch_op list"
  an_reactor :: "bool \<times> bool"
  an_shm :: "(byte list \<times> byte list) option"
  an_send_fd :: bc_status

record event_answers =
  ea_transport :: "transport_os \<times> watch_op list"
  ea_recvs :: "(transport_os \<times> watch_op list) list"
  ea_accepts :: "(int \<times> u32 option \<times> bool) list"
  ea_sends :: "io_result list"
  ea_reads :: "read_result list"
  ea_signal :: bool

record outside =
  ou_call :: "nat \<Rightarrow> answers"
  ou_event :: "nat \<Rightarrow> event_answers"

record 'p world =
  dw_transports :: "'p bc_transport list"
  dw_rx :: "byte list list"
  dw_reactor :: reactor
  dw_calls :: nat
  dw_events :: nat
  dw_fault :: bool

text \<open>An operation of the i-th transport, with the registrations it makes.\<close>

definition on_transport ::
  "nat \<Rightarrow> watch_op list \<Rightarrow> ('p bc_transport \<Rightarrow> ('a \<times> 'p bc_transport) option) \<Rightarrow> 'a \<Rightarrow> 'p world \<Rightarrow> 'a \<times> 'p world" where
  "on_transport i watches oper err x =
     (case (if i < length (dw_transports x) then oper (dw_transports x ! i) else None) of
        None \<Rightarrow> (err, x\<lparr>dw_fault := True\<rparr>)
      | Some (res, t) \<Rightarrow> (res, x\<lparr>dw_transports := (dw_transports x)[i := t],
          dw_reactor := fold (watch_step (Cb_Transport i)) watches (dw_reactor x)\<rparr>))"

definition next_call :: "outside \<Rightarrow> 'p world \<Rightarrow> answers \<times> 'p world" where
  "next_call outside x = (ou_call outside (dw_calls x), x\<lparr>dw_calls := dw_calls x + 1\<rparr>)"

definition world_send :: "outside \<Rightarrow> nat \<Rightarrow> byte list \<Rightarrow> 'p world \<Rightarrow> bc_status \<times> 'p world" where
  "world_send outside i frame x = (case next_call outside x of (a, x) \<Rightarrow>
     on_transport i (an_watches a) (transport_send (an_transport a) frame) BC_ERR x)"

text \<open>Beside its registration, what a client's descriptor does to the system is not part of this world.\<close>

definition daemon_sys :: "bc_config \<Rightarrow> byte list list \<Rightarrow> outside \<Rightarrow> 'p world sys" where
  "daemon_sys config names outside =
     \<lparr>sy_config = config, sy_names = names,
      sy_send = (\<lambda>i. if i < length names then Some (world_send outside i) else None),
      sy_add = (\<lambda>fd x. case next_call outside x of (a, x) \<Rightarrow>
        (case bc_reactor_add (an_reactor a) fd fd_events (Cb_Client fd) (dw_reactor x) of
           (rc, r) \<Rightarrow> (rc, x\<lparr>dw_reactor := r\<rparr>))),
      sy_mod = (\<lambda>fd out x. case next_call outside x of (a, x) \<Rightarrow>
        (case bc_reactor_mod (an_reactor a) fd (if out then fd_events OR EPOLLOUT else fd_events) (Cb_Client fd) (dw_reactor x) of
           (rc, r) \<Rightarrow> (rc, x\<lparr>dw_reactor := r\<rparr>))),
      sy_del = (\<lambda>fd x. x\<lparr>dw_reactor := bc_reactor_del fd (dw_reactor x)\<rparr>),
      sy_close = (\<lambda>fd x. x),
      sy_shm = (\<lambda>x. case next_call outside x of (a, x) \<Rightarrow> (an_shm a, x)),
      sy_send_fd = (\<lambda>fd x. case next_call outside x of (a, x) \<Rightarrow> (an_send_fd a, x)),
      sy_shm_close = (\<lambda>fd x. x)\<rparr>"

section \<open>The event of a transport\<close>

text \<open>A table without \<^verbatim>\<open>recv\<close>; the daemon then reads the descriptor, if there is something to read.\<close>

definition recv_missing :: "'p bc_transport \<Rightarrow> bool" where
  "recv_missing t \<longleftrightarrow> (case tr_ops t of Some (Plugin_Ops ops) \<Rightarrow> po_recv ops = None | _ \<Rightarrow> False)"

text \<open>The system returns no more bytes than it was asked for.\<close>

definition clip_read :: "nat \<Rightarrow> transport_os \<Rightarrow> transport_os" where
  "clip_read cap os = os\<lparr>to_read := (case to_read os of Got data \<Rightarrow> Got (take cap data) | r \<Rightarrow> r)\<rparr>"

definition world_recv :: "nat \<Rightarrow> nat \<Rightarrow> transport_os \<times> watch_op list \<Rightarrow> 'p world \<Rightarrow> (bc_status + byte list) \<times> 'p world" where
  "world_recv i cap = (\<lambda>(os, watches). on_transport i watches (transport_recv (clip_read cap os) cap) (Inl BC_ERR))"

definition world_fault :: "'p world daemon \<Rightarrow> 'p world daemon" where
  "world_fault = (\<lambda>(bus, m). (bus, m\<lparr>mg_ext := (mg_ext m)\<lparr>dw_fault := True\<rparr>\<rparr>))"

text \<open>
  The loop of \<^verbatim>\<open>on_transport_event\<close> on the receive buffer. The list ends when there is nothing more to
  receive. The room for a receive is what is left of the buffer; more than that is a fault.
\<close>

fun receive_loop ::
  "'p world bc_client_manager bus_env \<Rightarrow> nat \<Rightarrow> u32 \<Rightarrow> (transport_os \<times> watch_op list) list \<Rightarrow> byte list \<Rightarrow>
     'p world daemon \<Rightarrow> byte list \<times> 'p world daemon" where
  "receive_loop env i events [] rx st = (if length rx \<ge> RX_BUF_SIZE then ([], st) else (rx, st))"
| "receive_loop env i events (a # recvs) rx (bus, m) =
     (if length rx \<ge> RX_BUF_SIZE then ([], bus, m)
      else if recv_missing (dw_transports (mg_ext m) ! i) \<and> (events AND EPOLLIN) = 0 then (rx, bus, m)
      else
        let cap = RX_BUF_SIZE - length rx in
        (case world_recv i cap a (mg_ext m) of (res, x) \<Rightarrow>
           let m = m\<lparr>mg_ext := x\<rparr> in
           case res of
             Inl _ \<Rightarrow> (rx, bus, m)
           | Inr data \<Rightarrow>
               if data = [] then (rx, bus, m)
               else if length data > cap then ([], world_fault (bus, m))
               else (case process_transport_frames env i (rx @ data) (bus, m) of
                   None \<Rightarrow> ([], world_fault (bus, m))
                 | Some (rc, rx, st) \<Rightarrow>
                     if rc \<noteq> BC_OK then ([], st) else receive_loop env i events recvs rx st)))"

definition on_transport_event ::
  "'p world bc_client_manager bus_env \<Rightarrow> nat \<Rightarrow> int \<Rightarrow> u32 \<Rightarrow> event_answers \<Rightarrow> 'p world daemon \<Rightarrow> 'p world daemon" where
  "on_transport_event env i fd events a = (\<lambda>(bus, m).
     (case on_transport i (snd (ea_transport a))
         (\<lambda>t. map_option (\<lambda>t. ((), t)) (transport_event (fst (ea_transport a)) fd events t)) () (mg_ext m) of
        (_, x) \<Rightarrow>
          (case receive_loop env i events (ea_recvs a) (dw_rx x ! i) (bus, m\<lparr>mg_ext := x\<rparr>) of
             (rx, bus, m) \<Rightarrow> (bus, m\<lparr>mg_ext := (mg_ext m)\<lparr>dw_rx := (dw_rx (mg_ext m))[i := rx]\<rparr>\<rparr>))))"

section \<open>The callbacks\<close>

text \<open>A client's item holds a pointer to the client; if there is no such client it has been freed.\<close>

definition callback ::
  "bc_config \<Rightarrow> byte list list \<Rightarrow> outside \<Rightarrow> daemon_cb \<Rightarrow> int \<Rightarrow> u32 \<Rightarrow> event_answers \<Rightarrow> 'p world daemon \<Rightarrow> 'p world daemon" where
  "callback config names outside cb fd events a = (\<lambda>(bus, m).
     (let sys = daemon_sys config names outside in
      case cb of
        Cb_Transport i \<Rightarrow> on_transport_event (daemon_env sys) i fd events a (bus, m)
      | Cb_Server \<Rightarrow> (bus, on_server_event sys (ea_accepts a) m)
      | Cb_Client client \<Rightarrow>
          if find_client (mg_clients m) client = None then world_fault (bus, m)
          else (case on_client_event sys client (events AND EPOLLOUT \<noteq> 0) (events AND EPOLLIN \<noteq> 0)
              (events AND (EPOLLHUP OR EPOLLERR) \<noteq> 0) (ea_sends a) (ea_reads a) (bus, m) of
            None \<Rightarrow> world_fault (bus, m) | Some st \<Rightarrow> st)))"

text \<open>
  One callback as the reactor makes it. A signal that arrives meanwhile stops the reactor, which
  notices after the batch.
\<close>

definition daemon_call :: "bc_config \<Rightarrow> byte list list \<Rightarrow> outside \<Rightarrow> (daemon_cb, 'p world daemon) dispatch" where
  "daemon_call config names outside cb fd events = (\<lambda>(r, bus, m).
     (let x = mg_ext m; a = ou_event outside (dw_events x) in
      case callback config names outside cb fd events a
          (bus, m\<lparr>mg_ext := x\<lparr>dw_reactor := r, dw_events := dw_events x + 1\<rparr>\<rparr>) of
        (bus, m) \<Rightarrow>
          (let r = dw_reactor (mg_ext m) in (if ea_signal a then the (on_signal (Some r)) else r, bus, m))))"

text \<open>The state in which \<^verbatim>\<open>main\<close> enters the loop.\<close>

definition start_daemon :: "bc_config \<Rightarrow> 'p bc_transport list \<Rightarrow> reactor \<Rightarrow> 'p world daemon" where
  "start_daemon config ts r =
     (start_bus config,
      \<lparr>mg_clients = [], mg_socket_uid = cf_socket_uid config, mg_fault = False,
       mg_ext = \<lparr>dw_transports = ts, dw_rx = map (\<lambda>_. []) ts, dw_reactor = r, dw_calls = 0, dw_events = 0, dw_fault = False\<rparr>\<rparr>)"

definition daemon_loop ::
  "bc_config \<Rightarrow> outside \<Rightarrow> 'p bc_transport list \<Rightarrow> reactor \<Rightarrow> (nat \<times> u32) list option list \<Rightarrow> (reactor \<times> 'p world daemon) option" where
  "daemon_loop config outside ts r waits =
     bc_reactor_run (daemon_call config (map tr_name ts) outside) waits (r, start_daemon config ts r)"

end
