(* ===== verification/Daemon_Safe.thy ===== *)
theory Daemon_Safe
  imports Daemon_Loop
begin

text \<open>
  The invariant of the running daemon, through every callback of its loop: the transports are what
  calls through their tables made of those it started with, each receive buffer holds the beginning of
  a frame, the reassembly table is well formed, and the items of the reactor lead to transports and clients
  that exist.
\<close>

section \<open>The registrations\<close>

definition cb_fits :: "nat \<Rightarrow> int list \<Rightarrow> int \<Rightarrow> daemon_cb \<Rightarrow> bool" where
  "cb_fits n fds fd cb = (case cb of Cb_Transport i \<Rightarrow> i < n | Cb_Server \<Rightarrow> True | Cb_Client c \<Rightarrow> c = fd \<and> c \<in> set fds)"

definition reactor_ok :: "nat \<Rightarrow> int list \<Rightarrow> reactor \<Rightarrow> bool" where
  "reactor_ok n fds r \<longleftrightarrow> reactor_wf r \<and> (\<forall>item \<in> set (re_events r). cb_fits n fds (ev_fd item) (ev_cb item))"

lemma cb_fits_mono: "cb_fits n fds fd cb \<Longrightarrow> set fds \<subseteq> set gds \<Longrightarrow> cb_fits n gds fd cb"
  by (auto simp: cb_fits_def split: daemon_cb.splits)

lemma set_item_elem:
  "item \<in> set (set_item fd cb xs) \<Longrightarrow> item \<in> set xs \<or> ev_fd item = fd \<and> ev_cb item = cb"
  by (induction xs) (auto split: if_splits)

lemma add_events:
  "bc_reactor_add ok fd e cb r = (rc, r') \<Longrightarrow>
     re_events r' = (if rc = BC_OK then [\<lparr>ev_ptr = re_next r, ev_fd = fd, ev_cb = cb\<rparr>] else []) @ re_events r"
  by (auto simp: bc_reactor_add_def link_event_def Let_def split: if_splits)

lemma add_ok:
  assumes "reactor_ok n fds r" "bc_reactor_add ok fd e cb r = (rc, r')" "set fds \<subseteq> set gds"
    and "rc = BC_OK \<Longrightarrow> cb_fits n gds fd cb"
  shows "reactor_ok n gds r'"
proof -
  have "reactor_wf r'" using assms(1) registry.add_law [OF _ assms(2)] by (simp add: reactor_ok_def)
  then show ?thesis
    using assms(1,4) cb_fits_mono [OF _ assms(3)] add_events [OF assms(2)] by (auto simp: reactor_ok_def split: if_splits)
qed

lemma mod_events:
  "bc_reactor_mod ok fd e cb r = (rc, r') \<Longrightarrow> re_events r' = re_events r \<or> re_events r' = set_item fd cb (re_events r)"
  by (auto simp: bc_reactor_mod_def Let_def split: option.splits if_splits)

lemma mod_ok:
  assumes "reactor_ok n fds r" "bc_reactor_mod ok fd e cb r = (rc, r')" "cb_fits n fds fd cb"
  shows "reactor_ok n fds r'"
proof -
  have "reactor_wf r'" using assms(1) registry.mod_law [OF _ assms(2)] by (simp add: reactor_ok_def)
  then show ?thesis
    using assms(1,3) mod_events [OF assms(2)] set_item_elem unfolding reactor_ok_def by metis
qed

lemma del_ok:
  assumes "reactor_ok n fds r"
  shows "reactor_ok n (remove1 fd fds) (bc_reactor_del fd r)" and "reactor_ok n fds (bc_reactor_del fd r)"
proof -
  have wf: "reactor_wf r" "reactor_wf (bc_reactor_del fd r)" using assms registry.del_law by (auto simp: reactor_ok_def)
  have e: "re_events (bc_reactor_del fd r) = unlink_first fd (re_events r)"
    by (simp add: bc_reactor_del_def unlink_event_def)
  have i: "item \<in> set (re_events r)" "ev_fd item \<noteq> fd" if "item \<in> set (unlink_first fd (re_events r))" for item
    using that unlink_subset find_unlink [of "re_events r" fd fd] wf(1)
    by (auto simp: reactor_wf_def find_None_iff)
  show "reactor_ok n fds (bc_reactor_del fd r)" using wf(2) i(1) assms by (simp add: reactor_ok_def e)
  have "cb_fits n (remove1 fd fds) (ev_fd item) (ev_cb item)" if "item \<in> set (unlink_first fd (re_events r))" for item
    using i [OF that] assms unfolding reactor_ok_def cb_fits_def
    by (auto split: daemon_cb.splits simp: in_set_remove1)
  then show "reactor_ok n (remove1 fd fds) (bc_reactor_del fd r)" using wf(2) by (simp add: reactor_ok_def e)
qed

lemma watch_step_ok: "reactor_ok n fds r \<Longrightarrow> i < n \<Longrightarrow> reactor_ok n fds (watch_step (Cb_Transport i) w r)"
proof (cases w)
  case (Watch_Add fd e ok)
  obtain rc r' where "bc_reactor_add ok fd e (Cb_Transport i) r = (rc, r')" by (meson surj_pair)
  then show "reactor_ok n fds r \<Longrightarrow> i < n \<Longrightarrow> ?thesis"
    using add_ok [of n fds r ok fd e "Cb_Transport i" rc r' fds] Watch_Add by (simp add: cb_fits_def)
next
  case (Watch_Mod fd e ok)
  obtain rc r' where "bc_reactor_mod ok fd e (Cb_Transport i) r = (rc, r')" by (meson surj_pair)
  then show "reactor_ok n fds r \<Longrightarrow> i < n \<Longrightarrow> ?thesis"
    using mod_ok [of n fds r ok fd e "Cb_Transport i" rc r'] Watch_Mod by (simp add: cb_fits_def)
qed (simp add: del_ok)

lemma watch_steps_ok: "reactor_ok n fds r \<Longrightarrow> i < n \<Longrightarrow> reactor_ok n fds (fold (watch_step (Cb_Transport i)) ws r)"
  by (induction ws arbitrary: r) (simp_all add: watch_step_ok)

section \<open>The world\<close>

text \<open>A plugin returns no more bytes than the daemon has room for.\<close>

definition bounded_recv :: "'p bc_transport \<Rightarrow> bool" where
  "bounded_recv t \<longleftrightarrow> (\<forall>ops f cap p data q. tr_ops t = Some (Plugin_Ops ops) \<longrightarrow> po_recv ops = Some f \<longrightarrow>
     f cap p = (Inr data, q) \<longrightarrow> length data \<le> cap)"

definition world_ok :: "'p bc_transport list \<Rightarrow> int list \<Rightarrow> 'p world \<Rightarrow> bool" where
  "world_ok ts fds x \<longleftrightarrow> list_all ready ts \<and> list_all bounded_recv ts \<and> \<not> dw_fault x \<and>
     reactor_ok (length ts) fds (dw_reactor x) \<and> (\<exists>cs. run_calls cs ts = Some (dw_transports x)) \<and>
     length (dw_rx x) = length ts \<and> (\<forall>rx \<in> set (dw_rx x). net_look rx = More)"

lemma run_calls_snoc:
  "run_calls cs ts = Some us \<Longrightarrow> i < length us \<Longrightarrow> transport_step os c (us ! i) = Some u \<Longrightarrow>
     run_calls (cs @ [(i, os, c)]) ts = Some (us[i := u])"
proof (induction cs arbitrary: ts)
  case (Cons a cs)
  obtain j os' c' where "a = (j, os', c')" by (metis prod_cases3)
  then show ?case using Cons by (auto split: if_splits option.splits)
qed simp

lemma world_transports:
  assumes "world_ok ts fds x" "i < length ts"
  shows "i < length (dw_transports x)" "ready (dw_transports x ! i)" "same_entry (ts ! i) (dw_transports x ! i)"
proof -
  obtain cs where "run_calls cs ts = Some (dw_transports x)" "list_all ready ts"
    using assms(1) by (auto simp: world_ok_def)
  then have "list_all ready (dw_transports x) \<and> list_all2 same_entry ts (dw_transports x)"
    using run_calls_typed [of ts cs] by auto
  then show "i < length (dw_transports x)" "ready (dw_transports x ! i)" "same_entry (ts ! i) (dw_transports x ! i)"
    using assms(2) by (simp_all add: list_all2_conv_all_nth list_all_length)
qed

text \<open>An operation that is a call through the table leaves the world well formed.\<close>

lemma on_transport_ok:
  assumes w: "world_ok ts fds x" and i: "i < length ts" and o: "oper (dw_transports x ! i) = Some (res, t)"
    and s: "transport_step os c (dw_transports x ! i) = Some t"
  shows "on_transport i ws oper err x = (res, x\<lparr>dw_transports := (dw_transports x)[i := t],
      dw_reactor := fold (watch_step (Cb_Transport i)) ws (dw_reactor x)\<rparr>)"
    and "world_ok ts fds (snd (on_transport i ws oper err x))"
proof -
  note l = world_transports(1) [OF w i]
  show e: "on_transport i ws oper err x = (res, x\<lparr>dw_transports := (dw_transports x)[i := t],
      dw_reactor := fold (watch_step (Cb_Transport i)) ws (dw_reactor x)\<rparr>)"
    using l o by (simp add: on_transport_def)
  obtain cs where "run_calls cs ts = Some (dw_transports x)" using w by (auto simp: world_ok_def)
  from run_calls_snoc [OF this l s] show "world_ok ts fds (snd (on_transport i ws oper err x))"
    using w i watch_steps_ok unfolding e world_ok_def by auto
qed

lemma send_ok:
  assumes "world_ok ts fds x" "i < length ts"
  shows "world_ok ts fds (snd (on_transport i ws (transport_send os frame) err x))"
proof -
  obtain rc t where s: "transport_send os frame (dw_transports x ! i) = Some (rc, t)"
    using send_typed [OF world_transports(2) [OF assms]] by blast
  have "transport_step os (Call_Send frame) (dw_transports x ! i) = Some t" by (simp add: s)
  from on_transport_ok(2) [where oper = "transport_send os frame", OF assms s this] show ?thesis .
qed

lemma event_ok:
  assumes "world_ok ts fds x" "i < length ts"
  shows "world_ok ts fds (snd (on_transport i ws (\<lambda>t. map_option (\<lambda>t. ((), t)) (transport_event os fd e t)) () x))"
proof -
  obtain t where s: "transport_event os fd e (dw_transports x ! i) = Some t"
    using event_typed [OF world_transports(2) [OF assms]] by blast
  have c: "transport_step os (Call_Event fd e) (dw_transports x ! i) = Some t" by (simp add: s)
  show ?thesis
    by (rule on_transport_ok(2) [where oper = "\<lambda>t. map_option (\<lambda>t. ((), t)) (transport_event os fd e t)", OF assms _ c])
      (simp add: s)
qed

lemma recv_bounded:
  assumes "ready t" "bounded_recv t" "transport_recv (clip_read cap os) cap t = Some (Inr data, u)"
  shows "length data \<le> cap"
proof -
  have "well_typed t" using assms(1) by (simp add: ready_def)
  then show ?thesis
  proof (cases rule: well_typed_cases)
    case (Plugin ops p)
    show ?thesis
    proof (cases "po_recv ops")
      case None
      then show ?thesis using Plugin assms(3)
        by (auto simp: transport_recv_def clip_read_def split: sock_read.splits)
    next
      case (Some f)
      obtain res q where f: "f cap p = (res, q)" by (meson surj_pair)
      then have "res = Inr data" using Plugin assms(3) Some by (simp add: transport_recv_def)
      then show ?thesis using assms(2) Plugin(1) Some f unfolding bounded_recv_def by blast
    qed
  qed (use assms(3) in \<open>auto simp: transport_recv_def clip_read_def tcp_recv_def uart_recv_def udp_recv_def
      udp_kcp_recv_def Let_def split: if_splits sock_read.splits option.splits prod.splits\<close>)
qed

lemma world_recv_ok:
  assumes "world_ok ts fds x" "i < length ts" "world_recv i cap a x = (res, y)"
  shows "world_ok ts fds y" "res = Inr data \<Longrightarrow> length data \<le> cap"
proof -
  obtain os ws where a: "a = (os, ws)" by (meson surj_pair)
  note t = world_transports [OF assms(1,2)]
  obtain res' u where r: "transport_recv (clip_read cap os) cap (dw_transports x ! i) = Some (res', u)"
    using recv_typed [OF t(2)] by blast
  have c: "transport_step (clip_read cap os) (Call_Recv cap) (dw_transports x ! i) = Some u" by (simp add: r)
  note ok = on_transport_ok [where oper = "transport_recv (clip_read cap os) cap", OF assms(1,2) r c]
  have b: "bounded_recv (dw_transports x ! i)"
    using assms(1,2) t(3) by (auto simp: world_ok_def bounded_recv_def same_entry_def list_all_length)
  show "world_ok ts fds y" using ok(2) [of ws "Inl BC_ERR"] ok(1) [of ws "Inl BC_ERR"] r assms(3) by (simp add: world_recv_def a)
  show "res = Inr data \<Longrightarrow> length data \<le> cap"
    using ok(1) r assms(3) recv_bounded [OF t(2) b] by (simp add: world_recv_def a)
qed

interpretation daemon: world_keeper "daemon_sys config (map tr_name ts) outside" "world_ok ts"
proof (unfold_locales, goal_cases)
  case (1 i f fds x frame)
  then have i: "i < length ts" "f = world_send outside i" by (auto simp: daemon_sys_def split: if_splits)
  have "world_ok ts fds (x\<lparr>dw_calls := dw_calls x + 1\<rparr>)" using 1 by (simp add: world_ok_def)
  from send_ok [OF this i(1)] show ?case by (simp add: i(2) world_send_def next_call_def)
next
  case (2 fds x fd rc x')
  define a where "a = ou_call outside (dw_calls x)"
  obtain rc1 r where r: "bc_reactor_add (an_reactor a) fd fd_events (Cb_Client fd) (dw_reactor x) = (rc1, r)"
    by (meson surj_pair)
  have x: "rc = rc1" "x' = x\<lparr>dw_calls := dw_calls x + 1, dw_reactor := r\<rparr>"
    using 2(2) r by (simp_all add: daemon_sys_def next_call_def a_def)
  have "reactor_ok (length ts) (if rc = BC_OK then fd # fds else fds) r"
    using 2(1) add_ok [OF _ r, of "length ts" fds "if rc = BC_OK then fd # fds else fds"] x(1)
    by (auto simp: world_ok_def cb_fits_def subset_insertI)
  then show ?case using 2(1) by (simp add: world_ok_def x(2))
next
  case (3 fds x fd out)
  define a where "a = ou_call outside (dw_calls x)"
  obtain rc r where r: "bc_reactor_mod (an_reactor a) fd (if out then fd_events OR EPOLLOUT else fd_events) (Cb_Client fd)
      (dw_reactor x) = (rc, r)" by (meson surj_pair)
  have "reactor_ok (length ts) fds r" using 3 mod_ok [OF _ r] by (simp add: world_ok_def cb_fits_def)
  then show ?case using 3(1) r by (simp add: daemon_sys_def next_call_def a_def world_ok_def)
next
  case (4 fds x fd)
  then show ?case using del_ok(1) by (simp add: daemon_sys_def world_ok_def)
qed (simp_all add: daemon_sys_def next_call_def world_ok_def)

section \<open>The callbacks\<close>

definition daemon_ok :: "'p bc_transport list \<Rightarrow> 'p world daemon \<Rightarrow> bool" where
  "daemon_ok ts st \<longleftrightarrow> reasm_wf (bus_reasm (fst st)) \<and> world_ok ts (client_fd_list (snd st)) (mg_ext (snd st))"

lemma daemon_ok_good:
  "daemon_ok ts st \<longleftrightarrow> (\<exists>R. reasm_wf R \<and> daemon.good ts R st)"
  by (auto simp: daemon_ok_def daemon.good_def daemon.holds_in_def)

abbreviation the_env where
  "the_env config ts outside \<equiv> daemon_env (daemon_sys config (map tr_name ts) outside)"

lemma inbound_ok:
  assumes "daemon_ok ts st"
  obtains rc st' where "bc_message_bus_handle_inbound (the_env config ts outside) msg from st = Some (rc, st')" "daemon_ok ts st'"
proof -
  obtain bus m where st: "st = (bus, m)" by (meson surj_pair)
  have "reasm_wf (bus_reasm bus)" using assms by (simp add: daemon_ok_def st)
  then obtain rc bus' m' where h: "bc_message_bus_handle_inbound (the_env config ts outside) msg from (bus, m) = Some (rc, bus', m')"
    "daemon.keeps ts m m'" "reasm_wf (bus_reasm bus')"
    by (rule daemon.bw.handle_inbound_R)
  then have "daemon_ok ts (bus', m')" using assms by (simp add: st daemon_ok_def daemon.keeps_def daemon.holds_in_def)
  then show ?thesis using that h(1) st by blast
qed

lemma frames_ok:
  assumes "daemon_ok ts st"
  shows "\<exists>rc rx' st'. process_transport_frames (the_env config ts outside) i rx st = Some (rc, rx', st') \<and>
    daemon_ok ts st' \<and> (rc = BC_OK \<longrightarrow> net_look rx' = More)"
proof -
  have "\<exists>rc rx' st'. process_transport_frames (the_env config ts outside) i rx st = Some (rc, rx', st') \<and> daemon_ok ts st'"
    using assms
  proof (induction "length rx" arbitrary: rx st rule: less_induct)
    case less
    obtain rc n where f: "bc_protocol_frame_length rx 0 = (rc, n)" by (meson surj_pair)
    show ?case
    proof (cases "rc = BC_OK \<and> n \<le> length rx \<and> (\<exists>msg. bc_protocol_decode (take n rx) = Inr msg)")
      case False
      then show ?thesis
        using less.prems f by (subst process_transport_frames.simps) (auto split: sum.split simp del: split_paired_Ex)
    next
      case True
      then obtain msg where msg: "rc = BC_OK" "n \<le> length rx" "bc_protocol_decode (take n rx) = Inr msg" by blast
      obtain rc1 st1 where h: "bc_message_bus_handle_inbound (the_env config ts outside) msg (Some i) st = Some (rc1, st1)"
        "daemon_ok ts st1" using inbound_ok [OF less.prems] by blast
      have "length (drop n rx) < length rx" using frame_length_pos f msg(1,2) by fastforce
      from less.hyps [OF this h(2)] show ?thesis
        using f msg h(1) by (subst process_transport_frames.simps) simp
    qed
  qed
  then show ?thesis using net.consume_rest process_is_consume by metis
qed

lemma daemon_ok_ext: "daemon_ok ts (bus, m\<lparr>mg_ext := x\<rparr>) \<longleftrightarrow> reasm_wf (bus_reasm bus) \<and> world_ok ts (client_fd_list m) x"
  by (simp add: daemon_ok_def)

lemma receive_loop_ok:
  assumes "i < length ts"
  shows "daemon_ok ts st \<Longrightarrow> net_look rx = More \<Longrightarrow>
    receive_loop (the_env config ts outside) i events recvs rx st = (rx', st') \<Longrightarrow> daemon_ok ts st' \<and> net_look rx' = More"
proof (induction recvs arbitrary: rx st)
  case Nil
  then show ?case using look_more_short [of rx] by (auto simp: RX_BUF_SIZE_def split: if_splits)
next
  case (Cons a recvs)
  obtain bus m where st: "st = (bus, m)" by (meson surj_pair)
  let ?cap = "RX_BUF_SIZE - length rx"
  have room: "\<not> length rx \<ge> RX_BUF_SIZE" using look_more_short [OF Cons.prems(2)] by (simp add: RX_BUF_SIZE_def)
  have empty: "net_look [] = More" by (simp add: net_look_def bc_protocol_frame_length_def FRAME_HEADER_SIZE_def)
  obtain res x where r: "world_recv i ?cap a (mg_ext m) = (res, x)" by (meson surj_pair)
  have w: "world_ok ts (client_fd_list m) (mg_ext m)" using Cons.prems(1) by (simp add: daemon_ok_def st)
  note x = world_recv_ok [OF w assms r]
  have ok: "daemon_ok ts (bus, m\<lparr>mg_ext := x\<rparr>)" using Cons.prems(1) x(1) by (simp add: st daemon_ok_def)
  show ?case
  proof (cases "recv_missing (dw_transports (mg_ext m) ! i) \<and> (events AND EPOLLIN) = 0 \<or> (\<forall>data. res \<noteq> Inr data \<or> data = [])")
    case True
    then show ?thesis using Cons.prems ok room r by (cases res) (auto simp: st Let_def split: if_splits)
  next
    case False
    then obtain data where d: "res = Inr data" "data \<noteq> []"
      "\<not> (recv_missing (dw_transports (mg_ext m) ! i) \<and> (events AND EPOLLIN) = 0)" by blast
    have l: "\<not> length data > ?cap" using x(2) [OF d(1)] by simp
    obtain rc rx1 st1 where p: "process_transport_frames (the_env config ts outside) i (rx @ data) (bus, m\<lparr>mg_ext := x\<rparr>) =
        Some (rc, rx1, st1)" "daemon_ok ts st1" "rc = BC_OK \<longrightarrow> net_look rx1 = More"
      using frames_ok [OF ok] by blast
    have e: "receive_loop (the_env config ts outside) i events (a # recvs) rx (bus, m) =
        (if rc \<noteq> BC_OK then ([], st1) else receive_loop (the_env config ts outside) i events recvs rx1 st1)"
      using room d l by (simp only: receive_loop.simps Let_def r prod.case sum.case p(1) option.case if_False if_True)
    show ?thesis using Cons.prems(3) Cons.IH [OF p(2)] p(2,3) empty unfolding st e by (auto split: if_splits)
  qed
qed

lemma transport_event_ok:
  assumes "i < length ts" "daemon_ok ts st"
  shows "daemon_ok ts (on_transport_event (the_env config ts outside) i fd events a st)"
proof -
  obtain bus m where st: "st = (bus, m)" by (meson surj_pair)
  obtain u x where e: "on_transport i (snd (ea_transport a))
      (\<lambda>t. map_option (\<lambda>t. ((), t)) (transport_event (fst (ea_transport a)) fd events t)) () (mg_ext m) = (u, x)"
    by (meson surj_pair)
  have w: "world_ok ts (client_fd_list m) (mg_ext m)" using assms(2) by (simp add: daemon_ok_def st)
  have x: "world_ok ts (client_fd_list m) x"
    using event_ok [OF w assms(1), of "snd (ea_transport a)" "fst (ea_transport a)" fd events] e by simp
  then have ok: "daemon_ok ts (bus, m\<lparr>mg_ext := x\<rparr>)" using assms(2) by (simp add: st daemon_ok_def)
  have "net_look (dw_rx x ! i) = More" using x assms(1) by (simp add: world_ok_def)
  moreover obtain rx bus1 m1 where l: "receive_loop (the_env config ts outside) i events (ea_recvs a) (dw_rx x ! i)
      (bus, m\<lparr>mg_ext := x\<rparr>) = (rx, bus1, m1)" by (metis prod_cases3)
  ultimately have r: "daemon_ok ts (bus1, m1)" "net_look rx = More" using receive_loop_ok [OF assms(1) ok] by blast+
  have "\<forall>b \<in> set ((dw_rx (mg_ext m1))[i := rx]). net_look b = More"
    using r set_update_subset_insert [of "dw_rx (mg_ext m1)" i rx] by (auto simp: daemon_ok_def world_ok_def)
  then show ?thesis using r(1) by (simp add: on_transport_event_def st e l daemon_ok_def world_ok_def)
qed

lemma find_client_ex: "fd \<in> set (client_fd_list m) \<longleftrightarrow> find_client (mg_clients m) fd \<noteq> None"
  unfolding find_client_def find_None_iff client_fd_list_def by auto

lemma callback_ok:
  assumes "daemon_ok ts (bus, m)" "cb_fits (length ts) (client_fd_list m) fd cb"
  shows "daemon_ok ts (callback config (map tr_name ts) outside cb fd events a (bus, m))"
proof (cases cb)
  case (Cb_Transport i)
  then show ?thesis using assms transport_event_ok by (simp add: callback_def cb_fits_def)
next
  case Cb_Server
  then show ?thesis
    using assms(1) daemon.server_event_holds [of ts m config outside "ea_accepts a"]
    by (simp add: callback_def daemon_ok_def daemon.holds_in_def)
next
  case (Cb_Client c)
  then have "c \<in> set (client_fd_list m)" using assms(2) by (auto simp: cb_fits_def)
  then have f: "find_client (mg_clients m) c \<noteq> None" by (rule find_client_ex [THEN iffD1])
  obtain R where R: "reasm_wf R" "daemon.good ts R (bus, m)" using assms(1) daemon_ok_good by blast
  obtain st' where "on_client_event (daemon_sys config (map tr_name ts) outside) c (events AND EPOLLOUT \<noteq> 0) (events AND EPOLLIN \<noteq> 0)
      (events AND (EPOLLHUP OR EPOLLERR) \<noteq> 0) (ea_sends a) (ea_reads a) (bus, m) = Some st'" "daemon.good ts R st'"
    using daemon.client_event_good [OF R(2)] by blast
  then show ?thesis using f Cb_Client R(1) daemon_ok_good [of ts st'] by (auto simp: callback_def Let_def)
qed

section \<open>The loop\<close>

definition loop_ok :: "'p bc_transport list \<Rightarrow> reactor \<times> 'p world daemon \<Rightarrow> bool" where
  "loop_ok ts = (\<lambda>(r, bus, m). daemon_ok ts (bus, m\<lparr>mg_ext := (mg_ext m)\<lparr>dw_reactor := r\<rparr>\<rparr>))"

lemma stop_ok: "reactor_ok n fds (bc_reactor_stop r) = reactor_ok n fds r"
  by (simp add: reactor_ok_def reactor_wf_def bc_reactor_stop_def find_event_def)

lemma call_ok:
  assumes "loop_ok ts (r, st)" "item \<in> set (re_events r)"
  shows "loop_ok ts (daemon_call config (map tr_name ts) outside (ev_cb item) (ev_fd item) e (r, st))"
proof -
  obtain bus m where st: "st = (bus, m)" by (meson surj_pair)
  define m1 where "m1 = m\<lparr>mg_ext := (mg_ext m)\<lparr>dw_reactor := r, dw_events := dw_events (mg_ext m) + 1\<rparr>\<rparr>"
  define a where "a = ou_event outside (dw_events (mg_ext m))"
  have ok: "daemon_ok ts (bus, m1)" using assms(1) by (simp add: loop_ok_def st m1_def daemon_ok_def world_ok_def)
  have "cb_fits (length ts) (client_fd_list m1) (ev_fd item) (ev_cb item)"
    using ok assms(2) by (simp add: daemon_ok_def world_ok_def reactor_ok_def m1_def)
  from callback_ok [OF ok this] obtain bus2 m2 where
    c: "callback config (map tr_name ts) outside (ev_cb item) (ev_fd item) e a (bus, m1) = (bus2, m2)" "daemon_ok ts (bus2, m2)"
    by (metis surj_pair)
  have e: "daemon_call config (map tr_name ts) outside (ev_cb item) (ev_fd item) e (r, st) =
      (if ea_signal a then the (on_signal (Some (dw_reactor (mg_ext m2)))) else dw_reactor (mg_ext m2), bus2, m2)"
    using c(1) by (simp add: daemon_call_def st Let_def m1_def a_def)
  have "loop_ok ts (dw_reactor (mg_ext m2), bus2, m2)" using c(2) by (simp add: loop_ok_def)
  then show ?thesis unfolding e by (simp add: loop_ok_def on_signal_def daemon_ok_def world_ok_def stop_ok)
qed

lemma batch_ok:
  "loop_ok ts st \<Longrightarrow> run_batch (daemon_call config (map tr_name ts) outside) batch st = Some st' \<Longrightarrow> loop_ok ts st'"
proof (induction batch arbitrary: st)
  case (Cons pe batch)
  obtain p e where pe: "pe = (p, e)" by (meson surj_pair)
  obtain r s where st: "st = (r, s)" by (meson surj_pair)
  obtain item where i: "find (\<lambda>item. ev_ptr item = p) (re_events r) = Some item"
    using Cons.prems(2) by (auto simp: pe st split: option.splits)
  then have "item \<in> set (re_events r)" by (auto simp: find_Some_iff)
  note ok = call_ok [OF Cons.prems(1) [unfolded st] this]
  show ?case using Cons.IH [OF ok] Cons.prems(2) i by (simp add: pe st)
qed simp

text \<open>Waits that return only items that are registered then, each one at most once.\<close>

fun honest_waits :: "('c, 'w) dispatch \<Rightarrow> (nat \<times> u32) list option list \<Rightarrow> 'c bc_reactor \<times> 'w \<Rightarrow> bool" where
  "honest_waits call [] st = True"
| "honest_waits call (None # waits) st = honest_waits call waits st"
| "honest_waits call (Some batch # waits) st \<longleftrightarrow> re_stop (fst st) \<or>
     list_all (\<lambda>(p, e). live p (fst st)) batch \<and> distinct (map fst batch) \<and>
     (case run_batch call batch st of None \<Rightarrow> True | Some st \<Rightarrow> honest_waits call waits st)"

lemma run_ok:
  "loop_ok ts st \<Longrightarrow> bc_reactor_run (daemon_call config (map tr_name ts) outside) waits st = Some st' \<Longrightarrow> loop_ok ts st'"
proof (induction waits arbitrary: st)
  case (Cons wait waits)
  show ?case
  proof (cases "re_stop (fst st) \<or> wait = None")
    case True
    then show ?thesis using Cons.IH Cons.prems by (auto split: if_splits)
  next
    case False
    then obtain batch st1 where b: "wait = Some batch" "run_batch (daemon_call config (map tr_name ts) outside) batch st = Some st1"
      using Cons.prems(2) by (auto split: option.splits)
    show ?thesis using Cons.IH [OF batch_ok [OF Cons.prems(1) b(2)]] Cons.prems(2) False b by simp
  qed
qed simp

definition single :: "'a list option \<Rightarrow> bool" where
  "single wait = (case wait of None \<Rightarrow> True | Some batch \<Rightarrow> length batch \<le> 1)"

lemma single_defined:
  assumes "list_all (\<lambda>(p, e). live p (fst st)) batch" "length batch \<le> 1"
  shows "run_batch call batch st \<noteq> None"
proof (cases batch)
  case (Cons pe rest)
  obtain p e where pe: "pe = (p, e)" by (meson surj_pair)
  have "rest = []" "live p (fst st)" using assms by (auto simp: Cons pe)
  then show ?thesis using find_live [of p "fst st"] by (auto simp: Cons pe split: option.split)
qed simp

lemma run_defined: "honest_waits call waits st \<Longrightarrow> list_all single waits \<Longrightarrow> bc_reactor_run call waits st \<noteq> None"
proof (induction call waits st rule: honest_waits.induct)
  case (3 call batch waits st)
  show ?case
  proof (cases "re_stop (fst st)")
    case False
    then obtain st1 where "run_batch call batch st = Some st1"
      using 3 single_defined [of st batch call] by (auto simp: single_def)
    then show ?thesis using 3 False by auto
  qed simp
qed (auto simp: single_def)

section \<open>From the start\<close>

lemma watch_list_ok:
  assumes "\<And>fd e r rc r'. f fd e r = (rc, r') \<Longrightarrow> reactor_ok n [] r \<Longrightarrow> reactor_ok n [] r'"
  shows "reactor_ok n [] r \<Longrightarrow> reactor_ok n [] (snd (watch_list f fds r))"
proof (induction fds arbitrary: r)
  case (Cons a fds)
  obtain fd e where a: "a = (fd, e)" by (meson surj_pair)
  obtain rc r1 where s: "f fd e r = (rc, r1)" by (meson surj_pair)
  from assms [OF this Cons.prems] show ?case using Cons.IH by (simp add: a s)
qed simp

lemma add_own:
  "bc_reactor_add ok fd e (Cb_Transport i) r = (rc, r') \<Longrightarrow> reactor_ok n [] r \<Longrightarrow> i < n \<Longrightarrow> reactor_ok n [] r'"
  using add_ok [of n "[]" r ok fd e "Cb_Transport i" rc r' "[]"] by (simp add: cb_fits_def)

lemma watch_own:
  "tcp_watch_fd ok1 ok2 fd e (Cb_Transport i) r = (rc, r') \<Longrightarrow> reactor_ok n [] r \<Longrightarrow> i < n \<Longrightarrow> reactor_ok n [] r'"
proof -
  assume w: "tcp_watch_fd ok1 ok2 fd e (Cb_Transport i) r = (rc, r')" "reactor_ok n [] r" "i < n"
  obtain rc1 r1 where m: "bc_reactor_mod ok1 fd e (Cb_Transport i) r = (rc1, r1)" by (meson surj_pair)
  have "reactor_ok n [] r1" using mod_ok [OF w(2) m] w(3) by (simp add: cb_fits_def)
  then show ?thesis using w m add_own by (fastforce simp: tcp_watch_fd_def split: if_splits)
qed

lemma register_fds_ok:
  assumes "reactor_ok n [] r" "i < n"
  shows "reactor_ok n [] (snd (register_fds os (Cb_Transport i) fd listed r))"
proof -
  have w: "reactor_ok n [] (snd (watch_list (\<lambda>fd e. bc_reactor_add (mo_add os fd) fd e (Cb_Transport i)) fds r))" for fds
    by (rule watch_list_ok [OF add_own assms(1)]) (use assms(2) in auto)
  have a: "reactor_ok n [] (snd (bc_reactor_add ok fd e (Cb_Transport i) r))" for ok e
    using add_own [OF _ assms] by (metis prod.collapse)
  show ?thesis using w a assms(1)
    by (simp add: register_fds_def Let_def del: watch_list.simps list.map split: sum.split list.split)
qed

lemma register_ok:
  assumes "register_transport_fds os (Cb_Transport i) t r = Some (rc, u, r')" "reactor_ok n [] r" "i < n"
  shows "reactor_ok n [] r'"
proof -
  have w: "reactor_ok n [] (snd (watch_list (\<lambda>fd e. tcp_watch_fd (mo_mod os fd) (mo_add os fd) fd e (Cb_Transport i)) fds s))"
    if "reactor_ok n [] s" for fds s by (rule watch_list_ok [OF watch_own that]) (use assms(3) in auto)
  have a: "reactor_ok n [] (snd (watch_list (\<lambda>fd e. bc_reactor_add (mo_add os fd) fd e (Cb_Transport i)) fds s))"
    if "reactor_ok n [] s" for fds s by (rule watch_list_ok [OF add_own that]) (use assms(3) in auto)
  have tcp: "reactor_ok n [] (snd (snd (tcp_bind os (Cb_Transport i) s r)))" for s
    using w [OF assms(2), of "tcp_watches s"] by (simp add: tcp_bind_def case_prod_beta)
  have uart: "reactor_ok n [] (snd (snd (uart_bind os (Cb_Transport i) s r)))" for s
  proof -
    obtain rc1 r1 where l: "watch_list (\<lambda>fd e. tcp_watch_fd (mo_mod os fd) (mo_add os fd) fd e (Cb_Transport i)) (uart_watches s) r =
        (rc1, r1)" by (meson surj_pair)
    then have "reactor_ok n [] r1" using w [OF assms(2), of "uart_watches s"] by simp
    note ok = this
    show ?thesis using a [OF ok] ok by (simp add: uart_bind_def l Let_def case_prod_beta del: watch_list.simps filter.simps)
  qed
  note f = register_fds_ok [OF assms(2,3), of os]
  have plug: "reactor_ok n [] (snd (watch_list (\<lambda>fd e. bc_reactor_add (mo_add os fd) fd e (Cb_Transport i)) fds r))" for fds
    by (rule a [OF assms(2)])
  show ?thesis
    using assms(1,2) tcp uart f plug
    by (auto simp: register_transport_fds_def split: option.splits transport_ops.splits transport_impl.splits prod.splits)
       (metis snd_conv)+
qed

lemma register_all_ok:
  "register_transports os i ts r = Some (rc, us, r') \<Longrightarrow> reactor_ok n [] r \<Longrightarrow> i + length ts \<le> n \<Longrightarrow> reactor_ok n [] r'"
proof (induction ts arbitrary: i r us rc r')
  case (Cons t ts)
  obtain rc1 u r1 where s: "register_transport_fds os (Cb_Transport i) t r = Some (rc1, u, r1)"
    using Cons.prems(1) by (auto split: option.splits prod.splits)
  have "reactor_ok n [] r1" using register_ok [OF s Cons.prems(2)] Cons.prems(3) by simp
  then show ?case using Cons.prems Cons.IH [of "Suc i" r1] s by (auto split: if_splits option.splits prod.splits)
qed simp

definition daemon_consistent :: "'p bc_transport list \<Rightarrow> reactor \<times> 'p world daemon \<Rightarrow> bool" where
  "daemon_consistent ts = (\<lambda>(r, bus, m).
     \<not> dw_fault (mg_ext m) \<and> reasm_wf (bus_reasm bus) \<and> reactor_wf r \<and>
     (\<exists>cs. run_calls cs ts = Some (dw_transports (mg_ext m))) \<and>
     list_all (\<lambda>rx. net_look rx = More \<and> length rx < BC_MAX_FRAME_LEN) (dw_rx (mg_ext m)) \<and>
     (\<forall>item \<in> set (re_events r). case ev_cb item of
        Cb_Transport i \<Rightarrow> i < length ts | Cb_Server \<Rightarrow> True
      | Cb_Client c \<Rightarrow> c = ev_fd item \<and> find_client (mg_clients m) c \<noteq> None))"

lemma loop_safe: "loop_ok ts st \<Longrightarrow> daemon_consistent ts st"
proof -
  assume l: "loop_ok ts st"
  obtain r bus m where st: "st = (r, bus, m)" by (metis prod_cases3)
  have d: "\<not> dw_fault (mg_ext m)" "reasm_wf (bus_reasm bus)" "reactor_ok (length ts) (client_fd_list m) r"
    "\<exists>cs. run_calls cs ts = Some (dw_transports (mg_ext m))" "\<forall>rx \<in> set (dw_rx (mg_ext m)). net_look rx = More"
    using l by (simp_all add: st loop_ok_def daemon_ok_def world_ok_def)
  have "case ev_cb item of Cb_Transport i \<Rightarrow> i < length ts | Cb_Server \<Rightarrow> True
      | Cb_Client c \<Rightarrow> c = ev_fd item \<and> find_client (mg_clients m) c \<noteq> None" if "item \<in> set (re_events r)" for item
  proof -
    have "cb_fits (length ts) (client_fd_list m) (ev_fd item) (ev_cb item)" using d(3) that by (simp add: reactor_ok_def)
    then show ?thesis using find_client_ex [of _ m] by (simp add: cb_fits_def del: not_None_eq split: daemon_cb.splits)
  qed
  then show ?thesis using d look_more_short by (simp add: st daemon_consistent_def reactor_ok_def list_all_iff)
qed

lemma daemon_start_ok:
  assumes "bc_reactor_init n = (BC_OK, r0)" "bc_transport_manager_init dl oss config = Some (BC_OK, ts0)"
    and "bc_client_manager_init os (cf_socket_path config) r0 = (BC_OK, srv, r1)"
    and "register_transports os 0 ts0 r1 = Some (BC_OK, ts, r)" "list_all bounded_recv ts"
  shows "loop_ok ts (r, start_daemon config ts r)"
proof -
  obtain ts1 ps where "bc_transport_manager_init dl oss config = Some (if ts1 @ ps = [] then BC_ERR_NOT_FOUND else BC_OK, ts1 @ ps)"
    "list_all built_in ts1" "list_all plugged ps" using manager_init_core [of dl oss config] by blast
  then have "list_all ready ts0" using assms(2) built_in_ready plugged_ready by fastforce
  then obtain rc us r2 where "register_transports os 0 ts0 r1 = Some (rc, us, r2)" "list_all ready us" "list_all2 same_entry ts0 us"
    using register_transports_typed by blast
  then have rdy: "list_all ready ts" "length ts0 = length ts" using assms(4) by (auto dest: list_all2_lengthD)
  have e0: "re_events r0 = []" "reactor_wf r0" using assms(1) reactor_init_wf [OF assms(1)] by (auto simp: bc_reactor_init_def split: if_splits)
  have "reactor_ok (length ts) [] r0" using e0 by (simp add: reactor_ok_def)
  moreover obtain ok fd e where "bc_reactor_add ok fd e Cb_Server r0 = (BC_OK, r1)"
    using assms(3) by (auto simp: bc_client_manager_init_def Let_def split: if_splits prod.splits)
  ultimately have "reactor_ok (length ts) [] r1"
    using add_ok [of "length ts" "[]" r0 ok fd e Cb_Server BC_OK r1 "[]"] by (simp add: cb_fits_def)
  then have r: "reactor_ok (length ts) [] r" using register_all_ok [OF assms(4), of "length ts"] rdy(2) by simp
  have "net_look [] = More" by (simp add: net_look_def bc_protocol_frame_length_def FRAME_HEADER_SIZE_def)
  moreover have "\<exists>cs. run_calls cs ts = Some ts" by (rule exI [of _ "[]"]) simp
  ultimately show ?thesis
    using r rdy(1) assms(5) reasm_wf_init
    by (auto simp: loop_ok_def start_daemon_def daemon_ok_def world_ok_def client_fd_list_def start_bus_def
        bc_message_bus_configure_def bc_message_bus_init_def)
qed

text \<open>
  C5. The running daemon, from its start through any sequence of events: transports that receive
  and fail, clients that come, publish and go, signals, and whatever the operating system answers
  to any call. Its parts stay consistent with each other: no callback calls a transport through the
  wrong or a missing function; the reassembly stays within its arrays; each receive buffer holds the
  beginning of one frame, so it is never full and never overflows; the transports are what calls through
  their tables made of them; and every registration leads to a transport of the table or to the client
  of its descriptor that is connected at that moment. The reactor never uses an item it has freed as
  long as the waits return one event at a time; only a batch of several can reach an item that an
  earlier callback of the batch has freed.

  The statement is about this consistency only. It does not say that the run is free of undefined
  behaviour: it also covers the runs in which the client manager uses a client it has freed or divides
  by the size 0 of a ring (\<open>mg_fault\<close>, see \<open>Client_Transmit.resume_uses_freed_client\<close>), and those in which the
  send buffer of a TCP or serial transport or the computation of its delay overflows (\<open>tc_fault\<close>, \<open>ua_fault\<close>).
\<close>
theorem daemon_loop_consistent:
  assumes "bc_reactor_init n = (BC_OK, r0)" "bc_transport_manager_init dl oss config = Some (BC_OK, ts0)"
    and "bc_client_manager_init os (cf_socket_path config) r0 = (BC_OK, srv, r1)"
    and "register_transports os 0 ts0 r1 = Some (BC_OK, ts, r)" "list_all bounded_recv ts"
    and "honest_waits (daemon_call config (map tr_name ts) outside) waits (r, start_daemon config ts r)"
  shows "case daemon_loop config outside ts r waits of
      None \<Rightarrow> \<not> list_all single waits
    | Some st \<Rightarrow> daemon_consistent ts st"
proof (cases "daemon_loop config outside ts r waits")
  case None
  then show ?thesis using run_defined [OF assms(6)] by (auto simp: daemon_loop_def)
next
  case (Some st)
  then have "loop_ok ts st" using run_ok [OF daemon_start_ok [OF assms(1-5)]] by (simp add: daemon_loop_def)
  then show ?thesis using Some loop_safe by simp
qed

text \<open>
  The start of \<open>Daemon_Ready\<close>, then a client that connects, a wait that fails, a datagram that is no frame, the client's
  end, and a signal.
\<close>

definition calm_event :: event_answers where
  "calm_event = \<lparr>ea_transport = (start_os, []), ea_recvs = [], ea_accepts = [], ea_sends = [], ea_reads = [], ea_signal = False\<rparr>"

definition sample_outside :: outside where
  "sample_outside =
     \<lparr>ou_call = (\<lambda>_. \<lparr>an_transport = start_os, an_watches = [], an_reactor = (True, True), an_shm = None, an_send_fd = BC_OK\<rparr>),
      ou_event = (\<lambda>n. [calm_event\<lparr>ea_accepts := [(12, None, True)]\<rparr>,
        calm_event\<lparr>ea_recvs := [(start_os\<lparr>to_read := Got [1, 2, 3]\<rparr>, [Watch_Mod 8 1 (True, True)])]\<rparr>,
        calm_event\<lparr>ea_signal := True\<rparr>] ! n)\<rparr>"

definition sample_waits :: "(nat \<times> u32) list option list" where
  "sample_waits = [Some [(0, 1)], None, Some [(1, 1)], Some [(2, 16)], Some [(1, 1)]]"

definition start_transports :: "unit bc_transport list" where
  "start_transports = fst (snd (the start_registered))"

definition start_ready :: reactor where
  "start_ready = snd (snd (the start_registered))"

lemma sample_honest: "honest_waits (daemon_call bc_config_load_defaults (map tr_name start_transports) sample_outside) sample_waits
    (start_ready, start_daemon bc_config_load_defaults start_transports start_ready)"
  by code_simp

lemma start_built_in: "list_all (\<lambda>t. case tr_ops t of Some (Plugin_Ops _) \<Rightarrow> False | _ \<Rightarrow> True) start_transports"
  by code_simp

lemma daemon_loop_consistent_witness:
  "\<exists>st. daemon_loop bc_config_load_defaults sample_outside start_transports start_ready sample_waits = Some st \<and>
     daemon_consistent start_transports st"
proof -
  obtain m r1 where s: "start_server = (BC_OK, m, r1)" using start_server_ok by (metis prod.collapse)
  obtain us r2 where r: "start_registered = Some (BC_OK, us, r2)" using start_registered_ok by auto
  have c: "bc_reactor_init 3 = (BC_OK, start_reactor)" by (simp add: start_reactor_def bc_reactor_init_def)
  have p: "list_all bounded_recv start_transports"
    using start_built_in by (auto simp: list_all_iff bounded_recv_def split: option.splits transport_ops.splits)
  have "register_transports start_main 0 started r1 = Some (BC_OK, start_transports, start_ready)"
    using r unfolding start_registered_def s start_transports_def start_ready_def by simp
  from daemon_loop_consistent [OF c start_manager s [unfolded start_server_def] this p sample_honest]
  show ?thesis by (simp add: sample_waits_def single_def del: split_paired_Ex split: option.splits)
qed

end
