(* ===== verification/Shm_Session.thy ===== *)
theory Shm_Session
  imports Shm_Ring
begin

text \<open>
  \<^verbatim>\<open>src/shm/bc_shm.c\<close>: making, attaching and giving up the shared memory of a session. A world is the
  descriptors the process has open and the areas it has mapped (address and size); what the kernel
  answers to the calls of one operation is a record. An address of 0 is \<^verbatim>\<open>NULL\<close>, and the rings of a
  session are the addresses of their headers.
\<close>

section \<open>The operating system\<close>

record shm_world =
  sw_open :: "int list"
  sw_maps :: "(nat \<times> nat) list"

text \<open>
  \<open>an_memfd\<close> is negative if the memory could not be created; a mapping is \<open>None\<close> if it was refused,
  otherwise its address.
\<close>

record shm_answers =
  an_memfd :: int
  an_truncate :: bool
  an_map_rings :: "nat option"
  an_map_session :: "nat option"

definition os_open :: "int \<Rightarrow> shm_world \<Rightarrow> shm_world" where
  "os_open fd w = w\<lparr>sw_open := fd # sw_open w\<rparr>"

definition os_close :: "int \<Rightarrow> shm_world \<Rightarrow> shm_world" where
  "os_close fd w = w\<lparr>sw_open := remove1 fd (sw_open w)\<rparr>"

definition os_map :: "nat \<Rightarrow> nat \<Rightarrow> shm_world \<Rightarrow> shm_world" where
  "os_map base n w = w\<lparr>sw_maps := (base, n) # sw_maps w\<rparr>"

definition os_unmap :: "nat \<Rightarrow> nat \<Rightarrow> shm_world \<Rightarrow> shm_world" where
  "os_unmap base n w = w\<lparr>sw_maps := remove1 (base, n) (sw_maps w)\<rparr>"

section \<open>Sessions\<close>

text \<open>Head, tail and size; the data follow them.\<close>

definition SIZEOF_RING :: nat where "SIZEOF_RING = 12"

record bc_shm_session =
  ss_fd :: int
  ss_base :: nat
  ss_rx :: nat
  ss_tx :: nat
  ss_map_size :: nat

definition zero_session :: bc_shm_session where
  "zero_session = \<lparr>ss_fd = 0, ss_base = 0, ss_rx = 0, ss_tx = 0, ss_map_size = 0\<rparr>"

definition shm_map_size :: nat where
  "shm_map_size = SIZEOF_RING + BC_SHM_RING_SIZE + SIZEOF_RING + BC_SHM_RING_SIZE"

definition map_session ::
  "nat option \<Rightarrow> int \<Rightarrow> bc_shm_session \<Rightarrow> bool \<Rightarrow> shm_world \<Rightarrow> bc_status \<times> bc_shm_session \<times> shm_world" where
  "map_session mapped fd session client_view w =
     (let session = session\<lparr>ss_fd := fd, ss_map_size := shm_map_size\<rparr> in
      case mapped of
        None \<Rightarrow> (BC_ERR_IO, session\<lparr>ss_fd := - 1\<rparr>, w)
      | Some base \<Rightarrow>
          let second = base + SIZEOF_RING + BC_SHM_RING_SIZE; session = session\<lparr>ss_base := base\<rparr>;
              w = os_map base (ss_map_size session) w in
          if client_view then (BC_OK, session\<lparr>ss_tx := base, ss_rx := second\<rparr>, w)
          else (BC_OK, session\<lparr>ss_rx := base, ss_tx := second\<rparr>, w))"

definition bc_shm_attach ::
  "nat option \<Rightarrow> int \<Rightarrow> bool \<Rightarrow> shm_world \<Rightarrow> bc_status \<times> bc_shm_session \<times> shm_world" where
  "bc_shm_attach mapped fd client_view w = map_session mapped fd zero_session client_view w"

text \<open>The result has the two rings as they are after the first mapping (see \<open>shm_rings\<close>).\<close>

definition bc_shm_create ::
  "shm_answers \<Rightarrow> bc_shm_session \<Rightarrow> shm_world \<Rightarrow> bc_status \<times> bc_shm_session \<times> shm_world" where
  "bc_shm_create an session w =
     (let fd = an_memfd an; map_size = shm_map_size in
      if fd < 0 then (BC_ERR_IO, session, w)
      else
        let w = os_open fd w in
        if \<not> an_truncate an then (BC_ERR_IO, session, os_close fd w)
        else case an_map_rings an of
            None \<Rightarrow> (BC_ERR_IO, session, os_close fd w)
          | Some base \<Rightarrow>
              let w = os_unmap base map_size (os_map base map_size w) in
              case map_session (an_map_session an) fd zero_session False w of (rc, session, w) \<Rightarrow>
                if rc \<noteq> BC_OK then (BC_ERR_IO, session, os_close fd w) else (BC_OK, session, w))"

definition bc_shm_close :: "bc_shm_session \<Rightarrow> shm_world \<Rightarrow> bc_shm_session \<times> shm_world" where
  "bc_shm_close session w =
     (let w = (if ss_base session \<noteq> 0 then os_unmap (ss_base session) (ss_map_size session) w else w);
          w = (if ss_fd session \<ge> 0 then os_close (ss_fd session) w else w) in
      (zero_session\<lparr>ss_fd := - 1\<rparr>, w))"

section \<open>What a session holds\<close>

lemma os_simps [simp]:
  "os_close fd (os_open fd w) = w" "os_unmap base n (os_map base n w) = w"
  "sw_open (os_map base n w) = sw_open w" "sw_maps (os_open fd w) = sw_maps w"
  "sw_open (os_unmap base n w) = sw_open w" "sw_maps (os_close fd w) = sw_maps w"
  "sw_open (os_open fd w) = fd # sw_open w" "sw_maps (os_map base n w) = (base, n) # sw_maps w"
  "sw_open (os_close fd w) = remove1 fd (sw_open w)"
  by (simp_all add: os_open_def os_close_def os_map_def os_unmap_def)

lemma os_commute: "os_close fd (os_map base n w) = os_map base n (os_close fd w)"
  by (simp add: os_close_def os_map_def)

text \<open>
  Creating a session either succeeds, and then holds one descriptor and one mapping more than
  before, those of the session, and closing it gives back exactly the world before; or it fails,
  and then holds nothing; it succeeds only if the kernel granted all it was asked for. Closing a
  session twice does nothing the second time.
\<close>

theorem shm_create_close:
  assumes "an_map_session an \<noteq> Some 0" and c: "bc_shm_create an session0 w = (rc, session, w')"
  shows "(rc = BC_OK \<longleftrightarrow> an_memfd an \<ge> 0 \<and> an_truncate an \<and> an_map_rings an \<noteq> None \<and> an_map_session an \<noteq> None) \<and>
    (if rc = BC_OK
     then sw_open w' = ss_fd session # sw_open w \<and> sw_maps w' = (ss_base session, shm_map_size) # sw_maps w \<and>
       (\<exists>closed. bc_shm_close session w' = (closed, w) \<and> (\<forall>w. bc_shm_close closed w = (closed, w)))
     else w' = w)"
  using assms
  by (auto simp: bc_shm_create_def map_session_def Let_def bc_shm_close_def zero_session_def os_commute
      split: if_splits option.splits prod.splits)

lemma shm_create_close_witness:
  "\<exists>session w'. bc_shm_create \<lparr>an_memfd = 9, an_truncate = True, an_map_rings = Some 4096, an_map_session = Some 8192\<rparr>
      zero_session \<lparr>sw_open = [3], sw_maps = []\<rparr> = (BC_OK, session, w') \<and> sw_open w' = [9, 3] \<and>
    (\<exists>closed. bc_shm_close session w' = (closed, \<lparr>sw_open = [3], sw_maps = []\<rparr>))"
proof -
  let ?an = "\<lparr>an_memfd = 9, an_truncate = True, an_map_rings = Some 4096, an_map_session = Some 8192\<rparr>"
  let ?w = "\<lparr>sw_open = [3], sw_maps = []\<rparr>"
  obtain session w' where c: "bc_shm_create ?an zero_session ?w = (BC_OK, session, w')" "ss_fd session = 9"
    by (simp add: bc_shm_create_def map_session_def Let_def)
  then show ?thesis using shm_create_close [of ?an zero_session ?w BC_OK session w'] by auto
qed

text \<open>
  The two sides of a session see each other: the daemon's session and a client that attaches to
  the same memory, wherever each has it mapped, use the same two places in it, the one for
  sending what the other uses for receiving; the rings do not overlap, and end with the mapping.
\<close>

theorem shm_views_cross:
  assumes "bc_shm_create an session0 w = (BC_OK, daemon, w')" and "bc_shm_attach (Some base) fd True v = (rc, client, v')"
  shows "rc = BC_OK \<and> ss_tx client - ss_base client = ss_rx daemon - ss_base daemon \<and>
    ss_rx client - ss_base client = ss_tx daemon - ss_base daemon \<and>
    ss_tx client + SIZEOF_RING + BC_SHM_RING_SIZE = ss_rx client \<and>
    ss_rx client + SIZEOF_RING + BC_SHM_RING_SIZE = ss_base client + ss_map_size client"
  using assms
  by (auto simp: bc_shm_create_def bc_shm_attach_def map_session_def Let_def zero_session_def shm_map_size_def
      split: if_splits option.splits prod.splits)

lemma shm_views_cross_witness:
  "\<exists>daemon w'. bc_shm_create \<lparr>an_memfd = 9, an_truncate = True, an_map_rings = Some 4096, an_map_session = Some 8192\<rparr>
      zero_session \<lparr>sw_open = [], sw_maps = []\<rparr> = (BC_OK, daemon, w') \<and>
    ss_tx (fst (snd (bc_shm_attach (Some 4096) 5 True w'))) - 4096 = ss_rx daemon - ss_base daemon"
proof -
  obtain daemon w' where c: "bc_shm_create \<lparr>an_memfd = 9, an_truncate = True, an_map_rings = Some 4096, an_map_session = Some 8192\<rparr>
      zero_session \<lparr>sw_open = [], sw_maps = []\<rparr> = (BC_OK, daemon, w')"
    by (simp add: bc_shm_create_def map_session_def Let_def)
  obtain rc client v' where a: "bc_shm_attach (Some 4096) 5 True w' = (rc, client, v')" by (metis prod_cases3)
  have "ss_base client = 4096" using a by (auto simp: bc_shm_attach_def map_session_def Let_def)
  then show ?thesis using shm_views_cross [OF c a] c a by auto
qed

section \<open>A descriptor closed twice\<close>

text \<open>
  A client closes the descriptor it has received as soon as it has attached to it
  (\<^verbatim>\<open>bc_enable_shm\<close>), but the session keeps its number, and closing the session closes that
  number again: if the program has opened something else in the meantime and the
  kernel has handed the number out again, that is what is closed.
\<close>

theorem shm_attach_closes_twice:
  assumes "bc_shm_attach (Some base) fd True w = (BC_OK, session, w1)" "fd \<ge> 0"
    and "sw_open w2 = sw_open (os_open fd (os_close fd w1))"
  shows "sw_open (snd (bc_shm_close session w2)) = sw_open (os_close fd w1)"
  using assms by (auto simp: bc_shm_attach_def map_session_def bc_shm_close_def Let_def zero_session_def)

lemma shm_attach_closes_twice_witness:
  "\<exists>session w1. bc_shm_attach (Some 4096) 5 True \<lparr>sw_open = [5, 3], sw_maps = []\<rparr> = (BC_OK, session, w1) \<and>
    sw_open (snd (bc_shm_close session (os_open 5 (os_close 5 w1)))) = [3]"
proof -
  obtain session w1 where a: "bc_shm_attach (Some 4096) 5 True \<lparr>sw_open = [5, 3], sw_maps = []\<rparr> = (BC_OK, session, w1)"
    "sw_open w1 = [5, 3]"
    by (simp add: bc_shm_attach_def map_session_def Let_def)
  then show ?thesis using shm_attach_closes_twice [OF a(1) _ refl] by simp
qed

end
