(* ===== verification/Bc_Client.thy ===== *)
theory Bc_Client
  imports Ipc_Protocol Shm_Ring Byte_Queue
begin

text \<open>
  \<^verbatim>\<open>api/bc_client.c\<close>: the client library. The operating system and the daemon behind it are the
  functions of \<open>net\<close> on a world \<open>'x\<close>: one function for each system call the library makes, with
  interrupted calls left out (the code repeats them). A \<open>bc_context\<close> is a connection with its
  shared-memory rings, if it has them, as (receive, transmit), and the number the session keeps of
  the descriptor it was attached to; the library's globals are one more. The result \<open>None\<close> of an operation is undefined behaviour: a ring left out of bounds, or
  bytes read that no one wrote. Negative descriptors returned by \<^verbatim>\<open>bc_open\<close> are status values.
\<close>

section \<open>The system calls\<close>

datatype poll_result = Poll_Ready | Poll_Timeout | Poll_Error

record 'x net =
  nt_socket :: "'x \<Rightarrow> int option \<times> 'x"
  nt_connect :: "int \<Rightarrow> byte list \<Rightarrow> 'x \<Rightarrow> bool \<times> 'x"
  nt_send :: "int \<Rightarrow> byte list \<Rightarrow> 'x \<Rightarrow> io_result \<times> 'x"
  nt_read :: "int \<Rightarrow> nat \<Rightarrow> 'x \<Rightarrow> byte list \<times> 'x"
  nt_poll :: "int \<Rightarrow> int \<Rightarrow> 'x \<Rightarrow> poll_result \<times> 'x"
  nt_recv_fd :: "int \<Rightarrow> 'x \<Rightarrow> int option \<times> 'x"
  nt_attach :: "int \<Rightarrow> 'x \<Rightarrow> (bc_shm_ring \<times> bc_shm_ring) option \<times> 'x"
  nt_close :: "int \<Rightarrow> 'x \<Rightarrow> bool \<times> 'x"
  nt_sleep :: "bc_shm_ring \<Rightarrow> 'x \<Rightarrow> bc_shm_ring \<times> 'x"

record bc_context =
  ctx_fd :: int
  ctx_shm :: "(bc_shm_ring \<times> bc_shm_ring) option"
  ctx_shm_fd :: int
  ctx_cb :: bool

definition no_context :: bc_context where
  "no_context = \<lparr>ctx_fd = - 1, ctx_shm = None, ctx_shm_fd = 0, ctx_cb = False\<rparr>"

section \<open>Whole buffers\<close>

text \<open>A result of 0 bytes, an error and a would-block all end these loops with an error.\<close>

function write_all :: "'x net \<Rightarrow> int \<Rightarrow> byte list \<Rightarrow> 'x \<Rightarrow> bc_status \<times> 'x" where
  "write_all net fd data x =
     (if data = [] then (BC_OK, x)
      else case nt_send net fd data x of (r, x) \<Rightarrow>
        (case r of Done n \<Rightarrow> if n > 0 then write_all net fd (drop n data) x else (BC_ERR_IO, x)
         | _ \<Rightarrow> (BC_ERR_IO, x)))"
  by pat_completeness auto
termination by (relation "measure (\<lambda>(_, _, data, _). length data)") auto

declare write_all.simps [simp del]

text \<open>\<open>None\<close> for an error; no bytes from a read are an error too.\<close>

function read_all :: "'x net \<Rightarrow> int \<Rightarrow> nat \<Rightarrow> 'x \<Rightarrow> byte list option \<times> 'x" where
  "read_all net fd len x =
     (if len = 0 then (Some [], x)
      else case nt_read net fd len x of (got, x) \<Rightarrow>
        if got = [] then (None, x)
        else case read_all net fd (len - length got) x of (rest, x) \<Rightarrow> (map_option ((@) got) rest, x))"
  by pat_completeness auto
termination by (relation "measure (\<lambda>(_, _, len, _). len)") auto

declare read_all.simps [simp del]

section \<open>Sending\<close>

definition client_header :: "u16 \<Rightarrow> bc_ipc_header" where
  "client_header type = empty_ipc_header\<lparr>ih_magic := BC_IPC_MAGIC, ih_version := BC_IPC_VERSION, ih_type := type\<rparr>"

definition send_shm_kick :: "'x net \<Rightarrow> int \<Rightarrow> 'x \<Rightarrow> bc_status \<times> 'x" where
  "send_shm_kick net fd x = write_all net fd (put_ipc_header (client_header (ipc_code BC_IPC_SHM_KICK))) x"

text \<open>The loop over the full ring, which waits for the daemon to take frames out of it.\<close>

fun shm_write_loop :: "'x net \<Rightarrow> int \<Rightarrow> nat \<Rightarrow> bc_shm_ring \<Rightarrow> byte list \<Rightarrow> 'x \<Rightarrow> (bc_status \<times> bc_shm_ring \<times> 'x) option" where
  "shm_write_loop net fd 0 tx frame x = Some (BC_ERR_NOMEM, tx, x)"
| "shm_write_loop net fd (Suc tries) tx frame x =
     (case bc_shm_ring_write tx frame of
        None \<Rightarrow> None
      | Some (rc, tx) \<Rightarrow>
          if rc \<noteq> BC_ERR_NOMEM then Some (rc, tx, x)
          else case nt_sleep net tx (snd (send_shm_kick net fd x)) of (tx, x) \<Rightarrow>
            shm_write_loop net fd tries tx frame x)"

definition shm_write_frame ::
  "'x net \<Rightarrow> bc_shm_ring \<Rightarrow> int \<Rightarrow> byte list \<Rightarrow> 'x \<Rightarrow> (bc_status \<times> bc_shm_ring \<times> 'x) option" where
  "shm_write_frame net tx fd frame x =
     (case shm_write_loop net fd 10000 tx frame x of
        None \<Rightarrow> None
      | Some (rc, tx, x) \<Rightarrow>
          if rc \<noteq> BC_OK then Some (rc, tx, x)
          else case send_shm_kick net fd x of (rc, x) \<Rightarrow> Some (rc, tx, x))"

record bc_publish_opts =
  po_dst_node :: u32
  po_qos :: u16
  po_flags :: u16

definition FRAME_CAP :: nat where
  "FRAME_CAP = IPC_HEADER_SIZE + BC_MAX_CHANNEL_LEN + BC_MAX_TOPIC_LEN + BC_MAX_PAYLOAD_LEN"

text \<open>A missing channel is an empty one, which the code treats alike.\<close>

definition build_ipc_frame ::
  "u16 \<Rightarrow> byte list \<Rightarrow> byte list \<Rightarrow> byte list \<Rightarrow> bc_publish_opts option \<Rightarrow> bc_status + byte list" where
  "build_ipc_frame type channel topic payload opts =
     (if cstr topic = [] then Inl BC_ERR_INVALID
      else if length payload > BC_MAX_PAYLOAD_LEN then Inl BC_ERR_INVALID
      else
        let topic_len = strnlen topic BC_MAX_TOPIC_LEN in
        if topic_len = 0 \<or> topic_len \<ge> BC_MAX_TOPIC_LEN then Inl BC_ERR_INVALID
        else
          let channel_len = strnlen channel BC_MAX_CHANNEL_LEN in
          if cstr channel \<noteq> [] \<and> (channel_len = 0 \<or> channel_len \<ge> BC_MAX_CHANNEL_LEN) then Inl BC_ERR_INVALID
          else
            let header = (client_header type)\<lparr>ih_topic_len := of_nat topic_len, ih_channel_len := of_nat channel_len,
                  ih_payload_len := of_nat (length payload)\<rparr>;
                header = (case opts of None \<Rightarrow> header
                  | Some opt \<Rightarrow> header\<lparr>ih_dst_node := po_dst_node opt, ih_qos := po_qos opt, ih_flags := po_flags opt\<rparr>) in
            if IPC_HEADER_SIZE + channel_len + topic_len + length payload > FRAME_CAP then Inl BC_ERR_INVALID
            else Inr (put_ipc_header header @ take channel_len channel @ take topic_len topic @ payload))"

definition send_ipc_message ::
  "'x net \<Rightarrow> u16 \<Rightarrow> byte list \<Rightarrow> byte list \<Rightarrow> byte list \<Rightarrow> bc_publish_opts option \<Rightarrow> bc_context \<Rightarrow> 'x \<Rightarrow>
     (bc_status \<times> bc_context \<times> 'x) option" where
  "send_ipc_message net type channel topic payload opts ctx x =
     (if ctx_fd ctx < 0 then Some (BC_ERR_INVALID, ctx, x)
      else case build_ipc_frame type channel topic payload opts of
          Inl rc \<Rightarrow> Some (rc, ctx, x)
        | Inr frame \<Rightarrow>
            (case ctx_shm ctx of
               Some (rx, tx) \<Rightarrow>
                 (case shm_write_frame net tx (ctx_fd ctx) frame x of
                    None \<Rightarrow> None
                  | Some (rc, tx, x) \<Rightarrow> Some (rc, ctx\<lparr>ctx_shm := Some (rx, tx)\<rparr>, x))
             | None \<Rightarrow> (case write_all net (ctx_fd ctx) frame x of (rc, x) \<Rightarrow> Some (rc, ctx, x))))"

text \<open>
  The operations on a descriptor use the rings only if it is the global one; \<open>on_handle\<close> gives
  the connection they work on and puts what became of it back.
\<close>

definition handle_context :: "bc_context \<Rightarrow> int \<Rightarrow> bc_context" where
  "handle_context g handle = \<lparr>ctx_fd = handle, ctx_shm = (if handle = ctx_fd g then ctx_shm g else None),
     ctx_shm_fd = ctx_shm_fd g, ctx_cb = False\<rparr>"

definition put_back :: "bc_context \<Rightarrow> int \<Rightarrow> bc_context \<Rightarrow> bc_context" where
  "put_back g handle ctx = (if handle = ctx_fd g then g\<lparr>ctx_shm := ctx_shm ctx\<rparr> else g)"

definition bc_write_ex ::
  "'x net \<Rightarrow> int \<Rightarrow> byte list \<Rightarrow> byte list \<Rightarrow> byte list \<Rightarrow> bc_publish_opts option \<Rightarrow> bc_context \<Rightarrow> 'x \<Rightarrow>
     ((bc_status + nat) \<times> bc_context \<times> 'x) option" where
  "bc_write_ex net handle channel topic payload opts g x =
     (case send_ipc_message net (ipc_code BC_IPC_PUBLISH) channel topic payload opts (handle_context g handle) x of
        None \<Rightarrow> None
      | Some (rc, ctx, x) \<Rightarrow>
          Some (if rc = BC_OK then Inr (length payload) else Inl rc, put_back g handle ctx, x))"

definition bc_write_channel where
  "bc_write_channel net handle channel topic payload g x = bc_write_ex net handle channel topic payload None g x"

definition bc_write where
  "bc_write net handle topic payload g x = bc_write_ex net handle [] topic payload None g x"

definition bc_subscribe_fd :: "'x net \<Rightarrow> int \<Rightarrow> byte list \<Rightarrow> bc_context \<Rightarrow> 'x \<Rightarrow> (bc_status \<times> bc_context \<times> 'x) option" where
  "bc_subscribe_fd net handle topic g x =
     (case send_ipc_message net (ipc_code BC_IPC_SUBSCRIBE) [] topic [] None (handle_context g handle) x of
        None \<Rightarrow> None | Some (rc, ctx, x) \<Rightarrow> Some (rc, put_back g handle ctx, x))"

section \<open>Receiving\<close>

text \<open>
  The result of a read: the topic with its terminator as stored in the caller's buffer, and
  the payload. A reply with statistics leaves the topic buffer as it was. That reply is not
  checked against the caller's capacity (\<open>None\<close> when it exceeds it).
\<close>

definition parse_shm_frame :: "nat \<Rightarrow> nat \<Rightarrow> byte list \<Rightarrow> (bc_status + byte list \<times> byte list) option" where
  "parse_shm_frame topic_cap payload_cap frame =
     (if length frame < bc_ipc_header_size BC_IPC_VERSION then Some (Inl BC_ERR_IO)
      else
        let header = get_ipc_header (take IPC_HEADER_SIZE frame) in
        if ih_magic header \<noteq> BC_IPC_MAGIC \<or> ih_type header \<noteq> ipc_code BC_IPC_DELIVER then Some (Inl BC_ERR_IO)
        else
          let topic_len = unat (ih_topic_len header); payload_len = unat (ih_payload_len header);
              off = bc_ipc_header_size (ih_version header) + unat (ih_channel_len header) in
          if topic_len = 0 \<or> topic_len \<ge> BC_MAX_TOPIC_LEN \<or> payload_len > BC_MAX_PAYLOAD_LEN \<or>
             topic_cap \<le> topic_len \<or> payload_cap < payload_len then Some (Inl BC_ERR_IO)
          else if off + topic_len + payload_len > length frame then None
          else Some (Inr (fld off topic_len frame @ [0], fld (off + topic_len) payload_len frame)))"

definition read_socket_message ::
  "'x net \<Rightarrow> int \<Rightarrow> byte list \<Rightarrow> nat \<Rightarrow> nat \<Rightarrow> 'x \<Rightarrow> ((bc_status + byte list \<times> byte list) \<times> 'x) option" where
  "read_socket_message net fd topic0 topic_cap payload_cap x =
     (case read_all net fd IPC_HEADER_SIZE x of
        (None, x) \<Rightarrow> Some (Inl BC_ERR_IO, x)
      | (Some bytes, x) \<Rightarrow>
          let header = get_ipc_header bytes;
              channel_len = unat (ih_channel_len header); topic_len = unat (ih_topic_len header);
              payload_len = unat (ih_payload_len header) in
          if ih_magic header \<noteq> BC_IPC_MAGIC then Some (Inl BC_ERR_IO, x)
          else if ih_type header = ipc_code BC_IPC_STATS then
            if payload_len > payload_cap then None
            else (case read_all net fd payload_len x of
                (None, x) \<Rightarrow> Some (Inl BC_ERR_IO, x)
              | (Some payload, x) \<Rightarrow> Some (Inr (topic0, payload), x))
          else if ih_type header \<noteq> ipc_code BC_IPC_DELIVER then Some (Inl BC_ERR_IO, x)
          else if channel_len \<ge> BC_MAX_CHANNEL_LEN \<or> topic_len = 0 \<or> topic_len \<ge> BC_MAX_TOPIC_LEN \<or>
            payload_len > BC_MAX_PAYLOAD_LEN \<or> topic_cap \<le> topic_len \<or> payload_cap < payload_len
          then Some (Inl BC_ERR_IO, x)
          else (case read_all net fd channel_len x of
              (None, x) \<Rightarrow> Some (Inl BC_ERR_IO, x)
            | (Some channel, x) \<Rightarrow>
                (case read_all net fd topic_len x of
                   (None, x) \<Rightarrow> Some (Inl BC_ERR_IO, x)
                 | (Some topic, x) \<Rightarrow>
                     (case read_all net fd payload_len x of
                        (None, x) \<Rightarrow> Some (Inl BC_ERR_IO, x)
                      | (Some payload, x) \<Rightarrow> Some (Inr (topic @ [0], payload), x)))))"

definition read_ipc_deliver ::
  "'x net \<Rightarrow> byte list \<Rightarrow> nat \<Rightarrow> nat \<Rightarrow> int \<Rightarrow> bc_context \<Rightarrow> 'x \<Rightarrow>
     ((bc_status + byte list \<times> byte list) \<times> bc_context \<times> 'x) option" where
  "read_ipc_deliver net topic0 topic_cap payload_cap timeout_ms ctx x =
     (if ctx_fd ctx < 0 \<or> topic_cap = 0 then Some (Inl BC_ERR_INVALID, ctx, x)
      else
        let from_socket =
          (case nt_poll net (ctx_fd ctx) timeout_ms x of
             (Poll_Timeout, x) \<Rightarrow> Some (Inl BC_ERR_TIMEOUT, ctx, x)
           | (Poll_Error, x) \<Rightarrow> Some (Inl BC_ERR_IO, ctx, x)
           | (Poll_Ready, x) \<Rightarrow>
               map_option (\<lambda>(r, x). (r, ctx, x))
                 (read_socket_message net (ctx_fd ctx) topic0 topic_cap payload_cap x)) in
        case ctx_shm ctx of
          None \<Rightarrow> from_socket
        | Some (rx, tx) \<Rightarrow>
            (case bc_shm_ring_read rx FRAME_CAP of
               None \<Rightarrow> None
             | Some (Inr frame, rx) \<Rightarrow>
                 map_option (\<lambda>r. (r, ctx\<lparr>ctx_shm := Some (rx, tx)\<rparr>, x)) (parse_shm_frame topic_cap payload_cap frame)
             | Some (Inl rc, _) \<Rightarrow> if rc \<noteq> BC_ERR_NOT_FOUND then Some (Inl rc, ctx, x) else from_socket))"

definition bc_read ::
  "'x net \<Rightarrow> int \<Rightarrow> byte list \<Rightarrow> nat \<Rightarrow> nat \<Rightarrow> int \<Rightarrow> bc_context \<Rightarrow> 'x \<Rightarrow>
     ((bc_status + byte list \<times> byte list) \<times> bc_context \<times> 'x) option" where
  "bc_read net handle topic0 topic_cap payload_cap timeout_ms g x =
     map_option (\<lambda>(r, ctx, x). (r, put_back g handle ctx, x))
       (read_ipc_deliver net topic0 topic_cap payload_cap timeout_ms (handle_context g handle) x)"

section \<open>Connections\<close>

definition SUN_PATH_SIZE :: nat where "SUN_PATH_SIZE = 108"
definition BC_DEFAULT_SOCKET_PATH :: "byte list" where "BC_DEFAULT_SOCKET_PATH = str ''/tmp/boardcommd.sock''"

definition bc_open :: "'x net \<Rightarrow> byte list option \<Rightarrow> 'x \<Rightarrow> (bc_status + int) \<times> 'x" where
  "bc_open net socket_path x =
     (let path = (case socket_path of None \<Rightarrow> BC_DEFAULT_SOCKET_PATH | Some p \<Rightarrow> p) in
      case nt_socket net x of
        (None, x) \<Rightarrow> (Inl BC_ERR_IO, x)
      | (Some fd, x) \<Rightarrow>
          if length (cstr path) \<ge> SUN_PATH_SIZE then (Inl BC_ERR_INVALID, snd (nt_close net fd x))
          else (case nt_connect net fd (cstr path) x of (connected, x) \<Rightarrow>
            if \<not> connected then (Inl BC_ERR_IO, snd (nt_close net fd x)) else (Inr fd, x)))"

text \<open>
  \<^verbatim>\<open>bc_shm_close\<close> on the session of a context that has one: it closes the descriptor number the
  session keeps, which was closed once already when the session was set up (below).
\<close>

definition close_session :: "'x net \<Rightarrow> bc_context \<Rightarrow> 'x \<Rightarrow> bc_context \<times> 'x" where
  "close_session net ctx x =
     (if ctx_shm ctx = None then (ctx, x)
      else (ctx\<lparr>ctx_shm := None, ctx_shm_fd := - 1\<rparr>,
        if ctx_shm_fd ctx \<ge> 0 then snd (nt_close net (ctx_shm_fd ctx) x) else x))"

definition bc_close :: "'x net \<Rightarrow> int \<Rightarrow> bc_context \<Rightarrow> 'x \<Rightarrow> bc_status \<times> bc_context \<times> 'x" where
  "bc_close net handle g x =
     (if handle < 0 then (BC_ERR_INVALID, g, x)
      else
        case (if handle = ctx_fd g then (case close_session net g x of (g, x) \<Rightarrow> (g\<lparr>ctx_fd := - 1\<rparr>, x)) else (g, x)) of
          (g, x) \<Rightarrow> (case nt_close net handle x of (closed, x) \<Rightarrow> (if closed then BC_OK else BC_ERR_IO, g, x)))"

text \<open>
  The exchange that sets up shared memory. A session the connection had is closed after the new
  descriptor has come; the rings replace those of that session.
\<close>

definition enable_shm_exchange :: "'x net \<Rightarrow> bc_context \<Rightarrow> 'x \<Rightarrow> bc_status \<times> bc_context \<times> 'x" where
  "enable_shm_exchange net ctx x =
     (case write_all net (ctx_fd ctx) (put_ipc_header (client_header (ipc_code BC_IPC_SHM_SETUP))) x of (rc, x) \<Rightarrow>
        if rc \<noteq> BC_OK then (BC_ERR_IO, ctx, x)
        else case nt_recv_fd net (ctx_fd ctx) x of
            (None, x) \<Rightarrow> (BC_ERR_IO, ctx, x)
          | (Some shm_fd, x) \<Rightarrow>
              (case close_session net ctx x of (ctx, x) \<Rightarrow>
                 case nt_attach net shm_fd x of
                   (None, x) \<Rightarrow> (BC_ERR_IO, ctx, snd (nt_close net shm_fd x))
                 | (Some rings, x) \<Rightarrow>
                     (BC_OK, ctx\<lparr>ctx_shm := Some (session_rx True rings, session_tx True rings), ctx_shm_fd := shm_fd\<rparr>,
                      snd (nt_close net shm_fd x))))"

definition bc_enable_shm :: "'x net \<Rightarrow> int \<Rightarrow> bc_context \<Rightarrow> 'x \<Rightarrow> bc_status \<times> bc_context \<times> 'x" where
  "bc_enable_shm net handle g x =
     (if handle < 0 then (BC_ERR_INVALID, g, x)
      else
        let g' = (if ctx_fd g < 0 then g\<lparr>ctx_fd := handle\<rparr> else g) in
        if handle \<noteq> ctx_fd g' then (BC_ERR_INVALID, g', x) else enable_shm_exchange net g' x)"

definition bc_context_enable_shm :: "'x net \<Rightarrow> bc_context \<Rightarrow> 'x \<Rightarrow> bc_status \<times> bc_context \<times> 'x" where
  "bc_context_enable_shm net ctx x =
     (if ctx_fd ctx < 0 then (BC_ERR_INVALID, ctx, x) else enable_shm_exchange net ctx x)"

definition bc_open_with_shm :: "'x net \<Rightarrow> byte list option \<Rightarrow> bc_context \<Rightarrow> 'x \<Rightarrow> (bc_status + int) \<times> bc_context \<times> 'x" where
  "bc_open_with_shm net socket_path g x =
     (case bc_open net socket_path x of
        (Inl rc, x) \<Rightarrow> (Inl rc, g, x)
      | (Inr fd, x) \<Rightarrow> (case bc_enable_shm net fd (g\<lparr>ctx_fd := fd\<rparr>) x of (_, g, x) \<Rightarrow> (Inr fd, g, x)))"

definition bc_init :: "'x net \<Rightarrow> byte list option \<Rightarrow> bc_context \<Rightarrow> 'x \<Rightarrow> bc_status \<times> bc_context \<times> 'x" where
  "bc_init net socket_path g x =
     (if ctx_fd g \<ge> 0 then (BC_OK, g, x)
      else case bc_open net socket_path x of
          (Inl rc, x) \<Rightarrow> (rc, g\<lparr>ctx_fd := status_code rc\<rparr>, x)
        | (Inr fd, x) \<Rightarrow> (BC_OK, g\<lparr>ctx_fd := fd\<rparr>, x))"

definition ensure_connected :: "'x net \<Rightarrow> bc_context \<Rightarrow> 'x \<Rightarrow> bc_status \<times> bc_context \<times> 'x" where
  "ensure_connected net g x = (if ctx_fd g \<ge> 0 then (BC_OK, g, x) else bc_init net None g x)"

definition bc_shutdown :: "'x net \<Rightarrow> bc_context \<Rightarrow> 'x \<Rightarrow> bc_context \<times> 'x" where
  "bc_shutdown net g x =
     (case close_session net g x of (g, x) \<Rightarrow>
        if ctx_fd g \<ge> 0
        then (case bc_close net (ctx_fd g) g x of (_, g, x) \<Rightarrow> (g\<lparr>ctx_fd := - 1, ctx_cb := False\<rparr>, x))
        else (g\<lparr>ctx_cb := False\<rparr>, x))"

definition bc_publish :: "'x net \<Rightarrow> byte list \<Rightarrow> byte list \<Rightarrow> bc_context \<Rightarrow> 'x \<Rightarrow> (bc_status \<times> bc_context \<times> 'x) option" where
  "bc_publish net topic payload g x =
     (case ensure_connected net g x of (rc, g, x) \<Rightarrow>
        if rc \<noteq> BC_OK then Some (BC_ERR_IO, g, x)
        else case bc_write net (ctx_fd g) topic payload g x of
            None \<Rightarrow> None
          | Some (r, g, x) \<Rightarrow> Some (case r of Inr _ \<Rightarrow> BC_OK | Inl _ \<Rightarrow> BC_ERR_IO, g, x))"

definition bc_subscribe :: "'x net \<Rightarrow> byte list \<Rightarrow> bool \<Rightarrow> bc_context \<Rightarrow> 'x \<Rightarrow> (bc_status \<times> bc_context \<times> 'x) option" where
  "bc_subscribe net topic cb g x =
     (if \<not> cb then Some (BC_ERR_INVALID, g, x)
      else case ensure_connected net g x of (rc, g, x) \<Rightarrow>
        if rc \<noteq> BC_OK then Some (BC_ERR_IO, g, x)
        else case bc_subscribe_fd net (ctx_fd g) topic g x of
            None \<Rightarrow> None
          | Some (rc, g, x) \<Rightarrow> Some (rc, if rc = BC_OK then g\<lparr>ctx_cb := True\<rparr> else g, x))"

text \<open>Polling gives the message the callback is called with.\<close>

definition bc_poll ::
  "'x net \<Rightarrow> int \<Rightarrow> bc_context \<Rightarrow> 'x \<Rightarrow> ((bc_status + byte list \<times> byte list) \<times> bc_context \<times> 'x) option" where
  "bc_poll net timeout_ms g x =
     (case ensure_connected net g x of (rc, g, x) \<Rightarrow>
        if rc \<noteq> BC_OK \<or> \<not> ctx_cb g then Some (Inl BC_ERR_INVALID, g, x)
        else bc_read net (ctx_fd g) (zeros BC_MAX_TOPIC_LEN) BC_MAX_TOPIC_LEN BC_MAX_PAYLOAD_LEN timeout_ms g x)"

definition bc_context_create :: "'x net \<Rightarrow> byte list option \<Rightarrow> 'x \<Rightarrow> bc_context option \<times> 'x" where
  "bc_context_create net socket_path x =
     (case bc_open net socket_path x of
        (Inl rc, x) \<Rightarrow> (None, x) | (Inr fd, x) \<Rightarrow> (Some (no_context\<lparr>ctx_fd := fd\<rparr>), x))"

definition bc_context_destroy :: "'x net \<Rightarrow> bc_context \<Rightarrow> 'x \<Rightarrow> 'x" where
  "bc_context_destroy net ctx x =
     (case close_session net ctx x of (ctx, x) \<Rightarrow> if ctx_fd ctx \<ge> 0 then snd (nt_close net (ctx_fd ctx) x) else x)"

definition bc_context_publish ::
  "'x net \<Rightarrow> byte list \<Rightarrow> byte list \<Rightarrow> bc_context \<Rightarrow> 'x \<Rightarrow> (bc_status \<times> bc_context \<times> 'x) option" where
  "bc_context_publish net topic payload ctx x =
     map_option (\<lambda>(rc, ctx, x). (if rc = BC_OK then BC_OK else BC_ERR_IO, ctx, x))
       (send_ipc_message net (ipc_code BC_IPC_PUBLISH) [] topic payload None ctx x)"

definition bc_context_subscribe ::
  "'x net \<Rightarrow> byte list \<Rightarrow> bool \<Rightarrow> bc_context \<Rightarrow> 'x \<Rightarrow> (bc_status \<times> bc_context \<times> 'x) option" where
  "bc_context_subscribe net topic cb ctx x =
     (if \<not> cb then Some (BC_ERR_INVALID, ctx, x)
      else map_option (\<lambda>(rc, ctx, x). if rc = BC_OK then (BC_OK, ctx\<lparr>ctx_cb := True\<rparr>, x) else (BC_ERR_IO, ctx, x))
        (send_ipc_message net (ipc_code BC_IPC_SUBSCRIBE) [] topic [] None ctx x))"

definition bc_context_poll ::
  "'x net \<Rightarrow> int \<Rightarrow> bc_context \<Rightarrow> 'x \<Rightarrow> ((bc_status + byte list \<times> byte list) \<times> bc_context \<times> 'x) option" where
  "bc_context_poll net timeout_ms ctx x =
     (if \<not> ctx_cb ctx then Some (Inl BC_ERR_INVALID, ctx, x)
      else read_ipc_deliver net (zeros BC_MAX_TOPIC_LEN) BC_MAX_TOPIC_LEN BC_MAX_PAYLOAD_LEN timeout_ms ctx x)"

section \<open>Statistics\<close>

definition CLIENT_STATS_SIZE :: nat where "CLIENT_STATS_SIZE = 72"

record bc_client_stats =
  st_pub_local :: u64
  st_pub_network :: u64
  st_pub_failed :: u64
  st_rx_network :: u64
  st_rx_local :: u64
  st_rx_forward :: u64
  st_rx_drop :: u64
  st_ack_sent :: u64
  st_ack_recv :: u64

definition get_client_stats :: "byte list \<Rightarrow> bc_client_stats" where
  "get_client_stats bs =
     \<lparr>st_pub_local = of_le (fld 0 8 bs), st_pub_network = of_le (fld 8 8 bs), st_pub_failed = of_le (fld 16 8 bs),
      st_rx_network = of_le (fld 24 8 bs), st_rx_local = of_le (fld 32 8 bs), st_rx_forward = of_le (fld 40 8 bs),
      st_rx_drop = of_le (fld 48 8 bs), st_ack_sent = of_le (fld 56 8 bs), st_ack_recv = of_le (fld 64 8 bs)\<rparr>"

definition bc_get_stats :: "'x net \<Rightarrow> int \<Rightarrow> 'x \<Rightarrow> (bc_status + bc_client_stats) \<times> 'x" where
  "bc_get_stats net handle x =
     (if handle < 0 then (Inl BC_ERR_INVALID, x)
      else case write_all net handle (put_ipc_header (client_header (ipc_code BC_IPC_STATS))) x of (rc, x) \<Rightarrow>
        if rc \<noteq> BC_OK then (Inl BC_ERR_IO, x)
        else case read_all net handle CLIENT_STATS_SIZE x of
            (None, x) \<Rightarrow> (Inl BC_ERR_IO, x) | (Some bytes, x) \<Rightarrow> (Inr (get_client_stats bytes), x))"

text \<open>The two operations that are not implemented.\<close>

definition bc_discover_nodes :: "nat \<Rightarrow> bc_status \<times> nat" where
  "bc_discover_nodes cap = (BC_ERR_NOT_FOUND, 0)"

definition bc_persist_enable :: "byte list \<Rightarrow> bc_status" where
  "bc_persist_enable queue_path = BC_OK"

section \<open>Asking for shared memory again\<close>

text \<open>
  The number a session keeps is free once the descriptor has been closed, so the kernel may give it
  to the descriptor that comes with the answer to a second request. Closing the old session then closes the
  new descriptor before it is attached to: the request fails, and the connection has no session left.
\<close>

lemma enable_again_fails:
  assumes "write_all net (ctx_fd ctx) (put_ipc_header (client_header (ipc_code BC_IPC_SHM_SETUP))) x = (BC_OK, x1)"
    and "nt_recv_fd net (ctx_fd ctx) x1 = (Some (ctx_shm_fd ctx), x2)" "ctx_shm_fd ctx \<ge> 0" "ctx_shm ctx \<noteq> None"
    and closed: "\<And>fd x. fst (nt_attach net fd (snd (nt_close net fd x))) = None"
  shows "\<exists>ctx' x'. enable_shm_exchange net ctx x = (BC_ERR_IO, ctx', x') \<and> ctx_shm ctx' = None"
  using assms(1-4) closed [of "ctx_shm_fd ctx" x2]
  by (auto simp: enable_shm_exchange_def close_session_def split: prod.splits)

end
