(* ===== verification/Client_Link.thy ===== *)
theory Client_Link
  imports Bc_Client Client_Stream
begin

text \<open>
  The client library against the daemon: a message the client sends is the request the daemon
  acts on, a message the daemon delivers is the one the client returns, over a socket that
  splits and joins the bytes as it likes, and over the shared ring; and where the two
  sides do not agree on the protocol.
\<close>

section \<open>Stream sockets\<close>

text \<open>
  What the library relies on: a send takes a first part of its bytes, a read returns a
  first part, not longer than asked for, of the bytes that are there, and a wait ends when
  there are any. \<open>inp\<close> and \<open>out\<close> are what
  the other end has sent and not been read, and what it will be able to read.
\<close>

definition stream_socket :: "'x net \<Rightarrow> int \<Rightarrow> ('x \<Rightarrow> byte list) \<Rightarrow> ('x \<Rightarrow> byte list) \<Rightarrow> bool" where
  "stream_socket net fd inp out \<longleftrightarrow>
     (\<forall>d x. d \<noteq> [] \<longrightarrow> (\<exists>k x'. nt_send net fd d x = (Done k, x') \<and> 0 < k \<and> k \<le> length d \<and>
        out x' = out x @ take k d \<and> inp x' = inp x)) \<and>
     (\<forall>n x. 0 < n \<longrightarrow> inp x \<noteq> [] \<longrightarrow> (\<exists>k x'. nt_read net fd n x = (take k (inp x), x') \<and> 0 < k \<and> k \<le> n \<and>
        inp x' = drop k (inp x) \<and> out x' = out x)) \<and>
     (\<forall>t x. inp x \<noteq> [] \<longrightarrow> (\<exists>x'. nt_poll net fd t x = (Poll_Ready, x') \<and> inp x' = inp x \<and> out x' = out x))"

lemma stream_send:
  assumes "stream_socket net fd inp out" "d \<noteq> []"
  obtains k x' where "nt_send net fd d x = (Done k, x')" "0 < k" "k \<le> length d"
    "out x' = out x @ take k d" "inp x' = inp x"
  using assms unfolding stream_socket_def by blast

lemma stream_read:
  assumes "stream_socket net fd inp out" "0 < n" "inp x \<noteq> []"
  obtains k x' where "nt_read net fd n x = (take k (inp x), x')" "0 < k" "k \<le> n"
    "inp x' = drop k (inp x)" "out x' = out x"
  using assms unfolding stream_socket_def by blast

lemma stream_poll:
  assumes "stream_socket net fd inp out" "inp x \<noteq> []"
  obtains x' where "nt_poll net fd t x = (Poll_Ready, x')" "inp x' = inp x" "out x' = out x"
  using assms unfolding stream_socket_def by blast

text \<open>One such socket: a pipe that moves at most five bytes at a time.\<close>

definition pipe_net :: "(byte list \<times> byte list) net" where
  "pipe_net =
     \<lparr>nt_socket = (\<lambda>x. (Some 3, x)), nt_connect = (\<lambda>_ _ x. (True, x)),
      nt_send = (\<lambda>_ d (i, w). (Done (min 5 (length d)), i, w @ take 5 d)),
      nt_read = (\<lambda>_ n (i, w). (take (min 5 n) i, drop (min 5 n) i, w)),
      nt_poll = (\<lambda>_ _ (i, w). (if i = [] then Poll_Timeout else Poll_Ready, i, w)),
      nt_recv_fd = (\<lambda>_ x. (None, x)), nt_attach = (\<lambda>_ x. (None, x)), nt_close = (\<lambda>_ x. (True, x)),
      nt_sleep = Pair\<rparr>"

lemma pipe_stream: "stream_socket pipe_net fd fst snd"
  by (auto simp: stream_socket_def pipe_net_def min_def)

lemma write_all_law:
  assumes "stream_socket net fd inp out"
  shows "\<exists>x'. write_all net fd data x = (BC_OK, x') \<and> out x' = out x @ data \<and> inp x' = inp x"
proof (induction data arbitrary: x rule: length_induct)
  case (1 data)
  show ?case
  proof (cases "data = []")
    case True
    then show ?thesis by (simp add: write_all.simps [of net fd "[]"])
  next
    case False
    obtain k x1 where s: "nt_send net fd data x = (Done k, x1)" "0 < k" "k \<le> length data"
      "out x1 = out x @ take k data" "inp x1 = inp x"
      by (rule stream_send [OF assms False])
    have "length (drop k data) < length data" using s(2) False by simp
    then obtain x' where "write_all net fd (drop k data) x1 = (BC_OK, x')" "out x' = out x1 @ drop k data"
      "inp x' = inp x1" using 1 by blast
    then show ?thesis using s False by (subst write_all.simps) simp
  qed
qed

lemma read_all_law:
  assumes "stream_socket net fd inp out"
  shows "n \<le> length (inp x) \<Longrightarrow>
    \<exists>x'. read_all net fd n x = (Some (take n (inp x)), x') \<and> inp x' = drop n (inp x) \<and> out x' = out x"
proof (induction n arbitrary: x rule: less_induct)
  case (less n)
  show ?case
  proof (cases "n = 0")
    case True
    then show ?thesis by (simp add: read_all.simps [of net fd 0])
  next
    case False
    then have i: "inp x \<noteq> []" "0 < n" using less.prems by auto
    obtain k x1 where r: "nt_read net fd n x = (take k (inp x), x1)" "0 < k" "k \<le> n"
      "inp x1 = drop k (inp x)" "out x1 = out x"
      by (rule stream_read [OF assms i(2,1)])
    have l: "length (take k (inp x)) = k" using r(3) less.prems by simp
    have "n - k < n" "n - k \<le> length (inp x1)" using r(2-4) i(2) less.prems by simp_all
    then obtain x' where x': "read_all net fd (n - k) x1 = (Some (take (n - k) (inp x1)), x')"
      "inp x' = drop (n - k) (inp x1)" "out x' = out x1" using less.IH by blast
    have "take k (inp x) @ take (n - k) (drop k (inp x)) = take n (inp x)"
      using r(3) by (metis le_add_diff_inverse take_add)
    moreover have "take k (inp x) \<noteq> []" using i(1) r(2) by simp
    ultimately show ?thesis using x' r False l
      by (subst read_all.simps) (simp add: drop_drop)
  qed
qed

section \<open>From the client to the bus\<close>

definition sent_header :: "u16 \<Rightarrow> byte list \<Rightarrow> byte list \<Rightarrow> byte list \<Rightarrow> bc_publish_opts option \<Rightarrow> bc_ipc_header" where
  "sent_header type channel topic payload opts =
     (let header = (client_header type)\<lparr>ih_topic_len := of_nat (length (cstr topic)),
            ih_channel_len := of_nat (length (cstr channel)), ih_payload_len := of_nat (length payload)\<rparr> in
      case opts of None \<Rightarrow> header
        | Some opt \<Rightarrow> header\<lparr>ih_dst_node := po_dst_node opt, ih_qos := po_qos opt, ih_flags := po_flags opt\<rparr>)"

definition sendable :: "byte list \<Rightarrow> byte list \<Rightarrow> byte list \<Rightarrow> bool" where
  "sendable channel topic payload \<longleftrightarrow> cstr topic \<noteq> [] \<and> length (cstr topic) < BC_MAX_TOPIC_LEN \<and>
     length (cstr channel) < BC_MAX_CHANNEL_LEN \<and> length payload \<le> BC_MAX_PAYLOAD_LEN"

lemma build_frame_law:
  "build_ipc_frame type channel topic payload opts =
    (if sendable channel topic payload
     then Inr (ipc_wire (sent_header type channel topic payload opts) (cstr channel) (cstr topic) payload)
     else Inl BC_ERR_INVALID) \<and>
   (sendable channel topic payload \<longrightarrow>
     ipc_request (sent_header type channel topic payload opts) (cstr channel) (cstr topic) payload)"
proof
  show "build_ipc_frame type channel topic payload opts =
    (if sendable channel topic payload
     then Inr (ipc_wire (sent_header type channel topic payload opts) (cstr channel) (cstr topic) payload)
     else Inl BC_ERR_INVALID)"
  proof (cases "sendable channel topic payload")
    case True
    then have s: "strnlen topic BC_MAX_TOPIC_LEN = length (cstr topic)" "strnlen channel BC_MAX_CHANNEL_LEN = length (cstr channel)"
      by (simp_all add: sendable_def strnlen_min)
    have "\<not> IPC_HEADER_SIZE + length (cstr channel) + length (cstr topic) + length payload > FRAME_CAP"
      using True by (simp add: sendable_def FRAME_CAP_def)
    then show ?thesis using True
      unfolding build_ipc_frame_def Let_def s by (simp add: sendable_def sent_header_def ipc_wire_def Let_def)
  next
    case False
    then show ?thesis
      by (auto simp: sendable_def build_ipc_frame_def Let_def strnlen_min min_def bc_limits split: if_splits)
  qed
  show "sendable channel topic payload \<longrightarrow>
     ipc_request (sent_header type channel topic payload opts) (cstr channel) (cstr topic) payload"
    by (auto simp: sendable_def ipc_request_def sent_header_def client_header_def empty_ipc_header_def Let_def
        bc_limits unat_of_nat_word split: option.splits)
qed


text \<open>
  The library refuses exactly the messages that exceed the limits, and what it puts on the
  wire for the others is a request as the daemon understands it, with the same channel,
  topic and payload.
\<close>
theorem build_frame_spec:
  "build_ipc_frame type channel topic payload opts =
    (if sendable channel topic payload
     then Inr (ipc_wire (sent_header type channel topic payload opts) (cstr channel) (cstr topic) payload)
     else Inl BC_ERR_INVALID) \<and>
   (sendable channel topic payload \<longrightarrow>
     ipc_request (sent_header type channel topic payload opts) (cstr channel) (cstr topic) payload)"
  by (rule build_frame_law)

lemma small_sendable: "sendable (str ''c'') (str ''a/b'') [1, 2]"
  by code_simp

lemma build_frame_spec_witness:
  "build_ipc_frame 1 (str ''c'') (str ''a/b'') [1, 2] None =
     Inr (ipc_wire (sent_header 1 (str ''c'') (str ''a/b'') [1, 2] None) (cstr (str ''c'')) (cstr (str ''a/b'')) [1, 2])
   \<and> ipc_request (sent_header 1 (str ''c'') (str ''a/b'') [1, 2] None) (cstr (str ''c'')) (cstr (str ''a/b'')) [1, 2]"
  using build_frame_spec [of 1 "str ''c''" "str ''a/b''" "[1, 2]" None] unfolding if_P [OF small_sendable]
  using small_sendable by blast

lemma build_frame_parts:
  assumes "sendable channel topic payload"
  shows "build_ipc_frame type channel topic payload opts =
      Inr (ipc_wire (sent_header type channel topic payload opts) (cstr channel) (cstr topic) payload)"
    and "ipc_request (sent_header type channel topic payload opts) (cstr channel) (cstr topic) payload"
  using build_frame_law assms by simp_all

text \<open>The message the bus is to publish for a call of the library.\<close>

definition published :: "byte list \<Rightarrow> byte list \<Rightarrow> byte list \<Rightarrow> bc_publish_opts option \<Rightarrow> bc_message" where
  "published channel topic payload opts =
     (let msg = empty_message\<lparr>m_channel := canon BC_MAX_CHANNEL_LEN channel,
            m_topic := canon BC_MAX_TOPIC_LEN topic, m_payload := payload\<rparr> in
      case opts of None \<Rightarrow> msg
        | Some opt \<Rightarrow> msg\<lparr>m_dst_node := po_dst_node opt, m_qos := po_qos opt, m_flags := po_flags opt\<rparr>)"

lemma sent_header_code:
  "ih_type (sent_header type channel topic payload opts) = type"
  "ih_version (sent_header type channel topic payload opts) = BC_IPC_VERSION"
  by (simp_all add: sent_header_def client_header_def Let_def split: option.split)

lemma ipc_codes_differ: "ipc_code a = ipc_code b \<longleftrightarrow> a = b"
  by (cases a; cases b) simp_all

lemma sent_message:
  assumes "sendable channel topic payload"
  shows "process_ipc_payload sys fd (sent_header (ipc_code BC_IPC_PUBLISH) channel topic payload opts)
      (canon BC_MAX_CHANNEL_LEN (cstr channel)) (canon BC_MAX_TOPIC_LEN (cstr topic)) payload st =
    bc_message_bus_publish (daemon_env sys) fd (published channel topic payload opts) st"
proof -
  let ?h = "sent_header (ipc_code BC_IPC_PUBLISH) channel topic payload opts"
  have c: "canon n (cstr xs) = canon n xs" for n xs by (simp add: canon_def)
  have s: "snprintf_s (zeros BC_MAX_CHANNEL_LEN) (canon BC_MAX_CHANNEL_LEN channel) = canon BC_MAX_CHANNEL_LEN channel"
    "snprintf_s (zeros BC_MAX_TOPIC_LEN) (canon BC_MAX_TOPIC_LEN topic) = canon BC_MAX_TOPIC_LEN topic"
    using assms by (simp_all add: sendable_def snprintf_s_zeros canon_simps)
  have m: "ipc_message ?h (canon BC_MAX_CHANNEL_LEN channel) (canon BC_MAX_TOPIC_LEN topic) payload =
      published channel topic payload opts"
    unfolding ipc_message_def sent_header_code
    by (cases opts) (simp_all add: s published_def sent_header_def client_header_def empty_ipc_header_def
        empty_message_def Let_def)
  show ?thesis
    unfolding process_ipc_payload_def c m sent_header_code ipc_codes_differ by (cases st) simp
qed

lemma put_back_same: "ctx_shm ctx = (if handle = ctx_fd g then ctx_shm g else None) \<Longrightarrow> put_back g handle ctx = g"
  by (cases g) (auto simp: put_back_def)

lemma client_write_law:
  assumes "stream_socket net handle inp out" "handle \<ge> 0" "ctx_shm g = None"
    and "sendable channel topic payload"
  shows "\<exists>x'. bc_write_ex net handle channel topic payload opts g x = Some (Inr (length payload), g, x') \<and>
    out x' = out x @ ipc_wire (sent_header (ipc_code BC_IPC_PUBLISH) channel topic payload opts)
      (cstr channel) (cstr topic) payload \<and> inp x' = inp x"
proof -
  let ?f = "ipc_wire (sent_header (ipc_code BC_IPC_PUBLISH) channel topic payload opts) (cstr channel) (cstr topic) payload"
  let ?ctx = "handle_context g handle"
  obtain x' where w: "write_all net handle ?f x = (BC_OK, x')" "out x' = out x @ ?f" "inp x' = inp x"
    using write_all_law [OF assms(1)] by blast
  have ctx: "ctx_fd ?ctx = handle" "ctx_shm ?ctx = None" "put_back g handle ?ctx = g"
    using assms(3) by (auto simp: handle_context_def intro: put_back_same)
  have "send_ipc_message net (ipc_code BC_IPC_PUBLISH) channel topic payload opts ?ctx x = Some (BC_OK, ?ctx, x')"
    unfolding send_ipc_message_def ctx build_frame_parts(1) [OF assms(4)]
    using assms(2) w(1) by (simp del: ipc_code.simps)
  then have "bc_write_ex net handle channel topic payload opts g x = Some (Inr (length payload), g, x')"
    by (simp add: bc_write_ex_def ctx del: ipc_code.simps)
  then show ?thesis using w(2,3) by blast
qed

text \<open>
  C12. Publishing end to end: a message within the limits that the library writes to a socket,
  in however many pieces the socket takes it, is what the daemon, reading it with anything
  behind it, publishes on its bus: with the client's channel, topic, payload, destination, quality and flags.
\<close>
theorem client_publish_reaches_bus:
  assumes "stream_socket net handle inp out" "handle \<ge> 0" "ctx_shm g = None"
    and "sendable channel topic payload"
  shows "\<exists>frame x'. bc_write_ex net handle channel topic payload opts g x = Some (Inr (length payload), g, x') \<and>
    out x' = out x @ frame \<and> inp x' = inp x \<and>
    process_one_message sys fd (frame @ rest) st =
      (case bc_message_bus_publish (daemon_env sys) fd (published channel topic payload opts) st of (rc, st') \<Rightarrow>
         if rc = BC_OK then (BC_OK, rest, st') else (rc, frame @ rest, st'))"
proof -
  let ?f = "ipc_wire (sent_header (ipc_code BC_IPC_PUBLISH) channel topic payload opts) (cstr channel) (cstr topic) payload"
  have "process_one_message sys fd (?f @ rest) st =
      (case bc_message_bus_publish (daemon_env sys) fd (published channel topic payload opts) st of (rc, st') \<Rightarrow>
         if rc = BC_OK then (BC_OK, rest, st') else (rc, ?f @ rest, st'))"
    unfolding process_one_request [OF build_frame_parts(2) [OF assms(4)]] sent_message [OF assms(4)] by (rule refl)
  then show ?thesis using client_write_law [OF assms, of opts x] by blast
qed

lemma client_publish_reaches_bus_witness:
  "\<exists>frame x'. bc_write_ex pipe_net 3 (str ''c'') (str ''a/b'') [1, 2] None (no_context\<lparr>ctx_fd := 3\<rparr>) ([], []) =
      Some (Inr (length [1 :: byte, 2]), no_context\<lparr>ctx_fd := 3\<rparr>, x') \<and>
    snd x' = snd ([] :: byte list, [] :: byte list) @ frame \<and> fst x' = fst ([] :: byte list, [] :: byte list) \<and>
    process_one_message quiet_sys 7 (frame @ [9]) (bc_message_bus_init, quiet_manager []) =
      (case bc_message_bus_publish (daemon_env quiet_sys) 7 (published (str ''c'') (str ''a/b'') [1, 2] None)
          (bc_message_bus_init, quiet_manager []) of
         (rc, st') \<Rightarrow> if rc = BC_OK then (BC_OK, [9], st') else (rc, frame @ [9], st'))"
  by (rule client_publish_reaches_bus [OF pipe_stream _ _ small_sendable]) (simp_all add: no_context_def)

end
