(* ===== verification/Client_Read.thy ===== *)
theory Client_Read
  imports Client_Link
begin

text \<open>
  The client library on the receiving side: the deliveries of the daemon as the library reads
  them from the socket and from the shared ring, and the two messages of the daemon it does not
  understand: the kick that accompanies a frame in the ring, and the reply with statistics.
\<close>

section \<open>Deliveries\<close>

definition deliver_header :: "bc_message \<Rightarrow> bc_ipc_header" where
  "deliver_header msg = empty_ipc_header\<lparr>
     ih_magic := BC_IPC_MAGIC, ih_version := BC_IPC_VERSION, ih_type := ipc_code BC_IPC_DELIVER,
     ih_channel_len := of_nat (length (cstr (m_channel msg))), ih_topic_len := of_nat (length (cstr (m_topic msg))),
     ih_payload_len := of_nat (length (m_payload msg)), ih_dst_node := m_dst_node msg,
     ih_qos := m_qos msg, ih_flags := m_flags msg, ih_seq := m_seq msg\<rparr>"

lemma deliver_frame_parts:
  assumes "encodable msg"
  shows "deliver_frame msg = put_ipc_header (deliver_header msg) @ cstr (m_channel msg) @ cstr (m_topic msg) @ m_payload msg"
    and "unat (ih_channel_len (deliver_header msg)) = length (cstr (m_channel msg))"
    and "unat (ih_topic_len (deliver_header msg)) = length (cstr (m_topic msg))"
    and "unat (ih_payload_len (deliver_header msg)) = length (m_payload msg)"
proof -
  have s: "strnlen (m_channel msg) BC_MAX_CHANNEL_LEN = length (cstr (m_channel msg))"
    "strnlen (m_topic msg) BC_MAX_TOPIC_LEN = length (cstr (m_topic msg))"
    using assms by (simp_all add: encodable_def strnlen_min)
  show "deliver_frame msg = put_ipc_header (deliver_header msg) @ cstr (m_channel msg) @ cstr (m_topic msg) @ m_payload msg"
    using take_strnlen [of "m_channel msg" BC_MAX_CHANNEL_LEN] take_strnlen [of "m_topic msg" BC_MAX_TOPIC_LEN] assms
    unfolding deliver_frame_def Let_def s deliver_header_def by (simp add: s encodable_def)
  show "unat (ih_channel_len (deliver_header msg)) = length (cstr (m_channel msg))"
    "unat (ih_topic_len (deliver_header msg)) = length (cstr (m_topic msg))"
    "unat (ih_payload_len (deliver_header msg)) = length (m_payload msg)"
    using assms by (simp_all add: encodable_def deliver_header_def bc_limits unat_of_nat_word)
qed

lemma deliver_header_fixed:
  "ih_magic (deliver_header msg) = BC_IPC_MAGIC" "ih_version (deliver_header msg) = BC_IPC_VERSION"
  "ih_type (deliver_header msg) = ipc_code BC_IPC_DELIVER"
  by (simp_all add: deliver_header_def)

lemma header_size_current: "bc_ipc_header_size BC_IPC_VERSION = IPC_HEADER_SIZE"
  by (simp add: bc_ipc_header_size_def)

text \<open>A read of a known first part of the stream.\<close>

lemma read_all_part:
  assumes "stream_socket net fd inp out" "inp x = part @ rest"
  obtains x' where "read_all net fd (length part) x = (Some part, x')" "inp x' = rest" "out x' = out x"
  using read_all_law [OF assms(1), of "length part" x] assms(2) by auto

lemma read_socket_header:
  assumes "stream_socket net fd inp out" "inp x = put_ipc_header h @ rest"
  obtains x' where "read_all net fd IPC_HEADER_SIZE x = (Some (put_ipc_header h), x')" "inp x' = rest" "out x' = out x"
  using read_all_part [OF assms] ipc_header.enc_len [of h] by metis

text \<open>The buffers of a caller take the message.\<close>

definition fits_caller :: "bc_message \<Rightarrow> nat \<Rightarrow> nat \<Rightarrow> bool" where
  "fits_caller msg topic_cap payload_cap \<longleftrightarrow> encodable msg \<and> length (cstr (m_topic msg)) < topic_cap \<and>
     length (m_payload msg) \<le> payload_cap"

lemma socket_message_law:
  assumes s: "stream_socket net fd inp out" and f: "fits_caller msg topic_cap payload_cap"
    and i: "inp x = deliver_frame msg @ rest"
  shows "\<exists>x'. read_socket_message net fd topic0 topic_cap payload_cap x =
      Some (Inr (cstr (m_topic msg) @ [0], m_payload msg), x') \<and> inp x' = rest \<and> out x' = out x"
proof -
  have e: "encodable msg" using f by (simp add: fits_caller_def)
  note d = deliver_frame_parts [OF e]
  obtain x1 where r1: "read_all net fd IPC_HEADER_SIZE x = (Some (put_ipc_header (deliver_header msg)), x1)"
    "inp x1 = cstr (m_channel msg) @ cstr (m_topic msg) @ m_payload msg @ rest" "out x1 = out x"
    using read_socket_header [OF s] i d(1) by (metis append_assoc)
  obtain x2 where r2: "read_all net fd (length (cstr (m_channel msg))) x1 = (Some (cstr (m_channel msg)), x2)"
    "inp x2 = cstr (m_topic msg) @ m_payload msg @ rest" "out x2 = out x1" by (rule read_all_part [OF s r1(2)])
  obtain x3 where r3: "read_all net fd (length (cstr (m_topic msg))) x2 = (Some (cstr (m_topic msg)), x3)"
    "inp x3 = m_payload msg @ rest" "out x3 = out x2" by (rule read_all_part [OF s r2(2)])
  obtain x4 where r4: "read_all net fd (length (m_payload msg)) x3 = (Some (m_payload msg), x4)"
    "inp x4 = rest" "out x4 = out x3" by (rule read_all_part [OF s r3(2)])
  have b: "\<not> (length (cstr (m_channel msg)) \<ge> BC_MAX_CHANNEL_LEN \<or> length (cstr (m_topic msg)) = 0 \<or>
      length (cstr (m_topic msg)) \<ge> BC_MAX_TOPIC_LEN \<or> length (m_payload msg) > BC_MAX_PAYLOAD_LEN \<or>
      topic_cap \<le> length (cstr (m_topic msg)) \<or> payload_cap < length (m_payload msg))"
    using f by (auto simp: fits_caller_def encodable_def)
  show ?thesis
    unfolding read_socket_message_def r1(1) Let_def prod.case option.case ipc_header.dec_enc d(2-4)
      deliver_header_fixed ipc_codes_differ r2(1) r3(1) r4(1)
    using b r1(3) r2(3) r3(3) r4(2,3) by simp
qed

lemma delivery_roundtrip_core:
  assumes "stream_socket net handle inp out" "handle \<ge> 0" "ctx_shm g = None"
    and "fits_caller msg topic_cap payload_cap" "inp x = deliver_frame msg @ rest"
  shows "\<exists>x'. bc_read net handle topic0 topic_cap payload_cap timeout g x =
      Some (Inr (cstr (m_topic msg) @ [0], m_payload msg), g, x') \<and> inp x' = rest \<and> out x' = out x"
proof -
  let ?ctx = "handle_context g handle"
  have ctx: "ctx_fd ?ctx = handle" "ctx_shm ?ctx = None" "put_back g handle ?ctx = g"
    using assms(3) by (auto simp: handle_context_def intro: put_back_same)
  have e: "encodable msg" "topic_cap \<noteq> 0" using assms(4) by (auto simp: fits_caller_def)
  have "inp x \<noteq> []" using assms(5) deliver_frame_parts(3) [OF e(1)] e(1)
    by (auto simp: deliver_frame_parts(1) encodable_def)
  then obtain x1 where p: "nt_poll net handle timeout x = (Poll_Ready, x1)" "inp x1 = inp x" "out x1 = out x"
    by (rule stream_poll [OF assms(1)])
  obtain x' where r: "read_socket_message net handle topic0 topic_cap payload_cap x1 =
      Some (Inr (cstr (m_topic msg) @ [0], m_payload msg), x')" "inp x' = rest" "out x' = out x1"
    using socket_message_law [OF assms(1,4)] assms(5) p(2) by metis
  show ?thesis
    unfolding bc_read_def read_ipc_deliver_def ctx Let_def using assms(2) e(2) p(1,3) r ctx(3) by simp
qed

text \<open>
  C13. A delivery end to end: what the daemon writes for a message is what the library returns
  to a caller whose buffers are large enough, the topic as a string and the payload unchanged,
  in however many pieces the socket hands it over; what follows it stays in the stream.
\<close>
theorem delivery_roundtrip:
  assumes "stream_socket net handle inp out" "handle \<ge> 0" "ctx_shm g = None"
    and "fits_caller msg topic_cap payload_cap" "inp x = deliver_frame msg @ rest"
  shows "\<exists>x'. bc_read net handle topic0 topic_cap payload_cap timeout g x =
      Some (Inr (cstr (m_topic msg) @ [0], m_payload msg), g, x') \<and> inp x' = rest \<and> out x' = out x"
  using assms by (rule delivery_roundtrip_core)

text \<open>A message to try the library on.\<close>

definition small_message :: bc_message where
  "small_message = empty_message\<lparr>m_channel := canon BC_MAX_CHANNEL_LEN (str ''c''),
     m_topic := canon BC_MAX_TOPIC_LEN (str ''a/b''), m_payload := [1, 2]\<rparr>"

lemma str_samples: "cstr (str ''a/b'') = str ''a/b''" "cstr (str ''c'') = str ''c''"
    "length (str ''a/b'') = 3" "length (str ''c'') = 1"
  by code_simp+

lemma small_message_cstr: "cstr (m_topic small_message) = str ''a/b''" "cstr (m_channel small_message) = str ''c''"
    "m_payload small_message = [1, 2]"
  by (simp_all add: small_message_def canon_simps str_samples)

lemma small_message_fits: "fits_caller small_message 64 16"
  by (simp add: fits_caller_def encodable_def small_message_cstr str_samples bc_limits)

lemma delivery_roundtrip_witness:
  "\<exists>x'. bc_read pipe_net 3 [] 64 16 100 (no_context\<lparr>ctx_fd := 3\<rparr>) (deliver_frame small_message @ [7], []) =
      Some (Inr (cstr (m_topic small_message) @ [0], m_payload small_message), no_context\<lparr>ctx_fd := 3\<rparr>, x') \<and>
    fst x' = [7] \<and> snd x' = []"
  using delivery_roundtrip [OF pipe_stream [of 3], of "no_context\<lparr>ctx_fd := 3\<rparr>" small_message 64 16
      "(deliver_frame small_message @ [7], [])" "[7]"] small_message_fits
  by (simp add: no_context_def)

section \<open>The shared ring\<close>

text \<open>A frame from the ring is parsed to the same message.\<close>

lemma parse_deliver_frame:
  assumes "fits_caller msg topic_cap payload_cap"
  shows "parse_shm_frame topic_cap payload_cap (deliver_frame msg) =
    Some (Inr (cstr (m_topic msg) @ [0], m_payload msg))"
proof -
  have e: "encodable msg" using assms by (simp add: fits_caller_def)
  note d = deliver_frame_parts [OF e]
  let ?h = "deliver_header msg"
  have h: "get_ipc_header (take IPC_HEADER_SIZE (deliver_frame msg)) = ?h"
    unfolding d(1) using ipc_header.read_enc .
  have l: "length (deliver_frame msg) =
      IPC_HEADER_SIZE + length (cstr (m_channel msg)) + length (cstr (m_topic msg)) + length (m_payload msg)"
    by (simp add: d(1) ipc_header.enc_len)
  have cut: "fld (IPC_HEADER_SIZE + length (cstr (m_channel msg))) (length (cstr (m_topic msg))) (deliver_frame msg) = cstr (m_topic msg)"
    "fld (IPC_HEADER_SIZE + length (cstr (m_channel msg)) + length (cstr (m_topic msg))) (length (m_payload msg)) (deliver_frame msg) = m_payload msg"
    by (simp_all add: d(1) fld_def ipc_header.enc_len)
  have b: "\<not> (length (cstr (m_topic msg)) = 0 \<or> length (cstr (m_topic msg)) \<ge> BC_MAX_TOPIC_LEN \<or>
      length (m_payload msg) > BC_MAX_PAYLOAD_LEN \<or> topic_cap \<le> length (cstr (m_topic msg)) \<or>
      payload_cap < length (m_payload msg))"
    using assms by (auto simp: fits_caller_def encodable_def)
  show ?thesis
    unfolding parse_shm_frame_def header_size_current h Let_def d(2-4) deliver_header_fixed cut
    using b l by simp
qed

lemma frame_fits_ring_buffer: "encodable msg \<Longrightarrow> length (deliver_frame msg) \<le> FRAME_CAP"
  by (simp add: deliver_frame_parts(1) ipc_header.enc_len FRAME_CAP_def encodable_def)

lemma shm_delivery_law:
  assumes "handle \<ge> 0" "ctx_fd g = handle" "ctx_shm g = Some (rx, tx)"
    and "fits_caller msg topic_cap payload_cap" "ring_rep rx (deliver_frame msg # q)"
  shows "\<exists>rx'. bc_read net handle topic0 topic_cap payload_cap timeout g x =
      Some (Inr (cstr (m_topic msg) @ [0], m_payload msg), g\<lparr>ctx_shm := Some (rx', tx)\<rparr>, x) \<and> ring_rep rx' q"
proof -
  have e: "encodable msg" "topic_cap \<noteq> 0" using assms(4) by (auto simp: fits_caller_def)
  obtain rx' where r: "bc_shm_ring_read rx FRAME_CAP = Some (Inr (deliver_frame msg), rx')" "ring_rep rx' q"
    using shm_queue.get_rep [OF assms(5) frame_fits_ring_buffer [OF e(1)]] by blast
  have "bc_read net handle topic0 topic_cap payload_cap timeout g x =
      Some (Inr (cstr (m_topic msg) @ [0], m_payload msg), g\<lparr>ctx_shm := Some (rx', tx)\<rparr>, x)"
    using assms(1-3) e(2) r parse_deliver_frame [OF assms(4)]
    by (simp add: bc_read_def read_ipc_deliver_def handle_context_def put_back_def)
  then show ?thesis using r(2) by blast
qed

text \<open>
  With an empty ring the library reads the socket; the kick it finds there is an error to it.
\<close>

lemma kick_law:
  assumes "stream_socket net handle inp out" "handle \<ge> 0" "ctx_fd g = handle" "ctx_shm g = Some (rx, tx)"
    and "ring_rep rx []" "topic_cap \<noteq> 0" "inp x = kick_frame @ rest"
  shows "\<exists>x'. bc_read net handle topic0 topic_cap payload_cap timeout g x = Some (Inl BC_ERR_IO, g, x') \<and>
    inp x' = rest \<and> out x' = out x"
proof -
  let ?h = "empty_ipc_header\<lparr>ih_magic := BC_IPC_MAGIC, ih_version := BC_IPC_VERSION, ih_type := ipc_code BC_IPC_SHM_KICK\<rparr>"
  have "inp x \<noteq> []" using assms(7) ipc_header.enc_len [of ?h] by (auto simp: kick_frame_def ipc_sizes)
  then obtain x1 where p: "nt_poll net handle timeout x = (Poll_Ready, x1)" "inp x1 = inp x" "out x1 = out x"
    by (rule stream_poll [OF assms(1)])
  have "inp x1 = put_ipc_header ?h @ rest" using p(2) assms(7) by (simp add: kick_frame_def)
  then obtain x' where r: "read_all net handle IPC_HEADER_SIZE x1 = (Some (put_ipc_header ?h), x')"
    "inp x' = rest" "out x' = out x1"
    by (rule read_socket_header [OF assms(1)])
  have m: "read_socket_message net handle topic0 topic_cap payload_cap x1 = Some (Inl BC_ERR_IO, x')"
    unfolding read_socket_message_def r(1) Let_def prod.case option.case ipc_header.dec_enc by simp
  have e: "bc_shm_ring_read rx FRAME_CAP = Some (Inl BC_ERR_NOT_FOUND, rx)" by (rule shm_queue.get_empty [OF assms(5)])
  have g: "g\<lparr>ctx_shm := Some (rx, tx)\<rparr> = g" using assms(4) by (cases g) simp
  show ?thesis
    using assms(2-4,6) e m p(1,3) r(2,3)
    by (simp add: bc_read_def read_ipc_deliver_def handle_context_def put_back_def g)
qed

text \<open>
  A delivery over shared memory: the frame in the ring is returned as the message it
  carries, without a look at the socket; the kick the daemon sends with every such frame
  stays there, and the next read, with nothing new to return, takes it and fails with
  \<open>BC_ERR_IO\<close> instead of waiting.
\<close>
theorem shm_delivery_then_error:
  assumes "stream_socket net handle inp out" "handle \<ge> 0" "ctx_fd g = handle" "ctx_shm g = Some (rx, tx)"
    and "fits_caller msg topic_cap payload_cap" "ring_rep rx [deliver_frame msg]" "inp x = kick_frame"
  shows "\<exists>g' x'. bc_read net handle topic0 topic_cap payload_cap timeout g x =
      Some (Inr (cstr (m_topic msg) @ [0], m_payload msg), g', x) \<and>
    bc_read net handle topic0 topic_cap payload_cap timeout g' x = Some (Inl BC_ERR_IO, g', x') \<and> inp x' = []"
proof -
  obtain rx' where r: "bc_read net handle topic0 topic_cap payload_cap timeout g x =
      Some (Inr (cstr (m_topic msg) @ [0], m_payload msg), g\<lparr>ctx_shm := Some (rx', tx)\<rparr>, x)" "ring_rep rx' []"
    using shm_delivery_law [OF assms(2-6), of net topic0 timeout x] by blast
  have "topic_cap \<noteq> 0" using assms(5) by (auto simp: fits_caller_def)
  then show ?thesis
    using kick_law [OF assms(1,2) _ _ r(2), of "g\<lparr>ctx_shm := Some (rx', tx)\<rparr>" tx topic_cap x "[]" topic0 payload_cap timeout] assms(3,7) r(1) by auto
qed

lemma small_ring: "\<exists>rx. ring_rep rx [deliver_frame small_message]"
proof -
  let ?r = "init_ring (zeros 64) 64" and ?f = "deliver_frame small_message"
  have "encodable small_message" using small_message_fits by (simp add: fits_caller_def)
  then have "length ?f = 34"
    by (simp add: deliver_frame_parts(1) ipc_header.enc_len IPC_HEADER_SIZE_def small_message_cstr str_samples)
  then have fits: "\<not> length ?f > BC_SHM_RING_SIZE - 4" "\<not> unat (ring_space ?r) < 4 + length ?f"
    by (simp_all add: BC_SHM_RING_SIZE_def ring_space_def init_ring_def)
  have "ring_rep ?r []" by (rule ring_rep_init) simp_all
  then obtain rc s where w: "bc_shm_ring_write ?r ?f = Some (rc, s)" "if rc = BC_OK then ring_rep s ([] @ [?f]) else s = ?r"
    using shm_queue.put_rep by blast
  have "rc = BC_OK"
    using w(1) fits by (auto simp: bc_shm_ring_write_def Let_def split: if_splits option.splits)
  then show ?thesis using w(2) by auto
qed

lemma shm_delivery_then_error_witness:
  "\<exists>rx tx g' x'. bc_read pipe_net 3 [] 64 16 100 \<lparr>ctx_fd = 3, ctx_shm = Some (rx, tx), ctx_shm_fd = 4, ctx_cb = False\<rparr> (kick_frame, []) =
      Some (Inr (cstr (m_topic small_message) @ [0], m_payload small_message), g', kick_frame, []) \<and>
    bc_read pipe_net 3 [] 64 16 100 g' (kick_frame, []) = Some (Inl BC_ERR_IO, g', x') \<and> fst x' = []"
proof -
  obtain rx where "ring_rep rx [deliver_frame small_message]" using small_ring by blast
  then show ?thesis
    using shm_delivery_then_error [OF pipe_stream [of 3] _ _ _ small_message_fits, of _ rx rx "(kick_frame, [])" "[]" 100]
    by (intro exI [of _ rx]) simp
qed

section \<open>Statistics\<close>

definition stats_header :: bc_ipc_header where
  "stats_header = empty_ipc_header\<lparr>ih_magic := BC_IPC_MAGIC, ih_version := BC_IPC_VERSION,
     ih_type := ipc_code BC_IPC_STATS, ih_payload_len := 88\<rparr>"

text \<open>The reply the daemon queues, in two parts.\<close>

lemma stats_reply_parts:
  "put_ipc_header (empty_ipc_header\<lparr>ih_magic := BC_IPC_MAGIC, ih_version := BC_IPC_VERSION,
       ih_type := ipc_code BC_IPC_STATS, ih_payload_len := of_nat (length (stats_bytes st))\<rparr>) = put_ipc_header stats_header"
  by (simp add: stats_bytes_def stats_header_def)

text \<open>
  The statistics call does not agree with the reply the daemon makes: the call reads 72 bytes
  into the caller's counters, beginning with the header of the reply; the first counter
  is then always the magic number, version and type, and 44 bytes of the reply stay in the stream,
  where the next message is looked for.
\<close>
theorem stats_reply_misread:
  assumes "stream_socket net handle inp out" "handle \<ge> 0"
    and "inp x = put_ipc_header stats_header @ stats_bytes st @ rest"
  shows "\<exists>res x'. bc_get_stats net handle x = (Inr res, x') \<and> st_pub_local res = 0x0004000242434950 \<and>
    inp x' = drop 44 (stats_bytes st) @ rest"
proof -
  let ?q = "put_ipc_header (client_header (ipc_code BC_IPC_STATS))" and ?h = "put_ipc_header stats_header"
  obtain x1 where w: "write_all net handle ?q x = (BC_OK, x1)" "inp x1 = inp x"
    using write_all_law [OF assms(1)] by blast
  have l: "length ?h = 28" "length (stats_bytes st) = 88"
    using ipc_header.enc_len [of stats_header] by (simp_all add: ipc_sizes stats_bytes_def del: to_le_numeral)
  obtain x2 where r: "read_all net handle CLIENT_STATS_SIZE x1 = (Some (take CLIENT_STATS_SIZE (inp x1)), x2)"
    "inp x2 = drop CLIENT_STATS_SIZE (inp x1)"
    using read_all_law [OF assms(1), of CLIENT_STATS_SIZE x1] w(2) assms(3) l by (auto simp: CLIENT_STATS_SIZE_def)
  have "fld 0 8 (take CLIENT_STATS_SIZE (inp x1)) = take 8 ?h"
    using w(2) assms(3) l by (simp add: fld_def CLIENT_STATS_SIZE_def)
  moreover have "of_le (take 8 ?h) = (0x0004000242434950 :: u64)" by code_simp
  ultimately have "st_pub_local (get_client_stats (take CLIENT_STATS_SIZE (inp x1))) = 0x0004000242434950"
    by (simp add: get_client_stats_def)
  moreover have "drop CLIENT_STATS_SIZE (inp x1) = drop 44 (stats_bytes st) @ rest"
    using w(2) assms(3) l by (simp add: CLIENT_STATS_SIZE_def)
  ultimately show ?thesis using assms(2) w(1) r by (simp add: bc_get_stats_def del: ipc_code.simps)
qed

lemma stats_reply_misread_witness:
  "\<exists>res x'. bc_get_stats pipe_net 3 (put_ipc_header stats_header @ stats_bytes bc_stats_reset @ [], []) = (Inr res, x') \<and>
    st_pub_local res = 0x0004000242434950 \<and> fst x' = drop 44 (stats_bytes bc_stats_reset) @ []"
  by (rule stats_reply_misread [OF pipe_stream]) simp_all

end
