(* ===== verification/Board_To_Board.thy ===== *)
theory Board_To_Board
  imports Client_Read Client_Transmit Main_Loop
begin

text \<open>
  From a client of one board to a client of another: the library writes to a socket, the daemon of
  the first board cuts the requests out of the stream and publishes them, the frames go over a
  line to the second daemon, which cuts them out of that stream, puts fragments together and queues
  the messages for its client, and the library reads them from there. The theories of the parts say
  what each of these steps does; here they are put together.
\<close>

section \<open>The board that sends\<close>

text \<open>A transport that takes every frame; \<open>line\<close> is what it has taken so far.\<close>

definition carries :: "'x sys \<Rightarrow> nat \<Rightarrow> ('x \<Rightarrow> byte list) \<Rightarrow> bool" where
  "carries sys t line \<longleftrightarrow> (\<exists>f. sy_send sys t = Some f \<and>
     (\<forall>frame x. \<exists>x'. f frame x = (BC_OK, x') \<and> line x' = line x @ frame))"

definition on_line :: "('x \<Rightarrow> byte list) \<Rightarrow> 'x bc_client_manager \<Rightarrow> byte list" where
  "on_line line m = line (mg_ext m)"

lemma emit_carries:
  assumes "carries sys t line" "encodable p"
  shows "\<exists>m'. emit_network_frame (daemon_env sys) t p (bus, m) = (BC_OK, bus, m') \<and>
    on_line line m' = on_line line m @ wire p"
proof -
  obtain f x' where "sy_send sys t = Some f" "f (wire p) (mg_ext m) = (BC_OK, x')"
    "line x' = line (mg_ext m) @ wire p"
    using assms(1) unfolding carries_def by metis
  then show ?thesis
    using assms(2) by (simp add: emit_network_frame_def encode_eq daemon_env_def on_line_def)
qed

lemma emit_pieces_carries:
  assumes "carries sys t line"
  shows "\<forall>p \<in> set ps. encodable p \<Longrightarrow>
    \<exists>m'. emit_pieces (emit_network_frame (daemon_env sys) t) ps (bus, m) = (BC_OK, bus, m') \<and>
      on_line line m' = on_line line m @ concat (map wire ps)"
proof (induction ps arbitrary: m)
  case Nil
  then show ?case by simp
next
  case (Cons p ps)
  obtain m1 where e: "emit_network_frame (daemon_env sys) t p (bus, m) = (BC_OK, bus, m1)"
    "on_line line m1 = on_line line m @ wire p"
    using emit_carries [OF assms, of p bus m] Cons.prems by auto
  then show ?case using Cons.IH [of m1] Cons.prems by simp
qed

lemma pieces_encodable: "encodable m \<Longrightarrow> p \<in> set (pieces m) \<Longrightarrow> encodable p"
  using fragments_sound(1) by (auto simp: pieces_def split: if_splits)

lemma send_carries:
  assumes "carries sys t line" "encodable msg"
  shows "\<exists>bus' m'. send_on_transport (daemon_env sys) t msg (bus, m) = (BC_OK, bus', m') \<and>
    on_line line m' = on_line line m @ concat (map wire (pieces msg)) \<and> same_but_stats bus bus'"
proof -
  let ?emit = "emit_network_frame (daemon_env sys) t" and ?big = "length (m_payload msg) > BC_FRAG_CHUNK_MAX"
  let ?bus = "if ?big then bump (frag_tx_update (\<lambda>x. x + 1)) bus else bus"
  obtain m' where e: "emit_pieces ?emit (pieces msg) (?bus, m) = (BC_OK, ?bus, m')"
    "on_line line m' = on_line line m @ concat (map wire (pieces msg))"
    using emit_pieces_carries [OF assms(1), of "pieces msg" ?bus m] pieces_encodable [OF assms(2)] by auto
  have "(if ?big then bc_fragment_publish msg ?emit (?bus, m) else ?emit msg (?bus, m)) = (BC_OK, ?bus, m')"
  proof (cases ?big)
    case True
    then have "oversize msg" using assms(2) by (simp add: oversize_def)
    then show ?thesis using True e(1) by (simp add: bc_fragment_publish_def fragment_total_2 pieces_def)
  next
    case False
    then have "emit_pieces ?emit [msg] (bus, m) = (BC_OK, bus, m')" using e(1) by (simp only: pieces_def if_False)
    then show ?thesis using False by (simp only: emit_single [symmetric] if_False)
  qed
  then show ?thesis using e(2) by (auto simp: send_on_transport_def same_but_stats_fields)
qed

text \<open>The message the bus sends is the one it was given, with the two fields it fills in.\<close>

definition stamped :: "bc_message \<Rightarrow> bc_message \<Rightarrow> bool" where
  "stamped m m' \<longleftrightarrow> m' = m\<lparr>m_src_node := m_src_node m', m_seq := m_seq m'\<rparr>"

lemma stamped_fields:
  assumes "stamped m m'"
  shows "m_channel m' = m_channel m" "m_topic m' = m_topic m" "m_payload m' = m_payload m"
    "m_dst_node m' = m_dst_node m" "m_flags m' = m_flags m" "encodable m' = encodable m"
    "bc_router_route config names m' = bc_router_route config names m"
    "recipients src m' bus = recipients src m bus"
proof -
  have e: "m' = m\<lparr>m_src_node := m_src_node m', m_seq := m_seq m'\<rparr>" using assms by (simp add: stamped_def)
  show f: "m_channel m' = m_channel m" "m_topic m' = m_topic m" "m_payload m' = m_payload m"
    "m_dst_node m' = m_dst_node m" "m_flags m' = m_flags m"
    by (subst e, simp)+
  then show "encodable m' = encodable m"
    "bc_router_route config names m' = bc_router_route config names m"
    "recipients src m' bus = recipients src m bus"
    by (simp_all add: encodable_def bc_router_route_def recipients_def)
qed

lemma publish_carries:
  assumes "carries sys t line" "encodable msg"
    and "bc_router_route (sy_config sys) (sy_names sys) msg = Inr t"
    and "m_dst_node msg \<noteq> 0" "m_dst_node msg \<noteq> bus_node_id bus"
  shows "\<exists>msg' bus' m'. bc_message_bus_publish (daemon_env sys) src msg (bus, m) = (BC_OK, bus', m') \<and>
    stamped msg msg' \<and> on_line line m' = on_line line m @ concat (map wire (pieces msg')) \<and>
    bus_node_id bus' = bus_node_id bus"
proof -
  obtain bus1 msg' where st: "stamp bus msg = (bus1, msg')" by force
  have s: "stamped msg msg'" using st by (auto simp: stamp_def stamped_def Let_def split: if_splits)
  note f = stamped_fields [OF s]
  have n: "bus_node_id bus1 = bus_node_id bus" using stamp_keeps(2) [of bus msg] st by simp
  obtain bus' m' where e: "send_on_transport (daemon_env sys) t msg' (bus1, m) = (BC_OK, bus', m')"
    "on_line line m' = on_line line m @ concat (map wire (pieces msg'))" "same_but_stats bus1 bus'"
    using send_carries [OF assms(1), of msg' bus1 m] assms(2) f(6) by blast
  have "need_network bus1 msg'" "\<not> should_deliver_local bus1 msg'"
    using assms(4,5) f(4) n by (simp_all add: need_network_def should_deliver_local_def Let_def)
  moreover have "route (daemon_env sys) msg' = Inr t"
    using assms(3) f(7) by (simp add: route_def daemon_env_def)
  ultimately have "bc_message_bus_publish (daemon_env sys) src msg (bus, m) = (BC_OK, bus', m')"
    using st e(1) by (simp add: bc_message_bus_publish_def publish_local_def publish_network_def)
  then show ?thesis using s e(2,3) n by (auto simp: same_but_stats_fields)
qed


section \<open>The board that receives\<close>

text \<open>A client without shared memory, and the bytes queued for it.\<close>

definition client_queue :: "'x bc_client_manager \<Rightarrow> int \<Rightarrow> byte list \<Rightarrow> bool" where
  "client_queue m fd q \<longleftrightarrow> (\<exists>c. find_client (mg_clients m) fd = Some c \<and> cl_shm c = None \<and> cl_tx c = q)"

lemma client_queue_ext [simp]:
  "client_queue (m\<lparr>mg_ext := x\<rparr>) fd q = client_queue m fd q" "client_queue (m\<lparr>mg_fault := b\<rparr>) fd q = client_queue m fd q"
  by (simp_all add: client_queue_def)

lemma client_queue_set_other:
  "(\<And>c. cl_fd (f c) = cl_fd c) \<Longrightarrow> fd' \<noteq> fd \<Longrightarrow> client_queue (set_client fd' f m) fd q = client_queue m fd q"
  by (simp add: client_queue_def set_client_def find_update_client)

lemma tx_enqueue_keeps_fd: "cl_fd (snd (tx_enqueue c d)) = cl_fd c" "cl_shm (snd (tx_enqueue c d)) = cl_shm c"
  by (simp_all add: tx_enqueue_def Let_def)

lemma tx_enqueue_room:
  "length (cl_tx c) + length d \<le> BC_CLIENT_TX_CAP \<Longrightarrow> \<exists>c'. tx_enqueue c d = (BC_OK, c') \<and> cl_tx c' = cl_tx c @ d"
  by (simp add: tx_enqueue_def Let_def)

text \<open>A client replaced by another of the same descriptor.\<close>

lemma find_replace_client:
  "find_client cs fd = Some c \<Longrightarrow> cl_fd c' = fd \<Longrightarrow>
     find_client (update_client fd (\<lambda>_. c') cs) fd' = (if fd' = fd then Some c' else find_client cs fd')"
  by (induction cs) (auto split: if_splits)

lemma enqueue_queue:
  assumes "client_queue m fd q"
  shows "fd' \<noteq> fd \<Longrightarrow> client_queue (snd (enqueue_client_tx sys fd' d m)) fd q"
    and "length q + length d \<le> BC_CLIENT_TX_CAP \<Longrightarrow> client_queue (snd (enqueue_client_tx sys fd d m)) fd (q @ d)"
proof -
  show "client_queue (snd (enqueue_client_tx sys fd' d m)) fd q" if ne: "fd' \<noteq> fd"
  proof (cases "find_client (mg_clients m) fd'")
    case None
    then show ?thesis using assms by (simp add: enqueue_client_tx_def)
  next
    case (Some c)
    obtain rc c' where e: "tx_enqueue c d = (rc, c')" by force
    have "cl_fd c' = fd'" using tx_enqueue_keeps_fd(1) [of c d] e find_client_fd [OF Some] by simp
    then have "client_queue (set_client fd' (\<lambda>_. c') m) fd q"
      using find_replace_client [OF Some, of c' fd] assms ne by (simp add: client_queue_def set_client_def)
    then show ?thesis using Some e by (simp add: enqueue_client_tx_def Let_def case_prod_beta)
  qed
  show "client_queue (snd (enqueue_client_tx sys fd d m)) fd (q @ d)" if room: "length q + length d \<le> BC_CLIENT_TX_CAP"
  proof -
    obtain c where c: "find_client (mg_clients m) fd = Some c" "cl_shm c = None" "cl_tx c = q"
      using assms by (auto simp: client_queue_def)
    obtain c' where e: "tx_enqueue c d = (BC_OK, c')" "cl_tx c' = q @ d" using tx_enqueue_room [of c d] room c(3) by auto
    have f: "cl_fd c' = fd" "cl_shm c' = None" using tx_enqueue_keeps_fd [of c d] e(1) c(2) find_client_fd [OF c(1)] by simp_all
    have "client_queue (set_client fd (\<lambda>_. c') m) fd (q @ d)"
      using find_replace_client [OF c(1) f(1), of fd] f(2) e(2) by (simp add: client_queue_def set_client_def)
    then show ?thesis using c(1) e(1) by (simp add: enqueue_client_tx_def Let_def case_prod_beta)
  qed
qed

lemma deliver_queue_own:
  assumes "client_queue m fd q" "length q + length d \<le> BC_CLIENT_TX_CAP"
  shows "client_queue (snd (deliver_to_client sys fd d m)) fd (q @ d)"
  using enqueue_queue(2) [OF assms] assms(1) by (auto simp: deliver_to_client_def client_queue_def)

lemma deliver_queue_other:
  assumes "client_queue m fd q" "fd' \<noteq> fd"
  shows "client_queue (snd (deliver_to_client sys fd' d m)) fd q"
proof (cases "find_client (mg_clients m) fd'")
  case None
  then show ?thesis using assms(1) by (simp add: deliver_to_client_def)
next
  case (Some c)
  show ?thesis
  proof (cases "cl_shm c")
    case None
    then show ?thesis using Some enqueue_queue(1) [OF assms] by (simp add: deliver_to_client_def)
  next
    case shm: (Some rings)
    have r: "client_queue (set_client fd' (\<lambda>c. c\<lparr>cl_shm := r\<rparr>) m) fd q" for r
      using assms(1) by (subst client_queue_set_other [OF _ assms(2)]) simp_all
    then show ?thesis
      using Some shm assms(1) r enqueue_queue(1) [OF r assms(2)]
      by (auto simp: deliver_to_client_def Let_def split: option.split prod.split)
  qed
qed

lemma deliver_all_other:
  "client_queue m fd q \<Longrightarrow> fd \<notin> set fds \<Longrightarrow>
     client_queue (snd (deliver_all (deliver_to_client sys) d fds m)) fd q"
proof (induction fds arbitrary: m)
  case Nil
  then show ?case by simp
next
  case (Cons fd' fds)
  then have "client_queue (snd (deliver_to_client sys fd' d m)) fd q" by (intro deliver_queue_other) auto
  then show ?case using Cons by (simp add: case_prod_beta)
qed

lemma deliver_all_own:
  "client_queue m fd q \<Longrightarrow> filter (\<lambda>f. f = fd) fds = [fd] \<Longrightarrow> length q + length d \<le> BC_CLIENT_TX_CAP \<Longrightarrow>
     client_queue (snd (deliver_all (deliver_to_client sys) d fds m)) fd (q @ d)"
proof (induction fds arbitrary: m)
  case Nil
  then show ?case by simp
next
  case (Cons fd' fds)
  show ?case
  proof (cases "fd' = fd")
    case True
    then have "fd \<notin> set fds" using Cons.prems(2) by (auto simp: filter_empty_conv)
    then show ?thesis
      using deliver_all_other deliver_queue_own [OF Cons.prems(1,3), of sys] True by (simp add: case_prod_beta)
  next
    case False
    then show ?thesis
      using Cons.IH [OF deliver_queue_other [OF Cons.prems(1) False]] Cons.prems(2,3) by (simp add: case_prod_beta)
  qed
qed

text \<open>What the bus sends, acknowledgements among it, is nothing to the clients.\<close>

interpretation send_world: bus_world "(daemon_env sys)\<lparr>env_deliver := None\<rparr>" "\<lambda>m m'. mg_clients m' = mg_clients m"
  by unfold_locales (auto simp: daemon_env_def split: prod.split)

lemma send_env: "send_on_transport ((env :: 'w bus_env)\<lparr>env_deliver := d\<rparr>) = send_on_transport env"
proof -
  have s: "env_send (env\<lparr>env_deliver := d\<rparr>) = env_send env" by simp
  have "emit_network_frame (env\<lparr>env_deliver := d\<rparr>) = emit_network_frame env"
    by (intro ext) (simp only: emit_network_frame_def s)
  then show ?thesis by (intro ext) (simp only: send_on_transport_def)
qed

lemma ack_clients:
  assumes "send_ack (daemon_env sys) t msg (bus, m) = (rc, bus', m')"
  shows "mg_clients m' = mg_clients m \<and> same_but_stats bus bus'"
proof -
  obtain r1 bus1 m1 where s: "send_on_transport (daemon_env sys) t (ack_message (bus_node_id bus) msg) (bus, m) = (r1, bus1, m1)"
    by (metis prod_cases3)
  show ?thesis
    using assms s send_world.send_R [of sys t "ack_message (bus_node_id bus) msg" bus m r1 bus1 m1]
    by (auto simp: send_ack_def send_env split: if_splits)
qed

text \<open>A reassembly table with nothing in it.\<close>

definition reasm_idle :: "bc_reasm \<Rightarrow> bool" where
  "reasm_idle r \<longleftrightarrow> reasm_wf r \<and> (\<forall>k. in_flight r k = None)"

lemma idle_slots: "reasm_idle r \<Longrightarrow> \<exists>s \<in> set r. \<not> rs_active s"
proof -
  assume i: "reasm_idle r"
  then have "r \<noteq> []" by (auto simp: reasm_idle_def reasm_wf_def BC_REASM_SLOTS_def)
  moreover have "\<not> rs_active (hd r)"
  proof
    assume "rs_active (hd r)"
    then have "holds (hd r) (slot_key (hd r))" by (simp add: holds_def)
    then show False using i \<open>r \<noteq> []\<close> unfolding reasm_idle_def in_flight_None by (meson hd_in_set)
  qed
  ultimately show ?thesis by (meson hd_in_set)
qed

lemma idle_roundtrip:
  assumes o: "oversize m" and i: "reasm_idle r"
  shows "\<exists>r1 r2. bc_reasm_feed r (fragments m ! 0) = Some (r1, Inl BC_ERR_NOT_FOUND) \<and>
    bc_reasm_feed r1 (fragments m ! 1) = Some (r2, Inr ((canon_message m)\<lparr>m_flags := 0\<rparr>)) \<and> reasm_idle r2"
proof -
  have w: "reasm_wf r" "\<And>k. in_flight r k = None" using i unfolding reasm_idle_def by blast+
  obtain r1 r2 where f: "bc_reasm_feed r (fragments m ! 0) = Some (r1, Inl BC_ERR_NOT_FOUND)"
    "bc_reasm_feed r1 (fragments m ! 1) = Some (r2, Inr ((canon_message m)\<lparr>m_flags := 0\<rparr>))"
    "in_flight r2 (m_seq m, m_src_node m) = None"
    using reassembly_roundtrip_core [OF o w(1) w(2) idle_slots [OF i] disjI1 [OF refl], of "[]"] by auto
  have k: "frag_key (fragments m ! 0) = (m_seq m, m_src_node m)" "frag_key (fragments m ! 1) = (m_seq m, m_src_node m)"
    using fragment_piece_valid(2) [OF o, of 0] fragment_piece_valid(2) [OF o, of 1] by (simp_all add: fragments_2 [OF o])
  have w1: "reasm_wf r1" using reasm_feed_safe_raw [OF w(1) f(1)] .
  have "in_flight r2 k = None" for k
  proof (cases "k = (m_seq m, m_src_node m)")
    case False
    then show ?thesis
      using feed_isolated_raw [OF w(1) f(1), of k] feed_isolated_raw [OF w1 f(2), of k] w(2) k by simp
  qed (use f(3) in simp)
  then have "reasm_idle r2" using reasm_feed_safe_raw [OF w1 f(2)] by (simp add: reasm_idle_def)
  then show ?thesis using f by blast
qed

text \<open>The messages a board takes for itself: addressed to it, neither acknowledgements nor fragments.\<close>

definition for_board :: "bc_message_bus \<Rightarrow> int \<Rightarrow> bc_message \<Rightarrow> bool" where
  "for_board bus fd m \<longleftrightarrow> encodable m \<and> canon_message m = m \<and> m_dst_node m = bus_node_id bus \<and> m_dst_node m \<noteq> 0 \<and>
     m_flags m AND BC_FLAG_ACK = 0 \<and> m_flags m AND BC_FLAG_FRAGMENT = 0 \<and>
     filter (\<lambda>f. f = fd) (recipients (- 1) m bus) = [fd]"

definition same_table :: "bc_message_bus \<Rightarrow> bc_message_bus \<Rightarrow> bool" where
  "same_table bus bus' \<longleftrightarrow> bus_subscriptions bus' = bus_subscriptions bus \<and> bus_node_id bus' = bus_node_id bus"

lemma for_board_same: "same_table bus bus' \<Longrightarrow> for_board bus' fd m = for_board bus fd m"
  by (simp add: for_board_def same_table_def recipients_def)

text \<open>Fragments do not carry the flags.\<close>

definition arrived :: "bc_message \<Rightarrow> bc_message" where
  "arrived m = (if length (m_payload m) > BC_FRAG_CHUNK_MAX then m\<lparr>m_flags := 0\<rparr> else m)"

lemma complete_queue:
  assumes m: "m_dst_node m = bus_node_id bus" "m_dst_node m \<noteq> 0" "filter (\<lambda>f. f = fd) (recipients (- 1) m bus) = [fd]"
    and q: "client_queue w fd q" "length q + length (deliver_frame m) \<le> BC_CLIENT_TX_CAP"
  shows "\<exists>rc bus' w'. inbound_complete (daemon_env sys) m (Some t) (bus, w) = (rc, bus', w') \<and>
    client_queue w' fd (q @ deliver_frame m) \<and> same_but_stats bus bus'"
proof -
  let ?env = "daemon_env sys"
  obtain rcs w1 where d: "deliver_all (deliver_to_client sys) (deliver_frame m) (recipients (- 1) m bus) w = (rcs, w1)" by force
  have q1: "client_queue w1 fd (q @ deliver_frame m)" using deliver_all_own [OF q(1) m(3) q(2), of sys] d by simp
  have "env_deliver ?env = Some (deliver_to_client sys)" by (simp add: daemon_env_def)
  from deliver_local_all [OF this d] obtain bus1 res where
    l: "bc_message_bus_deliver_local ?env (- 1) m (bus, w) = (res, bus1, w1)" "same_but_stats bus bus1" by blast
  have s: "should_deliver_local bus m" "\<And>b. same_but_stats bus b \<Longrightarrow> \<not> should_forward b m"
    using m(1,2) by (auto simp: should_deliver_local_def should_forward_def same_but_stats_fields)
  obtain rc2 bus2 where i: "deliver_inbound ?env m (bus, w) = (rc2, bus2, w1)" "same_but_stats bus bus2"
    using l s(1) by (cases res) (auto simp: deliver_inbound_def)
  obtain rc3 bus3 w3 where a: "send_ack ?env t m (bus2, w1) = (rc3, bus3, w3)" by (metis prod_cases3)
  have k: "mg_clients w3 = mg_clients w1" "same_but_stats bus bus3"
    using ack_clients [OF a] same_but_stats_trans [OF i(2)] by auto
  then have "client_queue w3 fd (q @ deliver_frame m)" using q1 by (simp add: client_queue_def)
  then show ?thesis using m i s(2) a k q1 by (auto simp: inbound_complete_def)
qed

lemma inbound_whole:
  assumes m: "for_board bus fd m" "\<not> length (m_payload m) > BC_FRAG_CHUNK_MAX"
    and q: "client_queue w fd q" "length q + length (deliver_frame m) \<le> BC_CLIENT_TX_CAP"
  shows "\<exists>rc bus' w'. bc_message_bus_handle_inbound (daemon_env sys) m (Some t) (bus, w) = Some (rc, bus', w') \<and>
    client_queue w' fd (q @ deliver_frame m) \<and> same_table bus bus' \<and> bus_reasm bus' = bus_reasm bus"
proof -
  let ?bus = "bump (rx_network_update (\<lambda>x. x + 1)) bus"
  have "filter (\<lambda>f. f = fd) (recipients (- 1) m ?bus) = [fd]" "m_dst_node m = bus_node_id ?bus" "m_dst_node m \<noteq> 0"
    using m(1) by (auto simp: for_board_def recipients_def)
  from complete_queue [OF this(2,3,1) q, of sys t] obtain rc bus' w' where
    c: "inbound_complete (daemon_env sys) m (Some t) (?bus, w) = (rc, bus', w')"
      "client_queue w' fd (q @ deliver_frame m)" "same_but_stats ?bus bus'" by blast
  have "same_table bus bus' \<and> bus_reasm bus' = bus_reasm bus"
    using c(3) by (simp add: same_table_def same_but_stats_fields)
  then show ?thesis using m(1) c(1,2) by (simp add: bc_message_bus_handle_inbound_def for_board_def)
qed

lemma fragment_flags: "p \<in> set (fragments m) \<Longrightarrow> m_flags p AND BC_FLAG_ACK = 0 \<and> m_flags p AND BC_FLAG_FRAGMENT \<noteq> 0"
  if "encodable m"
  using fragments_sound(2) [OF that] by (simp add: BC_FLAG_ACK_def BC_FLAG_FRAGMENT_def)

lemma inbound_first:
  assumes "m_flags p AND BC_FLAG_ACK = 0" "m_flags p AND BC_FLAG_FRAGMENT \<noteq> 0"
    and "bc_reasm_feed (bus_reasm bus) p = Some (r, Inl BC_ERR_NOT_FOUND)"
  shows "\<exists>rc bus'. bc_message_bus_handle_inbound env p from (bus, w) = Some (rc, bus', w) \<and> same_table bus bus' \<and> bus_reasm bus' = r"
  using assms by (simp add: bc_message_bus_handle_inbound_def Let_def same_table_def)

lemma inbound_last:
  assumes p: "m_flags p AND BC_FLAG_ACK = 0" "m_flags p AND BC_FLAG_FRAGMENT \<noteq> 0"
    and f: "bc_reasm_feed (bus_reasm bus) p = Some (r, Inr m)"
    and m: "m_dst_node m = bus_node_id bus" "m_dst_node m \<noteq> 0" "filter (\<lambda>f. f = fd) (recipients (- 1) m bus) = [fd]"
    and q: "client_queue w fd q" "length q + length (deliver_frame m) \<le> BC_CLIENT_TX_CAP"
  shows "\<exists>rc bus' w'. bc_message_bus_handle_inbound (daemon_env sys) p (Some t) (bus, w) = Some (rc, bus', w') \<and>
    client_queue w' fd (q @ deliver_frame m) \<and> same_table bus bus' \<and> bus_reasm bus' = r"
proof -
  let ?bus = "(bump (frag_rx_update (\<lambda>x. x + 1)) (bump (rx_network_update (\<lambda>x. x + 1)) bus))\<lparr>bus_reasm := r\<rparr>"
  have "filter (\<lambda>f. f = fd) (recipients (- 1) m ?bus) = [fd]" "m_dst_node m = bus_node_id ?bus"
    using m by (simp_all add: recipients_def)
  from complete_queue [OF this(2) m(2) this(1) q, of sys t] obtain rc bus' w' where
    c: "inbound_complete (daemon_env sys) m (Some t) (?bus, w) = (rc, bus', w')"
      "client_queue w' fd (q @ deliver_frame m)" "same_but_stats ?bus bus'" by blast
  have "same_table bus bus' \<and> bus_reasm bus' = r"
    using c(3) by (simp add: same_table_def same_but_stats_fields)
  then show ?thesis using p f c(1,2) by (simp add: bc_message_bus_handle_inbound_def Let_def)
qed

lemma pieces_canon:
  assumes "encodable m" "canon_message m = m"
  shows "map canon_message (pieces m) = pieces m"
proof (cases "length (m_payload m) > BC_FRAG_CHUNK_MAX")
  case True
  then have o: "oversize m" using assms(1) by (simp add: oversize_def)
  have "canon_message (fragment_piece m 2 i) = fragment_piece m 2 i" if "i \<in> {0, 1}" for i
    using fragment_piece_fields(5,6) [OF o that] assms by (simp add: canon_message_def encodable_def canon_simps)
  then show ?thesis using True by (simp add: pieces_def fragments_2 [OF o])
next
  case False
  then show ?thesis using assms(2) by (simp add: pieces_def)
qed

lemma inbound_pieces:
  assumes m: "for_board bus fd m" and i: "reasm_idle (bus_reasm bus)"
    and q: "client_queue w fd q" "length q + length (deliver_frame (arrived m)) \<le> BC_CLIENT_TX_CAP"
  shows "\<exists>bus' w'. inbound_all (daemon_env sys) t (map canon_message (pieces m)) (bus, w) = Some (bus', w') \<and>
    client_queue w' fd (q @ deliver_frame (arrived m)) \<and> same_table bus bus' \<and> reasm_idle (bus_reasm bus')"
proof -
  have e: "encodable m" "canon_message m = m" using m by (simp_all add: for_board_def)
  show ?thesis
  proof (cases "length (m_payload m) > BC_FRAG_CHUNK_MAX")
    case False
    then have "arrived m = m" "map canon_message (pieces m) = [m]" using e(2) by (simp_all add: arrived_def pieces_def)
    then show ?thesis using inbound_whole [OF m False q(1), of sys t] q(2) i by auto
  next
    case True
    then have o: "oversize m" and a: "arrived m = m\<lparr>m_flags := 0\<rparr>" using e(1) by (simp_all add: oversize_def arrived_def)
    let ?p = "fragments m ! 0" and ?q = "fragments m ! 1"
    have p: "fragments m = [?p, ?q]" using fragments_2 [OF o] by simp
    obtain r1 r2 where f: "bc_reasm_feed (bus_reasm bus) ?p = Some (r1, Inl BC_ERR_NOT_FOUND)"
      "bc_reasm_feed r1 ?q = Some (r2, Inr (arrived m))" "reasm_idle r2"
      using idle_roundtrip [OF o i] e(2) a by auto
    have fp: "m_flags ?p AND BC_FLAG_ACK = 0 \<and> m_flags ?p AND BC_FLAG_FRAGMENT \<noteq> 0"
      and fq: "m_flags ?q AND BC_FLAG_ACK = 0 \<and> m_flags ?q AND BC_FLAG_FRAGMENT \<noteq> 0"
      using fragment_flags [OF e(1)] p by (metis list.set_intros(1,2))+
    obtain rc1 bus1 where h1: "bc_message_bus_handle_inbound (daemon_env sys) ?p (Some t) (bus, w) = Some (rc1, bus1, w)"
      "same_table bus bus1" "bus_reasm bus1 = r1"
      using inbound_first [OF fp [THEN conjunct1] fp [THEN conjunct2] f(1), of "daemon_env sys" "Some t" w] by blast
    have "for_board bus1 fd m" using for_board_same [OF h1(2)] m by simp
    then have m1: "m_dst_node (arrived m) = bus_node_id bus1" "m_dst_node (arrived m) \<noteq> 0"
      "filter (\<lambda>f. f = fd) (recipients (- 1) (arrived m) bus1) = [fd]"
      by (auto simp: a for_board_def recipients_def)
    obtain rc2 bus2 w2 where h2: "bc_message_bus_handle_inbound (daemon_env sys) ?q (Some t) (bus1, w) = Some (rc2, bus2, w2)"
      "client_queue w2 fd (q @ deliver_frame (arrived m))" "same_table bus1 bus2" "bus_reasm bus2 = r2"
      using inbound_last [OF fq [THEN conjunct1] fq [THEN conjunct2] f(2) [folded h1(3)] m1 q, of sys t] by blast
    have "map canon_message (pieces m) = [?p, ?q]" using pieces_canon [OF e] True p by (simp add: pieces_def)
    moreover have "same_table bus bus2" using h1(2) h2(3) by (simp add: same_table_def)
    ultimately show ?thesis using h1(1) h2 f(3) by auto
  qed
qed

lemma inbound_all_append:
  "inbound_all env t (xs @ ys) s = (case inbound_all env t xs s of None \<Rightarrow> None | Some s' \<Rightarrow> inbound_all env t ys s')"
  by (induction xs arbitrary: s) (auto split: option.split prod.split)

lemma inbound_list:
  "\<forall>m \<in> set ms. for_board bus fd m \<Longrightarrow> reasm_idle (bus_reasm bus) \<Longrightarrow> client_queue w fd q \<Longrightarrow>
     length q + length (concat (map (deliver_frame \<circ> arrived) ms)) \<le> BC_CLIENT_TX_CAP \<Longrightarrow>
     \<exists>bus' w'. inbound_all (daemon_env sys) t (map canon_message (concat (map pieces ms))) (bus, w) = Some (bus', w') \<and>
       client_queue w' fd (q @ concat (map (deliver_frame \<circ> arrived) ms))"
proof (induction ms arbitrary: bus w q)
  case Nil
  then show ?case by simp
next
  case (Cons m ms)
  let ?d = "deliver_frame (arrived m)"
  have room: "length q + length ?d \<le> BC_CLIENT_TX_CAP"
    "length (q @ ?d) + length (concat (map (deliver_frame \<circ> arrived) ms)) \<le> BC_CLIENT_TX_CAP"
    using Cons.prems(4) by (simp_all add: comp_def)
  have m: "for_board bus fd m" using Cons.prems(1) by simp
  obtain bus1 w1 where h: "inbound_all (daemon_env sys) t (map canon_message (pieces m)) (bus, w) = Some (bus1, w1)"
    "client_queue w1 fd (q @ ?d)" "same_table bus bus1" "reasm_idle (bus_reasm bus1)"
    using inbound_pieces [OF m Cons.prems(2,3) room(1), of sys t] by blast
  have "\<forall>m \<in> set ms. for_board bus1 fd m" using Cons.prems(1) for_board_same [OF h(3)] by simp
  from Cons.IH [OF this h(4,2) room(2)] obtain bus' w' where
    "inbound_all (daemon_env sys) t (map canon_message (concat (map pieces ms))) (bus1, w1) = Some (bus', w')"
    "client_queue w' fd ((q @ ?d) @ concat (map (deliver_frame \<circ> arrived) ms))" by blast
  then show ?case using h(1) by (simp add: inbound_all_append comp_def)
qed

section \<open>The two clients\<close>

type_synonym publication = "byte list \<times> byte list \<times> byte list \<times> bc_publish_opts"

definition pub_message :: "publication \<Rightarrow> bc_message" where
  "pub_message = (\<lambda>(channel, topic, payload, opts). published channel topic payload (Some opts))"

definition pub_request :: "publication \<Rightarrow> byte list" where
  "pub_request = (\<lambda>(channel, topic, payload, opts).
     ipc_wire (sent_header (ipc_code BC_IPC_PUBLISH) channel topic payload (Some opts)) (cstr channel) (cstr topic) payload)"

definition pub_sendable :: "publication \<Rightarrow> bool" where
  "pub_sendable = (\<lambda>(channel, topic, payload, opts). sendable channel topic payload)"

text \<open>A client that writes one message after the other, and one that reads a number of them.\<close>

fun bc_writes ::
  "'x net \<Rightarrow> int \<Rightarrow> publication list \<Rightarrow> bc_context \<Rightarrow> 'x \<Rightarrow> ((bc_status + nat) list \<times> bc_context \<times> 'x) option" where
  "bc_writes net handle [] g x = Some ([], g, x)"
| "bc_writes net handle ((channel, topic, payload, opts) # ps) g x =
     (case bc_write_ex net handle channel topic payload (Some opts) g x of
        None \<Rightarrow> None
      | Some (res, g, x) \<Rightarrow> map_option (\<lambda>(rs, g, x). (res # rs, g, x)) (bc_writes net handle ps g x))"

fun bc_reads ::
  "'x net \<Rightarrow> int \<Rightarrow> nat \<Rightarrow> nat \<Rightarrow> int \<Rightarrow> nat \<Rightarrow> bc_context \<Rightarrow> 'x \<Rightarrow>
     ((bc_status + byte list \<times> byte list) list \<times> bc_context \<times> 'x) option" where
  "bc_reads net handle topic_cap payload_cap timeout 0 g x = Some ([], g, x)"
| "bc_reads net handle topic_cap payload_cap timeout (Suc n) g x =
     (case bc_read net handle [] topic_cap payload_cap timeout g x of
        None \<Rightarrow> None
      | Some (res, g, x) \<Rightarrow>
          map_option (\<lambda>(rs, g, x). (res # rs, g, x)) (bc_reads net handle topic_cap payload_cap timeout n g x))"

lemma writes_law:
  assumes s: "stream_socket net handle inp out" "handle \<ge> 0" "ctx_shm g = None"
  shows "\<forall>p \<in> set ps. pub_sendable p \<Longrightarrow>
    \<exists>x'. bc_writes net handle ps g x = Some (map (\<lambda>(_, _, payload, _). Inr (length payload)) ps, g, x') \<and>
      out x' = out x @ concat (map pub_request ps)"
proof (induction ps arbitrary: x)
  case Nil
  then show ?case by simp
next
  case (Cons p ps)
  obtain c t d opts where p: "p = (c, t, d, opts)" by (cases p)
  have "sendable c t d" using Cons.prems by (simp add: p pub_sendable_def)
  from client_write_law [OF s this, of "Some opts" x] obtain x1 where
    w: "bc_write_ex net handle c t d (Some opts) g x = Some (Inr (length d), g, x1)" "out x1 = out x @ pub_request p"
    unfolding p pub_request_def prod.case by blast
  obtain x' where "bc_writes net handle ps g x1 = Some (map (\<lambda>(_, _, payload, _). Inr (length payload)) ps, g, x')"
    "out x' = out x1 @ concat (map pub_request ps)" using Cons.IH [of x1] Cons.prems by auto
  then show ?case using w by (simp add: p)
qed

lemma reads_law:
  assumes s: "stream_socket net handle inp out" "handle \<ge> 0" "ctx_shm g = None"
  shows "\<forall>m \<in> set ms. fits_caller m topic_cap payload_cap \<Longrightarrow> inp x = concat (map deliver_frame ms) \<Longrightarrow>
    \<exists>x'. bc_reads net handle topic_cap payload_cap timeout (length ms) g x =
      Some (map (\<lambda>m. Inr (cstr (m_topic m) @ [0], m_payload m)) ms, g, x') \<and> inp x' = []"
proof (induction ms arbitrary: x)
  case Nil
  then show ?case by simp
next
  case (Cons m ms)
  obtain x1 where r: "bc_read net handle [] topic_cap payload_cap timeout g x =
      Some (Inr (cstr (m_topic m) @ [0], m_payload m), g, x1)" "inp x1 = concat (map deliver_frame ms)"
    using delivery_roundtrip_core [OF s, of m topic_cap payload_cap x "concat (map deliver_frame ms)" "[]" timeout]
      Cons.prems by auto
  show ?case using Cons.IH [OF _ r(2)] Cons.prems(1) r(1) by auto
qed

text \<open>The daemon publishes each of the requests.\<close>

lemma published_fields:
  assumes "pub_sendable p"
  shows "encodable (pub_message p)" "canon_message (pub_message p) = pub_message p"
    "cstr (m_topic (pub_message p)) = cstr (fst (snd p))" "m_payload (pub_message p) = fst (snd (snd p))"
    "cstr (m_channel (pub_message p)) = cstr (fst p)"
    "m_dst_node (pub_message p) = po_dst_node (snd (snd (snd p)))" "m_flags (pub_message p) = po_flags (snd (snd (snd p)))"
  using assms
  by (auto simp: pub_sendable_def pub_message_def sendable_def encodable_def published_def Let_def canon_message_def
      canon_simps split: prod.splits)

lemma request_published:
  assumes "pub_sendable p"
  shows "process_frame_buffer sys fd (pub_request p) st = bc_message_bus_publish (daemon_env sys) fd (pub_message p) st"
proof -
  obtain c t d opts where p: "p = (c, t, d, opts)" by (cases p)
  have s: "sendable c t d" using assms by (simp add: p pub_sendable_def)
  show ?thesis
    unfolding p pub_request_def pub_message_def prod.case
    using process_request [OF build_frame_parts(2) [OF s]] sent_message [OF s] by metis
qed

lemma requests_handled:
  assumes l: "carries sys t line"
  shows "\<forall>p \<in> set ps. pub_sendable p \<and> m_dst_node (pub_message p) \<noteq> 0 \<and> m_dst_node (pub_message p) \<noteq> bus_node_id bus \<and>
      bc_router_route (sy_config sys) (sy_names sys) (pub_message p) = Inr t \<Longrightarrow>
    \<exists>ms bus' m'. handled sys fd (map pub_request ps) (bus, m) (bus', m') \<and> list_all2 stamped (map pub_message ps) ms \<and>
      on_line line m' = on_line line m @ concat (map wire (concat (map pieces ms)))"
proof (induction ps arbitrary: bus m)
  case Nil
  then show ?case by (auto intro: exI [of _ "[]"])
next
  case (Cons p ps)
  have p: "pub_sendable p" "m_dst_node (pub_message p) \<noteq> 0" "m_dst_node (pub_message p) \<noteq> bus_node_id bus"
    "bc_router_route (sy_config sys) (sy_names sys) (pub_message p) = Inr t" using Cons.prems by auto
  obtain msg bus1 m1 where h: "bc_message_bus_publish (daemon_env sys) fd (pub_message p) (bus, m) = (BC_OK, bus1, m1)"
    "stamped (pub_message p) msg" "on_line line m1 = on_line line m @ concat (map wire (pieces msg))"
    "bus_node_id bus1 = bus_node_id bus"
    using publish_carries [OF l published_fields(1) [OF p(1)] p(4,2,3), of fd m] by blast
  obtain ms bus' m' where r: "handled sys fd (map pub_request ps) (bus1, m1) (bus', m')"
    "list_all2 stamped (map pub_message ps) ms"
    "on_line line m' = on_line line m1 @ concat (map wire (concat (map pieces ms)))"
    using Cons.IH [of bus1 m1] Cons.prems h(4) by auto
  have "handled sys fd (map pub_request (p # ps)) (bus, m) (bus', m')"
    using r(1) h(1) request_published [OF p(1), of sys fd "(bus, m)"] by simp
  then show ?case
    using r(2,3) h(2,3) by (intro exI [of _ "msg # ms"] exI [of _ bus'] exI [of _ m'] conjI) simp_all
qed

section \<open>From client to client\<close>

text \<open>
  A publication that is to get through: within the limits, for the other board, neither flagged as
  a fragment nor as an acknowledgement, routed to the line, matched by one subscription of the
  client there, and no longer than that client's buffers.
\<close>

definition addressed ::
  "'x sys \<Rightarrow> nat \<Rightarrow> bc_message_bus \<Rightarrow> int \<Rightarrow> nat \<Rightarrow> nat \<Rightarrow> publication \<Rightarrow> bool" where
  "addressed sys t bus fd topic_cap payload_cap p \<longleftrightarrow> (case p of (channel, topic, payload, opts) \<Rightarrow>
     sendable channel topic payload \<and> po_dst_node opts = bus_node_id bus \<and>
     po_flags opts AND BC_FLAG_ACK = 0 \<and> po_flags opts AND BC_FLAG_FRAGMENT = 0 \<and>
     bc_router_route (sy_config sys) (sy_names sys) (pub_message p) = Inr t \<and>
     filter (\<lambda>f. f = fd) (recipients (- 1) (pub_message p) bus) = [fd] \<and>
     length (cstr topic) < topic_cap \<and> length payload \<le> payload_cap)"

definition delivered_size :: "publication \<Rightarrow> nat" where
  "delivered_size = (\<lambda>(channel, topic, payload, opts).
     IPC_HEADER_SIZE + length (cstr channel) + length (cstr topic) + length payload)"

lemma stamped_published:
  assumes a: "addressed sys t bus fd topic_cap payload_cap p" and n: "bus_node_id bus \<noteq> 0"
    and s: "stamped (pub_message p) m"
  shows "for_board bus fd m" "fits_caller (arrived m) topic_cap payload_cap"
    "length (deliver_frame (arrived m)) = delivered_size p"
    "(cstr (m_topic (arrived m)) @ [0], m_payload (arrived m)) = (case p of (channel, topic, payload, opts) \<Rightarrow> (cstr topic @ [0], payload))"
proof -
  obtain c tp d opts where p: "p = (c, tp, d, opts)" by (cases p)
  have ps: "pub_sendable p" using a by (simp add: addressed_def p pub_sendable_def)
  note f = published_fields [OF ps, unfolded p fst_conv snd_conv, folded p] and g = stamped_fields [OF s]
  have e: "encodable m" using f(1) g(6) by simp
  have cm: "canon_message m = m"
  proof -
    have "canon BC_MAX_CHANNEL_LEN (m_channel m) = m_channel m" "canon BC_MAX_TOPIC_LEN (m_topic m) = m_topic m"
      using arg_cong [OF f(2), of m_channel] arg_cong [OF f(2), of m_topic] g(1,2) by (simp_all add: canon_message_def)
    then show ?thesis by (simp add: canon_message_def)
  qed
  show "for_board bus fd m"
    using a n e cm f(6,7) g(4,5,8) by (simp add: for_board_def addressed_def p)
  have r: "encodable (arrived m)" "m_channel (arrived m) = m_channel m" "m_topic (arrived m) = m_topic m"
    "m_payload (arrived m) = m_payload m"
    using e by (simp_all add: arrived_def encodable_def)
  show "fits_caller (arrived m) topic_cap payload_cap"
    using a r f(3,4) g(2,3) by (simp add: fits_caller_def addressed_def p)
  show "length (deliver_frame (arrived m)) = delivered_size p"
    using r(2-4) f(3-5) g(1-3)
    by (simp add: deliver_frame_parts(1) [OF r(1)] ipc_header.enc_len delivered_size_def p)
  show "(cstr (m_topic (arrived m)) @ [0], m_payload (arrived m)) =
      (case p of (channel, topic, payload, opts) \<Rightarrow> (cstr topic @ [0], payload))"
    using r(3,4) f(3,4) g(2,3) by (simp add: p)
qed

text \<open>The same for a list of them.\<close>

lemma stamped_all:
  assumes "bus_node_id bus \<noteq> 0"
  shows "list_all2 stamped (map pub_message ps) ms \<Longrightarrow>
    \<forall>p \<in> set ps. addressed sys t bus fd topic_cap payload_cap p \<Longrightarrow>
    (\<forall>m \<in> set ms. for_board bus fd m) \<and> (\<forall>m \<in> set (map arrived ms). fits_caller m topic_cap payload_cap) \<and>
    length (concat (map (deliver_frame \<circ> arrived) ms)) = sum_list (map delivered_size ps) \<and>
    map (\<lambda>m. Inr (cstr (m_topic m) @ [0], m_payload m)) (map arrived ms) =
      map (\<lambda>(_, topic, payload, _). Inr (cstr topic @ [0], payload)) ps"
proof (induction ps arbitrary: ms)
  case Nil
  then show ?case by simp
next
  case (Cons p ps)
  then obtain m ms' where ms: "ms = m # ms'" "stamped (pub_message p) m" "list_all2 stamped (map pub_message ps) ms'"
    by (auto simp: list_all2_Cons1)
  have a: "addressed sys t bus fd topic_cap payload_cap p" using Cons.prems(2) by simp
  note h = stamped_published [OF a assms ms(2)]
  show ?case using Cons.IH [OF ms(3)] Cons.prems(2) h ms(1) by (auto simp: comp_def split: prod.splits)
qed

text \<open>The daemon that sends, for every cut of its client's stream.\<close>

lemma sending_board:
  assumes l: "carries sys t line" and n: "bus_node_id busB \<noteq> 0" "bus_node_id busB \<noteq> bus_node_id bus"
    and p: "\<forall>p \<in> set ps. addressed sys t busB fdB topic_cap payload_cap p"
  obtains ms bus' m' where "list_all2 stamped (map pub_message ps) ms"
    "on_line line m' = on_line line m @ concat (map wire (concat (map pieces ms)))"
    "\<And>cs. concat cs = concat (map pub_request ps) \<Longrightarrow> feed_client sys fd cs [] (bus, m) = (BC_OK, [], bus', m')"
proof -
  have s: "\<forall>p \<in> set ps. pub_sendable p"
    using p by (auto simp: addressed_def pub_sendable_def)
  have "\<forall>p \<in> set ps. pub_sendable p \<and> m_dst_node (pub_message p) \<noteq> 0 \<and> m_dst_node (pub_message p) \<noteq> bus_node_id bus \<and>
      bc_router_route (sy_config sys) (sy_names sys) (pub_message p) = Inr t"
    using p s published_fields(6) n by (auto simp: addressed_def)
  then obtain ms bus' m' where h: "handled sys fd (map pub_request ps) (bus, m) (bus', m')"
    "list_all2 stamped (map pub_message ps) ms"
    "on_line line m' = on_line line m @ concat (map wire (concat (map pieces ms)))"
    using requests_handled [OF l, of ps bus fd m] by blast
  have "\<forall>f \<in> set (map pub_request ps). \<exists>hd c t p. f = ipc_wire hd c t p \<and> ipc_request hd c t p"
    using s build_frame_parts(2) by (fastforce simp: pub_request_def pub_sendable_def)
  from client_stream_core [OF this _ h(1)] show thesis using that h(2,3) by blast
qed

text \<open>The daemon that receives, for every cut of the line.\<close>

lemma receiving_board:
  assumes "\<forall>m \<in> set ms. for_board bus fd m" "reasm_idle (bus_reasm bus)" "client_queue m fd q"
    and "length q + length (concat (map (deliver_frame \<circ> arrived) ms)) \<le> BC_CLIENT_TX_CAP"
  obtains bus' m' where "client_queue m' fd (q @ concat (map (deliver_frame \<circ> arrived) ms))"
    "\<And>css. concat (concat css) = concat (map wire (concat (map pieces ms))) \<Longrightarrow>
      fits_buffer [] (concat css) \<Longrightarrow>
      recv_events (daemon_env sys) t (map (map Some) css) [] (bus, m) = Some ([], bus', m')"
proof -
  obtain bus' m' where i: "inbound_all (daemon_env sys) t (map canon_message (concat (map pieces ms))) (bus, m) = Some (bus', m')"
    "client_queue m' fd (q @ concat (map (deliver_frame \<circ> arrived) ms))"
    using inbound_list [OF assms, of sys t] by blast
  have "\<forall>m \<in> set (concat (map pieces ms)). bc_protocol_encode m = Inr (wire m)"
    using assms(1) pieces_encodable by (auto simp: encode_eq for_board_def)
  from stream_delivery_core [OF this _ _ i(1)] show thesis using that i(2) by blast
qed

text \<open>
  C1. From board to board: messages that a client addresses to another board, within the limits and up
  to the largest payload (two fragments), are all accepted by the library. However the socket cuts their requests into reads,
  the daemon publishes them all on the routed line; however that line cuts the frames into reads and
  events, none of the reads returning more than the daemon asked for, the other daemon's receive buffer is empty at the end, no partial message is left, and behind
  what its client already had coming are the messages, each once and in order; and the client that reads
  them gets their topics and payloads unchanged. That client has room for them in its queue of 4 MiB
  and does not use shared memory; other subscribers, whatever becomes of their copies, change nothing.
\<close>

theorem board_to_board:
  assumes a: "stream_socket netA hA inpA outA" "hA \<ge> 0" "ctx_shm gA = None"
    and b: "stream_socket netB hB inpB outB" "hB \<ge> 0" "ctx_shm gB = None"
    and line: "carries sysA tA line"
    and nodes: "bus_node_id busB \<noteq> 0" "bus_node_id busB \<noteq> bus_node_id busA"
    and idle: "reasm_idle (bus_reasm busB)" "client_queue mB fdB q"
    and room: "length q + sum_list (map delivered_size ps) \<le> BC_CLIENT_TX_CAP"
    and pubs: "\<forall>p \<in> set ps. addressed sysA tA busB fdB topic_cap payload_cap p"
  shows "\<exists>xA' requests. bc_writes netA hA ps gA xA = Some (map (\<lambda>(_, _, payload, _). Inr (length payload)) ps, gA, xA') \<and>
      outA xA' = outA xA @ requests \<and>
    (\<forall>cs. concat cs = requests \<longrightarrow> (\<exists>busA' mA' frames.
      feed_client sysA fdA cs [] (busA, mA) = (BC_OK, [], busA', mA') \<and>
      on_line line mA' = on_line line mA @ frames \<and>
      (\<forall>css. concat (concat css) = frames \<and> fits_buffer [] (concat css) \<longrightarrow>
        (\<exists>busB' mB' queued.
          recv_events (daemon_env sysB) tB (map (map Some) css) [] (busB, mB) = Some ([], busB', mB') \<and>
          client_queue mB' fdB (q @ queued) \<and>
          (\<forall>xB. inpB xB = queued \<longrightarrow> (\<exists>xB'.
            bc_reads netB hB topic_cap payload_cap timeout (length ps) gB xB =
              Some (map (\<lambda>(_, topic, payload, _). Inr (cstr topic @ [0], payload)) ps, gB, xB') \<and> inpB xB' = []))))))"
proof -
  have s: "\<forall>p \<in> set ps. pub_sendable p"
    using pubs by (auto simp: addressed_def pub_sendable_def)
  obtain xA' where w: "bc_writes netA hA ps gA xA = Some (map (\<lambda>(_, _, payload, _). Inr (length payload)) ps, gA, xA')"
    "outA xA' = outA xA @ concat (map pub_request ps)" using writes_law [OF a s, of xA] by blast
  obtain ms busA' mA' where h: "list_all2 stamped (map pub_message ps) ms"
    "on_line line mA' = on_line line mA @ concat (map wire (concat (map pieces ms)))"
    "\<And>cs. concat cs = concat (map pub_request ps) \<Longrightarrow> feed_client sysA fdA cs [] (busA, mA) = (BC_OK, [], busA', mA')"
    by (rule sending_board [OF line nodes pubs, of mA fdA]) blast
  note t = stamped_all [OF nodes(1) h(1) pubs]
  let ?queued = "concat (map (deliver_frame \<circ> arrived) ms)"
  have r: "length q + length ?queued \<le> BC_CLIENT_TX_CAP"
    using room by (simp only: conjunct1 [OF conjunct2 [OF conjunct2 [OF t]]])
  obtain busB' mB' where i: "client_queue mB' fdB (q @ ?queued)"
    "\<And>css. concat (concat css) = concat (map wire (concat (map pieces ms))) \<Longrightarrow>
      fits_buffer [] (concat css) \<Longrightarrow>
      recv_events (daemon_env sysB) tB (map (map Some) css) [] (busB, mB) = Some ([], busB', mB')"
    by (rule receiving_board [OF conjunct1 [OF t] idle r, of sysB tB]) blast
  have l: "length (map arrived ms) = length ps" using h(1) by (simp add: list_all2_lengthD [symmetric])
  have R: "\<exists>xB'. bc_reads netB hB topic_cap payload_cap timeout (length ps) gB xB =
      Some (map (\<lambda>(_, topic, payload, _). Inr (cstr topic @ [0], payload)) ps, gB, xB') \<and> inpB xB' = []"
    if "inpB xB = ?queued" for xB
  proof -
    have "inpB xB = concat (map deliver_frame (map arrived ms))" using that by (simp only: map_map)
    from reads_law [OF b conjunct1 [OF conjunct2 [OF t]] this, of timeout] show ?thesis
      unfolding l conjunct2 [OF conjunct2 [OF conjunct2 [OF t]]] .
  qed
  show ?thesis
    by (rule exI [of _ xA'], rule exI [of _ "concat (map pub_request ps)"], rule conjI [OF w(1)], rule conjI [OF w(2)],
        rule allI, rule impI, rule exI [of _ busA'], rule exI [of _ mA'],
        rule exI [of _ "concat (map wire (concat (map pieces ms)))"], rule conjI [OF h(3)], assumption, rule conjI [OF h(2)],
        rule allI, rule impI, rule exI [of _ busB'], rule exI [of _ mB'], rule exI [of _ ?queued],
        rule conjI [OF i(2)], erule conjunct1, erule conjunct2, rule conjI [OF i(1)], rule allI, rule impI, rule R, assumption)
qed

text \<open>Two boards to try it on.\<close>

definition line_sys :: "byte list sys" where
  "line_sys =
     \<lparr>sy_config = bc_config_load_defaults\<lparr>cf_routes := [\<lparr>rt_topic = str ''*'', rt_transport = str ''udp0''\<rparr>]\<rparr>,
      sy_names = [str ''udp0''], sy_send = (\<lambda>_. Some (\<lambda>frame x. (BC_OK, x @ frame))),
      sy_add = (\<lambda>_ x. (BC_OK, x)), sy_mod = (\<lambda>_ _ x. (BC_OK, x)), sy_del = (\<lambda>_ x. x),
      sy_close = (\<lambda>_ x. x), sy_shm = (\<lambda>x. (None, x)), sy_send_fd = (\<lambda>_ x. (BC_OK, x)),
      sy_shm_close = (\<lambda>_ x. x)\<rparr>"

definition line_manager :: "byte list bc_client_manager" where
  "line_manager = \<lparr>mg_clients = [new_client 7], mg_socket_uid = 0, mg_fault = False, mg_ext = []\<rparr>"

definition bus_one :: bc_message_bus where
  "bus_one = bc_message_bus_init\<lparr>bus_node_id := 1\<rparr>"

definition bus_two :: bc_message_bus where
  "bus_two = (fst (bc_message_bus_subscribe bc_message_bus_init 5 (str ''a.b'')))\<lparr>bus_node_id := 2\<rparr>"

definition sample_pub :: publication where
  "sample_pub = ([0], str ''a.b'', [1, 2], \<lparr>po_dst_node = 2, po_qos = 1, po_flags = 0\<rparr>)"

lemma line_sys_carries: "carries line_sys 0 (\<lambda>x. x)"
  by (simp add: carries_def line_sys_def)

lemma sample_addressed: "addressed line_sys 0 bus_two 5 64 16 sample_pub"
  by code_simp

lemma sample_size: "delivered_size sample_pub = 33"
  by code_simp

lemma bus_two_idle: "reasm_idle (bus_reasm bus_two)"
proof -
  have "bus_reasm bus_two = bc_reasm_init"
    by (simp add: bus_two_def bc_message_bus_subscribe_def bc_message_bus_init_def)
  moreover have "in_flight bc_reasm_init k = None" for k
    by (simp add: in_flight_None bc_reasm_init_def zero_slot_def holds_def)
  ultimately show ?thesis using reasm_wf_init by (simp add: reasm_idle_def)
qed

lemma board_to_board_witness:
  "\<exists>xA' requests. bc_writes pipe_net 3 [sample_pub, sample_pub] no_context ([], []) =
        Some (map (\<lambda>(_, _, payload, _). Inr (length payload)) [sample_pub, sample_pub], no_context, xA') \<and>
      snd xA' = snd ([] :: byte list, []) @ requests \<and>
    (\<forall>cs. concat cs = requests \<longrightarrow> (\<exists>busA' mA' frames.
      feed_client line_sys 7 cs [] (bus_one, line_manager) = (BC_OK, [], busA', mA') \<and>
      on_line (\<lambda>x. x) mA' = on_line (\<lambda>x. x) line_manager @ frames \<and>
      (\<forall>css. concat (concat css) = frames \<and> fits_buffer [] (concat css) \<longrightarrow>
        (\<exists>busB' mB' queued.
          recv_events (daemon_env quiet_sys) 0 (map (map Some) css) [] (bus_two, quiet_manager [new_client 5]) = Some ([], busB', mB') \<and>
          client_queue mB' 5 ([] @ queued) \<and>
          (\<forall>xB. fst xB = queued \<longrightarrow> (\<exists>xB'.
            bc_reads pipe_net 3 64 16 100 (length [sample_pub, sample_pub]) no_context xB =
              Some (map (\<lambda>(_, topic, payload, _). Inr (cstr topic @ [0], payload)) [sample_pub, sample_pub], no_context, xB') \<and>
            fst xB' = []))))))"
proof (rule board_to_board [OF pipe_stream _ _ pipe_stream _ _ line_sys_carries _ _ bus_two_idle])
  show "client_queue (quiet_manager [new_client 5]) 5 []"
    by (simp add: client_queue_def quiet_manager_def new_client_def)
  show "length ([] :: byte list) + sum_list (map delivered_size [sample_pub, sample_pub]) \<le> BC_CLIENT_TX_CAP"
    using sample_size by (simp add: BC_CLIENT_TX_CAP_def)
  show "bus_node_id bus_two \<noteq> 0" "bus_node_id bus_two \<noteq> bus_node_id bus_one"
    by (simp_all add: bus_two_def bus_one_def)
  show "\<forall>p \<in> set [sample_pub, sample_pub]. addressed line_sys 0 bus_two 5 64 16 p"
    using sample_addressed by simp
qed (simp_all add: no_context_def)

end
