(* ===== verification/Log.thy ===== *)
theory Log
  imports Prelude
begin

text \<open>
  \<^verbatim>\<open>src/log/log.c\<close>: log lines. The world is what has been written to the two standard streams and to
  each file, and the files that are open; \<open>g_log_file\<close> is the path of the current one. What is
  left to the C library is a parameter: the time as text, if there is one, and the text that the
  format of a call stands for.
\<close>

type_synonym path = "byte list"

record log_world =
  g_log_file :: "path option"
  lw_open :: "path list"
  lw_files :: "path \<Rightarrow> byte list"
  lw_stdout :: "byte list"
  lw_stderr :: "byte list"

definition BC_LOG_DEBUG :: int where "BC_LOG_DEBUG = 0"
definition BC_LOG_INFO :: int where "BC_LOG_INFO = 1"
definition BC_LOG_WARN :: int where "BC_LOG_WARN = 2"
definition BC_LOG_ERROR :: int where "BC_LOG_ERROR = 3"

definition level_name :: "int \<Rightarrow> byte list" where
  "level_name level =
     (if level = BC_LOG_DEBUG then str ''DEBUG''
      else if level = BC_LOG_INFO then str ''INFO''
      else if level = BC_LOG_WARN then str ''WARN''
      else if level = BC_LOG_ERROR then str ''ERROR''
      else str ''UNKNOWN'')"

text \<open>\<open>made\<close>: the directory could be made or is there already; \<open>opened\<close>: the file could be opened.\<close>

definition bc_log_init :: "byte list \<Rightarrow> byte list \<Rightarrow> bool \<Rightarrow> bool \<Rightarrow> log_world \<Rightarrow> int \<times> log_world" where
  "bc_log_init log_dir name made opened w =
     (if cstr log_dir = [] \<or> cstr name = [] then (- 1, w)
      else if \<not> made then (- 1, w)
      else
        let path = cstr (snprintf_s (zeros 256) (cstr log_dir @ str ''/'' @ cstr name @ str ''.log'')) in
        if opened then (0, w\<lparr>g_log_file := Some path, lw_open := path # lw_open w\<rparr>)
        else (- 1, w\<lparr>g_log_file := None\<rparr>))"

definition bc_log_close :: "log_world \<Rightarrow> log_world" where
  "bc_log_close w = (case g_log_file w of
     None \<Rightarrow> w | Some path \<Rightarrow> w\<lparr>g_log_file := None, lw_open := remove1 path (lw_open w)\<rparr>)"

definition log_line :: "byte list option \<Rightarrow> int \<Rightarrow> byte list option \<Rightarrow> byte list \<Rightarrow> byte list" where
  "log_line now level tag body =
     (let time_buf = (case now of Some t \<Rightarrow> t | None \<Rightarrow> str ''unknown-time'') in
      str ''['' @ time_buf @ str ''] ['' @ level_name level @ str ''] ['' @
        (case tag of Some t \<Rightarrow> cstr t | None \<Rightarrow> str ''-'') @ str ''] '' @ body @ [10])"

definition bc_log_write :: "byte list option \<Rightarrow> int \<Rightarrow> byte list option \<Rightarrow> byte list \<Rightarrow> log_world \<Rightarrow> log_world" where
  "bc_log_write now level tag body w =
     (let line = log_line now level tag body;
          w = (if level \<ge> BC_LOG_ERROR then w\<lparr>lw_stderr := lw_stderr w @ line\<rparr>
               else w\<lparr>lw_stdout := lw_stdout w @ line\<rparr>) in
      case g_log_file w of
        None \<Rightarrow> w
      | Some path \<Rightarrow> w\<lparr>lw_files := (lw_files w)(path := lw_files w path @ line)\<rparr>)"

section \<open>Where the lines go\<close>

type_synonym log_call = "byte list option \<times> int \<times> byte list option \<times> byte list"

fun bc_log_writes :: "log_call list \<Rightarrow> log_world \<Rightarrow> log_world" where
  "bc_log_writes [] w = w"
| "bc_log_writes ((now, level, tag, body) # cs) w = bc_log_writes cs (bc_log_write now level tag body w)"

definition line_of :: "log_call \<Rightarrow> byte list" where
  "line_of = (\<lambda>(now, level, tag, body). log_line now level tag body)"

definition is_error :: "log_call \<Rightarrow> bool" where
  "is_error = (\<lambda>(now, level, tag, body). level \<ge> BC_LOG_ERROR)"

lemma log_writes_law:
  "g_log_file (bc_log_writes cs w) = g_log_file w \<and> lw_open (bc_log_writes cs w) = lw_open w \<and>
   lw_stderr (bc_log_writes cs w) = lw_stderr w @ concat (map line_of (filter is_error cs)) \<and>
   lw_stdout (bc_log_writes cs w) = lw_stdout w @ concat (map line_of (filter (\<lambda>c. \<not> is_error c) cs)) \<and>
   lw_files (bc_log_writes cs w) = (case g_log_file w of None \<Rightarrow> lw_files w
     | Some path \<Rightarrow> (lw_files w)(path := lw_files w path @ concat (map line_of cs)))"
proof (induction cs arbitrary: w)
  case Nil
  then show ?case by (simp split: option.split)
next
  case (Cons c cs)
  obtain now level tag body where c: "c = (now, level, tag, body)" by (cases c)
  show ?case
    by (simp add: c Cons line_of_def is_error_def) (simp add: bc_log_write_def Let_def c line_of_def split: option.split)
qed

text \<open>
  A run of the program's log: after a successful start, every line is in the file, behind what was
  there and in order; the errors are on the error stream and all others on the output; and
  closing leaves the file written and no file open that was not open before.
\<close>

theorem log_run:
  assumes i: "bc_log_init log_dir name made opened w = (0, w1)"
    and path: "length (cstr log_dir) + length (cstr name) + 5 < 256"
  shows "let file = cstr log_dir @ str ''/'' @ cstr name @ str ''.log''; w' = bc_log_close (bc_log_writes cs w1) in
    lw_files w' = (lw_files w)(file := lw_files w file @ concat (map line_of cs)) \<and>
    lw_stderr w' = lw_stderr w @ concat (map line_of (filter is_error cs)) \<and>
    lw_stdout w' = lw_stdout w @ concat (map line_of (filter (\<lambda>c. \<not> is_error c) cs)) \<and>
    g_log_file w' = None \<and> lw_open w' = lw_open w"
proof -
  let ?file = "cstr log_dir @ str ''/'' @ cstr name @ str ''.log''"
  have z: "0 \<notin> set ?file" by (auto simp: cstr_def str_def dest: set_takeWhileD)
  have "length ?file = length (cstr log_dir) + length (cstr name) + 5" by (simp add: str_def)
  then have "length (cstr ?file) < 256" unfolding cstr_no_zero [OF z] using path by simp
  then have p: "cstr (snprintf_s (zeros 256) ?file) = ?file"
    unfolding snprintf_s_zeros [OF \<open>length (cstr ?file) < 256\<close>] canon_simps(1) by (intro cstr_no_zero z)
  have w1: "w1 = w\<lparr>g_log_file := Some ?file, lw_open := ?file # lw_open w\<rparr>"
    using i p by (auto simp: bc_log_init_def Let_def split: if_splits)
  show ?thesis
    using log_writes_law [of cs w1] by (simp add: bc_log_close_def w1 Let_def)
qed

lemma log_run_witness:
  "\<exists>w1. bc_log_init (str ''log'') (str ''d'') True True \<lparr>g_log_file = None, lw_open = [], lw_files = (\<lambda>_. []), lw_stdout = [], lw_stderr = []\<rparr> =
      (0, w1) \<and>
    lw_stderr (bc_log_close (bc_log_writes [(None, 1, None, [104]), (None, 3, None, [105])] w1)) = log_line None 3 None [105]"
proof -
  let ?w = "\<lparr>g_log_file = None, lw_open = [], lw_files = (\<lambda>_. []), lw_stdout = [], lw_stderr = []\<rparr>"
  have n: "cstr (str ''log'') \<noteq> []" "cstr (str ''d'') \<noteq> []" by code_simp+
  obtain w1 where i: "bc_log_init (str ''log'') (str ''d'') True True ?w = (0, w1)"
    using n by (simp add: bc_log_init_def Let_def)
  have "length (cstr (str ''log'')) + length (cstr (str ''d'')) + 5 < 256" by code_simp
  from log_run [OF i this, of "[(None, 1, None, [104]), (None, 3, None, [105])]"] i show ?thesis
    by (auto simp: Let_def is_error_def line_of_def BC_LOG_ERROR_def)
qed

text \<open>A second start without closing leaves the first file open with nothing that refers to it.\<close>

lemma log_init_twice:
  assumes "bc_log_init d n True True w = (0, w1)" "bc_log_init d' n' True True w1 = (0, w2)"
  shows "length (lw_open (bc_log_close w2)) = Suc (length (lw_open w)) \<and> bc_log_close (bc_log_close w2) = bc_log_close w2"
  using assms by (auto simp: bc_log_init_def bc_log_close_def Let_def split: if_splits)

end
