(* ===== verification/Examples.thy ===== *)
theory Examples
  imports Bc_Client File_Transfer Config
begin

text \<open>
  The programs of \<^verbatim>\<open>src/examples\<close>: publishing and subscribing, their variants that measure rates and
  losses, and sending and receiving a file, over the client library. \<open>argv\<close> is the argument vector,
  the program's name first. The connections and the clock are on one world \<open>'x\<close>. A run of a loop has
  fuel, one unit for each round; a program whose fuel runs out is still running, which is the
  exit code \<open>None\<close>. \<open>None\<close> for the whole is undefined behaviour in the library. The log lines
  of the measuring programs are kept, as the numbers they print; rates, which are computed in
  floating point from these and the clock, are not.
\<close>

section \<open>Arguments and the clock\<close>

definition arg :: "byte list list \<Rightarrow> nat \<Rightarrow> byte list option" where
  "arg argv i = (if length argv > i then Some (argv ! i) else None)"

definition arg_or :: "byte list list \<Rightarrow> nat \<Rightarrow> byte list \<Rightarrow> byte list" where
  "arg_or argv i other = (case arg argv i of None \<Rightarrow> other | Some a \<Rightarrow> a)"

definition ULONG_MAX :: int where "ULONG_MAX = 2 ^ 64 - 1"

definition strtoul :: "byte list \<Rightarrow> u64" where
  "strtoul s = (case scan_number (skip_ws s) of
     None \<Rightarrow> 0 | Some (v, _) \<Rightarrow> if \<bar>v\<bar> > ULONG_MAX then of_int ULONG_MAX else of_int v)"

text \<open>\<open>ck_reached now since n\<close>: at least \<open>n\<close> seconds from \<open>since\<close> to \<open>now\<close>, as the code compares them.\<close>

record ('t, 'x) clock =
  ck_now :: "'x \<Rightarrow> 't \<times> 'x"
  ck_reached :: "'t \<Rightarrow> 't \<Rightarrow> nat \<Rightarrow> bool"

text \<open>Closing the handle and returning.\<close>

definition finish :: "'x net \<Rightarrow> int \<Rightarrow> nat \<Rightarrow> bc_context \<Rightarrow> 'x \<Rightarrow> nat \<times> bc_context \<times> 'x" where
  "finish net handle code g x = (case bc_close net handle g x of (_, g, x) \<Rightarrow> (code, g, x))"

section \<open>Publishing and subscribing\<close>

definition pub_main :: "'x net \<Rightarrow> byte list list \<Rightarrow> bc_context \<Rightarrow> 'x \<Rightarrow> (nat \<times> bc_context \<times> 'x) option" where
  "pub_main net argv g x =
     (let topic = arg_or argv 1 (str ''demo.topic'');
          payload = cstr (arg_or argv 2 (str ''hello from boardcomm_pub'')) in
      case bc_open net None x of
        (Inl _, x) \<Rightarrow> Some (1, g, x)
      | (Inr handle, x) \<Rightarrow>
          map_option (\<lambda>(w, g, x). finish net handle (case w of Inl _ \<Rightarrow> 1 | Inr _ \<Rightarrow> 0) g x)
            (case arg argv 3 of
               Some channel \<Rightarrow> bc_write_channel net handle channel topic payload g x
             | None \<Rightarrow> bc_write net handle topic payload g x))"

text \<open>The messages received are kept. The loop ends with the first error.\<close>

fun sub_loop ::
  "nat \<Rightarrow> 'x net \<Rightarrow> int \<Rightarrow> (byte list \<times> byte list) list \<Rightarrow> bc_context \<Rightarrow> 'x \<Rightarrow>
     (bool \<times> (byte list \<times> byte list) list \<times> bc_context \<times> 'x) option" where
  "sub_loop 0 net handle seen g x = Some (True, seen, g, x)"
| "sub_loop (Suc fuel) net handle seen g x =
     (case bc_read net handle (zeros BC_MAX_TOPIC_LEN) BC_MAX_TOPIC_LEN BC_MAX_PAYLOAD_LEN (- 1) g x of
        None \<Rightarrow> None
      | Some (Inl _, g, x) \<Rightarrow> Some (False, seen, g, x)
      | Some (Inr msg, g, x) \<Rightarrow> sub_loop fuel net handle (seen @ [msg]) g x)"

definition sub_main ::
  "nat \<Rightarrow> 'x net \<Rightarrow> byte list list \<Rightarrow> bc_context \<Rightarrow> 'x \<Rightarrow>
     (nat option \<times> (byte list \<times> byte list) list \<times> bc_context \<times> 'x) option" where
  "sub_main fuel net argv g x =
     (let topic = arg_or argv 1 (str ''demo.topic'') in
      case bc_open net None x of
        (Inl _, x) \<Rightarrow> Some (Some 1, [], g, x)
      | (Inr handle, x) \<Rightarrow>
          (case bc_subscribe_fd net handle topic g x of
             None \<Rightarrow> None
           | Some (rc, g, x) \<Rightarrow>
               if rc \<noteq> BC_OK then (case finish net handle 1 g x of (code, g, x) \<Rightarrow> Some (Some code, [], g, x))
               else case sub_loop fuel net handle [] g x of
                   None \<Rightarrow> None
                 | Some (True, seen, g, x) \<Rightarrow> Some (None, seen, g, x)
                 | Some (False, seen, g, x) \<Rightarrow> (case finish net handle 0 g x of (code, g, x) \<Rightarrow> Some (Some code, seen, g, x))))"

section \<open>Measuring the sending side\<close>

text \<open>A line of the log: from when to when, and the two or three counts it gives.\<close>

record 't interval =
  iv_from :: 't
  iv_to :: 't
  iv_done :: u64
  iv_missed :: u64
  iv_bytes :: u64

record 't pub_state =
  pp_start :: 't
  pp_last_report :: 't
  pp_sent :: u64
  pp_failed :: u64
  pp_last_sent :: u64
  pp_last_failed :: u64
  pp_log :: "'t interval list"

definition pub_begin :: "'t \<Rightarrow> 't pub_state" where
  "pub_begin start = \<lparr>pp_start = start, pp_last_report = start, pp_sent = 0, pp_failed = 0, pp_last_sent = 0,
     pp_last_failed = 0, pp_log = []\<rparr>"

text \<open>The payload of a round: its number, then what the buffer was filled with.\<close>

definition numbered_payload :: "byte \<Rightarrow> nat \<Rightarrow> u64 \<Rightarrow> byte list" where
  "numbered_payload fill len seq = blit (replicate len fill) 0 (to_le 8 seq)"

text \<open>The inner loop: a message the daemon has no room for is written again.\<close>

fun publish_until ::
  "nat \<Rightarrow> 'x net \<Rightarrow> int \<Rightarrow> byte list \<Rightarrow> byte list \<Rightarrow> bc_context \<Rightarrow> 'x \<Rightarrow>
     ((bc_status + nat) option \<times> bc_context \<times> 'x) option" where
  "publish_until 0 net handle topic payload g x = Some (None, g, x)"
| "publish_until (Suc tries) net handle topic payload g x =
     (case bc_write net handle topic payload g x of
        None \<Rightarrow> None
      | Some (w, g, x) \<Rightarrow>
          if w = Inl BC_ERR_NOMEM then publish_until tries net handle topic payload g x
          else Some (Some w, g, x))"

definition count_write :: "bc_status + nat \<Rightarrow> 't pub_state \<Rightarrow> 't pub_state" where
  "count_write w st = (case w of Inr _ \<Rightarrow> st\<lparr>pp_sent := pp_sent st + 1\<rparr> | Inl _ \<Rightarrow> st\<lparr>pp_failed := pp_failed st + 1\<rparr>)"

definition pub_report :: "'t \<Rightarrow> nat \<Rightarrow> 't pub_state \<Rightarrow> 't pub_state" where
  "pub_report now payload_size st =
     st\<lparr>pp_log := pp_log st @ [\<lparr>iv_from = pp_last_report st, iv_to = now, iv_done = pp_sent st - pp_last_sent st,
            iv_missed = pp_failed st - pp_last_failed st,
            iv_bytes = (pp_sent st - pp_last_sent st) * of_nat payload_size\<rparr>],
       pp_last_report := now, pp_last_sent := pp_sent st, pp_last_failed := pp_failed st\<rparr>"

text \<open>The results of the two loops tell whether the time is up.\<close>

fun perf_pub_loop ::
  "nat \<Rightarrow> nat \<Rightarrow> ('t, 'x) clock \<Rightarrow> 'x net \<Rightarrow> int \<Rightarrow> byte list \<Rightarrow> nat \<Rightarrow> nat \<Rightarrow> 't pub_state \<Rightarrow> bc_context \<Rightarrow> 'x \<Rightarrow>
     (bool \<times> 't pub_state \<times> bc_context \<times> 'x) option" where
  "perf_pub_loop 0 tries clock net handle topic duration len st g x = Some (False, st, g, x)"
| "perf_pub_loop (Suc fuel) tries clock net handle topic duration len st g x =
     (case ck_now clock x of (now, x) \<Rightarrow>
        if ck_reached clock now (pp_start st) duration then Some (True, st, g, x)
        else case publish_until tries net handle topic (numbered_payload 0x5a len (pp_sent st + pp_failed st)) g x of
            None \<Rightarrow> None
          | Some (None, g, x) \<Rightarrow> Some (False, st, g, x)
          | Some (Some w, g, x) \<Rightarrow>
              (let st = count_write w st in
               case ck_now clock x of (now, x) \<Rightarrow>
                 perf_pub_loop fuel tries clock net handle topic duration len
                   (if ck_reached clock now (pp_last_report st) 1 then pub_report now len st else st) g x))"

definition pub_exit_code :: "'t pub_state \<Rightarrow> nat" where
  "pub_exit_code st = (if pp_failed st = 0 then 0 else 1)"

definition payload_size_ok :: "u32 \<Rightarrow> u64 \<Rightarrow> bool" where
  "payload_size_ok duration_sec payload_size \<longleftrightarrow>
     \<not> (duration_sec = 0 \<or> payload_size < 8 \<or> payload_size > of_nat BC_MAX_PAYLOAD_LEN)"

text \<open>\<open>mem\<close>: the buffer can be allocated. The state is missing when the program ends before the loop.\<close>

definition perf_pub_main ::
  "nat \<Rightarrow> nat \<Rightarrow> ('t, 'x) clock \<Rightarrow> bool \<Rightarrow> 'x net \<Rightarrow> byte list list \<Rightarrow> bc_context \<Rightarrow> 'x \<Rightarrow>
     (nat option \<times> 't pub_state option \<times> bc_context \<times> 'x) option" where
  "perf_pub_main fuel tries clock mem net argv g x =
     (let topic = arg_or argv 1 (str ''perf.topic'');
          duration_sec = (case arg argv 2 of None \<Rightarrow> 10 | Some a \<Rightarrow> ucast (strtoul a)) :: u32;
          payload_size = (case arg argv 3 of None \<Rightarrow> 1024 | Some a \<Rightarrow> strtoul a) in
      if \<not> payload_size_ok duration_sec payload_size \<or> \<not> mem then Some (Some 1, None, g, x)
      else case bc_open net None x of
          (Inl _, x) \<Rightarrow> Some (Some 1, None, g, x)
        | (Inr handle, x) \<Rightarrow>
            (case ck_now clock x of (start, x) \<Rightarrow>
               case perf_pub_loop fuel tries clock net handle topic (unat duration_sec) (unat payload_size) (pub_begin start) g x of
                 None \<Rightarrow> None
               | Some (False, st, g, x) \<Rightarrow> Some (None, Some st, g, x)
               | Some (True, st, g, x) \<Rightarrow>
                   (case ck_now clock x of (_, x) \<Rightarrow>
                      case finish net handle (pub_exit_code st) g x of (code, g, x) \<Rightarrow> Some (Some code, Some st, g, x))))"

text \<open>The stability test counts every message up only when it was written, and reports totals.\<close>

fun stability_loop ::
  "nat \<Rightarrow> ('t, 'x) clock \<Rightarrow> 'x net \<Rightarrow> int \<Rightarrow> byte list \<Rightarrow> nat \<Rightarrow> nat \<Rightarrow> 't pub_state \<Rightarrow> bc_context \<Rightarrow> 'x \<Rightarrow>
     (bool \<times> 't pub_state \<times> bc_context \<times> 'x) option" where
  "stability_loop 0 clock net handle topic duration len st g x = Some (False, st, g, x)"
| "stability_loop (Suc fuel) clock net handle topic duration len st g x =
     (case ck_now clock x of (now, x) \<Rightarrow>
        if ck_reached clock now (pp_start st) duration then Some (True, st, g, x)
        else case bc_write net handle topic (numbered_payload 0xa5 len (pp_sent st)) g x of
            None \<Rightarrow> None
          | Some (w, g, x) \<Rightarrow>
              (let st = count_write w st in
               case ck_now clock x of (now, x) \<Rightarrow>
                 stability_loop fuel clock net handle topic duration len
                   (if ck_reached clock now (pp_last_report st) 10
                    then st\<lparr>pp_log := pp_log st @ [\<lparr>iv_from = pp_start st, iv_to = now, iv_done = pp_sent st,
                           iv_missed = pp_failed st, iv_bytes = pp_sent st * of_nat len\<rparr>], pp_last_report := now\<rparr>
                    else st) g x))"

definition stability_pub_main ::
  "nat \<Rightarrow> ('t, 'x) clock \<Rightarrow> bool \<Rightarrow> 'x net \<Rightarrow> byte list list \<Rightarrow> bc_context \<Rightarrow> 'x \<Rightarrow>
     (nat option \<times> 't pub_state option \<times> bc_context \<times> 'x) option" where
  "stability_pub_main fuel clock mem net argv g x =
     (let topic = arg_or argv 1 (str ''stable.topic'');
          duration_sec = (case arg argv 2 of None \<Rightarrow> 3600 | Some a \<Rightarrow> ucast (strtoul a)) :: u32;
          payload_size = (case arg argv 3 of None \<Rightarrow> 256 | Some a \<Rightarrow> strtoul a) in
      if \<not> payload_size_ok duration_sec payload_size \<or> \<not> mem then Some (Some 1, None, g, x)
      else case bc_open net None x of
          (Inl _, x) \<Rightarrow> Some (Some 1, None, g, x)
        | (Inr handle, x) \<Rightarrow>
            (case ck_now clock x of (start, x) \<Rightarrow>
               case stability_loop fuel clock net handle topic (unat duration_sec) (unat payload_size) (pub_begin start) g x of
                 None \<Rightarrow> None
               | Some (False, st, g, x) \<Rightarrow> Some (None, Some st, g, x)
               | Some (True, st, g, x) \<Rightarrow>
                   (case ck_now clock x of (_, x) \<Rightarrow>
                      case finish net handle (pub_exit_code st) g x of (code, g, x) \<Rightarrow> Some (Some code, Some st, g, x))))"

section \<open>Measuring the receiving side\<close>

record 't perf_state =
  ps_received :: u64
  ps_lost :: u64
  ps_last_seq :: u64
  ps_have_seq :: bool
  ps_bytes :: u64
  ps_start :: 't
  ps_last_report :: 't
  ps_last_received :: u64
  ps_last_lost :: u64
  ps_last_bytes :: u64
  ps_log :: "'t interval list"

definition perf_begin :: "'t \<Rightarrow> 't perf_state" where
  "perf_begin start = \<lparr>ps_received = 0, ps_lost = 0, ps_last_seq = 0, ps_have_seq = False, ps_bytes = 0, ps_start = start,
     ps_last_report = start, ps_last_received = 0, ps_last_lost = 0, ps_last_bytes = 0, ps_log = []\<rparr>"

definition report_interval :: "'t \<Rightarrow> 't perf_state \<Rightarrow> 't perf_state" where
  "report_interval now state =
     state\<lparr>ps_log := ps_log state @ [\<lparr>iv_from = ps_last_report state, iv_to = now,
              iv_done = ps_received state - ps_last_received state, iv_missed = ps_lost state - ps_last_lost state,
              iv_bytes = ps_bytes state - ps_last_bytes state\<rparr>],
       ps_last_report := now, ps_last_received := ps_received state, ps_last_lost := ps_lost state,
       ps_last_bytes := ps_bytes state\<rparr>"

definition note_seq :: "byte list \<Rightarrow> 't perf_state \<Rightarrow> 't perf_state" where
  "note_seq payload state =
     (if length payload \<ge> 8 then
        let seq = of_le (take 8 payload);
            state = (if ps_have_seq state \<and> seq > ps_last_seq state + 1
                     then state\<lparr>ps_lost := ps_lost state + (seq - ps_last_seq state - 1)\<rparr> else state) in
        state\<lparr>ps_last_seq := seq, ps_have_seq := True\<rparr>
      else state)"

definition on_message :: "('t, 'x) clock \<Rightarrow> 't \<Rightarrow> byte list \<Rightarrow> 't perf_state \<Rightarrow> 't perf_state" where
  "on_message clock now payload state =
     (let state = note_seq payload state;
          state = state\<lparr>ps_received := ps_received state + 1, ps_bytes := ps_bytes state + of_nat (length payload)\<rparr> in
      if ck_reached clock now (ps_last_report state) 1 then report_interval now state else state)"

datatype perf_end = Running | Time_Up | Read_Broken

fun perf_sub_loop ::
  "nat \<Rightarrow> ('t, 'x) clock \<Rightarrow> 'x net \<Rightarrow> int \<Rightarrow> nat \<Rightarrow> 't perf_state \<Rightarrow> bc_context \<Rightarrow> 'x \<Rightarrow>
     (perf_end \<times> 't perf_state \<times> bc_context \<times> 'x) option" where
  "perf_sub_loop 0 clock net handle duration state g x = Some (Running, state, g, x)"
| "perf_sub_loop (Suc fuel) clock net handle duration state g x =
     (case ck_now clock x of (now, x) \<Rightarrow>
        if ck_reached clock now (ps_start state) duration then Some (Time_Up, state, g, x)
        else case bc_read net handle (zeros BC_MAX_TOPIC_LEN) BC_MAX_TOPIC_LEN BC_MAX_PAYLOAD_LEN 100 g x of
            None \<Rightarrow> None
          | Some (Inl rc, g, x) \<Rightarrow>
              if rc = BC_ERR_TIMEOUT \<or> rc = BC_ERR_NOT_FOUND then
                (case ck_now clock x of (now, x) \<Rightarrow>
                   perf_sub_loop fuel clock net handle duration
                     (if ck_reached clock now (ps_last_report state) 1 then report_interval now state else state) g x)
              else Some (Read_Broken, state, g, x)
          | Some (Inr (topic, payload), g, x) \<Rightarrow>
              (case ck_now clock x of (now, x) \<Rightarrow>
                 perf_sub_loop fuel clock net handle duration (on_message clock now payload state) g x))"

definition perf_sub_main ::
  "nat \<Rightarrow> ('t, 'x) clock \<Rightarrow> 'x net \<Rightarrow> byte list list \<Rightarrow> bc_context \<Rightarrow> 'x \<Rightarrow>
     (nat option \<times> 't perf_state \<times> bc_context \<times> 'x) option" where
  "perf_sub_main fuel clock net argv g x =
     (let topic = arg_or argv 1 (str ''perf.topic'');
          duration_sec = (case arg argv 2 of None \<Rightarrow> 10 | Some a \<Rightarrow> ucast (strtoul a)) :: u32 in
      case ck_now clock x of (start, x) \<Rightarrow>
        let state = perf_begin start in
        if duration_sec = 0 then Some (Some 1, state, g, x)
        else case bc_open net None x of
            (Inl _, x) \<Rightarrow> Some (Some 1, state, g, x)
          | (Inr handle, x) \<Rightarrow>
              (case bc_subscribe_fd net handle topic g x of
                 None \<Rightarrow> None
               | Some (rc, g, x) \<Rightarrow>
                   if rc \<noteq> BC_OK then (case finish net handle 1 g x of (code, g, x) \<Rightarrow> Some (Some code, state, g, x))
                   else case perf_sub_loop fuel clock net handle (unat duration_sec) state g x of
                       None \<Rightarrow> None
                     | Some (Running, state, g, x) \<Rightarrow> Some (None, state, g, x)
                     | Some (Read_Broken, state, g, x) \<Rightarrow>
                         (case finish net handle 1 g x of (code, g, x) \<Rightarrow> Some (Some code, state, g, x))
                     | Some (Time_Up, state, g, x) \<Rightarrow>
                         (case ck_now clock x of (_, x) \<Rightarrow>
                            case finish net handle 0 g x of (code, g, x) \<Rightarrow> Some (Some code, state, g, x))))"

section \<open>Files\<close>

text \<open>
  The environment of a file transfer on a handle of the library. Its world is \<open>None\<close> after
  undefined behaviour.
\<close>

definition library_env :: "'x net \<Rightarrow> int \<Rightarrow> (bc_context \<times> 'x) option file_env" where
  "library_env net handle =
     \<lparr>fe_write = (\<lambda>channel topic data qos w. case w of
        None \<Rightarrow> (BC_ERR, None)
      | Some (g, x) \<Rightarrow>
          (case bc_write_ex net handle channel topic data (Some \<lparr>po_dst_node = 0, po_qos = qos, po_flags = 0\<rparr>) g x of
             None \<Rightarrow> (BC_ERR, None)
           | Some (r, g, x) \<Rightarrow> (case r of Inl rc \<Rightarrow> rc | Inr _ \<Rightarrow> BC_OK, Some (g, x)))),
      fe_subscribe = (\<lambda>topic w. case w of
        None \<Rightarrow> (BC_ERR, None)
      | Some (g, x) \<Rightarrow>
          (case bc_subscribe_fd net handle topic g x of None \<Rightarrow> (BC_ERR, None) | Some (rc, g, x) \<Rightarrow> (rc, Some (g, x))))\<rparr>"

definition file_end :: "'x net \<Rightarrow> int \<Rightarrow> bc_status \<Rightarrow> (bc_context \<times> 'x) option \<Rightarrow> (nat \<times> bc_context \<times> 'x) option" where
  "file_end net handle rc w = map_option (\<lambda>(g, x). finish net handle (if rc \<noteq> BC_OK then 1 else 0) g x) w"

definition file_send_main ::
  "'x net \<Rightarrow> file_source \<Rightarrow> file_read list list \<Rightarrow> byte list list \<Rightarrow> bc_context \<Rightarrow> 'x \<Rightarrow> (nat \<times> bc_context \<times> 'x) option" where
  "file_send_main net src inboxes argv g x =
     (let topic = arg_or argv 1 (str ''file.topic'') in
      case arg argv 2 of
        None \<Rightarrow> Some (1, g, x)
      | Some file_path \<Rightarrow>
          (case bc_open_with_shm net None g x of
             (Inl _, g, x) \<Rightarrow> Some (1, g, x)
           | (Inr handle, g, x) \<Rightarrow>
               (case (case arg argv 3 of
                   Some channel \<Rightarrow> bc_file_send_channel (library_env net handle) channel topic file_path src inboxes (Some (g, x))
                 | None \<Rightarrow> bc_file_send (library_env net handle) topic file_path src inboxes (Some (g, x))) of
                  (rc, w) \<Rightarrow> file_end net handle rc w)))"

text \<open>The successive reads depend on the timeout.\<close>

definition file_recv_main ::
  "'x net \<Rightarrow> file_sink \<Rightarrow> (int \<Rightarrow> file_read list) \<Rightarrow> byte list list \<Rightarrow> bc_context \<Rightarrow> 'x \<Rightarrow>
     file_left \<times> (nat \<times> bc_context \<times> 'x) option" where
  "file_recv_main net sink reads argv g x =
     (let topic = arg_or argv 1 (str ''file.topic'');
          save_path = arg_or argv 2 (str ''/tmp/boardcomm_recv.bin'');
          timeout_ms = (case arg argv 3 of None \<Rightarrow> 30000 | Some a \<Rightarrow> atoi a) in
      case bc_open_with_shm net None g x of
        (Inl _, g, x) \<Rightarrow> (Untouched, Some (1, g, x))
      | (Inr handle, g, x) \<Rightarrow>
          (case (case arg argv 4 of
              Some channel \<Rightarrow> bc_file_recv_channel (library_env net handle) sink channel topic save_path (reads timeout_ms) (Some (g, x))
            | None \<Rightarrow> bc_file_recv (library_env net handle) sink topic save_path (reads timeout_ms) (Some (g, x))) of
             (rc, left, w) \<Rightarrow> (left, file_end net handle rc w)))"

end
