(* ===== verification/File_World.thy ===== *)
theory File_World
  imports File_Transfer
begin

text \<open>
  What a file transfer keeps of the world behind it. Writing and subscribing are the only ways
  it acts on the world, so every reflexive and transitive relation that each of these keeps is
  kept by sending and by receiving a whole file.
\<close>

locale file_world =
  fixes env :: "'w file_env" and R :: "'w \<Rightarrow> 'w \<Rightarrow> bool"
  assumes R_refl: "R w w"
    and R_trans: "R u v \<Longrightarrow> R v w \<Longrightarrow> R u w"
    and R_write: "R w (snd (fe_write env channel topic data qos w))"
    and R_subscribe: "R w (snd (fe_subscribe env topic w))"
begin

lemma spin_R: "(\<And>w. R w (snd (write w))) \<Longrightarrow> R w (snd (send_spin n write w))"
proof (induction n arbitrary: w)
  case (Suc n)
  have one: "R w (snd (write w))" by (rule Suc.prems)
  show ?case using one R_trans [OF one Suc.IH [OF Suc.prems]] by (simp add: case_prod_beta)
qed (simp add: R_refl)

lemma attempts_R: "(\<And>w. R w (snd (write w))) \<Longrightarrow> R w (snd (send_attempts n write w))"
proof (induction n arbitrary: w)
  case (Suc n)
  have one: "R w (snd (write w))" by (rule Suc.prems)
  show ?case using one R_trans [OF one Suc.IH [OF Suc.prems]] by (simp add: case_prod_beta)
qed (simp add: R_refl)

lemma packet_R: "R w (snd (send_file_packet env channel topic type res val extra w))"
  using spin_R attempts_R R_write R_refl by (simp add: send_file_packet_def Let_def)

lemma control_R: "R w (snd (send_file_v2_control env channel topic type val tid w))"
  by (simp add: send_file_v2_control_def packet_R)

lemma nack_R: "R w (send_nack env channel topic s w)"
  by (simp add: send_nack_def control_R R_refl)

lemma packet_eq_R: "send_file_packet env channel topic type res val extra w = (rc, w') \<Longrightarrow> R w w'"
  using packet_R [of w channel topic type res val extra] by simp

lemma controls_R:
  "sender_handle_controls env channel topic tid seq cache reads seen resent w = (rc, a, b, w') \<Longrightarrow> R w w'"
proof (induction reads arbitrary: seen resent w)
  case (Cons r reads)
  show ?case
  proof (cases r)
    case (Inl n)
    then show ?thesis using Cons.prems R_refl by (auto split: if_splits)
  next
    case (Inr m)
    obtain rx payload where m: "m = (rx, payload)" by (meson surj_pair)
    have same: "sender_handle_controls env channel topic tid seq cache reads seen1 resent w = (rc, a, b, w') \<Longrightarrow> R w w'" for seen1
      by (rule Cons.IH)
    have step: "send_file_packet env channel topic type res val extra w = (n, w1) \<Longrightarrow>
        sender_handle_controls env channel topic tid seq cache reads seen1 True w1 = (rc, a, b, w') \<Longrightarrow> R w w'"
      for type res val extra n w1 seen1
      by (rule R_trans [OF packet_eq_R Cons.IH])
    show ?thesis
      using Cons.prems
      by (auto simp: Inr m R_refl split: if_split_asm sum.split_asm option.split_asm prod.split_asm
          intro: same step packet_eq_R)
  qed
qed (simp add: R_refl)

lemma chunks_R:
  "send_chunks env channel topic chunks crc seq cache w = (rc, a, b, c, w') \<Longrightarrow> R w w'"
proof (induction chunks arbitrary: crc seq cache w)
  case (Cons chunk chunks)
  obtain n w1 where p: "send_file_packet env channel topic BC_FILE_PKT_DATA BC_FILE_PKT_FLAG_V2 seq chunk w = (n, w1)"
    by (meson surj_pair)
  show ?case
    using Cons.prems packet_eq_R [OF p] R_trans [OF packet_eq_R [OF p] Cons.IH] by (simp add: p Let_def split: if_splits)
qed (simp add: R_refl)

lemma rounds_R: "R w (snd (end_rounds env channel topic tid crc seq cache n inboxes w))"
proof (induction n arbitrary: inboxes w)
  case (Suc n)
  obtain rc seen resent w1 where c: "sender_handle_controls env channel topic tid seq cache
      (case inboxes of [] \<Rightarrow> [] | inbox # _ \<Rightarrow> inbox) False False w = (rc, seen, resent, w1)" by (metis prod_cases4)
  obtain rc2 w2 where e: "send_file_v2_control env channel topic BC_FILE_PKT_END (NOT crc) tid w1 = (rc2, w2)"
    by (meson surj_pair)
  have w: "R w w1" "R w1 w2" using controls_R [OF c] control_R [of w1] e by (simp, metis snd_conv)
  show ?case
    using w(1) R_trans [OF w(1) Suc.IH] R_trans [OF w] R_trans [OF R_trans [OF w] Suc.IH] by (simp add: c e)
qed (simp add: R_refl)

lemma send_file_R: "R w (snd (send_file_path env channel topic path src inboxes w))"
proof -
  define tid where "tid st_size = make_transfer_id (fs_now src) (fs_pid src) topic path (of_nat st_size)" for st_size
  have main: "R w (snd (case fe_subscribe env topic w of (rc, w) \<Rightarrow>
                  if rc \<noteq> BC_OK then (rc, w)
                  else case send_file_packet env channel topic BC_FILE_PKT_START BC_FILE_PKT_FLAG_V2 v m w of (n, w) \<Rightarrow>
                    if n \<noteq> BC_OK then (n, w)
                    else case send_chunks env channel topic (fs_chunks src) 0xffffffff 0 empty_cache w of
                      (n, crc, seq, cache, w) \<Rightarrow>
                        if n \<noteq> BC_OK then (n, w)
                        else if \<not> fs_read_ok src then (BC_ERR_IO, w)
                        else case send_file_packet env channel topic BC_FILE_PKT_END BC_FILE_PKT_FLAG_V2
                            (NOT crc) t w of (rc, w) \<Rightarrow>
                          if rc \<noteq> BC_OK then (rc, w)
                          else end_rounds env channel topic i crc seq cache k inboxes w))" for v m t i k
  proof -
    obtain r1 w1 where s: "fe_subscribe env topic w = (r1, w1)" by (meson surj_pair)
    obtain r2 w2 where p: "send_file_packet env channel topic BC_FILE_PKT_START BC_FILE_PKT_FLAG_V2 v m w1 = (r2, w2)"
      by (meson surj_pair)
    obtain r3 crc seq cache w3 where c: "send_chunks env channel topic (fs_chunks src) 0xffffffff 0 empty_cache w2 =
        (r3, crc, seq, cache, w3)" by (metis prod_cases5)
    obtain r4 w4 where e: "send_file_packet env channel topic BC_FILE_PKT_END BC_FILE_PKT_FLAG_V2 (NOT crc) t w3 = (r4, w4)"
      by (meson surj_pair)
    have r: "R w w1" using R_subscribe [of w topic] s by simp
    have "R w w2" "R w w3" "R w w4"
      using R_trans [OF r packet_eq_R [OF p]] chunks_R [OF c] packet_eq_R [OF e] R_trans by blast+
    then show ?thesis using r R_trans [OF \<open>R w w4\<close> rounds_R] by (simp add: s p c e)
  qed
  show ?thesis
    using main R_refl by (simp add: send_file_path_def Let_def split: option.split)
qed

lemma finish_R: "R w (snd (recv_finish env channel topic file s w))"
  by (simp add: recv_finish_def control_R R_refl)

lemma recv_packet_R: "R w (snd (recv_packet env sink channel topic payload s w))"
  by (simp add: recv_packet_def recv_data_def recv_end_def Let_def nack_R finish_R R_refl split: sum.split option.split prod.split)

lemma timeout_R: "R w (snd (snd (recv_timeout env channel topic s w)))"
  by (simp add: recv_timeout_def nack_R R_refl)

lemma recv_loop_R: "R w (snd (snd (recv_file_loop env sink channel topic reads s w)))"
proof (induction reads arbitrary: s w)
  case (Cons r reads)
  show ?case
  proof (cases r)
    case (Inl n)
    then show ?thesis using timeout_R R_refl by simp
  next
    case (Inr m)
    obtain rx payload where m: "m = (rx, payload)" by (meson surj_pair)
    obtain out w1 where p: "recv_packet env sink channel topic payload s w = (out, w1)" by (meson surj_pair)
    have "R w w1" using recv_packet_R [of w sink channel topic payload s] p by simp
    then show ?thesis using R_refl [of w] R_trans [OF _ Cons.IH] Cons.IH by (cases out) (simp_all add: Inr m p)
  qed
qed (simp add: timeout_R)

lemma recv_file_R: "R w (snd (snd (recv_file_path env sink channel topic path reads w)))"
proof -
  obtain rc w1 where s: "fe_subscribe env topic w = (rc, w1)" by (meson surj_pair)
  have "R w w1" using R_subscribe [of w topic] s by simp
  then show ?thesis using R_trans [OF \<open>R w w1\<close> recv_loop_R] R_refl by (simp add: recv_file_path_def s)
qed

end

end
