(* ===== verification/Examples_Run.thy ===== *)
theory Examples_Run
  imports Examples File_World Client_Read
begin

text \<open>
  The example programs run over the client library: every one of them gives its connection back,
  and the pair that measures losses measures them.
\<close>

section \<open>Descriptors\<close>

text \<open>
  \<open>held\<close>: the descriptors of the process, which only these system calls change. The kernel never hands out
  a number that is in use; closing a number that is not in use does nothing.
\<close>

definition accounts :: "'x net \<Rightarrow> ('x \<Rightarrow> int list) \<Rightarrow> bool" where
  "accounts net held \<longleftrightarrow>
     (\<forall>x. case nt_socket net x of (None, y) \<Rightarrow> held y = held x | (Some fd, y) \<Rightarrow> fd \<ge> 0 \<and> fd \<notin> set (held x) \<and> held y = fd # held x) \<and>
     (\<forall>fd x. case nt_recv_fd net fd x of (None, y) \<Rightarrow> held y = held x | (Some f, y) \<Rightarrow> f \<notin> set (held x) \<and> held y = f # held x) \<and>
     (\<forall>fd x. held (snd (nt_close net fd x)) = remove1 fd (held x)) \<and>
     (\<forall>fd p x. held (snd (nt_connect net fd p x)) = held x) \<and>
     (\<forall>fd d x. held (snd (nt_send net fd d x)) = held x) \<and>
     (\<forall>fd n x. held (snd (nt_read net fd n x)) = held x) \<and>
     (\<forall>fd t x. held (snd (nt_poll net fd t x)) = held x) \<and>
     (\<forall>fd x. held (snd (nt_attach net fd x)) = held x) \<and>
     (\<forall>r x. held (snd (nt_sleep net r x)) = held x)"

lemma accounts_rules:
  assumes "accounts net held"
  shows "held (snd (nt_close net fd x)) = remove1 fd (held x)"
    and "held (snd (nt_connect net fd p x)) = held x"
    and "held (snd (nt_send net fd d x)) = held x"
    and "held (snd (nt_read net fd n x)) = held x"
    and "held (snd (nt_poll net fd t x)) = held x"
    and "held (snd (nt_attach net fd x)) = held x"
    and "held (snd (nt_sleep net r x)) = held x"
  using assms by (simp_all add: accounts_def)

lemma accounts_new:
  assumes "accounts net held"
  shows "nt_socket net x = (res, y) \<Longrightarrow> (case res of None \<Rightarrow> held y = held x | Some fd \<Rightarrow> fd \<ge> 0 \<and> fd \<notin> set (held x) \<and> held y = fd # held x)"
    and "nt_recv_fd net fd x = (res, y) \<Longrightarrow> (case res of None \<Rightarrow> held y = held x | Some f \<Rightarrow> f \<notin> set (held x) \<and> held y = f # held x)"
proof -
  show "nt_socket net x = (res, y) \<Longrightarrow> (case res of None \<Rightarrow> held y = held x | Some fd \<Rightarrow> fd \<ge> 0 \<and> fd \<notin> set (held x) \<and> held y = fd # held x)"
    using assms unfolding accounts_def by (metis (no_types, lifting) prod.case)
  show "nt_recv_fd net fd x = (res, y) \<Longrightarrow> (case res of None \<Rightarrow> held y = held x | Some f \<Rightarrow> f \<notin> set (held x) \<and> held y = f # held x)"
    using assms unfolding accounts_def by (metis (no_types, lifting) prod.case)
qed

lemma write_all_held: "accounts net held \<Longrightarrow> held (snd (write_all net fd data x)) = held x"
proof (induction data arbitrary: x rule: length_induct)
  case (1 data)
  obtain r y where s: "nt_send net fd data x = (r, y)" by (meson surj_pair)
  have y: "held y = held x" using accounts_rules(3) [OF 1(2), of fd data x] s by simp
  show ?case
  proof (cases r)
    case (Done n)
    have "data \<noteq> [] \<Longrightarrow> n > 0 \<Longrightarrow> held (snd (write_all net fd (drop n data) y)) = held y" using 1 by simp
    then show ?thesis using y s Done by (subst write_all.simps) simp
  qed (use y s in \<open>subst write_all.simps; simp\<close>)+
qed

lemma read_all_held: "accounts net held \<Longrightarrow> held (snd (read_all net fd n x)) = held x"
proof (induction n arbitrary: x rule: less_induct)
  case (less n)
  obtain got y where s: "nt_read net fd n x = (got, y)" by (meson surj_pair)
  have y: "held y = held x" using accounts_rules(4) [OF less(2), of fd n x] s by simp
  have "n \<noteq> 0 \<Longrightarrow> got \<noteq> [] \<Longrightarrow> held (snd (read_all net fd (n - length got) y)) = held y"
    using less by (cases got) simp_all
  then show ?case using y s by (subst read_all.simps) (simp add: case_prod_beta)
qed

lemma shm_loop_held:
  "accounts net held \<Longrightarrow> shm_write_loop net fd tries tx frame x = Some (rc, tx', y) \<Longrightarrow> held y = held x"
proof (induction tries arbitrary: tx x)
  case (Suc tries)
  show ?case
  proof (cases "bc_shm_ring_write tx frame")
    case None
    then show ?thesis using Suc.prems by simp
  next
    case (Some r)
    obtain rc1 tx1 where r: "r = (rc1, tx1)" by (meson surj_pair)
    obtain tx2 x2 where s: "nt_sleep net tx1 (snd (send_shm_kick net fd x)) = (tx2, x2)" by (meson surj_pair)
    have "held x2 = held x"
      using accounts_rules(7) [OF Suc.prems(1), of tx1 "snd (send_shm_kick net fd x)"] s write_all_held [OF Suc.prems(1)]
      by (simp add: send_shm_kick_def)
    then show ?thesis using Suc.prems Suc.IH [OF Suc.prems(1), of tx2 x2] Some r s by (auto split: if_splits)
  qed
qed simp

text \<open>What a context has of a session: for which handle, whether there is one, and the number it keeps.\<close>

definition session :: "bc_context \<Rightarrow> int \<times> bool \<times> int" where
  "session g = (ctx_fd g, ctx_shm g \<noteq> None, ctx_shm_fd g)"

lemma send_session:
  "send_ipc_message net type channel topic payload opts ctx x = Some (rc, ctx', y) \<Longrightarrow> session ctx' = session ctx"
  by (auto simp: send_ipc_message_def session_def split: if_splits sum.splits option.splits prod.splits)

lemma put_back_session: "session ctx = session (handle_context g handle) \<Longrightarrow> session (put_back g handle ctx) = session g"
  by (auto simp: session_def handle_context_def put_back_def)

lemma send_held:
  assumes "accounts net held" "send_ipc_message net type channel topic payload opts ctx x = Some (rc, ctx', y)"
  shows "held y = held x"
proof (cases "build_ipc_frame type channel topic payload opts")
  case (Inl e)
  then show ?thesis using assms(2) by (auto simp: send_ipc_message_def split: if_splits)
next
  case (Inr frame)
  obtain rc1 y1 where w: "write_all net (ctx_fd ctx) frame x = (rc1, y1)" by (meson surj_pair)
  have y1: "held y1 = held x" using write_all_held [OF assms(1), of "ctx_fd ctx" frame x] w by simp
  have kick: "held (snd (send_shm_kick net fd z)) = held z" for fd z
    by (simp add: send_shm_kick_def write_all_held [OF assms(1)])
  have shm: "held z = held x" if s: "shm_write_frame net tx (ctx_fd ctx) frame x = Some (r, tx', z)" for tx r tx' z
  proof -
    obtain r0 t0 z0 where l: "shm_write_loop net (ctx_fd ctx) 10000 tx frame x = Some (r0, t0, z0)"
      using s by (auto simp: shm_write_frame_def split: option.splits)
    have "held z0 = held x" by (rule shm_loop_held [OF assms(1) l])
    moreover obtain r1 z1 where k: "send_shm_kick net (ctx_fd ctx) z0 = (r1, z1)" by (meson surj_pair)
    ultimately show ?thesis using s l kick [of "ctx_fd ctx" z0] by (auto simp: shm_write_frame_def split: if_splits)
  qed
  show ?thesis
    using assms(2) Inr w y1 shm
    by (auto simp: send_ipc_message_def split: if_splits option.splits prod.splits)
qed

lemma write_ex_held:
  assumes "accounts net held" "bc_write_ex net handle channel topic payload opts g x = Some (r, g', y)"
  shows "held y = held x \<and> session g' = session g"
proof -
  obtain rc ctx where s: "send_ipc_message net (ipc_code BC_IPC_PUBLISH) channel topic payload opts (handle_context g handle) x =
      Some (rc, ctx, y)" "g' = put_back g handle ctx"
    using assms(2) by (auto simp: bc_write_ex_def split: option.splits)
  show ?thesis using send_held [OF assms(1) s(1)] put_back_session [OF send_session [OF s(1)]] s(2) by simp
qed

lemma write_held:
  "accounts net held \<Longrightarrow> bc_write net handle topic payload g x = Some (r, g', y) \<Longrightarrow>
     held y = held x \<and> session g' = session g"
  "accounts net held \<Longrightarrow> bc_write_channel net handle channel topic payload g x = Some (r, g', y) \<Longrightarrow>
     held y = held x \<and> session g' = session g"
  by (simp_all add: bc_write_def bc_write_channel_def write_ex_held)

lemma subscribe_held:
  assumes "accounts net held" "bc_subscribe_fd net handle topic g x = Some (rc, g', y)"
  shows "held y = held x \<and> session g' = session g"
proof -
  obtain ctx where s: "send_ipc_message net (ipc_code BC_IPC_SUBSCRIBE) [] topic [] None (handle_context g handle) x =
      Some (rc, ctx, y)" "g' = put_back g handle ctx"
    using assms(2) by (auto simp: bc_subscribe_fd_def split: option.splits)
  show ?thesis using send_held [OF assms(1) s(1)] put_back_session [OF send_session [OF s(1)]] s(2) by simp
qed

lemma socket_message_held:
  assumes "accounts net held" "read_socket_message net fd topic0 topic_cap payload_cap x = Some (r, y)"
  shows "held y = held x"
proof -
  have R: "held z' = held z" if "read_all net fd n z = (b, z')" for n z b z'
    using read_all_held [OF assms(1), of fd n z] that by simp
  show ?thesis
    using assms(2) unfolding read_socket_message_def Let_def
    by (auto split: prod.split_asm option.split_asm if_split_asm dest!: R)
qed

lemma read_session:
  "read_ipc_deliver net topic0 topic_cap payload_cap timeout ctx x = Some (r, ctx', y) \<Longrightarrow> session ctx' = session ctx"
  by (auto simp: read_ipc_deliver_def session_def Let_def
      split: if_splits option.splits sum.splits prod.splits poll_result.splits)

lemma read_held:
  assumes "accounts net held" "bc_read net handle topic0 topic_cap payload_cap timeout g x = Some (r, g', y)"
  shows "held y = held x \<and> session g' = session g"
proof
  obtain res z where p: "nt_poll net handle timeout x = (res, z)" by (meson surj_pair)
  have z: "held z = held x" using accounts_rules(5) [OF assms(1), of handle timeout x] p by simp
  have m: "held y' = held x" if "read_socket_message net handle topic0 topic_cap payload_cap z = Some (r', y')" for r' y'
    using socket_message_held [OF assms(1) that] z by simp
  have fd: "ctx_fd (handle_context g handle) = handle" by (simp add: handle_context_def)
  show "held y = held x"
    using assms(2) z m unfolding bc_read_def read_ipc_deliver_def fd Let_def p
    by (auto split: if_splits option.splits prod.splits sum.splits poll_result.splits)
  show "session g' = session g"
    using assms(2) read_session put_back_session by (fastforce simp: bc_read_def)
qed

text \<open>Opening adds one descriptor, or none if it fails; closing removes it.\<close>

definition opened_by :: "('x \<Rightarrow> int list) \<Rightarrow> 'x \<Rightarrow> bc_status + int \<Rightarrow> 'x \<Rightarrow> bool" where
  "opened_by held x res y \<longleftrightarrow> (case res of Inl _ \<Rightarrow> held y = held x | Inr fd \<Rightarrow> fd \<ge> 0 \<and> held y = fd # held x)"

lemma open_held:
  assumes "accounts net held" "bc_open net path x = (res, y)"
  shows "opened_by held x res y"
proof -
  obtain sock z where s: "nt_socket net x = (sock, z)" by (meson surj_pair)
  note n = accounts_new(1) [OF assms(1) s]
  show ?thesis
  proof (cases sock)
    case None
    then show ?thesis using assms(2) s n by (auto simp: bc_open_def opened_by_def Let_def)
  next
    case (Some fd)
    obtain ok v where c: "nt_connect net fd (cstr (case path of None \<Rightarrow> BC_DEFAULT_SOCKET_PATH | Some p \<Rightarrow> p)) z = (ok, v)"
      by (meson surj_pair)
    have "held v = held z"
      using accounts_rules(2) [OF assms(1), of fd "cstr (case path of None \<Rightarrow> BC_DEFAULT_SOCKET_PATH | Some p \<Rightarrow> p)" z] c by simp
    then show ?thesis
      using assms(2) s n Some c accounts_rules(1) [OF assms(1)]
      by (auto simp: bc_open_def opened_by_def Let_def split: if_splits)
  qed
qed

text \<open>
  Closing a handle closes also the number its session keeps. That number is in use by nothing else.
\<close>

definition closable :: "int list \<Rightarrow> int \<Rightarrow> bc_context \<Rightarrow> bool" where
  "closable hs handle g \<longleftrightarrow> (case session g of (fd, some, sfd) \<Rightarrow> fd = handle \<and> some \<longrightarrow> sfd \<notin> set hs)"

lemma closable_none: "ctx_shm g = None \<Longrightarrow> closable hs handle g"
  by (simp add: closable_def session_def)

lemma closable_same: "session g' = session g \<Longrightarrow> closable hs handle g' = closable hs handle g"
  by (simp add: closable_def)

lemma closable_kept: "ctx_shm g = None \<Longrightarrow> session g' = session g \<Longrightarrow> closable hs handle g'"
  using closable_none closable_same by blast

lemma enable_held:
  assumes a: "accounts net held" and e: "bc_enable_shm net handle g x = (rc, g', y)" and none: "ctx_shm g = None"
  shows "held y = held x \<and> closable (held x) handle' g'"
proof -
  have ex: "held y' = held x \<and> closable (held x) handle' ctx'"
    if r: "enable_shm_exchange net ctx x = (rc', ctx', y')" "ctx_shm ctx = None" for ctx rc' ctx' y'
  proof -
    let ?q = "put_ipc_header (client_header (ipc_code BC_IPC_SHM_SETUP))"
    obtain rc1 x1 where w: "write_all net (ctx_fd ctx) ?q x = (rc1, x1)" by (meson surj_pair)
    obtain sfd x2 where f: "nt_recv_fd net (ctx_fd ctx) x1 = (sfd, x2)" by (meson surj_pair)
    obtain rings x3 where t: "nt_attach net (the sfd) x2 = (rings, x3)" by (meson surj_pair)
    have h: "held x1 = held x" "held x3 = held x2"
      "case sfd of None \<Rightarrow> held x2 = held x1 | Some f \<Rightarrow> f \<notin> set (held x1) \<and> held x2 = f # held x1"
      using write_all_held [OF a, of "ctx_fd ctx" ?q x] w accounts_rules(6) [OF a, of "the sfd" x2] t
        accounts_new(2) [OF a f] by simp_all
    show ?thesis
      using r h t w f accounts_rules(1) [OF a] closable_none
      by (auto simp: enable_shm_exchange_def close_session_def closable_def session_def
          split: if_splits option.splits prod.splits)
  qed
  show ?thesis
    using e ex [of g] ex [of "g\<lparr>ctx_fd := handle\<rparr>"] none closable_none
    by (auto simp: bc_enable_shm_def Let_def split: if_splits)
qed

lemma open_shm_held:
  assumes "accounts net held" "bc_open_with_shm net path g x = (res, g', y)" "ctx_shm g = None"
  shows "opened_by held x res y \<and> closable (held y) handle g'"
proof -
  obtain r z where o1: "bc_open net path x = (r, z)" by (meson surj_pair)
  note h = open_held [OF assms(1) o1]
  show ?thesis
  proof (cases r)
    case (Inl e)
    then show ?thesis using assms(2,3) o1 h closable_none by (auto simp: bc_open_with_shm_def opened_by_def)
  next
    case (Inr fd)
    obtain rc g1 v where e: "bc_enable_shm net fd (g\<lparr>ctx_fd := fd\<rparr>) z = (rc, g1, v)" by (metis prod_cases3)
    have "held v = held z \<and> closable (held z) handle g1" using enable_held [OF assms(1) e] assms(3) by simp
    then show ?thesis using assms(2) o1 h Inr e by (auto simp: bc_open_with_shm_def opened_by_def)
  qed
qed

lemma finish_held:
  assumes a: "accounts net held" and "handle \<ge> 0" "held x = handle # hs" and c: "closable (held x) handle g"
  shows "\<exists>g' y. finish net handle code g x = (code, g', y) \<and> held y = hs"
proof -
  obtain g1 x1 where s: "(if handle = ctx_fd g then (case close_session net g x of (g, x) \<Rightarrow> (g\<lparr>ctx_fd := - 1\<rparr>, x)) else (g, x)) =
      (g1, x1)" by force
  have "held x1 = held x"
    using s c accounts_rules(1) [OF a]
    by (auto simp: close_session_def closable_def session_def remove1_idem split: if_splits prod.splits)
  moreover obtain r y where "nt_close net handle x1 = (r, y)" by (meson surj_pair)
  moreover from this have "held y = remove1 handle (held x1)" using accounts_rules(1) [OF a, of handle x1] by simp
  ultimately show ?thesis using s assms(2,3) by (simp add: finish_def bc_close_def)
qed

section \<open>The programs\<close>

datatype program = Pub | Sub | Perf_Pub | Perf_Sub | Stability_Pub | File_Send | File_Recv

text \<open>What a program finds around it, beside its connection and its arguments.\<close>

record ('t, 'x) surroundings =
  su_rounds :: nat
  su_tries :: nat
  su_clock :: "('t, 'x) clock"
  su_mem :: bool
  su_source :: file_source
  su_inboxes :: "file_read list list"
  su_sink :: file_sink
  su_reads :: "int \<Rightarrow> file_read list"

text \<open>The exit code, or \<open>None\<close> while the program runs.\<close>

definition run_program ::
  "program \<Rightarrow> ('t, 'x) surroundings \<Rightarrow> 'x net \<Rightarrow> byte list list \<Rightarrow> bc_context \<Rightarrow> 'x \<Rightarrow> (nat option \<times> bc_context \<times> 'x) option" where
  "run_program p su net argv g x = (case p of
     Pub \<Rightarrow> map_option (apfst Some) (pub_main net argv g x)
   | Sub \<Rightarrow> map_option (apsnd snd) (sub_main (su_rounds su) net argv g x)
   | Perf_Pub \<Rightarrow> map_option (apsnd snd) (perf_pub_main (su_rounds su) (su_tries su) (su_clock su) (su_mem su) net argv g x)
   | Perf_Sub \<Rightarrow> map_option (apsnd snd) (perf_sub_main (su_rounds su) (su_clock su) net argv g x)
   | Stability_Pub \<Rightarrow> map_option (apsnd snd) (stability_pub_main (su_rounds su) (su_clock su) (su_mem su) net argv g x)
   | File_Send \<Rightarrow> map_option (apfst Some) (file_send_main net (su_source su) (su_inboxes su) argv g x)
   | File_Recv \<Rightarrow> map_option (apfst Some) (snd (file_recv_main net (su_sink su) (su_reads su) argv g x)))"

definition steady :: "('t, 'x) clock \<Rightarrow> ('x \<Rightarrow> 'a) \<Rightarrow> bool" where
  "steady clock f \<longleftrightarrow> (\<forall>x. f (snd (ck_now clock x)) = f x)"

lemma steadyD: "steady clock f \<Longrightarrow> ck_now clock x = (now, y) \<Longrightarrow> f y = f x"
  unfolding steady_def by (metis snd_conv)

lemma sub_loop_held:
  "accounts net held \<Longrightarrow> sub_loop n net handle seen g x = Some (running, seen', g', y) \<Longrightarrow>
     held y = held x \<and> session g' = session g"
proof (induction n arbitrary: seen g x)
  case (Suc n)
  then show ?case using read_held [OF Suc.prems(1)]
    by (auto split: option.splits sum.splits prod.splits)
qed simp

lemma until_held:
  "accounts net held \<Longrightarrow> publish_until n net handle topic payload g x = Some (w, g', y) \<Longrightarrow>
     held y = held x \<and> session g' = session g"
proof (induction n arbitrary: g x)
  case (Suc n)
  obtain w1 g1 x1 where w: "bc_write net handle topic payload g x = Some (w1, g1, x1)"
    using Suc.prems(2) by (auto split: option.splits)
  have "held x1 = held x \<and> session g1 = session g" using write_held(1) [OF Suc.prems(1) w] .
  then show ?case using Suc.prems Suc.IH [OF Suc.prems(1), of g1 x1] w by (auto split: if_splits)
qed simp

lemma perf_pub_loop_held:
  assumes a: "accounts net held" and c: "steady clock held"
  shows "perf_pub_loop n tries clock net handle topic d len st g x = Some (e, st', g', y) \<Longrightarrow>
     held y = held x \<and> session g' = session g"
proof (induction n arbitrary: st g x)
  case (Suc n)
  obtain now x1 where x1: "ck_now clock x = (now, x1)" by (meson surj_pair)
  have h1: "held x1 = held x" using steadyD [OF c x1] .
  show ?case
  proof (cases "ck_reached clock now (pp_start st) d")
    case True
    then show ?thesis using Suc.prems x1 h1 by simp
  next
    case False
    obtain w g2 x2 where w: "publish_until tries net handle topic (numbered_payload 0x5a len (pp_sent st + pp_failed st)) g x1 = Some (w, g2, x2)"
      using Suc.prems x1 False by (auto split: option.splits)
    have h2: "held x2 = held x" "session g2 = session g" using until_held [OF a w] h1 by simp_all
    obtain now3 x3 where x3: "ck_now clock x2 = (now3, x3)" by (meson surj_pair)
    have h3: "held x3 = held x" using steadyD [OF c x3] h2(1) by simp
    show ?thesis using Suc.prems Suc.IH [of _ g2 x3] x1 False w h2 h3 x3 by (auto simp: Let_def split: option.splits)
  qed
qed simp

lemma stability_loop_held:
  assumes a: "accounts net held" and c: "steady clock held"
  shows "stability_loop n clock net handle topic d len st g x = Some (e, st', g', y) \<Longrightarrow>
     held y = held x \<and> session g' = session g"
proof (induction n arbitrary: st g x)
  case (Suc n)
  obtain now x1 where x1: "ck_now clock x = (now, x1)" by (meson surj_pair)
  have h1: "held x1 = held x" using steadyD [OF c x1] .
  show ?case
  proof (cases "ck_reached clock now (pp_start st) d")
    case True
    then show ?thesis using Suc.prems x1 h1 by simp
  next
    case False
    obtain w g2 x2 where w: "bc_write net handle topic (numbered_payload 0xa5 len (pp_sent st)) g x1 = Some (w, g2, x2)"
      using Suc.prems x1 False by (auto split: option.splits)
    have h2: "held x2 = held x" "session g2 = session g" using write_held(1) [OF a w] h1 by simp_all
    obtain now3 x3 where x3: "ck_now clock x2 = (now3, x3)" by (meson surj_pair)
    have h3: "held x3 = held x" using steadyD [OF c x3] h2(1) by simp
    show ?thesis using Suc.prems Suc.IH [of _ g2 x3] x1 False w h2 h3 x3 by (auto simp: Let_def)
  qed
qed simp

lemma perf_sub_loop_held:
  assumes a: "accounts net held" and c: "steady clock held"
  shows "perf_sub_loop n clock net handle d st g x = Some (e, st', g', y) \<Longrightarrow>
     held y = held x \<and> session g' = session g"
proof (induction n arbitrary: st g x)
  case (Suc n)
  obtain now x1 where x1: "ck_now clock x = (now, x1)" by (meson surj_pair)
  have h1: "held x1 = held x" using steadyD [OF c x1] .
  show ?case
  proof (cases "ck_reached clock now (ps_start st) d")
    case True
    then show ?thesis using Suc.prems x1 h1 by simp
  next
    case False
    obtain r g2 x2 where w: "bc_read net handle (zeros BC_MAX_TOPIC_LEN) BC_MAX_TOPIC_LEN BC_MAX_PAYLOAD_LEN 100 g x1 = Some (r, g2, x2)"
      using Suc.prems x1 False by (auto split: option.splits)
    have h2: "held x2 = held x" "session g2 = session g" using read_held [OF a w] h1 by simp_all
    obtain now3 x3 where x3: "ck_now clock x2 = (now3, x3)" by (meson surj_pair)
    have h3: "held x3 = held x" using steadyD [OF c x3] h2(1) by simp
    show ?thesis using Suc.prems Suc.IH [of _ g2 x3] x1 False w h2 h3 x3 by (auto split: sum.splits if_splits)
  qed
qed simp

text \<open>A file transfer leaves the descriptors alone, too.\<close>

definition same_held :: "'x net \<Rightarrow> ('x \<Rightarrow> int list) \<Rightarrow> (bc_context \<times> 'x) option \<Rightarrow> (bc_context \<times> 'x) option \<Rightarrow> bool" where
  "same_held net held w w' \<longleftrightarrow> (accounts net held \<longrightarrow>
     (case w' of None \<Rightarrow> True | Some (g', y) \<Rightarrow> (case w of None \<Rightarrow> False | Some (g, x) \<Rightarrow> held y = held x \<and> session g' = session g)))"

interpretation library: file_world "library_env net handle" "same_held net held"
proof
  show "same_held net held w w" for w by (auto simp: same_held_def split: option.split)
  show "same_held net held u v \<Longrightarrow> same_held net held v w \<Longrightarrow> same_held net held u w" for u v w
    by (auto simp: same_held_def split: option.splits)
  show "same_held net held w (snd (fe_write (library_env net handle) channel topic data qos w))" for channel topic data qos w
    using write_ex_held by (fastforce simp: same_held_def library_env_def split: option.splits)
  show "same_held net held w (snd (fe_subscribe (library_env net handle) topic w))" for topic w
    using subscribe_held by (fastforce simp: same_held_def library_env_def split: option.splits)
qed

lemma file_end_held:
  assumes "accounts net held" "handle \<ge> 0" "same_held net held (Some (g, x)) w" "held x = handle # hs" "closable (held x) handle g"
    and f: "file_end net handle rc w = Some (code, g', y)"
  shows "held y = hs \<and> code \<le> 1"
proof -
  obtain g1 x1 where w: "w = Some (g1, x1)" using f by (auto simp: file_end_def)
  then have h: "held x1 = handle # hs" "closable (held x1) handle g1"
    using assms(1,3-5) closable_same [of g1 g] by (simp_all add: same_held_def)
  from finish_held [OF assms(1,2) h, of "if rc \<noteq> BC_OK then 1 else 0"]
  show ?thesis using f w by (auto simp: file_end_def split: if_splits)
qed

definition released :: "('x \<Rightarrow> int list) \<Rightarrow> 'x \<Rightarrow> nat option \<Rightarrow> 'x \<Rightarrow> bool" where
  "released held x code y \<longleftrightarrow> (case code of
     Some c \<Rightarrow> held y = held x \<and> c \<le> 1 | None \<Rightarrow> \<exists>fd \<ge> 0. held y = fd # held x)"

lemma finish_released:
  assumes "accounts net held" "handle \<ge> 0" "held z = handle # held x" "closable (held z) handle g"
    "finish net handle code g z = (c, g', y)" "code \<le> 1"
  shows "released held x (Some c) y"
  using finish_held [OF assms(1-4), of code] assms(5,6) by (auto simp: released_def)

lemma pub_released:
  assumes a: "accounts net held" and r: "pub_main net argv g x = Some (code, g', y)"
    and none: "ctx_shm g = None"
  shows "released held x (Some code) y"
proof -
  obtain res x1 where o1: "bc_open net None x = (res, x1)" by (meson surj_pair)
  note h = open_held [OF a o1]
  define topic where "topic = arg_or argv 1 (str ''demo.topic'')"
  define payload where "payload = cstr (arg_or argv 2 (str ''hello from boardcomm_pub''))"
  show ?thesis
  proof (cases res)
    case (Inl e)
    then show ?thesis using r h o1 by (simp add: pub_main_def opened_by_def released_def)
  next
    case (Inr fd)
    define wr where "wr = (case arg argv 3 of Some channel \<Rightarrow> bc_write_channel net fd channel topic payload g x1
             | None \<Rightarrow> bc_write net fd topic payload g x1)"
    obtain w g2 x2 where w: "wr = Some (w, g2, x2)" "finish net fd (case w of Inl _ \<Rightarrow> 1 | Inr _ \<Rightarrow> 0) g2 x2 = (code, g', y)"
      using r unfolding pub_main_def Let_def o1 Inr topic_def [symmetric] payload_def [symmetric]
      by (auto simp: wr_def split: option.splits)
    have "held x2 = held x1" "closable (held x2) fd g2"
      using w(1) write_held [OF a] closable_kept [OF none] by (auto simp: wr_def split: option.splits)
    then show ?thesis
      using h Inr finish_released [OF a _ _ _ w(2)] by (simp add: opened_by_def split: sum.split)
  qed
qed

lemma sub_released:
  assumes a: "accounts net held" and r: "sub_main n net argv g x = Some (code, seen, g', y)"
    and none: "ctx_shm g = None"
  shows "released held x code y"
proof -
  obtain res x1 where o1: "bc_open net None x = (res, x1)" by (meson surj_pair)
  note h = open_held [OF a o1]
  define topic where "topic = arg_or argv 1 (str ''demo.topic'')"
  note defs = sub_main_def Let_def topic_def [symmetric] o1 prod.case
  show ?thesis
  proof (cases res)
    case (Inl e)
    then show ?thesis using r h unfolding defs by (auto simp: opened_by_def released_def)
  next
    case (Inr fd)
    then have fd: "fd \<ge> 0" "held x1 = fd # held x" using h by (simp_all add: opened_by_def)
    obtain rc g2 x2 where s: "bc_subscribe_fd net fd topic g x1 = Some (rc, g2, x2)"
      using r unfolding defs Inr by (auto split: option.splits)
    have h2: "held x2 = fd # held x" "closable (held x2) fd g2" using subscribe_held [OF a s] fd(2) closable_kept [OF none] by simp_all
    show ?thesis
    proof (cases "rc = BC_OK")
      case False
      then show ?thesis
        using r finish_released [where x = x, OF a fd(1) h2(1,2)] unfolding defs Inr by (auto simp: s split: prod.splits)
    next
      case True
      obtain e seen1 g3 x3 where l: "sub_loop n net fd [] g2 x2 = Some (e, seen1, g3, x3)"
        using r True unfolding defs Inr by (auto simp: s split: option.splits)
      have h3: "held x3 = fd # held x" "closable (held x3) fd g3"
        using sub_loop_held [OF a l] h2(1) subscribe_held [OF a s] closable_kept [OF none, of g3] by simp_all
      then show ?thesis
        using r True fd(1) h3(1) finish_released [where x = x, OF a fd(1) h3] unfolding defs Inr
        by (cases e) (auto simp: s l released_def split: prod.splits)
    qed
  qed
qed

lemma perf_pub_released:
  assumes a: "accounts net held" and c: "steady clock held"
    and r: "perf_pub_main n tries clock mem net argv g x = Some (code, st, g', y)"
    and none: "ctx_shm g = None"
  shows "released held x code y"
proof -
  define topic where "topic = arg_or argv 1 (str ''perf.topic'')"
  define d where "d = ((case arg argv 2 of None \<Rightarrow> 10 | Some a \<Rightarrow> ucast (strtoul a)) :: u32)"
  define len where "len = (case arg argv 3 of None \<Rightarrow> 1024 | Some a \<Rightarrow> strtoul a)"
  obtain res x1 where o1: "bc_open net None x = (res, x1)" by (meson surj_pair)
  note h = open_held [OF a o1]
  note defs = perf_pub_main_def Let_def topic_def [symmetric] d_def [symmetric] len_def [symmetric] o1 prod.case
  show ?thesis
  proof (cases "\<not> payload_size_ok d len \<or> \<not> mem \<or> (\<exists>e. res = Inl e)")
    case True
    then show ?thesis using r h unfolding defs by (auto simp: opened_by_def released_def split: if_splits)
  next
    case False
    then obtain fd where fd: "res = Inr fd" by (cases res) auto
    then have fd': "fd \<ge> 0" "held x1 = fd # held x" using h by (simp_all add: opened_by_def)
    obtain start x2 where s: "ck_now clock x1 = (start, x2)" by (meson surj_pair)
    obtain e st1 g3 x3 where l: "perf_pub_loop n tries clock net fd topic (unat d) (unat len) (pub_begin start) g x2 = Some (e, st1, g3, x3)"
      using r False unfolding defs fd by (auto simp: s split: option.splits)
    have h3: "held x3 = fd # held x" "session g3 = session g" using perf_pub_loop_held [OF a c l] steadyD [OF c s] fd'(2) by simp_all
    obtain now x4 where n4: "ck_now clock x3 = (now, x4)" by (meson surj_pair)
    have h4: "held x4 = fd # held x" "closable (held x4) fd g3" using steadyD [OF c n4] h3 closable_kept [OF none] by simp_all
    have code: "pub_exit_code st1 \<le> 1" by (simp add: pub_exit_code_def)
    show ?thesis
      using r False unfolding defs fd
      by (cases e) (use fd'(1) h3(1) finish_released [where x = x, OF a fd'(1) h4 _ code] in
        \<open>auto simp: s l n4 released_def split: prod.splits\<close>)
  qed
qed

lemma stability_released:
  assumes a: "accounts net held" and c: "steady clock held"
    and r: "stability_pub_main n clock mem net argv g x = Some (code, st, g', y)"
    and none: "ctx_shm g = None"
  shows "released held x code y"
proof -
  define topic where "topic = arg_or argv 1 (str ''stable.topic'')"
  define d where "d = ((case arg argv 2 of None \<Rightarrow> 3600 | Some a \<Rightarrow> ucast (strtoul a)) :: u32)"
  define len where "len = (case arg argv 3 of None \<Rightarrow> 256 | Some a \<Rightarrow> strtoul a)"
  obtain res x1 where o1: "bc_open net None x = (res, x1)" by (meson surj_pair)
  note h = open_held [OF a o1]
  note defs = stability_pub_main_def Let_def topic_def [symmetric] d_def [symmetric] len_def [symmetric] o1 prod.case
  show ?thesis
  proof (cases "\<not> payload_size_ok d len \<or> \<not> mem \<or> (\<exists>e. res = Inl e)")
    case True
    then show ?thesis using r h unfolding defs by (auto simp: opened_by_def released_def split: if_splits)
  next
    case False
    then obtain fd where fd: "res = Inr fd" by (cases res) auto
    then have fd': "fd \<ge> 0" "held x1 = fd # held x" using h by (simp_all add: opened_by_def)
    obtain start x2 where s: "ck_now clock x1 = (start, x2)" by (meson surj_pair)
    obtain e st1 g3 x3 where l: "stability_loop n clock net fd topic (unat d) (unat len) (pub_begin start) g x2 = Some (e, st1, g3, x3)"
      using r False unfolding defs fd by (auto simp: s split: option.splits)
    have h3: "held x3 = fd # held x" "session g3 = session g" using stability_loop_held [OF a c l] steadyD [OF c s] fd'(2) by simp_all
    obtain now x4 where n4: "ck_now clock x3 = (now, x4)" by (meson surj_pair)
    have h4: "held x4 = fd # held x" "closable (held x4) fd g3" using steadyD [OF c n4] h3 closable_kept [OF none] by simp_all
    have code: "pub_exit_code st1 \<le> 1" by (simp add: pub_exit_code_def)
    show ?thesis
      using r False unfolding defs fd
      by (cases e) (use fd'(1) h3(1) finish_released [where x = x, OF a fd'(1) h4 _ code] in
        \<open>auto simp: s l n4 released_def split: prod.splits\<close>)
  qed
qed

lemma perf_sub_released:
  assumes a: "accounts net held" and c: "steady clock held"
    and r: "perf_sub_main n clock net argv g x = Some (code, st, g', y)"
    and none: "ctx_shm g = None"
  shows "released held x code y"
proof -
  define topic where "topic = arg_or argv 1 (str ''perf.topic'')"
  define d where "d = ((case arg argv 2 of None \<Rightarrow> 10 | Some a \<Rightarrow> ucast (strtoul a)) :: u32)"
  obtain start x0 where s0: "ck_now clock x = (start, x0)" by (meson surj_pair)
  obtain res x1 where o1: "bc_open net None x0 = (res, x1)" by (meson surj_pair)
  note h = open_held [OF a o1]
  have h0: "held x0 = held x" using steadyD [OF c s0] .
  note defs = perf_sub_main_def Let_def topic_def [symmetric] d_def [symmetric] s0 o1 prod.case
  show ?thesis
  proof (cases "d = 0 \<or> (\<exists>e. res = Inl e)")
    case True
    then show ?thesis using r h h0 unfolding defs by (auto simp: opened_by_def released_def split: if_splits)
  next
    case False
    then obtain fd where fd: "res = Inr fd" by (cases res) auto
    then have fd': "fd \<ge> 0" "held x1 = fd # held x" using h h0 by (simp_all add: opened_by_def)
    obtain rc g2 x2 where s: "bc_subscribe_fd net fd topic g x1 = Some (rc, g2, x2)"
      using r False unfolding defs fd by (auto split: option.splits)
    have h2: "held x2 = fd # held x" "session g2 = session g" using subscribe_held [OF a s] fd'(2) by simp_all
    show ?thesis
    proof (cases "rc = BC_OK")
      case no: False
      then show ?thesis
        using r False finish_released [where x = x, OF a fd'(1) h2(1) closable_kept [OF none h2(2)]] unfolding defs fd by (auto simp: s split: prod.splits)
    next
      case True
      obtain e st1 g3 x3 where l: "perf_sub_loop n clock net fd (unat d) (perf_begin start) g2 x2 = Some (e, st1, g3, x3)"
        using r False True unfolding defs fd by (auto simp: s split: option.splits)
      have h3: "held x3 = fd # held x" "closable (held x3) fd g3"
        using perf_sub_loop_held [OF a c l] h2 closable_kept [OF none, of g3] by simp_all
      obtain now x4 where n4: "ck_now clock x3 = (now, x4)" by (meson surj_pair)
      have h4: "held x4 = fd # held x" "closable (held x4) fd g3" using steadyD [OF c n4] h3 closable_kept [OF none] by simp_all
      show ?thesis
        using r False True fd'(1) h3(1) finish_released [where x = x, OF a fd'(1) h3] finish_released [where x = x, OF a fd'(1) h4]
        unfolding defs fd by (cases e) (auto simp: s l n4 released_def split: prod.splits)
    qed
  qed
qed

lemma file_send_released:
  assumes a: "accounts net held" and r: "file_send_main net src inboxes argv g x = Some (code, g', y)"
    and none: "ctx_shm g = None"
  shows "released held x (Some code) y"
proof (cases "arg argv 2")
  case None
  then show ?thesis using r by (simp add: file_send_main_def released_def)
next
  case path: (Some path)
  define topic where "topic = arg_or argv 1 (str ''file.topic'')"
  obtain res g1 x1 where o1: "bc_open_with_shm net None g x = (res, g1, x1)" by (metis prod_cases3)
  note h = open_shm_held [OF a o1 none]
  note defs = file_send_main_def Let_def topic_def [symmetric] path option.case o1 prod.case
  show ?thesis
  proof (cases res)
    case (Inl e)
    then show ?thesis using r h unfolding defs by (simp add: opened_by_def released_def)
  next
    case (Inr fd)
    then have fd: "fd \<ge> 0" "held x1 = fd # held x" "closable (held x1) fd g1" using h [where handle = fd] Inr by (auto simp: opened_by_def)
    define env where "env = library_env net fd"
    define sent where "sent = (case arg argv 3 of
      Some channel \<Rightarrow> bc_file_send_channel env channel topic path src inboxes (Some (g1, x1))
    | None \<Rightarrow> bc_file_send env topic path src inboxes (Some (g1, x1)))"
    have "same_held net held (Some (g1, x1)) (snd sent)"
      by (simp add: sent_def env_def bc_file_send_def bc_file_send_channel_def library.send_file_R split: option.split)
    moreover have "file_end net fd (fst sent) (snd sent) = Some (code, g', y)"
      using r unfolding defs Inr sum.case env_def [symmetric] sent_def [symmetric] by (simp add: case_prod_beta)
    ultimately show ?thesis using file_end_held [OF a fd(1) _ fd(2,3)] by (simp add: released_def)
  qed
qed

lemma file_recv_released:
  assumes a: "accounts net held" and r: "file_recv_main net sink reads argv g x = (left, Some (code, g', y))"
    and none: "ctx_shm g = None"
  shows "released held x (Some code) y"
proof -
  define topic where "topic = arg_or argv 1 (str ''file.topic'')"
  define path where "path = arg_or argv 2 (str ''/tmp/boardcomm_recv.bin'')"
  define timeout where "timeout = (case arg argv 3 of None \<Rightarrow> 30000 | Some a \<Rightarrow> atoi a)"
  obtain res g1 x1 where o1: "bc_open_with_shm net None g x = (res, g1, x1)" by (metis prod_cases3)
  note h = open_shm_held [OF a o1 none]
  note defs = file_recv_main_def Let_def topic_def [symmetric] path_def [symmetric] timeout_def [symmetric] o1 prod.case
  show ?thesis
  proof (cases res)
    case (Inl e)
    then show ?thesis using r h unfolding defs by (simp add: opened_by_def released_def)
  next
    case (Inr fd)
    then have fd: "fd \<ge> 0" "held x1 = fd # held x" "closable (held x1) fd g1" using h [where handle = fd] Inr by (auto simp: opened_by_def)
    define env where "env = library_env net fd"
    define got where "got = (case arg argv 4 of
      Some channel \<Rightarrow> bc_file_recv_channel env sink channel topic path (reads timeout) (Some (g1, x1))
    | None \<Rightarrow> bc_file_recv env sink topic path (reads timeout) (Some (g1, x1)))"
    have "same_held net held (Some (g1, x1)) (snd (snd got))"
      by (simp add: got_def env_def bc_file_recv_def bc_file_recv_channel_def library.recv_file_R split: option.split)
    moreover have "file_end net fd (fst got) (snd (snd got)) = Some (code, g', y)"
      using r unfolding defs Inr sum.case env_def [symmetric] got_def [symmetric] by (simp add: case_prod_beta)
    ultimately show ?thesis using file_end_held [OF a fd(1) _ fd(2,3)] by (simp add: released_def)
  qed
qed

text \<open>
  C22. Every example program gives back the descriptors it got through the client library: whatever its arguments, the
  daemon and the clock do, when it ends it has closed its connection on every way out, and the descriptor that came for
  shared memory too, and its exit code is 0 or 1; while it still runs it holds its connection and nothing else
  of these. It closes nothing else either, although \<^verbatim>\<open>bc_close\<close> closes the number of the passed descriptor a second
  time (\<open>shm_attach_closes_twice\<close>): the programs get no other descriptor from the library in between. The file
  that a transfer reads or writes is opened and closed inside the transfer and is not counted, nor is a log file.
  The program starts, as a process does, without a session.
\<close>
theorem programs_release:
  assumes "accounts net held" "steady (su_clock su) held" and "ctx_shm g = None"
    and "run_program p su net argv g x = Some (code, g', y)"
  shows "case code of
      Some c \<Rightarrow> held y = held x \<and> c \<le> 1
    | None \<Rightarrow> \<exists>fd \<ge> 0. held y = fd # held x"
proof -
  note a = assms(1) and c = assms(2) and n = assms(3)
  have "released held x code y"
    using assms(4) pub_released [OF a _ n] sub_released [OF a _ n] perf_pub_released [OF a c _ n]
      perf_sub_released [OF a c _ n] stability_released [OF a c _ n] file_send_released [OF a _ n]
      file_recv_released [OF a _ n]
    by (cases p) (force simp: run_program_def prod_eq_iff)+
  then show ?thesis by (simp add: released_def)
qed

text \<open>
  A process with a daemon that answers nothing but the request for shared memory, and a clock that
  ticks when it is read. Descriptors are numbered in the order of their use.
\<close>

definition silent_net :: "(int list \<times> nat) net" where
  "silent_net =
     \<lparr>nt_socket = (\<lambda>(fds, t). if 3 \<in> set fds then (None, fds, t) else (Some 3, 3 # fds, t)), nt_connect = (\<lambda>_ _ x. (True, x)),
      nt_send = (\<lambda>_ d x. (Done (length d), x)), nt_read = (\<lambda>_ _ x. ([], x)), nt_poll = (\<lambda>_ _ x. (Poll_Timeout, x)),
      nt_recv_fd = (\<lambda>_ (fds, t). if 4 \<in> set fds then (None, fds, t) else (Some 4, 4 # fds, t)),
      nt_attach = (\<lambda>_ x. (Some (init_ring [] 0, init_ring [] 0), x)),
      nt_close = (\<lambda>fd (fds, t). (True, remove1 fd fds, t)), nt_sleep = Pair\<rparr>"

definition tick :: "(nat, 'a \<times> nat) clock" where
  "tick = \<lparr>ck_now = (\<lambda>(a, t). (t, a, Suc t)), ck_reached = (\<lambda>now since n. since + n \<le> now)\<rparr>"

definition some_surroundings :: "(nat, int list \<times> nat) surroundings" where
  "some_surroundings = \<lparr>su_rounds = 10, su_tries = 3, su_clock = tick, su_mem = True,
     su_source = \<lparr>fs_stat = None, fs_open = False, fs_chunks = [], fs_read_ok = True, fs_now = 0, fs_pid = 1\<rparr>, su_inboxes = [],
     su_sink = \<lparr>sk_create = False, sk_write = (\<lambda>_ _. True)\<rparr>, su_reads = (\<lambda>_. [])\<rparr>"

lemma silent_accounts: "accounts silent_net fst"
  by (simp add: accounts_def silent_net_def split_beta)

lemma programs_release_witness:
  "\<exists>g' y. run_program File_Send some_surroundings silent_net [str ''file_send'', str ''a/b'', str ''f''] no_context ([0], 0) =
      Some (Some 1, g', y) \<and> fst y = fst ([0] :: int list, 0 :: nat) \<and> (1 :: nat) \<le> 1"
proof -
  have "map_option fst (run_program File_Send some_surroundings silent_net [str ''file_send'', str ''a/b'', str ''f'']
      no_context ([0], 0)) = Some (Some 1)"
    by code_simp
  then obtain g' y where r: "run_program File_Send some_surroundings silent_net [str ''file_send'', str ''a/b'', str ''f'']
      no_context ([0], 0) = Some (Some 1, g', y)" by force
  have "steady (su_clock some_surroundings) (fst :: int list \<times> nat \<Rightarrow> int list)"
    by (simp add: steady_def some_surroundings_def tick_def split_beta)
  from programs_release [OF silent_accounts this _ r] show ?thesis using r by (simp add: no_context_def)
qed

section \<open>The measuring pair\<close>

lemma numbered_parts:
  assumes "8 \<le> len"
  shows "length (numbered_payload fill len seq) = len" "of_le (take 8 (numbered_payload fill len seq)) = seq"
    "numbered_payload fill len seq = to_le 8 seq @ replicate (len - 8) fill"
proof -
  show e: "numbered_payload fill len seq = to_le 8 seq @ replicate (len - 8) fill"
    using assms by (simp add: numbered_payload_def blit_def del: to_le_numeral)
  show "length (numbered_payload fill len seq) = len" "of_le (take 8 (numbered_payload fill len seq)) = seq"
    using assms unfolding e by (simp_all add: le64.dec_enc del: to_le_numeral)
qed

text \<open>The log lines of a run add up to what was counted when the last one was written.\<close>

definition logged :: "('t interval \<Rightarrow> u64) \<Rightarrow> 't interval list \<Rightarrow> u64" where
  "logged f log = sum_list (map f log)"

definition perf_frame :: "byte list \<Rightarrow> nat \<Rightarrow> nat \<Rightarrow> byte list" where
  "perf_frame topic len k =
     ipc_wire (sent_header (ipc_code BC_IPC_PUBLISH) [] topic (numbered_payload 0x5a len (of_nat k)) None) [] (cstr topic)
       (numbered_payload 0x5a len (of_nat k))"

text \<open>
  What the subscriber knows after the messages \<open>ks\<close>: how many there were, the last number, and how many
  numbers between the first and the last did not come.
\<close>

definition counted :: "nat \<Rightarrow> nat list \<Rightarrow> 't perf_state \<Rightarrow> bool" where
  "counted len ks st \<longleftrightarrow>
     ps_received st = of_nat (length ks) \<and> ps_have_seq st = (ks \<noteq> []) \<and> ps_bytes st = of_nat (length ks * len) \<and>
     (ks = [] \<longrightarrow> ps_lost st = 0) \<and>
     (ks \<noteq> [] \<longrightarrow> ps_last_seq st = of_nat (last ks) \<and> ps_lost st + of_nat (length ks) = of_nat (last ks) + 1 - of_nat (hd ks)) \<and>
     logged iv_done (ps_log st) = ps_last_received st \<and> logged iv_missed (ps_log st) = ps_last_lost st \<and>
     logged iv_bytes (ps_log st) = ps_last_bytes st"

lemma counted_begin: "counted len [] (perf_begin start)"
  by (simp add: counted_def perf_begin_def logged_def)

lemma counted_report: "counted len ks st \<Longrightarrow> counted len ks (report_interval now st)"
  by (simp add: counted_def report_interval_def logged_def)

lemma seq_gap:
  fixes l k :: nat
  assumes "l < k" "k < 2 ^ 63"
  shows "(of_nat k :: u64) > of_nat l + 1 \<longleftrightarrow> k > l + 1"
proof -
  have "unat (of_nat k :: u64) = k" "unat (of_nat l + 1 :: u64) = l + 1"
    using assms by (simp_all add: unat_of_nat_word unat_word_ariths)
  then show ?thesis by (simp add: word_less_nat_alt)
qed

lemma counted_message:
  assumes c: "counted len ks st" and k: "k < 2 ^ 63" "ks \<noteq> [] \<Longrightarrow> last ks < k" and len: "8 \<le> len"
  shows "counted len (ks @ [k]) (on_message clock now (numbered_payload fill len (of_nat k)) st)"
proof -
  let ?p = "numbered_payload fill len (of_nat k)"
  define st1 where "st1 = note_seq ?p st"
  define st2 where "st2 = st1\<lparr>ps_received := ps_received st1 + 1, ps_bytes := ps_bytes st1 + of_nat (length ?p)\<rparr>"
  have n: "st1 = (if ps_have_seq st \<and> of_nat k > ps_last_seq st + 1
      then st\<lparr>ps_lost := ps_lost st + (of_nat k - ps_last_seq st - 1)\<rparr> else st)\<lparr>ps_last_seq := of_nat k, ps_have_seq := True\<rparr>"
    using numbered_parts(1,2) [OF len, of fill "of_nat k"] len
    by (simp add: st1_def note_seq_def Let_def del: to_le_numeral)
  have "counted len (ks @ [k]) st2"
  proof (cases "ks = []")
    case True
    then show ?thesis using c numbered_parts(1) [OF len, of fill "of_nat k"] by (simp add: counted_def st2_def n)
  next
    case False
    have g: "(of_nat k :: u64) > of_nat (last ks) + 1 \<longleftrightarrow> k > last ks + 1" using seq_gap [OF k(2) [OF False] k(1)] .
    have l: "ps_last_seq st = of_nat (last ks)" "ps_have_seq st"
      "ps_lost st + of_nat (length ks) = of_nat (last ks) + 1 - of_nat (hd ks)"
      using c False by (simp_all add: counted_def)
    have lost: "ps_lost st2 + of_nat (length ks) + 1 = of_nat k + 1 - of_nat (hd ks)"
    proof (cases "k > last ks + 1")
      case True
      then have "ps_lost st2 = ps_lost st + (of_nat k - of_nat (last ks) - 1)" using g l by (simp add: st2_def n)
      then have "ps_lost st2 + of_nat (length ks) + 1 = (ps_lost st + of_nat (length ks)) + (of_nat k - of_nat (last ks))"
        by simp
      then show ?thesis unfolding l(3) by simp
    next
      case no: False
      then have "k = last ks + 1" using k(2) [OF False] by simp
      moreover have "ps_lost st2 = ps_lost st" using g l no by (simp add: st2_def n)
      ultimately show ?thesis using l(3) by (simp add: algebra_simps)
    qed
    have "ps_received st2 = of_nat (length (ks @ [k]))" "ps_bytes st2 = of_nat (length (ks @ [k]) * len)"
      "ps_last_seq st2 = of_nat k" "ps_have_seq st2"
      using c numbered_parts(1) [OF len, of fill "of_nat k"] by (simp_all add: counted_def st2_def n algebra_simps)
    then show ?thesis using c False lost by (simp add: counted_def st2_def n algebra_simps)
  qed
  then show ?thesis
    using counted_report [of len "ks @ [k]" st2 now]
    by (simp add: on_message_def st1_def [symmetric] st2_def [symmetric] Let_def)
qed

lemma counted_lost:
  assumes "counted len ks st" "sorted_wrt (<) ks" "ks \<noteq> []" "last ks < 2 ^ 63"
  shows "unat (ps_lost st) = card ({hd ks..last ks} - set ks)"
proof -
  have s: "distinct ks" "sorted ks" using assms(2) by (simp_all add: strict_sorted_iff)
  have sub: "set ks \<subseteq> {hd ks..last ks}"
  proof
    fix k assume "k \<in> set ks"
    then obtain i where i: "i < length ks" "k = ks ! i" by (auto simp: in_set_conv_nth)
    have "ks ! 0 \<le> ks ! i" "ks ! i \<le> ks ! (length ks - 1)" using s(2) i(1) by (simp_all add: sorted_nth_mono)
    then show "k \<in> {hd ks..last ks}" using assms(3) i by (simp add: hd_conv_nth last_conv_nth)
  qed
  define d where "d = card ({hd ks..last ks} - set ks)"
  have le: "hd ks \<le> last ks" using sub hd_in_set [OF assms(3)] by auto
  have "card {hd ks..last ks} = d + length ks"
    using card_Diff_subset [OF finite_set sub] card_mono [OF finite_atLeastAtMost sub] distinct_card [OF s(1)] by (simp add: d_def)
  then have e: "last ks + 1 = d + length ks + hd ks" using le by simp
  have "of_nat (last ks) + 1 - of_nat (hd ks) = (of_nat (d + length ks) :: u64)"
  proof -
    have "(of_nat (last ks) + 1 :: u64) = of_nat (d + length ks + hd ks)" using e by (metis of_nat_add of_nat_1)
    then show ?thesis by simp
  qed
  then have "ps_lost st = of_nat d" using assms(1,3) by (simp add: counted_def)
  moreover have "d < 2 ^ 64" using e assms(4) by simp
  ultimately show ?thesis by (simp add: unat_of_nat_word d_def)
qed

text \<open>The publishing loop on a stream: the numbers it sends are consecutive.\<close>

lemma report_counts:
  "pp_sent (pub_report now len st) = pp_sent st" "pp_failed (pub_report now len st) = pp_failed st"
  by (simp_all add: pub_report_def)

lemma perf_pub_numbers:
  assumes s: "stream_socket net handle inp out" "handle \<ge> 0" "ctx_shm g = None"
    and c: "steady clock out" and t: "cstr topic \<noteq> []" "length (cstr topic) < BC_MAX_TOPIC_LEN"
    and len: "8 \<le> len" "len \<le> BC_MAX_PAYLOAD_LEN"
  shows "pp_sent st = of_nat k \<Longrightarrow> pp_failed st = 0 \<Longrightarrow>
    \<exists>e st' y j. perf_pub_loop n (Suc tries) clock net handle topic d len st g x = Some (e, st', g, y) \<and>
      pp_sent st' = of_nat (k + j) \<and> pp_failed st' = 0 \<and>
      out y = out x @ concat (map (perf_frame topic len) [k..<k + j]) \<and> (e \<or> j = n)"
proof (induction n arbitrary: st x k)
  case 0
  then show ?case by (intro exI [of _ False] exI [of _ st] exI [of _ x] exI [of _ 0]) simp
next
  case (Suc n)
  obtain now x1 where x1: "ck_now clock x = (now, x1)" by (meson surj_pair)
  have o1: "out x1 = out x" using steadyD [OF c x1] .
  show ?case
  proof (cases "ck_reached clock now (pp_start st) d")
    case True
    then show ?thesis using Suc.prems x1 o1
      by (intro exI [of _ True] exI [of _ st] exI [of _ x1] exI [of _ 0]) simp
  next
    case False
    let ?p = "numbered_payload 0x5a len (of_nat k)"
    have ok: "sendable [] topic ?p"
      using t len numbered_parts(1) [OF len(1)] by (simp add: sendable_def cstr_def bc_limits)
    obtain x2 where w: "bc_write_ex net handle [] topic ?p None g x1 = Some (Inr (length ?p), g, x2)"
      "out x2 = out x1 @ perf_frame topic len k"
      using client_write_law [OF s ok, of None x1] by (auto simp: perf_frame_def cstr_def)
    have u: "publish_until (Suc tries) net handle topic (numbered_payload 0x5a len (pp_sent st + pp_failed st)) g x1 =
        Some (Some (Inr (length ?p)), g, x2)"
      using Suc.prems w(1) by (simp add: bc_write_def)
    obtain now3 x3 where x3: "ck_now clock x2 = (now3, x3)" by (meson surj_pair)
    have o3: "out x3 = out x @ perf_frame topic len k" using steadyD [OF c x3] w(2) o1 by simp
    let ?st = "count_write (Inr (length ?p)) st"
    let ?st3 = "if ck_reached clock now3 (pp_last_report ?st) 1 then pub_report now3 len ?st else ?st"
    have "pp_sent ?st3 = of_nat (Suc k)" "pp_failed ?st3 = 0"
      using Suc.prems by (simp_all add: count_write_def report_counts)
    from Suc.IH [OF this, of x3] obtain e st' y j where
      r: "perf_pub_loop n (Suc tries) clock net handle topic d len ?st3 g x3 = Some (e, st', g, y)"
        "pp_sent st' = of_nat (Suc k + j)" "pp_failed st' = 0"
        "out y = out x3 @ concat (map (perf_frame topic len) [Suc k..<Suc k + j])" "e \<or> j = n" by blast
    have "out y = out x @ concat (map (perf_frame topic len) [k..<k + Suc j])"
      using r(4) o3 by (simp add: upt_rec [of k])
    moreover have "perf_pub_loop (Suc n) (Suc tries) clock net handle topic d len st g x = Some (e, st', g, y)"
      using r(1) False u by (simp add: x1 x3 Let_def del: publish_until.simps)
    ultimately show ?thesis using r(2,3,5) by (intro exI [of _ e] exI [of _ st'] exI [of _ y] exI [of _ "Suc j"]) auto
  qed
qed

text \<open>A delivery of the daemon that brings the publisher's message \<open>k\<close>.\<close>

definition perf_message :: "nat \<Rightarrow> nat \<Rightarrow> bc_message \<Rightarrow> bool" where
  "perf_message len k m \<longleftrightarrow> k < 2 ^ 63 \<and> fits_caller m BC_MAX_TOPIC_LEN BC_MAX_PAYLOAD_LEN \<and>
     m_payload m = numbered_payload 0x5a len (of_nat k)"

lemma on_message_start: "ps_start (on_message clock now p st) = ps_start st"
  by (simp add: on_message_def note_seq_def report_interval_def Let_def)

lemma perf_sub_counts:
  assumes s: "stream_socket net handle inp out" "handle \<ge> 0" "ctx_shm g = None"
    and c: "steady clock inp" and len: "8 \<le> len"
  shows "counted len seen st \<Longrightarrow> sorted_wrt (<) (seen @ ks) \<Longrightarrow> \<forall>k \<in> set ks. perf_message len k (ms k) \<Longrightarrow>
    inp x = concat (map (\<lambda>k. deliver_frame (ms k)) ks) @ rest \<Longrightarrow>
    \<exists>e st' y j. perf_sub_loop (length ks) clock net handle d st g x = Some (e, st', g, y) \<and>
      j \<le> length ks \<and> e \<noteq> Read_Broken \<and> (e = Running \<longrightarrow> j = length ks) \<and> counted len (seen @ take j ks) st' \<and>
      inp y = concat (map (\<lambda>k. deliver_frame (ms k)) (drop j ks)) @ rest"
proof (induction ks arbitrary: seen st x)
  case Nil
  then show ?case by (intro exI [of _ Running] exI [of _ st] exI [of _ x] exI [of _ 0]) simp
next
  case (Cons k ks)
  obtain now x1 where x1: "ck_now clock x = (now, x1)" by (meson surj_pair)
  have i1: "inp x1 = inp x" using steadyD [OF c x1] .
  show ?case
  proof (cases "ck_reached clock now (ps_start st) d")
    case True
    then show ?thesis using Cons.prems x1 i1
      by (intro exI [of _ Time_Up] exI [of _ st] exI [of _ x1] exI [of _ 0]) simp
  next
    case False
    have m: "perf_message len k (ms k)" using Cons.prems(3) by simp
    then have f: "fits_caller (ms k) BC_MAX_TOPIC_LEN BC_MAX_PAYLOAD_LEN" "m_payload (ms k) = numbered_payload 0x5a len (of_nat k)"
      "k < 2 ^ 63" by (simp_all add: perf_message_def)
    have "inp x1 = deliver_frame (ms k) @ concat (map (\<lambda>k. deliver_frame (ms k)) ks) @ rest" using Cons.prems(4) i1 by simp
    from delivery_roundtrip_core [OF s f(1) this, of "zeros BC_MAX_TOPIC_LEN" 100] obtain x2 where
      r: "bc_read net handle (zeros BC_MAX_TOPIC_LEN) BC_MAX_TOPIC_LEN BC_MAX_PAYLOAD_LEN 100 g x1 =
          Some (Inr (cstr (m_topic (ms k)) @ [0], numbered_payload 0x5a len (of_nat k)), g, x2)"
        "inp x2 = concat (map (\<lambda>k. deliver_frame (ms k)) ks) @ rest" unfolding f(2) by blast
    obtain now3 x3 where x3: "ck_now clock x2 = (now3, x3)" by (meson surj_pair)
    have i3: "inp x3 = concat (map (\<lambda>k. deliver_frame (ms k)) ks) @ rest" using steadyD [OF c x3] r(2) by simp
    let ?st = "on_message clock now3 (numbered_payload 0x5a len (of_nat k)) st"
    have last: "last seen < k" if "seen \<noteq> []" using Cons.prems(2) last_in_set [OF that] by (auto simp: sorted_wrt_append)
    have c3: "counted len (seen @ [k]) ?st" by (rule counted_message [OF Cons.prems(1) f(3) last len])
    have "sorted_wrt (<) ((seen @ [k]) @ ks)" "\<forall>k \<in> set ks. perf_message len k (ms k)" using Cons.prems(2,3) by simp_all
    from Cons.IH [OF c3 this i3] obtain e st' y j where
      l: "perf_sub_loop (length ks) clock net handle d ?st g x3 = Some (e, st', g, y)" "j \<le> length ks" "e \<noteq> Read_Broken"
        "e = Running \<longrightarrow> j = length ks" "counted len ((seen @ [k]) @ take j ks) st'"
        "inp y = concat (map (\<lambda>k. deliver_frame (ms k)) (drop j ks)) @ rest" by blast
    have "perf_sub_loop (length (k # ks)) clock net handle d st g x = Some (e, st', g, y)"
      using l(1) False by (simp add: x1 r(1) x3)
    then show ?thesis using l(2-6)
      by (intro exI [of _ e] exI [of _ st'] exI [of _ y] exI [of _ "Suc j"]) simp
  qed
qed

text \<open>
  C21. The loss meter is exact. Whatever messages of one publisher reach the subscriber in order,
  with any of them missing, and in however many pieces the socket brings them, what it has
  counted when its time is up or all have been read is how many it read and
  how many numbers between the first and the last of these did not come; and the lines it has
  logged add up to its totals at the last of them.
\<close>
theorem perf_loss_exact:
  assumes "stream_socket net handle inp out" "handle \<ge> 0" "ctx_shm g = None" "steady clock inp"
    and "8 \<le> len" "sorted_wrt (<) ks" "\<forall>k \<in> set ks. perf_message len k (ms k)"
    and "inp x = concat (map (\<lambda>k. deliver_frame (ms k)) ks) @ rest"
  shows "\<exists>e st y got left. perf_sub_loop (length ks) clock net handle d (perf_begin start) g x = Some (e, st, g, y) \<and>
    e \<noteq> Read_Broken \<and> ks = got @ left \<and> (e = Running \<longrightarrow> left = []) \<and>
    inp y = concat (map (\<lambda>k. deliver_frame (ms k)) left) @ rest \<and>
    unat (ps_received st) = length got \<and> ps_bytes st = of_nat (length got * len) \<and>
    unat (ps_lost st) = (if got = [] then 0 else card ({hd got..last got} - set got)) \<and>
    logged iv_done (ps_log st) = ps_last_received st \<and> logged iv_missed (ps_log st) = ps_last_lost st"
proof -
  have s: "sorted_wrt (<) ([] @ ks)" using assms(6) by simp
  obtain e st y j where r: "perf_sub_loop (length ks) clock net handle d (perf_begin start) g x = Some (e, st, g, y)"
    "j \<le> length ks" "e \<noteq> Read_Broken" "e = Running \<longrightarrow> j = length ks" "counted len ([] @ take j ks) st"
    "inp y = concat (map (\<lambda>k. deliver_frame (ms k)) (drop j ks)) @ rest"
    using perf_sub_counts [OF assms(1-5) counted_begin s assms(7,8)] by blast
  let ?got = "take j ks"
  have small: "k < 2 ^ 63" if "k \<in> set ?got" for k
    using assms(7) in_set_takeD [OF that] by (auto simp: perf_message_def)
  have sorted: "sorted_wrt (<) ?got" using assms(6) by (rule sorted_wrt_take)
  have "length ?got \<le> 2 ^ 63"
  proof -
    have "card (set ?got) \<le> card {..<(2 :: nat) ^ 63}" by (rule card_mono) (use small in auto)
    moreover have "distinct ?got" using sorted by (simp add: strict_sorted_iff)
    ultimately show ?thesis by (simp add: distinct_card del: length_take)
  qed
  then have n: "unat (ps_received st) = length ?got"
    using r(5) by (simp add: counted_def unat_of_nat_word)
  have "unat (ps_lost st) = (if ?got = [] then 0 else card ({hd ?got..last ?got} - set ?got))"
  proof (cases "?got = []")
    case True
    then show ?thesis using r(5) by (simp only: counted_def append.simps) simp
  next
    case False
    have "counted len ?got st" using r(5) by simp
    from counted_lost [OF this sorted False small [OF last_in_set [OF False]]] show ?thesis using False by simp
  qed
  moreover have "ps_bytes st = of_nat (length ?got * len)" "logged iv_done (ps_log st) = ps_last_received st"
    "logged iv_missed (ps_log st) = ps_last_lost st" using r(5) by (simp_all only: counted_def append.simps)
  moreover have "e = Running \<longrightarrow> drop j ks = []" using r(4) by simp
  ultimately show ?thesis using r(1,3,6) n append_take_drop_id [of j ks, symmetric] by blast
qed

text \<open>Three of five messages, through a pipe.\<close>

definition perf_sample :: "nat \<Rightarrow> bc_message" where
  "perf_sample k = empty_message\<lparr>m_topic := canon BC_MAX_TOPIC_LEN (str ''a/b''), m_payload := numbered_payload 0x5a 8 (of_nat k)\<rparr>"

lemma perf_sample_message: "k < 2 ^ 63 \<Longrightarrow> perf_message 8 k (perf_sample k)"
  by (simp add: perf_message_def perf_sample_def fits_caller_def encodable_def numbered_parts(1) canon_simps str_samples
      empty_message_def bc_limits)

definition pipe_clock :: "(nat, byte list \<times> byte list) clock" where
  "pipe_clock = \<lparr>ck_now = (\<lambda>(i, w). (length w, i, w @ [0])), ck_reached = (\<lambda>now since n. since + n \<le> now)\<rparr>"

lemma perf_loss_exact_witness:
  "\<exists>e st y got left. perf_sub_loop (length [0, 1, 4 :: nat]) pipe_clock pipe_net 3 60 (perf_begin 0) no_context
      (concat (map (\<lambda>k. deliver_frame (perf_sample k)) [0, 1, 4]) @ [7], []) = Some (e, st, no_context, y) \<and>
    e \<noteq> Read_Broken \<and> [0, 1, 4 :: nat] = got @ left \<and> (e = Running \<longrightarrow> left = []) \<and>
    fst y = concat (map (\<lambda>k. deliver_frame (perf_sample k)) left) @ [7] \<and>
    unat (ps_received st) = length got \<and> ps_bytes st = of_nat (length got * 8) \<and>
    unat (ps_lost st) = (if got = [] then 0 else card ({hd got..last got} - set got)) \<and>
    logged iv_done (ps_log st) = ps_last_received st \<and> logged iv_missed (ps_log st) = ps_last_lost st"
proof (rule perf_loss_exact [OF pipe_stream])
  show "steady pipe_clock fst" by (simp add: steady_def pipe_clock_def split_beta)
qed (simp_all add: no_context_def perf_sample_message)

end
