(* ===== verification/File_Check.thy ===== *)
theory File_Check
  imports File_Session Protocol "HOL-Library.Sublist"
begin

text \<open>
  What a receiver has checked when it reports success, for packets from anywhere: damaged, from
  several senders, or made up. Every file it keeps is accounted for by packets it has read.
\<close>

section \<open>The packets a file is made of\<close>

type_synonym packet = "bc_file_pkt_hdr \<times> byte list"

fun packets :: "byte list \<Rightarrow> file_read list \<Rightarrow> packet list" where
  "packets topic [] = []"
| "packets topic (Inl n # reads) = packets topic reads"
| "packets topic (Inr (rx_topic, payload) # reads) =
     (if strcmp_eq rx_topic topic
      then (case parse_file_packet payload of Inl _ \<Rightarrow> packets topic reads | Inr p \<Rightarrow> p # packets topic reads)
      else packets topic reads)"

definition version_2 :: "packet \<Rightarrow> bool" where
  "version_2 p \<longleftrightarrow> (fp_reserved (fst p) AND BC_FILE_PKT_FLAG_V2) \<noteq> 0"

text \<open>A START that opens the transfer \<open>tid\<close> of \<open>n\<close> bytes on the channel.\<close>

definition opens :: "byte list \<Rightarrow> packet \<Rightarrow> nat \<Rightarrow> u32 \<Rightarrow> bool" where
  "opens channel p n tid \<longleftrightarrow> fp_type (fst p) = BC_FILE_PKT_START \<and> fp_value (fst p) = of_nat n \<and>
     (\<exists>tid0. parse_start_meta (snd p) channel (version_2 p) tid0 = (BC_OK, tid))"

text \<open>The data packets numbered from 0 on, whose contents make up the file.\<close>

definition carry :: "bool \<Rightarrow> u32 \<Rightarrow> packet list \<Rightarrow> byte list \<Rightarrow> bool" where
  "carry v2 tid ps file \<longleftrightarrow>
     (\<forall>i < length ps. fp_type (fst (ps ! i)) = BC_FILE_PKT_DATA \<and> fp_value (fst (ps ! i)) = of_nat i \<and>
        (v2 \<longrightarrow> version_2 (ps ! i))) \<and>
     file = concat (map (\<lambda>p. if v2 then strip tid (snd p) else snd p) ps)"

text \<open>An END of the transfer that announces this checksum.\<close>

definition closes :: "bool \<Rightarrow> u32 \<Rightarrow> packet \<Rightarrow> u32 \<Rightarrow> bool" where
  "closes v2 tid p crc \<longleftrightarrow> fp_type (fst p) = BC_FILE_PKT_END \<and> fp_value (fst p) = crc \<and>
     (v2 \<longrightarrow> version_2 p \<and> length (snd p) = 4 \<and> of_le (snd p) = tid)"

definition accounted :: "byte list \<Rightarrow> packet list \<Rightarrow> byte list \<Rightarrow> bool" where
  "accounted channel ps file \<longleftrightarrow> (\<exists>start datas fin tid.
     subseq (start # datas) ps \<and> fin \<in> set ps \<and> opens channel start (length file) tid \<and>
     carry (version_2 start) tid datas file \<and> closes (version_2 start) tid fin (bc_crc32 file))"

section \<open>The invariant of the receive loop\<close>

text \<open>Packets read before the file is created leave the state as it was, up to the transfer id.\<close>

definition waiting :: "recv_state \<Rightarrow> bool" where
  "waiting s \<longleftrightarrow> \<not> rv_got_start s \<and> rv_file s = None \<and> rv_crc s = 0xffffffff \<and> rv_received s = 0 \<and>
     rv_expected_seq s = 0 \<and> \<not> rv_got_end s"

definition receiving :: "byte list \<Rightarrow> packet list \<Rightarrow> recv_state \<Rightarrow> bool" where
  "receiving channel ps s \<longleftrightarrow> rv_got_start s \<and> (\<exists>start datas file tid0. rv_file s = Some file \<and>
     subseq (start # datas) ps \<and> fp_type (fst start) = BC_FILE_PKT_START \<and> fp_value (fst start) = rv_expected_size s \<and>
     version_2 start = rv_v2 s \<and> parse_start_meta (snd start) channel (rv_v2 s) tid0 = (BC_OK, rv_transfer_id s) \<and>
     carry (rv_v2 s) (rv_transfer_id s) datas file \<and>
     rv_expected_seq s = of_nat (length datas) \<and> rv_received s = of_nat (length file) \<and>
     rv_crc s = bc_file_crc32_update 0xffffffff file \<and>
     (rv_got_end s \<longrightarrow> (\<exists>fin \<in> set ps. closes (rv_v2 s) (rv_transfer_id s) fin (rv_end_crc s))))"

definition state_ok :: "byte list \<Rightarrow> packet list \<Rightarrow> recv_state \<Rightarrow> bool" where
  "state_ok channel ps s \<longleftrightarrow> waiting s \<or> receiving channel ps s"

definition stop_ok :: "byte list \<Rightarrow> packet list \<Rightarrow> bc_status \<Rightarrow> file_left \<Rightarrow> bool" where
  "stop_ok channel ps rc left \<longleftrightarrow> (case left of Written file \<Rightarrow> rc = BC_OK \<and> accounted channel ps file | _ \<Rightarrow> rc \<noteq> BC_OK)"

definition outcome_ok :: "byte list \<Rightarrow> packet list \<Rightarrow> recv_outcome \<Rightarrow> bool" where
  "outcome_ok channel ps r \<longleftrightarrow> (case r of Go s \<Rightarrow> state_ok channel ps s | Stop rc left \<Rightarrow> stop_ok channel ps rc left)"

lemma outcome_ok_simps [simp]:
  "outcome_ok channel ps (Go s) = state_ok channel ps s"
  "outcome_ok channel ps (Stop rc left) = stop_ok channel ps rc left"
  by (simp_all add: outcome_ok_def)

lemma stop_ok_simps [simp]:
  "stop_ok channel ps rc (Written file) \<longleftrightarrow> rc = BC_OK \<and> accounted channel ps file"
  "stop_ok channel ps rc Removed \<longleftrightarrow> rc \<noteq> BC_OK" "stop_ok channel ps rc Untouched \<longleftrightarrow> rc \<noteq> BC_OK"
  by (simp_all add: stop_ok_def)

lemma subseq_more: "subseq xs ps \<Longrightarrow> subseq xs (ps @ qs)"
  using list_emb_append_mono [of "(=)" xs ps "[]" qs] by simp

lemma stop_more: "stop_ok channel ps rc left \<Longrightarrow> stop_ok channel (ps @ qs) rc left"
proof (cases left)
  case (Written f)
  assume "stop_ok channel ps rc left"
  then have a: "rc = BC_OK" "accounted channel ps f" using Written by simp_all
  then have "accounted channel (ps @ qs) f"
    unfolding accounted_def using subseq_more by (metis UnI1 set_append)
  then show ?thesis using a(1) Written by simp
qed simp_all

lemma state_ok_more: "state_ok channel ps s \<Longrightarrow> state_ok channel (ps @ qs) s"
  unfolding state_ok_def receiving_def using subseq_more by (metis UnI1 set_append)

lemma receivingE:
  assumes "receiving channel ps s" "rv_file s = Some content"
  obtains start datas tid0 where "subseq (start # datas) ps" "fp_type (fst start) = BC_FILE_PKT_START"
    "fp_value (fst start) = rv_expected_size s" "version_2 start = rv_v2 s"
    "parse_start_meta (snd start) channel (rv_v2 s) tid0 = (BC_OK, rv_transfer_id s)"
    "carry (rv_v2 s) (rv_transfer_id s) datas content" "rv_expected_seq s = of_nat (length datas)"
    "rv_received s = of_nat (length content)" "rv_crc s = bc_file_crc32_update 0xffffffff content" "rv_got_start s"
    "rv_got_end s \<longrightarrow> (\<exists>fin \<in> set ps. closes (rv_v2 s) (rv_transfer_id s) fin (rv_end_crc s))"
proof -
  from assms(1) obtain start datas f tid0 where a: "rv_file s = Some f" "subseq (start # datas) ps"
    "fp_type (fst start) = BC_FILE_PKT_START" "fp_value (fst start) = rv_expected_size s" "version_2 start = rv_v2 s"
    "parse_start_meta (snd start) channel (rv_v2 s) tid0 = (BC_OK, rv_transfer_id s)"
    "carry (rv_v2 s) (rv_transfer_id s) datas f" "rv_expected_seq s = of_nat (length datas)"
    "rv_received s = of_nat (length f)" "rv_crc s = bc_file_crc32_update 0xffffffff f" "rv_got_start s"
    "rv_got_end s \<longrightarrow> (\<exists>fin \<in> set ps. closes (rv_v2 s) (rv_transfer_id s) fin (rv_end_crc s))"
    unfolding receiving_def by blast
  have "f = content" using a(1) assms(2) by simp
  then show thesis using that a(2-) by blast
qed

lemma carry_more:
  assumes "carry v2 tid datas file" "fp_type (fst p) = BC_FILE_PKT_DATA" "fp_value (fst p) = of_nat (length datas)"
    "v2 \<longrightarrow> version_2 p" "data = (if v2 then strip tid (snd p) else snd p)"
  shows "carry v2 tid (datas @ [p]) (file @ data)"
  using assms by (auto simp: carry_def nth_append less_Suc_eq)

text \<open>The end: size and checksum agree.\<close>

lemma recv_finish_ok:
  assumes r: "receiving channel ps s" and "rv_file s = Some file" "rv_got_end s" "rv_received s = rv_expected_size s"
  shows "outcome_ok channel ps (fst (recv_finish env channel topic file s w))"
proof (cases "rv_end_crc s = NOT (rv_crc s)")
  case False
  then show ?thesis by (simp add: recv_finish_def)
next
  case True
  obtain start datas tid0 where
    a: "subseq (start # datas) ps" "fp_type (fst start) = BC_FILE_PKT_START" "fp_value (fst start) = rv_expected_size s"
      "version_2 start = rv_v2 s" "parse_start_meta (snd start) channel (rv_v2 s) tid0 = (BC_OK, rv_transfer_id s)"
      "carry (rv_v2 s) (rv_transfer_id s) datas file" "rv_received s = of_nat (length file)"
      "rv_crc s = bc_file_crc32_update 0xffffffff file"
      "rv_got_end s \<longrightarrow> (\<exists>fin \<in> set ps. closes (rv_v2 s) (rv_transfer_id s) fin (rv_end_crc s))"
    by (rule receivingE [OF r assms(2)]) blast
  obtain fin where e: "fin \<in> set ps" "closes (rv_v2 s) (rv_transfer_id s) fin (rv_end_crc s)" using a(9) assms(3) by blast
  have "opens channel start (length file) (rv_transfer_id s)"
    using a(2-5,7) assms(4) by (auto simp: opens_def)
  moreover have "closes (rv_v2 s) (rv_transfer_id s) fin (bc_crc32 file)"
    using a(8) e(2) True by (simp add: bc_crc32_def)
  ultimately have "accounted channel ps file"
    unfolding accounted_def using a(1,4,6) e(1)
    by (intro exI [of _ start] exI [of _ datas] exI [of _ fin] exI [of _ "rv_transfer_id s"]) simp
  then show ?thesis using True by (simp add: recv_finish_def)
qed

lemma recv_start_ok:
  assumes "state_ok channel ps s" "fp_type hdr = BC_FILE_PKT_START"
  shows "outcome_ok channel (ps @ [(hdr, extra)]) (recv_start sink channel hdr extra s)"
proof (cases "rv_got_start s")
  case True
  then show ?thesis using state_ok_more [OF assms(1)] by (simp add: recv_start_def)
next
  case False
  then have w: "waiting s" using assms(1) by (auto simp: state_ok_def receiving_def)
  let ?v2 = "version_2 (hdr, extra)"
  obtain rc tid where p: "parse_start_meta extra channel ?v2 (rv_transfer_id s) = (rc, tid)" by force
  have u: "waiting (s\<lparr>rv_transfer_id := tid\<rparr>)" using w by (simp add: waiting_def)
  let ?s = "s\<lparr>rv_transfer_id := tid, rv_expected_size := fp_value hdr, rv_file := Some [], rv_got_start := True, rv_v2 := ?v2\<rparr>"
  have "receiving channel (ps @ [(hdr, extra)]) ?s" if "rc = BC_OK"
    unfolding receiving_def
    by (intro conjI exI [of _ "(hdr, extra)"] exI [of _ "[]"] exI [of _ "rv_transfer_id s"])
      (use p that w assms(2) in \<open>auto simp: waiting_def carry_def subseq_singleton_left\<close>)
  then show ?thesis
    using p u False by (auto simp: recv_start_def Let_def version_2_def state_ok_def)
qed

lemma recv_data_ok:
  assumes r: "receiving channel ps s" and f: "rv_file s = Some file" and t: "fp_type hdr = BC_FILE_PKT_DATA"
  shows "outcome_ok channel (ps @ [(hdr, extra)]) (fst (recv_data env sink channel topic hdr extra file s w))"
proof -
  let ?p = "(hdr, extra)" and ?data = "packet_data s extra"
  have same: "state_ok channel (ps @ [?p]) s" using state_ok_more r unfolding state_ok_def by blast
  obtain start datas tid0 where
    a: "subseq (start # datas) ps" "fp_type (fst start) = BC_FILE_PKT_START" "fp_value (fst start) = rv_expected_size s"
      "version_2 start = rv_v2 s" "parse_start_meta (snd start) channel (rv_v2 s) tid0 = (BC_OK, rv_transfer_id s)"
      "carry (rv_v2 s) (rv_transfer_id s) datas file" "rv_expected_seq s = of_nat (length datas)"
      "rv_received s = of_nat (length file)" "rv_crc s = bc_file_crc32_update 0xffffffff file" "rv_got_start s"
      "rv_got_end s \<longrightarrow> (\<exists>fin \<in> set ps. closes (rv_v2 s) (rv_transfer_id s) fin (rv_end_crc s))"
    by (rule receivingE [OF r f]) blast
  let ?s = "s\<lparr>rv_file := Some (file @ ?data), rv_crc := bc_file_crc32_update (rv_crc s) ?data,
      rv_received := rv_received s + of_nat (length ?data), rv_expected_seq := rv_expected_seq s + 1\<rparr>"
  have next_ok: "receiving channel (ps @ [?p]) ?s"
    if v: "\<not> (rv_v2 s \<and> (fp_reserved hdr AND BC_FILE_PKT_FLAG_V2) = 0)" and q: "fp_value hdr = rv_expected_seq s"
  proof -
    have d: "?data = (if rv_v2 s then strip (rv_transfer_id s) extra else extra)"
      by (simp add: packet_data_def strip_def)
    have "carry (rv_v2 s) (rv_transfer_id s) (datas @ [?p]) (file @ ?data)"
      by (rule carry_more [OF a(6)]) (use t q a(7) v d in \<open>auto simp: version_2_def\<close>)
    moreover have "subseq (start # datas @ [?p]) (ps @ [?p])"
      using list_emb_append_mono [OF a(1), of "[?p]" "[?p]"] by simp
    ultimately show ?thesis
      unfolding receiving_def
      by (intro conjI exI [of _ start] exI [of _ "datas @ [?p]"] exI [of _ "file @ ?data"] exI [of _ tid0])
        (use a in \<open>auto simp: crc_update_append\<close>)
  qed
  show ?thesis
    using same next_ok recv_finish_ok [OF next_ok, where ?file = "file @ ?data" and env = env and topic = topic and w = w]
    by (auto simp: recv_data_def Let_def state_ok_def)
qed

lemma recv_end_ok:
  assumes r: "receiving channel ps s" and f: "rv_file s = Some file" and t: "fp_type hdr = BC_FILE_PKT_END"
  shows "outcome_ok channel (ps @ [(hdr, extra)]) (fst (recv_end env channel topic hdr extra file s w))"
proof -
  let ?p = "(hdr, extra)" and ?s = "s\<lparr>rv_got_end := True, rv_end_crc := fp_value hdr\<rparr>"
  have same: "state_ok channel (ps @ [?p]) s" using state_ok_more r unfolding state_ok_def by blast
  obtain start datas tid0 where
    a: "subseq (start # datas) ps" "fp_type (fst start) = BC_FILE_PKT_START" "fp_value (fst start) = rv_expected_size s"
      "version_2 start = rv_v2 s" "parse_start_meta (snd start) channel (rv_v2 s) tid0 = (BC_OK, rv_transfer_id s)"
      "carry (rv_v2 s) (rv_transfer_id s) datas file" "rv_expected_seq s = of_nat (length datas)"
      "rv_received s = of_nat (length file)" "rv_crc s = bc_file_crc32_update 0xffffffff file" "rv_got_start s"
    by (rule receivingE [OF r f]) blast
  have ended: "receiving channel (ps @ [?p]) ?s"
    if "rv_v2 s \<longrightarrow> version_2 ?p \<and> length extra = 4 \<and> of_le extra = rv_transfer_id s"
  proof -
    have "closes (rv_v2 s) (rv_transfer_id s) ?p (fp_value hdr)" using t that by (simp add: closes_def)
    moreover have "?p \<in> set (ps @ [?p])" by simp
    ultimately show ?thesis
      using a f unfolding receiving_def
      by (intro conjI exI [of _ start] exI [of _ datas] exI [of _ "file"] exI [of _ tid0])
        (use subseq_more [OF a(1), of "[?p]"] in \<open>auto simp del: split_paired_Ex\<close>)
  qed
  show ?thesis
    using same ended recv_finish_ok [OF ended, of "file" env topic w] f
    by (auto simp: recv_end_def Let_def state_ok_def version_2_def)
qed

lemma recv_packet_ok:
  assumes "state_ok channel ps s"
  shows "case parse_file_packet payload of
      Inl _ \<Rightarrow> recv_packet env sink channel topic payload s w = (Go s, w)
    | Inr p \<Rightarrow> outcome_ok channel (ps @ [p]) (fst (recv_packet env sink channel topic payload s w))"
proof (cases "parse_file_packet payload")
  case (Inl e)
  then show ?thesis by (simp add: recv_packet_def)
next
  case (Inr p)
  obtain hdr extra where p: "p = (hdr, extra)" by force
  have same: "state_ok channel (ps @ [p]) s" using assms by (rule state_ok_more)
  show ?thesis
  proof (cases "fp_type hdr = BC_FILE_PKT_START")
    case True
    then show ?thesis using recv_start_ok [OF assms] Inr p by (simp add: recv_packet_def)
  next
    case False
    show ?thesis
    proof (cases "rv_got_start s")
      case True
      then have r: "receiving channel ps s" using assms by (auto simp: state_ok_def waiting_def)
      then obtain "file" where f: "rv_file s = Some file" by (auto simp: receiving_def)
      show ?thesis
        using recv_data_ok [OF r f, of hdr extra env sink topic w] recv_end_ok [OF r f, of hdr extra env topic w] same Inr p False True f by (simp add: recv_packet_def)
    next
      case False
      then show ?thesis using same Inr p \<open>fp_type hdr \<noteq> BC_FILE_PKT_START\<close> by (simp add: recv_packet_def)
    qed
  qed
qed

lemma recv_timeout_ok: "recv_timeout env channel topic s w = (rc, left, w') \<Longrightarrow> stop_ok channel ps rc left"
  by (auto simp: recv_timeout_def split: if_splits)

lemma recv_loop_ok:
  "state_ok channel ps s \<Longrightarrow> Inl BC_OK \<notin> set reads \<Longrightarrow>
     recv_file_loop env sink channel topic reads s w = (rc, left, w') \<Longrightarrow>
     stop_ok channel (ps @ packets topic reads) rc left"
proof (induction reads arbitrary: ps s w)
  case Nil
  then show ?case using recv_timeout_ok by simp
next
  case (Cons r reads)
  show ?case
  proof (cases r)
    case (Inl n)
    then show ?thesis using Cons.prems recv_timeout_ok by (auto split: if_splits)
  next
    case (Inr y)
    obtain t payload where y: "y = (t, payload)" by force
    show ?thesis
    proof (cases "strcmp_eq t topic")
      case False
      then show ?thesis using Cons Inr y by simp
    next
      case True
      obtain o1 w1 where o: "recv_packet env sink channel topic payload s w = (o1, w1)" by force
      note k = recv_packet_ok [OF Cons.prems(1), where payload = payload and env = env and sink = sink and topic = topic and w = w]
      show ?thesis
      proof (cases o1)
        case (Go s1)
        then have l: "recv_file_loop env sink channel topic reads s1 w1 = (rc, left, w')"
          using Cons.prems(3) Inr y True o by simp
        show ?thesis
        proof (cases "parse_file_packet payload")
          case (Inl e)
          then have "s1 = s" using k o Go by simp
          then show ?thesis using Cons.IH [OF Cons.prems(1), of w1] l Cons.prems(2) \<open>r = Inr y\<close> y True Inl by simp
        next
          case (Inr p)
          have "state_ok channel (ps @ [p]) s1" using k Inr o Go by simp
          from Cons.IH [OF this _ l] show ?thesis using Cons.prems(2) Inr \<open>r = Inr y\<close> y True by simp
        qed
      next
        case (Stop n l)
        then have e: "n = rc" "l = left" using Cons.prems(3) Inr y True o by auto
        obtain p where p: "parse_file_packet payload = Inr p" "stop_ok channel (ps @ [p]) rc left"
          using k o Stop e by (cases "parse_file_packet payload") auto
        show ?thesis using stop_more [OF p(2), of "packets topic reads"] p(1) Inr y True by simp
      qed
    qed
  qed
qed

text \<open>
  C14. Whatever packets arrive - lost, repeated, reordered, damaged or from elsewhere - a receiver that
  reports success has checked the file it keeps: among the packets it read on the topic there are, in this order, a START
  that opens a transfer of exactly this many bytes on this channel, and data packets numbered 0, 1, 2, \<open>...\<close> whose contents
  are the file; and there is an END of that transfer that announces the checksum of the file. In all other cases no file is left,
  or none was touched. (A read that fails has an error as its status. Sizes and numbers are compared as the
  32-bit values of the packets.)
\<close>

theorem received_file_checked:
  assumes "recv_file_path env sink channel topic path reads w = (rc, left, w')" and "Inl BC_OK \<notin> set reads"
  shows "case left of Written file \<Rightarrow> rc = BC_OK \<and> accounted channel (packets topic reads) file | _ \<Rightarrow> rc \<noteq> BC_OK"
proof -
  have "state_ok channel [] recv_init" by (simp add: state_ok_def waiting_def recv_init_def)
  from recv_loop_ok [OF this assms(2)] have "stop_ok channel (packets topic reads) rc left"
    using assms(1) by (auto simp: recv_file_path_def split: if_splits prod.splits)
  then show ?thesis by (simp add: stop_ok_def)
qed

text \<open>A transfer with packets repeated and out of order, and the same with an END of another file.\<close>

definition shuffled :: "byte list list" where
  "shuffled = map (arrival_packet three_pieces (start_meta (str ''f'') (cstr []) 9) 9)
     [Start, Piece 1, Piece 0, Start, Piece 1, End, Piece 2]"

lemma shuffled_received:
  "\<exists>ps. recv_file_path log_file_env free_sink [] (str ''t'') (str ''g'') (on_topic (str ''t'') shuffled) [] =
     (BC_OK, Written [1, 2, 3, 4, 5, 6], ps)"
proof -
  let ?as = "[Start, Piece 1, Piece 0, Start, Piece 1, End, Piece 2]"
  have ok: "list_all (arrival_ok three_pieces) ?as" by (simp add: three_pieces_def)
  have "spec_run (length three_pieces) (intact 9 three_pieces) ?as Waiting =
      (Complete, [Silent, Nack 0, Silent, Silent, Silent, Nack 2, Acknowledge])"
    by (simp add: three_pieces_def intact_def strip_def)
  from recv_path_run [OF three_pieces_ok _ ok sample_names this, of "start_meta (str ''f'') (cstr []) 9" "[]"]
  show ?thesis using sample_meta [of 9] by (simp add: outcome_def shuffled_def three_pieces_def)
qed

lemma received_file_checked_witness:
  "accounted [] (packets (str ''t'') (on_topic (str ''t'') shuffled)) [1, 2, 3, 4, 5, 6]"
proof -
  obtain ps where r: "recv_file_path log_file_env free_sink [] (str ''t'') (str ''g'') (on_topic (str ''t'') shuffled) [] =
     (BC_OK, Written [1, 2, 3, 4, 5, 6], ps)" using shuffled_received by blast
  have "Inl BC_OK \<notin> set (on_topic (str ''t'') shuffled)" by (auto simp: on_topic_def)
  from received_file_checked [OF r this] show ?thesis by simp
qed

end
