(* ===== verification/Kcp_Bytes.thy ===== *)
theory Kcp_Bytes
  imports Kcp_Wire
begin

unbundle bit_operations_syntax

text \<open>
  The integers in the header of a KCP datagram (\<^verbatim>\<open>ikcp.c\<close>), which the code writes byte by byte on
  machines that are big-endian or must align (\<open>bytewise\<close>) and copies on the others. The
  definitions of \<open>Kcp\<close> use the copies; both are the same, so that two machines of different
  kinds understand each other.
\<close>

definition ikcp_encode8u :: "byte \<Rightarrow> byte list" where
  "ikcp_encode8u c = [c]"

definition ikcp_decode8u :: "byte list \<Rightarrow> byte \<times> byte list" where
  "ikcp_decode8u p = (p ! 0, drop 1 p)"

definition ikcp_encode16u :: "bool \<Rightarrow> u16 \<Rightarrow> byte list" where
  "ikcp_encode16u bytewise w =
     (if bytewise then [ucast (w AND 255), ucast (drop_bit 8 w)] else to_le 2 w)"

definition ikcp_decode16u :: "bool \<Rightarrow> byte list \<Rightarrow> u16 \<times> byte list" where
  "ikcp_decode16u bytewise p =
     (if bytewise then
        let w = ucast (p ! 1) :: u16;
            w = ucast (p ! 0) + push_bit 8 w in w
      else of_le (take 2 p), drop 2 p)"

definition ikcp_encode32u :: "bool \<Rightarrow> u32 \<Rightarrow> byte list" where
  "ikcp_encode32u bytewise l =
     (if bytewise then [ucast (drop_bit 0 l AND 0xff), ucast (drop_bit 8 l AND 0xff), ucast (drop_bit 16 l AND 0xff),
        ucast (drop_bit 24 l AND 0xff)]
      else to_le 4 l)"

definition ikcp_decode32u :: "bool \<Rightarrow> byte list \<Rightarrow> u32 \<times> byte list" where
  "ikcp_decode32u bytewise p =
     (if bytewise then
        let l = ucast (p ! 3) :: u32;
            l = ucast (p ! 2) + push_bit 8 l;
            l = ucast (p ! 1) + push_bit 8 l;
            l = ucast (p ! 0) + push_bit 8 l in l
      else of_le (take 4 p), drop 4 p)"

lemma low_byte: "(ucast ((w :: 'a::len word) AND 255) :: byte) = ucast w"
proof -
  have "w AND 255 = take_bit 8 w" by (simp add: take_bit_eq_mask mask_eq_exp_minus_1)
  then show ?thesis by (intro bit_word_eqI) (auto simp: bit_simps dest: bit_imp_le_length)
qed

lemma encode_bytewise: "ikcp_encode16u b w = to_le 2 w" "ikcp_encode32u b l = to_le 4 l"
  by (simp_all add: ikcp_encode16u_def ikcp_encode32u_def low_byte)

lemma add_byte: "(ucast (c :: byte) :: 'a::len word) + push_bit 8 w = ucast c OR push_bit 8 w"
proof (rule disjunctive_add_eq_or)
  have "\<not> bit c i" if "8 \<le> i" for i using that bit_imp_le_length [of c i] by auto
  then show "(ucast c :: 'a word) AND push_bit 8 w = 0" by (intro bit_word_eqI) (auto simp: bit_simps)
qed

lemma decode_bytewise:
  "2 \<le> length p \<Longrightarrow> ikcp_decode16u b p = (of_le (take 2 p), drop 2 p)"
  "4 \<le> length p \<Longrightarrow> ikcp_decode32u b p = (of_le (take 4 p), drop 4 p)"
proof -
  assume "2 \<le> length p"
  then obtain c0 c1 q where "p = c0 # c1 # q"
    by (auto simp: numeral_2_eq_2 Suc_le_length_iff)
  then show "ikcp_decode16u b p = (of_le (take 2 p), drop 2 p)" by (simp add: ikcp_decode16u_def add_byte)
next
  assume "4 \<le> length p"
  then obtain c0 c1 c2 c3 q where "p = c0 # c1 # c2 # c3 # q"
    by (auto simp: numeral_eq_Suc Suc_le_length_iff)
  then show "ikcp_decode32u b p = (of_le (take 4 p), drop 4 p)" by (simp add: ikcp_decode32u_def add_byte)
qed

text \<open>The header of a segment is written and read alike by both kinds of machine.\<close>

definition encode_header :: "bool \<Rightarrow> kseg \<Rightarrow> byte list" where
  "encode_header bytewise seg =
     ikcp_encode32u bytewise (sg_conv seg) @ ikcp_encode8u (ucast (sg_cmd seg)) @ ikcp_encode8u (ucast (sg_frg seg)) @
     ikcp_encode16u bytewise (ucast (sg_wnd seg)) @ ikcp_encode32u bytewise (sg_ts seg) @
     ikcp_encode32u bytewise (sg_sn seg) @ ikcp_encode32u bytewise (sg_una seg) @ ikcp_encode32u bytewise (seg_len seg)"

definition decode_header :: "bool \<Rightarrow> byte list \<Rightarrow> kseg \<times> u32" where
  "decode_header bytewise data =
     (case ikcp_decode32u bytewise data of (conv, data) \<Rightarrow>
      case ikcp_decode8u data of (cmd, data) \<Rightarrow>
      case ikcp_decode8u data of (frg, data) \<Rightarrow>
      case ikcp_decode16u bytewise data of (wnd, data) \<Rightarrow>
      case ikcp_decode32u bytewise data of (ts, data) \<Rightarrow>
      case ikcp_decode32u bytewise data of (sn, data) \<Rightarrow>
      case ikcp_decode32u bytewise data of (una, data) \<Rightarrow>
      case ikcp_decode32u bytewise data of (len, data) \<Rightarrow>
        (\<lparr>sg_conv = conv, sg_cmd = ucast cmd, sg_frg = ucast frg, sg_wnd = ucast wnd, sg_ts = ts, sg_sn = sn,
          sg_una = una, sg_resendts = 0, sg_rto = 0, sg_fastack = 0, sg_xmit = 0, sg_data = []\<rparr>, len))"

lemma encode_header_same: "encode_header b seg = ikcp_encode_seg seg"
  by (simp add: encode_header_def ikcp_encode_seg_def encode_bytewise ikcp_encode8u_def)

lemma of_le_widen:
  "of_le [c] = (ucast c :: 'a::len word)"
  "length bs = 2 \<Longrightarrow> of_le bs = (ucast (of_le bs :: u16) :: u32)"
  by simp (intro bit_word_eqI; auto simp: bit_of_le bit_simps simp del: of_le.simps)

lemma decode_header_same:
  assumes "IKCP_OVERHEAD \<le> length data"
  shows "decode_header b data = decode_seg data"
proof -
  have w: "of_le (take 2 (drop 6 data)) = (ucast (of_le (take 2 (drop 6 data)) :: u16) :: u32)"
    by (rule of_le_widen(2)) (use assms in \<open>simp add: IKCP_OVERHEAD_def\<close>)
  have "take (Suc 0) (drop i data) = [data ! i]" if "i < 24" for i
    using assms that by (simp add: take_Suc_conv_app_nth IKCP_OVERHEAD_def)
  then show ?thesis
    using assms by (simp add: decode_header_def decode_seg_def decode_bytewise ikcp_decode8u_def fld_def
      IKCP_OVERHEAD_def w of_le_widen(1) del: of_le.simps)
qed

end
