(* ===== verification/Spec2Isabelle.thy ===== *)
theory Spec2Isabelle
  imports Topic_Match Config Router Fragment Main_Loop Client_Stream Client_Transmit Tcp_Reconnect
    File_Session Uart_Link Reactor Kcp_Tunnel Daemon_Ready Daemon_Safe Shm_Session Board_To_Board Log
    Examples_Run File_Check Kcp_Bytes
begin

text \<open>
  A verification library of boardcommd, a daemon that connects the processes of one board with
  each other and with other boards. Local clients talk to the daemon over a Unix socket or a
  shared-memory ring (\<^verbatim>\<open>src/daemon/client_manager.c\<close>, \<^verbatim>\<open>src/shm/bc_shm.c\<close>). Their requests reach the
  message bus (\<^verbatim>\<open>message_bus.c\<close>), which delivers to subscribed clients and sends frames
  (\<^verbatim>\<open>protocol.c\<close>, \<^verbatim>\<open>fragment.c\<close>) on the transport that the router (\<^verbatim>\<open>router.c\<close>) picks under the
  configuration (\<^verbatim>\<open>config.c\<close>). The receive loop of \<^verbatim>\<open>main.c\<close> cuts what a transport receives into
  frames and hands the messages to the bus.

  Theories, each named after the part it models, with the same function names as the code:

  \<^item> \<open>Prelude\<close>: status codes, C arrays and strings, little-endian fields;
    \<open>Crc32\<close>, \<open>Protocol\<close>: the checksum and the network frame codec; \<open>Topic_Match\<close>: patterns;
    \<open>Fragment\<close>: splitting and reassembly; \<open>Config\<close>: the configuration file over a model of
    \<^verbatim>\<open>fgets\<close> and \<^verbatim>\<open>sscanf\<close>; \<open>Router\<close>: the routing decision.
  \<^item> \<open>Message_Bus\<close>: subscriptions, delivery, publishing and inbound messages over an environment
    \<open>bus_env\<close> of deliveries and transports; \<open>Bus_Traces\<close>: its behaviour as the list of what it
    delivers and sends; \<open>Bus_World\<close>: what every operation of the bus keeps of its environment.
  \<^item> \<open>Framing\<close>: cutting a byte stream into frames, as a locale; \<open>Main_Loop\<close>: the network
    receive path, an instance of it.
  \<^item> \<open>Ipc_Protocol\<close>, \<open>Shm_Ring\<close>, \<open>Byte_Queue\<close>: the header of the local protocol, the shared
    rings, and the contract of a transmit queue; \<open>Client_Manager\<close>: the clients;
    \<open>Client_Receive\<close>, \<open>Client_Stream\<close>, \<open>Client_Transmit\<close>: their receiving side, the requests in a
    client's stream, and the sending side with admission and shut-down.
  \<^item> \<open>Bc_Client\<close>, \<open>Client_Link\<close>, \<open>Client_Read\<close>: the client library (\<^verbatim>\<open>api/bc_client.c\<close>), and what
    it says to the daemon and hears from it; \<open>File_Transfer\<close>, \<open>File_Receiver\<close>, \<open>File_Session\<close>: sending
    files over it (\<^verbatim>\<open>api/bc_file.c\<close>), the receiver as a counter of pieces, and a whole transfer;
    \<open>File_Check\<close>: what a file reported as received has been checked against.
  \<^item> \<open>Shm_Session\<close>: creating, attaching and closing shared memory over the descriptors and mappings of a
    process; \<open>Log\<close>: log lines (\<^verbatim>\<open>src/log/log.c\<close>); \<open>Board_To_Board\<close>: the parts put together, from a client of one board to a client of another.
  \<^item> \<open>Reactor\<close>: registered descriptors and the event loop (\<^verbatim>\<open>reactor.c\<close>).
  \<^item> \<open>Endpoint\<close>, \<open>Tcp_Transport\<close>, \<open>Tcp_Link\<close>, \<open>Tcp_Reconnect\<close>: TCP links, the order of the bytes
    they send, and their life over all calls; \<open>Uart_Transport\<close>, \<open>Uart_Link\<close>: the same for serial
    lines; \<open>Udp_Transport\<close>: datagrams and how the daemon handles them.
  \<^item> \<open>Kcp\<close>: the reliability protocol (\<^verbatim>\<open>src/transport/udp/kcp/ikcp.c\<close>); \<open>Kcp_Receiver\<close>, \<open>Kcp_Wire\<close>,
    \<open>Kcp_Sender\<close>, \<open>Kcp_Flush\<close>, \<open>Kcp_Session\<close>: what its receiving side, its datagrams, its sending side and
    flushing keep; \<open>Kcp_Bytes\<close>: its integers on machines of the other byte order; \<open>Kcp_Link\<close>: two ends over a network that loses, repeats and reorders datagrams;
    \<open>Kcp_Reliable\<close>: what the protocol promises; \<open>Kcp_Transport\<close>: the transport over it
    (\<^verbatim>\<open>udp_kcp_transport.c\<close>); \<open>Kcp_Tunnel\<close>: from daemon to daemon.
  \<^item> \<open>Transport_Ops\<close>: a transport as a table of operations and an untyped private structure
    (\<^verbatim>\<open>transport.h\<close>); \<open>Transport_Manager\<close>: which transports there are (\<^verbatim>\<open>transport_manager.c\<close>);
    \<open>Daemon_Start\<close>: \<^verbatim>\<open>main\<close> from the start to every way out; \<open>Daemon_Ready\<close>: what a started daemon hears,
    where it can route, and that it closes everything; \<open>Daemon_World\<close>: what the client manager and the
    bus keep of the descriptors around them; \<open>Daemon_Loop\<close>: the running daemon, the reactor's loop with the
    callbacks of \<^verbatim>\<open>main.c\<close>, the clients and the transports on one state; \<open>Daemon_Safe\<close>: its invariant.
  \<^item> \<open>Examples\<close>: the programs of \<^verbatim>\<open>src/examples\<close> over the client library and the file transfer;
    \<open>File_World\<close>: what a file transfer keeps of the connection it uses; \<open>Examples_Run\<close>: what the
    programs give back, and what the measuring pair measures.

  Correspondence. A C array of bytes is a list of its whole length, a buffer with a length field
  the list of its valid bytes, a struct a record, and a status a value of \<open>bc_status\<close>. What the
  operating system answers is an argument: a list of results of successive calls, whose end
  means that the call would block, a record of answers, or functions on a world. Behaviour that
  C leaves undefined and accesses out of bounds are \<open>None\<close> or set a fault flag of the state.
  The byte order is little-endian. Null-pointer guards are left out, and the calls that write log lines.

  What the lemmas show. For each codec a round trip and what its decoder accepts; for each
  table its history or invariant; for the bus exactly which deliveries and frames an operation
  causes; for each stream that how the reads and writes fall does not matter; for the rings a
  refinement of a queue of frames; for TCP and serial lines an invariant of the reachable states; for
  KCP that the messages received are the first of those sent, whatever the network does with the
  datagrams, that nothing is lost once everything is acknowledged, and that a fragment whose timer has
  run out is sent again and moves the other end on; for the operation tables that no call meets
  a private structure of another kind; for the program that every way out closes what was
  opened but for the descriptors the code loses, and that the running daemon, whatever events come and whatever the
  system answers, keeps its buffers, transports and registrations consistent with each other; for the example programs
  that they close the sockets and shared memory they open and that the loss meter is exact; for two boards that what a client publishes to the other is what the subscriber there
  reads. Where the code does not do what it means to, a theorem says what it does instead. The memory faults
  of the code (a client used after it was freed, a ring of size 0, send buffers that overflow, shifts that overflow) are
  recorded in flags of the states, \<open>mg_fault\<close>, \<open>tc_fault\<close>, \<open>ua_fault\<close>, and shown to occur by lemmas of their own;
  the statements on the whole daemon and on the order of bytes also cover runs in which such a flag is set, and promise nothing
  about the memory then.

  Bounds and fuel. Loops whose end depends on the data are functions with a measure, or recurse
  on the list of system call results. Only draining a ring has fuel, one step for each byte
  the ring announces: each frame read takes at least four, and it is proved that this is enough.
  The loops of the example programs end with the clock or an error of the system, so they have fuel too, a unit for
  each round: a program whose fuel is used up is still running, and the theorems say what holds then.
  The theorems on KCP hold for up to \<open>2 ^ 30\<close> fragments in each direction of a session: beyond that
  the 32-bit sequence numbers, which the code compares by their difference, could come round while an old
  datagram is still under way. A datagram arrives only if the other end has sent it; nothing is assumed on
  when or how often.

  Not modelled: of KCP the congestion control operations, the log writer and the allocator hooks, none of which the
  program installs; of the socket options and line settings those that only tune the system; of the
  example programs the rates, which are floating-point quotients of the modelled counts, and the pauses; the
  build files. In the running daemon what a transport
  registers, receives and reports is any answer of its operations, whose own models are the theories
  of the transports. A plugin is a parameter: functions on its descriptor and state.
\<close>

end
